(* ===== verification/Prelude.thy ===== *)
theory Prelude
  imports
    Complex_Main
    "HOL-Library.AList"
    "HOL-Library.Char_ord"
    "HOL-Library.List_Lexorder"
    "HOL-Library.Multiset"
    "HOL-Library.Product_Lexorder"
begin

text \<open>
  The vocabulary every component theory shares: the program's exception classes, results that
  are either an exception or a value, loops that stop at the first exception, and the pieces of
  Python's standard library the sources use on sequences, dictionaries and strings
  (insertion-ordered \<open>dict\<close>, \<open>dict.fromkeys\<close>, \<open>sorted(set(...))\<close>, \<open>str.strip\<close>,
  \<open>str.partition\<close>, \<open>str.splitlines\<close>).

  A Python \<open>str\<close> is a list of characters; HOL's \<^typ>\<open>char\<close> covers the code points 0 to 255, so
  the model ranges over strings in that block, ordered by code point as in Python.
  A timezone-aware \<open>datetime\<close> is the number of microseconds since the epoch, in UTC.
  A \<open>float\<close> confidence is a rational.
\<close>

type_synonym datetime = int
type_synonym confidence = rat
type_synonym 'v dict = "(string \<times> 'v) list"

named_theorems res_simps \<open>evaluation of the exception plumbing\<close>
named_theorems py_simps \<open>characterisations of the Python library functions\<close>

section \<open>Exceptions\<close>

text \<open>The exception classes of the sources, with the arguments their constructors keep.\<close>

datatype exn =
    ValueError string
  | KeyError string
  | TypeError string
  | ValidationError string
  | StaleGraphVersion int int
  | DuplicateIdentity string
  | UnknownIdentity string
  | ContradictoryChangeSet string
  | CaseEffectsRequireExecutor
  | EvidenceStoreError string
  | ConflictingEvidenceId string
  | LegacyAssociationRequired string
  | CaseStoreError string
  | ConflictingCaseId string
  | ConflictingCaseFingerprint string
  | InvalidCaseTransition string string
  | MissingResolutionEvidence string
  | CaseEffectMismatch
  | ResolutionUnavailable
  | StaleCheckpoint string
  | TransactionRecoveryError
  | MutationStoreError string
  | ConflictingMutationId
  | ReceiptStoreError string
  | WritePlanError
  | ApprovalError
  | ExecutionUnavailable
  | WriteCommitError
  | AuthorizationError
  | IntentProposalStoreError
  | StopIteration
  | UnsafePathError
  | RuntimeError string
  | HistoryStoreError string
  | CheckpointStoreError string
  | IndexError string

type_synonym 'a res = "exn + 'a"

section \<open>Results and loops that may raise\<close>

definition res_bind :: "'a res \<Rightarrow> ('a \<Rightarrow> 'b res) \<Rightarrow> 'b res" where
  "res_bind m f = (case m of Inl e \<Rightarrow> Inl e | Inr x \<Rightarrow> f x)"

text \<open>A \<open>for\<close> loop over \<open>xs\<close> that updates a state and stops at the first exception.\<close>

fun fold_res :: "('a \<Rightarrow> 's \<Rightarrow> 's res) \<Rightarrow> 'a list \<Rightarrow> 's \<Rightarrow> 's res" where
  "fold_res f [] s = Inr s"
| "fold_res f (x # xs) s = (case f x s of Inl e \<Rightarrow> Inl e | Inr s' \<Rightarrow> fold_res f xs s')"

text \<open>A \<open>for\<close> loop that only checks.\<close>

fun check_all :: "('a \<Rightarrow> exn option) \<Rightarrow> 'a list \<Rightarrow> unit res" where
  "check_all f [] = Inr ()"
| "check_all f (x # xs) = (case f x of Some e \<Rightarrow> Inl e | None \<Rightarrow> check_all f xs)"

lemma res_bind_simps [simp, res_simps]:
  "res_bind (Inl e) f = Inl e"
  "res_bind (Inr x) f = f x"
  by (simp_all add: res_bind_def)

lemma res_bind_Inr_iff [res_simps]:
  "res_bind m f = Inr y \<longleftrightarrow> (\<exists>x. m = Inr x \<and> f x = Inr y)"
  by (cases m) auto

lemma res_bind_Inl_iff:
  "res_bind m f = Inl e \<longleftrightarrow> m = Inl e \<or> (\<exists>x. m = Inr x \<and> f x = Inl e)"
  by (cases m) auto

lemma fold_res_append:
  "fold_res f (xs @ ys) s = res_bind (fold_res f xs s) (fold_res f ys)"
  by (induction xs arbitrary: s) (auto split: sum.splits)

lemma fold_res_invariant:
  assumes "fold_res f xs s = Inr s'" and "P s"
    and "\<And>x t t'. x \<in> set xs \<Longrightarrow> P t \<Longrightarrow> f x t = Inr t' \<Longrightarrow> P t'"
  shows "P s'"
  using assms
proof (induction xs arbitrary: s)
  case Nil
  then show ?case by simp
next
  case (Cons x xs)
  then obtain t where t: "f x s = Inr t" and rest: "fold_res f xs t = Inr s'"
    by (auto split: sum.splits)
  from t Cons.prems have "P t" by auto
  with Cons.IH [OF rest] Cons.prems(3) show ?case by auto
qed

lemma check_all_Inr_iff [res_simps]:
  "check_all f xs = Inr u \<longleftrightarrow> (\<forall>x \<in> set xs. f x = None)"
  by (induction xs) (auto split: option.splits)

lemma check_all_Inl:
  "check_all f xs = Inl e \<Longrightarrow> \<exists>x \<in> set xs. f x = Some e"
  by (induction xs) (auto split: option.splits)

section \<open>Dictionaries in insertion order\<close>

text \<open>
  A Python \<open>dict\<close> keeps the position of a key that is assigned again and appends a new one:
  \<^const>\<open>AList.update\<close> on association lists. \<open>dict_of f xs\<close> is \<open>{f(x): x for x in xs}\<close>.
\<close>

definition dict_of :: "('a \<Rightarrow> string) \<Rightarrow> 'a list \<Rightarrow> 'a dict" where
  "dict_of f xs = fold (\<lambda>x d. AList.update (f x) x d) xs []"

definition dict_values :: "'v dict \<Rightarrow> 'v list" where
  "dict_values d = map snd d"

text \<open>\<open>tuple(d[key] for key in sorted(d))\<close>.\<close>

definition sorted_values :: "'v dict \<Rightarrow> 'v list" where
  "sorted_values d = map (\<lambda>k. the (map_of d k)) (sort (map fst d))"

definition dict_keys_distinct :: "'v dict \<Rightarrow> bool" where
  "dict_keys_distinct d \<longleftrightarrow> distinct (map fst d)"

lemma dict_update_keys_distinct [simp]:
  "distinct (map fst d) \<Longrightarrow> distinct (map fst (AList.update k v d))"
  by (rule distinct_update)

lemma dict_update_new:
  "k \<notin> set (map fst d) \<Longrightarrow> AList.update k v d = d @ [(k, v)]"
  by (induction d) auto

lemma set_keys_update [simp]:
  "set (map fst (AList.update k v d)) = insert k (set (map fst d))"
  by (induction d) auto

lemma fst_set_update [simp]:
  "fst ` set (AList.update k v d) = insert k (fst ` set d)"
  using set_keys_update [of k v d] by simp

lemma dict_update_same: "map_of d k = Some v \<Longrightarrow> distinct (map fst d) \<Longrightarrow> AList.update k v d = d"
  by (induction d) (auto split: if_splits)

lemma map_of_update [simp]: "map_of (AList.update k v d) = (map_of d)(k \<mapsto> v)"
  by (simp add: update_conv')

lemma fold_dict_distinct:
  "distinct (map fst d) \<Longrightarrow> distinct (map fst (fold (\<lambda>x. AList.update (f x) x) xs d))"
  by (induction xs arbitrary: d) simp_all

lemma dict_of_distinct_keys [simp]: "distinct (map fst (dict_of f xs))"
  by (simp add: dict_of_def fold_dict_distinct)

lemma fold_dict_fresh:
  assumes "distinct (map f xs)" and "set (map f xs) \<inter> set (map fst d) = {}"
  shows "fold (\<lambda>x. AList.update (f x) x) xs d = d @ map (\<lambda>x. (f x, x)) xs"
  using assms
proof (induction xs arbitrary: d)
  case Nil
  then show ?case by simp
next
  case (Cons x xs)
  then have "AList.update (f x) x d = d @ [(f x, x)]"
    by (intro dict_update_new) auto
  with Cons show ?case by auto
qed

lemma dict_of_fresh:
  "distinct (map f xs) \<Longrightarrow> dict_of f xs = map (\<lambda>x. (f x, x)) xs"
  using fold_dict_fresh [of f xs "[]"] by (simp add: dict_of_def)

lemma fold_dict_set:
  "fst ` set (fold (\<lambda>x. AList.update (f x) x) xs d) = fst ` set d \<union> f ` set xs"
  by (induction xs arbitrary: d) auto

lemma dict_of_keys [simp]: "fst ` set (dict_of f xs) = f ` set xs"
  using fold_dict_set [of f xs "[]"] by (simp add: dict_of_def)

lemma fold_dict_mem:
  "p \<in> set (fold (\<lambda>x. AList.update (f x) x) xs d) \<Longrightarrow>
     p \<in> set d \<or> (\<exists>x \<in> set xs. p = (f x, x))"
proof (induction xs arbitrary: d)
  case Nil
  then show ?case by simp
next
  case (Cons x xs)
  then have "p \<in> set (AList.update (f x) x d) \<or> (\<exists>y \<in> set xs. p = (f y, y))"
    by simp
  moreover have "set (AList.update (f x) x d) \<subseteq> insert (f x, x) (set d)"
    by (induction d) auto
  ultimately show ?case by auto
qed

lemma dict_of_mem: "(k, x) \<in> set (dict_of f xs) \<Longrightarrow> x \<in> set xs \<and> k = f x"
  using fold_dict_mem [of "(k, x)" f xs "[]"] by (auto simp: dict_of_def)

lemma dict_of_lookup: "map_of (dict_of f xs) k = Some x \<Longrightarrow> x \<in> set xs \<and> f x = k"
  by (auto dest!: map_of_SomeD dict_of_mem)

lemma dict_of_lookup_fresh:
  assumes "distinct (map f xs)" and "x \<in> set xs"
  shows "map_of (dict_of f xs) (f x) = Some x"
proof -
  have "map_of (map (\<lambda>y. (f y, y)) xs) (f x) = Some x"
    using assms by (induction xs) (auto simp: rev_image_eqI)
  with assms(1) show ?thesis by (simp add: dict_of_fresh)
qed

lemma dict_of_lookup_iff:
  "distinct (map f xs) \<Longrightarrow> map_of (dict_of f xs) k = Some x \<longleftrightarrow> x \<in> set xs \<and> f x = k"
  by (metis dict_of_lookup dict_of_lookup_fresh)

lemma dict_of_snoc [simp]: "dict_of f (xs @ [x]) = AList.update (f x) x (dict_of f xs)"
  by (simp add: dict_of_def)

text \<open>A lookup finds the last element with the key.\<close>

lemma dict_of_find: "map_of (dict_of f xs) k = find (\<lambda>x. f x = k) (rev xs)"
proof (induction xs rule: rev_induct)
  case Nil
  then show ?case by (simp add: dict_of_def)
qed auto

lemma dict_of_mem_iff:
  "distinct (map f xs) \<Longrightarrow> (k, x) \<in> set (dict_of f xs) \<longleftrightarrow> x \<in> set xs \<and> f x = k"
  by (metis dict_of_distinct_keys dict_of_lookup_iff map_of_eq_Some_iff)

lemma dict_of_set_cong:
  assumes "distinct (map f xs)" and "distinct (map f ys)" and "set xs = set ys"
  shows "map_of (dict_of f xs) = map_of (dict_of f ys)"
proof -
  have "distinct (map fst (map (\<lambda>x. (f x, x)) xs))" "distinct (map fst (map (\<lambda>x. (f x, x)) ys))"
    using assms(1,2) by (simp_all add: comp_def)
  then show ?thesis
    using assms by (simp add: dict_of_fresh map_of_inject_set del: distinct_map map_map)
qed

lemma sorted_values_cong:
  assumes "distinct (map fst d)" and "distinct (map fst d')" and "map_of d = map_of d'"
  shows "sorted_values d = sorted_values d'"
proof -
  have "set (map fst d) = set (map fst d')"
    using assms(3) by (metis dom_map_of_conv_image_fst list.set_map)
  then have "sort (map fst d) = sort (map fst d')"
    using assms(1,2) by (intro sorted_distinct_set_unique) auto
  with assms(3) show ?thesis by (simp add: sorted_values_def)
qed

lemma set_sorted_values:
  assumes "distinct (map fst d)"
  shows "set (sorted_values d) = snd ` set d"
proof -
  have "(\<lambda>k. the (map_of d k)) ` fst ` set d = snd ` set d"
    using assms by (force simp: image_image)
  then show ?thesis by (simp add: sorted_values_def)
qed

text \<open>When every key is the identity of its value, sorting by key sorts the identities.\<close>

lemma map_sorted_values:
  assumes "\<And>k v. (k, v) \<in> set d \<Longrightarrow> f v = k"
  shows "map f (sorted_values d) = sort (map fst d)"
proof -
  have "f (the (map_of d k)) = k" if "k \<in> fst ` set d" for k
  proof -
    from that obtain v where v: "map_of d k = Some v"
      by (metis imageE map_of_eq_None_iff not_None_eq)
    then have "(k, v) \<in> set d" by (rule map_of_SomeD)
    with v assms show ?thesis by simp
  qed
  then have "map (\<lambda>k. f (the (map_of d k))) (sort (map fst d)) = sort (map fst d)"
    by (intro map_idI) auto
  then show ?thesis by (simp add: sorted_values_def comp_def)
qed

section \<open>Sequences\<close>

text \<open>\<open>dict.fromkeys(xs)\<close>: the first occurrence of every element, in order.\<close>

definition fromkeys :: "'a list \<Rightarrow> 'a list" where
  "fromkeys xs = rev (remdups (rev xs))"

text \<open>\<open>sorted(set(xs))\<close>.\<close>

definition sorted_set :: "'a::linorder list \<Rightarrow> 'a list" where
  "sorted_set xs = sort (remdups xs)"

definition disjoint_lists :: "'a list \<Rightarrow> 'a list \<Rightarrow> bool" where
  "disjoint_lists xs ys \<longleftrightarrow> list_all (\<lambda>x. x \<notin> set ys) xs"

lemma set_fromkeys [simp]: "set (fromkeys xs) = set xs"
  by (simp add: fromkeys_def)

lemma distinct_fromkeys [simp]: "distinct (fromkeys xs)"
  by (simp add: fromkeys_def)

lemma fromkeys_distinct [simp]: "distinct xs \<Longrightarrow> fromkeys xs = xs"
  by (simp add: fromkeys_def distinct_remdups_id)

lemma remdups_append_filter:
  "remdups (xs @ ys) = filter (\<lambda>x. x \<notin> set ys) (remdups xs) @ remdups ys"
  by (induction xs) auto

lemma fromkeys_append:
  "fromkeys (xs @ ys) = fromkeys xs @ filter (\<lambda>y. y \<notin> set xs) (fromkeys ys)"
  by (simp add: fromkeys_def remdups_append_filter rev_filter)

lemma set_sorted_set [simp]: "set (sorted_set xs) = set xs"
  by (simp add: sorted_set_def)

lemma sorted_sorted_set [simp]: "sorted (sorted_set xs)"
  by (simp add: sorted_set_def)

lemma distinct_sorted_set [simp]: "distinct (sorted_set xs)"
  by (simp add: sorted_set_def)

lemma sorted_set_eq_iff [simp]: "sorted_set xs = sorted_set ys \<longleftrightarrow> set xs = set ys"
  by (metis distinct_sorted_set set_sorted_set sorted_distinct_set_unique sorted_sorted_set)

lemma sorted_set_idem: "sorted xs \<Longrightarrow> distinct xs \<Longrightarrow> sorted_set xs = xs"
  by (simp add: sorted_set_def distinct_remdups_id sorted_sort_id)

lemma sorted_set_Nil_iff [simp]: "sorted_set xs = [] \<longleftrightarrow> xs = []"
  by (metis set_empty set_sorted_set)

lemma disjoint_lists_iff [py_simps]: "disjoint_lists xs ys \<longleftrightarrow> set xs \<inter> set ys = {}"
  by (auto simp: disjoint_lists_def list_all_iff)

section \<open>Strings\<close>

text \<open>\<open>str.isspace\<close>, which is also the class \<open>\s\<close> of \<open>re\<close>, on the code points below 256.\<close>

definition is_space :: "char \<Rightarrow> bool" where
  "is_space c \<longleftrightarrow> of_char c \<in> {9, 10, 11, 12, 13, 28, 29, 30, 31, 32, 133, 160 :: nat}"

definition strip :: "string \<Rightarrow> string" where
  "strip s = rev (dropWhile is_space (rev (dropWhile is_space s)))"

text \<open>\<open>not s.strip()\<close>.\<close>

definition is_blank :: "string \<Rightarrow> bool" where
  "is_blank s \<longleftrightarrow> list_all is_space s"

definition starts_with :: "string \<Rightarrow> string \<Rightarrow> bool" where
  "starts_with p s \<longleftrightarrow> take (length p) s = p"

definition removeprefix :: "string \<Rightarrow> string \<Rightarrow> string" where
  "removeprefix p s = (if starts_with p s then drop (length p) s else s)"

text \<open>\<open>s.partition(c)\<close> for a one-character separator: (head, found, tail).\<close>

definition partition_at :: "char \<Rightarrow> string \<Rightarrow> string \<times> bool \<times> string" where
  "partition_at c s =
     (takeWhile (\<lambda>x. x \<noteq> c) s, c \<in> set s, drop 1 (dropWhile (\<lambda>x. x \<noteq> c) s))"

fun join :: "string \<Rightarrow> string list \<Rightarrow> string" where
  "join sep [] = []"
| "join sep [x] = x"
| "join sep (x # y # xs) = x @ sep @ join sep (y # xs)"

text \<open>\<open>str(n)\<close> for integers.\<close>

definition digit_char :: "nat \<Rightarrow> char" where
  "digit_char n = char_of (48 + n)"

fun nat_str :: "nat \<Rightarrow> string" where
  "nat_str n = (if n < 10 then [digit_char n] else nat_str (n div 10) @ [digit_char (n mod 10)])"

declare nat_str.simps [simp del]

definition int_str :: "int \<Rightarrow> string" where
  "int_str i = (if i < 0 then CHR ''-'' # nat_str (nat (- i)) else nat_str (nat i))"

text \<open>
  \<open>str.splitlines()\<close>: every line boundary of the Unicode standard below 256 ends a line, not only
  the newline, and a carriage return followed by a newline is one boundary.
\<close>

definition is_line_break :: "char \<Rightarrow> bool" where
  "is_line_break c \<longleftrightarrow> of_char c \<in> {10, 11, 12, 13, 28, 29, 30, 133 :: nat}"

fun split_line :: "string \<Rightarrow> string \<times> string \<times> string" where
  "split_line [] = ([], [], [])"
| "split_line (c # cs) =
     (if is_line_break c
      then (if c = CHR 0x0D \<and> cs \<noteq> [] \<and> hd cs = CHR 0x0A then ([], [c, CHR 0x0A], tl cs)
            else ([], [c], cs))
      else (let (l, e, r) = split_line cs in (c # l, e, r)))"

lemma split_line_concat: "split_line s = (l, e, r) \<Longrightarrow> l @ e @ r = s"
proof (induction s arbitrary: l)
  case (Cons c cs)
  then show ?case by (cases cs) (auto split: if_splits prod.splits)
qed simp

lemma split_line_shorter: "split_line s = (l, e, r) \<Longrightarrow> s \<noteq> [] \<Longrightarrow> length r < length s"
proof (induction s arbitrary: l)
  case (Cons c cs)
  then show ?case by (cases "cs = []") (auto split: if_splits prod.splits)
qed simp

function splitlines :: "string \<Rightarrow> string list" where
  "splitlines s = (if s = [] then [] else (case split_line s of (l, _, r) \<Rightarrow> l # splitlines r))"
  by pat_completeness auto
termination
  by (relation "measure length") (auto dest: split_line_shorter [OF sym])

text \<open>\<open>str.splitlines(keepends=True)\<close>.\<close>

function splitlines_keep :: "string \<Rightarrow> string list" where
  "splitlines_keep s =
     (if s = [] then [] else (case split_line s of (l, e, r) \<Rightarrow> (l @ e) # splitlines_keep r))"
  by pat_completeness auto
termination
  by (relation "measure length") (auto dest: split_line_shorter [OF sym])

declare splitlines.simps [simp del] splitlines_keep.simps [simp del]

lemma is_blank_strip: "is_blank s \<longleftrightarrow> strip s = []"
proof -
  have "(strip s = []) = (dropWhile is_space (rev (dropWhile is_space s)) = [])"
    by (simp add: strip_def)
  also have "\<dots> = (\<forall>x \<in> set (dropWhile is_space s). is_space x)"
    by (simp add: dropWhile_eq_Nil_conv)
  also have "\<dots> = (\<forall>x \<in> set s. is_space x)"
    by (metis dropWhile_eq_Nil_conv empty_iff hd_dropWhile hd_in_set list.set(1) set_dropWhileD)
  finally show ?thesis by (simp add: is_blank_def list_all_iff)
qed

lemma split_line_no_break:
  "list_all (\<lambda>c. \<not> is_line_break c) l \<Longrightarrow> split_line (l @ CHR 0x0A # r) = (l, [CHR 0x0A], r)"
  by (induction l) (auto simp: is_line_break_def)

text \<open>A text of complete lines: empty, or ending in a newline. Splitting such a text and what
  follows it is splitting each.\<close>

definition complete_lines :: "string \<Rightarrow> bool" where
  "complete_lines s \<longleftrightarrow> s = [] \<or> last s = CHR 0x0A"

lemma complete_lines_append [simp]: "complete_lines s \<Longrightarrow> complete_lines t \<Longrightarrow> complete_lines (s @ t)"
  by (auto simp: complete_lines_def last_append)

lemma complete_lines_newline [simp]: "complete_lines (s @ [CHR 0x0A])" "complete_lines []"
  by (auto simp: complete_lines_def)

lemma split_line_complete:
  assumes "s \<noteq> []" and "complete_lines s"
  shows "split_line (s @ t) = (case split_line s of (l, e, r) \<Rightarrow> (l, e, r @ t)) \<and>
    complete_lines (snd (snd (split_line s)))"
  using assms
proof (induction s)
  case (Cons c cs)
  show ?case
  proof (cases "cs = []")
    case True
    with Cons.prems show ?thesis by (simp add: complete_lines_def is_line_break_def)
  next
    case False
    with Cons show ?thesis
      by (cases cs) (auto simp: complete_lines_def split: prod.splits if_splits)
  qed
qed simp

lemma splitlines_append:
  "complete_lines s \<Longrightarrow> splitlines (s @ t) = splitlines s @ splitlines t"
proof (induction s rule: splitlines.induct)
  case (1 s)
  show ?case
  proof (cases "s = []")
    case False
    obtain l e r where sp: "split_line s = (l, e, r)" by (metis prod.collapse)
    with split_line_complete [OF False "1.prems", of t] have "split_line (s @ t) = (l, e, r @ t)"
      and "complete_lines r" by simp_all
    with "1.IH" [OF False sp [symmetric] refl] sp False show ?thesis
      by (simp add: splitlines.simps [of s] splitlines.simps [of "s @ t"])
  qed (simp add: splitlines.simps)
qed

lemma splitlines_keep_append:
  "complete_lines s \<Longrightarrow> splitlines_keep (s @ t) = splitlines_keep s @ splitlines_keep t"
proof (induction s rule: splitlines_keep.induct)
  case (1 s)
  show ?case
  proof (cases "s = []")
    case False
    obtain l e r where sp: "split_line s = (l, e, r)" by (metis prod.collapse)
    with split_line_complete [OF False "1.prems", of t] have "split_line (s @ t) = (l, e, r @ t)"
      and "complete_lines r" by simp_all
    with "1.IH" [OF False sp [symmetric] refl] sp False show ?thesis
      by (simp add: splitlines_keep.simps [of s] splitlines_keep.simps [of "s @ t"])
  qed (simp add: splitlines_keep.simps)
qed

lemma splitlines_line:
  assumes "list_all (\<lambda>c. \<not> is_line_break c) l"
  shows "splitlines (l @ [CHR 0x0A]) = [l]" and "splitlines_keep (l @ [CHR 0x0A]) = [l @ [CHR 0x0A]]"
  using split_line_no_break [OF assms, of "[]"]
  by (simp_all add: splitlines.simps splitlines_keep.simps)

lemma distinct_map_sort_key: "distinct (map fst (sort_key fst d)) \<longleftrightarrow> distinct (map fst d)"
  by (rule mset_eq_imp_distinct_iff) simp

lemma map_of_sort_key: "distinct (map fst d) \<Longrightarrow> map_of (sort_key fst d) = map_of d"
  by (rule map_of_inject_set [THEN iffD2]) (simp_all add: distinct_map_sort_key)

lemma sort_key_sorted: "sorted (map f xs) \<Longrightarrow> sort_key f xs = xs"
  by (induction xs) (simp_all add: insort_is_Cons)

end
