(* ===== verification/Enums.thy ===== *)
theory Enums
  imports Prelude
begin

text \<open>
  The closed vocabularies of \<open>core/models/enums.py\<close>, one datatype per \<open>StrEnum\<close> with its string
  values. A \<open>StrEnum\<close> is looked up by value (\<open>NodeType(value)\<close>); \<open>node_type_of\<close> is that lookup.
\<close>

section \<open>Node and relation types\<close>

datatype NodeType =
    SOURCE_ARTIFACT | SOURCE_REVISION | EVIDENCE_SPAN | ACTOR | SOURCE_SYSTEM | CONTEXT | NEED
    | PRODUCT_INTENT | DESIRED_OUTCOME | ASSUMPTION | PRINCIPLE | CONSTRAINT | REQUIREMENT
    | CAPABILITY | ACCEPTANCE_CRITERION | DECISION | ARCHITECTURE | INTERFACE | DATA_CONTRACT
    | POLICY | REPOSITORY | MODULE | FILE | SYMBOL | ENDPOINT | SCHEMA | TEST | BUILD_ARTIFACT
    | DEPLOYMENT | METRIC | OBSERVED_OUTCOME | INCIDENT | USER_FEEDBACK | EXPERIMENT_RESULT
    | CHANGESET | RECONCILIATION_CASE | REVIEW_DECISION | OWNER | MILESTONE

primrec node_type_value :: "NodeType \<Rightarrow> string" where
  "node_type_value SOURCE_ARTIFACT = ''SOURCE_ARTIFACT''"
| "node_type_value SOURCE_REVISION = ''SOURCE_REVISION''"
| "node_type_value EVIDENCE_SPAN = ''EVIDENCE_SPAN''"
| "node_type_value ACTOR = ''ACTOR''"
| "node_type_value SOURCE_SYSTEM = ''SOURCE_SYSTEM''"
| "node_type_value CONTEXT = ''CONTEXT''"
| "node_type_value NEED = ''NEED''"
| "node_type_value PRODUCT_INTENT = ''PRODUCT_INTENT''"
| "node_type_value DESIRED_OUTCOME = ''DESIRED_OUTCOME''"
| "node_type_value ASSUMPTION = ''ASSUMPTION''"
| "node_type_value PRINCIPLE = ''PRINCIPLE''"
| "node_type_value CONSTRAINT = ''CONSTRAINT''"
| "node_type_value REQUIREMENT = ''REQUIREMENT''"
| "node_type_value CAPABILITY = ''CAPABILITY''"
| "node_type_value ACCEPTANCE_CRITERION = ''ACCEPTANCE_CRITERION''"
| "node_type_value DECISION = ''DECISION''"
| "node_type_value ARCHITECTURE = ''ARCHITECTURE''"
| "node_type_value INTERFACE = ''INTERFACE''"
| "node_type_value DATA_CONTRACT = ''DATA_CONTRACT''"
| "node_type_value POLICY = ''POLICY''"
| "node_type_value REPOSITORY = ''REPOSITORY''"
| "node_type_value MODULE = ''MODULE''"
| "node_type_value FILE = ''FILE''"
| "node_type_value SYMBOL = ''SYMBOL''"
| "node_type_value ENDPOINT = ''ENDPOINT''"
| "node_type_value SCHEMA = ''SCHEMA''"
| "node_type_value TEST = ''TEST''"
| "node_type_value BUILD_ARTIFACT = ''BUILD_ARTIFACT''"
| "node_type_value DEPLOYMENT = ''DEPLOYMENT''"
| "node_type_value METRIC = ''METRIC''"
| "node_type_value OBSERVED_OUTCOME = ''OBSERVED_OUTCOME''"
| "node_type_value INCIDENT = ''INCIDENT''"
| "node_type_value USER_FEEDBACK = ''USER_FEEDBACK''"
| "node_type_value EXPERIMENT_RESULT = ''EXPERIMENT_RESULT''"
| "node_type_value CHANGESET = ''CHANGESET''"
| "node_type_value RECONCILIATION_CASE = ''RECONCILIATION_CASE''"
| "node_type_value REVIEW_DECISION = ''REVIEW_DECISION''"
| "node_type_value OWNER = ''OWNER''"
| "node_type_value MILESTONE = ''MILESTONE''"

definition node_types :: "NodeType list" where
  "node_types = [
     SOURCE_ARTIFACT, SOURCE_REVISION, EVIDENCE_SPAN, ACTOR, SOURCE_SYSTEM, CONTEXT, NEED
     , PRODUCT_INTENT, DESIRED_OUTCOME, ASSUMPTION, PRINCIPLE, CONSTRAINT, REQUIREMENT
     , CAPABILITY, ACCEPTANCE_CRITERION, DECISION, ARCHITECTURE, INTERFACE, DATA_CONTRACT
     , POLICY, REPOSITORY, MODULE, FILE, SYMBOL, ENDPOINT, SCHEMA, TEST, BUILD_ARTIFACT
     , DEPLOYMENT, METRIC, OBSERVED_OUTCOME, INCIDENT, USER_FEEDBACK, EXPERIMENT_RESULT
     , CHANGESET, RECONCILIATION_CASE, REVIEW_DECISION, OWNER, MILESTONE]"

datatype RelationType =
    AUTHORED_BY | OBSERVED_IN | REVISION_OF | CONTAINS_EVIDENCE | EVIDENCES | DERIVED_FROM
    | MENTIONS | CREATES_NEED | MOTIVATES | SEEKS_OUTCOME | CONSTRAINS | ASSUMES | JUSTIFIES
    | REFINES | SUPERSEDES | CONTRADICTS | REALIZED_BY | SPECIFIED_BY | HAS_ACCEPTANCE_CRITERION
    | DECIDED_BY | DEPENDS_ON | IMPLEMENTS_CAPABILITY | IMPLEMENTED_BY | VERIFIED_BY
    | LOCATED_IN | CALLS | DEPENDS_ON_CODE | CHANGED_BY | DEPLOYED_AS | MEASURED_BY
    | OBSERVED_AS | VALIDATES_OUTCOME | INVALIDATES_ASSUMPTION | AFFECTS | OWNED_BY
    | CREATED_CASE | RESOLVED_BY | PROPOSES_CHANGE_TO | PART_OF_MILESTONE

primrec relation_value :: "RelationType \<Rightarrow> string" where
  "relation_value AUTHORED_BY = ''AUTHORED_BY''"
| "relation_value OBSERVED_IN = ''OBSERVED_IN''"
| "relation_value REVISION_OF = ''REVISION_OF''"
| "relation_value CONTAINS_EVIDENCE = ''CONTAINS_EVIDENCE''"
| "relation_value EVIDENCES = ''EVIDENCES''"
| "relation_value DERIVED_FROM = ''DERIVED_FROM''"
| "relation_value MENTIONS = ''MENTIONS''"
| "relation_value CREATES_NEED = ''CREATES_NEED''"
| "relation_value MOTIVATES = ''MOTIVATES''"
| "relation_value SEEKS_OUTCOME = ''SEEKS_OUTCOME''"
| "relation_value CONSTRAINS = ''CONSTRAINS''"
| "relation_value ASSUMES = ''ASSUMES''"
| "relation_value JUSTIFIES = ''JUSTIFIES''"
| "relation_value REFINES = ''REFINES''"
| "relation_value SUPERSEDES = ''SUPERSEDES''"
| "relation_value CONTRADICTS = ''CONTRADICTS''"
| "relation_value REALIZED_BY = ''REALIZED_BY''"
| "relation_value SPECIFIED_BY = ''SPECIFIED_BY''"
| "relation_value HAS_ACCEPTANCE_CRITERION = ''HAS_ACCEPTANCE_CRITERION''"
| "relation_value DECIDED_BY = ''DECIDED_BY''"
| "relation_value DEPENDS_ON = ''DEPENDS_ON''"
| "relation_value IMPLEMENTS_CAPABILITY = ''IMPLEMENTS_CAPABILITY''"
| "relation_value IMPLEMENTED_BY = ''IMPLEMENTED_BY''"
| "relation_value VERIFIED_BY = ''VERIFIED_BY''"
| "relation_value LOCATED_IN = ''LOCATED_IN''"
| "relation_value CALLS = ''CALLS''"
| "relation_value DEPENDS_ON_CODE = ''DEPENDS_ON_CODE''"
| "relation_value CHANGED_BY = ''CHANGED_BY''"
| "relation_value DEPLOYED_AS = ''DEPLOYED_AS''"
| "relation_value MEASURED_BY = ''MEASURED_BY''"
| "relation_value OBSERVED_AS = ''OBSERVED_AS''"
| "relation_value VALIDATES_OUTCOME = ''VALIDATES_OUTCOME''"
| "relation_value INVALIDATES_ASSUMPTION = ''INVALIDATES_ASSUMPTION''"
| "relation_value AFFECTS = ''AFFECTS''"
| "relation_value OWNED_BY = ''OWNED_BY''"
| "relation_value CREATED_CASE = ''CREATED_CASE''"
| "relation_value RESOLVED_BY = ''RESOLVED_BY''"
| "relation_value PROPOSES_CHANGE_TO = ''PROPOSES_CHANGE_TO''"
| "relation_value PART_OF_MILESTONE = ''PART_OF_MILESTONE''"

definition relation_types :: "RelationType list" where
  "relation_types = [
     AUTHORED_BY, OBSERVED_IN, REVISION_OF, CONTAINS_EVIDENCE, EVIDENCES, DERIVED_FROM, MENTIONS
     , CREATES_NEED, MOTIVATES, SEEKS_OUTCOME, CONSTRAINS, ASSUMES, JUSTIFIES, REFINES
     , SUPERSEDES, CONTRADICTS, REALIZED_BY, SPECIFIED_BY, HAS_ACCEPTANCE_CRITERION, DECIDED_BY
     , DEPENDS_ON, IMPLEMENTS_CAPABILITY, IMPLEMENTED_BY, VERIFIED_BY, LOCATED_IN, CALLS
     , DEPENDS_ON_CODE, CHANGED_BY, DEPLOYED_AS, MEASURED_BY, OBSERVED_AS, VALIDATES_OUTCOME
     , INVALIDATES_ASSUMPTION, AFFECTS, OWNED_BY, CREATED_CASE, RESOLVED_BY, PROPOSES_CHANGE_TO
     , PART_OF_MILESTONE]"

section \<open>Node attributes\<close>

datatype SourceMode =
    EXPLICIT | INFERRED | DERIVED

primrec source_mode_value :: "SourceMode \<Rightarrow> string" where
  "source_mode_value EXPLICIT = ''explicit''"
| "source_mode_value INFERRED = ''inferred''"
| "source_mode_value DERIVED = ''derived''"

datatype ImplementationStatus =
    IMPLEMENTED_BASELINE | PARTIAL | NOT_STARTED | REQUIREMENTS_INCOMPLETE | UNKNOWN
    | STALE_EVIDENCE

primrec implementation_status_value :: "ImplementationStatus \<Rightarrow> string" where
  "implementation_status_value IMPLEMENTED_BASELINE = ''implemented_baseline''"
| "implementation_status_value PARTIAL = ''partial''"
| "implementation_status_value NOT_STARTED = ''not_started''"
| "implementation_status_value REQUIREMENTS_INCOMPLETE = ''requirements_incomplete''"
| "implementation_status_value UNKNOWN = ''unknown''"
| "implementation_status_value STALE_EVIDENCE = ''stale_evidence''"

datatype ChangeKind =
    INITIALIZE | CONFIRM | REFINE | CONTRADICT | SUPERSEDE | DECAY_OR_AMBIGUITY

primrec change_kind_value :: "ChangeKind \<Rightarrow> string" where
  "change_kind_value INITIALIZE = ''initialize''"
| "change_kind_value CONFIRM = ''confirm''"
| "change_kind_value REFINE = ''refine''"
| "change_kind_value CONTRADICT = ''contradict''"
| "change_kind_value SUPERSEDE = ''supersede''"
| "change_kind_value DECAY_OR_AMBIGUITY = ''decay_or_ambiguity''"

section \<open>Reconciliation\<close>

datatype ReconciliationCaseType =
    CODE_LAG | REQUIREMENT_LAG | INTENT_LAG | TEST_LAG | DOC_LAG | UNDOCUMENTED_CODE
    | ORPHAN_REQUIREMENT | CONFLICTING_SOURCES | AMBIGUOUS_DIVERGENCE | POSSIBLE_INTENT_CHANGE

primrec case_type_value :: "ReconciliationCaseType \<Rightarrow> string" where
  "case_type_value CODE_LAG = ''CODE_LAG''"
| "case_type_value REQUIREMENT_LAG = ''REQUIREMENT_LAG''"
| "case_type_value INTENT_LAG = ''INTENT_LAG''"
| "case_type_value TEST_LAG = ''TEST_LAG''"
| "case_type_value DOC_LAG = ''DOC_LAG''"
| "case_type_value UNDOCUMENTED_CODE = ''UNDOCUMENTED_CODE''"
| "case_type_value ORPHAN_REQUIREMENT = ''ORPHAN_REQUIREMENT''"
| "case_type_value CONFLICTING_SOURCES = ''CONFLICTING_SOURCES''"
| "case_type_value AMBIGUOUS_DIVERGENCE = ''AMBIGUOUS_DIVERGENCE''"
| "case_type_value POSSIBLE_INTENT_CHANGE = ''POSSIBLE_INTENT_CHANGE''"

datatype ReconciliationStatus =
    OPEN | NEEDS_HUMAN | PROPOSED | RESOLVED | DEFERRED | FALSE_POSITIVE

primrec case_status_value :: "ReconciliationStatus \<Rightarrow> string" where
  "case_status_value OPEN = ''open''"
| "case_status_value NEEDS_HUMAN = ''needs_human''"
| "case_status_value PROPOSED = ''proposed''"
| "case_status_value RESOLVED = ''resolved''"
| "case_status_value DEFERRED = ''deferred''"
| "case_status_value FALSE_POSITIVE = ''false_positive''"

datatype ResolutionAction =
    UPDATE_IMPLEMENTATION | UPDATE_REQUIREMENT | UPDATE_INTENT | UPDATE_TESTS
    | UPDATE_DOCUMENTATION | BACKFILL_DESIGN_DECISION | SUPERSEDE_REQUIREMENT
    | MERGE_INTERPRETATIONS | PRESERVE_DISAGREEMENT | DEFER | MARK_FALSE_POSITIVE

primrec resolution_action_value :: "ResolutionAction \<Rightarrow> string" where
  "resolution_action_value UPDATE_IMPLEMENTATION = ''update_implementation''"
| "resolution_action_value UPDATE_REQUIREMENT = ''update_requirement''"
| "resolution_action_value UPDATE_INTENT = ''update_intent''"
| "resolution_action_value UPDATE_TESTS = ''update_tests''"
| "resolution_action_value UPDATE_DOCUMENTATION = ''update_documentation''"
| "resolution_action_value BACKFILL_DESIGN_DECISION = ''backfill_design_decision''"
| "resolution_action_value SUPERSEDE_REQUIREMENT = ''supersede_requirement''"
| "resolution_action_value MERGE_INTERPRETATIONS = ''merge_interpretations''"
| "resolution_action_value PRESERVE_DISAGREEMENT = ''preserve_disagreement''"
| "resolution_action_value DEFER = ''defer''"
| "resolution_action_value MARK_FALSE_POSITIVE = ''mark_false_positive''"

section \<open>Lookup by value\<close>

definition node_type_of :: "string \<Rightarrow> NodeType option" where
  "node_type_of s = find (\<lambda>t. node_type_value t = s) node_types"

definition relation_of :: "string \<Rightarrow> RelationType option" where
  "relation_of s = find (\<lambda>t. relation_value t = s) relation_types"

lemma node_types_complete: "t \<in> set node_types"
  by (cases t) (simp_all add: node_types_def)

lemma relation_types_complete: "t \<in> set relation_types"
  by (cases t) (simp_all add: relation_types_def)

lemma node_type_of_value [simp]: "node_type_of (node_type_value t) = Some t"
  by (cases t) (simp_all add: node_type_of_def node_types_def)

lemma relation_of_value [simp]: "relation_of (relation_value t) = Some t"
  by (cases t) (simp_all add: relation_of_def relation_types_def)

lemma node_type_value_inject [simp]: "node_type_value s = node_type_value t \<longleftrightarrow> s = t"
  by (metis node_type_of_value option.inject)

lemma relation_value_inject [simp]: "relation_value s = relation_value t \<longleftrightarrow> s = t"
  by (metis relation_of_value option.inject)

lemma node_type_of_Some: "node_type_of s = Some t \<Longrightarrow> node_type_value t = s"
  by (auto simp: node_type_of_def find_Some_iff)

lemma case_type_value_inject [simp]: "case_type_value s = case_type_value t \<longleftrightarrow> s = t"
  by (cases s; cases t) simp_all

lemma case_status_value_inject [simp]: "case_status_value s = case_status_value t \<longleftrightarrow> s = t"
  by (cases s; cases t) simp_all

lemma resolution_action_value_inject [simp]:
  "resolution_action_value s = resolution_action_value t \<longleftrightarrow> s = t"
  by (cases s; cases t) simp_all

end
