(* ===== verification/Graph_Model.thy ===== *)
theory Graph_Model
  imports Enums
begin

text \<open>
  The canonical intent graph of \<open>core/models/graph.py\<close>: nodes, edges, the registry of namespaced
  node types, and \<open>Graph.assert_invariants\<close>, which runs whenever a graph is constructed.
  \<open>graph_ok\<close> is the declarative well-formedness it decides. A pydantic model raises a
  \<open>ValidationError\<close> (a \<open>ValueError\<close>) with the message of the failing validator.
\<close>

section \<open>Records\<close>

text \<open>\<open>NodeType | str\<close> after \<open>normalize_known_type\<close>.\<close>

datatype node_kind = Builtin NodeType | Extension string

record node =
  nd_id :: string
  nd_type :: node_kind
  nd_label :: string
  nd_status :: string
  nd_created_by :: string
  nd_created_at :: datetime
  nd_last_modified_by :: string
  nd_last_modified_at :: datetime
  nd_source_mode :: "SourceMode option"
  nd_intent_fidelity_confidence :: "confidence option"
  nd_confidence_basis :: "string option"
  nd_last_reassessed_at :: "datetime option"
  nd_implementation_status :: "ImplementationStatus option"
  nd_evidence_refs :: "string list"

record edge =
  ed_id :: string
  ed_from_id :: string
  ed_relation :: RelationType
  ed_to_id :: string
  ed_status :: string
  ed_created_by :: string
  ed_created_at :: datetime
  ed_last_modified_by :: string
  ed_last_modified_at :: datetime
  ed_external :: bool

record graph =
  g_id :: string
  g_version :: int
  g_schema_version :: string
  g_name :: "string option"
  g_purpose :: "string option"
  g_created_at :: "int option"
  g_source_spec :: "string option"
  g_nodes :: "node list"
  g_edges :: "edge list"
  g_extensions :: "string list"

section \<open>Types\<close>

definition kind_value :: "node_kind \<Rightarrow> string" where
  "kind_value k = (case k of Builtin t \<Rightarrow> node_type_value t | Extension s \<Rightarrow> s)"

text \<open>\<open>_NAMESPACED_TYPE.fullmatch\<close>: two nonempty parts around the only colon, no whitespace.\<close>

definition name_part :: "string \<Rightarrow> bool" where
  "name_part s \<longleftrightarrow> s \<noteq> [] \<and> list_all (\<lambda>c. \<not> is_space c \<and> c \<noteq> CHR '':'') s"

definition namespaced_type :: "string \<Rightarrow> bool" where
  "namespaced_type s =
     (case partition_at (CHR '':'') s of (a, found, b) \<Rightarrow> found \<and> name_part a \<and> name_part b)"

definition normalize_known_type :: "string \<Rightarrow> node_kind" where
  "normalize_known_type s = (case node_type_of s of Some t \<Rightarrow> Builtin t | None \<Rightarrow> Extension s)"

definition validate_extensions :: "string list \<Rightarrow> string list res" where
  "validate_extensions extensions =
     res_bind
       (check_all (\<lambda>e. if namespaced_type e then None
                       else Some (ValueError (''extension type must be namespaced: '' @ e)))
          extensions)
       (\<lambda>_. Inr extensions)"

definition assert_registered :: "string list \<Rightarrow> node_kind \<Rightarrow> exn option" where
  "assert_registered extensions k =
     (let value = kind_value k in
      if node_type_of value \<noteq> None then None
      else if \<not> namespaced_type value
      then Some (ValueError (''unknown node type must be namespaced: '' @ value))
      else if value \<notin> set extensions then Some (ValueError (''unregistered node type: '' @ value))
      else None)"

section \<open>Constructors\<close>

definition valid_confidence :: "confidence \<Rightarrow> bool" where
  "valid_confidence c \<longleftrightarrow> 0 \<le> c \<and> c \<le> 1"

definition validate_node :: "node \<Rightarrow> node res" where
  "validate_node n =
     (case nd_intent_fidelity_confidence n of
        Some c \<Rightarrow> if valid_confidence c
          then Inr (n\<lparr>nd_type := normalize_known_type (kind_value (nd_type n))\<rparr>)
          else Inl (ValueError ''intent_fidelity_confidence'')
      | None \<Rightarrow> Inr (n\<lparr>nd_type := normalize_known_type (kind_value (nd_type n))\<rparr>))"

text \<open>An instance of \<open>Node\<close> has been through its validators.\<close>

definition node_valid :: "node \<Rightarrow> bool" where
  "node_valid n \<longleftrightarrow> validate_node n = Inr n"

text \<open>\<open>sorted({item for item in ids if ids.count(item) > 1})\<close>.\<close>

definition duplicates :: "string list \<Rightarrow> string list" where
  "duplicates ids = sorted_set (filter (\<lambda>x. 1 < count_list ids x) ids)"

definition node_error :: "string list \<Rightarrow> node \<Rightarrow> exn option" where
  "node_error extensions n =
     (case assert_registered extensions (nd_type n) of
        Some e \<Rightarrow> Some e
      | None \<Rightarrow>
          if nd_source_mode n \<noteq> None \<and> nd_evidence_refs n = []
          then Some (ValueError (''provenance-backed node requires evidence: '' @ nd_id n))
          else None)"

definition edge_error :: "string list \<Rightarrow> edge \<Rightarrow> exn option" where
  "edge_error known e =
     (if ed_from_id e \<notin> set known then Some (ValueError (''missing node: '' @ ed_from_id e))
      else if \<not> ed_external e \<and> ed_to_id e \<notin> set known
      then Some (ValueError (''missing node: '' @ ed_to_id e))
      else None)"

definition assert_invariants :: "graph \<Rightarrow> unit res" where
  "assert_invariants g =
     (let node_ids = map nd_id (g_nodes g); edge_ids = map ed_id (g_edges g) in
      case duplicates node_ids of
        d # _ \<Rightarrow> Inl (ValueError (''duplicate node id: '' @ d))
      | [] \<Rightarrow>
        (case duplicates edge_ids of
           d # _ \<Rightarrow> Inl (ValueError (''duplicate edge id: '' @ d))
         | [] \<Rightarrow>
             res_bind (check_all (node_error (g_extensions g)) (g_nodes g))
               (\<lambda>_. check_all (edge_error node_ids) (g_edges g))))"

text \<open>Validation of a graph: its field constraints, then \<open>model_post_init\<close>. Nodes and edges are
  instances already, which pydantic does not validate again.\<close>

definition validate_graph :: "graph \<Rightarrow> graph res" where
  "validate_graph g =
     (if g_version g < 0 then Inl (ValueError ''version'')
      else res_bind (validate_extensions (g_extensions g))
        (\<lambda>_. res_bind (assert_invariants g) (\<lambda>_. Inr g)))"

section \<open>Well-formedness\<close>

definition node_ok :: "string list \<Rightarrow> node \<Rightarrow> bool" where
  "node_ok extensions n \<longleftrightarrow>
     (case nd_type n of
        Builtin _ \<Rightarrow> True
      | Extension s \<Rightarrow> node_type_of s \<noteq> None \<or> namespaced_type s \<and> s \<in> set extensions) \<and>
     (nd_source_mode n = None \<or> nd_evidence_refs n \<noteq> [])"

definition edge_ok :: "string set \<Rightarrow> edge \<Rightarrow> bool" where
  "edge_ok known e \<longleftrightarrow> ed_from_id e \<in> known \<and> (ed_external e \<or> ed_to_id e \<in> known)"

definition graph_ok :: "graph \<Rightarrow> bool" where
  "graph_ok g \<longleftrightarrow>
     0 \<le> g_version g \<and> list_all namespaced_type (g_extensions g) \<and>
     distinct (map nd_id (g_nodes g)) \<and> distinct (map ed_id (g_edges g)) \<and>
     (\<forall>n \<in> set (g_nodes g). node_ok (g_extensions g) n) \<and>
     (\<forall>e \<in> set (g_edges g). edge_ok (nd_id ` set (g_nodes g)) e)"

definition lookup_node :: "graph \<Rightarrow> string \<Rightarrow> node option" where
  "lookup_node g = map_of (dict_of nd_id (g_nodes g))"

definition lookup_edge :: "graph \<Rightarrow> string \<Rightarrow> edge option" where
  "lookup_edge g = map_of (dict_of ed_id (g_edges g))"

lemma duplicates_Nil_iff [simp]: "duplicates ids = [] \<longleftrightarrow> distinct ids"
proof -
  have "duplicates ids = [] \<longleftrightarrow> (\<forall>x \<in> set ids. \<not> 1 < count_list ids x)"
    by (simp add: duplicates_def filter_empty_conv)
  also have "\<dots> \<longleftrightarrow> (\<forall>x \<in> set ids. count_list ids x = 1)"
    by (metis count_list_0_iff less_one linorder_neqE_nat)
  also have "\<dots> \<longleftrightarrow> distinct ids"
    by (simp add: count_mset [symmetric] distinct_count_atmost_1 flip: set_mset_mset) 
      (metis count_eq_zero_iff set_mset_mset)
  finally show ?thesis .
qed

lemma assert_registered_None_iff:
  "assert_registered ext k = None \<longleftrightarrow>
     (case k of Builtin _ \<Rightarrow> True
      | Extension s \<Rightarrow> node_type_of s \<noteq> None \<or> namespaced_type s \<and> s \<in> set ext)"
  by (auto simp: assert_registered_def kind_value_def Let_def split: node_kind.splits)

lemma node_error_None_iff: "node_error ext n = None \<longleftrightarrow> node_ok ext n"
  by (auto simp: node_error_def node_ok_def assert_registered_None_iff [symmetric]
      split: option.splits)

lemma edge_error_None_iff: "edge_error known e = None \<longleftrightarrow> edge_ok (set known) e"
  by (auto simp: edge_error_def edge_ok_def)

lemma validate_extensions_Inr_iff:
  "validate_extensions xs = Inr ys \<longleftrightarrow> list_all namespaced_type xs \<and> ys = xs"
  by (auto simp: validate_extensions_def res_simps list_all_iff)

lemma assert_invariants_Inr_iff:
  "assert_invariants g = Inr u \<longleftrightarrow>
     distinct (map nd_id (g_nodes g)) \<and> distinct (map ed_id (g_edges g)) \<and>
     (\<forall>n \<in> set (g_nodes g). node_ok (g_extensions g) n) \<and>
     (\<forall>e \<in> set (g_edges g). edge_ok (nd_id ` set (g_nodes g)) e)"
proof -
  have "duplicates ids = d # ds \<Longrightarrow> \<not> distinct ids" for ids d ds
    by (metis duplicates_Nil_iff list.distinct(1))
  then show ?thesis
    by (auto simp: assert_invariants_def res_simps node_error_None_iff edge_error_None_iff
        Let_def split: list.splits)
qed

text \<open>The constructor accepts exactly the well-formed graphs and returns them unchanged.\<close>

lemma validate_graph_Inr_iff: "validate_graph g = Inr g' \<longleftrightarrow> g' = g \<and> graph_ok g"
  by (auto simp: validate_graph_def graph_ok_def res_simps validate_extensions_Inr_iff
      assert_invariants_Inr_iff)

lemma validate_node_Inr_iff:
  "validate_node n = Inr n' \<longleftrightarrow>
     (\<forall>c. nd_intent_fidelity_confidence n = Some c \<longrightarrow> valid_confidence c) \<and>
     n' = n\<lparr>nd_type := normalize_known_type (kind_value (nd_type n))\<rparr>"
  by (auto simp: validate_node_def split: option.splits)

lemma normalize_kind_idem [simp]:
  "normalize_known_type (kind_value (normalize_known_type s)) = normalize_known_type s"
  by (auto simp: normalize_known_type_def kind_value_def split: option.splits)

lemma node_valid_iff:
  "node_valid n \<longleftrightarrow>
     (\<forall>c. nd_intent_fidelity_confidence n = Some c \<longrightarrow> valid_confidence c) \<and>
     normalize_known_type (kind_value (nd_type n)) = nd_type n"
proof -
  have "n = n\<lparr>nd_type := t\<rparr> \<longleftrightarrow> t = nd_type n" for t by (cases n) auto
  then show ?thesis by (simp add: node_valid_def validate_node_Inr_iff)
qed

lemma validate_node_valid: "validate_node n = Inr n' \<Longrightarrow> node_valid n'"
  by (auto simp: validate_node_Inr_iff node_valid_iff)

lemma lookup_node_Some:
  "graph_ok g \<Longrightarrow> lookup_node g k = Some n \<longleftrightarrow> n \<in> set (g_nodes g) \<and> nd_id n = k"
  by (simp add: lookup_node_def graph_ok_def dict_of_mem_iff)

lemma lookup_edge_Some:
  "graph_ok g \<Longrightarrow> lookup_edge g k = Some e \<longleftrightarrow> e \<in> set (g_edges g) \<and> ed_id e = k"
  by (simp add: lookup_edge_def graph_ok_def dict_of_mem_iff)

end
