(* ===== verification/Reconciliation.thy ===== *)
theory Reconciliation
  imports Enums Graph_Model
begin

text \<open>
  Reconciliation cases (\<open>core/models/reconciliation.py\<close>) and their lifecycle
  (\<open>reconcile/service.py\<close>): the validators of a case, \<open>transition_case\<close>, and the step relation it
  induces. \<open>case_ok\<close> says declaratively what a constructed case satisfies; the lemmas show which
  transitions succeed and what every reachable case looks like.
\<close>

section \<open>Records\<close>

record evidence_side =
  sd_label :: string
  sd_claim :: string
  sd_evidence_refs :: "string list"
  sd_observed_at :: datetime
  sd_authors :: "string list"
  sd_confidence :: confidence
  sd_source_mode :: SourceMode
  sd_current :: bool

record drift_observation =
  do_subject_ref :: string
  do_case_type :: ReconciliationCaseType
  do_affected_refs :: "string list"
  do_evidence_sides :: "evidence_side list"
  do_detector_id :: string
  do_fingerprint :: string
  do_requires_human :: bool

record classification_event =
  ev_actor :: string
  ev_at :: datetime
  ev_prior :: ReconciliationStatus
  ev_new :: ReconciliationStatus

record reconciliation_case =
  rc_id :: string
  rc_subject_ref :: string
  rc_case_type :: ReconciliationCaseType
  rc_affected_refs :: "string list"
  rc_evidence_sides :: "evidence_side list"
  rc_detector_id :: string
  rc_fingerprint :: string
  rc_created_at :: datetime
  rc_created_by :: string
  rc_status :: ReconciliationStatus
  rc_requires_human :: bool
  rc_alternatives :: "ReconciliationCaseType list"
  rc_impact :: string
  rc_resolution :: "ResolutionAction option"
  rc_resolved_by_changeset :: "string option"
  rc_history :: "classification_event list"

section \<open>Validators\<close>

fun ALLOWED_CASE_TRANSITIONS :: "ReconciliationStatus \<Rightarrow> ReconciliationStatus list" where
  "ALLOWED_CASE_TRANSITIONS OPEN = [PROPOSED, DEFERRED, FALSE_POSITIVE]"
| "ALLOWED_CASE_TRANSITIONS PROPOSED = [NEEDS_HUMAN]"
| "ALLOWED_CASE_TRANSITIONS NEEDS_HUMAN = [RESOLVED]"
| "ALLOWED_CASE_TRANSITIONS RESOLVED = []"
| "ALLOWED_CASE_TRANSITIONS DEFERRED = []"
| "ALLOWED_CASE_TRANSITIONS FALSE_POSITIVE = []"

definition is_nonterminal_case_status :: "ReconciliationStatus \<Rightarrow> bool" where
  "is_nonterminal_case_status s \<longleftrightarrow> s \<in> {OPEN, PROPOSED, NEEDS_HUMAN}"

definition side_error :: "evidence_side \<Rightarrow> exn option" where
  "side_error s =
     (if sd_evidence_refs s = [] \<or> list_ex is_blank (sd_evidence_refs s)
      then Some (ValueError ''evidence_refs must not be empty'')
      else if sd_authors s = [] \<or> list_ex is_blank (sd_authors s)
      then Some (ValueError ''authors must not be empty'')
      else if \<not> valid_confidence (sd_confidence s) then Some (ValueError ''confidence'')
      else None)"

text \<open>The pattern \<open>^[0-9a-f]{64}$\<close>.\<close>

definition hex_char :: "char \<Rightarrow> bool" where
  "hex_char c \<longleftrightarrow> c \<in> set ''0123456789abcdef''"

definition hex64 :: "string \<Rightarrow> bool" where
  "hex64 s \<longleftrightarrow> length s = 64 \<and> list_all hex_char s"

definition validate_observation :: "drift_observation \<Rightarrow> drift_observation res" where
  "validate_observation obs =
     res_bind (check_all side_error (do_evidence_sides obs)) (\<lambda>_.
       if \<not> hex64 (do_fingerprint obs) then Inl (ValueError ''fingerprint'')
       else if \<not> list_ex (\<lambda>s. sd_evidence_refs s \<noteq> []) (do_evidence_sides obs)
       then Inl (ValueError ''drift observation requires evidence'')
       else Inr obs)"

definition all_evidence_refs :: "reconciliation_case \<Rightarrow> string list" where
  "all_evidence_refs c = sorted_set (concat (map sd_evidence_refs (rc_evidence_sides c)))"

text \<open>The loop over the history: the status it ends in.\<close>

fun history_status :: "ReconciliationStatus \<Rightarrow> classification_event list \<Rightarrow> ReconciliationStatus res"
  where
  "history_status expected [] = Inr expected"
| "history_status expected (e # es) =
     (if ev_prior e \<noteq> expected then Inl (ValueError ''case history must be contiguous'')
      else if ev_new e \<notin> set (ALLOWED_CASE_TRANSITIONS (ev_prior e))
      then Inl (ValueError (''invalid reconciliation transition: '' @ case_status_value (ev_prior e) @
        '' -> '' @ case_status_value (ev_new e)))
      else history_status (ev_new e) es)"

definition require_resolution_for_resolved_case :: "reconciliation_case \<Rightarrow> reconciliation_case res"
  where
  "require_resolution_for_resolved_case c =
     (if all_evidence_refs c = [] then Inl (ValueError ''reconciliation case requires evidence'')
      else res_bind (history_status OPEN (rc_history c)) (\<lambda>expected.
        if rc_status c \<noteq> expected then Inl (ValueError ''case status must match lifecycle history'')
        else if rc_status c = RESOLVED \<and>
          (rc_resolution c = None \<or> rc_resolved_by_changeset c = None)
        then Inl (ValueError ''resolved case requires resolution and changeset'')
        else if rc_status c \<noteq> RESOLVED \<and>
          (rc_resolution c \<noteq> None \<or> rc_resolved_by_changeset c \<noteq> None)
        then Inl (ValueError ''only resolved case can include resolution evidence'')
        else Inr c))"

text \<open>\<open>ReconciliationCase.model_validate\<close>: the parts, the field constraints, the model validator.\<close>

definition validate_case :: "reconciliation_case \<Rightarrow> reconciliation_case res" where
  "validate_case c =
     res_bind (check_all side_error (rc_evidence_sides c)) (\<lambda>_.
       if \<not> hex64 (rc_fingerprint c) then Inl (ValueError ''fingerprint'')
       else if rc_created_by c = [] then Inl (ValueError ''created_by'')
       else if list_ex (\<lambda>e. ev_actor e = []) (rc_history c) then Inl (ValueError ''actor'')
       else require_resolution_for_resolved_case c)"

section \<open>Transitions\<close>

definition transition_case ::
  "reconciliation_case \<Rightarrow> ReconciliationStatus \<Rightarrow> string \<Rightarrow> datetime option \<Rightarrow>
     ResolutionAction option \<Rightarrow> string option \<Rightarrow> reconciliation_case res" where
  "transition_case c target actor stamp resolution changeset_id =
     (if target \<notin> set (ALLOWED_CASE_TRANSITIONS (rc_status c))
      then Inl (InvalidCaseTransition (case_status_value (rc_status c)) (case_status_value target))
      else if target = RESOLVED \<and>
        (actor = [] \<or> stamp = None \<or> resolution = None \<or> changeset_id = None)
      then Inl (MissingResolutionEvidence (rc_id c))
      else if actor = [] \<or> stamp = None then Inl (MissingResolutionEvidence (rc_id c))
      else
        (let event = \<lparr>ev_actor = actor, ev_at = the stamp, ev_prior = rc_status c, ev_new = target\<rparr>
         in validate_case
              (c\<lparr>rc_status := target,
                 rc_resolution := (if target = RESOLVED then resolution else None),
                 rc_resolved_by_changeset := (if target = RESOLVED then changeset_id else None),
                 rc_history := rc_history c @ [event]\<rparr>)))"

inductive case_step :: "reconciliation_case \<Rightarrow> reconciliation_case \<Rightarrow> bool" where
  "transition_case c target actor stamp resolution changeset_id = Inr c' \<Longrightarrow> case_step c c'"

text \<open>The cases a detector may create: validated, open, without history.\<close>

definition created_case :: "reconciliation_case \<Rightarrow> bool" where
  "created_case c \<longleftrightarrow> validate_case c = Inr c \<and> rc_status c = OPEN \<and> rc_history c = []"

inductive case_reachable :: "reconciliation_case \<Rightarrow> reconciliation_case \<Rightarrow> bool" for c0 where
  start: "created_case c0 \<Longrightarrow> case_reachable c0 c0"
| step: "case_reachable c0 c \<Longrightarrow> case_step c c' \<Longrightarrow> case_reachable c0 c'"

inductive_cases case_stepE: "case_step c c'"

section \<open>Well-formed cases\<close>

definition case_ok :: "reconciliation_case \<Rightarrow> bool" where
  "case_ok c \<longleftrightarrow>
     (\<forall>s \<in> set (rc_evidence_sides c). side_error s = None) \<and> hex64 (rc_fingerprint c) \<and>
     rc_created_by c \<noteq> [] \<and> (\<forall>e \<in> set (rc_history c). ev_actor e \<noteq> []) \<and>
     all_evidence_refs c \<noteq> [] \<and> history_status OPEN (rc_history c) = Inr (rc_status c) \<and>
     (rc_status c = RESOLVED \<longleftrightarrow> rc_resolution c \<noteq> None) \<and>
     (rc_status c = RESOLVED \<longleftrightarrow> rc_resolved_by_changeset c \<noteq> None)"

lemma validate_case_Inr_iff: "validate_case c = Inr c' \<longleftrightarrow> c' = c \<and> case_ok c"
  by (auto simp: validate_case_def require_resolution_for_resolved_case_def case_ok_def res_simps
      list_ex_iff split: if_splits)

lemma history_status_append:
  "history_status s (es @ fs) = res_bind (history_status s es) (\<lambda>t. history_status t fs)"
  by (induction es arbitrary: s) auto

lemma all_evidence_refs_update [simp]:
  "all_evidence_refs (c\<lparr>rc_status := s, rc_resolution := r, rc_resolved_by_changeset := b,
     rc_history := h\<rparr>) = all_evidence_refs c"
  by (simp add: all_evidence_refs_def)

definition advance ::
  "reconciliation_case \<Rightarrow> ReconciliationStatus \<Rightarrow> string \<Rightarrow> datetime \<Rightarrow>
     ResolutionAction option \<Rightarrow> string option \<Rightarrow> reconciliation_case" where
  "advance c target actor stamp resolution changeset_id =
     c\<lparr>rc_status := target,
       rc_resolution := (if target = RESOLVED then resolution else None),
       rc_resolved_by_changeset := (if target = RESOLVED then changeset_id else None),
       rc_history := rc_history c @
         [\<lparr>ev_actor = actor, ev_at = stamp, ev_prior = rc_status c, ev_new = target\<rparr>]\<rparr>"

lemma advance_ok:
  assumes "case_ok c" and "target \<in> set (ALLOWED_CASE_TRANSITIONS (rc_status c))" and "actor \<noteq> []"
    and "target = RESOLVED \<Longrightarrow> resolution \<noteq> None \<and> changeset_id \<noteq> None"
  shows "case_ok (advance c target actor stamp resolution changeset_id)"
  using assms by (auto simp: case_ok_def advance_def history_status_append)

lemma transition_case_Inr_iff:
  assumes "case_ok c"
  shows "transition_case c target actor stamp resolution changeset_id = Inr c' \<longleftrightarrow>
    target \<in> set (ALLOWED_CASE_TRANSITIONS (rc_status c)) \<and> actor \<noteq> [] \<and>
    (target = RESOLVED \<longrightarrow> resolution \<noteq> None \<and> changeset_id \<noteq> None) \<and>
    (\<exists>t. stamp = Some t \<and> c' = advance c target actor t resolution changeset_id)"
  using advance_ok [OF assms, of target actor resolution changeset_id]
  by (auto simp: transition_case_def validate_case_Inr_iff advance_def Let_def)

lemma transition_case_ok:
  "transition_case c target actor stamp resolution changeset_id = Inr c' \<Longrightarrow> case_ok c'"
  by (auto simp: transition_case_def validate_case_Inr_iff Let_def split: if_splits)

lemma case_reachable_ok: "case_reachable c0 c \<Longrightarrow> case_ok c"
  by (induction rule: case_reachable.induct)
    (auto simp: created_case_def validate_case_Inr_iff elim: case_stepE dest: transition_case_ok)

section \<open>Sample cases\<close>

definition sample_side :: "string list \<Rightarrow> evidence_side" where
  "sample_side refs =
     \<lparr>sd_label = ''code'', sd_claim = ''sessions expire'', sd_evidence_refs = refs,
      sd_observed_at = 5, sd_authors = [''ana''], sd_confidence = 1, sd_source_mode = EXPLICIT,
      sd_current = True\<rparr>"

definition sample_case :: "string \<Rightarrow> reconciliation_case" where
  "sample_case i =
     \<lparr>rc_id = i, rc_subject_ref = ''n1'', rc_case_type = CODE_LAG, rc_affected_refs = [''n1''],
      rc_evidence_sides = [sample_side [''ev-1'']], rc_detector_id = ''code_lag.v1'',
      rc_fingerprint = replicate 64 (CHR ''a''), rc_created_at = 6, rc_created_by = ''detector'',
      rc_status = OPEN, rc_requires_human = True, rc_alternatives = [], rc_impact = [],
      rc_resolution = None, rc_resolved_by_changeset = None, rc_history = []\<rparr>"

lemma sample_case_ok: "case_ok (sample_case ''c1'')" "created_case (sample_case ''c1'')"
  by code_simp+

section \<open>Properties\<close>

text \<open>C36: A transition of a well-formed case succeeds exactly when the lifecycle allows the target
  status, the actor is named, a time is given and, for a resolution, the action and the ChangeSet
  are given; the new version then differs only by its status, its resolution fields and one more
  history event. The validation the code repeats at the end never fails.\<close>

theorem transition_case_exact:
  assumes "case_ok c"
  shows "transition_case c target actor stamp resolution changeset_id = Inr c' \<longleftrightarrow>
    target \<in> set (ALLOWED_CASE_TRANSITIONS (rc_status c)) \<and> actor \<noteq> [] \<and>
    (target = RESOLVED \<longrightarrow> resolution \<noteq> None \<and> changeset_id \<noteq> None) \<and>
    (\<exists>t. stamp = Some t \<and> c' = advance c target actor t resolution changeset_id)"
  using assms by (rule transition_case_Inr_iff)

theorem transition_case_exact_witness:
  "transition_case (sample_case ''c1'') PROPOSED ''ana'' (Some 9) None None =
     Inr (advance (sample_case ''c1'') PROPOSED ''ana'' 9 None None)"
  using transition_case_exact [OF sample_case_ok(1)] by (simp add: sample_case_def)

text \<open>The statuses a well-formed history may run through.\<close>

lemma history_status_cases:
  assumes "history_status OPEN es = Inr s"
  shows "(s, map ev_new es) \<in>
    {(OPEN, []), (PROPOSED, [PROPOSED]), (DEFERRED, [DEFERRED]), (FALSE_POSITIVE, [FALSE_POSITIVE]),
     (NEEDS_HUMAN, [PROPOSED, NEEDS_HUMAN]), (RESOLVED, [PROPOSED, NEEDS_HUMAN, RESOLVED])}"
  using assms
proof (induction es arbitrary: s rule: rev_induct)
  case (snoc e es)
  from snoc.prems obtain t where t: "history_status OPEN es = Inr t"
    and e: "history_status t [e] = Inr s"
    unfolding history_status_append res_bind_Inr_iff by blast
  from e have e: "ev_prior e = t" "ev_new e \<in> set (ALLOWED_CASE_TRANSITIONS t)" "s = ev_new e"
    by (simp_all split: if_splits)
  show ?case using snoc.IH [OF t] e(2,3) by (cases t) auto
qed simp

lemma case_step_immutable:
  "case_step c c' \<Longrightarrow> case_ok c \<Longrightarrow>
     rc_id c' = rc_id c \<and> rc_fingerprint c' = rc_fingerprint c \<and>
     rc_evidence_sides c' = rc_evidence_sides c \<and> rc_subject_ref c' = rc_subject_ref c \<and>
     rc_created_at c' = rc_created_at c \<and> rc_created_by c' = rc_created_by c \<and>
     (\<exists>e. rc_history c' = rc_history c @ [e])"
  by (elim case_stepE) (auto simp: transition_case_Inr_iff advance_def)

text \<open>C37: Every case reachable from a created one keeps its identity, fingerprint and evidence, only
  appends to its history, and has one of six histories; in particular a resolved case went
  through proposal and human review and names its action and its ChangeSet, and the resolved,
  deferred and false-positive statuses are final.\<close>

theorem case_lifecycle:
  assumes "case_reachable c0 c"
  shows "rc_id c = rc_id c0 \<and> rc_fingerprint c = rc_fingerprint c0 \<and>
    rc_evidence_sides c = rc_evidence_sides c0 \<and>
    (rc_status c, map ev_new (rc_history c)) \<in>
      {(OPEN, []), (PROPOSED, [PROPOSED]), (DEFERRED, [DEFERRED]), (FALSE_POSITIVE, [FALSE_POSITIVE]),
       (NEEDS_HUMAN, [PROPOSED, NEEDS_HUMAN]), (RESOLVED, [PROPOSED, NEEDS_HUMAN, RESOLVED])} \<and>
    (rc_status c = RESOLVED \<longleftrightarrow> rc_resolution c \<noteq> None \<and> rc_resolved_by_changeset c \<noteq> None) \<and>
    ((\<exists>c'. case_step c c') \<longleftrightarrow> is_nonterminal_case_status (rc_status c))"
proof -
  have ok: "case_ok c" using assms by (rule case_reachable_ok)
  have keep: "rc_id c = rc_id c0 \<and> rc_fingerprint c = rc_fingerprint c0 \<and>
      rc_evidence_sides c = rc_evidence_sides c0"
    using assms
  proof (induction rule: case_reachable.induct)
    case (step c c')
    with case_step_immutable [OF step.hyps(2) case_reachable_ok [OF step.hyps(1)]] show ?case by simp
  qed simp
  have "(\<exists>c'. case_step c c') \<longleftrightarrow> is_nonterminal_case_status (rc_status c)"
  proof
    assume "\<exists>c'. case_step c c'"
    then show "is_nonterminal_case_status (rc_status c)"
      using ok by (cases "rc_status c")
        (auto simp: is_nonterminal_case_status_def transition_case_Inr_iff elim!: case_stepE)
  next
    assume "is_nonterminal_case_status (rc_status c)"
    then have "ALLOWED_CASE_TRANSITIONS (rc_status c) \<noteq> []"
      by (auto simp: is_nonterminal_case_status_def)
    then obtain target where "target \<in> set (ALLOWED_CASE_TRANSITIONS (rc_status c))"
      using hd_in_set by blast
    then have "transition_case c target ''a'' (Some 0) (Some DEFER) (Some []) =
        Inr (advance c target ''a'' 0 (Some DEFER) (Some []))"
      by (simp add: transition_case_Inr_iff [OF ok])
    then show "\<exists>c'. case_step c c'" by (blast intro: case_step.intros)
  qed
  moreover have "history_status OPEN (rc_history c) = Inr (rc_status c)"
    and "rc_status c = RESOLVED \<longleftrightarrow> rc_resolution c \<noteq> None \<and> rc_resolved_by_changeset c \<noteq> None"
    using ok by (auto simp: case_ok_def)
  ultimately show ?thesis using keep history_status_cases by blast
qed

theorem case_lifecycle_witness:
  "\<exists>c. case_reachable (sample_case ''c1'') c \<and> rc_status c = PROPOSED \<and>
     map ev_new (rc_history c) = [PROPOSED]"
proof -
  let ?c = "advance (sample_case ''c1'') PROPOSED ''ana'' 9 None None"
  have "transition_case (sample_case ''c1'') PROPOSED ''ana'' (Some 9) None None = Inr ?c"
    by code_simp
  then have reach: "case_reachable (sample_case ''c1'') ?c"
    using case_reachable.start [OF sample_case_ok(2)] case_reachable.step case_step.intros by blast
  have "rc_status ?c = PROPOSED" by (simp add: advance_def)
  with case_lifecycle [OF reach] reach show ?thesis by auto
qed

end
