(* ===== verification/Json.thy ===== *)
theory Json
  imports Prelude
begin

text \<open>
  JSON as the sources use it: the \<open>JsonValue\<close> type with \<open>freeze_json\<close> and \<open>thaw_json\<close>
  (\<open>core/models/evidence.py\<close>), the canonical printer every store and every digest uses
  (\<open>json.dumps\<close> with compact separators and \<open>sort_keys=True\<close>), and the strict decoder of
  \<open>storage/jsonl/strict.py\<close>, which refuses duplicate object keys and the non-standard constants.
  A float is kept as its literal. The main results: decoding a canonical print gives the value back
  with its keys sorted, so equal prints come from equal values, and a print contains a line
  boundary of \<open>str.splitlines\<close> only where a string of the value holds the character 0x85.
\<close>

section \<open>Values\<close>

datatype json =
    JNull
  | JBool bool
  | JInt int
  | JFloat string
  | JStr string
  | JArr "json list"
  | JObj "(string \<times> json) list"

text \<open>\<open>freeze_json\<close> builds read-only mapping proxies and tuples; leaves stay as they are.\<close>

datatype frozen =
    FLeaf json
  | FTuple "frozen list"
  | FProxy "(string \<times> frozen) list"

fun freeze_json :: "json \<Rightarrow> frozen" where
  "freeze_json (JObj kvs) = FProxy (map (\<lambda>(k, v). (k, freeze_json v)) kvs)"
| "freeze_json (JArr vs) = FTuple (map freeze_json vs)"
| "freeze_json v = FLeaf v"

fun thaw_json :: "frozen \<Rightarrow> json" where
  "thaw_json (FProxy kvs) = JObj (map (\<lambda>(k, v). (k, thaw_json v)) kvs)"
| "thaw_json (FTuple vs) = JArr (map thaw_json vs)"
| "thaw_json (FLeaf v) = v"

section \<open>The printer\<close>

definition hex_digit :: "nat \<Rightarrow> char" where
  "hex_digit n = (if n < 10 then char_of (48 + n) else char_of (87 + n))"

definition unicode_escape :: "char \<Rightarrow> string" where
  "unicode_escape c = [CHR 0x5C, CHR ''u'', CHR ''0'', CHR ''0''] @
     [hex_digit (of_char c div 16), hex_digit (of_char c mod 16)]"

text \<open>One character of a string; \<open>ea\<close> is the flag \<open>ensure_ascii\<close>.\<close>

definition esc_char :: "bool \<Rightarrow> char \<Rightarrow> string" where
  "esc_char ea c =
     (if c = CHR 0x22 then [CHR 0x5C, CHR 0x22]
      else if c = CHR 0x5C then [CHR 0x5C, CHR 0x5C]
      else if c = CHR 0x0A then [CHR 0x5C, CHR ''n'']
      else if c = CHR 0x0D then [CHR 0x5C, CHR ''r'']
      else if c = CHR 0x09 then [CHR 0x5C, CHR ''t'']
      else if c = CHR 0x0C then [CHR 0x5C, CHR ''f'']
      else if c = CHR 0x08 then [CHR 0x5C, CHR ''b'']
      else if of_char c < (32 :: nat) then unicode_escape c
      else if ea \<and> of_char c > (126 :: nat) then unicode_escape c
      else [c])"

definition dumps_str :: "bool \<Rightarrow> string \<Rightarrow> string" where
  "dumps_str ea s = CHR 0x22 # concat (map (esc_char ea) s) @ [CHR 0x22]"

fun dumps :: "bool \<Rightarrow> json \<Rightarrow> string" where
  "dumps ea JNull = ''null''"
| "dumps ea (JBool b) = (if b then ''true'' else ''false'')"
| "dumps ea (JInt i) = int_str i"
| "dumps ea (JFloat l) = l"
| "dumps ea (JStr s) = dumps_str ea s"
| "dumps ea (JArr vs) = ''['' @ join '','' (map (dumps ea) vs) @ '']''"
| "dumps ea (JObj kvs) =
     ''{'' @ join '','' (map (\<lambda>(k, v). dumps_str ea k @ '':'' @ v)
              (sort_key fst (map (\<lambda>(k, v). (k, dumps ea v)) kvs))) @ ''}''"

section \<open>The strict decoder\<close>

fun skip_ws :: "string \<Rightarrow> string" where
  "skip_ws [] = []"
| "skip_ws (c # cs) = (if c \<in> {CHR 0x20, CHR 0x09, CHR 0x0A, CHR 0x0D} then skip_ws cs else c # cs)"

definition is_digit :: "char \<Rightarrow> bool" where
  "is_digit c \<longleftrightarrow> 48 \<le> (of_char c :: nat) \<and> of_char c \<le> (57 :: nat)"

definition hex_val :: "char \<Rightarrow> nat option" where
  "hex_val c = (let n = of_char c :: nat in
     if 48 \<le> n \<and> n \<le> 57 then Some (n - 48)
     else if 97 \<le> n \<and> n \<le> 102 then Some (n - 87)
     else if 65 \<le> n \<and> n \<le> 70 then Some (n - 55)
     else None)"

definition hex4 :: "char \<Rightarrow> char \<Rightarrow> char \<Rightarrow> char \<Rightarrow> nat option" where
  "hex4 a b c d = (case (hex_val a, hex_val b, hex_val c, hex_val d) of
     (Some w, Some x, Some y, Some z) \<Rightarrow> Some (4096 * w + 256 * x + 16 * y + z)
   | _ \<Rightarrow> None)"

definition unescape :: "char \<Rightarrow> char option" where
  "unescape c =
     (if c \<in> {CHR 0x22, CHR 0x5C, CHR ''/''} then Some c
      else if c = CHR ''n'' then Some (CHR 0x0A)
      else if c = CHR ''r'' then Some (CHR 0x0D)
      else if c = CHR ''t'' then Some (CHR 0x09)
      else if c = CHR ''f'' then Some (CHR 0x0C)
      else if c = CHR ''b'' then Some (CHR 0x08)
      else None)"

text \<open>The body of a string literal, after the opening quote. Code points above 255 are outside
  the model's alphabet.\<close>

fun scan_string :: "string \<Rightarrow> (string \<times> string) option" where
  "scan_string [] = None"
| "scan_string (c # cs) =
     (if c = CHR 0x22 then Some ([], cs)
      else if c = CHR 0x5C then
        (case cs of
           [] \<Rightarrow> None
         | e # r \<Rightarrow>
             if e = CHR ''u'' then
               (case r of
                  h1 # h2 # h3 # h4 # r' \<Rightarrow>
                    (case hex4 h1 h2 h3 h4 of
                       None \<Rightarrow> None
                     | Some n \<Rightarrow> if n < 256
                         then map_option (\<lambda>(s, t). (char_of n # s, t)) (scan_string r') else None)
                | _ \<Rightarrow> None)
             else (case unescape e of
                     None \<Rightarrow> None
                   | Some x \<Rightarrow> map_option (\<lambda>(s, t). (x # s, t)) (scan_string r)))
      else if of_char c < (32 :: nat) then None
      else map_option (\<lambda>(s, t). (c # s, t)) (scan_string cs))"

definition digit_val :: "char \<Rightarrow> nat" where
  "digit_val c = of_char c - 48"

definition nat_of_digits :: "string \<Rightarrow> nat" where
  "nat_of_digits ds = fold (\<lambda>d n. 10 * n + digit_val d) ds 0"

text \<open>\<open>-?(0|[1-9]\d*)\<close>: the sign and the digits of the integer part.\<close>

definition scan_digits :: "string \<Rightarrow> (string \<times> string) option" where
  "scan_digits s =
     (if takeWhile is_digit s = [] then None
      else if hd s = CHR ''0'' then Some (''0'', tl s)
      else Some (takeWhile is_digit s, dropWhile is_digit s))"

definition scan_int :: "string \<Rightarrow> (string \<times> string) option" where
  "scan_int s =
     (if s \<noteq> [] \<and> hd s = CHR ''-''
      then map_option (\<lambda>(d, r). (CHR ''-'' # d, r)) (scan_digits (tl s))
      else scan_digits s)"

text \<open>\<open>(\.\d+)?\<close>.\<close>

definition scan_frac :: "string \<Rightarrow> string \<times> string" where
  "scan_frac s =
     (if s \<noteq> [] \<and> hd s = CHR ''.'' \<and> takeWhile is_digit (tl s) \<noteq> []
      then (''.'' @ takeWhile is_digit (tl s), dropWhile is_digit (tl s))
      else ([], s))"

text \<open>\<open>([eE][-+]?\d+)?\<close>.\<close>

definition scan_sign :: "string \<Rightarrow> string \<times> string" where
  "scan_sign s =
     (if s \<noteq> [] \<and> hd s \<in> {CHR ''-'', CHR ''+''} then ([hd s], tl s) else ([], s))"

definition scan_exp :: "string \<Rightarrow> string \<times> string" where
  "scan_exp s =
     (if s \<noteq> [] \<and> hd s \<in> {CHR ''e'', CHR ''E''} then
        (let (sign, r) = scan_sign (tl s)
         in if takeWhile is_digit r = [] then ([], s)
            else (hd s # sign @ takeWhile is_digit r, dropWhile is_digit r))
      else ([], s))"

definition int_of_lexeme :: "string \<Rightarrow> int" where
  "int_of_lexeme l =
     (if l \<noteq> [] \<and> hd l = CHR ''-'' then - int (nat_of_digits (tl l)) else int (nat_of_digits l))"

definition scan_number :: "string \<Rightarrow> (json \<times> string) option" where
  "scan_number s =
     (case scan_int s of
        None \<Rightarrow> None
      | Some (i, r) \<Rightarrow>
          (let (f, r1) = scan_frac r; (e, r2) = scan_exp r1
           in if f = [] \<and> e = [] then Some (JInt (int_of_lexeme i), r2)
              else Some (JFloat (i @ f @ e), r2)))"

text \<open>\<open>_unique_object\<close>: the \<open>object_pairs_hook\<close> that refuses a repeated key.\<close>

definition unique_object :: "(string \<times> json) list \<Rightarrow> json option" where
  "unique_object pairs = (if distinct (map fst pairs) then Some (JObj pairs) else None)"

text \<open>\<open>_reject_constant\<close>: the \<open>parse_constant\<close> that refuses \<open>NaN\<close> and the infinities.\<close>

definition reject_constant :: "string \<Rightarrow> json option" where
  "reject_constant l = None"

definition scan_constant :: "string \<Rightarrow> (string \<times> string) option" where
  "scan_constant s =
     (if starts_with ''NaN'' s then Some (''NaN'', drop 3 s)
      else if starts_with ''Infinity'' s then Some (''Infinity'', drop 8 s)
      else if starts_with ''-Infinity'' s then Some (''-Infinity'', drop 9 s)
      else None)"

text \<open>The two hooks of \<open>json.loads\<close>: what an object's pairs and a non-standard constant become.
  Without hooks a later pair replaces an earlier one and the constants are floats.\<close>

type_synonym hooks = "((string \<times> json) list \<Rightarrow> json option) \<times> (string \<Rightarrow> json option)"

definition strict_hooks :: hooks where
  "strict_hooks = (unique_object, reject_constant)"

definition plain_hooks :: hooks where
  "plain_hooks =
     (\<lambda>pairs. Some (JObj (fold (\<lambda>(k, v). AList.update k v) pairs [])), \<lambda>l. Some (JFloat l))"

text \<open>
  The scanner, with fuel for the nesting: a value of \<open>n\<close> characters needs at most \<open>2 * n + 2\<close>
  units (\<open>parse_value_fuel\<close> below).
\<close>

fun parse_value :: "hooks \<Rightarrow> nat \<Rightarrow> string \<Rightarrow> (json \<times> string) option"
and parse_elems :: "hooks \<Rightarrow> nat \<Rightarrow> string \<Rightarrow> (json list \<times> string) option"
and parse_members :: "hooks \<Rightarrow> nat \<Rightarrow> string \<Rightarrow> ((string \<times> json) list \<times> string) option" where
  "parse_value h 0 s = None"
| "parse_value h (Suc n) s =
     (case s of
        [] \<Rightarrow> None
      | c # r \<Rightarrow>
          if c = CHR 0x22 then map_option (\<lambda>(t, r'). (JStr t, r')) (scan_string r)
          else if c = CHR ''{'' then
            (case skip_ws r of
               [] \<Rightarrow> None
             | d # r1 \<Rightarrow>
                 if d = CHR ''}'' then Some (JObj [], r1)
                 else (case parse_members h n (d # r1) of
                         None \<Rightarrow> None
                       | Some (kvs, r2) \<Rightarrow> map_option (\<lambda>v. (v, r2)) (fst h kvs)))
          else if c = CHR ''['' then
            (case skip_ws r of
               [] \<Rightarrow> None
             | d # r1 \<Rightarrow>
                 if d = CHR '']'' then Some (JArr [], r1)
                 else map_option (\<lambda>(vs, r2). (JArr vs, r2)) (parse_elems h n (d # r1)))
          else if starts_with ''null'' s then Some (JNull, drop 4 s)
          else if starts_with ''true'' s then Some (JBool True, drop 4 s)
          else if starts_with ''false'' s then Some (JBool False, drop 5 s)
          else (case scan_number s of
                  Some (v, r') \<Rightarrow> Some (v, r')
                | None \<Rightarrow>
                    (case scan_constant s of
                       None \<Rightarrow> None
                     | Some (l, r') \<Rightarrow> map_option (\<lambda>v. (v, r')) (snd h l))))"
| "parse_elems h 0 s = None"
| "parse_elems h (Suc n) s =
     (case parse_value h n s of
        None \<Rightarrow> None
      | Some (v, r) \<Rightarrow>
          (case skip_ws r of
             [] \<Rightarrow> None
           | d # r1 \<Rightarrow>
               if d = CHR '']'' then Some ([v], r1)
               else if d = CHR '','' then
                 map_option (\<lambda>(vs, r2). (v # vs, r2)) (parse_elems h n (skip_ws r1))
               else None))"
| "parse_members h 0 s = None"
| "parse_members h (Suc n) s =
     (if s = [] \<or> hd s \<noteq> CHR 0x22 then None
      else (case scan_string (tl s) of
        None \<Rightarrow> None
      | Some (k, r) \<Rightarrow>
          (case skip_ws r of
             [] \<Rightarrow> None
           | d # r0 \<Rightarrow>
               if d \<noteq> CHR '':'' then None
               else (case parse_value h n (skip_ws r0) of
                       None \<Rightarrow> None
                     | Some (v, r1) \<Rightarrow>
                         (case skip_ws r1 of
                            [] \<Rightarrow> None
                          | e # r2 \<Rightarrow>
                              if e = CHR ''}'' then Some ([(k, v)], r2)
                              else if e = CHR '','' then
                                map_option (\<lambda>(kvs, r3). ((k, v) # kvs, r3))
                                  (parse_members h n (skip_ws r2))
                              else None)))))"

definition loads_with :: "hooks \<Rightarrow> string \<Rightarrow> json res" where
  "loads_with h s =
     (case parse_value h (2 * length s + 2) (skip_ws s) of
        None \<Rightarrow> Inl (ValueError ''invalid JSON'')
      | Some (v, r) \<Rightarrow> if skip_ws r = [] then Inr v else Inl (ValueError ''invalid JSON''))"

definition json_loads :: "string \<Rightarrow> json res" where
  "json_loads = loads_with plain_hooks"

definition loads_strict_json :: "string \<Rightarrow> json res" where
  "loads_strict_json = loads_with strict_hooks"

definition loads_strict_object :: "string \<Rightarrow> json dict res" where
  "loads_strict_object s =
     (case loads_strict_json s of
        Inl e \<Rightarrow> Inl e
      | Inr (JObj kvs) \<Rightarrow> Inr kvs
      | Inr _ \<Rightarrow> Inl (TypeError ''JSON value must be an object''))"

section \<open>Freezing\<close>

lemma thaw_freeze_json: "thaw_json (freeze_json v) = v"
proof (induction v)
  case (JArr vs)
  then show ?case by (simp add: map_idI)
next
  case (JObj kvs)
  have "map (\<lambda>p. (fst p, thaw_json (freeze_json (snd p)))) kvs = kvs"
    using JObj by (intro map_idI) force
  then show ?case by (simp add: case_prod_beta comp_def)
qed simp_all

section \<open>Reading back a print\<close>

subsection \<open>Strings\<close>

lemma hex_val_digit: "n < 16 \<Longrightarrow> hex_val (hex_digit n) = Some n"
  by (auto simp: hex_val_def hex_digit_def Let_def)

lemma of_char_less_256 [simp]: "(of_char c :: nat) < 256"
  by (metis of_char_mod_256 mod_less_divisor zero_less_numeral)

lemma hex4_escape:
  "hex4 (CHR ''0'') (CHR ''0'') (hex_digit (of_char c div 16)) (hex_digit (of_char c mod 16))
     = Some (of_char c)"
proof -
  have "(of_char c :: nat) div 16 < 16"
    using of_char_less_256 [of c] by (simp add: less_mult_imp_div_less)
  then have "hex_val (hex_digit (of_char c div 16)) = Some (of_char c div 16)"
    and "hex_val (hex_digit (of_char c mod 16)) = Some (of_char c mod 16)"
    by (simp_all add: hex_val_digit)
  moreover have "hex_val (CHR ''0'') = Some 0" by (simp add: hex_val_def Let_def)
  ultimately show ?thesis by (simp add: hex4_def)
qed

lemma scan_string_esc:
  "scan_string (esc_char ea c @ t) = map_option (\<lambda>(s, u). (c # s, u)) (scan_string t)"
  by (simp add: esc_char_def unescape_def unicode_escape_def hex4_escape)

lemma scan_string_print:
  "scan_string (concat (map (esc_char ea) s) @ CHR 0x22 # r) = Some (s, r)"
  by (induction s) (simp_all add: scan_string_esc del: scan_string.simps(2), simp)

subsection \<open>Numbers\<close>

definition stops_number :: "string \<Rightarrow> bool" where
  "stops_number r \<longleftrightarrow> r = [] \<or> hd r \<in> {CHR '','', CHR '']'', CHR ''}'', CHR 0x0A}"

text \<open>The literal of a float: an integer part followed by a fraction or an exponent.\<close>

definition float_literal :: "string \<Rightarrow> bool" where
  "float_literal l \<longleftrightarrow> scan_number l = Some (JFloat l, [])"

lemma takeWhile_tail: "r = [] \<or> \<not> P (hd r) \<Longrightarrow> takeWhile P (xs @ r) = takeWhile P xs"
  by (induction xs) (cases r; auto)+

lemma dropWhile_tail: "r = [] \<or> \<not> P (hd r) \<Longrightarrow> dropWhile P (xs @ r) = dropWhile P xs @ r"
  by (induction xs) (cases r; auto)+

lemma stops_number_digit: "stops_number r \<Longrightarrow> r = [] \<or> \<not> is_digit (hd r)"
  by (auto simp: stops_number_def is_digit_def)

lemma scan_tail:
  assumes "stops_number r"
  shows "takeWhile is_digit (xs @ r) = takeWhile is_digit xs"
    and "dropWhile is_digit (xs @ r) = dropWhile is_digit xs @ r"
  using stops_number_digit [OF assms] by (auto intro: takeWhile_tail dropWhile_tail)

lemma nat_str_digits: "list_all is_digit (nat_str n)"
proof (induction n rule: nat_str.induct)
  case (1 n)
  have d: "is_digit (digit_char k)" if "k < 10" for k
    using that by (simp add: is_digit_def digit_char_def)
  show ?case
    by (subst nat_str.simps) (use 1 d in auto)
qed

lemma nat_str_nonempty [simp]: "nat_str n \<noteq> []"
  by (subst nat_str.simps) simp

lemma hd_nat_str_zero: "hd (nat_str n) = CHR ''0'' \<Longrightarrow> n = 0"
proof (induction n rule: nat_str.induct)
  case (1 n)
  have z: "digit_char k = CHR ''0'' \<Longrightarrow> k = 0" if "k < 10" for k
  proof -
    assume "digit_char k = CHR ''0''"
    then have "of_char (digit_char k) = (48 :: nat)" by simp
    with that show "k = 0" by (simp add: digit_char_def)
  qed
  show ?case
  proof (cases "n < 10")
    case True
    with "1.prems" z show ?thesis by (simp add: nat_str.simps [of n])
  next
    case False
    then have "hd (nat_str n) = hd (nat_str (n div 10))"
      by (simp add: nat_str.simps [of n])
    with "1.prems" False "1.IH" have "n div 10 = 0" by simp
    with False show ?thesis by simp
  qed
qed

lemma nat_of_digits_str: "nat_of_digits (nat_str n) = n"
proof (induction n rule: nat_str.induct)
  case (1 n)
  have v: "digit_val (digit_char k) = k" if "k < 10" for k
    using that by (simp add: digit_val_def digit_char_def)
  show ?case
  proof (cases "n < 10")
    case True
    then show ?thesis by (simp add: nat_str.simps [of n] nat_of_digits_def v)
  next
    case False
    with "1.IH" show ?thesis
      by (simp add: nat_str.simps [of n] nat_of_digits_def v)
  qed
qed

lemma digit_char_zero: "digit_char 0 = CHR ''0''"
proof -
  have "of_char (digit_char 0) = (of_char (CHR ''0'') :: nat)" by (simp add: digit_char_def)
  then show ?thesis by (simp only: of_char_eq_iff)
qed

lemma nat_str_zero: "nat_str 0 = ''0''"
  by (simp add: nat_str.simps digit_char_zero)

lemma takeWhile_nat_str: "takeWhile is_digit (nat_str n) = nat_str n"
  using nat_str_digits [of n] by (simp add: takeWhile_eq_all_conv list_all_iff)

lemma hd_nat_str_digit: "is_digit (hd (nat_str n))"
  using nat_str_digits [of n] by (cases "nat_str n") auto

lemma hd_nat_str_not_sign: "hd (nat_str n) \<noteq> CHR ''-''"
  using hd_nat_str_digit [of n] by (auto simp: is_digit_def)

lemma dropWhile_nat_str: "dropWhile is_digit (nat_str n) = []"
  using nat_str_digits [of n] by (simp add: dropWhile_eq_Nil_conv list_all_iff)

lemma scan_digits_nat_str: "stops_number r \<Longrightarrow> scan_digits (nat_str n @ r) = Some (nat_str n, r)"
  using hd_nat_str_zero [of n]
  by (cases "n = 0")
    (auto simp: scan_digits_def scan_tail takeWhile_nat_str dropWhile_nat_str nat_str_zero
      is_digit_def)

lemma scan_int_digits:
  assumes "stops_number r"
  shows "scan_int (nat_str n @ r) = Some (nat_str n, r)"
    and "scan_int (CHR ''-'' # nat_str n @ r) = Some (CHR ''-'' # nat_str n, r)"
  using assms by (simp_all add: scan_int_def scan_digits_nat_str hd_nat_str_not_sign)

lemma scan_int_int_str: "stops_number r \<Longrightarrow> scan_int (int_str i @ r) = Some (int_str i, r)"
  by (simp add: int_str_def scan_int_digits)

lemma scan_suffix_none:
  "stops_number r \<Longrightarrow> scan_frac r = ([], r)" "stops_number r \<Longrightarrow> scan_exp r = ([], r)"
  by (auto simp: scan_frac_def scan_exp_def stops_number_def)

lemma int_of_lexeme_str: "int_of_lexeme (int_str i) = i"
  by (simp add: int_of_lexeme_def int_str_def nat_of_digits_str hd_nat_str_not_sign)

lemma scan_number_int: "stops_number r \<Longrightarrow> scan_number (int_str i @ r) = Some (JInt i, r)"
  by (simp add: scan_number_def scan_int_int_str scan_suffix_none int_of_lexeme_str)

lemma scan_digits_tail:
  "scan_digits l = Some (i, r) \<Longrightarrow> stops_number t \<Longrightarrow> scan_digits (l @ t) = Some (i, r @ t)"
  by (cases l) (auto simp: scan_digits_def scan_tail [of _ "_ # _", simplified] scan_tail
      split: if_splits)

lemma scan_int_tail:
  assumes "scan_int l = Some (i, r)" and "stops_number t"
  shows "scan_int (l @ t) = Some (i, r @ t)"
proof -
  have "l \<noteq> []" using assms(1) by (auto simp: scan_int_def scan_digits_def)
  with assms show ?thesis
    by (auto simp: scan_int_def scan_digits_tail split: if_splits)
qed

lemma scan_frac_tail:
  "scan_frac l = (f, r) \<Longrightarrow> stops_number t \<Longrightarrow> scan_frac (l @ t) = (f, r @ t)"
  by (cases l) (auto simp: scan_frac_def scan_tail stops_number_def split: if_splits)

lemma scan_sign_tail:
  "scan_sign l = (g, r) \<Longrightarrow> stops_number t \<Longrightarrow> scan_sign (l @ t) = (g, r @ t)"
  by (cases l) (auto simp: scan_sign_def stops_number_def split: if_splits)

lemma scan_exp_tail:
  assumes "scan_exp l = (e, r)" and t: "stops_number t"
  shows "scan_exp (l @ t) = (e, r @ t)"
proof (cases "l \<noteq> [] \<and> hd l \<in> {CHR ''e'', CHR ''E''}")
  case True
  obtain g u where gu: "scan_sign (tl l) = (g, u)" by fastforce
  with True t have "scan_sign (tl (l @ t)) = (g, u @ t)"
    by (simp add: scan_sign_tail)
  with True assms gu show ?thesis
    by (auto simp: scan_exp_def scan_tail split: if_splits)
next
  case False
  with assms(1) have "e = []" "r = l" by (auto simp: scan_exp_def)
  with False t show ?thesis by (cases l) (auto simp: scan_exp_def stops_number_def)
qed

lemma scan_number_float:
  "float_literal l \<Longrightarrow> stops_number r \<Longrightarrow> scan_number (l @ r) = Some (JFloat l, r)"
  by (auto simp: float_literal_def scan_number_def scan_int_tail scan_frac_tail scan_exp_tail
      split: option.splits prod.splits if_splits)

subsection \<open>Values\<close>

text \<open>Objects have distinct keys (they are Python dictionaries) and floats are float literals.\<close>

fun wf_json :: "json \<Rightarrow> bool" where
  "wf_json (JFloat l) = float_literal l"
| "wf_json (JArr vs) = list_all wf_json vs"
| "wf_json (JObj kvs) = (distinct (map fst kvs) \<and> list_all (\<lambda>(k, v). wf_json v) kvs)"
| "wf_json v = True"

text \<open>The value with the keys of every object sorted.\<close>

fun canon :: "json \<Rightarrow> json" where
  "canon (JArr vs) = JArr (map canon vs)"
| "canon (JObj kvs) = JObj (sort_key fst (map (\<lambda>(k, v). (k, canon v)) kvs))"
| "canon v = v"

text \<open>The fuel a value needs.\<close>

fun need :: "json \<Rightarrow> nat" where
  "need (JArr vs) = 1 + sum_list (map (\<lambda>v. need v + 1) vs)"
| "need (JObj kvs) = 1 + sum_list (map (\<lambda>(k, v). need v + 1) kvs)"
| "need v = 1"

lemma insort_key_map: "insort_key f (g x) (map g xs) = map g (insort_key (\<lambda>x. f (g x)) x xs)"
  by (induction xs) auto

lemma sort_key_map: "sort_key f (map g xs) = map g (sort_key (\<lambda>x. f (g x)) xs)"
  by (induction xs) (simp_all add: insort_key_map)

lemma sort_key_map_snd:
  "sort_key fst (map (\<lambda>(k, v). (k, h v)) kvs) = map (\<lambda>(k, v). (k, h v)) (sort_key fst kvs)"
  by (simp add: sort_key_map case_prod_beta)

lemma skip_ws_id: "s = [] \<or> hd s \<notin> {CHR 0x20, CHR 0x09, CHR 0x0A, CHR 0x0D} \<Longrightarrow> skip_ws s = s"
  by (cases s) auto

text \<open>No value starts with white space or with a closing bracket.\<close>

definition value_start :: "string \<Rightarrow> bool" where
  "value_start s \<longleftrightarrow> s \<noteq> [] \<and>
     hd s \<notin> {CHR 0x20, CHR 0x09, CHR 0x0A, CHR 0x0D, CHR '']'', CHR ''}'', CHR '','', CHR '':''}"

lemma int_str_start: "hd (int_str i) = CHR ''-'' \<or> is_digit (hd (int_str i))" "int_str i \<noteq> []"
  by (auto simp: int_str_def hd_nat_str_digit)

lemma float_literal_start:
  assumes "float_literal l"
  shows "l \<noteq> []" and "hd l = CHR ''-'' \<or> is_digit (hd l)"
proof -
  from assms obtain p where "scan_int l = Some p"
    by (auto simp: float_literal_def scan_number_def split: option.splits)
  then show "l \<noteq> []" and "hd l = CHR ''-'' \<or> is_digit (hd l)"
    by (cases l; auto simp: scan_int_def scan_digits_def split: if_splits)+
qed

lemma number_start_neq:
  assumes "c = CHR ''-'' \<or> is_digit c"
  shows "c \<notin> {CHR 0x22, CHR ''{'', CHR ''['', CHR ''n'', CHR ''t'', CHR ''f'', CHR 0x20, CHR 0x09,
    CHR 0x0A, CHR 0x0D, CHR '']'', CHR ''}'', CHR '','', CHR '':''}"
  using assms by (auto simp: is_digit_def)

lemma number_value_start:
  "l \<noteq> [] \<Longrightarrow> hd l = CHR ''-'' \<or> is_digit (hd l) \<Longrightarrow> value_start (l @ r)"
  using number_start_neq [of "hd l"] by (simp add: value_start_def)

lemma dumps_start: "wf_json v \<Longrightarrow> value_start (dumps ea v @ r)"
proof (cases v)
  case (JInt i)
  then show ?thesis using int_str_start [of i] by (simp add: number_value_start)
next
  case (JFloat l)
  moreover assume "wf_json v"
  ultimately show ?thesis using float_literal_start [of l] by (simp add: number_value_start)
qed (auto simp: value_start_def dumps_str_def)

lemma number_dispatch:
  assumes "l \<noteq> []" and "hd l = CHR ''-'' \<or> is_digit (hd l)"
  shows "parse_value h (Suc n) (l @ r) =
    (case scan_number (l @ r) of
       Some (v, r') \<Rightarrow> Some (v, r')
     | None \<Rightarrow>
         (case scan_constant (l @ r) of
            None \<Rightarrow> None
          | Some (c, r') \<Rightarrow> map_option (\<lambda>v. (v, r')) (snd h c)))"
proof -
  obtain c cs where l: "l = c # cs" using assms(1) by (cases l) auto
  with assms(2) have "c \<notin> {CHR 0x22, CHR ''{'', CHR ''['', CHR ''n'', CHR ''t'', CHR ''f''}"
    using number_start_neq [of c] by simp
  then show ?thesis unfolding l append_Cons by (simp add: starts_with_def)
qed

definition keeps_objects :: "hooks \<Rightarrow> bool" where
  "keeps_objects h \<longleftrightarrow> (\<forall>ps. distinct (map fst ps) \<longrightarrow> fst h ps = Some (JObj ps))"

definition parses_back :: "hooks \<Rightarrow> bool \<Rightarrow> json \<Rightarrow> bool" where
  "parses_back h ea v \<longleftrightarrow>
     (\<forall>n r. need v \<le> n \<longrightarrow> stops_number r \<longrightarrow> parse_value h n (dumps ea v @ r) = Some (canon v, r))"

lemma stops_number_simps [simp]:
  "stops_number []" "stops_number (CHR '','' # r)" "stops_number (CHR '']'' # r)"
  "stops_number (CHR ''}'' # r)"
  by (simp_all add: stops_number_def)

lemma skip_ws_start: "value_start s \<Longrightarrow> skip_ws s = s"
  by (intro skip_ws_id) (auto simp: value_start_def)

lemma need_pos: "0 < need v"
  by (cases v) auto

lemma parse_elems_print:
  assumes "vs \<noteq> []" and "\<And>v. v \<in> set vs \<Longrightarrow> parses_back h ea v \<and> wf_json v"
    and "sum_list (map (\<lambda>v. need v + 1) vs) \<le> n"
  shows "parse_elems h n (join '','' (map (dumps ea) vs) @ '']'' @ r) = Some (map canon vs, r)"
  using assms
proof (induction vs arbitrary: n rule: list_nonempty_induct)
  case (single v)
  then obtain m where "n = Suc m" "need v \<le> m" by (cases n) auto
  with single show ?case by (simp add: parses_back_def)
next
  case (cons v vs)
  then obtain m where m: "n = Suc m" "need v \<le> m" "sum_list (map (\<lambda>v. need v + 1) vs) \<le> m"
    by (cases n) auto
  let ?t = "join '','' (map (dumps ea) vs) @ '']'' @ r"
  from cons(1) obtain w ws where vs: "vs = w # ws" by (cases vs) auto
  have "value_start ?t"
    using cons.prems(1) [of w] dumps_start [of w ea]
    by (cases ws) (simp_all add: vs)
  then have "skip_ws ?t = ?t" by (rule skip_ws_start)
  moreover have "parse_elems h m ?t = Some (map canon vs, r)"
    using cons m by simp
  moreover have "parse_value h m (dumps ea v @ '','' @ ?t) = Some (canon v, '','' @ ?t)"
    using cons.prems(1) [of v] m by (simp add: parses_back_def)
  ultimately show ?case by (simp add: m vs)
qed

definition print_member :: "bool \<Rightarrow> string \<times> json \<Rightarrow> string" where
  "print_member ea p = dumps_str ea (fst p) @ '':'' @ dumps ea (snd p)"

lemma parse_members_print:
  assumes "ps \<noteq> []" and "\<And>k v. (k, v) \<in> set ps \<Longrightarrow> parses_back h ea v \<and> wf_json v"
    and "sum_list (map (\<lambda>(k, v). need v + 1) ps) \<le> n"
  shows "parse_members h n (join '','' (map (print_member ea) ps) @ ''}'' @ r)
     = Some (map (\<lambda>(k, v). (k, canon v)) ps, r)"
  using assms
proof (induction ps arbitrary: n rule: list_nonempty_induct)
  case (single p)
  obtain k v where p: "p = (k, v)" by (cases p)
  from single p obtain m where m: "n = Suc m" "need v \<le> m" by (cases n) auto
  have "value_start (dumps ea v @ ''}'' @ r)"
    using single p by (intro dumps_start) simp
  from skip_ws_start [OF this] single m show ?case
    by (simp add: p print_member_def dumps_str_def scan_string_print parses_back_def)
next
  case (cons p ps)
  obtain k v where p: "p = (k, v)" by (cases p)
  from cons p obtain m where m: "n = Suc m" "need v \<le> m"
      "sum_list (map (\<lambda>(k, v). need v + 1) ps) \<le> m"
    by (cases n) auto
  define t where "t = join '','' (map (print_member ea) ps) @ ''}'' @ r"
  from cons(1) obtain q qs where ps: "ps = q # qs" by (cases ps) auto
  have "skip_ws t = t"
    by (cases qs) (simp_all add: t_def ps print_member_def dumps_str_def)
  moreover have "parse_members h m t = Some (map (\<lambda>(k, v). (k, canon v)) ps, r)"
    unfolding t_def using cons.prems(1) m(3) by (intro cons.IH) auto
  moreover have "skip_ws (dumps ea v @ '','' @ t) = dumps ea v @ '','' @ t"
    using cons.prems(1) [of k v] p by (intro skip_ws_start dumps_start) simp
  moreover have "parse_value h m (dumps ea v @ '','' @ t) = Some (canon v, '','' @ t)"
    using cons.prems(1) [of k v] m p by (simp add: parses_back_def)
  moreover have "join '','' (map (print_member ea) (p # ps)) @ ''}'' @ r =
      CHR 0x22 # concat (map (esc_char ea) k) @ CHR 0x22 # '':'' @ dumps ea v @ '','' @ t"
    by (simp add: t_def p ps print_member_def [of ea "(k, v)"] dumps_str_def)
  ultimately show ?case
    by (simp add: m p scan_string_print)
qed

lemma dumps_JObj:
  "dumps ea (JObj kvs) = ''{'' @ join '','' (map (print_member ea) (sort_key fst kvs)) @ ''}''"
  by (simp add: sort_key_map_snd print_member_def [abs_def] case_prod_beta comp_def)

lemma sum_list_sort_key:
  fixes f :: "'a \<Rightarrow> nat"
  shows "sum_list (map f (sort_key g xs)) = sum_list (map f xs)"
  by (metis mset_map mset_sort sum_mset_sum_list)

lemma parse_print_value: "keeps_objects h \<Longrightarrow> wf_json v \<Longrightarrow> parses_back h ea v"
proof (induction v)
  case (JInt i)
  show ?case unfolding parses_back_def
  proof (intro allI impI)
    fix n r assume "need (JInt i) \<le> n" and r: "stops_number r"
    then obtain m where "n = Suc m" by (cases n) auto
    with r int_str_start [of i] show "parse_value h n (dumps ea (JInt i) @ r) = Some (canon (JInt i), r)"
      by (simp add: number_dispatch scan_number_int del: parse_value.simps)
  qed
next
  case (JFloat l)
  show ?case unfolding parses_back_def
  proof (intro allI impI)
    fix n r assume "need (JFloat l) \<le> n" and r: "stops_number r"
    then obtain m where "n = Suc m" by (cases n) auto
    with r JFloat float_literal_start [of l]
    show "parse_value h n (dumps ea (JFloat l) @ r) = Some (canon (JFloat l), r)"
      by (simp add: number_dispatch scan_number_float del: parse_value.simps)
  qed
next
  case (JStr t)
  show ?case unfolding parses_back_def
  proof (intro allI impI)
    fix n r assume "need (JStr t) \<le> n"
    then obtain m where "n = Suc m" by (cases n) auto
    then show "parse_value h n (dumps ea (JStr t) @ r) = Some (canon (JStr t), r)"
      by (simp add: dumps_str_def scan_string_print)
  qed
next
  case (JArr vs)
  show ?case unfolding parses_back_def
  proof (intro allI impI)
    fix n r assume n: "need (JArr vs) \<le> n"
    then obtain m where m: "n = Suc m" "sum_list (map (\<lambda>v. need v + 1) vs) \<le> m"
      by (cases n) auto
    show "parse_value h n (dumps ea (JArr vs) @ r) = Some (canon (JArr vs), r)"
    proof (cases vs)
      case Nil
      then show ?thesis by (simp add: m)
    next
      case (Cons w ws)
      let ?t = "join '','' (map (dumps ea) vs) @ '']'' @ r"
      have wf: "\<And>v. v \<in> set vs \<Longrightarrow> parses_back h ea v \<and> wf_json v"
        using JArr by (auto simp: list_all_iff)
      have "value_start ?t"
        using wf [of w] dumps_start [of w ea] by (cases ws) (simp_all add: Cons)
      then obtain c cs where t: "?t = c # cs" "c \<noteq> CHR '']''" and "skip_ws ?t = ?t"
        by (cases ?t) (auto simp: value_start_def)
      moreover have "parse_elems h m ?t = Some (map canon vs, r)"
        using wf m Cons by (intro parse_elems_print) auto
      ultimately show ?thesis by (simp add: m)
    qed
  qed
next
  case (JObj kvs)
  show ?case unfolding parses_back_def
  proof (intro allI impI)
    fix n r assume "need (JObj kvs) \<le> n"
    then obtain m where m: "n = Suc m" "sum_list (map (\<lambda>(k, v). need v + 1) kvs) \<le> m"
      by (cases n) auto
    let ?ps = "sort_key fst kvs"
    define t where "t = join '','' (map (print_member ea) ?ps) @ ''}'' @ r"
    have print: "dumps ea (JObj kvs) @ r = CHR ''{'' # t"
      by (simp only: dumps_JObj t_def) simp
    show "parse_value h n (dumps ea (JObj kvs) @ r) = Some (canon (JObj kvs), r)"
    proof (cases ?ps)
      case Nil
      then have "kvs = []" by (metis length_0_conv length_sort)
      then show ?thesis by (simp add: m)
    next
      case (Cons q qs)
      have wf: "\<And>k v. (k, v) \<in> set ?ps \<Longrightarrow> parses_back h ea v \<and> wf_json v"
        using JObj by (fastforce simp: list_all_iff)
      obtain cs where t: "t = CHR 0x22 # cs"
        by (cases qs) (simp_all add: t_def Cons print_member_def dumps_str_def)
      have "parse_members h m t = Some (map (\<lambda>(k, v). (k, canon v)) ?ps, r)"
        unfolding t_def
      proof (rule parse_members_print)
        show "?ps \<noteq> []" by (simp only: Cons) simp
        show "sum_list (map (\<lambda>(k, v). need v + 1) ?ps) \<le> m"
          using m(2) by (simp only: sum_list_sort_key)
      qed (use wf in blast)
      moreover have "distinct (map fst (map (\<lambda>(k, v). (k, canon v)) ?ps))"
      proof -
        have "distinct (map fst ?ps)"
          using JObj.prems by (simp add: distinct_map)
        then show ?thesis by (simp add: case_prod_beta comp_def)
      qed
      then have keeps: "fst h (map (\<lambda>(k, v). (k, canon v)) ?ps) = Some (JObj (map (\<lambda>(k, v). (k, canon v)) ?ps))"
        using JObj.prems(1) by (simp only: keeps_objects_def)
      ultimately show ?thesis
        unfolding print by (simp add: m t sort_key_map_snd keeps)
    qed
  qed
qed (auto simp: parses_back_def Suc_le_eq gr0_conv_Suc starts_with_def)

lemma length_join_ge: "sum_list (map length xs) \<le> length (join sep xs)"
  by (induction sep xs rule: join.induct) auto

lemma need_bound: "wf_json v \<Longrightarrow> need v + 1 \<le> 2 * length (dumps ea v)"
proof (induction v)
  case (JArr vs)
  have "sum_list (map (\<lambda>v. need v + 1) vs) \<le> 2 * sum_list (map length (map (dumps ea) vs))"
    using JArr
  proof (induction vs)
    case (Cons w ws)
    then have "need w + 1 \<le> 2 * length (dumps ea w)" by simp
    with Cons show ?case by fastforce
  qed simp
  also have "\<dots> \<le> 2 * length (join '','' (map (dumps ea) vs))"
    using length_join_ge [of "map (dumps ea) vs" "'',''"] by simp
  finally show ?case by simp
next
  case (JObj kvs)
  let ?m = "map (print_member ea) (sort_key fst kvs)"
  have "sum_list (map (\<lambda>(k, v). need v + 1) kvs)
      \<le> 2 * sum_list (map (\<lambda>p. length (print_member ea p)) kvs)"
    using JObj
  proof (induction kvs)
    case (Cons p ps)
    obtain k v where p: "p = (k, v)" by (cases p)
    have "need v + 1 \<le> 2 * length (dumps ea v)"
      using Cons.prems(2) by (intro Cons.prems(1) [of p v]) (simp_all add: p)
    moreover have "length (dumps ea v) \<le> length (print_member ea p)"
      by (simp add: p print_member_def)
    ultimately show ?case using Cons by (fastforce simp: p)
  qed simp
  also have "\<dots> = 2 * sum_list (map length ?m)"
    by (simp add: comp_def sum_list_sort_key)
  also have "\<dots> \<le> 2 * length (join '','' ?m)" using length_join_ge [of ?m "'',''"] by simp
  finally show ?case by (simp only: dumps_JObj need.simps) simp
next
  case (JInt i)
  then show ?case using int_str_start [of i] by (cases "int_str i") auto
next
  case (JFloat l)
  then show ?case using float_literal_start [of l] by (cases l) auto
qed (auto simp: dumps_str_def)

text \<open>The strict decoder reads back every canonical print, with sorted keys.\<close>

lemma loads_with_dumps: "keeps_objects h \<Longrightarrow> wf_json v \<Longrightarrow> loads_with h (dumps ea v) = Inr (canon v)"
proof -
  assume h: "keeps_objects h" and wf: "wf_json v"
  have "value_start (dumps ea v)" using dumps_start [OF wf, of ea "[]"] by simp
  then have "skip_ws (dumps ea v) = dumps ea v" by (rule skip_ws_start)
  moreover have "parse_value h (2 * length (dumps ea v) + 2) (dumps ea v @ []) = Some (canon v, [])"
    using parse_print_value [OF h wf, of ea] need_bound [OF wf, of ea]
    unfolding parses_back_def by (metis add_leD1 add_lessD1 le_add1 le_trans stops_number_simps(1))
  ultimately show ?thesis by (simp add: loads_with_def)
qed

lemma loads_with_dumps_line:
  "keeps_objects h \<Longrightarrow> wf_json v \<Longrightarrow> loads_with h (dumps ea v @ [CHR 0x0A]) = Inr (canon v)"
proof -
  assume h: "keeps_objects h" and wf: "wf_json v"
  have "value_start (dumps ea v @ [CHR 0x0A])" using dumps_start [OF wf] .
  then have skip: "skip_ws (dumps ea v @ [CHR 0x0A]) = dumps ea v @ [CHR 0x0A]"
    by (rule skip_ws_start)
  have "need v \<le> 2 * length (dumps ea v @ [CHR 0x0A]) + 2"
    using need_bound [OF wf, of ea] by simp
  moreover have "stops_number [CHR 0x0A]" by (simp add: stops_number_def)
  ultimately have "parse_value h (2 * length (dumps ea v @ [CHR 0x0A]) + 2)
      (dumps ea v @ [CHR 0x0A]) = Some (canon v, [CHR 0x0A])"
    using parse_print_value [OF h wf, of ea] unfolding parses_back_def by blast
  then show ?thesis unfolding loads_with_def skip by simp
qed

lemma keeps_objects_hooks: "keeps_objects strict_hooks" "keeps_objects plain_hooks"
proof -
  have "fold (\<lambda>(k, v). AList.update k v) ps d = d @ ps"
    if "distinct (map fst ps)" and "fst ` set ps \<inter> fst ` set d = {}"
    for ps d :: "(string \<times> json) list"
    using that
  proof (induction ps arbitrary: d)
    case (Cons p ps)
    obtain k v where p: "p = (k, v)" by (cases p)
    have "AList.update k v d = d @ [(k, v)]" using Cons.prems by (intro dict_update_new) (auto simp: p)
    with Cons show ?case by (auto simp: p)
  qed simp
  from this [of _ "[]"] show "keeps_objects plain_hooks" by (simp add: keeps_objects_def plain_hooks_def)
  show "keeps_objects strict_hooks"
    by (simp add: keeps_objects_def strict_hooks_def unique_object_def)
qed

lemma loads_dumps: "wf_json v \<Longrightarrow> loads_strict_json (dumps ea v) = Inr (canon v)"
  by (simp only: loads_strict_json_def loads_with_dumps keeps_objects_hooks)

lemma json_loads_dumps: "wf_json v \<Longrightarrow> json_loads (dumps ea v) = Inr (canon v)"
  by (simp only: json_loads_def loads_with_dumps keeps_objects_hooks)

lemma json_loads_dumps_line: "wf_json v \<Longrightarrow> json_loads (dumps ea v @ [CHR 0x0A]) = Inr (canon v)"
  by (simp only: json_loads_def loads_with_dumps_line keeps_objects_hooks)

lemma loads_object_dumps:
  "wf_json (JObj kvs) \<Longrightarrow> canon (JObj kvs) = JObj kvs' \<Longrightarrow>
     loads_strict_object (dumps ea (JObj kvs)) = Inr kvs'"
  by (simp only: loads_strict_object_def loads_dumps) simp

lemma dumps_inject:
  "wf_json v \<Longrightarrow> wf_json w \<Longrightarrow> dumps ea v = dumps ea w \<Longrightarrow> canon v = canon w"
  by (metis loads_dumps sum.inject(2))

lemma dumps_canon: "dumps ea (canon v) = dumps ea v"
proof (induction v)
  case (JArr vs)
  then have "map (dumps ea) (map canon vs) = map (dumps ea) vs" by (simp cong: map_cong)
  then show ?case by (simp only: canon.simps dumps.simps)
next
  case (JObj kvs)
  have "print_member ea (k, canon v) = print_member ea (k, v)" if "(k, v) \<in> set kvs" for k v
    using JObj that by (force simp: print_member_def)
  then have "map (print_member ea) (map (\<lambda>(k, v). (k, canon v)) (sort_key fst kvs)) = map (print_member ea) (sort_key fst kvs)"
    by (auto simp: case_prod_beta)
  moreover have "sort_key fst (sort_key fst (map (\<lambda>(k, v). (k, canon v)) kvs)) = map (\<lambda>(k, v). (k, canon v)) (sort_key fst kvs)"
    by (simp add: sort_key_sorted sort_key_map_snd)
  ultimately show ?case by (simp only: canon.simps dumps_JObj)
qed simp_all

section \<open>The fuel is enough\<close>

text \<open>A scan consumes characters, so more fuel than the length allows never changes its result.\<close>

lemma length_skip_ws: "length (skip_ws s) \<le> length s"
  by (induction s) auto

lemma scan_string_shorter: "scan_string s = Some (t, r) \<Longrightarrow> length r < length s"
  by (induction s arbitrary: t rule: scan_string.induct)
    (auto split: if_splits list.splits option.splits, (fastforce simp: less_Suc_eq)+)

lemma length_dropWhile_is_digit: "takeWhile is_digit s \<noteq> [] \<Longrightarrow> length (dropWhile is_digit s) < length s"
  by (cases s) (auto simp: length_dropWhile_le le_imp_less_Suc split: if_splits)

lemma scan_int_shorter: "scan_int s = Some (i, r) \<Longrightarrow> length r < length s"
proof -
  have digits: "scan_digits t = Some (d, r) \<Longrightarrow> length r < length t" for t d
    by (cases t) (auto simp: scan_digits_def length_dropWhile_is_digit length_dropWhile_le
        le_imp_less_Suc split: if_splits)
  assume "scan_int s = Some (i, r)"
  then show ?thesis
    by (cases s) (auto simp: scan_int_def split: if_splits dest!: digits)
qed

lemma length_scan_frac: "length (snd (scan_frac s)) \<le> length s"
  by (cases s) (auto simp: scan_frac_def intro: le_SucI length_dropWhile_le)

lemma length_scan_exp: "length (snd (scan_exp s)) \<le> length s"
proof (cases s)
  case (Cons c cs)
  have "length (dropWhile is_digit (snd (scan_sign cs))) \<le> length cs"
    using length_dropWhile_le [of is_digit "snd (scan_sign cs)"]
    by (auto simp: scan_sign_def split: if_splits)
  with Cons show ?thesis by (auto simp: scan_exp_def case_prod_beta Let_def)
qed (simp add: scan_exp_def)

lemma scan_number_shorter: "scan_number s = Some (v, r) \<Longrightarrow> length r < length s"
proof -
  assume "scan_number s = Some (v, r)"
  then obtain i t where i: "scan_int s = Some (i, t)" and r: "r = snd (scan_exp (snd (scan_frac t)))"
    by (auto simp: scan_number_def case_prod_beta Let_def split: option.splits if_splits)
  show ?thesis
    using scan_int_shorter [OF i] length_scan_frac [of t] length_scan_exp [of "snd (scan_frac t)"]
    by (simp add: r)
qed

lemma scan_constant_shorter: "scan_constant s = Some (l, r) \<Longrightarrow> length r < length s"
  by (cases s) (auto simp: scan_constant_def starts_with_def split: if_splits)

lemma skip_ws_Cons_length: "skip_ws r = d # r1 \<Longrightarrow> length r1 < length r"
  using length_skip_ws [of r] by simp

lemma parse_shorter:
  "parse_value h n s = Some (v, r) \<Longrightarrow> length r < length s"
  "parse_elems h n s = Some (vs, r) \<Longrightarrow> length r < length s"
  "parse_members h n s = Some (kvs, r) \<Longrightarrow> length r < length s"
proof (induction h n s and h n s and h n s arbitrary: v r and vs r and kvs r
    rule: parse_value_parse_elems_parse_members.induct)
  case (2 h n s)
  obtain c cs where s: "s = c # cs" using "2.prems" by (cases s) auto
  consider "c = CHR 0x22" | "c = CHR ''{''" | "c = CHR ''[''"
    | "c \<noteq> CHR 0x22" "c \<noteq> CHR ''{''" "c \<noteq> CHR ''[''" by blast
  then show ?case
  proof cases
    case 1
    with "2.prems" s show ?thesis by (auto dest: scan_string_shorter)
  next
    case c: 2
    then show ?thesis 
      using "2.prems" "2.IH"(1) [OF s] s
      by (auto split: list.splits if_splits option.splits dest!: skip_ws_Cons_length)
        (fastforce dest: less_trans)
  next
    case c: 3
    then show ?thesis 
      using "2.prems" "2.IH"(2) [OF s] s
      by (auto split: list.splits if_splits option.splits dest!: skip_ws_Cons_length) (fastforce dest: less_trans)
  next
    case 4
    with "2.prems" s scan_number_shorter [of s v r] scan_constant_shorter [of s] show ?thesis
      by (auto split: if_splits option.splits)
  qed
next
  case (4 h n s)
  then obtain v t where v: "parse_value h n s = Some (v, t)" by (auto split: option.splits)
  then have t: "length t < length s" by (rule "4.IH"(1))
  have "length r < length t"
    using "4.prems" v "4.IH"(2) [OF v refl]
    by (auto split: list.splits if_splits dest!: skip_ws_Cons_length)
      (meson dual_order.strict_trans length_skip_ws order_less_le_trans)
  with t show ?case by simp
next
  case (6 h n s)
  then have s: "\<not> (s = [] \<or> hd s \<noteq> CHR 0x22)" by (auto split: if_splits)
  then obtain k t where k: "scan_string (tl s) = Some (k, t)"
    using "6.prems" by (auto split: option.splits)
  then obtain u where u: "skip_ws t = CHR '':'' # u"
    using "6.prems" s by (auto split: option.splits list.splits if_splits)
  then obtain v w where v: "parse_value h n (skip_ws u) = Some (v, w)"
    using "6.prems" s k by (auto split: option.splits)
  have "length t < length s"
    using scan_string_shorter [OF k] by simp
  moreover have "length u < length t" using u by (rule skip_ws_Cons_length)
  moreover have "length w < length (skip_ws u)"
    using "6.IH"(1) [OF s k refl u] v by simp
  moreover have "length r < length w"
    using "6.prems" s k u v "6.IH"(2) [OF s k refl u _ v refl]
    by (auto split: list.splits if_splits dest!: skip_ws_Cons_length)
      (meson dual_order.strict_trans length_skip_ws order_less_le_trans)
  ultimately show ?case using length_skip_ws [of u] by simp
qed simp_all

lemma parse_fuel:
  "2 * length s < n \<Longrightarrow> 2 * length s < m \<Longrightarrow> parse_value h n s = parse_value h m s"
  "2 * length s + 1 < n \<Longrightarrow> 2 * length s + 1 < m \<Longrightarrow> parse_elems h n s = parse_elems h m s"
  "2 * length s + 1 < n \<Longrightarrow> 2 * length s + 1 < m \<Longrightarrow> parse_members h n s = parse_members h m s"
proof (induction h n s and h n s and h n s arbitrary: m and m and m
    rule: parse_value_parse_elems_parse_members.induct)
  case (2 h n s)
  obtain m' where m: "m = Suc m'" using "2.prems" by (cases m) auto
  show ?case
  proof (cases s)
    case (Cons c cs)
    have len: "2 * length (d # r1) + 1 < n \<and> 2 * length (d # r1) + 1 < m'"
      if "skip_ws cs = d # r1" for d r1
      using skip_ws_Cons_length [OF that] "2.prems" m Cons by simp
    have "parse_members h n (d # r1) = parse_members h m' (d # r1)"
      if "c = CHR ''{''" "skip_ws cs = d # r1" "d \<noteq> CHR ''}''" for d r1
      using that len [OF that(2)] "2.IH"(1) [OF Cons _ that(1,2,3)] by simp
    moreover have "parse_elems h n (d # r1) = parse_elems h m' (d # r1)"
      if "c = CHR ''[''" "skip_ws cs = d # r1" "d \<noteq> CHR '']''" for d r1
      using that len [OF that(2)] "2.IH"(2) [OF Cons _ _ that(1,2,3)] by simp
    ultimately show ?thesis
      by (simp add: Cons m split: list.split)
  qed (simp add: m)
next
  case (4 h n s)
  obtain m' where m: "m = Suc m'" using "4.prems" by (cases m) auto
  have v: "parse_value h n s = parse_value h m' s"
    using "4.prems" m by (intro "4.IH"(1)) auto
  have "parse_elems h n (skip_ws r1) = parse_elems h m' (skip_ws r1)"
    if p: "parse_value h m' s = Some (w, r)" and r: "skip_ws r = CHR '','' # r1" for w r r1
  proof -
    have "length (skip_ws r1) + 1 < length s"
      using parse_shorter(1) [OF p] skip_ws_Cons_length [OF r] length_skip_ws [of r1] by simp
    then show ?thesis
      using "4.prems" m p r v by (intro "4.IH"(2) [of "(w, r)" w r]) simp_all
  qed
  then show ?case by (simp add: m v split: option.split list.split)
next
  case (6 h n s)
  obtain m' where m: "m = Suc m'" using "6.prems" by (cases m) auto
  show ?case
  proof (cases "s = [] \<or> hd s \<noteq> CHR 0x22")
    case s: False
    have len: "length u < length s \<and> length (skip_ws u) < length s"
      if "scan_string (tl s) = Some (k, t)" and "skip_ws t = CHR '':'' # u" for k t u
      using scan_string_shorter [OF that(1)] skip_ws_Cons_length [OF that(2)] length_skip_ws [of u]
      by simp linarith
    have v: "parse_value h n (skip_ws u) = parse_value h m' (skip_ws u)"
      if "scan_string (tl s) = Some (k, t)" and "skip_ws t = CHR '':'' # u" for k t u
      using "6.IH"(1) [OF s that(1) refl that(2)] len [OF that] "6.prems" m by simp
    have ms: "parse_members h n (skip_ws x) = parse_members h m' (skip_ws x)"
      if k: "scan_string (tl s) = Some (k, t)" and u: "skip_ws t = CHR '':'' # u"
        and p: "parse_value h m' (skip_ws u) = Some (w, r)" and r: "skip_ws r = CHR '','' # x"
      for k t u w r x
    proof -
      have "length (skip_ws x) + 1 < length s"
        using len [OF k u] parse_shorter(1) [OF p] skip_ws_Cons_length [OF r] length_skip_ws [of x]
        by simp
      moreover have "parse_value h n (skip_ws u) = Some (w, r)" using v [OF k u] p by simp
      ultimately show ?thesis
        using "6.IH"(2) [OF s k refl u _ _ refl r] "6.prems" m by simp
    qed
    show ?thesis
      using s v ms by (simp add: m split: option.split list.split)
  qed (auto simp: m)
qed simp_all

text \<open>The fuel \<open>loads_strict_json\<close> passes is enough: any larger amount gives the same scan.\<close>

lemma parse_value_fuel:
  "2 * length s + 2 \<le> n \<Longrightarrow> parse_value h n s = parse_value h (2 * length s + 2) s"
  by (intro parse_fuel) simp_all

section \<open>Prints stay on one line\<close>

fun json_strings :: "json \<Rightarrow> string list" where
  "json_strings (JStr t) = [t]"
| "json_strings (JArr vs) = concat (map json_strings vs)"
| "json_strings (JObj kvs) = concat (map (\<lambda>(k, v). k # json_strings v) kvs)"
| "json_strings v = []"

definition one_line :: "string \<Rightarrow> bool" where
  "one_line s \<longleftrightarrow> list_all (\<lambda>c. \<not> is_line_break c) s"

lemma one_line_simps [simp]:
  "one_line []" "one_line (c # s) \<longleftrightarrow> \<not> is_line_break c \<and> one_line s"
  "one_line (s @ t) \<longleftrightarrow> one_line s \<and> one_line t"
  by (simp_all add: one_line_def)

lemma one_line_concat: "one_line (concat ss) \<longleftrightarrow> (\<forall>s \<in> set ss. one_line s)"
  by (induction ss) auto

lemma one_line_join: "one_line sep \<Longrightarrow> one_line (join sep ss) \<longleftrightarrow> (\<forall>s \<in> set ss. one_line s)"
  by (induction sep ss rule: join.induct) auto

lemma is_line_break_ascii:
  "is_line_break c \<Longrightarrow> of_char c \<ge> (32 :: nat) \<Longrightarrow> c = CHR 0x85"
proof -
  assume "is_line_break c" and "of_char c \<ge> (32 :: nat)"
  then have "of_char c = (of_char (CHR 0x85) :: nat)" by (auto simp: is_line_break_def)
  then show ?thesis by (simp only: of_char_eq_iff)
qed

lemma hex_digit_ascii: "n < 16 \<Longrightarrow> \<not> is_line_break (hex_digit n)"
  by (auto simp: is_line_break_def hex_digit_def)

lemma one_line_unicode_escape: "one_line (unicode_escape c)"
proof -
  have "(of_char c :: nat) div 16 < 16"
    using of_char_less_256 [of c] by (simp add: less_mult_imp_div_less)
  then have "\<not> is_line_break (hex_digit (of_char c div 16))"
    and "\<not> is_line_break (hex_digit (of_char c mod 16))"
    by (simp_all add: hex_digit_ascii)
  then show ?thesis by (simp add: unicode_escape_def) (simp add: is_line_break_def)
qed

lemma no_break_ascii:
  "\<not> is_line_break (CHR 0x5C)" "\<not> is_line_break (CHR 0x22)" "\<not> is_line_break (CHR ''n'')"
  "\<not> is_line_break (CHR ''r'')" "\<not> is_line_break (CHR ''t'')" "\<not> is_line_break (CHR ''f'')"
  "\<not> is_line_break (CHR ''b'')" "is_line_break (CHR 0x85)"
  by (simp_all add: is_line_break_def)

lemma one_line_esc_char: "one_line (esc_char ea c) \<longleftrightarrow> c \<noteq> CHR 0x85 \<or> ea"
proof (cases "c = CHR 0x85")
  case True
  then show ?thesis
    by (cases ea) (simp_all add: esc_char_def one_line_unicode_escape no_break_ascii)
next
  case False
  then have "\<not> is_line_break c" if "\<not> of_char c < (32 :: nat)"
    using that is_line_break_ascii [of c] by auto
  with False show ?thesis
    by (simp add: esc_char_def one_line_unicode_escape no_break_ascii)
qed

lemma one_line_dumps_str: "one_line (dumps_str ea s) \<longleftrightarrow> ea \<or> CHR 0x85 \<notin> set s"
  by (auto simp: dumps_str_def one_line_concat one_line_esc_char no_break_ascii)

lemma one_line_digits: "list_all is_digit s \<Longrightarrow> one_line s"
  by (auto simp: one_line_def list_all_iff is_digit_def is_line_break_def)

lemma one_line_int_str: "one_line (int_str i)"
  using one_line_digits [OF nat_str_digits] by (simp add: int_str_def is_line_break_def)

lemma one_line_takeWhile_digit: "one_line (takeWhile is_digit s)"
  by (rule one_line_digits) (auto simp: list_all_iff dest: set_takeWhileD)

lemma one_line_float_literal: "float_literal l \<Longrightarrow> one_line l"
proof -
  assume "float_literal l"
  then obtain i r where i: "scan_int l = Some (i, r)"
    and l: "l = i @ fst (scan_frac r) @ fst (scan_exp (snd (scan_frac r)))"
    by (auto simp: float_literal_def scan_number_def case_prod_beta Let_def
        split: option.splits if_splits)
  have "one_line (fst (scan_frac r))" for r
    by (simp add: scan_frac_def one_line_takeWhile_digit) (simp add: is_line_break_def)
  moreover have "one_line (fst (scan_exp r))" for r
    by (auto simp: scan_exp_def scan_sign_def one_line_takeWhile_digit Let_def no_break_ascii is_line_break_def split: if_splits)
  moreover have "one_line i"
    using i by (auto simp: scan_int_def scan_digits_def one_line_takeWhile_digit is_line_break_def split: if_splits)
  ultimately show ?thesis by (subst l) simp
qed

lemma one_line_member:
  "one_line (print_member ea p) \<longleftrightarrow> (ea \<or> CHR 0x85 \<notin> set (fst p)) \<and> one_line (dumps ea (snd p))"
  by (cases p) (auto simp: print_member_def one_line_dumps_str is_line_break_def)

text \<open>A print is one line exactly if it is escaped to ASCII or no string of the value, keys
  included, holds the character 0x85.\<close>

lemma one_line_dumps:
  "wf_json v \<Longrightarrow> one_line (dumps ea v) \<longleftrightarrow> ea \<or> (\<forall>s \<in> set (json_strings v). CHR 0x85 \<notin> set s)"
proof (induction v)
  case (JArr vs)
  then show ?case
    by (auto simp: one_line_join list_all_iff is_line_break_def)
next
  case (JObj kvs)
  have "one_line (dumps ea (JObj kvs)) \<longleftrightarrow> (\<forall>p \<in> set kvs. one_line (print_member ea p))"
    by (simp only: dumps_JObj) (simp add: one_line_join is_line_break_def)
  also have "\<dots> \<longleftrightarrow> (\<forall>p \<in> set kvs. ea \<or> CHR 0x85 \<notin> set (fst p) \<and> 
       (\<forall>s \<in> set (json_strings (snd p)). CHR 0x85 \<notin> set s))"
    using JObj by (intro ball_cong) (auto simp: one_line_member list_all_iff)
  finally show ?case by (auto 0 4)
qed (simp_all add: one_line_dumps_str one_line_int_str one_line_float_literal is_line_break_def)

end
