(* ===== verification/Digest.thy ===== *)
theory Digest
  imports Json "HOL-Library.Word"
begin

unbundle bit_operations_syntax

text \<open>
  The identities the program computes: \<open>hashlib.sha256(text.encode("utf-8")).hexdigest()\<close>, written
  out over 32-bit words as the Secure Hash Standard has it, and \<open>sha256:<digest>\<close> over canonical JSON.
  Nothing is assumed about collisions: a statement that two inputs with the same identity are equal
  says instead that they are equal or are a SHA-256 collision (\<open>collision\<close>).
\<close>

section \<open>UTF-8\<close>

definition utf8_char :: "char \<Rightarrow> nat list" where
  "utf8_char c =
     (let n = of_char c in if n < 128 then [n] else [192 + n div 64, 128 + n mod 64])"

definition utf8 :: "string \<Rightarrow> nat list" where
  "utf8 s = concat (map utf8_char s)"

section \<open>SHA-256\<close>

type_synonym w32 = "32 word"

text \<open>The constants are the first 32 bits of the fractional parts of roots of the first primes. The
  integer \<open>k\<close>-th root of \<open>p * 2^(32k)\<close> is found bit by bit; its low word is the fraction.\<close>

definition small_primes :: "nat list" where
  "small_primes = filter (\<lambda>n. list_all (\<lambda>d. n mod d \<noteq> 0) [2..<n]) [2..<312]"

definition root_fraction :: "nat \<Rightarrow> nat \<Rightarrow> w32" where
  "root_fraction k p =
     of_nat (fold (\<lambda>b r. if (r + 2 ^ b) ^ k \<le> p * 2 ^ (32 * k) then r + 2 ^ b else r)
       (rev [0..<38]) 0)"

definition round_constants :: "w32 list" where
  "round_constants = map (root_fraction 3) small_primes"

definition initial_hash :: "w32 list" where
  "initial_hash = map (root_fraction 2) [2, 3, 5, 7, 11, 13, 17, 19]"

definition ch :: "w32 \<Rightarrow> w32 \<Rightarrow> w32 \<Rightarrow> w32" where
  "ch x y z = (x AND y) XOR (NOT x AND z)"

definition maj :: "w32 \<Rightarrow> w32 \<Rightarrow> w32 \<Rightarrow> w32" where
  "maj x y z = (x AND y) XOR (x AND z) XOR (y AND z)"

definition big_sigma0 :: "w32 \<Rightarrow> w32" where
  "big_sigma0 x = word_rotr 2 x XOR word_rotr 13 x XOR word_rotr 22 x"

definition big_sigma1 :: "w32 \<Rightarrow> w32" where
  "big_sigma1 x = word_rotr 6 x XOR word_rotr 11 x XOR word_rotr 25 x"

definition small_sigma0 :: "w32 \<Rightarrow> w32" where
  "small_sigma0 x = word_rotr 7 x XOR word_rotr 18 x XOR drop_bit 3 x"

definition small_sigma1 :: "w32 \<Rightarrow> w32" where
  "small_sigma1 x = word_rotr 17 x XOR word_rotr 19 x XOR drop_bit 10 x"

text \<open>The message schedule, newest word first.\<close>

definition schedule_step :: "w32 list \<Rightarrow> w32 list" where
  "schedule_step ws = (small_sigma1 (ws ! 1) + ws ! 6 + small_sigma0 (ws ! 14) + ws ! 15) # ws"

definition schedule :: "w32 list \<Rightarrow> w32 list" where
  "schedule block = rev ((schedule_step ^^ 48) (rev block))"

fun sha_round :: "w32 \<times> w32 \<Rightarrow> w32 list \<Rightarrow> w32 list" where
  "sha_round (k, w) [a, b, c, d, e, f, g, h] =
     (let t1 = h + big_sigma1 e + ch e f g + k + w; t2 = big_sigma0 a + maj a b c
      in [t1 + t2, a, b, c, d + t1, e, f, g])"
| "sha_round _ st = st"

definition compress :: "w32 list \<Rightarrow> w32 list \<Rightarrow> w32 list" where
  "compress hash block =
     map2 (+) hash (fold sha_round (zip round_constants (schedule block)) hash)"

definition pad :: "nat list \<Rightarrow> nat list" where
  "pad bs =
     (let n = length bs; zeros = (119 - n mod 64) mod 64
      in bs @ [128] @ replicate zeros 0 @ map (\<lambda>i. (8 * n) div 256 ^ i mod 256) (rev [0..<8]))"

fun words_of_bytes :: "nat list \<Rightarrow> w32 list" where
  "words_of_bytes (a # b # c # d # bs) =
     of_nat (((a * 256 + b) * 256 + c) * 256 + d) # words_of_bytes bs"
| "words_of_bytes _ = []"

function blocks :: "w32 list \<Rightarrow> w32 list list" where
  "blocks ws = (if ws = [] then [] else take 16 ws # blocks (drop 16 ws))"
  by pat_completeness auto
termination
  by (relation "measure length") auto

declare blocks.simps [simp del]

definition sha256 :: "nat list \<Rightarrow> w32 list" where
  "sha256 bs = fold (\<lambda>block hash. compress hash block) (blocks (words_of_bytes (pad bs))) initial_hash"

definition hex_byte :: "nat \<Rightarrow> string" where
  "hex_byte n = [hex_digit (n div 16 mod 16), hex_digit (n mod 16)]"

definition hex_word :: "w32 \<Rightarrow> string" where
  "hex_word w = concat (map (\<lambda>i. hex_byte (unat w div 256 ^ i mod 256)) [3, 2, 1, 0])"

definition hexdigest :: "string \<Rightarrow> string" where
  "hexdigest s = concat (map hex_word (sha256 (utf8 s)))"

definition sha256_id :: "string \<Rightarrow> string" where
  "sha256_id s = ''sha256:'' @ hexdigest s"

definition collision :: "string \<Rightarrow> string \<Rightarrow> bool" where
  "collision s t \<longleftrightarrow> s \<noteq> t \<and> hexdigest s = hexdigest t"

lemma sha256_id_inject: "sha256_id s = sha256_id t \<longleftrightarrow> s = t \<or> collision s t"
  by (auto simp: sha256_id_def collision_def)

lemma length_sha_round: "length (sha_round p st) = length st"
  by (cases "(p, st)" rule: sha_round.cases) (simp_all add: Let_def)

lemma length_compress: "length hash = 8 \<Longrightarrow> length (compress hash block) = 8"
proof -
  assume "length hash = 8"
  moreover have "length (fold sha_round ps hash) = length hash" for ps
    by (induction ps arbitrary: hash) (simp_all add: length_sha_round)
  ultimately show ?thesis by (simp add: compress_def)
qed

lemma length_sha256 [simp]: "length (sha256 bs) = 8"
proof -
  have "length (fold (\<lambda>block hash. compress hash block) ps hash) = 8" if "length hash = 8" for ps hash
    using that by (induction ps arbitrary: hash) (simp_all add: length_compress)
  then show ?thesis by (simp add: sha256_def initial_hash_def)
qed

lemma length_hexdigest [simp]: "length (hexdigest s) = 64"
proof -
  have "length (concat (map hex_word ws)) = 8 * length ws" for ws
    by (induction ws) (simp_all add: hex_word_def hex_byte_def)
  then show ?thesis by (simp add: hexdigest_def)
qed

end
