(* ===== verification/Detectors.thy ===== *)
theory Detectors
  imports Reconciliation Digest
begin

text \<open>
  The pure drift detectors of \<open>reconcile/detectors.py\<close>: six classifiers over one comparison of
  evidence sides, run in a fixed order of precedence, and the fingerprint that names what they find.
\<close>

section \<open>Inputs\<close>

datatype SemanticCompatibility = Aligns | Contradicts | Unknown_Compatibility

datatype EvidenceOrder = BEFORE | AFTER | TIED | UNKNOWN_ORDER

record detection_input =
  di_subject_ref :: string
  di_affected_refs :: "string list"
  di_requirement :: "evidence_side option"
  di_implementation :: "evidence_side option"
  di_test :: "evidence_side option"
  di_decision :: "evidence_side option"
  di_requirement_implementation_order :: "EvidenceOrder option"
  di_decision_requirement_order :: "EvidenceOrder option"
  di_implementation_decision_order :: "EvidenceOrder option"
  di_test_decision_order :: "EvidenceOrder option"
  di_implementation_test_order :: "EvidenceOrder option"
  di_compatibility :: SemanticCompatibility
  di_requirement_active :: bool
  di_has_mapped_semantics :: bool
  di_material_code_change :: bool

definition compare_order :: "'a::linorder \<Rightarrow> 'a \<Rightarrow> EvidenceOrder" where
  "compare_order left right = (if left < right then BEFORE else if right < left then AFTER else TIED)"

definition evidence_order :: "EvidenceOrder option \<Rightarrow> evidence_side \<Rightarrow> evidence_side \<Rightarrow> EvidenceOrder" where
  "evidence_order declared left right =
     (case declared of Some order \<Rightarrow> order
      | None \<Rightarrow> compare_order (sd_observed_at left) (sd_observed_at right))"

definition all_current :: "evidence_side list \<Rightarrow> bool" where
  "all_current sides = list_all sd_current sides"

section \<open>Fingerprints\<close>

definition fingerprint_material :: "string \<Rightarrow> string \<Rightarrow> string list \<Rightarrow> evidence_side list \<Rightarrow> json" where
  "fingerprint_material detector_id subject_ref affected_refs sides =
     JObj [(''detector_id'', JStr detector_id), (''subject_ref'', JStr subject_ref),
           (''affected_refs'', JArr (map JStr (sort affected_refs))),
           (''evidence_refs'', JArr (map JStr (sorted_set (concat (map sd_evidence_refs sides)))))]"

definition fingerprint :: "string \<Rightarrow> string \<Rightarrow> string list \<Rightarrow> evidence_side list \<Rightarrow> string" where
  "fingerprint detector_id subject_ref affected_refs sides =
     hexdigest (dumps True (fingerprint_material detector_id subject_ref affected_refs sides))"

definition observation ::
  "detection_input \<Rightarrow> ReconciliationCaseType \<Rightarrow> string \<Rightarrow> evidence_side option list \<Rightarrow>
     drift_observation" where
  "observation inp case_type detector_id sides =
     (let evidence_sides = map the (filter (\<lambda>s. s \<noteq> None) sides);
          affected_refs = sorted_set (di_affected_refs inp)
      in \<lparr>do_subject_ref = di_subject_ref inp, do_case_type = case_type,
          do_affected_refs = affected_refs, do_evidence_sides = evidence_sides,
          do_detector_id = detector_id,
          do_fingerprint = fingerprint detector_id (di_subject_ref inp) affected_refs evidence_sides,
          do_requires_human = True\<rparr>)"

section \<open>Detectors\<close>

definition input_sides :: "detection_input \<Rightarrow> evidence_side list" where
  "input_sides inp =
     map the (filter (\<lambda>s. s \<noteq> None)
       [di_requirement inp, di_decision inp, di_implementation inp, di_test inp])"

definition detect_conflicting_sources :: "detection_input \<Rightarrow> drift_observation option" where
  "detect_conflicting_sources inp =
     (let candidates = filter (\<lambda>s. sd_current s \<and> sd_source_mode s = EXPLICIT) (input_sides inp);
          authors = remdups (concat (map sd_authors candidates))
      in if di_compatibility inp \<noteq> Contradicts \<or> length candidates < 2 \<or> length authors < 2 then None
         else Some (observation inp CONFLICTING_SOURCES ''conflicting_sources'' (map Some candidates)))"

definition detect_requirement_lag :: "detection_input \<Rightarrow> drift_observation option" where
  "detect_requirement_lag inp =
     (case (di_requirement inp, di_implementation inp, di_test inp, di_decision inp) of
        (Some requirement, Some implementation, Some test, Some decision) \<Rightarrow>
          if di_compatibility inp \<noteq> Aligns \<or> sd_source_mode decision \<noteq> EXPLICIT
            \<or> \<not> all_current [requirement, decision, implementation, test]
            \<or> evidence_order (di_decision_requirement_order inp) decision requirement \<noteq> AFTER
            \<or> evidence_order (di_implementation_decision_order inp) implementation decision \<noteq> AFTER
            \<or> evidence_order (di_test_decision_order inp) test decision \<noteq> AFTER
          then None
          else Some (observation inp REQUIREMENT_LAG ''requirement_lag''
            [Some requirement, Some decision, Some implementation, Some test])
      | _ \<Rightarrow> None)"

definition detect_code_lag :: "detection_input \<Rightarrow> drift_observation option" where
  "detect_code_lag inp =
     (case (di_requirement inp, di_implementation inp) of
        (Some requirement, Some implementation) \<Rightarrow>
          if \<not> di_requirement_active inp \<or> \<not> all_current [requirement, implementation]
            \<or> evidence_order (di_requirement_implementation_order inp) requirement implementation
                \<noteq> AFTER
          then None
          else Some (observation inp CODE_LAG ''code_lag''
            [Some requirement, Some implementation, di_test inp])
      | _ \<Rightarrow> None)"

definition detect_test_lag :: "detection_input \<Rightarrow> drift_observation option" where
  "detect_test_lag inp =
     (case (di_requirement inp, di_implementation inp, di_test inp) of
        (Some requirement, Some implementation, Some test) \<Rightarrow>
          if \<not> di_requirement_active inp \<or> \<not> all_current [requirement, implementation, test]
            \<or> evidence_order (di_implementation_test_order inp) implementation test \<noteq> AFTER
          then None
          else Some (observation inp TEST_LAG ''test_lag''
            [Some requirement, Some implementation, Some test])
      | _ \<Rightarrow> None)"

definition detect_undocumented_code :: "detection_input \<Rightarrow> drift_observation option" where
  "detect_undocumented_code inp =
     (case di_implementation inp of
        Some implementation \<Rightarrow>
          if \<not> di_material_code_change inp \<or> di_has_mapped_semantics inp then None
          else Some (observation inp UNDOCUMENTED_CODE ''undocumented_code'' [Some implementation])
      | None \<Rightarrow> None)"

definition detect_ambiguous_divergence :: "detection_input \<Rightarrow> drift_observation option" where
  "detect_ambiguous_divergence inp =
     (let sides = input_sides inp in
      if di_compatibility inp \<noteq> Unknown_Compatibility \<or> length sides < 2 then None
      else Some (observation inp AMBIGUOUS_DIVERGENCE ''ambiguous_divergence'' (map Some sides)))"

definition DETECTORS :: "(detection_input \<Rightarrow> drift_observation option) list" where
  "DETECTORS = [detect_conflicting_sources, detect_requirement_lag, detect_code_lag, detect_test_lag,
     detect_undocumented_code, detect_ambiguous_divergence]"

definition detect_drift :: "detection_input \<Rightarrow> drift_observation list" where
  "detect_drift inp =
     (let (observations, _) =
        fold (\<lambda>detector (observations, classified_subjects).
            case detector inp of
              Some obs \<Rightarrow>
                if do_subject_ref obs \<notin> set classified_subjects
                then (observations @ [obs], do_subject_ref obs # classified_subjects)
                else (observations, classified_subjects)
            | None \<Rightarrow> (observations, classified_subjects))
          DETECTORS ([], [])
      in sort_key (\<lambda>obs. (case_type_value (do_case_type obs), do_fingerprint obs)) observations)"

section \<open>Fingerprints of observations\<close>

lemma hex_char_digits: "n < 16 \<Longrightarrow> hex_char (hex_digit n)"
proof -
  assume "n < 16"
  then have "n \<in> set [0..<16]" by simp
  moreover have "list_all (\<lambda>n. hex_char (hex_digit n)) [0..<16]" by code_simp
  ultimately show ?thesis by (simp only: list_all_iff)
qed

lemma hex64_hexdigest: "hex64 (hexdigest s)"
proof -
  have "list_all hex_char (hex_word w)" for w
    by (simp add: hex_word_def hex_byte_def hex_char_digits)
  then have "list_all hex_char (concat (map hex_word ws))" for ws by (induction ws) auto
  then show ?thesis by (simp add: hex64_def) (simp add: hexdigest_def)
qed

lemma wf_fingerprint_material: "wf_json (fingerprint_material d s a e)"
  by (simp add: fingerprint_material_def list_all_iff)

lemma fingerprint_material_inject:
  assumes "canon (fingerprint_material d s a e) = canon (fingerprint_material d' s' a' e')"
  shows "d = d' \<and> s = s' \<and> sort a = sort a' \<and>
    sorted_set (concat (map sd_evidence_refs e)) = sorted_set (concat (map sd_evidence_refs e'))"
proof -
  let ?kvs = "\<lambda>d s a e. [(''detector_id'', JStr d), (''subject_ref'', JStr s),
     (''affected_refs'', JArr (map JStr (sort a))),
     (''evidence_refs'', JArr (map JStr (sorted_set (concat (map sd_evidence_refs e)))))]"
  have canon: "canon (fingerprint_material d s a e) = JObj (sort_key fst (?kvs d s a e))" for d s a e
    by (simp only: fingerprint_material_def canon.simps list.map prod.case map_map comp_def)
  from assms have sorts: "sort_key fst (?kvs d s a e) = sort_key fst (?kvs d' s' a' e')"
    unfolding canon by (rule json.inject(6) [THEN iffD1])
  have sets: "set (?kvs d s a e) = set (?kvs d' s' a' e')"
    using arg_cong [OF sorts, of set] unfolding set_sort .
  have member: "p \<in> set (?kvs d' s' a' e')" if "p \<in> set (?kvs d s a e)" for p
    using that by (simp only: sets)
  from member [of "(''detector_id'', JStr d)"] have "JStr d = JStr d'" by simp
  moreover from member [of "(''subject_ref'', JStr s)"] have "JStr s = JStr s'" by simp
  moreover from member [of "(''affected_refs'', JArr (map JStr (sort a)))"]
  have "map JStr (sort a) = map JStr (sort a')" by simp
  moreover from member [of "(''evidence_refs'',
      JArr (map JStr (sorted_set (concat (map sd_evidence_refs e)))))"]
  have "map JStr (sorted_set (concat (map sd_evidence_refs e))) =
     map JStr (sorted_set (concat (map sd_evidence_refs e')))" by simp
  ultimately show ?thesis by (auto dest: map_injective simp: inj_def)
qed

section \<open>What the detectors return\<close>

definition input_ok :: "detection_input \<Rightarrow> bool" where
  "input_ok inp \<longleftrightarrow> (\<forall>s \<in> set (input_sides inp). side_error s = None)"

lemma do_subject_observation [simp]: "do_subject_ref (observation inp t d sides) = di_subject_ref inp"
  by (simp add: observation_def Let_def)

lemmas detector_defs = detect_conflicting_sources_def detect_requirement_lag_def detect_code_lag_def
  detect_test_lag_def detect_undocumented_code_def detect_ambiguous_divergence_def

lemma detectors_observe:
  assumes "det \<in> set DETECTORS" and "det inp = Some obs"
  shows "\<exists>t d sides. obs = observation inp t d sides \<and> sides \<noteq> [] \<and> hd sides \<noteq> None \<and>
    (\<forall>s \<in> set sides. s = None \<or> the s \<in> set (input_sides inp))"
proof -
  consider "det = detect_conflicting_sources" | "det = detect_requirement_lag" | "det = detect_code_lag"
    | "det = detect_test_lag" | "det = detect_undocumented_code" | "det = detect_ambiguous_divergence"
    using assms(1) by (auto simp: DETECTORS_def)
  then show ?thesis
  proof cases
    case 1
    let ?c = "filter (\<lambda>s. sd_current s \<and> sd_source_mode s = EXPLICIT) (input_sides inp)"
    from 1 assms(2) have obs: "obs = observation inp CONFLICTING_SOURCES ''conflicting_sources'' (map Some ?c)"
      and "?c \<noteq> []" by (auto simp: detector_defs Let_def split: if_splits)
    then have "map Some ?c \<noteq> [] \<and> hd (map Some ?c) \<noteq> None \<and>
        (\<forall>s \<in> set (map Some ?c). s = None \<or> the s \<in> set (input_sides inp))"
      by (simp add: hd_map)
    with obs show ?thesis by blast
  next
    case 6
    from 6 assms(2) have obs: "obs = observation inp AMBIGUOUS_DIVERGENCE ''ambiguous_divergence''
        (map Some (input_sides inp))" and "input_sides inp \<noteq> []"
      by (auto simp: detector_defs Let_def split: if_splits)
    then have "map Some (input_sides inp) \<noteq> [] \<and> hd (map Some (input_sides inp)) \<noteq> None \<and>
        (\<forall>s \<in> set (map Some (input_sides inp)). s = None \<or> the s \<in> set (input_sides inp))"
      by (simp add: hd_map)
    with obs show ?thesis by blast
  next
    case 2
    with assms(2) show ?thesis
      by (auto simp: detector_defs input_sides_def split: if_splits option.splits intro!: exI)
  next
    case 3
    with assms(2) show ?thesis
      by (auto simp: detector_defs input_sides_def split: if_splits option.splits intro!: exI)
  next
    case 4
    with assms(2) show ?thesis
      by (auto simp: detector_defs input_sides_def split: if_splits option.splits intro!: exI)
  next
    case 5
    with assms(2) show ?thesis
      by (auto simp: detector_defs input_sides_def split: if_splits option.splits intro!: exI)
  qed
qed

lemma detector_subject:
  "det \<in> set DETECTORS \<Longrightarrow> det inp = Some obs \<Longrightarrow> do_subject_ref obs = di_subject_ref inp"
  using detectors_observe by fastforce

text \<open>The loop keeps the first match: every detector names the subject of the input.\<close>

lemma detect_drift_first:
  "detect_drift inp =
     (case List.extract (\<lambda>det. det inp \<noteq> None) DETECTORS of
        None \<Rightarrow> [] | Some (_, det, _) \<Rightarrow> [the (det inp)])"
proof -
  define step where "step = (\<lambda>det (obs, seen).
      case det inp of
        Some x \<Rightarrow> if do_subject_ref x \<notin> set seen then (obs @ [x], do_subject_ref x # seen) else (obs, seen)
      | None \<Rightarrow> (obs :: drift_observation list, seen :: string list))"
  have full: "fold step ds (obs, seen) = (obs, seen)"
    if "set ds \<subseteq> set DETECTORS" and "di_subject_ref inp \<in> set seen" for ds obs seen
    using that
    by (induction ds) (auto simp: step_def detector_subject split: option.splits)
  have "fst (fold step ds ([], [])) =
      (case List.extract (\<lambda>det. det inp \<noteq> None) ds of None \<Rightarrow> [] | Some (_, det, _) \<Rightarrow> [the (det inp)])"
    if "set ds \<subseteq> set DETECTORS" for ds
    using that
  proof (induction ds)
    case (Cons d ds)
    show ?case
    proof (cases "d inp")
      case None
      with Cons show ?thesis by (simp add: step_def extract_Cons_code split: option.splits)
    next
      case (Some x)
      have "do_subject_ref x = di_subject_ref inp" using Cons.prems Some by (auto intro: detector_subject)
      then have "step d ([], []) = ([x], [di_subject_ref inp])" by (simp add: step_def Some)
      moreover have "fold step ds ([x], [di_subject_ref inp]) = ([x], [di_subject_ref inp])"
        using Cons.prems by (intro full) auto
      ultimately show ?thesis by (simp add: Some extract_Cons_code)
    qed
  qed (simp add: extract_def)
  from this [of DETECTORS] show ?thesis
    by (auto simp: detect_drift_def step_def [symmetric] case_prod_beta split: option.splits)
qed

lemma observation_valid:
  assumes "input_ok inp" and "sides \<noteq> []" and "hd sides \<noteq> None"
    and "\<forall>s \<in> set sides. s = None \<or> the s \<in> set (input_sides inp)"
  shows "validate_observation (observation inp t d sides) = Inr (observation inp t d sides)"
proof -
  let ?es = "map the (filter (\<lambda>s. s \<noteq> None) sides)"
  have "the s \<in> set (input_sides inp)" if "s \<in> set sides" "s \<noteq> None" for s
    using assms(4) that by blast
  then have ok: "\<forall>s \<in> set ?es. side_error s = None"
    using assms(1) by (auto simp: input_ok_def)
  obtain x xs where sides: "sides = Some x # xs" using assms(2,3) by (cases sides) auto
  with ok have "sd_evidence_refs x \<noteq> []" by (auto simp: side_error_def split: if_splits)
  then have "list_ex (\<lambda>s. sd_evidence_refs s \<noteq> []) ?es" by (simp add: sides)
  with ok show ?thesis
    by (simp add: validate_observation_def observation_def Let_def res_bind_def
        check_all_Inr_iff [of _ _ "()", THEN iffD2] fingerprint_def hex64_hexdigest)
qed

text \<open>The text an observation's fingerprint hashes, and the evidence its sides name.\<close>

definition observation_material :: "detection_input \<Rightarrow> string \<Rightarrow> evidence_side option list \<Rightarrow> string"
  where
  "observation_material inp d sides =
     dumps True (fingerprint_material d (di_subject_ref inp) (sorted_set (di_affected_refs inp))
       (map the (filter (\<lambda>s. s \<noteq> None) sides)))"

definition side_refs :: "evidence_side option list \<Rightarrow> string set" where
  "side_refs sides = (\<Union>s \<in> {s. Some s \<in> set sides}. set (sd_evidence_refs s))"

lemma side_refs_present:
  "set (concat (map sd_evidence_refs (map the (filter (\<lambda>s. s \<noteq> None) ss)))) = side_refs ss"
  by (force simp: side_refs_def)

lemma observation_material_eq_iff:
  "observation_material inp d sides = observation_material inp' d' sides' \<longleftrightarrow>
     d = d' \<and> di_subject_ref inp = di_subject_ref inp' \<and>
     set (di_affected_refs inp) = set (di_affected_refs inp') \<and> side_refs sides = side_refs sides'"
    (is "?l = ?r")
proof
  assume ?l
  then have "canon (fingerprint_material d (di_subject_ref inp) (sorted_set (di_affected_refs inp))
        (map the (filter (\<lambda>s. s \<noteq> None) sides))) =
      canon (fingerprint_material d' (di_subject_ref inp') (sorted_set (di_affected_refs inp'))
        (map the (filter (\<lambda>s. s \<noteq> None) sides')))"
    unfolding observation_material_def by (intro dumps_inject wf_fingerprint_material)
  from fingerprint_material_inject [OF this] have "d = d'" "di_subject_ref inp = di_subject_ref inp'"
    and a: "sort (sorted_set (di_affected_refs inp)) = sort (sorted_set (di_affected_refs inp'))"
    and s: "sorted_set (concat (map sd_evidence_refs (map the (filter (\<lambda>s. s \<noteq> None) sides)))) =
      sorted_set (concat (map sd_evidence_refs (map the (filter (\<lambda>s. s \<noteq> None) sides'))))"
    by blast+
  moreover from a have "set (di_affected_refs inp) = set (di_affected_refs inp')"
    by (metis set_sort set_sorted_set)
  moreover from s have "side_refs sides = side_refs sides'"
    unfolding sorted_set_eq_iff side_refs_present .
  ultimately show ?r by blast
next
  assume r: ?r
  then have eqs: "d = d'" "di_subject_ref inp = di_subject_ref inp'" by blast+
  have "sorted_set (concat (map sd_evidence_refs (map the (filter (\<lambda>s. s \<noteq> None) sides)))) =
      sorted_set (concat (map sd_evidence_refs (map the (filter (\<lambda>s. s \<noteq> None) sides'))))"
    and "sorted_set (di_affected_refs inp) = sorted_set (di_affected_refs inp')"
    unfolding sorted_set_eq_iff side_refs_present using r by blast+
  then show ?l unfolding observation_material_def fingerprint_material_def eqs by (simp only:)
qed

section \<open>Properties\<close>

definition sample_input :: detection_input where
  "sample_input =
     \<lparr>di_subject_ref = ''n1'', di_affected_refs = [''n2'', ''n1'', ''n2''],
      di_requirement = Some (sample_side [''ev-9'']), di_implementation = Some (sample_side [''ev-1'']),
      di_test = None, di_decision = None,
      di_requirement_implementation_order = Some AFTER, di_decision_requirement_order = None,
      di_implementation_decision_order = None, di_test_decision_order = None,
      di_implementation_test_order = None, di_compatibility = Unknown_Compatibility,
      di_requirement_active = True, di_has_mapped_semantics = True,
      di_material_code_change = False\<rparr>"

text \<open>Detection emits exactly the observation of the first detector, in the order of precedence,
  that matches the input, and nothing when none does; an emitted observation always passes its
  validators.\<close>

theorem detect_drift_precedence:
  assumes "DETECTORS = pre @ det # post" and "\<forall>d \<in> set pre. d inp = None" and "det inp = Some obs"
  shows "detect_drift inp = [obs] \<and> (input_ok inp \<longrightarrow> validate_observation obs = Inr obs)"
proof -
  have "List.extract (\<lambda>det. det inp \<noteq> None) DETECTORS = Some (pre, det, post)"
    using assms by (subst extract_Some_iff) auto
  then have "detect_drift inp = [obs]" by (simp add: detect_drift_first assms(3))
  moreover have "det \<in> set DETECTORS" unfolding assms(1) by simp
  then have "input_ok inp \<Longrightarrow> validate_observation obs = Inr obs"
    using detectors_observe [of det inp obs] assms(3) observation_valid by blast
  ultimately show ?thesis by blast
qed

theorem detect_drift_precedence_witness:
  "\<exists>obs. detect_code_lag sample_input = Some obs \<and> detect_drift sample_input = [obs]"
proof -
  have "DETECTORS = [detect_conflicting_sources, detect_requirement_lag] @ detect_code_lag #
      [detect_test_lag, detect_undocumented_code, detect_ambiguous_divergence]"
    by (simp add: DETECTORS_def)
  moreover have "\<forall>d \<in> set [detect_conflicting_sources, detect_requirement_lag]. d sample_input = None"
    by (simp add: detector_defs sample_input_def)
  moreover obtain obs where obs: "detect_code_lag sample_input = Some obs"
    by (simp add: detect_code_lag_def sample_input_def all_current_def evidence_order_def
        sample_side_def)
  ultimately show ?thesis using detect_drift_precedence by blast
qed

text \<open>A fingerprint names the detector, the subject, the set of affected references and the set
  of evidence references: observations agreeing on these have the same fingerprint whatever the
  order and repetition of the references, and two with the same fingerprint agree on them or
  exhibit a SHA-256 collision.\<close>

theorem fingerprint_identity:
  "do_fingerprint (observation inp t d sides) = do_fingerprint (observation inp' t' d' sides') \<longleftrightarrow>
     d = d' \<and> di_subject_ref inp = di_subject_ref inp' \<and>
       set (di_affected_refs inp) = set (di_affected_refs inp') \<and> side_refs sides = side_refs sides' \<or>
     collision (observation_material inp d sides) (observation_material inp' d' sides')"
proof -
  have "do_fingerprint (observation i u e ss) = hexdigest (observation_material i e ss)" for i u e ss
    by (simp add: observation_def Let_def fingerprint_def observation_material_def)
  then show ?thesis
    unfolding observation_material_eq_iff [symmetric] by (auto simp: collision_def)
qed

end
