(* ===== verification/Evidence.thy ===== *)
theory Evidence
  imports Json
begin

text \<open>
  Evidence records (\<open>core/models/evidence.py\<close>), source roles (\<open>core/models/source_roles.py\<close>) and the
  local access policy (\<open>core/policy/access.py\<close>). A payload is kept as the mapping it serialises to;
  \<open>Json\<close> has the freezing itself.
\<close>

section \<open>Records\<close>

record evidence_record =
  er_id :: string
  er_connector_type :: string
  er_external_object_id :: string
  er_external_version :: string
  er_author :: "string option"
  er_observed_at :: datetime
  er_source_locator :: string
  er_content_hash :: string
  er_payload :: "json dict"
  er_parent_ref :: "string option"
  er_acl :: "string list"

record evidence_ingestion =
  ing_connector_id :: string
  ing_sequence :: int
  ing_predecessor_id :: "string option"
  ing_evidence :: evidence_record

record evidence_delta =
  ed_added :: "evidence_record list"
  ed_prior_versions :: "string dict"
  ed_ingestions :: "evidence_ingestion list"

datatype SourceRole =
  DECLARED_INTENT | DECISION_ROLE | PROPOSED_INTENT | IMPLEMENTATION_EVIDENCE | OPERATING_CONTEXT

record source_role_assignment =
  sr_connector_id :: string
  sr_scope :: string
  sr_role :: SourceRole
  sr_inherited :: bool

definition valid_source_role_assignment :: "source_role_assignment \<Rightarrow> bool" where
  "valid_source_role_assignment a \<longleftrightarrow>
     1 \<le> length (sr_connector_id a) \<and> length (sr_connector_id a) \<le> 512 \<and>
     1 \<le> length (sr_scope a) \<and> length (sr_scope a) \<le> 2048"

definition identity_key :: "evidence_record \<Rightarrow> string" where
  "identity_key r =
     er_connector_type r @ ''|'' @ er_external_object_id r @ ''|'' @ er_external_version r @ ''|'' @
     er_content_hash r"

text \<open>White space of the regular expressions pydantic compiles (the Unicode property).\<close>

definition pattern_space :: "char \<Rightarrow> bool" where
  "pattern_space c \<longleftrightarrow> of_char c \<in> {9, 10, 11, 12, 13, 32, 133, 160 :: nat}"

definition validate_ingestion :: "evidence_ingestion \<Rightarrow> evidence_ingestion res" where
  "validate_ingestion i =
     (if list_all pattern_space (ing_connector_id i) then Inl (ValidationError ''connector_id'')
      else if ing_sequence i < 1 then Inl (ValidationError ''sequence'')
      else Inr i)"

definition is_exact_consumed_prefix :: "string list \<Rightarrow> string list \<Rightarrow> bool" where
  "is_exact_consumed_prefix consumed ledger \<longleftrightarrow>
     length consumed \<le> length ledger \<and> consumed = take (length consumed) ledger"

lemma is_exact_consumed_prefix_iff:
  "is_exact_consumed_prefix consumed ledger \<longleftrightarrow> (\<exists>rest. ledger = consumed @ rest)"
  by (auto simp: is_exact_consumed_prefix_def) (metis append_take_drop_id)

section \<open>Access\<close>

text \<open>\<open>str | Collection[str]\<close>.\<close>

datatype actor = One string | Many "string list"

definition principals :: "actor \<Rightarrow> string set" where
  "principals a =
     (case a of
        One s \<Rightarrow> {s}
      | Many xs \<Rightarrow> if list_ex (\<lambda>x. x = []) xs then {} else set xs)"

definition evidence_allowed :: "evidence_record \<Rightarrow> actor \<Rightarrow> bool" where
  "evidence_allowed r a \<longleftrightarrow> er_acl r = [] \<or> list_ex (\<lambda>p. p \<in> principals a) (er_acl r)"

definition refs_allowed :: "string list \<Rightarrow> evidence_record list \<Rightarrow> actor \<Rightarrow> bool" where
  "refs_allowed references records a =
     (let index = dict_of er_id records
      in list_all (\<lambda>r. case map_of index r of None \<Rightarrow> False | Some e \<Rightarrow> evidence_allowed e a)
           references)"

lemma refs_allowed_iff:
  "refs_allowed refs records a \<longleftrightarrow>
     (\<forall>r \<in> set refs. \<exists>e. find (\<lambda>x. er_id x = r) (rev records) = Some e \<and> evidence_allowed e a)"
  by (auto simp: refs_allowed_def dict_of_find list_all_iff split: option.splits)

lemma refs_allowed_append [simp]:
  "refs_allowed (xs @ ys) records a \<longleftrightarrow> refs_allowed xs records a \<and> refs_allowed ys records a"
  by (auto simp: refs_allowed_def Let_def)

lemma refs_allowed_mono:
  "set xs \<subseteq> set ys \<Longrightarrow> refs_allowed ys records a \<Longrightarrow> refs_allowed xs records a"
  by (auto simp: refs_allowed_iff)

lemma evidence_allowed_malformed:
  "[] \<in> set xs \<Longrightarrow> evidence_allowed r (Many xs) \<longleftrightarrow> er_acl r = []"
  by (auto simp: evidence_allowed_def principals_def list_ex_iff)

section \<open>Properties\<close>

definition sample_evidence :: "string \<Rightarrow> string list \<Rightarrow> evidence_record" where
  "sample_evidence i acl =
     \<lparr>er_id = i, er_connector_type = ''git'', er_external_object_id = ''o1'',
      er_external_version = ''v1'', er_author = None, er_observed_at = 3,
      er_source_locator = ''a.py'', er_content_hash = ''h'', er_payload = [], er_parent_ref = None,
      er_acl = acl\<rparr>"

text \<open>Access fails closed: a set of references is readable exactly if every one of them resolves
  to a record and that record (the last given under the identity) is public or grants one of the
  actor's principals; a principal collection with an empty name grants nothing but public
  evidence.\<close>

theorem refs_allowed_fail_closed:
  "(refs_allowed refs records a \<longleftrightarrow>
      (\<forall>r \<in> set refs. \<exists>e. find (\<lambda>x. er_id x = r) (rev records) = Some e \<and>
         (er_acl e = [] \<or> set (er_acl e) \<inter> principals a \<noteq> {}))) \<and>
   ([] \<in> set xs \<longrightarrow> principals (Many xs) = {})"
proof -
  have "evidence_allowed e a \<longleftrightarrow> er_acl e = [] \<or> set (er_acl e) \<inter> principals a \<noteq> {}" for e
    by (auto simp: evidence_allowed_def list_ex_iff)
  then show ?thesis by (auto simp: refs_allowed_iff principals_def list_ex_iff)
qed

theorem refs_allowed_fail_closed_witness:
  "refs_allowed [''e1''] [sample_evidence ''e1'' [''ana'']] (Many [''ana'', ''bo'']) \<and>
   \<not> refs_allowed [''e1''] [sample_evidence ''e1'' [''ana'']] (Many [''ana'', ''''])"
  using refs_allowed_fail_closed [of "[''e1'']" "[sample_evidence ''e1'' [''ana'']]"
      "Many [''ana'', ''bo'']" "[''ana'', '''']"]
    refs_allowed_fail_closed [of "[''e1'']" "[sample_evidence ''e1'' [''ana'']]"
      "Many [''ana'', '''']" "[''ana'', '''']"]
  by (simp add: sample_evidence_def principals_def)

end
