(* ===== verification/Evidence_Detection.thy ===== *)
theory Evidence_Detection
  imports Detectors Evidence
begin

text \<open>
  Drift detection over durable evidence (\<open>reconcile/evidence_detection.py\<close>): declarations found in
  evidence payloads are resolved against the stored records, never trusting the provenance they
  state, compared with the ledgers for chronology, and handed to the detectors. YAML and pydantic
  are outside the program and are arguments: \<open>safe_load\<close> reads front matter, \<open>decode_declaration\<close>
  reads a mapping as a declaration (None for a validation error). A result is an exception, or
  nothing, or a value: constructing an \<open>EvidenceSide\<close> can raise.
\<close>

section \<open>Declarations\<close>

record side_declaration =
  dl_label :: string
  dl_claim :: string
  dl_evidence_refs :: "string list"
  dl_confidence :: confidence
  dl_source_mode :: SourceMode
  dl_current :: "bool option"

record detection_declaration =
  dd_subject_ref :: string
  dd_affected_refs :: "string list"
  dd_requirement :: "side_declaration option"
  dd_implementation :: "side_declaration option"
  dd_test :: "side_declaration option"
  dd_decision :: "side_declaration option"
  dd_requirement_version :: "int option"
  dd_implementation_version :: "int option"
  dd_test_version :: "int option"
  dd_decision_version :: "int option"
  dd_compatibility :: SemanticCompatibility
  dd_requirement_active :: bool
  dd_has_mapped_semantics :: bool
  dd_material_code_change :: bool

record resolved_side =
  rs_side :: evidence_side
  rs_records :: "evidence_record list"

record readers =
  safe_load :: "string \<Rightarrow> json option"
  decode_declaration :: "json dict \<Rightarrow> detection_declaration option"

text \<open>\<open>dict.get\<close> on JSON values, where \<open>null\<close> is \<open>None\<close>.\<close>

definition json_get :: "json dict \<Rightarrow> string \<Rightarrow> json option" where
  "json_get d k = (case map_of d k of Some JNull \<Rightarrow> None | v \<Rightarrow> v)"

text \<open>\<open>s.find(needle)\<close>: the part before the first occurrence.\<close>

fun before_first :: "string \<Rightarrow> string \<Rightarrow> string option" where
  "before_first needle s =
     (if starts_with needle s then Some []
      else (case s of [] \<Rightarrow> None | c # cs \<Rightarrow> map_option ((#) c) (before_first needle cs)))"

declare before_first.simps [simp del]

definition front_matter :: "readers \<Rightarrow> string \<Rightarrow> json dict option" where
  "front_matter rd content =
     (let dashes = [CHR ''-'', CHR ''-'', CHR ''-'', CHR 0x0A] in
      if \<not> starts_with dashes content then None
      else case before_first (CHR 0x0A # dashes) (drop 4 content) of
        None \<Rightarrow> None
      | Some head \<Rightarrow>
          (case safe_load rd head of
             Some (JObj loaded) \<Rightarrow>
               (case json_get loaded ''intent_engineering'' of Some (JObj m) \<Rightarrow> Some m | _ \<Rightarrow> None)
           | _ \<Rightarrow> None))"

definition raw_declaration :: "readers \<Rightarrow> evidence_record \<Rightarrow> json option" where
  "raw_declaration rd r =
     (case json_get (er_payload r) ''detection_input'' of
        Some raw \<Rightarrow> Some raw
      | None \<Rightarrow>
          (case json_get (er_payload r) ''content'' of
             Some (JStr content) \<Rightarrow>
               (case front_matter rd content of
                  Some m \<Rightarrow> json_get m ''detection_input''
                | None \<Rightarrow> None)
           | _ \<Rightarrow> None))"

definition declaration_of :: "readers \<Rightarrow> evidence_record \<Rightarrow> detection_declaration option" where
  "declaration_of rd r =
     (case raw_declaration rd r of
        Some (JObj payload) \<Rightarrow>
          decode_declaration rd
            (if map_of payload ''schema_version'' = None
             then payload @ [(''schema_version'', JInt 1)] else payload)
      | _ \<Rightarrow> None)"

section \<open>Resolution\<close>

definition git_path_matches :: "evidence_record \<Rightarrow> string \<Rightarrow> bool" where
  "git_path_matches r path \<longleftrightarrow>
     er_connector_type r = ''git'' \<and>
     (case map_of (er_payload r) ''changed_paths'' of
        Some (JArr paths) \<Rightarrow> JStr path \<in> set paths
      | _ \<Rightarrow> False)"

definition reference_matches ::
  "string \<Rightarrow> evidence_record \<Rightarrow> evidence_record list \<Rightarrow> evidence_record list option" where
  "reference_matches reference declaring records =
     (if reference = ''$self'' then Some [declaring]
      else if starts_with ''source:'' reference then
        (case partition_at (CHR '':'') (removeprefix ''source:'' reference) of
           (connector, separator, external_id) \<Rightarrow>
             if \<not> separator \<or> connector = [] \<or> external_id = [] then None
             else Some (filter (\<lambda>r. er_connector_type r = connector \<and>
               er_external_object_id r = external_id) records))
      else if starts_with ''git-path:'' reference then
        (let path = removeprefix ''git-path:'' reference in
         if path = [] then None else Some (filter (\<lambda>r. git_path_matches r path) records))
      else Some (filter (\<lambda>r. er_id r = reference) records))"

definition resolve_reference ::
  "string \<Rightarrow> evidence_record \<Rightarrow> evidence_record list \<Rightarrow> evidence_record option" where
  "resolve_reference reference declaring records =
     (case reference_matches reference declaring records of Some [r] \<Rightarrow> Some r | _ \<Rightarrow> None)"

text \<open>The resolving loop: None as soon as one reference does not resolve.\<close>

fun resolve_all ::
  "string list \<Rightarrow> evidence_record \<Rightarrow> evidence_record list \<Rightarrow> evidence_record list option" where
  "resolve_all [] declaring records = Some []"
| "resolve_all (ref # refs) declaring records =
     (case resolve_reference ref declaring records of
        None \<Rightarrow> None
      | Some r \<Rightarrow> map_option ((#) r) (resolve_all refs declaring records))"

definition superseded_in :: "evidence_record \<Rightarrow> evidence_ingestion \<Rightarrow> evidence_ingestion list \<Rightarrow> bool" where
  "superseded_in r a ings =
     list_ex (\<lambda>i. ing_connector_id i = ing_connector_id a \<and>
       er_connector_type (ing_evidence i) = er_connector_type r \<and>
       er_external_object_id (ing_evidence i) = er_external_object_id r \<and>
       ing_sequence a < ing_sequence i) ings"

definition records_are_current :: "evidence_record list \<Rightarrow> evidence_ingestion list \<Rightarrow> bool" where
  "records_are_current records ings =
     list_all (\<lambda>r.
       let associations = filter (\<lambda>i. er_id (ing_evidence i) = er_id r) ings
       in associations \<noteq> [] \<and> list_all (\<lambda>a. \<not> superseded_in r a ings) associations) records"

definition truthy_authors :: "evidence_record list \<Rightarrow> string list" where
  "truthy_authors records =
     sorted_set (concat (map (\<lambda>r. case er_author r of Some a \<Rightarrow> if a = [] then [] else [a] | None \<Rightarrow> [])
       records))"

definition max_list :: "datetime list \<Rightarrow> datetime" where
  "max_list xs = foldr max (tl xs) (hd xs)"

definition resolve_side ::
  "side_declaration \<Rightarrow> evidence_record \<Rightarrow> evidence_record list \<Rightarrow> evidence_ingestion list \<Rightarrow> string \<Rightarrow>
     resolved_side option res" where
  "resolve_side sd declaring records ings actor =
     (if dl_evidence_refs sd = [] \<or> \<not> distinct (dl_evidence_refs sd) then Inr None
      else case resolve_all (dl_evidence_refs sd) declaring records of
        None \<Rightarrow> Inr None
      | Some resolved \<Rightarrow>
          let evidence_ids = sort (map er_id resolved);
              authors = truthy_authors resolved;
              current = records_are_current resolved ings
          in if \<not> distinct evidence_ids \<or> \<not> refs_allowed evidence_ids resolved (One actor) then Inr None
             else if authors = [] then Inr None
             else if dl_current sd \<noteq> None \<and> dl_current sd \<noteq> Some current then Inr None
             else
               let side = \<lparr>sd_label = dl_label sd, sd_claim = dl_claim sd,
                     sd_evidence_refs = evidence_ids,
                     sd_observed_at = max_list (map er_observed_at resolved), sd_authors = authors,
                     sd_confidence = dl_confidence sd, sd_source_mode = dl_source_mode sd,
                     sd_current = current\<rparr>
               in (case side_error side of
                     Some e \<Rightarrow> Inl e
                   | None \<Rightarrow> Inr (Some \<lparr>rs_side = side, rs_records = resolved\<rparr>)))"

section \<open>Chronology\<close>

definition sequences :: "evidence_record \<Rightarrow> evidence_ingestion list \<Rightarrow> int dict" where
  "sequences r ings =
     fold (\<lambda>i d. AList.update (ing_connector_id i) (ing_sequence i) d)
       (filter (\<lambda>i. er_id (ing_evidence i) = er_id r) ings) []"

text \<open>\<open>next(iter(orders)) if len(orders) == 1 else UNKNOWN\<close> for the set of the given orders.\<close>

definition single_order :: "EvidenceOrder list \<Rightarrow> EvidenceOrder" where
  "single_order xs = (case remdups xs of [x] \<Rightarrow> x | _ \<Rightarrow> UNKNOWN_ORDER)"

definition record_order ::
  "evidence_record \<Rightarrow> evidence_record \<Rightarrow> evidence_ingestion list \<Rightarrow> EvidenceOrder" where
  "record_order left right ings =
     (if er_connector_type left = er_connector_type right \<and>
        er_external_object_id left = er_external_object_id right
      then
        (let l = sequences left ings; r = sequences right ings;
             shared = filter (\<lambda>c. c \<in> set (map fst r)) (map fst l)
         in single_order (map (\<lambda>c. compare_order (the (map_of l c)) (the (map_of r c))) shared))
      else compare_order (er_observed_at left) (er_observed_at right))"

definition side_order :: "resolved_side \<Rightarrow> resolved_side \<Rightarrow> evidence_ingestion list \<Rightarrow> EvidenceOrder" where
  "side_order left right ings =
     single_order (concat (map (\<lambda>l. map (\<lambda>r. record_order l r ings) (rs_records right))
       (rs_records left)))"

section \<open>The detection input of a record\<close>

datatype side_name = Requirement | Implementation | Test | Decision

definition declared_side :: "detection_declaration \<Rightarrow> side_name \<Rightarrow> side_declaration option" where
  "declared_side d n =
     (case n of Requirement \<Rightarrow> dd_requirement d | Implementation \<Rightarrow> dd_implementation d
      | Test \<Rightarrow> dd_test d | Decision \<Rightarrow> dd_decision d)"

definition declared_version :: "detection_declaration \<Rightarrow> side_name \<Rightarrow> int option" where
  "declared_version d n =
     (case n of Requirement \<Rightarrow> dd_requirement_version d | Implementation \<Rightarrow> dd_implementation_version d
      | Test \<Rightarrow> dd_test_version d | Decision \<Rightarrow> dd_decision_version d)"

text \<open>The loop over the four sides; the accumulator holds the resolved ones, whose evidence must
  not overlap.\<close>

fun resolve_sides ::
  "side_name list \<Rightarrow> detection_declaration \<Rightarrow> evidence_record \<Rightarrow> evidence_record list \<Rightarrow>
     evidence_ingestion list \<Rightarrow> string \<Rightarrow> (side_name \<times> resolved_side) list \<Rightarrow>
     (side_name \<times> resolved_side) list option res" where
  "resolve_sides [] d declaring records ings actor acc = Inr (Some acc)"
| "resolve_sides (n # ns) d declaring records ings actor acc =
     (case declared_side d n of
        None \<Rightarrow> resolve_sides ns d declaring records ings actor acc
      | Some sd \<Rightarrow>
          (case resolve_side sd declaring records ings actor of
             Inl e \<Rightarrow> Inl e
           | Inr None \<Rightarrow> Inr None
           | Inr (Some rs) \<Rightarrow>
               if list_ex (\<lambda>(_, p). \<not> disjoint_lists (sd_evidence_refs (rs_side rs))
                    (sd_evidence_refs (rs_side p))) acc
               then Inr None
               else resolve_sides ns d declaring records ings actor (acc @ [(n, rs)])))"

text \<open>One comparison: None when a declared pair of versions contradicts the derived order.\<close>

definition chronology ::
  "detection_declaration \<Rightarrow> (side_name \<times> resolved_side) list \<Rightarrow> evidence_ingestion list \<Rightarrow>
     side_name \<Rightarrow> side_name \<Rightarrow> EvidenceOrder option option" where
  "chronology d sides ings lname rname =
     (case (map_of sides lname, map_of sides rname) of
        (Some l, Some r) \<Rightarrow>
          let derived = side_order l r ings in
          (case (declared_version d lname, declared_version d rname) of
             (Some lv, Some rv) \<Rightarrow> if compare_order lv rv \<noteq> derived then None else Some (Some derived)
           | _ \<Rightarrow> Some (Some derived))
      | _ \<Rightarrow> Some None)"

text \<open>The comparisons and the construction of the input from the resolved sides.\<close>

definition build_input ::
  "detection_declaration \<Rightarrow> (side_name \<times> resolved_side) list \<Rightarrow> evidence_ingestion list \<Rightarrow>
     detection_input option" where
  "build_input d sides ings =
     (case (chronology d sides ings Requirement Implementation,
            chronology d sides ings Decision Requirement,
            chronology d sides ings Implementation Decision,
            chronology d sides ings Test Decision,
            chronology d sides ings Implementation Test) of
        (Some o1, Some o2, Some o3, Some o4, Some o5) \<Rightarrow>
          let side = (\<lambda>n. map_option rs_side (map_of sides n)) in
          Some \<lparr>di_subject_ref = dd_subject_ref d, di_affected_refs = dd_affected_refs d,
            di_requirement = side Requirement, di_implementation = side Implementation,
            di_test = side Test, di_decision = side Decision,
            di_requirement_implementation_order = o1, di_decision_requirement_order = o2,
            di_implementation_decision_order = o3, di_test_decision_order = o4,
            di_implementation_test_order = o5, di_compatibility = dd_compatibility d,
            di_requirement_active = dd_requirement_active d,
            di_has_mapped_semantics = dd_has_mapped_semantics d,
            di_material_code_change = dd_material_code_change d\<rparr>
      | _ \<Rightarrow> None)"

definition input_from_record ::
  "readers \<Rightarrow> evidence_record \<Rightarrow> evidence_record list \<Rightarrow> evidence_ingestion list \<Rightarrow> graph \<Rightarrow> string \<Rightarrow>
     detection_input option res" where
  "input_from_record rd declaring records ings g actor =
     (case declaration_of rd declaring of
        None \<Rightarrow> Inr None
      | Some d \<Rightarrow>
          if \<not> refs_allowed [er_id declaring] [declaring] (One actor) then Inr None
          else
            let graph_ids = map nd_id (g_nodes g) in
            if dd_subject_ref d \<notin> set graph_ids \<or> \<not> list_all (\<lambda>r. r \<in> set graph_ids) (dd_affected_refs d)
            then Inr None
            else res_bind
              (resolve_sides [Requirement, Implementation, Test, Decision] d declaring records ings
                 actor [])
              (\<lambda>sides. Inr (Option.bind sides (\<lambda>sides. build_input d sides ings))))"

section \<open>Selection\<close>

definition DETECTOR_ORDER :: "(string \<times> nat) list" where
  "DETECTOR_ORDER =
     [(''conflicting_sources'', 0), (''requirement_lag'', 1), (''code_lag'', 2), (''test_lag'', 3),
      (''undocumented_code'', 4), (''intent_without_requirement'', 5),
      (''requirement_without_intent'', 6), (''relevant_provisional_intent'', 7),
      (''stale_source_evidence'', 8), (''ambiguous_divergence'', 9)]"

definition detector_rank :: "drift_observation \<Rightarrow> nat" where
  "detector_rank obs = (case map_of DETECTOR_ORDER (do_detector_id obs) of None \<Rightarrow> 100 | Some n \<Rightarrow> n)"

definition selection_key :: "drift_observation \<Rightarrow> nat \<times> string" where
  "selection_key obs = (detector_rank obs, do_fingerprint obs)"

text \<open>\<open>dict.setdefault\<close> over the subjects.\<close>

definition keep_first :: "drift_observation list \<Rightarrow> drift_observation dict" where
  "keep_first xs =
     fold (\<lambda>obs d. if map_of d (do_subject_ref obs) = None then d @ [(do_subject_ref obs, obs)] else d)
       xs []"

definition select_drift_observations :: "drift_observation list \<Rightarrow> drift_observation list" where
  "select_drift_observations candidates =
     sort_key do_fingerprint (dict_values (keep_first (sort_key selection_key candidates)))"

text \<open>The consistency loop: None when one identity has two different records.\<close>

fun stable_records :: "evidence_record list \<Rightarrow> evidence_record dict \<Rightarrow> evidence_record dict option" where
  "stable_records [] by_id = Some by_id"
| "stable_records (r # rs) by_id =
     (case map_of by_id (er_id r) of
        Some p \<Rightarrow> if p \<noteq> r then None else stable_records rs (AList.update (er_id r) r by_id)
      | None \<Rightarrow> stable_records rs (AList.update (er_id r) r by_id))"

definition detect_evidence_drift ::
  "readers \<Rightarrow> evidence_record list \<Rightarrow> graph \<Rightarrow> string \<Rightarrow> evidence_ingestion list \<Rightarrow>
     drift_observation list res" where
  "detect_evidence_drift rd records g actor ings =
     (case stable_records records [] of
        None \<Rightarrow> Inr []
      | Some by_id \<Rightarrow>
          let stable = dict_values by_id in
          res_bind
            (fold_res (\<lambda>r candidates.
                res_bind (input_from_record rd r stable ings g actor) (\<lambda>inp.
                  case inp of None \<Rightarrow> Inr candidates
                  | Some i \<Rightarrow> Inr (candidates @ detect_drift i)))
              (sort_key er_id stable) [])
            (\<lambda>candidates. Inr (select_drift_observations candidates)))"

section \<open>Selection keeps one observation per subject\<close>

definition keep_step :: "drift_observation \<Rightarrow> drift_observation dict \<Rightarrow> drift_observation dict" where
  "keep_step obs d =
     (if map_of d (do_subject_ref obs) = None then d @ [(do_subject_ref obs, obs)] else d)"

lemma keep_steps_lookup:
  "map_of (fold keep_step xs d) k =
     (case map_of d k of Some v \<Rightarrow> Some v | None \<Rightarrow> find (\<lambda>obs. do_subject_ref obs = k) xs)"
proof (induction xs arbitrary: d)
  case (Cons x xs)
  have "map_of (fold keep_step (x # xs) d) k =
      (case map_of (keep_step x d) k of
         Some v \<Rightarrow> Some v | None \<Rightarrow> find (\<lambda>obs. do_subject_ref obs = k) xs)"
    by (simp add: Cons.IH)
  also have "\<dots> = (case map_of d k of
      Some v \<Rightarrow> Some v | None \<Rightarrow> find (\<lambda>obs. do_subject_ref obs = k) (x # xs))"
    by (auto simp: keep_step_def map_add_def split: option.splits simp del: map_of_eq_Some_iff)
  finally show ?case .
qed (simp split: option.split)

lemma keep_steps_distinct: "distinct (map fst d) \<Longrightarrow> distinct (map fst (fold keep_step xs d))"
  by (induction xs arbitrary: d) (auto simp: keep_step_def map_of_eq_None_iff)

lemma keep_first_fold: "keep_first xs = fold keep_step xs []"
  by (simp add: keep_first_def keep_step_def [abs_def])

lemma keep_first_lookup: "map_of (keep_first xs) k = find (\<lambda>obs. do_subject_ref obs = k) xs"
  by (simp add: keep_first_fold keep_steps_lookup)

lemma keep_first_distinct: "distinct (map fst (keep_first xs))"
  by (simp add: keep_first_fold keep_steps_distinct)

lemma keep_first_mem:
  "(k, obs) \<in> set (keep_first xs) \<longleftrightarrow> find (\<lambda>obs. do_subject_ref obs = k) xs = Some obs"
  using keep_first_lookup [of xs k] map_of_eq_Some_iff [OF keep_first_distinct] by metis

lemma keep_first_subjects:
  "map do_subject_ref (dict_values (keep_first xs)) = map fst (keep_first xs)"
  by (auto simp: dict_values_def keep_first_mem find_Some_iff intro!: map_cong)

lemma find_sort_key_least:
  assumes "find P (sort_key key xs) = Some x" and "y \<in> set xs" and "P y"
  shows "key x \<le> key y"
proof -
  from assms(1) obtain i where i: "i < length (sort_key key xs)" "P (sort_key key xs ! i)"
    "x = sort_key key xs ! i" "\<And>j. j < i \<Longrightarrow> \<not> P (sort_key key xs ! j)"
    by (auto simp: find_Some_iff)
  from assms(2) obtain j where j: "j < length (sort_key key xs)" "y = sort_key key xs ! j"
    by (metis in_set_conv_nth set_sort)
  have "i \<le> j" using i(4) j(2) assms(3) by (metis not_less)
  moreover have "sorted (map key (sort_key key xs))" by simp
  ultimately show ?thesis using i(1,3) j by (metis length_map nth_map sorted_nth_mono)
qed

section \<open>Resolved evidence is readable\<close>

definition readable :: "evidence_record list \<Rightarrow> string \<Rightarrow> string \<Rightarrow> bool" where
  "readable records actor ref \<longleftrightarrow> (\<exists>r \<in> set records. er_id r = ref \<and> evidence_allowed r (One actor))"

lemma resolve_reference_mem:
  "resolve_reference ref declaring records = Some r \<Longrightarrow> r \<in> insert declaring (set records)"
proof -
  assume "resolve_reference ref declaring records = Some r"
  then have "reference_matches ref declaring records = Some [r]"
    by (auto simp: resolve_reference_def split: option.splits list.splits)
  moreover have "reference_matches ref declaring records = Some xs \<Longrightarrow>
      set xs \<subseteq> insert declaring (set records)" for xs
    by (auto simp: reference_matches_def Let_def split: if_splits prod.splits)
  ultimately show ?thesis by fastforce
qed

lemma resolve_all_mem:
  "resolve_all refs declaring records = Some rs \<Longrightarrow> set rs \<subseteq> insert declaring (set records)"
  by (induction refs arbitrary: rs) (auto split: option.splits dest: resolve_reference_mem)

lemma resolve_side_readable:
  assumes "resolve_side sd declaring records ings actor = Inr (Some rs)"
    and "declaring \<in> set records"
  shows "\<forall>ref \<in> set (sd_evidence_refs (rs_side rs)). readable records actor ref"
    and "side_error (rs_side rs) = None"
proof -
  from assms(1) obtain resolved where
    resolved: "resolve_all (dl_evidence_refs sd) declaring records = Some resolved"
    and allowed: "refs_allowed (sort (map er_id resolved)) resolved (One actor)"
    and refs: "sd_evidence_refs (rs_side rs) = sort (map er_id resolved)"
    and err: "side_error (rs_side rs) = None"
    by (auto simp: resolve_side_def Let_def split: if_splits option.splits)
  show "side_error (rs_side rs) = None" by (fact err)
  have sub: "set resolved \<subseteq> set records" using resolve_all_mem [OF resolved] assms(2) by auto
  show "\<forall>ref \<in> set (sd_evidence_refs (rs_side rs)). readable records actor ref"
  proof
    fix ref assume "ref \<in> set (sd_evidence_refs (rs_side rs))"
    with allowed refs obtain e where "find (\<lambda>x. er_id x = ref) (rev resolved) = Some e"
      "evidence_allowed e (One actor)"
      unfolding refs_allowed_iff by auto
    then show "readable records actor ref"
      using sub by (auto simp: readable_def find_Some_iff) (metis in_set_conv_nth set_rev subsetD length_rev)
  qed
qed

lemma resolve_sides_readable:
  assumes "resolve_sides ns d declaring records ings actor acc = Inr (Some sides)"
    and "declaring \<in> set records"
    and "\<forall>(n, rs) \<in> set acc. side_error (rs_side rs) = None \<and>
      (\<forall>ref \<in> set (sd_evidence_refs (rs_side rs)). readable records actor ref)"
  shows "\<forall>(n, rs) \<in> set sides. side_error (rs_side rs) = None \<and>
      (\<forall>ref \<in> set (sd_evidence_refs (rs_side rs)). readable records actor ref)"
  using assms(1,3)
proof (induction ns arbitrary: acc)
  case (Cons n ns)
  show ?case
  proof (cases "declared_side d n")
    case None
    with Cons show ?thesis by simp
  next
    case (Some sd)
    with Cons.prems(1) obtain rs where rs: "resolve_side sd declaring records ings actor = Inr (Some rs)"
      and rest: "resolve_sides ns d declaring records ings actor (acc @ [(n, rs)]) = Inr (Some sides)"
      by (auto split: sum.splits option.splits if_splits)
    from resolve_side_readable [OF rs assms(2)] Cons.prems(2) show ?thesis
      by (intro Cons.IH [OF rest]) auto
  qed
qed simp

definition obs_sound :: "evidence_record list \<Rightarrow> graph \<Rightarrow> string \<Rightarrow> drift_observation \<Rightarrow> bool" where
  "obs_sound records g actor obs \<longleftrightarrow>
     (\<forall>s \<in> set (do_evidence_sides obs). \<forall>ref \<in> set (sd_evidence_refs s). readable records actor ref) \<and>
     do_subject_ref obs \<in> nd_id ` set (g_nodes g) \<and>
     set (do_affected_refs obs) \<subseteq> nd_id ` set (g_nodes g)"

lemma input_from_record_sound:
  assumes run: "input_from_record rd declaring records ings g actor = Inr (Some inp)"
    and mem: "declaring \<in> set records"
  shows "\<forall>s \<in> set (input_sides inp). \<forall>ref \<in> set (sd_evidence_refs s). readable records actor ref"
    and "input_ok inp" and "di_subject_ref inp \<in> nd_id ` set (g_nodes g)"
    and "set (di_affected_refs inp) \<subseteq> nd_id ` set (g_nodes g)"
proof -
  from run obtain d where d: "declaration_of rd declaring = Some d"
    by (cases "declaration_of rd declaring") (simp_all add: input_from_record_def)
  from run obtain sides where
    sides: "resolve_sides [Requirement, Implementation, Test, Decision] d declaring records ings actor []
      = Inr (Some sides)" and build: "build_input d sides ings = Some inp"
    and graph: "dd_subject_ref d \<in> nd_id ` set (g_nodes g)"
      "set (dd_affected_refs d) \<subseteq> nd_id ` set (g_nodes g)"
    by (auto simp: input_from_record_def d Let_def list_all_iff res_bind_Inr_iff
        bind_eq_Some_conv simp del: resolve_sides.simps split: if_splits)
  have eqs: "di_subject_ref inp = dd_subject_ref d" "di_affected_refs inp = dd_affected_refs d"
      "di_requirement inp = map_option rs_side (map_of sides Requirement)"
      "di_implementation inp = map_option rs_side (map_of sides Implementation)"
      "di_test inp = map_option rs_side (map_of sides Test)"
      "di_decision inp = map_option rs_side (map_of sides Decision)"
    using build by (auto simp: build_input_def Let_def split: option.splits)
  have good: "\<forall>(n, rs) \<in> set sides. side_error (rs_side rs) = None \<and>
      (\<forall>ref \<in> set (sd_evidence_refs (rs_side rs)). readable records actor ref)"
    using resolve_sides_readable [OF sides mem] by simp
  have "\<exists>n rs. s = rs_side rs \<and> (n, rs) \<in> set sides" if "s \<in> set (input_sides inp)" for s
    using that by (auto simp: input_sides_def eqs split: if_splits dest: map_of_SomeD)
  with good show "\<forall>s \<in> set (input_sides inp). \<forall>ref \<in> set (sd_evidence_refs s). readable records actor ref"
    and "input_ok inp"
    unfolding input_ok_def by (metis (mono_tags, lifting) case_prodD)+
  show "di_subject_ref inp \<in> nd_id ` set (g_nodes g)" "set (di_affected_refs inp) \<subseteq> nd_id ` set (g_nodes g)"
    using graph by (simp_all add: eqs)
qed

lemma detect_drift_sides:
  assumes "obs \<in> set (detect_drift inp)"
  shows "set (do_evidence_sides obs) \<subseteq> set (input_sides inp)"
    and "do_subject_ref obs = di_subject_ref inp" and "set (do_affected_refs obs) = set (di_affected_refs inp)"
proof -
  from assms obtain pre det post where
    "List.extract (\<lambda>det. det inp \<noteq> None) DETECTORS = Some (pre, det, post)" and "obs = the (det inp)"
    unfolding detect_drift_first by (cases "List.extract (\<lambda>det. det inp \<noteq> None) DETECTORS") auto
  then have det: "det \<in> set DETECTORS" "det inp = Some obs"
    unfolding extract_Some_iff by (metis in_set_conv_decomp, auto)
  from detectors_observe [of det inp obs] det obtain t d sides where
    obs: "obs = observation inp t d sides"
    and sides: "\<forall>s \<in> set sides. s = None \<or> the s \<in> set (input_sides inp)" by blast
  show "set (do_evidence_sides obs) \<subseteq> set (input_sides inp)"
    using sides by (auto simp: obs observation_def Let_def)
  show "do_subject_ref obs = di_subject_ref inp" "set (do_affected_refs obs) = set (di_affected_refs inp)"
    by (simp_all add: obs observation_def Let_def)
qed

lemma select_subset: "set (select_drift_observations xs) \<subseteq> set xs"
proof -
  have "obs \<in> set xs" if "(k, obs) \<in> set (keep_first (sort_key selection_key xs))" for k obs
    using that by (metis find_Some_iff keep_first_mem nth_mem set_sort)
  then show ?thesis by (auto simp: select_drift_observations_def dict_values_def)
qed

lemma detect_evidence_drift_sound:
  assumes "detect_evidence_drift rd records g actor ings = Inr out" and "obs \<in> set out"
  shows "obs_sound records g actor obs"
proof -
  from assms obtain by_id where by_id: "stable_records records [] = Some by_id"
    by (auto simp: detect_evidence_drift_def split: option.splits)
  have "set (dict_values (the (stable_records rs acc))) \<subseteq> set rs \<union> set (dict_values acc)"
    if "stable_records rs acc \<noteq> None" for rs acc
    using that
  proof (induction rs arbitrary: acc)
    case (Cons r rs)
    have "set (dict_values (AList.update k v d)) \<subseteq> insert v (set (dict_values d))"
      for k and v :: evidence_record and d
      by (induction d) (auto simp: dict_values_def)
    with Cons show ?case by (fastforce split: option.splits if_splits)
  qed simp
  from this [of records "[]"] have stable: "set (dict_values by_id) \<subseteq> set records"
    by (simp add: by_id dict_values_def)
  let ?step = "\<lambda>r candidates. res_bind (input_from_record rd r (dict_values by_id) ings g actor) (\<lambda>inp.
      case inp of None \<Rightarrow> Inr candidates | Some i \<Rightarrow> Inr (candidates @ detect_drift i))"
  from assms by_id obtain cands where
    cands: "fold_res ?step (sort_key er_id (dict_values by_id)) [] = Inr cands"
    and out: "out = select_drift_observations cands"
    by (auto simp: detect_evidence_drift_def Let_def res_simps)
  have "\<forall>obs \<in> set cands. obs_sound (dict_values by_id) g actor obs"
  proof (rule fold_res_invariant [OF cands])
    fix r t t' assume r: "r \<in> set (sort_key er_id (dict_values by_id))"
      and t: "\<forall>obs \<in> set t. obs_sound (dict_values by_id) g actor obs" and run: "?step r t = Inr t'"
    from run consider "t' = t" | i where
      "input_from_record rd r (dict_values by_id) ings g actor = Inr (Some i)" "t' = t @ detect_drift i"
      by (auto simp: res_simps split: option.splits)
    then show "\<forall>obs \<in> set t'. obs_sound (dict_values by_id) g actor obs"
    proof cases
      case 2
      have "r \<in> set (dict_values by_id)" using r by simp
      note snd = input_from_record_sound [OF 2(1) this]
      have "obs_sound (dict_values by_id) g actor obs" if "obs \<in> set (detect_drift i)" for obs
        using detect_drift_sides [OF that] snd unfolding obs_sound_def by (auto 0 3)
      with t 2(2) show ?thesis by auto
    qed (use t in simp)
  qed simp
  with assms(2) out select_subset have "obs_sound (dict_values by_id) g actor obs" by blast
  then show ?thesis using stable unfolding obs_sound_def readable_def by blast
qed

section \<open>Properties\<close>

text \<open>Whatever declarations the evidence carries, an emitted observation only cites evidence that
  resolves to a record of the run which the actor may read, and only names nodes of the graph.\<close>

theorem detect_evidence_drift_readable:
  assumes "detect_evidence_drift rd records g actor ings = Inr out" and "obs \<in> set out"
  shows "(\<forall>s \<in> set (do_evidence_sides obs). \<forall>ref \<in> set (sd_evidence_refs s).
      \<exists>r \<in> set records. er_id r = ref \<and> (er_acl r = [] \<or> actor \<in> set (er_acl r))) \<and>
    do_subject_ref obs \<in> nd_id ` set (g_nodes g) \<and>
    set (do_affected_refs obs) \<subseteq> nd_id ` set (g_nodes g)"
proof -
  have "evidence_allowed r (One actor) \<longleftrightarrow> er_acl r = [] \<or> actor \<in> set (er_acl r)" for r
    by (auto simp: evidence_allowed_def principals_def list_ex_iff)
  with detect_evidence_drift_sound [OF assms] show ?thesis
    unfolding obs_sound_def readable_def by simp
qed

definition sample_readers :: readers where
  "sample_readers =
     \<lparr>safe_load = (\<lambda>_. None),
      decode_declaration = (\<lambda>_. Some
        \<lparr>dd_subject_ref = ''n1'', dd_affected_refs = [''n1''], dd_requirement = None,
         dd_implementation = Some \<lparr>dl_label = ''code'', dl_claim = ''x'', dl_evidence_refs = [''$self''],
           dl_confidence = 1, dl_source_mode = EXPLICIT, dl_current = None\<rparr>,
         dd_test = None, dd_decision = None, dd_requirement_version = None,
         dd_implementation_version = None, dd_test_version = None, dd_decision_version = None,
         dd_compatibility = Aligns, dd_requirement_active = True, dd_has_mapped_semantics = False,
         dd_material_code_change = True\<rparr>)\<rparr>"

definition declaring_record :: evidence_record where
  "declaring_record =
     (sample_evidence ''e1'' [''ana''])\<lparr>er_author := Some ''ana'',
        er_payload := [(''detection_input'', JObj [])]\<rparr>"

definition one_node_graph :: graph where
  "one_node_graph =
     \<lparr>g_id = ''g'', g_version = 0, g_schema_version = ''0.1.0'', g_name = None, g_purpose = None,
      g_created_at = None, g_source_spec = None,
      g_nodes = [\<lparr>nd_id = ''n1'', nd_type = Builtin REQUIREMENT, nd_label = ''x'', nd_status = ''active'',
        nd_created_by = ''ana'', nd_created_at = 0, nd_last_modified_by = ''ana'',
        nd_last_modified_at = 0, nd_source_mode = None, nd_intent_fidelity_confidence = None,
        nd_confidence_basis = None, nd_last_reassessed_at = None, nd_implementation_status = None,
        nd_evidence_refs = []\<rparr>],
      g_edges = [], g_extensions = []\<rparr>"

lemma sample_detection:
  "\<exists>obs. detect_evidence_drift sample_readers [declaring_record] one_node_graph ''ana'' [] = Inr [obs] \<and>
     do_case_type obs = UNDOCUMENTED_CODE"
proof -
  obtain inp where inp: "input_from_record sample_readers declaring_record [declaring_record] []
      one_node_graph ''ana'' = Inr (Some inp)" and
    parts: "detect_conflicting_sources inp = None" "detect_requirement_lag inp = None"
      "detect_code_lag inp = None" "detect_test_lag inp = None"
      "detect_undocumented_code inp = Some (observation inp UNDOCUMENTED_CODE ''undocumented_code''
        [di_implementation inp])"
  proof
    let ?side = "\<lparr>sd_label = ''code'', sd_claim = ''x'', sd_evidence_refs = [''e1''], sd_observed_at = 3,
        sd_authors = [''ana''], sd_confidence = 1, sd_source_mode = EXPLICIT, sd_current = False\<rparr>"
    let ?inp = "\<lparr>di_subject_ref = ''n1'', di_affected_refs = [''n1''], di_requirement = None,
        di_implementation = Some ?side, di_test = None, di_decision = None,
        di_requirement_implementation_order = None, di_decision_requirement_order = None,
        di_implementation_decision_order = None, di_test_decision_order = None,
        di_implementation_test_order = None, di_compatibility = Aligns,
        di_requirement_active = True, di_has_mapped_semantics = False,
        di_material_code_change = True\<rparr>"
    show "input_from_record sample_readers declaring_record [declaring_record] [] one_node_graph ''ana''
        = Inr (Some ?inp)" by code_simp
    show "detect_conflicting_sources ?inp = None" "detect_requirement_lag ?inp = None"
      "detect_code_lag ?inp = None" "detect_test_lag ?inp = None"
      "detect_undocumented_code ?inp = Some (observation ?inp UNDOCUMENTED_CODE ''undocumented_code''
        [di_implementation ?inp])"
      by (simp_all add: detector_defs input_sides_def)
  qed
  have drift: "detect_drift inp =
      [observation inp UNDOCUMENTED_CODE ''undocumented_code'' [di_implementation inp]]"
    by (simp add: detect_drift_first DETECTORS_def extract_Cons_code parts)
  have "stable_records [declaring_record] [] = Some [(''e1'', declaring_record)]" by code_simp
  then have "detect_evidence_drift sample_readers [declaring_record] one_node_graph ''ana'' [] =
      Inr (select_drift_observations (detect_drift inp))"
    by (simp add: detect_evidence_drift_def dict_values_def inp)
  moreover have "select_drift_observations [x] = [x]" for x
    by (simp add: select_drift_observations_def keep_first_def dict_values_def)
  ultimately show ?thesis by (simp add: drift observation_def Let_def)
qed

theorem detect_evidence_drift_readable_witness:
  "\<exists>obs. detect_evidence_drift sample_readers [declaring_record] one_node_graph ''ana'' [] = Inr [obs] \<and>
     do_subject_ref obs \<in> nd_id ` set (g_nodes one_node_graph)"
  using sample_detection detect_evidence_drift_readable list.set_intros(1) by metis

text \<open>Selection emits one observation per subject, in the order of fingerprints: the emitted ones
  are candidates, no two share a subject, and every candidate's subject is covered by one of no
  lower precedence (detector rank, then fingerprint).\<close>

theorem select_drift_one_per_subject:
  "set (select_drift_observations xs) \<subseteq> set xs \<and>
   distinct (map do_subject_ref (select_drift_observations xs)) \<and>
   sorted (map do_fingerprint (select_drift_observations xs)) \<and>
   (\<forall>c \<in> set xs. \<exists>obs \<in> set (select_drift_observations xs).
      do_subject_ref obs = do_subject_ref c \<and> selection_key obs \<le> selection_key c)"
proof -
  let ?k = "keep_first (sort_key selection_key xs)"
  have "distinct (map do_subject_ref (dict_values ?k))"
    unfolding keep_first_subjects by (rule keep_first_distinct)
  then have "distinct (map do_subject_ref (select_drift_observations xs))"
    by (simp add: select_drift_observations_def distinct_map)
  moreover have "\<exists>obs \<in> set (select_drift_observations xs).
      do_subject_ref obs = do_subject_ref c \<and> selection_key obs \<le> selection_key c"
    if c: "c \<in> set xs" for c
  proof -
    let ?P = "\<lambda>obs. do_subject_ref obs = do_subject_ref c"
    have "find ?P (sort_key selection_key xs) \<noteq> None"
      unfolding find_None_iff using c by auto
    then obtain obs where f: "find ?P (sort_key selection_key xs) = Some obs" by blast
    then have "(do_subject_ref c, obs) \<in> set ?k" by (simp add: keep_first_mem)
    then have "obs \<in> set (select_drift_observations xs)"
      by (force simp: select_drift_observations_def dict_values_def)
    moreover have "selection_key obs \<le> selection_key c" using find_sort_key_least [OF f c] by simp
    moreover have "do_subject_ref obs = do_subject_ref c" using f by (auto simp: find_Some_iff)
    ultimately show ?thesis by blast
  qed
  ultimately show ?thesis
    using select_subset by (simp add: select_drift_observations_def)
qed

theorem select_drift_one_per_subject_witness:
  "\<exists>obs \<in> set (select_drift_observations
       [observation sample_input TEST_LAG ''test_lag'' [], observation sample_input CODE_LAG ''code_lag'' []]).
     do_subject_ref obs = ''n1'' \<and> detector_rank obs \<le> 2"
proof -
  let ?xs = "[observation sample_input TEST_LAG ''test_lag'' [],
      observation sample_input CODE_LAG ''code_lag'' []]"
  have "observation sample_input CODE_LAG ''code_lag'' [] \<in> set ?xs" by simp
  then obtain obs where "obs \<in> set (select_drift_observations ?xs)"
    "do_subject_ref obs = do_subject_ref (observation sample_input CODE_LAG ''code_lag'' [])"
    "selection_key obs \<le> selection_key (observation sample_input CODE_LAG ''code_lag'' [])"
    using select_drift_one_per_subject [of ?xs] by blast
  moreover have "detector_rank (observation sample_input CODE_LAG ''code_lag'' []) = 2"
    by (simp add: detector_rank_def DETECTOR_ORDER_def observation_def Let_def)
  ultimately show ?thesis
    by (auto simp: selection_key_def less_eq_prod_def sample_input_def intro!: bexI)
qed

text \<open>The authors of a side are filtered by truth, but constructing the side requires them to be
  nonblank: one evidence record whose author is a blank string makes the whole detection run raise
  instead of skipping its declaration.\<close>

theorem blank_author_aborts_detection:
  "detect_evidence_drift sample_readers [declaring_record\<lparr>er_author := Some '' ''\<rparr>] one_node_graph
     ''ana'' [] = Inl (ValueError ''authors must not be empty'')"
  by code_simp

end
