(* ===== verification/Checkpoint_Store.thy ===== *)
theory Checkpoint_Store
  imports Evidence Json
begin

text \<open>
  The checkpoints of connectors (\<open>SyncCheckpoint\<close> in \<open>core/models/project.py\<close> and
  \<open>storage/yaml/checkpoint_store.py\<close>). The state is the content of the YAML file. PyYAML and Pydantic's
  field reading are the codec.
\<close>

record sync_checkpoint =
  cp_connector_id :: string
  cp_cursor :: "string option"
  cp_committed_at :: datetime
  cp_consumption_schema_version :: int
  cp_consumed_evidence_ids :: "string list"

definition validate_checkpoint :: "sync_checkpoint \<Rightarrow> sync_checkpoint res" where
  "validate_checkpoint cp =
     (if cp_consumption_schema_version cp \<noteq> 1 then Inl (ValidationError ''consumption_schema_version'')
      else if \<not> distinct (cp_consumed_evidence_ids cp)
      then Inl (ValueError ''consumed evidence ids must be unique'')
      else Inr cp)"

record checkpoint_codec =
  cpc_load :: "string \<Rightarrow> json res"
  cpc_decode :: "json \<Rightarrow> sync_checkpoint res"
  cpc_dump :: "sync_checkpoint dict \<Rightarrow> string"

definition checkpoint_mapping :: "json \<Rightarrow> json dict res" where
  "checkpoint_mapping loaded =
     (case loaded of
        JNull \<Rightarrow> Inr []
      | JObj kvs \<Rightarrow>
          (case (case map_of kvs ''checkpoints'' of None \<Rightarrow> JObj [] | Some v \<Rightarrow> v) of
             JObj records \<Rightarrow> Inr records
           | _ \<Rightarrow> Inl (CheckpointStoreError ''checkpoints must contain a mapping''))
      | _ \<Rightarrow> Inl (CheckpointStoreError ''checkpoint YAML must contain a mapping''))"

definition load_records :: "checkpoint_codec \<Rightarrow> json dict \<Rightarrow> sync_checkpoint dict res" where
  "load_records c records =
     fold_res (\<lambda>(connector_id, record) d.
         res_bind (res_bind (cpc_decode c record) validate_checkpoint) (\<lambda>cp.
           Inr (AList.update connector_id cp d)))
       records []"

definition load_all :: "checkpoint_codec \<Rightarrow> string option \<Rightarrow> sync_checkpoint dict res" where
  "load_all c content =
     (case content of
        None \<Rightarrow> Inr []
      | Some text \<Rightarrow>
          res_bind (cpc_load c text) (\<lambda>loaded.
          res_bind (checkpoint_mapping loaded) (load_records c)))"

definition write_all :: "checkpoint_codec \<Rightarrow> sync_checkpoint dict \<Rightarrow> string" where
  "write_all c checkpoints = cpc_dump c (sort_key fst checkpoints)"

definition get_checkpoint ::
  "checkpoint_codec \<Rightarrow> string option \<Rightarrow> string \<Rightarrow> sync_checkpoint option res" where
  "get_checkpoint c content connector_id =
     res_bind (load_all c content) (\<lambda>checkpoints. Inr (map_of checkpoints connector_id))"

definition compare_and_set ::
  "checkpoint_codec \<Rightarrow> string \<Rightarrow> sync_checkpoint option \<Rightarrow> string option \<Rightarrow> datetime \<Rightarrow> string list \<Rightarrow>
     string option \<Rightarrow> (sync_checkpoint \<times> string option) res" where
  "compare_and_set c connector_id expected cursor committed_at consumed content =
     res_bind (load_all c content) (\<lambda>checkpoints.
       if map_of checkpoints connector_id \<noteq> expected then Inl (StaleCheckpoint connector_id)
       else
         res_bind (validate_checkpoint
             \<lparr>cp_connector_id = connector_id, cp_cursor = cursor, cp_committed_at = committed_at,
              cp_consumption_schema_version = 1, cp_consumed_evidence_ids = consumed\<rparr>) (\<lambda>cp.
           Inr (cp, Some (write_all c (AList.update connector_id cp checkpoints)))))"

section \<open>Lookups after an update\<close>

lemma load_all_distinct:
  assumes "load_all c content = Inr checkpoints"
  shows "distinct (map fst checkpoints)"
proof -
  have "distinct (map fst d')" if "load_records c records = Inr d'" for records d'
    by (rule fold_res_invariant [OF that [unfolded load_records_def]]) (auto simp: res_simps)
  then show ?thesis
    using assms by (auto simp: load_all_def res_simps split: option.splits)
qed

text \<open>What is relied on of PyYAML and Pydantic: a mapping of valid checkpoints that was printed is
  read back.\<close>

definition checkpoints_read_back :: "checkpoint_codec \<Rightarrow> sync_checkpoint dict \<Rightarrow> bool" where
  "checkpoints_read_back c d \<longleftrightarrow> load_all c (Some (cpc_dump c d)) = Inr d"

lemma get_after_write:
  assumes "distinct (map fst d)" "checkpoints_read_back c (sort_key fst d)"
  shows "get_checkpoint c (Some (write_all c d)) k = Inr (map_of d k)"
  using assms by (simp add: get_checkpoint_def write_all_def checkpoints_read_back_def map_of_sort_key)

lemma compare_and_set_get:
  assumes "compare_and_set c k expected cursor stamp consumed content = Inr (cp, content')"
    and "\<forall>d. load_all c content = Inr d \<longrightarrow> checkpoints_read_back c (sort_key fst (AList.update k cp d))"
  shows "get_checkpoint c content k = Inr expected \<and>
    cp = \<lparr>cp_connector_id = k, cp_cursor = cursor, cp_committed_at = stamp,
      cp_consumption_schema_version = 1, cp_consumed_evidence_ids = consumed\<rparr> \<and> distinct consumed \<and>
    get_checkpoint c content' k = Inr (Some cp) \<and>
    (\<forall>j. j \<noteq> k \<longrightarrow> get_checkpoint c content' j = get_checkpoint c content j)"
proof -
  from assms(1) obtain d where d: "load_all c content = Inr d" and e: "map_of d k = expected"
    and cp: "cp = \<lparr>cp_connector_id = k, cp_cursor = cursor, cp_committed_at = stamp,
      cp_consumption_schema_version = 1, cp_consumed_evidence_ids = consumed\<rparr>" "distinct consumed"
    and content': "content' = Some (write_all c (AList.update k cp d))"
    by (auto simp: compare_and_set_def res_simps validate_checkpoint_def split: if_splits)
  have "get_checkpoint c content' j = Inr (map_of (AList.update k cp d) j)" for j
    unfolding content' using get_after_write load_all_distinct [OF d] assms(2) d by simp
  moreover have "get_checkpoint c content j = Inr (map_of d j)" for j
    using d by (simp add: get_checkpoint_def)
  ultimately show ?thesis using e cp by simp
qed

lemma set_update_subset: "set (AList.update k v d) \<subseteq> insert (k, v) (set d)"
  by (induction d) auto

section \<open>Valid checkpoints\<close>

definition checkpoint_valid :: "sync_checkpoint \<Rightarrow> bool" where
  "checkpoint_valid cp \<longleftrightarrow> validate_checkpoint cp = Inr cp"

text \<open>What is relied on of PyYAML and Pydantic for the checkpoint file.\<close>

definition checkpoint_codec_ok :: "checkpoint_codec \<Rightarrow> bool" where
  "checkpoint_codec_ok c \<longleftrightarrow>
     (\<forall>d. distinct (map fst d) \<and> list_all (\<lambda>(_, cp). checkpoint_valid cp) d \<longrightarrow>
        checkpoints_read_back c (sort_key fst d))"

lemma load_all_valid:
  assumes "load_all c content = Inr d"
  shows "list_all (\<lambda>(_, cp). checkpoint_valid cp) d"
proof -
  have "list_all (\<lambda>(_, cp). checkpoint_valid cp) d'" if "load_records c records = Inr d'" for records d'
  proof (rule fold_res_invariant [OF that [unfolded load_records_def]])
    fix x t t'
    assume *: "list_all (\<lambda>(_, cp). checkpoint_valid cp) t"
      "(case x of (connector_id, record) \<Rightarrow> \<lambda>d. res_bind (res_bind (cpc_decode c record) validate_checkpoint)
        (\<lambda>cp. Inr (AList.update connector_id cp d))) t = Inr t'"
    then obtain k cp where "t' = AList.update k cp t" "checkpoint_valid cp"
      by (auto simp: res_simps checkpoint_valid_def validate_checkpoint_def split: prod.splits if_splits)
    then show "list_all (\<lambda>(_, cp). checkpoint_valid cp) t'"
      using * set_update_subset [of k cp t] by (fastforce simp: list_all_iff)
  qed simp
  then show ?thesis
    using assms by (auto simp: load_all_def res_simps split: option.splits)
qed

lemma compare_and_set_codec_ok:
  assumes "checkpoint_codec_ok c" "compare_and_set c k expected cursor stamp consumed content = Inr (cp, content')"
  shows "get_checkpoint c content k = Inr expected \<and> get_checkpoint c content' k = Inr (Some cp) \<and>
    cp_cursor cp = cursor \<and> cp_consumed_evidence_ids cp = consumed \<and>
    (\<forall>j. j \<noteq> k \<longrightarrow> get_checkpoint c content' j = get_checkpoint c content j)"
proof -
  have valid: "checkpoint_valid cp"
    using assms(2) by (auto simp: compare_and_set_def res_simps checkpoint_valid_def validate_checkpoint_def
        split: if_splits)
  have "checkpoints_read_back c (sort_key fst (AList.update k cp d))" if d: "load_all c content = Inr d" for d
  proof -
    have "list_all (\<lambda>(_, cp). checkpoint_valid cp) (AList.update k cp d)"
      using load_all_valid [OF d] valid set_update_subset [of k cp d] by (fastforce simp: list_all_iff)
    then show ?thesis
      using assms(1) load_all_distinct [OF d] by (simp add: checkpoint_codec_ok_def)
  qed
  then show ?thesis
    using compare_and_set_get [OF assms(2)] by auto
qed

section \<open>A codec\<close>

text \<open>JSON text is YAML text: checkpoints printed as canonical JSON and read back with \<open>json_loads\<close>.\<close>

definition checkpoint_json :: "sync_checkpoint \<Rightarrow> json" where
  "checkpoint_json cp = JObj [
     (''committed_at'', JInt (cp_committed_at cp)), (''connector_id'', JStr (cp_connector_id cp)),
     (''consumed_evidence_ids'', JArr (map JStr (cp_consumed_evidence_ids cp))),
     (''consumption_schema_version'', JInt (cp_consumption_schema_version cp)),
     (''cursor'', case cp_cursor cp of None \<Rightarrow> JNull | Some s \<Rightarrow> JStr s)]"

definition json_string :: "json \<Rightarrow> string" where
  "json_string j = (case j of JStr s \<Rightarrow> s | _ \<Rightarrow> [])"

definition json_checkpoint :: "json \<Rightarrow> sync_checkpoint res" where
  "json_checkpoint j =
     (case j of
        JObj [(_, JInt t), (_, JStr i), (_, JArr ids), (_, JInt v), (_, c)] \<Rightarrow>
          Inr \<lparr>cp_connector_id = i, cp_cursor = (case c of JStr s \<Rightarrow> Some s | _ \<Rightarrow> None), cp_committed_at = t,
               cp_consumption_schema_version = v, cp_consumed_evidence_ids = map json_string ids\<rparr>
      | _ \<Rightarrow> Inl (ValidationError ''SyncCheckpoint''))"

definition json_checkpoint_codec :: checkpoint_codec where
  "json_checkpoint_codec =
     \<lparr>cpc_load = json_loads, cpc_decode = json_checkpoint,
      cpc_dump = (\<lambda>d. dumps True (JObj [(''checkpoints'', JObj (map (\<lambda>(k, cp). (k, checkpoint_json cp)) d))]))\<rparr>"

lemma json_checkpoint_inverse [simp]: "json_checkpoint (checkpoint_json cp) = Inr cp"
  by (cases "cp_cursor cp") (simp_all add: json_checkpoint_def checkpoint_json_def json_string_def comp_def)

lemma checkpoint_json_canon [simp]: "canon (checkpoint_json cp) = checkpoint_json cp" "wf_json (checkpoint_json cp)"
  by (cases "cp_cursor cp"; simp add: checkpoint_json_def comp_def list_all_iff)+

lemma fold_updates:
  assumes "distinct (map fst (acc @ d))" "list_all (\<lambda>(_, cp). checkpoint_valid cp) d"
  shows "fold_res (\<lambda>(connector_id, record) d.
         res_bind (res_bind (cpc_decode json_checkpoint_codec record) validate_checkpoint) (\<lambda>cp.
           Inr (AList.update connector_id cp d))) (map (\<lambda>(k, cp). (k, checkpoint_json cp)) d) acc = Inr (acc @ d)"
  using assms
proof (induction d arbitrary: acc)
  case (Cons x d)
  obtain k cp where x: "x = (k, cp)" by (cases x)
  have "AList.update k cp acc = acc @ [(k, cp)]"
    using Cons.prems(1) x by (intro dict_update_new) auto
  then show ?case
    using Cons.IH [of "acc @ [(k, cp)]"] Cons.prems x
    by (simp add: json_checkpoint_codec_def checkpoint_valid_def)
qed simp

lemma json_checkpoint_codec_ok: "checkpoint_codec_ok json_checkpoint_codec"
  unfolding checkpoint_codec_ok_def checkpoints_read_back_def
proof (intro allI impI, elim conjE)
  fix d :: "sync_checkpoint dict"
  assume d: "distinct (map fst d)" "list_all (\<lambda>(_, cp). checkpoint_valid cp) d"
  let ?d = "sort_key fst d"
  let ?kvs = "map (\<lambda>(k, cp). (k, checkpoint_json cp)) ?d"
  have "distinct (map fst ?kvs)"
    using d(1) distinct_map_sort_key [of d] by (simp add: comp_def case_prod_unfold)
  then have wf: "wf_json (JObj [(''checkpoints'', JObj ?kvs)])"
    by (auto simp: list_all_iff)
  have "map (\<lambda>(k, v). (k, canon v)) ?kvs = ?kvs" by (auto simp: case_prod_unfold)
  moreover have "sort_key fst ?kvs = ?kvs"
    by (rule sort_key_id_if_sorted) (simp add: comp_def case_prod_unfold)
  ultimately have "canon (JObj ?kvs) = JObj ?kvs" by (simp only: canon.simps)
  then have canon: "canon (JObj [(''checkpoints'', JObj ?kvs)]) = JObj [(''checkpoints'', JObj ?kvs)]"
    unfolding canon.simps(2) [of "[(''checkpoints'', JObj ?kvs)]"] by simp
  have "load_records json_checkpoint_codec ?kvs = Inr ?d"
    unfolding load_records_def using fold_updates [of "[]" ?d] d distinct_map_sort_key [of d]
    by (simp add: list_all_iff)
  then show "load_all json_checkpoint_codec (Some (cpc_dump json_checkpoint_codec ?d)) = Inr ?d"
    using json_loads_dumps [OF wf, of True] unfolding canon
    by (simp add: load_all_def checkpoint_mapping_def) (simp add: json_checkpoint_codec_def)
qed

text \<open>C11: Advancing a checkpoint is an atomic compare-and-set: it succeeds only from the expected
  checkpoint, then exactly that connector's checkpoint is the new one and every other is unchanged; and
  whoever still expects the old checkpoint is refused as stale.\<close>

theorem compare_and_set_linear:
  assumes "compare_and_set c k expected cursor stamp consumed content = Inr (cp, content')"
    and "\<forall>d. load_all c content = Inr d \<longrightarrow> checkpoints_read_back c (sort_key fst (AList.update k cp d))"
  shows "get_checkpoint c content k = Inr expected \<and> get_checkpoint c content' k = Inr (Some cp) \<and>
    (\<forall>j. j \<noteq> k \<longrightarrow> get_checkpoint c content' j = get_checkpoint c content j) \<and>
    (\<forall>cursor' stamp' consumed'. expected \<noteq> Some cp \<longrightarrow>
      compare_and_set c k expected cursor' stamp' consumed' content' = Inl (StaleCheckpoint k))"
proof -
  note facts = compare_and_set_get [OF assms]
  from facts obtain d' where d': "load_all c content' = Inr d'" and "map_of d' k = Some cp"
    by (auto simp: get_checkpoint_def res_simps simp del: map_of_eq_Some_iff)
  then have "compare_and_set c k expected cursor' stamp' consumed' content' = Inl (StaleCheckpoint k)"
    if "expected \<noteq> Some cp" for cursor' stamp' consumed'
    using that by (auto simp: compare_and_set_def)
  then show ?thesis using facts by blast
qed

theorem compare_and_set_linear_witness:
  "\<exists>cp content'. compare_and_set json_checkpoint_codec ''git'' None (Some ''abc'') 3 [''e1''] None = Inr (cp, content') \<and>
     get_checkpoint json_checkpoint_codec content' ''git'' = Inr (Some cp) \<and>
     compare_and_set json_checkpoint_codec ''git'' None None 9 [] content' = Inl (StaleCheckpoint ''git'')"
proof -
  obtain cp content' where run: "compare_and_set json_checkpoint_codec ''git'' None (Some ''abc'') 3 [''e1''] None =
      Inr (cp, content')"
    by (simp add: compare_and_set_def load_all_def validate_checkpoint_def)
  have "checkpoints_read_back json_checkpoint_codec (sort_key fst (AList.update ''git'' cp d))"
    if d: "load_all json_checkpoint_codec None = Inr d" for d
  proof -
    have "d = []" "checkpoint_valid cp"
      using d run by (auto simp: load_all_def compare_and_set_def checkpoint_valid_def validate_checkpoint_def)
    then show ?thesis
      using json_checkpoint_codec_ok [unfolded checkpoint_codec_ok_def, rule_format, of "[(''git'', cp)]"] by simp
  qed
  from compare_and_set_linear [OF run] this run show ?thesis by fastforce
qed

end
