(* ===== verification/Capture.thy ===== *)
theory Capture
  imports Checkpoint_Store Digest
begin

text \<open>
  The provider-neutral contracts of capture (\<open>capture/base.py\<close>, \<open>capture/checkpoints.py\<close>): discovered and
  raw objects, the identity of a version, its normal form as evidence, and the next checkpoint. A
  connector is the record of what it answers; the optional lifecycle is its \<open>finalize_checkpoint\<close>.
\<close>

record source_object =
  so_external_object_id :: string
  so_external_version :: string
  so_locator :: string

record raw_source_object =
  raw_connector_type :: string
  raw_external_object_id :: string
  raw_external_version :: string
  raw_author :: "string option"
  raw_observed_at :: datetime
  raw_source_locator :: string
  raw_content_hash :: string
  raw_payload :: "json dict"
  raw_parent_ref :: "string option"
  raw_acl :: "string list"

record connector =
  cn_id :: string
  cn_type :: "string option"
  cn_discover :: "string option \<Rightarrow> source_object list res"
  cn_fetch :: "string \<Rightarrow> string \<Rightarrow> raw_source_object res"
  cn_normalize :: "raw_source_object \<Rightarrow> evidence_record res"
  cn_next_checkpoint :: "source_object list \<Rightarrow> string option res"
  cn_finalize :: "(source_object list \<Rightarrow> evidence_record list \<Rightarrow> string option res) option"

definition has_lifecycle :: "connector \<Rightarrow> bool" where
  "has_lifecycle cn \<longleftrightarrow> cn_finalize cn \<noteq> None"

definition evidence_material :: "raw_source_object \<Rightarrow> string" where
  "evidence_material raw =
     raw_connector_type raw @ [CHR 0x00] @ raw_external_object_id raw @ [CHR 0x00] @
     raw_external_version raw @ [CHR 0x00] @ raw_content_hash raw"

definition evidence_id :: "raw_source_object \<Rightarrow> string" where
  "evidence_id raw = ''evidence:sha256:'' @ hexdigest (evidence_material raw)"

definition normalize_raw_source :: "raw_source_object \<Rightarrow> evidence_record" where
  "normalize_raw_source raw =
     \<lparr>er_id = evidence_id raw, er_connector_type = raw_connector_type raw,
      er_external_object_id = raw_external_object_id raw, er_external_version = raw_external_version raw,
      er_author = raw_author raw, er_observed_at = raw_observed_at raw,
      er_source_locator = raw_source_locator raw, er_content_hash = raw_content_hash raw,
      er_payload = raw_payload raw, er_parent_ref = raw_parent_ref raw, er_acl = raw_acl raw\<rparr>"

definition checkpoint_after_discovery ::
  "connector \<Rightarrow> source_object list \<Rightarrow> datetime \<Rightarrow> sync_checkpoint option \<Rightarrow> string list \<Rightarrow>
     evidence_record list \<Rightarrow> sync_checkpoint res" where
  "checkpoint_after_discovery cn discovered committed_at prior consumed_ids consumed =
     res_bind
       (case cn_finalize cn of
          Some finalize \<Rightarrow>
            if map er_id consumed \<noteq> consumed_ids
            then Inl (ValueError ''checkpoint evidence inputs are inconsistent'')
            else finalize discovered consumed
        | None \<Rightarrow> cn_next_checkpoint cn discovered)
       (\<lambda>cursor.
         let cursor = (case prior of
             Some p \<Rightarrow> if discovered = [] \<and> cursor = None then cp_cursor p else cursor
           | None \<Rightarrow> cursor)
         in validate_checkpoint
              \<lparr>cp_connector_id = cn_id cn, cp_cursor = cursor, cp_committed_at = committed_at,
               cp_consumption_schema_version = 1, cp_consumed_evidence_ids = consumed_ids\<rparr>)"

section \<open>Identity\<close>

lemma nul_join_inject:
  assumes "a @ [CHR 0x00] @ b = a' @ [CHR 0x00] @ b'" "CHR 0x00 \<notin> set a" "CHR 0x00 \<notin> set a'"
  shows "a = a' \<and> b = b'"
  using assms
proof (induction a arbitrary: a')
  case Nil
  then show ?case by (cases a') auto
next
  case (Cons x xs)
  then show ?case by (cases a') auto
qed

text \<open>The identity of evidence names one version of one object: two raw objects whose first three
  fields hold no NUL character have the same identity exactly if they agree on connector type, object,
  version and content hash, or their materials are a SHA-256 collision.\<close>

theorem evidence_id_identity:
  assumes "\<forall>r \<in> {raw, raw'}. CHR 0x00 \<notin> set (raw_connector_type r) \<union> set (raw_external_object_id r) \<union>
      set (raw_external_version r)"
  shows "evidence_id raw = evidence_id raw' \<longleftrightarrow>
    (raw_connector_type raw = raw_connector_type raw' \<and>
     raw_external_object_id raw = raw_external_object_id raw' \<and>
     raw_external_version raw = raw_external_version raw' \<and> raw_content_hash raw = raw_content_hash raw') \<or>
    collision (evidence_material raw) (evidence_material raw')"
proof -
  have "evidence_material raw = evidence_material raw' \<longleftrightarrow>
    raw_connector_type raw = raw_connector_type raw' \<and>
    raw_external_object_id raw = raw_external_object_id raw' \<and>
    raw_external_version raw = raw_external_version raw' \<and> raw_content_hash raw = raw_content_hash raw'"
    (is "?l \<longleftrightarrow> ?r")
  proof
    assume eq: ?l
    note 1 = nul_join_inject [OF eq [unfolded evidence_material_def]]
    then have 2: "raw_connector_type raw = raw_connector_type raw'"
      "raw_external_object_id raw @ [CHR 0x00] @ raw_external_version raw @ [CHR 0x00] @ raw_content_hash raw =
       raw_external_object_id raw' @ [CHR 0x00] @ raw_external_version raw' @ [CHR 0x00] @ raw_content_hash raw'"
      using assms by auto
    note 3 = nul_join_inject [OF 2(2)]
    then have 4: "raw_external_object_id raw = raw_external_object_id raw'"
      "raw_external_version raw @ [CHR 0x00] @ raw_content_hash raw =
       raw_external_version raw' @ [CHR 0x00] @ raw_content_hash raw'"
      using assms by auto
    show ?r using 2(1) 4(1) nul_join_inject [OF 4(2)] assms by auto
  qed (simp add: evidence_material_def)
  then show ?thesis
    by (auto simp: evidence_id_def collision_def)
qed

definition sample_raw :: "string \<Rightarrow> raw_source_object" where
  "sample_raw version =
     \<lparr>raw_connector_type = ''git'', raw_external_object_id = ''a.py'', raw_external_version = version,
      raw_author = None, raw_observed_at = 1, raw_source_locator = ''a.py'', raw_content_hash = ''h'',
      raw_payload = [], raw_parent_ref = None, raw_acl = []\<rparr>"

theorem evidence_id_identity_witness:
  "evidence_id (sample_raw ''v1'') = evidence_id (sample_raw ''v2'') \<longleftrightarrow>
     collision (evidence_material (sample_raw ''v1'')) (evidence_material (sample_raw ''v2''))"
  using evidence_id_identity [of "sample_raw ''v1''" "sample_raw ''v2''"]
  by (simp add: sample_raw_def)

end
