(* ===== verification/Changeset.thy ===== *)
theory Changeset
  imports Graph_Model
begin

text \<open>
  ChangeSets (\<open>core/models/changeset.py\<close>), confidence changes (\<open>core/models/epistemic.py\<close>) and
  implementation claims (\<open>core/models/implementation.py\<close>): the records and the validators pydantic
  runs when one is constructed. \<open>changeset_ok\<close> is the declarative contract of a ChangeSet.
\<close>

section \<open>Records\<close>

record epistemic_state =
  es_confidence :: confidence
  es_basis :: string
  es_evidence_refs :: "string list"
  es_last_reassessed_at :: datetime

record confidence_change =
  cc_change_id :: string
  cc_timestamp :: datetime
  cc_actor :: string
  cc_subject_ref :: string
  cc_change_kind :: ChangeKind
  cc_prior_confidence :: confidence
  cc_new_confidence :: confidence
  cc_evidence_refs :: "string list"
  cc_reason :: string

record implementation_claim =
  ic_id :: string
  ic_status :: ImplementationStatus
  ic_requirement_refs :: "string list"
  ic_current_behavior :: string
  ic_code_evidence :: "string list"
  ic_test_evidence :: "string list"
  ic_verified_commit :: "string option"
  ic_verified_at :: "datetime option"
  ic_test_evidence_required :: bool

record node_update =
  nu_node_id :: string
  nu_replacement :: node

record edge_update =
  eu_edge_id :: string
  eu_replacement :: edge

record implementation_status_change =
  sc_claim_id :: string
  sc_prior :: ImplementationStatus
  sc_new :: ImplementationStatus
  sc_evidence_refs :: "string list"

record changeset =
  cs_id :: string
  cs_actor :: string
  cs_timestamp :: datetime
  cs_baseline_graph_version :: int
  cs_evidence_refs :: "string list"
  cs_nodes_added :: "node list"
  cs_nodes_updated :: "node_update list"
  cs_nodes_superseded :: "string list"
  cs_edges_added :: "edge list"
  cs_edges_updated :: "edge_update list"
  cs_edges_superseded :: "string list"
  cs_confidence_changes :: "confidence_change list"
  cs_implementation_status_changes :: "implementation_status_change list"
  cs_reconciliation_cases_created :: "string list"
  cs_reconciliation_cases_resolved :: "string list"
  cs_validation_status :: string

section \<open>Validators\<close>

definition require_evidence :: "epistemic_state \<Rightarrow> epistemic_state res" where
  "require_evidence s =
     (if es_evidence_refs s = [] then Inl (ValueError ''epistemic state requires evidence'')
      else Inr s)"

definition confidence_change_error :: "confidence_change \<Rightarrow> exn option" where
  "confidence_change_error c =
     (if cc_evidence_refs c = [] then Some (ValueError ''confidence change requires evidence'')
      else if cc_prior_confidence c = cc_new_confidence c
      then Some (ValueError ''confidence change must change confidence'')
      else None)"

definition node_update_error :: "node_update \<Rightarrow> exn option" where
  "node_update_error u =
     (if nd_id (nu_replacement u) \<noteq> nu_node_id u
      then Some (ValueError ''node replacement id must match node_id'') else None)"

definition edge_update_error :: "edge_update \<Rightarrow> exn option" where
  "edge_update_error u =
     (if ed_id (eu_replacement u) \<noteq> eu_edge_id u
      then Some (ValueError ''edge replacement id must match edge_id'') else None)"

definition status_change_error :: "implementation_status_change \<Rightarrow> exn option" where
  "status_change_error c =
     (if sc_evidence_refs c = [] then Some (ValueError ''implementation status change requires evidence'')
      else if sc_prior c = sc_new c
      then Some (ValueError ''implementation status change must change status'')
      else None)"

definition baseline_missing :: "implementation_claim \<Rightarrow> string list" where
  "baseline_missing c =
     (if ic_requirement_refs c = [] then [''requirement_refs''] else []) @
     (if ic_code_evidence c = [] then [''code_evidence''] else []) @
     (if ic_verified_commit c = None then [''verified_commit''] else []) @
     (if ic_verified_at c = None then [''verified_at''] else []) @
     (if ic_test_evidence_required c \<and> ic_test_evidence c = [] then [''test_evidence''] else [])"

definition require_baseline_evidence :: "implementation_claim \<Rightarrow> implementation_claim res" where
  "require_baseline_evidence c =
     (if ic_status c \<noteq> IMPLEMENTED_BASELINE then Inr c
      else if baseline_missing c \<noteq> []
      then Inl (ValueError (''implemented_baseline requires: '' @ join '', '' (baseline_missing c)))
      else Inr c)"

definition is_semantic :: "changeset \<Rightarrow> bool" where
  "is_semantic cs \<longleftrightarrow>
     cs_nodes_added cs \<noteq> [] \<or> cs_nodes_updated cs \<noteq> [] \<or> cs_nodes_superseded cs \<noteq> [] \<or>
     cs_edges_added cs \<noteq> [] \<or> cs_edges_updated cs \<noteq> [] \<or> cs_edges_superseded cs \<noteq> [] \<or>
     cs_confidence_changes cs \<noteq> [] \<or> cs_implementation_status_changes cs \<noteq> [] \<or>
     cs_reconciliation_cases_created cs \<noteq> [] \<or> cs_reconciliation_cases_resolved cs \<noteq> []"

definition mutation_subjects :: "changeset \<Rightarrow> (string \<times> string list) list" where
  "mutation_subjects cs =
     [(''nodes_added'', map nd_id (cs_nodes_added cs)),
      (''nodes_updated'', map nu_node_id (cs_nodes_updated cs)),
      (''nodes_superseded'', cs_nodes_superseded cs),
      (''edges_added'', map ed_id (cs_edges_added cs)),
      (''edges_updated'', map eu_edge_id (cs_edges_updated cs)),
      (''edges_superseded'', cs_edges_superseded cs),
      (''confidence_changes'', map cc_subject_ref (cs_confidence_changes cs)),
      (''implementation_status_changes'', map sc_claim_id (cs_implementation_status_changes cs)),
      (''reconciliation_cases_created'', cs_reconciliation_cases_created cs),
      (''reconciliation_cases_resolved'', cs_reconciliation_cases_resolved cs)]"

definition overlap_error :: "string list \<Rightarrow> string list \<Rightarrow> string \<Rightarrow> exn option" where
  "overlap_error xs ys msg = (if disjoint_lists xs ys then None else Some (ValueError msg))"

definition validate_mutations :: "changeset \<Rightarrow> changeset res" where
  "validate_mutations cs =
     (let node_additions = map nd_id (cs_nodes_added cs);
          node_updates = map nu_node_id (cs_nodes_updated cs);
          node_supersessions = cs_nodes_superseded cs;
          edge_additions = map ed_id (cs_edges_added cs);
          edge_updates = map eu_edge_id (cs_edges_updated cs);
          edge_supersessions = cs_edges_superseded cs;
          derived_node_updates = map cc_subject_ref (cs_confidence_changes cs) @
            map sc_claim_id (cs_implementation_status_changes cs);
          explicit_node_mutations = node_additions @ node_updates @ node_supersessions
      in res_bind
           (check_all (\<lambda>(group, subjects). if distinct subjects then None
                         else Some (ValueError (''duplicate subject in '' @ group)))
              (mutation_subjects cs))
           (\<lambda>_. res_bind
             (check_all (\<lambda>e. e)
               [overlap_error node_additions node_updates ''cannot both add and update node'',
                overlap_error node_additions node_supersessions
                  ''cannot both add and supersede node'',
                overlap_error edge_additions edge_updates ''cannot both add and update edge'',
                overlap_error edge_additions edge_supersessions
                  ''cannot both add and supersede edge'',
                overlap_error (cs_reconciliation_cases_created cs)
                  (cs_reconciliation_cases_resolved cs)
                  ''cannot both create and resolve reconciliation case'',
                overlap_error node_updates node_supersessions
                  ''cannot both update and supersede node'',
                overlap_error edge_updates edge_supersessions
                  ''cannot both update and supersede edge'',
                overlap_error derived_node_updates explicit_node_mutations
                  ''conflicting node mutation groups''])
             (\<lambda>_. if is_semantic cs \<and> cs_evidence_refs cs = []
                  then Inl (ValueError ''semantic ChangeSet requires evidence'')
                  else Inr cs)))"

text \<open>Construction of a ChangeSet: the validators of its parts, then its own.\<close>

definition validate_changeset :: "changeset \<Rightarrow> changeset res" where
  "validate_changeset cs =
     (if cs_baseline_graph_version cs < 0 then Inl (ValueError ''baseline_graph_version'')
      else if \<not> list_all node_valid (cs_nodes_added cs @ map nu_replacement (cs_nodes_updated cs))
        \<or> \<not> list_all (\<lambda>c. valid_confidence (cc_prior_confidence c) \<and>
              valid_confidence (cc_new_confidence c)) (cs_confidence_changes cs)
      then Inl (ValueError ''invalid field'')
      else
        res_bind (check_all node_update_error (cs_nodes_updated cs)) (\<lambda>_.
        res_bind (check_all edge_update_error (cs_edges_updated cs)) (\<lambda>_.
        res_bind (check_all confidence_change_error (cs_confidence_changes cs)) (\<lambda>_.
        res_bind (check_all status_change_error (cs_implementation_status_changes cs)) (\<lambda>_.
        validate_mutations cs)))))"

section \<open>The contract\<close>

definition mutations_disjoint :: "changeset \<Rightarrow> bool" where
  "mutations_disjoint cs \<longleftrightarrow>
     (let na = nd_id ` set (cs_nodes_added cs); nu = nu_node_id ` set (cs_nodes_updated cs);
          ns = set (cs_nodes_superseded cs); ea = ed_id ` set (cs_edges_added cs);
          eu = eu_edge_id ` set (cs_edges_updated cs); es = set (cs_edges_superseded cs);
          dv = cc_subject_ref ` set (cs_confidence_changes cs) \<union>
               sc_claim_id ` set (cs_implementation_status_changes cs)
      in na \<inter> nu = {} \<and> na \<inter> ns = {} \<and> nu \<inter> ns = {} \<and> ea \<inter> eu = {} \<and> ea \<inter> es = {} \<and> eu \<inter> es = {} \<and>
         dv \<inter> (na \<union> nu \<union> ns) = {} \<and>
         set (cs_reconciliation_cases_created cs) \<inter> set (cs_reconciliation_cases_resolved cs) = {})"

definition mutations_distinct :: "changeset \<Rightarrow> bool" where
  "mutations_distinct cs \<longleftrightarrow> (\<forall>p \<in> set (mutation_subjects cs). distinct (snd p))"

definition changeset_ok :: "changeset \<Rightarrow> bool" where
  "changeset_ok cs \<longleftrightarrow>
     0 \<le> cs_baseline_graph_version cs \<and>
     list_all node_valid (cs_nodes_added cs @ map nu_replacement (cs_nodes_updated cs)) \<and>
     list_all (\<lambda>u. nd_id (nu_replacement u) = nu_node_id u) (cs_nodes_updated cs) \<and>
     list_all (\<lambda>u. ed_id (eu_replacement u) = eu_edge_id u) (cs_edges_updated cs) \<and>
     list_all (\<lambda>c. valid_confidence (cc_prior_confidence c) \<and> valid_confidence (cc_new_confidence c)
         \<and> cc_evidence_refs c \<noteq> [] \<and> cc_prior_confidence c \<noteq> cc_new_confidence c)
       (cs_confidence_changes cs) \<and>
     list_all (\<lambda>c. sc_evidence_refs c \<noteq> [] \<and> sc_prior c \<noteq> sc_new c)
       (cs_implementation_status_changes cs) \<and>
     mutations_distinct cs \<and> mutations_disjoint cs \<and>
     (is_semantic cs \<longrightarrow> cs_evidence_refs cs \<noteq> [])"

lemma overlap_error_None_iff [simp]: "overlap_error xs ys msg = None \<longleftrightarrow> set xs \<inter> set ys = {}"
  by (simp add: overlap_error_def py_simps)

lemma part_error_None_iffs:
  "node_update_error u = None \<longleftrightarrow> nd_id (nu_replacement u) = nu_node_id u"
  "edge_update_error v = None \<longleftrightarrow> ed_id (eu_replacement v) = eu_edge_id v"
  "confidence_change_error c = None \<longleftrightarrow>
     cc_evidence_refs c \<noteq> [] \<and> cc_prior_confidence c \<noteq> cc_new_confidence c"
  "status_change_error d = None \<longleftrightarrow> sc_evidence_refs d \<noteq> [] \<and> sc_prior d \<noteq> sc_new d"
  by (auto simp: node_update_error_def edge_update_error_def confidence_change_error_def
      status_change_error_def)

lemma validate_mutations_Inr_iff:
  "validate_mutations cs = Inr cs' \<longleftrightarrow>
     cs' = cs \<and> mutations_distinct cs \<and> mutations_disjoint cs \<and>
     (is_semantic cs \<longrightarrow> cs_evidence_refs cs \<noteq> [])"
proof -
  have group: "(case p of (label, subjects) \<Rightarrow> if distinct subjects then None
      else Some (ValueError (''duplicate subject in '' @ label))) = None \<longleftrightarrow> distinct (snd p)"
    for p :: "string \<times> string list"
    by (cases p) simp
  show ?thesis
    unfolding validate_mutations_def mutations_disjoint_def mutations_distinct_def Let_def
    by (simp add: res_simps group Un_assoc del: check_all.simps) (intro impI iffI; elim conjE; simp)
qed

text \<open>Construction succeeds exactly on the ChangeSets that meet the contract.\<close>

lemma validate_changeset_Inr_iff: "validate_changeset cs = Inr cs' \<longleftrightarrow> cs' = cs \<and> changeset_ok cs"
  by (auto simp: validate_changeset_def changeset_ok_def res_simps part_error_None_iffs
      validate_mutations_Inr_iff list_all_iff)

lemma require_baseline_evidence_Inr_iff:
  "require_baseline_evidence c = Inr c' \<longleftrightarrow>
     c' = c \<and>
     (ic_status c = IMPLEMENTED_BASELINE \<longrightarrow>
        ic_requirement_refs c \<noteq> [] \<and> ic_code_evidence c \<noteq> [] \<and> ic_verified_commit c \<noteq> None \<and>
        ic_verified_at c \<noteq> None \<and> (ic_test_evidence_required c \<longrightarrow> ic_test_evidence c \<noteq> []))"
  by (auto simp: require_baseline_evidence_def baseline_missing_def)

lemma changeset_okD:
  assumes "changeset_ok cs"
  shows "distinct (map nd_id (cs_nodes_added cs))" "distinct (map nu_node_id (cs_nodes_updated cs))"
    "distinct (cs_nodes_superseded cs)" "distinct (map ed_id (cs_edges_added cs))"
    "distinct (map eu_edge_id (cs_edges_updated cs))" "distinct (cs_edges_superseded cs)"
    "distinct (map cc_subject_ref (cs_confidence_changes cs))"
    "distinct (map sc_claim_id (cs_implementation_status_changes cs))"
    "mutations_disjoint cs"
    "\<And>u. u \<in> set (cs_nodes_updated cs) \<Longrightarrow> nd_id (nu_replacement u) = nu_node_id u"
    "\<And>u. u \<in> set (cs_edges_updated cs) \<Longrightarrow> ed_id (eu_replacement u) = eu_edge_id u"
    "\<And>n. n \<in> set (cs_nodes_added cs) \<Longrightarrow> node_valid n"
    "\<And>u. u \<in> set (cs_nodes_updated cs) \<Longrightarrow> node_valid (nu_replacement u)"
    "\<And>c. c \<in> set (cs_confidence_changes cs) \<Longrightarrow> valid_confidence (cc_new_confidence c)"
  using assms
  by (auto simp: changeset_ok_def mutations_distinct_def mutation_subjects_def list_all_iff)

end
