(* ===== verification/Applier.thy ===== *)
theory Applier
  imports Changeset
begin

text \<open>
  Application of a ChangeSet to a graph (\<open>core/graph/applier.py\<close>): one definition per loop of
  \<open>apply_changeset_with_case_effects\<close>, over insertion-ordered dictionaries. The loops on nodes and
  on edges share their shape; the locale \<open>keyed_records\<close> states what they rely on and is interpreted
  for both. \<open>apply_spec\<close> is the abstract specification, a pointwise update of finite maps, and
  \<open>apply_refines\<close> says when the code succeeds and that its result is exactly the specified graph.
\<close>

section \<open>The loops\<close>

definition add_group :: "('a \<Rightarrow> string) \<Rightarrow> 'a list \<Rightarrow> 'a dict \<Rightarrow> 'a dict res" where
  "add_group ident =
     fold_res (\<lambda>x d. if ident x \<in> set (map fst d) then Inl (DuplicateIdentity (ident x))
                     else Inr (AList.update (ident x) x d))"

definition update_group ::
  "('u \<Rightarrow> string) \<Rightarrow> ('u \<Rightarrow> 'a) \<Rightarrow> 'u list \<Rightarrow> 'a dict \<Rightarrow> 'a dict res" where
  "update_group uid repl =
     fold_res (\<lambda>u d. if uid u \<notin> set (map fst d) then Inl (UnknownIdentity (uid u))
                     else Inr (AList.update (uid u) (repl u) d))"

definition supersede_group :: "('a \<Rightarrow> 'a) \<Rightarrow> string list \<Rightarrow> 'a dict \<Rightarrow> 'a dict res" where
  "supersede_group mark =
     fold_res (\<lambda>k d. case map_of d k of
                       None \<Rightarrow> Inl (UnknownIdentity k)
                     | Some x \<Rightarrow> Inr (AList.update k (mark x) d))"

definition supersede_node :: "node \<Rightarrow> node" where
  "supersede_node n = n\<lparr>nd_status := ''superseded''\<rparr>"

definition supersede_edge :: "edge \<Rightarrow> edge" where
  "supersede_edge e = e\<lparr>ed_status := ''superseded''\<rparr>"

definition check_confidence_prior :: "node dict \<Rightarrow> confidence_change \<Rightarrow> exn option" where
  "check_confidence_prior nodes c =
     (case map_of nodes (cc_subject_ref c) of
        None \<Rightarrow> Some (UnknownIdentity (cc_subject_ref c))
      | Some current \<Rightarrow>
          if nd_intent_fidelity_confidence current \<noteq> Some (cc_prior_confidence c)
          then Some (ContradictoryChangeSet (''confidence prior mismatch: '' @ cc_subject_ref c))
          else None)"

definition check_status_prior :: "node dict \<Rightarrow> implementation_status_change \<Rightarrow> exn option" where
  "check_status_prior nodes c =
     (case map_of nodes (sc_claim_id c) of
        None \<Rightarrow> Some (UnknownIdentity (sc_claim_id c))
      | Some current \<Rightarrow>
          if (case nd_implementation_status current of None \<Rightarrow> UNKNOWN | Some s \<Rightarrow> s) \<noteq> sc_prior c
          then Some (ContradictoryChangeSet (''implementation prior mismatch: '' @ sc_claim_id c))
          else None)"

definition with_confidence :: "confidence_change \<Rightarrow> node \<Rightarrow> node" where
  "with_confidence c current =
     current\<lparr>nd_intent_fidelity_confidence := Some (cc_new_confidence c),
       nd_confidence_basis := Some (cc_reason c),
       nd_last_reassessed_at := Some (cc_timestamp c),
       nd_last_modified_by := cc_actor c,
       nd_last_modified_at := cc_timestamp c,
       nd_evidence_refs := fromkeys (nd_evidence_refs current @ cc_evidence_refs c)\<rparr>"

definition with_status :: "changeset \<Rightarrow> implementation_status_change \<Rightarrow> node \<Rightarrow> node" where
  "with_status cs c current =
     current\<lparr>nd_implementation_status := Some (sc_new c),
       nd_last_modified_by := cs_actor cs,
       nd_last_modified_at := cs_timestamp cs,
       nd_evidence_refs := fromkeys (nd_evidence_refs current @ sc_evidence_refs c)\<rparr>"

text \<open>\<open>nodes[k] = Node.model_validate({**nodes[k].model_dump(), ...})\<close>.\<close>

definition replace_node :: "('c \<Rightarrow> string) \<Rightarrow> ('c \<Rightarrow> node \<Rightarrow> node) \<Rightarrow> 'c list \<Rightarrow> node dict \<Rightarrow> node dict res"
  where
  "replace_node key change =
     fold_res (\<lambda>c nodes. case map_of nodes (key c) of
                  None \<Rightarrow> Inl (KeyError (key c))
                | Some current \<Rightarrow>
                    res_bind (validate_node (change c current))
                      (\<lambda>n. Inr (AList.update (key c) n nodes)))"

definition apply_changeset_with_case_effects :: "graph \<Rightarrow> changeset \<Rightarrow> graph res" where
  "apply_changeset_with_case_effects g cs =
     (if cs_baseline_graph_version cs \<noteq> g_version g
      then Inl (StaleGraphVersion (cs_baseline_graph_version cs) (g_version g))
      else let nodes = dict_of nd_id (g_nodes g); edges = dict_of ed_id (g_edges g) in
        res_bind (check_all (check_confidence_prior nodes) (cs_confidence_changes cs)) (\<lambda>_.
        res_bind (check_all (check_status_prior nodes) (cs_implementation_status_changes cs)) (\<lambda>_.
        res_bind (add_group nd_id (cs_nodes_added cs) nodes) (\<lambda>nodes.
        res_bind (update_group nu_node_id nu_replacement (cs_nodes_updated cs) nodes) (\<lambda>nodes.
        res_bind (supersede_group supersede_node (cs_nodes_superseded cs) nodes) (\<lambda>nodes.
        res_bind (add_group ed_id (cs_edges_added cs) edges) (\<lambda>edges.
        res_bind (update_group eu_edge_id eu_replacement (cs_edges_updated cs) edges) (\<lambda>edges.
        res_bind (supersede_group supersede_edge (cs_edges_superseded cs) edges) (\<lambda>edges.
        res_bind (replace_node cc_subject_ref with_confidence (cs_confidence_changes cs) nodes)
          (\<lambda>nodes.
        res_bind (replace_node sc_claim_id (with_status cs)
            (cs_implementation_status_changes cs) nodes) (\<lambda>nodes.
        validate_graph
          (g\<lparr>g_version := g_version g + 1,
             g_nodes := sorted_values nodes,
             g_edges := sorted_values edges\<rparr>))))))))))))"

definition apply_changeset :: "graph \<Rightarrow> changeset \<Rightarrow> graph res" where
  "apply_changeset g cs =
     (if cs_reconciliation_cases_created cs \<noteq> [] \<or> cs_reconciliation_cases_resolved cs \<noteq> []
      then Inl CaseEffectsRequireExecutor
      else apply_changeset_with_case_effects g cs)"

section \<open>The abstract specification\<close>

type_synonym 'a store = "string \<rightharpoonup> 'a"

text \<open>Rewrite the records some change addresses.\<close>

definition rewrite_spec :: "('c \<Rightarrow> string) \<Rightarrow> ('c \<Rightarrow> 'a \<Rightarrow> 'a) \<Rightarrow> 'c list \<Rightarrow> 'a store \<Rightarrow> 'a store" where
  "rewrite_spec key change cs M =
     (\<lambda>k. case find (\<lambda>c. key c = k) cs of None \<Rightarrow> M k | Some c \<Rightarrow> map_option (change c) (M k))"

definition records_spec ::
  "('a \<Rightarrow> string) \<Rightarrow> ('u \<Rightarrow> string) \<Rightarrow> ('u \<Rightarrow> 'a) \<Rightarrow> ('a \<Rightarrow> 'a) \<Rightarrow>
     'a list \<Rightarrow> 'u list \<Rightarrow> string list \<Rightarrow> 'a store \<Rightarrow> 'a store" where
  "records_spec ident uid repl mark added updated superseded M =
     rewrite_spec id (\<lambda>_. mark) superseded
       (rewrite_spec uid (\<lambda>u _. repl u) updated
         (M ++ map_of (map (\<lambda>x. (ident x, x)) added)))"

definition nodes_spec :: "changeset \<Rightarrow> node store \<Rightarrow> node store" where
  "nodes_spec cs M =
     rewrite_spec sc_claim_id (with_status cs) (cs_implementation_status_changes cs)
      (rewrite_spec cc_subject_ref with_confidence (cs_confidence_changes cs)
       (records_spec nd_id nu_node_id nu_replacement supersede_node
         (cs_nodes_added cs) (cs_nodes_updated cs) (cs_nodes_superseded cs) M))"

definition edges_spec :: "changeset \<Rightarrow> edge store \<Rightarrow> edge store" where
  "edges_spec cs M =
     records_spec ed_id eu_edge_id eu_replacement supersede_edge
       (cs_edges_added cs) (cs_edges_updated cs) (cs_edges_superseded cs) M"

text \<open>The records of a finite store in the order of their identities.\<close>

definition listing :: "'a store \<Rightarrow> 'a list" where
  "listing M = map (\<lambda>k. the (M k)) (sorted_list_of_set (dom M))"

definition apply_spec :: "graph \<Rightarrow> changeset \<Rightarrow> graph" where
  "apply_spec g cs =
     g\<lparr>g_version := g_version g + 1,
       g_nodes := listing (nodes_spec cs (lookup_node g)),
       g_edges := listing (edges_spec cs (lookup_edge g))\<rparr>"

text \<open>What the code requires of the current records.\<close>

definition groups_ok :: "'a store \<Rightarrow> string set \<Rightarrow> string set \<Rightarrow> string set \<Rightarrow> bool" where
  "groups_ok M added updated superseded \<longleftrightarrow>
     added \<inter> dom M = {} \<and> updated \<subseteq> dom M \<and> superseded \<subseteq> dom M"

definition priors_ok :: "graph \<Rightarrow> changeset \<Rightarrow> bool" where
  "priors_ok g cs \<longleftrightarrow>
     (\<forall>c \<in> set (cs_confidence_changes cs). \<exists>n. lookup_node g (cc_subject_ref c) = Some n \<and>
        nd_intent_fidelity_confidence n = Some (cc_prior_confidence c)) \<and>
     (\<forall>c \<in> set (cs_implementation_status_changes cs). \<exists>n. lookup_node g (sc_claim_id c) = Some n \<and>
        (case nd_implementation_status n of None \<Rightarrow> UNKNOWN | Some s \<Rightarrow> s) = sc_prior c)"

definition applicable :: "graph \<Rightarrow> changeset \<Rightarrow> bool" where
  "applicable g cs \<longleftrightarrow>
     cs_baseline_graph_version cs = g_version g \<and> priors_ok g cs \<and>
     groups_ok (lookup_node g) (nd_id ` set (cs_nodes_added cs))
       (nu_node_id ` set (cs_nodes_updated cs)) (set (cs_nodes_superseded cs)) \<and>
     groups_ok (lookup_edge g) (ed_id ` set (cs_edges_added cs))
       (eu_edge_id ` set (cs_edges_updated cs)) (set (cs_edges_superseded cs)) \<and>
     graph_ok (apply_spec g cs)"

section \<open>Loops that modify existing records\<close>

text \<open>The update, supersede and rewrite loops are instances of one loop.\<close>

definition modify_loop ::
  "('c \<Rightarrow> exn) \<Rightarrow> ('c \<Rightarrow> string) \<Rightarrow> ('c \<Rightarrow> 'a \<Rightarrow> 'a) \<Rightarrow> 'c list \<Rightarrow> 'a dict \<Rightarrow> 'a dict res" where
  "modify_loop err key change =
     fold_res (\<lambda>c d. case map_of d (key c) of
                       None \<Rightarrow> Inl (err c)
                     | Some x \<Rightarrow> Inr (AList.update (key c) (change c x) d))"

lemma update_group_modify:
  "update_group uid repl = modify_loop (\<lambda>u. UnknownIdentity (uid u)) uid (\<lambda>u _. repl u)"
proof -
  have "(if uid u \<notin> set (map fst d) then Inl (UnknownIdentity (uid u))
         else Inr (AList.update (uid u) (repl u) d)) =
        (case map_of d (uid u) of None \<Rightarrow> Inl (UnknownIdentity (uid u))
         | Some x \<Rightarrow> Inr (AList.update (uid u) (repl u) d))" for u d
    using map_of_eq_None_iff [of d "uid u"] by (cases "map_of d (uid u)") simp_all
  then show ?thesis by (simp add: update_group_def modify_loop_def)
qed

lemma supersede_group_modify:
  "supersede_group mark = modify_loop UnknownIdentity id (\<lambda>_. mark)"
  by (simp add: supersede_group_def modify_loop_def cong: option.case_cong)

lemma rewrite_spec_Nil [simp]: "rewrite_spec key change [] M = M"
  by (simp add: rewrite_spec_def)

lemma rewrite_spec_Cons:
  assumes "key c \<notin> set (map key cs)" and "M (key c) = Some x"
  shows "rewrite_spec key change (c # cs) M =
    rewrite_spec key change cs (M(key c \<mapsto> change c x))"
proof
  fix k
  have "find (\<lambda>c. key c = k) cs = None" if "k = key c"
    using assms(1) that by (auto simp: find_None_iff image_iff)
  with assms(2) show "rewrite_spec key change (c # cs) M k =
      rewrite_spec key change cs (M(key c \<mapsto> change c x)) k"
    by (auto simp: rewrite_spec_def split: option.splits)
qed

lemma dom_rewrite_spec [simp]: "dom (rewrite_spec key change cs M) = dom M"
  by (auto simp: rewrite_spec_def dom_def split: option.splits)

lemma modify_loop_Inr:
  assumes "modify_loop err key change cs d = Inr d'" and "distinct (map key cs)"
    and "distinct (map fst d)"
  shows "map_of d' = rewrite_spec key change cs (map_of d)" and "distinct (map fst d')"
    and "key ` set cs \<subseteq> dom (map_of d)"
proof -
  have "map_of d' = rewrite_spec key change cs (map_of d) \<and> distinct (map fst d') \<and>
      key ` set cs \<subseteq> dom (map_of d)"
    using assms
  proof (induction cs arbitrary: d)
    case Nil
    then show ?case by (simp add: modify_loop_def)
  next
    case (Cons c cs)
    then obtain x where x: "map_of d (key c) = Some x"
      and rest: "modify_loop err key change cs (AList.update (key c) (change c x) d) = Inr d'"
      by (auto simp: modify_loop_def split: option.splits)
    have "rewrite_spec key change (c # cs) (map_of d) =
        rewrite_spec key change cs ((map_of d)(key c \<mapsto> change c x))"
      using Cons.prems(2) x by (intro rewrite_spec_Cons) simp_all
    moreover have "map_of d' = rewrite_spec key change cs ((map_of d)(key c \<mapsto> change c x)) \<and>
        distinct (map fst d') \<and> key ` set cs \<subseteq> dom ((map_of d)(key c \<mapsto> change c x))"
      using Cons.IH [OF rest] Cons.prems(2,3) by (simp del: fun_upd_apply)
    moreover have "dom ((map_of d)(key c \<mapsto> change c x)) = dom (map_of d)" "key c \<in> dom (map_of d)"
      using x by auto
    ultimately show ?case by simp
  qed
  then show "map_of d' = rewrite_spec key change cs (map_of d)" and "distinct (map fst d')"
    and "key ` set cs \<subseteq> dom (map_of d)" by auto
qed

lemma modify_loop_total:
  "key ` set cs \<subseteq> dom (map_of d) \<Longrightarrow> \<exists>d'. modify_loop err key change cs d = Inr d'"
proof (induction cs arbitrary: d)
  case Nil
  then show ?case by (simp add: modify_loop_def)
next
  case (Cons c cs)
  then obtain x where "map_of d (key c) = Some x" by auto
  moreover have "\<exists>d'. modify_loop err key change cs (AList.update (key c) (change c x) d) = Inr d'"
    using Cons.prems by (intro Cons.IH) (auto simp del: map_of_eq_Some_iff)
  ultimately show ?case by (simp add: modify_loop_def)
qed

section \<open>Added records\<close>

lemma add_group_Inr:
  assumes "add_group ident xs d = Inr d'" and "distinct (map fst d)"
  shows "d' = d @ map (\<lambda>x. (ident x, x)) xs" and "distinct (map fst d')"
    and "ident ` set xs \<inter> dom (map_of d) = {}"
proof -
  have "d' = d @ map (\<lambda>x. (ident x, x)) xs \<and> distinct (map fst d') \<and> ident ` set xs \<inter> fst ` set d = {}"
    using assms
  proof (induction xs arbitrary: d)
    case Nil
    then show ?case by (simp add: add_group_def)
  next
    case (Cons x xs)
    then have new: "ident x \<notin> set (map fst d)"
      and rest: "add_group ident xs (d @ [(ident x, x)]) = Inr d'"
      by (auto simp: add_group_def dict_update_new split: if_splits)
    with Cons.IH [OF rest] Cons.prems show ?case by auto
  qed
  then show "d' = d @ map (\<lambda>x. (ident x, x)) xs" and "distinct (map fst d')"
    and "ident ` set xs \<inter> dom (map_of d) = {}" by (metis dom_map_of_conv_image_fst)+
qed

lemma add_group_total:
  "ident ` set xs \<inter> dom (map_of d) = {} \<Longrightarrow> distinct (map ident xs) \<Longrightarrow>
     \<exists>d'. add_group ident xs d = Inr d'"
proof (induction xs arbitrary: d)
  case Nil
  then show ?case by (simp add: add_group_def)
next
  case (Cons x xs)
  then have new: "ident x \<notin> set (map fst d)" by (simp add: dom_map_of_conv_image_fst)
  have "\<exists>d'. add_group ident xs (AList.update (ident x) x d) = Inr d'"
    using Cons.prems by (intro Cons.IH) (simp_all del: fun_upd_apply)
  with new show ?case by (simp add: add_group_def)
qed

lemma map_of_added:
  assumes "distinct (map fst (d @ map (\<lambda>x. (ident x, x)) xs))"
  shows "map_of (d @ map (\<lambda>x. (ident x, x)) xs) = map_of d ++ map_of (map (\<lambda>x. (ident x, x)) xs)"
  using assms unfolding map_of_append
  by (intro map_add_comm) (force simp: dom_map_of_conv_image_fst)

section \<open>Node replacement never fails\<close>

definition nodes_valid :: "node store \<Rightarrow> bool" where
  "nodes_valid M \<longleftrightarrow> (\<forall>n \<in> ran M. node_valid n)"

lemma replace_node_modify:
  assumes "nodes_valid (map_of d)" and "\<And>c n. c \<in> set cs \<Longrightarrow> node_valid n \<Longrightarrow> node_valid (change c n)"
  shows "replace_node key change cs d = modify_loop (\<lambda>c. KeyError (key c)) key change cs d"
  using assms
proof (induction cs arbitrary: d)
  case Nil
  then show ?case by (simp add: replace_node_def modify_loop_def)
next
  case (Cons c cs)
  show ?case
  proof (cases "map_of d (key c)")
    case None
    then show ?thesis by (simp add: replace_node_def modify_loop_def)
  next
    case (Some x)
    then have "node_valid x" using Cons.prems(1) by (auto simp: nodes_valid_def intro: ranI)
    then have valid: "node_valid (change c x)" using Cons.prems(2) by simp
    have "nodes_valid (map_of (AList.update (key c) (change c x) d))"
      using Cons.prems(1) valid by (auto simp: nodes_valid_def ran_def)
    from Cons.IH [OF this] Cons.prems(2) valid Some show ?thesis
      by (simp add: replace_node_def modify_loop_def node_valid_def)
  qed
qed

lemma node_valid_changes:
  "node_valid n \<Longrightarrow> valid_confidence (cc_new_confidence c) \<Longrightarrow> node_valid (with_confidence c n)"
  "node_valid n \<Longrightarrow> node_valid (with_status cs s n)"
  "node_valid n \<Longrightarrow> node_valid (supersede_node n)"
  by (auto simp: node_valid_iff with_confidence_def with_status_def supersede_node_def)

lemma nodes_valid_rewrite:
  assumes "nodes_valid M" and "\<And>c n. c \<in> set cs \<Longrightarrow> node_valid n \<Longrightarrow> node_valid (change c n)"
  shows "nodes_valid (rewrite_spec key change cs M)"
  unfolding nodes_valid_def
proof
  fix n assume "n \<in> ran (rewrite_spec key change cs M)"
  then obtain k where "rewrite_spec key change cs M k = Some n" by (auto simp: ran_def)
  with assms show "node_valid n"
    by (auto simp: rewrite_spec_def nodes_valid_def find_Some_iff ran_def split: option.splits)
qed

section \<open>The record groups\<close>

definition keyed_by :: "('a \<Rightarrow> string) \<Rightarrow> 'a store \<Rightarrow> bool" where
  "keyed_by ident M \<longleftrightarrow> (\<forall>k x. M k = Some x \<longrightarrow> ident x = k)"

lemma keyed_by_rewrite:
  assumes "keyed_by ident M" and "\<And>c x. c \<in> set cs \<Longrightarrow> ident x = key c \<Longrightarrow> ident (change c x) = key c"
  shows "keyed_by ident (rewrite_spec key change cs M)"
  unfolding keyed_by_def
proof (intro allI impI)
  fix k x assume x: "rewrite_spec key change cs M k = Some x"
  show "ident x = k"
  proof (cases "find (\<lambda>c. key c = k) cs")
    case None
    with x assms(1) show ?thesis by (simp add: rewrite_spec_def keyed_by_def)
  next
    case (Some c)
    then have "c \<in> set cs" "key c = k" by (auto simp: find_Some_iff)
    with x Some assms show ?thesis by (auto simp: rewrite_spec_def keyed_by_def)
  qed
qed

lemma subset_Un_disjoint: "X \<subseteq> A \<union> B \<Longrightarrow> B \<inter> X = {} \<Longrightarrow> X \<subseteq> A"
  by blast

text \<open>The three loops over the added, updated and superseded records of one kind.\<close>

definition group_loops where
  "group_loops ident uid repl mark added updated superseded d =
     res_bind (add_group ident added d) (\<lambda>d.
     res_bind (update_group uid repl updated d) (\<lambda>d.
     supersede_group mark superseded d))"

locale keyed_records =
  fixes ident :: "'a \<Rightarrow> string" and uid :: "'u \<Rightarrow> string" and repl :: "'u \<Rightarrow> 'a"
    and mark :: "'a \<Rightarrow> 'a"
  assumes mark_ident: "ident (mark x) = ident x"
begin

abbreviation loops where "loops \<equiv> group_loops ident uid repl mark"

lemma loops_Inr:
  assumes run: "loops added updated superseded d = Inr d'"
    and dist: "distinct (map fst d)" "distinct (map uid updated)" "distinct superseded"
    and disj: "ident ` set added \<inter> uid ` set updated = {}" "ident ` set added \<inter> set superseded = {}"
  shows "map_of d' = records_spec ident uid repl mark added updated superseded (map_of d)"
    and "distinct (map fst d')"
    and "groups_ok (map_of d) (ident ` set added) (uid ` set updated) (set superseded)"
proof -
  from run obtain d1 d2 where d1: "add_group ident added d = Inr d1"
    and d2: "update_group uid repl updated d1 = Inr d2"
    and d3: "supersede_group mark superseded d2 = Inr d'"
    by (auto simp: group_loops_def res_simps)
  note a = add_group_Inr [OF d1 dist(1)]
  note u = modify_loop_Inr [OF d2 [unfolded update_group_modify] dist(2) a(2)]
  have dist3: "distinct (map id superseded)" using dist(3) by simp
  note s = modify_loop_Inr [OF d3 [unfolded supersede_group_modify] dist3 u(2)]
  have m1: "map_of d1 = map_of d ++ map_of (map (\<lambda>x. (ident x, x)) added)"
    unfolding a(1) by (rule map_of_added) (rule a(2) [unfolded a(1)])
  with u(1) s(1) show "map_of d' = records_spec ident uid repl mark added updated superseded (map_of d)"
    by (simp add: records_spec_def)
  show "distinct (map fst d')" by (fact s(2))
  have "dom (map_of d1) = dom (map_of d) \<union> ident ` set added"
    by (auto simp: m1 dom_map_of_conv_image_fst image_image)
  moreover have "dom (map_of d2) = dom (map_of d1)" by (simp add: u(1))
  ultimately have "uid ` set updated \<subseteq> dom (map_of d)" "set superseded \<subseteq> dom (map_of d)"
    using u(3) s(3) disj by (simp_all add: subset_Un_disjoint)
  with a(3) show "groups_ok (map_of d) (ident ` set added) (uid ` set updated) (set superseded)"
    by (simp add: groups_ok_def)
qed

lemma loops_total:
  assumes ok: "groups_ok (map_of d) (ident ` set added) (uid ` set updated) (set superseded)"
    and dist: "distinct (map fst d)" "distinct (map ident added)" "distinct (map uid updated)"
  shows "\<exists>d'. loops added updated superseded d = Inr d'"
proof -
  obtain d1 where d1: "add_group ident added d = Inr d1"
    using add_group_total [of ident added d] ok dist(2) by (auto simp: groups_ok_def)
  note a = add_group_Inr [OF d1 dist(1)]
  have "map_of d1 = map_of d ++ map_of (map (\<lambda>x. (ident x, x)) added)"
    unfolding a(1) by (rule map_of_added) (rule a(2) [unfolded a(1)])
  then have dom1: "dom (map_of d) \<subseteq> dom (map_of d1)" by auto
  then obtain d2 where d2: "update_group uid repl updated d1 = Inr d2"
    using modify_loop_total [of uid updated d1] ok unfolding update_group_modify groups_ok_def
    by (meson subset_trans)
  have "dom (map_of d2) = dom (map_of d1)"
    using modify_loop_Inr(1) [OF d2 [unfolded update_group_modify] dist(3) a(2)] by simp
  then obtain d3 where "supersede_group mark superseded d2 = Inr d3"
    using modify_loop_total [of id superseded d2] ok dom1
    unfolding supersede_group_modify groups_ok_def by (metis image_id id_apply image_cong subset_trans)
  with d1 d2 show ?thesis by (simp add: group_loops_def)
qed

lemma keyed_records_spec:
  assumes "keyed_by ident M" and "\<And>u. u \<in> set updated \<Longrightarrow> ident (repl u) = uid u"
  shows "keyed_by ident (records_spec ident uid repl mark added updated superseded M)"
proof -
  have "keyed_by ident (M ++ map_of (map (\<lambda>x. (ident x, x)) added))"
    using assms(1) by (auto simp: keyed_by_def map_add_Some_iff dest: map_of_SomeD)
  then show ?thesis
    unfolding records_spec_def
    by (intro keyed_by_rewrite) (simp_all add: assms(2) mark_ident)
qed

lemma dom_records_spec:
  "dom (records_spec ident uid repl mark added updated superseded M) = dom M \<union> ident ` set added"
  by (auto simp: records_spec_def dom_map_of_conv_image_fst image_image)

end

interpretation node_records: keyed_records nd_id nu_node_id nu_replacement supersede_node
  by unfold_locales (simp add: supersede_node_def)

interpretation edge_records: keyed_records ed_id eu_edge_id eu_replacement supersede_edge
  by unfold_locales (simp add: supersede_edge_def)

section \<open>The code implements the specification\<close>

lemma sorted_values_listing: "distinct (map fst d) \<Longrightarrow> sorted_values d = listing (map_of d)"
  unfolding sorted_values_def listing_def
  by (metis distinct_remdups_id dom_map_of_conv_image_fst list.set_map
      sorted_list_of_set_sort_remdups)

lemma priors_checks:
  "check_all (check_confidence_prior (dict_of nd_id (g_nodes g))) (cs_confidence_changes cs) = Inr u \<and>
   check_all (check_status_prior (dict_of nd_id (g_nodes g))) (cs_implementation_status_changes cs) = Inr v
   \<longleftrightarrow> priors_ok g cs"
proof -
  have c: "check_confidence_prior (dict_of nd_id (g_nodes g)) c = None \<longleftrightarrow>
      (\<exists>n. lookup_node g (cc_subject_ref c) = Some n \<and>
        nd_intent_fidelity_confidence n = Some (cc_prior_confidence c))" for c
    unfolding check_confidence_prior_def lookup_node_def
    by (cases "map_of (dict_of nd_id (g_nodes g)) (cc_subject_ref c)")
      (simp_all del: map_of_eq_Some_iff)
  have d: "check_status_prior (dict_of nd_id (g_nodes g)) c = None \<longleftrightarrow>
      (\<exists>n. lookup_node g (sc_claim_id c) = Some n \<and>
        (case nd_implementation_status n of None \<Rightarrow> UNKNOWN | Some s \<Rightarrow> s) = sc_prior c)" for c
    unfolding check_status_prior_def lookup_node_def
    by (cases "map_of (dict_of nd_id (g_nodes g)) (sc_claim_id c)")
      (simp_all del: map_of_eq_Some_iff)
  show ?thesis unfolding check_all_Inr_iff priors_ok_def c d ..
qed

text \<open>The graph-side steps after the loops, on the node dictionary.\<close>

definition derived_loops :: "changeset \<Rightarrow> node dict \<Rightarrow> node dict res" where
  "derived_loops cs nodes =
     res_bind (replace_node cc_subject_ref with_confidence (cs_confidence_changes cs) nodes)
       (replace_node sc_claim_id (with_status cs) (cs_implementation_status_changes cs))"

lemma confidence_loop:
  assumes "changeset_ok cs" and "nodes_valid (map_of d)"
  shows "replace_node cc_subject_ref with_confidence (cs_confidence_changes cs) d =
      modify_loop (\<lambda>c. KeyError (cc_subject_ref c)) cc_subject_ref with_confidence
        (cs_confidence_changes cs) d"
    and "nodes_valid (rewrite_spec cc_subject_ref with_confidence (cs_confidence_changes cs) (map_of d))"
  using assms by (auto intro!: replace_node_modify nodes_valid_rewrite node_valid_changes
      changeset_okD(14) simp del: map_of_eq_Some_iff)

lemma status_loop:
  "nodes_valid (map_of d) \<Longrightarrow>
     replace_node sc_claim_id (with_status cs) scs d =
       modify_loop (\<lambda>c. KeyError (sc_claim_id c)) sc_claim_id (with_status cs) scs d"
  by (intro replace_node_modify node_valid_changes)

lemma derived_loops_Inr:
  assumes cs: "changeset_ok cs" and valid: "nodes_valid (map_of d)" and dist: "distinct (map fst d)"
    and run: "derived_loops cs d = Inr d'"
  shows "distinct (map fst d')"
    and "map_of d' = rewrite_spec sc_claim_id (with_status cs) (cs_implementation_status_changes cs)
       (rewrite_spec cc_subject_ref with_confidence (cs_confidence_changes cs) (map_of d))"
proof -
  note conf = confidence_loop [OF cs valid]
  from run obtain d1 where
    d1: "replace_node cc_subject_ref with_confidence (cs_confidence_changes cs) d = Inr d1"
    and d2: "replace_node sc_claim_id (with_status cs) (cs_implementation_status_changes cs) d1 = Inr d'"
    by (auto simp: derived_loops_def res_simps)
  note one = modify_loop_Inr [OF d1 [unfolded conf(1)] changeset_okD(7) [OF cs] dist]
  have "nodes_valid (map_of d1)" using conf(2) by (simp only: one(1))
  note two = modify_loop_Inr [OF d2 [unfolded status_loop [OF this]] changeset_okD(8) [OF cs] one(2)]
  show "distinct (map fst d')" by (fact two(2))
  show "map_of d' = rewrite_spec sc_claim_id (with_status cs) (cs_implementation_status_changes cs)
       (rewrite_spec cc_subject_ref with_confidence (cs_confidence_changes cs) (map_of d))"
    by (simp only: two(1) one(1))
qed

lemma derived_loops_total:
  assumes cs: "changeset_ok cs" and valid: "nodes_valid (map_of d)" and dist: "distinct (map fst d)"
    and known: "cc_subject_ref ` set (cs_confidence_changes cs) \<subseteq> dom (map_of d)"
      "sc_claim_id ` set (cs_implementation_status_changes cs) \<subseteq> dom (map_of d)"
  shows "\<exists>d'. derived_loops cs d = Inr d'"
proof -
  note conf = confidence_loop [OF cs valid]
  from modify_loop_total [OF known(1)] obtain d1 where
    d1: "replace_node cc_subject_ref with_confidence (cs_confidence_changes cs) d = Inr d1"
    unfolding conf(1) by blast
  note one = modify_loop_Inr [OF d1 [unfolded conf(1)] changeset_okD(7) [OF cs] dist]
  have "nodes_valid (map_of d1)" using conf(2) by (simp only: one(1))
  moreover have "sc_claim_id ` set (cs_implementation_status_changes cs) \<subseteq> dom (map_of d1)"
    using known(2) by (simp add: one(1))
  ultimately have "\<exists>d'. replace_node sc_claim_id (with_status cs)
      (cs_implementation_status_changes cs) d1 = Inr d'"
    by (simp only: status_loop modify_loop_total)
  with d1 show ?thesis by (simp add: derived_loops_def)
qed

text \<open>The body of the function, in terms of the loop groups.\<close>

lemma apply_unfold:
  "apply_changeset_with_case_effects g cs = Inr g' \<longleftrightarrow>
     cs_baseline_graph_version cs = g_version g \<and> priors_ok g cs \<and>
     (\<exists>ns ns' es.
        node_records.loops (cs_nodes_added cs) (cs_nodes_updated cs) (cs_nodes_superseded cs)
          (dict_of nd_id (g_nodes g)) = Inr ns \<and>
        edge_records.loops (cs_edges_added cs) (cs_edges_updated cs) (cs_edges_superseded cs)
          (dict_of ed_id (g_edges g)) = Inr es \<and>
        derived_loops cs ns = Inr ns' \<and>
        g' = g\<lparr>g_version := g_version g + 1, g_nodes := sorted_values ns',
              g_edges := sorted_values es\<rparr> \<and> graph_ok g')"
  unfolding apply_changeset_with_case_effects_def group_loops_def derived_loops_def
    priors_checks [of g cs "()" "()", symmetric] Let_def
  by (simp add: res_simps validate_graph_Inr_iff del: check_all_Inr_iff) (metis (no_types, lifting))

lemma nodes_valid_records:
  assumes "changeset_ok cs" and "nodes_valid M"
  shows "nodes_valid (records_spec nd_id nu_node_id nu_replacement supersede_node
    (cs_nodes_added cs) (cs_nodes_updated cs) (cs_nodes_superseded cs) M)"
proof -
  have "nodes_valid (M ++ map_of (map (\<lambda>x. (nd_id x, x)) (cs_nodes_added cs)))"
    using assms(2) changeset_okD(12) [OF assms(1)]
    by (auto simp: nodes_valid_def ran_def map_add_Some_iff dest!: map_of_SomeD)
  then show ?thesis
    unfolding records_spec_def
    by (intro nodes_valid_rewrite node_valid_changes)
      (use changeset_okD(13) [OF assms(1)] in auto)
qed

definition graph_nodes_valid :: "graph \<Rightarrow> bool" where
  "graph_nodes_valid g \<longleftrightarrow> list_all node_valid (g_nodes g)"

lemma nodes_valid_lookup: "graph_nodes_valid g \<Longrightarrow> nodes_valid (lookup_node g)"
  unfolding nodes_valid_def lookup_node_def graph_nodes_valid_def list_all_iff
  by (auto simp: ran_def dest!: dict_of_lookup simp del: map_of_eq_Some_iff)

lemma apply_states:
  assumes cs: "changeset_ok cs" and valid: "graph_nodes_valid g"
    and ns: "node_records.loops (cs_nodes_added cs) (cs_nodes_updated cs) (cs_nodes_superseded cs)
          (dict_of nd_id (g_nodes g)) = Inr ns"
    and es: "edge_records.loops (cs_edges_added cs) (cs_edges_updated cs) (cs_edges_superseded cs)
          (dict_of ed_id (g_edges g)) = Inr es"
    and ns': "derived_loops cs ns = Inr ns'"
  shows "groups_ok (lookup_node g) (nd_id ` set (cs_nodes_added cs))
       (nu_node_id ` set (cs_nodes_updated cs)) (set (cs_nodes_superseded cs))"
    and "groups_ok (lookup_edge g) (ed_id ` set (cs_edges_added cs))
       (eu_edge_id ` set (cs_edges_updated cs)) (set (cs_edges_superseded cs))"
    and "g\<lparr>g_version := g_version g + 1, g_nodes := sorted_values ns', g_edges := sorted_values es\<rparr>
       = apply_spec g cs"
proof -
  note D = changeset_okD [OF cs] and M = changeset_okD(9) [OF cs, unfolded mutations_disjoint_def Let_def]
  note n = node_records.loops_Inr [OF ns dict_of_distinct_keys D(2,3)]
  note e = edge_records.loops_Inr [OF es dict_of_distinct_keys D(5,6)]
  have "nodes_valid (map_of ns)"
    using nodes_valid_records [OF cs nodes_valid_lookup [OF valid]] M n(1)
    by (simp add: lookup_node_def)
  note m = derived_loops_Inr [OF cs this _ ns']
  have "sorted_values ns' = listing (nodes_spec cs (lookup_node g))"
    using m n(1,2) M by (simp add: sorted_values_listing nodes_spec_def lookup_node_def)
  moreover have "sorted_values es = listing (edges_spec cs (lookup_edge g))"
    using e(1,2) M by (simp add: sorted_values_listing edges_spec_def lookup_edge_def)
  ultimately show "g\<lparr>g_version := g_version g + 1, g_nodes := sorted_values ns',
      g_edges := sorted_values es\<rparr> = apply_spec g cs" by (simp add: apply_spec_def)
  show "groups_ok (lookup_node g) (nd_id ` set (cs_nodes_added cs))
       (nu_node_id ` set (cs_nodes_updated cs)) (set (cs_nodes_superseded cs))"
    and "groups_ok (lookup_edge g) (ed_id ` set (cs_edges_added cs))
       (eu_edge_id ` set (cs_edges_updated cs)) (set (cs_edges_superseded cs))"
    using n(3) e(3) M by (simp_all add: lookup_node_def lookup_edge_def)
qed

lemma apply_states_exist:
  assumes cs: "changeset_ok cs" and valid: "graph_nodes_valid g" and pre: "applicable g cs"
  shows "\<exists>ns ns' es.
    node_records.loops (cs_nodes_added cs) (cs_nodes_updated cs) (cs_nodes_superseded cs)
      (dict_of nd_id (g_nodes g)) = Inr ns \<and>
    edge_records.loops (cs_edges_added cs) (cs_edges_updated cs) (cs_edges_superseded cs)
      (dict_of ed_id (g_edges g)) = Inr es \<and> derived_loops cs ns = Inr ns'"
proof -
  note D = changeset_okD [OF cs] and M = changeset_okD(9) [OF cs, unfolded mutations_disjoint_def Let_def]
  obtain ns where ns: "node_records.loops (cs_nodes_added cs) (cs_nodes_updated cs)
      (cs_nodes_superseded cs) (dict_of nd_id (g_nodes g)) = Inr ns"
    using node_records.loops_total [OF _ dict_of_distinct_keys D(1,2)] pre
    unfolding applicable_def lookup_node_def by blast
  obtain es where es: "edge_records.loops (cs_edges_added cs) (cs_edges_updated cs)
      (cs_edges_superseded cs) (dict_of ed_id (g_edges g)) = Inr es"
    using edge_records.loops_total [OF _ dict_of_distinct_keys D(4,5)] pre
    unfolding applicable_def lookup_edge_def by blast
  note n = node_records.loops_Inr [OF ns dict_of_distinct_keys D(2,3)]
  have spec: "map_of ns = records_spec nd_id nu_node_id nu_replacement supersede_node
      (cs_nodes_added cs) (cs_nodes_updated cs) (cs_nodes_superseded cs) (lookup_node g)"
    using n(1) M by (simp add: lookup_node_def)
  have valid': "nodes_valid (map_of ns)"
    unfolding spec by (intro nodes_valid_records cs nodes_valid_lookup valid)
  have dom: "dom (lookup_node g) \<subseteq> dom (map_of ns)"
    unfolding spec node_records.dom_records_spec by blast
  have "cc_subject_ref ` set (cs_confidence_changes cs) \<subseteq> dom (lookup_node g)"
    "sc_claim_id ` set (cs_implementation_status_changes cs) \<subseteq> dom (lookup_node g)"
    using pre by (auto simp: applicable_def priors_ok_def)
  then have "\<exists>ns'. derived_loops cs ns = Inr ns'"
    using dom n(2) M by (intro derived_loops_total cs valid') auto
  with ns es show ?thesis by blast
qed

lemma apply_refines:
  assumes "changeset_ok cs" and "graph_nodes_valid g"
  shows "apply_changeset_with_case_effects g cs = Inr g' \<longleftrightarrow> applicable g cs \<and> g' = apply_spec g cs"
proof
  assume "apply_changeset_with_case_effects g cs = Inr g'"
  then show "applicable g cs \<and> g' = apply_spec g cs"
    unfolding apply_unfold applicable_def using apply_states [OF assms] by metis
next
  assume "applicable g cs \<and> g' = apply_spec g cs"
  moreover from this obtain ns ns' es where
    "node_records.loops (cs_nodes_added cs) (cs_nodes_updated cs) (cs_nodes_superseded cs)
      (dict_of nd_id (g_nodes g)) = Inr ns"
    "edge_records.loops (cs_edges_added cs) (cs_edges_updated cs) (cs_edges_superseded cs)
      (dict_of ed_id (g_edges g)) = Inr es" "derived_loops cs ns = Inr ns'"
    using apply_states_exist [OF assms] by blast
  ultimately show "apply_changeset_with_case_effects g cs = Inr g'"
    unfolding apply_unfold applicable_def using apply_states(3) [OF assms] by metis
qed

section \<open>Consequences\<close>

lemma lookup_listing:
  assumes "finite (dom M)" and "keyed_by ident M"
  shows "map_of (dict_of ident (listing M)) = M" and "map ident (listing M) = sorted_list_of_set (dom M)"
proof -
  have id: "ident (the (M k)) = k" if "k \<in> dom M" for k
    using that assms(2) by (auto simp: keyed_by_def)
  show ids: "map ident (listing M) = sorted_list_of_set (dom M)"
    unfolding listing_def map_map using id assms(1) by (intro map_idI) simp
  then have "dict_of ident (listing M) = map (\<lambda>x. (ident x, x)) (listing M)"
    using dict_of_fresh [of ident "listing M"] assms(1) by simp
  also have "\<dots> = map (\<lambda>k. (k, the (M k))) (sorted_list_of_set (dom M))"
    unfolding listing_def using id assms(1) by simp
  finally have "map_of (dict_of ident (listing M)) k = M k" for k
    using assms(1) by (cases "k \<in> dom M") (auto simp: map_of_map_restrict domIff simp del: map_of_eq_Some_iff)
  then show "map_of (dict_of ident (listing M)) = M" by auto
qed

lemma finite_lookup [simp]: "finite (dom (lookup_node g))" "finite (dom (lookup_edge g))"
  by (simp_all add: lookup_node_def lookup_edge_def finite_dom_map_of)

lemma keyed_lookup: "keyed_by nd_id (lookup_node g)" "keyed_by ed_id (lookup_edge g)"
  unfolding keyed_by_def lookup_node_def lookup_edge_def using dict_of_lookup by metis+

lemma dom_nodes_spec: "dom (nodes_spec cs M) = dom M \<union> nd_id ` set (cs_nodes_added cs)"
  by (simp add: nodes_spec_def node_records.dom_records_spec)

lemma dom_edges_spec: "dom (edges_spec cs M) = dom M \<union> ed_id ` set (cs_edges_added cs)"
  by (simp add: edges_spec_def edge_records.dom_records_spec)

lemma keyed_nodes_spec: "changeset_ok cs \<Longrightarrow> keyed_by nd_id M \<Longrightarrow> keyed_by nd_id (nodes_spec cs M)"
  unfolding nodes_spec_def
  by (intro keyed_by_rewrite node_records.keyed_records_spec changeset_okD)
    (simp_all add: with_confidence_def with_status_def)

lemma keyed_edges_spec: "changeset_ok cs \<Longrightarrow> keyed_by ed_id M \<Longrightarrow> keyed_by ed_id (edges_spec cs M)"
  unfolding edges_spec_def by (intro edge_records.keyed_records_spec changeset_okD)

lemma lookup_node_apply:
  "lookup_node (apply_spec g cs) = map_of (dict_of nd_id (listing (nodes_spec cs (lookup_node g))))"
  "lookup_edge (apply_spec g cs) = map_of (dict_of ed_id (listing (edges_spec cs (lookup_edge g))))"
  "g_nodes (apply_spec g cs) = listing (nodes_spec cs (lookup_node g))"
  "g_edges (apply_spec g cs) = listing (edges_spec cs (lookup_edge g))"
proof -
  have "g_nodes (apply_spec g cs) = listing (nodes_spec cs (lookup_node g))"
    and "g_edges (apply_spec g cs) = listing (edges_spec cs (lookup_edge g))"
    by (simp_all add: apply_spec_def)
  then show "lookup_node (apply_spec g cs) =
      map_of (dict_of nd_id (listing (nodes_spec cs (lookup_node g))))"
    and "lookup_edge (apply_spec g cs) =
      map_of (dict_of ed_id (listing (edges_spec cs (lookup_edge g))))"
    and "g_nodes (apply_spec g cs) = listing (nodes_spec cs (lookup_node g))"
    and "g_edges (apply_spec g cs) = listing (edges_spec cs (lookup_edge g))"
    by (simp_all add: lookup_node_def [of "apply_spec g cs"] lookup_edge_def [of "apply_spec g cs"])
qed

lemma apply_spec_lookup:
  assumes "changeset_ok cs"
  shows "lookup_node (apply_spec g cs) = nodes_spec cs (lookup_node g)"
    and "lookup_edge (apply_spec g cs) = edges_spec cs (lookup_edge g)"
    and "map nd_id (g_nodes (apply_spec g cs)) = sorted_list_of_set (dom (nodes_spec cs (lookup_node g)))"
    and "map ed_id (g_edges (apply_spec g cs)) = sorted_list_of_set (dom (edges_spec cs (lookup_edge g)))"
proof -
  note ks = keyed_nodes_spec [OF assms keyed_lookup(1)] keyed_edges_spec [OF assms keyed_lookup(2)]
  show "lookup_node (apply_spec g cs) = nodes_spec cs (lookup_node g)"
    and "map nd_id (g_nodes (apply_spec g cs)) = sorted_list_of_set (dom (nodes_spec cs (lookup_node g)))"
    using lookup_listing [OF _ ks(1), of g]
    by (simp_all add: dom_nodes_spec lookup_node_apply)
  show "lookup_edge (apply_spec g cs) = edges_spec cs (lookup_edge g)"
    and "map ed_id (g_edges (apply_spec g cs)) = sorted_list_of_set (dom (edges_spec cs (lookup_edge g)))"
    using lookup_listing [OF _ ks(2), of g]
    by (simp_all add: dom_edges_spec lookup_node_apply)
qed

lemma graph_nodes_valid_apply:
  assumes "changeset_ok cs" and "graph_nodes_valid g"
  shows "graph_nodes_valid (apply_spec g cs)"
proof -
  have "nodes_valid (nodes_spec cs (lookup_node g))"
    unfolding nodes_spec_def using assms
    by (intro nodes_valid_rewrite nodes_valid_records nodes_valid_lookup node_valid_changes)
      (simp_all add: changeset_okD(14))
  moreover have "finite (dom (nodes_spec cs (lookup_node g)))" by (simp add: dom_nodes_spec)
  ultimately show ?thesis
    by (auto simp: graph_nodes_valid_def apply_spec_def listing_def list_all_iff nodes_valid_def
        intro: ranI)
qed

lemma apply_changeset_Inr_iff:
  "changeset_ok cs \<Longrightarrow> graph_nodes_valid g \<Longrightarrow>
     apply_changeset g cs = Inr g' \<longleftrightarrow>
       cs_reconciliation_cases_created cs = [] \<and> cs_reconciliation_cases_resolved cs = [] \<and>
       applicable g cs \<and> g' = apply_spec g cs"
  by (auto simp: apply_changeset_def apply_refines)

lemma rewrite_spec_frame: "k \<notin> key ` set cs \<Longrightarrow> rewrite_spec key change cs M k = M k"
  by (auto simp: rewrite_spec_def find_Some_iff split: option.split)

lemma map_of_frame: "k \<notin> f ` set xs \<Longrightarrow> map_of (map (\<lambda>x. (f x, x)) xs) k = None"
  by (auto simp: map_of_eq_None_iff)

section \<open>A sample graph and ChangeSet\<close>

definition sample_node :: "string \<Rightarrow> confidence option \<Rightarrow> node" where
  "sample_node i c =
     \<lparr>nd_id = i, nd_type = Builtin REQUIREMENT, nd_label = ''Log in'', nd_status = ''active'',
      nd_created_by = ''ana'', nd_created_at = 10, nd_last_modified_by = ''ana'',
      nd_last_modified_at = 10, nd_source_mode = Some EXPLICIT, nd_intent_fidelity_confidence = c,
      nd_confidence_basis = None, nd_last_reassessed_at = None, nd_implementation_status = None,
      nd_evidence_refs = [''ev-1'']\<rparr>"

definition sample_edge :: "string \<Rightarrow> string \<Rightarrow> string \<Rightarrow> edge" where
  "sample_edge i a b =
     \<lparr>ed_id = i, ed_from_id = a, ed_relation = REFINES, ed_to_id = b, ed_status = ''active'',
      ed_created_by = ''ana'', ed_created_at = 10, ed_last_modified_by = ''ana'',
      ed_last_modified_at = 10, ed_external = False\<rparr>"

definition sample_graph :: graph where
  "sample_graph =
     \<lparr>g_id = ''g'', g_version = 4, g_schema_version = ''0.1.0'', g_name = None, g_purpose = None,
      g_created_at = None, g_source_spec = None, g_nodes = [sample_node ''n2'' (Some (1/2))],
      g_edges = [], g_extensions = [''acme:goal'']\<rparr>"

definition sample_changeset :: changeset where
  "sample_changeset =
     \<lparr>cs_id = ''cs-1'', cs_actor = ''ana'', cs_timestamp = 20, cs_baseline_graph_version = 4,
      cs_evidence_refs = [''ev-2''], cs_nodes_added = [sample_node ''n1'' None],
      cs_nodes_updated = [], cs_nodes_superseded = [],
      cs_edges_added = [sample_edge ''e1'' ''n1'' ''n2''], cs_edges_updated = [],
      cs_edges_superseded = [],
      cs_confidence_changes =
        [\<lparr>cc_change_id = ''c1'', cc_timestamp = 20, cc_actor = ''ana'', cc_subject_ref = ''n2'',
          cc_change_kind = CONFIRM, cc_prior_confidence = 1/2, cc_new_confidence = 3/4,
          cc_evidence_refs = [''ev-2''], cc_reason = ''reviewed''\<rparr>],
      cs_implementation_status_changes =
        [\<lparr>sc_claim_id = ''n2'', sc_prior = UNKNOWN, sc_new = PARTIAL, sc_evidence_refs = [''ev-2'']\<rparr>],
      cs_reconciliation_cases_created = [], cs_reconciliation_cases_resolved = [],
      cs_validation_status = ''valid''\<rparr>"

lemma sample_ok: "changeset_ok sample_changeset" "graph_ok sample_graph"
  "graph_nodes_valid sample_graph"
  by code_simp+

definition sample_result :: graph where
  "sample_result =
     sample_graph\<lparr>g_version := 5,
       g_nodes := [sample_node ''n1'' None,
         (sample_node ''n2'' (Some (3/4)))\<lparr>nd_confidence_basis := Some ''reviewed'',
            nd_last_reassessed_at := Some 20, nd_last_modified_at := 20,
            nd_implementation_status := Some PARTIAL, nd_evidence_refs := [''ev-1'', ''ev-2'']\<rparr>],
       g_edges := [sample_edge ''e1'' ''n1'' ''n2'']\<rparr>"

lemma sample_apply: "apply_changeset sample_graph sample_changeset = Inr sample_result"
  by code_simp

section \<open>Properties\<close>

text \<open>C1: On a constructed ChangeSet and a graph of constructed nodes, \<open>apply_changeset\<close> succeeds exactly
  when the ChangeSet names no reconciliation case, was prepared against the current version, states
  the true prior confidences and statuses, adds only new identities, updates and supersedes only
  known ones, and yields a well-formed graph; and then its result is the graph of the abstract
  specification (a pointwise update of the node and edge maps, listed by identity, version plus
  one).\<close>

theorem apply_changeset_refines:
  assumes "changeset_ok cs" and "graph_nodes_valid g"
  shows "apply_changeset g cs = Inr g' \<longleftrightarrow>
       cs_reconciliation_cases_created cs = [] \<and> cs_reconciliation_cases_resolved cs = [] \<and>
       applicable g cs \<and> g' = apply_spec g cs"
  using assms by (rule apply_changeset_Inr_iff)

theorem apply_changeset_refines_witness:
  "apply_changeset sample_graph sample_changeset = Inr sample_result \<and>
   applicable sample_graph sample_changeset \<and> sample_result = apply_spec sample_graph sample_changeset"
  using apply_changeset_refines [OF sample_ok(1,3), of sample_result] sample_apply by simp

text \<open>C2: A graph that \<open>apply_changeset_with_case_effects\<close> returns satisfies every structural invariant, keeps the
  validity of its nodes, has the next version, and lists nodes and edges strictly by identity.\<close>

theorem apply_changeset_invariant:
  assumes "changeset_ok cs" and "graph_nodes_valid g"
    and "apply_changeset_with_case_effects g cs = Inr g'"
  shows "graph_ok g' \<and> graph_nodes_valid g' \<and> g_version g' = g_version g + 1 \<and>
    sorted_wrt (<) (map nd_id (g_nodes g')) \<and> sorted_wrt (<) (map ed_id (g_edges g'))"
proof -
  from assms have ok: "applicable g cs" and g': "g' = apply_spec g cs" by (simp_all add: apply_refines)
  have "g_version (apply_spec g cs) = g_version g + 1" by (simp add: apply_spec_def)
  with ok show ?thesis
    using graph_nodes_valid_apply [OF assms(1,2)] apply_spec_lookup(3,4) [OF assms(1), of g]
    by (simp add: g' applicable_def)
qed

theorem apply_changeset_invariant_witness:
  "graph_ok sample_result \<and> graph_nodes_valid sample_result \<and> g_version sample_result = 5"
  using apply_changeset_invariant [OF sample_ok(1,3)] sample_apply
  by (simp add: apply_changeset_def sample_changeset_def sample_graph_def split: if_splits)

text \<open>Applying a ChangeSet never loses an identity: afterwards the graph holds exactly the old
  node and edge identities and the added ones, and a record no group addresses is untouched.\<close>

theorem apply_changeset_identities:
  assumes "changeset_ok cs" and "graph_nodes_valid g"
    and "apply_changeset_with_case_effects g cs = Inr g'"
  shows "dom (lookup_node g') = dom (lookup_node g) \<union> nd_id ` set (cs_nodes_added cs) \<and>
    dom (lookup_edge g') = dom (lookup_edge g) \<union> ed_id ` set (cs_edges_added cs) \<and>
    (\<forall>k. k \<notin> (\<Union>p \<in> set (mutation_subjects cs). set (snd p)) \<longrightarrow>
       lookup_node g' k = lookup_node g k \<and> lookup_edge g' k = lookup_edge g k)"
proof -
  from assms have "g' = apply_spec g cs" by (simp add: apply_refines)
  note look = apply_spec_lookup(1,2) [OF assms(1), of g, folded this]
  have "nodes_spec cs M k = M k \<and> edges_spec cs N k = N k"
    if "k \<notin> (\<Union>p \<in> set (mutation_subjects cs). set (snd p))" for k M N
    using that unfolding nodes_spec_def edges_spec_def records_spec_def mutation_subjects_def
    by (simp add: rewrite_spec_frame map_of_frame map_add_def)
  with look show ?thesis by (simp add: dom_nodes_spec dom_edges_spec)
qed

theorem apply_changeset_identities_witness:
  "dom (lookup_node sample_result) = dom (lookup_node sample_graph) \<union> {''n1''}"
  using apply_changeset_identities [OF sample_ok(1,3)] sample_apply
  by (simp add: apply_changeset_def sample_changeset_def sample_node_def split: if_splits)

text \<open>A ChangeSet applies at most once: applied again to its own result it is refused as stale,
  with the versions it expected and found.\<close>

theorem apply_changeset_replay_stale:
  assumes "apply_changeset_with_case_effects g cs = Inr g'"
  shows "apply_changeset_with_case_effects g' cs = Inl (StaleGraphVersion (g_version g) (g_version g + 1))"
proof -
  from assms have "cs_baseline_graph_version cs = g_version g" and "g_version g' = g_version g + 1"
    unfolding apply_unfold by auto
  then show ?thesis by (simp add: apply_changeset_with_case_effects_def)
qed

theorem apply_changeset_replay_stale_witness:
  "apply_changeset_with_case_effects sample_result sample_changeset = Inl (StaleGraphVersion 4 5)"
  using apply_changeset_replay_stale [of sample_graph sample_changeset sample_result] sample_apply
  by (simp add: apply_changeset_def sample_graph_def split: if_splits)

text \<open>The order in which a graph file lists its nodes and edges does not matter: two
  well-formed graphs with the same records give the same result.\<close>

theorem apply_changeset_order_independent:
  assumes "changeset_ok cs" and "graph_ok g" and "graph_nodes_valid g"
    and "mset ns = mset (g_nodes g)" and "mset es = mset (g_edges g)"
  shows "apply_changeset (g\<lparr>g_nodes := ns, g_edges := es\<rparr>) cs = Inr h \<longleftrightarrow> apply_changeset g cs = Inr h"
proof -
  let ?g = "g\<lparr>g_nodes := ns, g_edges := es\<rparr>"
  have sets: "set ns = set (g_nodes g)" "set es = set (g_edges g)"
    using assms(4,5) by (metis set_mset_mset)+
  have "distinct (map nd_id ns)" "distinct (map ed_id es)"
    using assms(2,4,5) by (metis graph_ok_def mset_eq_imp_distinct_iff mset_map)+
  then have look: "lookup_node ?g = lookup_node g" "lookup_edge ?g = lookup_edge g"
    using assms(2) sets unfolding lookup_node_def lookup_edge_def graph_ok_def
    by (auto intro!: dict_of_set_cong)
  have "graph_nodes_valid ?g" using assms(3) by (simp add: graph_nodes_valid_def list_all_iff sets)
  moreover have "apply_spec ?g cs = apply_spec g cs"
    unfolding apply_spec_def look by simp
  moreover have "applicable ?g cs = applicable g cs"
    unfolding applicable_def look priors_ok_def calculation(2) by simp
  ultimately show ?thesis using assms(1,3) by (simp add: apply_changeset_Inr_iff)
qed

theorem apply_changeset_order_independent_witness:
  "apply_changeset (sample_result\<lparr>g_nodes := rev (g_nodes sample_result)\<rparr>)
     (sample_changeset\<lparr>cs_baseline_graph_version := 5, cs_nodes_added := [], cs_edges_added := [],
        cs_confidence_changes := [], cs_implementation_status_changes := []\<rparr>)
   = Inr (sample_result\<lparr>g_version := 6\<rparr>)"
proof -
  let ?cs = "sample_changeset\<lparr>cs_baseline_graph_version := 5, cs_nodes_added := [], cs_edges_added := [],
        cs_confidence_changes := [], cs_implementation_status_changes := []\<rparr>"
  have "changeset_ok ?cs" and "graph_ok sample_result" and "graph_nodes_valid sample_result"
    and "apply_changeset sample_result ?cs = Inr (sample_result\<lparr>g_version := 6\<rparr>)"
    by code_simp+
  then show ?thesis
    using apply_changeset_order_independent [of ?cs sample_result "rev (g_nodes sample_result)"
        "g_edges sample_result" "sample_result\<lparr>g_version := 6\<rparr>"]
    by simp
qed

end
