(* ===== verification/Ledger.thy ===== *)
theory Ledger
  imports Json
begin

text \<open>
  What the JSONL files of the program share: the content of a file that may not exist, durable
  appending, the text of one canonical line, and the interface of an append-only ledger as a locale.
  The case, evidence, history, approval and receipt files are its providers; the executor and the
  services that append several records at once are its clients.
\<close>

definition text_of :: "string option \<Rightarrow> string" where
  "text_of content = (case content of None \<Rightarrow> [] | Some t \<Rightarrow> t)"

text \<open>Appending to a descriptor: the file is created when it does not exist.\<close>

definition append_text :: "string option \<Rightarrow> string \<Rightarrow> string option" where
  "append_text content line = Some ((case content of None \<Rightarrow> [] | Some t \<Rightarrow> t) @ line)"

lemma append_text_append:
  "append_text (append_text content s) t = append_text content (s @ t)"
  by (simp add: append_text_def split: option.split)

lemma text_of_append_text [simp]: "text_of (append_text content s) = text_of content @ s"
  by (simp add: text_of_def append_text_def)

lemma text_of_simps [simp]: "text_of None = []" "text_of (Some t) = t"
  by (simp_all add: text_of_def)

text \<open>\<open>json.dumps(..., ensure_ascii=False, separators=(",", ":"), sort_keys=True) + "\n"\<close>.\<close>

definition json_line :: "json dict \<Rightarrow> string" where
  "json_line kvs = dumps False (JObj kvs) @ [CHR 0x0A]"

lemma json_not_blank: "\<not> is_blank (dumps ea (JObj kvs) @ s)"
proof -
  have "dumps ea (JObj kvs) @ s = CHR ''{'' # tl (dumps ea (JObj kvs)) @ s" by simp
  moreover have "\<not> is_space (CHR ''{'')" by (simp add: is_space_def)
  ultimately show ?thesis
    by (metis is_blank_def list.pred_inject(2))
qed

lemma json_line:
  assumes "one_line (dumps False (JObj kvs))"
  shows "splitlines (json_line kvs) = [dumps False (JObj kvs)]"
    and "splitlines_keep (json_line kvs) = [json_line kvs]"
  using splitlines_line [of "dumps False (JObj kvs)"] assms unfolding json_line_def one_line_def
  by (simp_all only: simp_thms)

lemma json_line_complete [simp]: "complete_lines (json_line kvs)"
  unfolding json_line_def by (rule complete_lines_newline)

lemma json_line_not_blank [simp]: "\<not> is_blank (json_line kvs)"
  unfolding json_line_def by (rule json_not_blank)

section \<open>The interface\<close>

text \<open>\<open>parse\<close> reads the records of a file; \<open>line\<close> is the text of one record; \<open>accepts xs x\<close> says that
  \<open>x\<close> may follow the records \<open>xs\<close>.\<close>

locale append_ledger =
  fixes parse :: "string option \<Rightarrow> 'a list res"
    and line :: "'a \<Rightarrow> string"
    and accepts :: "'a list \<Rightarrow> 'a \<Rightarrow> bool"
  assumes parse_missing: "parse None = Inr []"
    and parse_text: "parse (Some (text_of content)) = parse content"
    and line_complete: "accepts xs x \<Longrightarrow> complete_lines (line x)"
    and parse_append:
      "parse content = Inr xs \<Longrightarrow> complete_lines (text_of content) \<Longrightarrow> accepts xs x \<Longrightarrow>
        parse (append_text content (line x)) = Inr (xs @ [x])"
begin

definition accepts_all :: "'a list \<Rightarrow> 'a list \<Rightarrow> bool" where
  "accepts_all xs ys \<longleftrightarrow> (\<forall>i < length ys. accepts (xs @ take i ys) (ys ! i))"

lemma accepts_all_Cons: "accepts_all xs (y # ys) \<longleftrightarrow> accepts xs y \<and> accepts_all (xs @ [y]) ys"
  unfolding accepts_all_def by (simp add: All_less_Suc2)

lemma parse_append_all:
  assumes "parse content = Inr xs" "complete_lines (text_of content)" "accepts_all xs ys"
  shows "parse (append_text content (concat (map line ys))) = Inr (xs @ ys) \<and>
    complete_lines (text_of content @ concat (map line ys))"
  using assms
proof (induction ys arbitrary: content xs)
  case Nil
  then show ?case
    using parse_text [of content] by (simp add: append_text_def text_of_def)
next
  case (Cons y ys)
  then have y: "accepts xs y" and ys: "accepts_all (xs @ [y]) ys"
    by (auto simp: accepts_all_Cons)
  have "parse (append_text content (line y)) = Inr (xs @ [y])"
    using Cons.prems(1,2) y by (rule parse_append)
  moreover have "complete_lines (text_of (append_text content (line y)))"
    using Cons.prems(2) line_complete [OF y] by simp
  ultimately show ?case
    using Cons.IH [OF _ _ ys] by (fastforce simp: append_text_append)
qed

end

end
