(* ===== verification/History_Store.thy ===== *)
theory History_Store
  imports Ledger Changeset
begin

text \<open>
  The append-only history of applied ChangeSets (\<open>storage/jsonl/history_store.py\<close>). The state is the
  content of the file; every operation rebuilds the index from it. \<open>dump\<close> is
  \<open>model_dump(mode="json", by_alias=True)\<close> and \<open>decode\<close> is \<open>ChangeSet.model_validate_json\<close> on one line;
  both belong to Pydantic.
\<close>

definition serialize_changeset :: "(changeset \<Rightarrow> json dict) \<Rightarrow> changeset \<Rightarrow> string" where
  "serialize_changeset dump cs = json_line (dump cs)"

text \<open>The identities a ChangeSet touches, in the order of \<open>_subjects\<close>.\<close>

definition subjects :: "changeset \<Rightarrow> string list" where
  "subjects cs =
     map nd_id (cs_nodes_added cs) @ map nu_node_id (cs_nodes_updated cs) @ cs_nodes_superseded cs @
     map ed_id (cs_edges_added cs) @ map eu_edge_id (cs_edges_updated cs) @ cs_edges_superseded cs @
     map cc_subject_ref (cs_confidence_changes cs) @
     map sc_claim_id (cs_implementation_status_changes cs) @
     cs_reconciliation_cases_created cs @ cs_reconciliation_cases_resolved cs"

text \<open>The index \<open>_by_subject\<close>. The set of subjects is visited in some order; the order only decides
  where new keys stand in the dictionary.\<close>

type_synonym history_index = "changeset list dict"

definition index_changeset :: "changeset \<Rightarrow> history_index \<Rightarrow> history_index" where
  "index_changeset cs index =
     fold (\<lambda>subject_id d.
         AList.update subject_id ((case map_of d subject_id of None \<Rightarrow> [] | Some l \<Rightarrow> l) @ [cs]) d)
       (fromkeys (subjects cs)) index"

definition wrap_history_error :: "nat \<Rightarrow> exn \<Rightarrow> exn" where
  "wrap_history_error line_number e =
     (case e of
        ValueError _ \<Rightarrow> HistoryStoreError (''invalid history record at line '' @ nat_str line_number)
      | ValidationError _ \<Rightarrow> HistoryStoreError (''invalid history record at line '' @ nat_str line_number)
      | _ \<Rightarrow> e)"

fun rebuild_lines ::
  "(string \<Rightarrow> changeset res) \<Rightarrow> nat \<Rightarrow> string list \<Rightarrow> history_index \<Rightarrow> history_index res" where
  "rebuild_lines decode n [] index = Inr index"
| "rebuild_lines decode n (line # lines) index =
     (if is_blank line then rebuild_lines decode (Suc n) lines index
      else
        (case decode line of
           Inl e \<Rightarrow> Inl (wrap_history_error n e)
         | Inr cs \<Rightarrow> rebuild_lines decode (Suc n) lines (index_changeset cs index)))"

definition rebuild_index :: "(string \<Rightarrow> changeset res) \<Rightarrow> string option \<Rightarrow> history_index res" where
  "rebuild_index decode content =
     (case content of None \<Rightarrow> Inr [] | Some t \<Rightarrow> rebuild_lines decode 1 (splitlines_keep t) [])"

definition append_history ::
  "(changeset \<Rightarrow> json dict) \<Rightarrow> (string \<Rightarrow> changeset res) \<Rightarrow> changeset \<Rightarrow> string option \<Rightarrow>
     (history_index \<times> string option) res" where
  "append_history dump decode cs content =
     res_bind (rebuild_index decode content) (\<lambda>index.
       Inr (index_changeset cs index, append_text content (serialize_changeset dump cs)))"

definition history ::
  "(string \<Rightarrow> changeset res) \<Rightarrow> string option \<Rightarrow> string \<Rightarrow> changeset list res" where
  "history decode content subject_id =
     res_bind (rebuild_index decode content) (\<lambda>index.
       Inr (case map_of index subject_id of None \<Rightarrow> [] | Some l \<Rightarrow> l))"

section \<open>The list of recorded ChangeSets\<close>

fun record_lines :: "(string \<Rightarrow> changeset res) \<Rightarrow> nat \<Rightarrow> string list \<Rightarrow> changeset list res" where
  "record_lines decode n [] = Inr []"
| "record_lines decode n (line # lines) =
     (if is_blank line then record_lines decode (Suc n) lines
      else
        (case decode line of
           Inl e \<Rightarrow> Inl (wrap_history_error n e)
         | Inr cs \<Rightarrow> res_bind (record_lines decode (Suc n) lines) (\<lambda>css. Inr (cs # css))))"

definition records :: "(string \<Rightarrow> changeset res) \<Rightarrow> string option \<Rightarrow> changeset list res" where
  "records decode content = record_lines decode 1 (splitlines_keep (text_of content))"

definition lookup_list :: "'a list dict \<Rightarrow> string \<Rightarrow> 'a list" where
  "lookup_list d k = (case map_of d k of None \<Rightarrow> [] | Some l \<Rightarrow> l)"

lemma fold_index_lookup:
  assumes "distinct ks"
  shows "lookup_list (fold (\<lambda>k d. AList.update k (lookup_list d k @ [x]) d) ks d) s =
    lookup_list d s @ (if s \<in> set ks then [x] else [])"
  using assms
proof (induction ks arbitrary: d)
  case (Cons k ks)
  have "lookup_list (AList.update k (lookup_list d k @ [x]) d) s =
      (if s = k then lookup_list d k @ [x] else lookup_list d s)"
    by (simp add: lookup_list_def)
  then show ?case
    using Cons by auto
qed simp

lemma index_changeset_lookup:
  "lookup_list (index_changeset cs index) s =
     lookup_list index s @ (if s \<in> set (subjects cs) then [cs] else [])"
  unfolding index_changeset_def lookup_list_def [symmetric]
  by (simp add: fold_index_lookup)

lemma rebuild_lines_records:
  "(case rebuild_lines decode n lines index of
      Inl e \<Rightarrow> record_lines decode n lines = Inl e
    | Inr index' \<Rightarrow> \<exists>css. record_lines decode n lines = Inr css \<and>
        (\<forall>s. lookup_list index' s = lookup_list index s @ filter (\<lambda>cs. s \<in> set (subjects cs)) css))"
proof (induction lines arbitrary: n index)
  case (Cons line lines)
  show ?case
  proof (cases "is_blank line")
    case True
    then show ?thesis using Cons [of "Suc n" index] by (auto split: sum.splits)
  next
    case False
    show ?thesis
    proof (cases "decode line")
      case (Inr cs)
      then show ?thesis
        using False Cons [of "Suc n" "index_changeset cs index"]
        by (auto simp: index_changeset_lookup split: sum.splits)
    qed (simp add: False)
  qed
qed simp

lemma history_records:
  "history decode content s =
     res_bind (records decode content) (\<lambda>css. Inr (filter (\<lambda>cs. s \<in> set (subjects cs)) css))"
proof -
  have "rebuild_index decode content = rebuild_lines decode 1 (splitlines_keep (text_of content)) []"
    by (cases content) (simp_all add: rebuild_index_def splitlines_keep.simps)
  then show ?thesis
    using rebuild_lines_records [of decode 1 "splitlines_keep (text_of content)" "[]"]
    by (auto simp: history_def records_def lookup_list_def split: sum.splits)
qed

lemma record_lines_append:
  "record_lines decode n (xs @ ys) =
     res_bind (record_lines decode n xs) (\<lambda>as.
     res_bind (record_lines decode (n + length xs) ys) (\<lambda>bs. Inr (as @ bs)))"
  by (induction xs arbitrary: n) (auto simp: res_bind_def split: sum.splits)

text \<open>What is relied on of Pydantic: the printed line of a ChangeSet reads back as it.\<close>

definition storable_changeset ::
  "(changeset \<Rightarrow> json dict) \<Rightarrow> (string \<Rightarrow> changeset res) \<Rightarrow> changeset \<Rightarrow> bool" where
  "storable_changeset dump decode cs \<longleftrightarrow>
     decode (serialize_changeset dump cs) = Inr cs \<and> one_line (dumps False (JObj (dump cs)))"

interpretation history_file: append_ledger "records decode" "serialize_changeset dump"
  "\<lambda>_. storable_changeset dump decode" for dump decode
proof
  show "records decode None = Inr []"
    by (simp add: records_def splitlines_keep.simps)
  show "records decode (Some (text_of content)) = records decode content" for content
    by (simp add: records_def)
  show "complete_lines (serialize_changeset dump x)" for x
    by (simp add: serialize_changeset_def)
  fix content css cs
  assume css: "records decode content = Inr css" and complete: "complete_lines (text_of content)"
    and cs: "storable_changeset dump decode cs"
  then have "splitlines_keep (serialize_changeset dump cs) = [serialize_changeset dump cs]"
    by (simp add: storable_changeset_def serialize_changeset_def json_line(2))
  moreover have "record_lines decode n [serialize_changeset dump cs] = Inr [cs]" for n
    using cs by (simp add: storable_changeset_def) (simp add: serialize_changeset_def)
  ultimately show "records decode (append_text content (serialize_changeset dump cs)) = Inr (css @ [cs])"
    using css by (simp add: records_def splitlines_keep_append [OF complete] record_lines_append)
qed

text \<open>Recording a ChangeSet extends the history of exactly the subjects it touches: the histories of
  all other subjects are what they were, and no earlier entry is changed.\<close>

theorem append_history_subjects:
  assumes "append_history dump decode cs content = Inr (index, content')"
    and "complete_lines (text_of content)" and "storable_changeset dump decode cs"
  shows "\<exists>old. history decode content s = Inr old \<and>
    history decode content' s = Inr (old @ (if s \<in> set (subjects cs) then [cs] else []))"
proof -
  have content': "content' = append_text content (serialize_changeset dump cs)"
    and "\<exists>old. history decode content s = Inr old"
    using assms(1) by (auto simp: append_history_def history_def res_bind_Inr_iff)
  then obtain css where css: "records decode content = Inr css"
    by (auto simp: history_records res_bind_Inr_iff)
  have "records decode content' = Inr (css @ [cs])"
    unfolding content' using history_file.parse_append [OF css assms(2,3)] .
  then show ?thesis
    using css by (simp add: history_records)
qed

text \<open>A minimal codec: every ChangeSet prints as an object with its identity.\<close>

definition resolving_changeset :: changeset where
  "resolving_changeset =
     \<lparr>cs_id = ''cs1'', cs_actor = ''ada'', cs_timestamp = 1, cs_baseline_graph_version = 0,
      cs_evidence_refs = [''e1''], cs_nodes_added = [], cs_nodes_updated = [], cs_nodes_superseded = [],
      cs_edges_added = [], cs_edges_updated = [], cs_edges_superseded = [], cs_confidence_changes = [],
      cs_implementation_status_changes = [], cs_reconciliation_cases_created = [],
      cs_reconciliation_cases_resolved = [''case1''], cs_validation_status = ''validated''\<rparr>"

definition sample_cs_dump :: "changeset \<Rightarrow> json dict" where
  "sample_cs_dump cs = [(''id'', JStr (cs_id cs))]"

definition sample_cs_decode :: "string \<Rightarrow> changeset res" where
  "sample_cs_decode line =
     (if line = serialize_changeset sample_cs_dump resolving_changeset then Inr resolving_changeset
      else Inl (ValidationError ''ChangeSet''))"

theorem append_history_subjects_witness:
  "\<exists>old. history sample_cs_decode None ''case1'' = Inr old \<and>
     history sample_cs_decode (append_text None (serialize_changeset sample_cs_dump resolving_changeset)) ''case1'' =
       Inr (old @ (if ''case1'' \<in> set (subjects resolving_changeset) then [resolving_changeset] else []))"
proof (rule append_history_subjects)
  show "append_history sample_cs_dump sample_cs_decode resolving_changeset None =
      Inr ([(''case1'', [resolving_changeset])],
        append_text None (serialize_changeset sample_cs_dump resolving_changeset))"
    by code_simp
  show "complete_lines (text_of None)" by simp
  show "storable_changeset sample_cs_dump sample_cs_decode resolving_changeset" by code_simp
qed

end
