(* ===== verification/Base64.thy ===== *)
theory Base64
  imports Prelude
begin

text \<open>
  \<open>base64.b64encode\<close> and \<open>base64.b64decode(..., validate=True)\<close> on byte strings, which the journal of
  local transactions uses for its preimages. A byte string is a string of characters below 256.
\<close>

definition alphabet :: string where
  "alphabet = ''ABCDEFGHIJKLMNOPQRSTUVWXYZabcdefghijklmnopqrstuvwxyz0123456789+/''"

definition sextet_char :: "nat \<Rightarrow> char" where
  "sextet_char n = alphabet ! n"

text \<open>The value of an alphabet character: its position.\<close>

definition char_sextet :: "char \<Rightarrow> nat option" where
  "char_sextet c = map_of (zip alphabet [0..<64]) c"

fun b64encode :: "string \<Rightarrow> string" where
  "b64encode (x # y # z # rest) =
     (let a = of_char x; b = of_char y; c = of_char z in
      sextet_char (a div 4) # sextet_char (a mod 4 * 16 + b div 16) #
      sextet_char (b mod 16 * 4 + c div 64) # sextet_char (c mod 64) # b64encode rest)"
| "b64encode [x, y] =
     (let a = of_char x; b = of_char y in
      [sextet_char (a div 4), sextet_char (a mod 4 * 16 + b div 16), sextet_char (b mod 16 * 4),
       CHR ''='' ])"
| "b64encode [x] =
     (let a = of_char x in
      [sextet_char (a div 4), sextet_char (a mod 4 * 16), CHR ''='', CHR ''='' ])"
| "b64encode [] = []"

text \<open>Four characters at a time; padding only at the end. Bits left over are dropped, as in the
  library, which is why the journal compares the encoding again.\<close>

fun b64decode :: "string \<Rightarrow> string option" where
  "b64decode [] = Some []"
| "b64decode (p # q # r # s # rest) =
     (if r = CHR ''='' \<and> s = CHR ''='' \<and> rest = [] then
        (case (char_sextet p, char_sextet q) of
           (Some i, Some j) \<Rightarrow> Some [char_of (i * 4 + j div 16)]
         | _ \<Rightarrow> None)
      else if s = CHR ''='' \<and> rest = [] then
        (case (char_sextet p, char_sextet q, char_sextet r) of
           (Some i, Some j, Some k) \<Rightarrow>
             Some [char_of (i * 4 + j div 16), char_of (j mod 16 * 16 + k div 4)]
         | _ \<Rightarrow> None)
      else
        (case (char_sextet p, char_sextet q, char_sextet r, char_sextet s, b64decode rest) of
           (Some i, Some j, Some k, Some l, Some out) \<Rightarrow>
             Some (char_of (i * 4 + j div 16) # char_of (j mod 16 * 16 + k div 4) #
               char_of (k mod 4 * 64 + l) # out)
         | _ \<Rightarrow> None))"
| "b64decode _ = None"

lemma sextets:
  assumes "n < 64"
  shows "char_sextet (sextet_char n) = Some n" and "sextet_char n \<noteq> CHR ''=''"
proof -
  have "list_all (\<lambda>n. char_sextet (sextet_char n) = Some n \<and> sextet_char n \<noteq> CHR ''='') [0..<64]"
    by code_simp
  moreover have "n \<in> set [0..<64]" using assms by simp
  ultimately show "char_sextet (sextet_char n) = Some n" and "sextet_char n \<noteq> CHR ''=''"
    unfolding list_all_iff by blast+
qed

lemma of_char_byte: "(of_char c :: nat) < 256"
  by (metis of_char_mod_256 mod_less_divisor zero_less_numeral)

lemma digits:
  fixes x y k :: nat
  assumes "y < k"
  shows "(x * k + y) div k = x" and "(x * k + y) mod k = y"
  using assms by simp_all

lemma byte_bounds:
  fixes a b :: nat
  assumes "a < 256" and "b < 256"
  shows "a div 4 < 64" and "a mod 4 * 16 + b div 16 < 64" and "a mod 4 * 16 < 64"
    and "a mod 16 * 4 + b div 64 < 64" and "a mod 16 * 4 < 64"
    and "b div 16 < 16" and "b div 64 < 4"
proof -
  show "a div 4 < 64" "b div 16 < 16" "b div 64 < 4" using assms by (simp_all add: less_mult_imp_div_less)
  moreover have "a mod 4 < 4" "a mod 16 < 16" by simp_all
  ultimately show "a mod 4 * 16 + b div 16 < 64" "a mod 4 * 16 < 64" "a mod 16 * 4 + b div 64 < 64"
    "a mod 16 * 4 < 64" by linarith+
qed

lemma char_split:
  "char_of (of_char x div 4 * 4 + of_char x mod (4 :: nat)) = x"
  "char_of (of_char x div 16 * 16 + of_char x mod (16 :: nat)) = x"
  "char_of (of_char x div 64 * 64 + of_char x mod (64 :: nat)) = x"
  by (simp_all only: div_mult_mod_eq char_of_char)

theorem b64decode_encode: "b64decode (b64encode s) = Some s"
proof (induction s rule: b64encode.induct)
  case (1 x y z rest)
  note b = byte_bounds [OF of_char_byte [of x] of_char_byte [of y]]
    byte_bounds [OF of_char_byte [of y] of_char_byte [of z]]
  have "(of_char z :: nat) mod 64 < 64" by simp
  then show ?case using b 1
    by (simp add: Let_def sextets digits char_split del: div_mult_mod_eq)
next
  case (2 x y)
  note b = byte_bounds [OF of_char_byte [of x] of_char_byte [of y]]
    byte_bounds [OF of_char_byte [of y] of_char_byte [of y]]
  then show ?case by (simp add: Let_def sextets digits char_split del: div_mult_mod_eq)
next
  case (3 x)
  note b = byte_bounds [OF of_char_byte [of x] of_char_byte [of x]]
  then show ?case by (simp add: Let_def sextets digits char_split del: div_mult_mod_eq)
qed simp

end
