(* ===== verification/Transaction.thy ===== *)
theory Transaction
  imports Base64 Digest Reconciliation
begin

text \<open>
  Crash-consistent local transactions (\<open>storage/transaction.py\<close>). The disk is the content of the
  target files and the journal. The functions model what the coordinator does when nothing
  interrupts it; the step relation \<open>txn_step\<close> splits it at every disk operation, so that a crash may
  fall between any two of them, and recovery may itself crash and run again. The JSON text of the
  journal is not repeated here (\<open>Json\<close> has the round trip of canonical text): the disk holds the
  journal's record, with its base64 contents and digests as the code checks them. Nested scopes of
  one thread are not modelled.
\<close>

type_synonym files = "string \<Rightarrow> string option"

section \<open>Read policies\<close>

text \<open>The pattern \<open>^[a-z][a-z0-9_]*$\<close>.\<close>

definition target_name :: "string \<Rightarrow> bool" where
  "target_name s =
     (case s of
        [] \<Rightarrow> False
      | c # cs \<Rightarrow>
          c \<in> set ''abcdefghijklmnopqrstuvwxyz'' \<and>
          list_all (\<lambda>c. c \<in> set ''abcdefghijklmnopqrstuvwxyz0123456789_'') cs)"

record read_policy =
  rp_max_bytes :: int
  rp_nonblocking_regular :: bool
  rp_aggregate_group :: "string option"
  rp_max_aggregate_bytes :: "int option"

definition validate_read_policy :: "read_policy \<Rightarrow> read_policy res" where
  "validate_read_policy p =
     (if rp_max_bytes p < 0 \<or> \<not> rp_nonblocking_regular p
        \<or> (rp_aggregate_group p = None) \<noteq> (rp_max_aggregate_bytes p = None)
        \<or> (case rp_aggregate_group p of None \<Rightarrow> False | Some g \<Rightarrow> \<not> target_name g)
        \<or> (case rp_max_aggregate_bytes p of None \<Rightarrow> False | Some m \<Rightarrow> m < 0)
      then Inl (ValueError ''invalid local transaction extra read policy'') else Inr p)"

definition note_limit :: "string \<times> read_policy \<Rightarrow> int dict \<Rightarrow> int dict res" where
  "note_limit np limits =
     (case (rp_aggregate_group (snd np), rp_max_aggregate_bytes (snd np)) of
        (Some g, Some limit) \<Rightarrow>
          (case map_of limits g of
             None \<Rightarrow> Inr (limits @ [(g, limit)])
           | Some existing \<Rightarrow>
               if existing \<noteq> limit
               then Inl (ValueError ''inconsistent local transaction aggregate read policy'')
               else Inr limits)
      | _ \<Rightarrow> Inr limits)"

definition extra_read_policies ::
  "string list \<Rightarrow> read_policy dict \<Rightarrow> read_policy dict res" where
  "extra_read_policies extras policies =
     (if \<not> list_all (\<lambda>(name, _). name \<in> set extras) policies
      then Inl (ValueError ''invalid local transaction extra read policies'')
      else res_bind
        (fold_res note_limit policies [])
        (\<lambda>_. Inr policies))"

text \<open>The read budget of one lock scope: the size last retained for every extra and the total per
  aggregate group.\<close>

record read_budget =
  rb_sizes :: "int dict"
  rb_totals :: "int dict"

definition dict_int :: "int dict \<Rightarrow> string \<Rightarrow> int" where
  "dict_int d k = (case map_of d k of None \<Rightarrow> 0 | Some v \<Rightarrow> v)"

definition nonblocking_read :: "string option \<Rightarrow> int \<Rightarrow> string option res" where
  "nonblocking_read content max_bytes =
     (case content of
        None \<Rightarrow> Inr None
      | Some c \<Rightarrow> if int (length c) > max_bytes then Inl UnsafePathError else Inr (Some c))"

definition content_size :: "string option \<Rightarrow> int" where
  "content_size content = (case content of None \<Rightarrow> 0 | Some c \<Rightarrow> int (length c))"

definition budget_read ::
  "read_policy dict \<Rightarrow> string \<Rightarrow> string option \<Rightarrow> read_budget \<Rightarrow> (string option \<times> read_budget) res" where
  "budget_read policies name file b =
     (case map_of policies name of
        None \<Rightarrow> Inr (file, b)
      | Some policy \<Rightarrow>
          let previous = dict_int (rb_sizes b) name in
          (case rp_aggregate_group policy of
             None \<Rightarrow>
               res_bind (nonblocking_read file (rp_max_bytes policy)) (\<lambda>content.
                 Inr (content, b\<lparr>rb_sizes := AList.update name
                   (content_size content) (rb_sizes b)\<rparr>))
           | Some grp \<Rightarrow>
               (case rp_max_aggregate_bytes policy of
                  None \<Rightarrow> Inl (ValueError ''invalid local transaction extra read policy'')
                | Some limit \<Rightarrow>
                    let retained = dict_int (rb_totals b) grp - previous;
                        max_bytes = min (rp_max_bytes policy) (limit - retained) in
                    if max_bytes < 0 then Inl UnsafePathError
                    else res_bind (nonblocking_read file max_bytes) (\<lambda>content.
                      let current = content_size content;
                          next_total = dict_int (rb_totals b) grp - previous + current in
                      if next_total > limit then Inl UnsafePathError
                      else Inr (content,
                        b\<lparr>rb_sizes := AList.update name current (rb_sizes b),
                          rb_totals := AList.update grp next_total (rb_totals b)\<rparr>)))))"

text \<open>\<open>_read_files\<close>: every file in the order of its symbolic name.\<close>

definition read_files ::
  "read_policy dict \<Rightarrow> string option dict \<Rightarrow> read_budget \<Rightarrow> (string option dict \<times> read_budget) res" where
  "read_files policies files b =
     fold_res (\<lambda>(name, file) (content, b).
         res_bind (budget_read policies name file b) (\<lambda>(value, b). Inr (content @ [(name, value)], b)))
       (sort_key fst files) ([], b)"

section \<open>The journal\<close>

record preimage =
  pi_target :: string
  pi_existed :: bool
  pi_content :: "string option"
  pi_digest :: string

datatype journal_state = Prepared | Committed

record journal =
  jn_state :: journal_state
  jn_transaction_id :: string
  jn_preimages :: "preimage list"

record disk =
  dk_files :: files
  dk_journal :: "journal option"

definition content_digest :: "string \<Rightarrow> string" where
  "content_digest content = ''sha256:'' @ concat (map hex_word (sha256 (map of_char content)))"

definition preimage_valid :: "preimage \<Rightarrow> bool" where
  "preimage_valid p \<longleftrightarrow>
     target_name (pi_target p) \<and> (pi_existed p \<longleftrightarrow> pi_content p \<noteq> None) \<and>
     starts_with ''sha256:'' (pi_digest p) \<and> hex64 (drop 7 (pi_digest p))"

definition journal_valid :: "journal \<Rightarrow> bool" where
  "journal_valid j \<longleftrightarrow> hex64 (jn_transaction_id j) \<and> list_all preimage_valid (jn_preimages j)"

definition take_snapshot :: "string list \<Rightarrow> files \<Rightarrow> (string \<times> string option) list" where
  "take_snapshot targets f = map (\<lambda>name. (name, f name)) (sort targets)"

definition preimage_of :: "string \<times> string option \<Rightarrow> preimage" where
  "preimage_of p =
     \<lparr>pi_target = fst p, pi_existed = (snd p \<noteq> None), pi_content = map_option b64encode (snd p),
      pi_digest = content_digest (case snd p of None \<Rightarrow> [] | Some c \<Rightarrow> c)\<rparr>"

definition journal_for :: "(string \<times> string option) list \<Rightarrow> journal_state \<Rightarrow> string \<Rightarrow> journal" where
  "journal_for preimages state transaction_id =
     \<lparr>jn_state = state, jn_transaction_id = transaction_id,
      jn_preimages = map preimage_of (sort_key fst preimages)\<rparr>"

text \<open>The checks of \<open>_read_journal\<close> on one preimage: strict, canonical base64 and the digest.\<close>

definition decode_preimage :: "preimage \<Rightarrow> (string \<times> string option) res" where
  "decode_preimage p =
     (case pi_content p of
        None \<Rightarrow> if content_digest [] \<noteq> pi_digest p then Inl (ValueError ''preimage digest mismatch'')
                else Inr (pi_target p, None)
      | Some text \<Rightarrow>
          (case b64decode text of
             None \<Rightarrow> Inl (ValueError ''invalid base64'')
           | Some decoded \<Rightarrow>
               if b64encode decoded \<noteq> text then Inl (ValueError ''noncanonical base64'')
               else if content_digest decoded \<noteq> pi_digest p
               then Inl (ValueError ''preimage digest mismatch'')
               else Inr (pi_target p, Some decoded)))"

definition read_journal ::
  "string list \<Rightarrow> string list list \<Rightarrow> journal option \<Rightarrow>
     (journal \<times> (string \<times> string option) list) option res" where
  "read_journal targets legacy_sets stored =
     (case stored of
        None \<Rightarrow> Inr None
      | Some j \<Rightarrow>
          let names = map pi_target (jn_preimages j) in
          if \<not> journal_valid j then Inl TransactionRecoveryError
          else if \<not> distinct names \<or>
            (set names \<noteq> set targets \<and> \<not> list_ex (\<lambda>legacy. set names = set legacy) legacy_sets)
          then Inl TransactionRecoveryError
          else
            (case fold_res (\<lambda>p acc. res_bind (decode_preimage p) (\<lambda>d. Inr (acc @ [d])))
                    (jn_preimages j) [] of
               Inl _ \<Rightarrow> Inl TransactionRecoveryError
             | Inr preimages \<Rightarrow> Inr (Some (j, preimages))))"

section \<open>Coordinator operations\<close>

definition restore_one :: "string \<times> string option \<Rightarrow> files \<Rightarrow> files" where
  "restore_one p f = f(fst p := snd p)"

definition restore :: "(string \<times> string option) list \<Rightarrow> files \<Rightarrow> files" where
  "restore preimages f = fold restore_one (sort_key fst preimages) f"

definition recover :: "string list \<Rightarrow> string list list \<Rightarrow> disk \<Rightarrow> (bool \<times> disk) res" where
  "recover targets legacy_sets d =
     (case read_journal targets legacy_sets (dk_journal d) of
        Inl e \<Rightarrow> Inl e
      | Inr None \<Rightarrow> Inr (False, d)
      | Inr (Some (j, preimages)) \<Rightarrow>
          Inr (True,
            \<lparr>dk_files = (if jn_state j = Prepared then restore preimages (dk_files d) else dk_files d),
             dk_journal = None\<rparr>))"

text \<open>\<open>transaction()\<close> around a body: the body returns the files it leaves and its outcome. A raised
  exception restores the preimages and is raised again.\<close>

definition transaction ::
  "string list \<Rightarrow> string list list \<Rightarrow> string \<Rightarrow> (files \<Rightarrow> files \<times> 'a res) \<Rightarrow> disk \<Rightarrow> disk \<times> 'a res" where
  "transaction targets legacy_sets transaction_id body d =
     (case recover targets legacy_sets d of
        Inl e \<Rightarrow> (d, Inl e)
      | Inr (_, d) \<Rightarrow>
          let preimages = take_snapshot targets (dk_files d) in
          (case body (dk_files d) of
             (f, Inl e) \<Rightarrow> (\<lparr>dk_files = restore preimages f, dk_journal = None\<rparr>, Inl e)
           | (f, Inr x) \<Rightarrow> (\<lparr>dk_files = f, dk_journal = None\<rparr>, Inr x)))"

definition snapshot ::
  "string list \<Rightarrow> string list list \<Rightarrow> disk \<Rightarrow> ((string \<times> string option) list \<times> bool \<times> disk) res" where
  "snapshot targets legacy_sets d =
     res_bind (recover targets legacy_sets d) (\<lambda>(recovered, d).
       Inr (take_snapshot targets (dk_files d), recovered, d))"

section \<open>Steps\<close>

text \<open>Where a coordinator stands in \<open>transaction()\<close> and in recovery, with the preimages it holds in
  memory. The state also carries the files the commit mark made durable, \<open>None\<close> before it: no code
  reads this component, it only says what a caller may rely on. Appends may be torn, so the appended
  part is arbitrary. The flag \<open>late\<close> admits an exception after the commit mark (a failing unlink of the
  journal, or the fault hook).\<close>

datatype stage =
    Body "(string \<times> string option) list"
  | Marked "(string \<times> string option) list"
  | Restoring "(string \<times> string option) list"
  | Unlinking
  | Finished
  | Crashed

type_synonym txn_state = "disk \<times> files option \<times> stage"

inductive txn_step ::
  "bool \<Rightarrow> string list \<Rightarrow> string list list \<Rightarrow> txn_state \<Rightarrow> txn_state \<Rightarrow> bool"
  for late targets legacy_sets where
  write_target: "name \<in> set targets \<Longrightarrow>
    txn_step late targets legacy_sets (\<lparr>dk_files = f, dk_journal = j\<rparr>, g, Body pre)
      (\<lparr>dk_files = f(name \<mapsto> content), dk_journal = j\<rparr>, g, Body pre)"
| append_target: "name \<in> set targets \<Longrightarrow>
    txn_step late targets legacy_sets (\<lparr>dk_files = f, dk_journal = j\<rparr>, g, Body pre)
      (\<lparr>dk_files = f(name \<mapsto> (case f name of None \<Rightarrow> [] | Some c \<Rightarrow> c) @ part), dk_journal = j\<rparr>,
       g, Body pre)"
| commit: "txn_step late targets legacy_sets (\<lparr>dk_files = f, dk_journal = Some j\<rparr>, g, Body pre)
      (\<lparr>dk_files = f, dk_journal = Some (j\<lparr>jn_state := Committed\<rparr>)\<rparr>, Some f, Marked pre)"
| finish: "txn_step late targets legacy_sets (\<lparr>dk_files = f, dk_journal = j\<rparr>, g, Marked pre)
      (\<lparr>dk_files = f, dk_journal = None\<rparr>, g, Finished)"
| raise: "txn_step late targets legacy_sets (d, g, Body pre) (d, g, Restoring (sort_key fst pre))"
| raise_marked: "late \<Longrightarrow>
    txn_step late targets legacy_sets (d, g, Marked pre) (d, g, Restoring (sort_key fst pre))"
| restore: "txn_step late targets legacy_sets
      (\<lparr>dk_files = f, dk_journal = j\<rparr>, g, Restoring (p # ps))
      (\<lparr>dk_files = restore_one p f, dk_journal = j\<rparr>, g, Restoring ps)"
| restored: "txn_step late targets legacy_sets (d, g, Restoring []) (d, g, Unlinking)"
| unlink: "txn_step late targets legacy_sets (\<lparr>dk_files = f, dk_journal = j\<rparr>, g, Unlinking)
      (\<lparr>dk_files = f, dk_journal = None\<rparr>, g, Finished)"
| crash: "txn_step late targets legacy_sets (d, g, s) (d, g, Crashed)"
| recover_prepared:
    "read_journal targets legacy_sets (dk_journal d) = Inr (Some (j, pre)) \<Longrightarrow>
     jn_state j = Prepared \<Longrightarrow>
     txn_step late targets legacy_sets (d, g, Crashed) (d, g, Restoring (sort_key fst pre))"
| recover_committed:
    "read_journal targets legacy_sets (dk_journal d) = Inr (Some (j, pre)) \<Longrightarrow>
     jn_state j = Committed \<Longrightarrow>
     txn_step late targets legacy_sets (d, g, Crashed) (d, g, Unlinking)"
| recover_none:
    "read_journal targets legacy_sets (dk_journal d) = Inr None \<Longrightarrow>
     txn_step late targets legacy_sets (d, g, Crashed) (d, g, Finished)"

inductive_cases txn_stepE: "txn_step late targets legacy_sets s s'"

text \<open>The state in which the body starts: the journal is durable and no target has changed.\<close>

definition started :: "string list \<Rightarrow> files \<Rightarrow> string \<Rightarrow> txn_state" where
  "started targets f transaction_id =
     (\<lparr>dk_files = f, dk_journal = Some (journal_for (take_snapshot targets f) Prepared transaction_id)\<rparr>,
      None, Body (take_snapshot targets f))"

section \<open>The journal reads back\<close>

lemma hex_char_digit: "k < 16 \<Longrightarrow> hex_char (hex_digit k)"
proof -
  have "\<forall>k < 16. hex_char (hex_digit k)" by code_simp
  then show "k < 16 \<Longrightarrow> hex_char (hex_digit k)" by simp
qed

lemma hex64_digest: "hex64 (drop 7 (content_digest c))"
proof -
  have "list_all hex_char (hex_word w)" for w
    by (simp add: hex_word_def hex_byte_def hex_char_digit less_mult_imp_div_less)
  then have "list_all hex_char (concat (map hex_word ws))" for ws
    by (induction ws) simp_all
  moreover have "length (concat (map hex_word ws)) = 8 * length ws" for ws
    by (induction ws) (simp_all add: hex_word_def hex_byte_def)
  ultimately show ?thesis
    by (simp add: content_digest_def hex64_def)
qed

lemma starts_with_digest: "starts_with ''sha256:'' (content_digest c)"
  by (simp add: content_digest_def starts_with_def)

definition targets_ok :: "string list \<Rightarrow> bool" where
  "targets_ok targets \<longleftrightarrow> targets \<noteq> [] \<and> distinct targets \<and> list_all target_name targets"

lemma snapshot_sorted [simp]:
  "sort_key fst (take_snapshot targets f) = take_snapshot targets f"
  by (simp add: take_snapshot_def sort_key_id_if_sorted comp_def)

lemma journal_for_valid:
  assumes "targets_ok targets" "hex64 t"
  shows "journal_valid (journal_for (take_snapshot targets f) st t)"
  using assms
  by (auto simp: journal_valid_def journal_for_def preimage_valid_def preimage_of_def list_all_iff hex64_digest
      targets_ok_def take_snapshot_def starts_with_digest)

lemma decode_encoded [simp]: "decode_preimage (preimage_of p) = Inr p"
  by (cases p; cases "snd p") (simp_all add: decode_preimage_def preimage_of_def b64decode_encode)

lemma decode_all:
  "fold_res (\<lambda>p acc. res_bind (decode_preimage p) (\<lambda>d. Inr (acc @ [d]))) (map preimage_of ps) acc =
    Inr (acc @ ps)"
  by (induction ps arbitrary: acc) simp_all

lemma pi_targets: "map pi_target (jn_preimages (journal_for (take_snapshot targets f) st t)) = sort targets"
  by (simp add: journal_for_def) (simp add: take_snapshot_def comp_def preimage_of_def)

lemma read_journal_for:
  assumes "targets_ok targets" "hex64 t"
  shows "read_journal targets legacy_sets (Some (journal_for (take_snapshot targets f) st t)) =
    Inr (Some (journal_for (take_snapshot targets f) st t, take_snapshot targets f))"
proof -
  have "fold_res (\<lambda>p acc. res_bind (decode_preimage p) (\<lambda>d. Inr (acc @ [d])))
      (jn_preimages (journal_for (take_snapshot targets f) st t)) [] = Inr (take_snapshot targets f)"
    by (simp add: journal_for_def decode_all)
  then show ?thesis
    using assms journal_for_valid [OF assms] by (simp add: read_journal_def pi_targets targets_ok_def)
qed

lemma read_journal_None [simp]: "read_journal targets legacy_sets None = Inr None"
  by (simp add: read_journal_def)

section \<open>Restoring\<close>

lemma fold_restore_other: "name \<notin> fst ` set ps \<Longrightarrow> fold restore_one ps f name = f name"
  by (induction ps arbitrary: f) (auto simp: restore_one_def)

lemma restore_snapshot:
  assumes "\<forall>name. name \<notin> set targets \<longrightarrow> f name = f0 name"
  shows "restore (take_snapshot targets f0) f = f0"
proof -
  have "fold restore_one (map (\<lambda>name. (name, f0 name)) ns) f name =
      (if name \<in> set ns then f0 name else f name)" for ns f name
    by (induction ns arbitrary: f) (auto simp: restore_one_def)
  then show ?thesis
    using assms by (auto simp: restore_def fun_eq_iff) (auto simp: take_snapshot_def)
qed

section \<open>Crash atomicity\<close>

text \<open>What holds at every disk operation. \<open>out f f0\<close>: only targets differ.\<close>

definition differs_in :: "string set \<Rightarrow> files \<Rightarrow> files \<Rightarrow> bool" where
  "differs_in S f f0 \<longleftrightarrow> (\<forall>name. name \<notin> S \<longrightarrow> f name = f0 name)"

definition prepared :: "string list \<Rightarrow> string \<Rightarrow> files \<Rightarrow> disk \<Rightarrow> bool" where
  "prepared targets t f0 d \<longleftrightarrow>
     dk_journal d = Some (journal_for (take_snapshot targets f0) Prepared t) \<and>
     differs_in (set targets) (dk_files d) f0"

definition committed :: "string list \<Rightarrow> string \<Rightarrow> files \<Rightarrow> files option \<Rightarrow> disk \<Rightarrow> bool" where
  "committed targets t f0 g d \<longleftrightarrow>
     dk_journal d = Some (journal_for (take_snapshot targets f0) Committed t) \<and> g = Some (dk_files d)"

definition settled :: "files \<Rightarrow> files option \<Rightarrow> disk \<Rightarrow> bool" where
  "settled f0 g d \<longleftrightarrow>
     dk_journal d = None \<and> dk_files d = (case g of None \<Rightarrow> f0 | Some f \<Rightarrow> f)"

definition txn_inv :: "string list \<Rightarrow> string \<Rightarrow> files \<Rightarrow> txn_state \<Rightarrow> bool" where
  "txn_inv targets t f0 s =
     (case s of (d, g, st) \<Rightarrow>
       (case st of
          Body pre \<Rightarrow> g = None \<and> pre = take_snapshot targets f0 \<and> prepared targets t f0 d
        | Marked pre \<Rightarrow> committed targets t f0 g d
        | Restoring ps \<Rightarrow> g = None \<and> prepared targets t f0 d \<and>
            (\<forall>p \<in> set ps. snd p = f0 (fst p) \<and> fst p \<in> set targets) \<and>
            differs_in (fst ` set ps) (dk_files d) f0
        | Unlinking \<Rightarrow> (g = None \<and> prepared targets t f0 d \<and> dk_files d = f0) \<or> committed targets t f0 g d
        | Finished \<Rightarrow> settled f0 g d
        | Crashed \<Rightarrow> (g = None \<and> prepared targets t f0 d) \<or> committed targets t f0 g d \<or> settled f0 g d))"

lemma journal_commit:
  "(journal_for pre st t)\<lparr>jn_state := Committed\<rparr> = journal_for pre Committed t"
  by (simp add: journal_for_def)

lemma jn_state_journal_for [simp]: "jn_state (journal_for pre st t) = st"
  by (simp add: journal_for_def)

lemma differs_in_upd: "name \<in> S \<Longrightarrow> differs_in S f f0 \<Longrightarrow> differs_in S (f(name := v)) f0"
  by (simp add: differs_in_def)

lemma snapshot_entries:
  "(name, c) \<in> set (take_snapshot targets f) \<Longrightarrow> c = f name \<and> name \<in> set targets"
  "fst ` set (take_snapshot targets f) = set targets"
  by (auto simp: take_snapshot_def image_image)

lemma txn_inv_step:
  assumes ok: "targets_ok targets" "hex64 t"
    and inv: "txn_inv targets t f0 s" and step: "txn_step False targets legacy_sets s s'"
  shows "txn_inv targets t f0 s'"
  using step inv
proof (cases rule: txn_step.cases)
  case (commit f j g pre)
  then show ?thesis
    using inv by (auto simp: txn_inv_def prepared_def committed_def journal_commit)
next
  case (restore f j g p ps)
  have "differs_in (fst ` set ps) (f(fst p := f0 (fst p))) f0" if "differs_in (fst ` set (p # ps)) f f0"
    using that by (auto simp: differs_in_def)
  then show ?thesis
    using inv restore
    by (auto simp: txn_inv_def prepared_def restore_one_def intro!: differs_in_upd)
next
  case (recover_prepared d j pre g)
  then show ?thesis
    using inv read_journal_for [OF ok]
    by (auto simp: txn_inv_def prepared_def committed_def settled_def snapshot_entries
        dest: snapshot_entries(1))
next
  case (recover_committed d j pre g)
  then show ?thesis
    using inv read_journal_for [OF ok]
    by (auto simp: txn_inv_def prepared_def committed_def settled_def)
next
  case (recover_none d g)
  then show ?thesis
    using inv read_journal_for [OF ok]
    by (auto simp: txn_inv_def prepared_def committed_def settled_def)
qed (auto simp: txn_inv_def prepared_def committed_def settled_def differs_in_upd snapshot_entries
    fun_eq_iff differs_in_def split: stage.splits dest: snapshot_entries(1))

lemma txn_inv_started: "txn_inv targets t f0 (started targets f0 t)"
  by (simp add: txn_inv_def started_def prepared_def differs_in_def)

lemma txn_inv_reachable:
  assumes "targets_ok targets" "hex64 t"
    and "(txn_step False targets legacy_sets)\<^sup>*\<^sup>* (started targets f0 t) s"
  shows "txn_inv targets t f0 s"
  using assms(3)
  by (induction rule: rtranclp_induct) (auto intro: txn_inv_started txn_inv_step [OF assms(1,2)])

lemma recover_prepared_files:
  assumes "targets_ok targets" "hex64 t" "prepared targets t f0 d"
  shows "recover targets legacy_sets d = Inr (True, \<lparr>dk_files = f0, dk_journal = None\<rparr>)"
  using assms read_journal_for [OF assms(1,2)]
  by (simp add: recover_def prepared_def restore_snapshot differs_in_def)

lemma recover_committed_files:
  assumes "targets_ok targets" "hex64 t" "committed targets t f0 g d"
  shows "recover targets legacy_sets d = Inr (True, \<lparr>dk_files = dk_files d, dk_journal = None\<rparr>)"
  using assms read_journal_for [OF assms(1,2)]
  by (simp add: recover_def committed_def)

lemma recover_settled:
  "dk_journal d = None \<Longrightarrow> recover targets legacy_sets d = Inr (False, d)"
  by (simp add: recover_def read_journal_def)

text \<open>C3: Crash atomicity of \<open>LocalTransactionCoordinator.transaction\<close>, as long as no exception is raised between the
  commit mark and the removal of the journal (the flag of \<open>txn_step\<close> is off; \<open>late_exception_breaks_atomicity\<close>
  shows that the condition is needed). Wherever such a process stops, also in the middle of the rollback of a
  transaction that was not marked or of a recovery, and however often, the next recovery succeeds, removes
  the journal, and leaves every file exactly as it was before the transaction or exactly as it was when
  the commit mark became durable: the first when there was no mark, the second when there was.\<close>

theorem transaction_crash_atomic:
  assumes "targets_ok targets" "hex64 t"
    and "(txn_step False targets legacy_sets)\<^sup>*\<^sup>* (started targets f0 t) (d, g, s)"
  shows "\<exists>recovered. recover targets legacy_sets d =
    Inr (recovered, \<lparr>dk_files = (case g of None \<Rightarrow> f0 | Some f \<Rightarrow> f), dk_journal = None\<rparr>)"
proof -
  have "txn_inv targets t f0 (d, g, s)"
    using txn_inv_reachable [OF assms] .
  then have "(g = None \<and> prepared targets t f0 d) \<or> committed targets t f0 g d \<or> settled f0 g d"
    by (auto simp: txn_inv_def split: stage.splits)
  then show ?thesis
    using recover_prepared_files [OF assms(1,2)] recover_committed_files [OF assms(1,2)] recover_settled
    by (fastforce simp: settled_def committed_def)
qed

text \<open>A target that is written and a process that then stops.\<close>

theorem transaction_crash_atomic_witness:
  "\<exists>recovered. recover [''graph''] [] \<lparr>dk_files = [''graph'' \<mapsto> ''new''],
      dk_journal = Some (journal_for [(''graph'', None)] Prepared (replicate 64 CHR ''0''))\<rparr> =
    Inr (recovered, \<lparr>dk_files = Map.empty, dk_journal = None\<rparr>)"
proof -
  let ?t = "replicate 64 CHR ''0''"
  let ?j = "Some (journal_for [(''graph'', None)] Prepared ?t)"
  have step1: "txn_step False [''graph''] [] (\<lparr>dk_files = Map.empty, dk_journal = ?j\<rparr>, None, Body [(''graph'', None)])
      (\<lparr>dk_files = [''graph'' \<mapsto> ''new''], dk_journal = ?j\<rparr>, None, Body [(''graph'', None)])"
    by (rule txn_step.write_target) simp
  have step2: "txn_step False [''graph''] []
      (\<lparr>dk_files = [''graph'' \<mapsto> ''new''], dk_journal = ?j\<rparr>, None, Body [(''graph'', None)])
      (\<lparr>dk_files = [''graph'' \<mapsto> ''new''], dk_journal = ?j\<rparr>, None, Crashed)"
    by (rule txn_step.crash)
  have start: "started [''graph''] Map.empty ?t =
      (\<lparr>dk_files = Map.empty, dk_journal = ?j\<rparr>, None, Body [(''graph'', None)])"
    by (simp add: started_def take_snapshot_def)
  have "(txn_step False [''graph''] [])\<^sup>*\<^sup>* (started [''graph''] Map.empty ?t)
      (\<lparr>dk_files = [''graph'' \<mapsto> ''new''], dk_journal = ?j\<rparr>, None, Crashed)"
    unfolding start by (rule rtranclp_trans, rule r_into_rtranclp, rule step1, rule r_into_rtranclp, rule step2)
  moreover have "targets_ok [''graph'']" "hex64 ?t" by code_simp+
  ultimately show ?thesis
    using transaction_crash_atomic [of "[''graph'']" ?t "[]" Map.empty _ None Crashed] by simp
qed

text \<open>C4: All or nothing without a crash: the transaction's outcome is the body's outcome; when the body
  raises, every file is restored to what it was after recovery, and when it returns, the files are the
  body's, provided it wrote only targets. The journal is gone in both cases.\<close>

theorem transaction_all_or_nothing:
  assumes "recover targets legacy_sets d = Inr (r, \<lparr>dk_files = f0, dk_journal = None\<rparr>)"
    and "\<forall>f. differs_in (set targets) (fst (body f)) f"
  shows "transaction targets legacy_sets t body d =
    (case body f0 of
       (f, Inl e) \<Rightarrow> (\<lparr>dk_files = f0, dk_journal = None\<rparr>, Inl e)
     | (f, Inr x) \<Rightarrow> (\<lparr>dk_files = f, dk_journal = None\<rparr>, Inr x))"
proof -
  have "differs_in (set targets) (fst (body f0)) f0"
    using assms(2) by blast
  then show ?thesis
    using assms(1)
    by (auto simp: transaction_def Let_def restore_snapshot differs_in_def split: prod.splits sum.splits)
qed

text \<open>A body that writes a target and raises.\<close>

theorem transaction_all_or_nothing_witness:
  "transaction [''graph''] [] [] (\<lambda>f. (f(''graph'' \<mapsto> ''new''), Inl (ValueError ''late'') :: unit res))
     \<lparr>dk_files = [''graph'' \<mapsto> ''old''], dk_journal = None\<rparr> =
   (\<lparr>dk_files = [''graph'' \<mapsto> ''old''], dk_journal = None\<rparr>, Inl (ValueError ''late''))"
  using transaction_all_or_nothing [of "[''graph'']" "[]"
      "\<lparr>dk_files = [''graph'' \<mapsto> ''old''], dk_journal = None\<rparr>" False "[''graph'' \<mapsto> ''old'']"
      "\<lambda>f. (f(''graph'' \<mapsto> ''new''), Inl (ValueError ''late'') :: unit res)" "[]"]
  by (simp add: recover_settled differs_in_def)

text \<open>C40: An exception after the commit mark (\<open>transaction.py\<close>, the \<open>except\<close> clause also covers the
  removal of the journal) starts a rollback under a journal that says committed. A crash in the middle
  of that rollback leaves one target restored and the other not, and recovery, seeing the mark, only
  removes the journal: the files are neither the old nor the committed ones.\<close>

theorem late_exception_breaks_atomicity:
  "\<exists>d s f.
     (txn_step True [''cases'', ''graph''] [])\<^sup>*\<^sup>*
       (started [''cases'', ''graph''] Map.empty (replicate 64 CHR ''0'')) (d, Some f, Crashed) \<and>
     recover [''cases'', ''graph''] [] d = Inr (True, \<lparr>dk_files = s, dk_journal = None\<rparr>) \<and>
     s \<noteq> Map.empty \<and> s \<noteq> f"
proof -
  let ?T = "[''cases'', ''graph'']" and ?t = "replicate 64 CHR ''0''"
  let ?pre = "[(''cases'', None), (''graph'', None)] :: (string \<times> string option) list"
  let ?P = "Some (journal_for ?pre Prepared ?t)" and ?C = "Some (journal_for ?pre Committed ?t)"
  let ?f1 = "[''cases'' \<mapsto> ''c'']" and ?f2 = "[''cases'' \<mapsto> ''c'', ''graph'' \<mapsto> ''g'']"
  let ?s = "[''graph'' \<mapsto> ''g'']"
  let ?R = "(txn_step True ?T [])\<^sup>*\<^sup>*"
  have ok: "targets_ok ?T" "hex64 ?t" by code_simp+
  have snap: "take_snapshot ?T Map.empty = ?pre" by code_simp
  have start: "started ?T Map.empty ?t = (\<lparr>dk_files = Map.empty, dk_journal = ?P\<rparr>, None, Body ?pre)"
    by (simp only: started_def snap)
  have s1: "?R (\<lparr>dk_files = Map.empty, dk_journal = ?P\<rparr>, None, Body ?pre)
      (\<lparr>dk_files = ?f1, dk_journal = ?P\<rparr>, None, Body ?pre)"
    by (rule r_into_rtranclp, rule txn_step.write_target) simp
  have s2: "?R (\<lparr>dk_files = ?f1, dk_journal = ?P\<rparr>, None, Body ?pre)
      (\<lparr>dk_files = ?f2, dk_journal = ?P\<rparr>, None, Body ?pre)"
    by (rule r_into_rtranclp, rule txn_step.write_target) simp
  have s3: "?R (\<lparr>dk_files = ?f2, dk_journal = ?P\<rparr>, None, Body ?pre)
      (\<lparr>dk_files = ?f2, dk_journal = ?C\<rparr>, Some ?f2, Marked ?pre)"
    using txn_step.commit [of True ?T "[]" ?f2 "journal_for ?pre Prepared ?t" None ?pre]
    by (simp add: journal_commit r_into_rtranclp)
  have s4: "?R (\<lparr>dk_files = ?f2, dk_journal = ?C\<rparr>, Some ?f2, Marked ?pre)
      (\<lparr>dk_files = ?f2, dk_journal = ?C\<rparr>, Some ?f2, Restoring ?pre)"
    using txn_step.raise_marked [of True ?T "[]" "\<lparr>dk_files = ?f2, dk_journal = ?C\<rparr>" "Some ?f2" ?pre]
    by (simp add: r_into_rtranclp)
  have s5: "?R (\<lparr>dk_files = ?f2, dk_journal = ?C\<rparr>, Some ?f2, Restoring ?pre)
      (\<lparr>dk_files = restore_one (''cases'', None) ?f2, dk_journal = ?C\<rparr>, Some ?f2, Restoring [(''graph'', None)])"
    by (rule r_into_rtranclp, rule txn_step.restore)
  have s6: "?R (\<lparr>dk_files = restore_one (''cases'', None) ?f2, dk_journal = ?C\<rparr>, Some ?f2, Restoring [(''graph'', None)])
      (\<lparr>dk_files = restore_one (''cases'', None) ?f2, dk_journal = ?C\<rparr>, Some ?f2, Crashed)"
    by (rule r_into_rtranclp, rule txn_step.crash)
  have "?R (started ?T Map.empty ?t)
      (\<lparr>dk_files = restore_one (''cases'', None) ?f2, dk_journal = ?C\<rparr>, Some ?f2, Crashed)"
    unfolding start
    by (rule rtranclp_trans [OF s1 rtranclp_trans [OF s2 rtranclp_trans [OF s3 rtranclp_trans [OF s4
        rtranclp_trans [OF s5 s6]]]]])
  moreover have "restore_one (''cases'', None) ?f2 = ?s"
    by (auto simp: restore_one_def fun_eq_iff)
  moreover have "recover ?T [] \<lparr>dk_files = ?s, dk_journal = ?C\<rparr> = Inr (True, \<lparr>dk_files = ?s, dk_journal = None\<rparr>)"
    using read_journal_for [OF ok, of "[]" Map.empty Committed] by (simp add: snap recover_def)
  moreover have "?s \<noteq> Map.empty" "?s \<noteq> ?f2"
    by (auto dest: fun_cong [of _ _ "''graph''"] fun_cong [of _ _ "''cases''"])
  ultimately show ?thesis
    by (intro exI [of _ "\<lparr>dk_files = ?s, dk_journal = ?C\<rparr>"] exI [of _ ?s] exI [of _ ?f2] conjI) simp_all
qed

section \<open>Aggregate read limits\<close>

definition group_names :: "read_policy dict \<Rightarrow> string \<Rightarrow> string set" where
  "group_names policies g =
     {name. \<exists>p. map_of policies name = Some p \<and> rp_aggregate_group p = Some g}"

definition retained_bytes :: "read_policy dict \<Rightarrow> string \<Rightarrow> read_budget \<Rightarrow> int" where
  "retained_bytes policies g b = (\<Sum>name \<in> group_names policies g. dict_int (rb_sizes b) name)"

text \<open>The running total of a group is the sum of what is retained of its files, and within its limit.\<close>

definition budget_ok :: "read_policy dict \<Rightarrow> read_budget \<Rightarrow> bool" where
  "budget_ok policies b \<longleftrightarrow>
     (\<forall>g. dict_int (rb_totals b) g = retained_bytes policies g b) \<and>
     (\<forall>name p g limit. map_of policies name = Some p \<longrightarrow> rp_aggregate_group p = Some g \<longrightarrow>
        rp_max_aggregate_bytes p = Some limit \<longrightarrow> dict_int (rb_totals b) g \<le> limit)"

lemma finite_group [simp]: "finite (group_names policies g)"
  by (rule finite_subset [OF _ finite_dom_map_of [of policies]]) (auto simp: group_names_def)

lemma dict_int_update: "dict_int (AList.update k v d) k' = (if k' = k then v else dict_int d k')"
  by (simp add: dict_int_def)

lemma retained_update:
  "retained_bytes policies g (b\<lparr>rb_sizes := AList.update name n (rb_sizes b)\<rparr>) =
     (if name \<in> group_names policies g
      then retained_bytes policies g b - dict_int (rb_sizes b) name + n else retained_bytes policies g b)"
proof (cases "name \<in> group_names policies g")
  case True
  then have "(\<Sum>x \<in> group_names policies g. if x = name then n else dict_int (rb_sizes b) x) =
      n + (\<Sum>x \<in> group_names policies g - {name}. dict_int (rb_sizes b) x)"
    by (simp add: sum.remove)
  then show ?thesis
    using True by (simp add: retained_bytes_def dict_int_update sum.remove)
next
  case False
  then show ?thesis
    by (auto simp: retained_bytes_def dict_int_update intro!: sum.cong)
qed

lemma retained_totals [simp]: "retained_bytes policies g (b\<lparr>rb_totals := t\<rparr>) = retained_bytes policies g b"
  by (simp add: retained_bytes_def)

definition limits_agree :: "read_policy dict \<Rightarrow> bool" where
  "limits_agree policies \<longleftrightarrow>
     (\<forall>name p name' p'. map_of policies name = Some p \<longrightarrow> map_of policies name' = Some p' \<longrightarrow>
        rp_aggregate_group p = rp_aggregate_group p' \<longrightarrow> rp_aggregate_group p \<noteq> None \<longrightarrow>
        rp_max_aggregate_bytes p = rp_max_aggregate_bytes p')"

lemma budget_read_ok:
  assumes "limits_agree policies" "budget_ok policies b"
    and "budget_read policies name file b = Inr (content, b')"
  shows "budget_ok policies b'"
proof (cases "map_of policies name")
  case None
  then show ?thesis using assms by (simp add: budget_read_def)
next
  case (Some p)
  show ?thesis
  proof (cases "rp_aggregate_group p")
    case None
    then have "name \<notin> group_names policies g" for g
      using Some by (simp add: group_names_def)
    then show ?thesis
      using assms Some None
      by (auto simp: budget_read_def budget_ok_def Let_def res_bind_Inr_iff retained_update)
  next
    case grp: (Some grp)
    define current where "current = content_size content"
    obtain limit where limit: "rp_max_aggregate_bytes p = Some limit"
      and bound: "dict_int (rb_totals b) grp - dict_int (rb_sizes b) name + current \<le> limit"
      and b': "b' = b\<lparr>rb_sizes := AList.update name current (rb_sizes b),
        rb_totals := AList.update grp (dict_int (rb_totals b) grp - dict_int (rb_sizes b) name + current)
          (rb_totals b)\<rparr>"
      using assms(3) Some grp unfolding current_def
      by (auto simp: budget_read_def Let_def res_bind_Inr_iff split: option.splits if_splits)
    have mem: "name \<in> group_names policies g \<longleftrightarrow> g = grp" for g
      using Some grp by (auto simp: group_names_def)
    have same: "limit' = limit" if "map_of policies n' = Some p'" "rp_aggregate_group p' = Some grp"
      "rp_max_aggregate_bytes p' = Some limit'" for n' p' limit'
      using assms(1) that Some grp limit unfolding limits_agree_def by (metis option.distinct(1) option.inject)
    show ?thesis
      unfolding b' budget_ok_def
      using assms(2) bound same by (auto simp: budget_ok_def retained_update mem dict_int_update)
  qed
qed

lemma extra_read_policies_agree_aux:
  assumes "fold_res note_limit ps limits = Inr limits'"
  shows "map_of limits \<subseteq>\<^sub>m map_of limits' \<and> (\<forall>(n, p) \<in> set ps. \<forall>g limit. rp_aggregate_group p = Some g \<longrightarrow>
    rp_max_aggregate_bytes p = Some limit \<longrightarrow> map_of limits' g = Some limit)"
  using assms
proof (induction ps arbitrary: limits)
  case (Cons np ps)
  obtain n p where np: "np = (n, p)" by (cases np)
  show ?case
  proof (cases "rp_aggregate_group p = None \<or> rp_max_aggregate_bytes p = None")
    case True
    then show ?thesis
      using Cons.prems Cons.IH [of limits] np by (auto simp: note_limit_def split: option.splits)
  next
    case False
    then obtain g limit where gl: "rp_aggregate_group p = Some g" "rp_max_aggregate_bytes p = Some limit"
      by auto
    show ?thesis
    proof (cases "map_of limits g")
      case None
      then have "map_of limits \<subseteq>\<^sub>m map_of (limits @ [(g, limit)])"
          "map_of (limits @ [(g, limit)]) g = Some limit"
        by (auto simp: map_le_def map_add_def split: option.splits)
      then show ?thesis
        using Cons.prems Cons.IH [of "limits @ [(g, limit)]"] np gl None
        by (auto simp: note_limit_def map_le_def dom_def)
    next
      case (Some existing)
      then show ?thesis
        using Cons.prems Cons.IH [of limits] np gl
        by (auto simp: note_limit_def map_le_def dom_def split: if_splits)
    qed
  qed
qed simp

lemma extra_read_policies_agree:
  assumes "extra_read_policies extras policies = Inr policies'"
    and "\<forall>(n, p) \<in> set policies. validate_read_policy p = Inr p"
  shows "policies' = policies \<and> limits_agree policies"
proof -
  obtain limits' where *: "fold_res note_limit policies [] = Inr limits'" "policies' = policies"
  proof (cases "fold_res note_limit policies []")
    case (Inl e)
    then show thesis
      using assms(1) by (simp add: extra_read_policies_def split: if_split_asm)
  next
    case (Inr limits')
    then show thesis
      using assms(1) that [OF Inr] by (simp add: extra_read_policies_def split: if_split_asm)
  qed
  have lim: "map_of limits' g = rp_max_aggregate_bytes p"
    if mem: "map_of policies n = Some p" and grp: "rp_aggregate_group p = Some g" for n p g
  proof -
    have "(n, p) \<in> set policies" using mem by (rule map_of_SomeD)
    moreover from this obtain limit where "rp_max_aggregate_bytes p = Some limit"
      using assms(2) grp by (fastforce simp: validate_read_policy_def split: if_splits)
    ultimately show ?thesis
      using extra_read_policies_agree_aux [OF *(1)] grp by fastforce
  qed
  have "limits_agree policies"
    unfolding limits_agree_def
  proof (intro allI impI)
    fix n p n' p'
    assume a: "map_of policies n = Some p" "map_of policies n' = Some p'"
      "rp_aggregate_group p = rp_aggregate_group p'" "rp_aggregate_group p \<noteq> None"
    then obtain g where "rp_aggregate_group p = Some g" "rp_aggregate_group p' = Some g" by auto
    from lim [OF a(1) this(1)] lim [OF a(2) this(2)]
    show "rp_max_aggregate_bytes p = rp_max_aggregate_bytes p'" by simp
  qed
  then show ?thesis using *(2) by simp
qed

text \<open>What is retained is what was read: the sizes are those of the contents returned.\<close>

definition bytes_read :: "string option dict \<Rightarrow> string \<Rightarrow> int" where
  "bytes_read content name = (case map_of content name of Some (Some c) \<Rightarrow> int (length c) | _ \<Rightarrow> 0)"

lemma budget_read_Inr:
  assumes "budget_read policies name stored b = Inr (value, b')"
  shows "value = stored"
    and "map_of policies name = Some p \<Longrightarrow> stored = Some c \<Longrightarrow> int (length c) \<le> rp_max_bytes p"
    and "rb_sizes b' = (if map_of policies name = None then rb_sizes b
      else AList.update name (case stored of None \<Rightarrow> 0 | Some c \<Rightarrow> int (length c)) (rb_sizes b))"
proof -
  have "value = stored \<and> (\<forall>p c. map_of policies name = Some p \<longrightarrow> stored = Some c \<longrightarrow> int (length c) \<le> rp_max_bytes p) \<and>
      rb_sizes b' = (if map_of policies name = None then rb_sizes b
        else AList.update name (case stored of None \<Rightarrow> 0 | Some c \<Rightarrow> int (length c)) (rb_sizes b))"
  proof (cases "map_of policies name")
    case None
    then show ?thesis using assms by (simp add: budget_read_def)
  next
    case (Some p)
    obtain m where read: "nonblocking_read stored m = Inr value" "m \<le> rp_max_bytes p"
      and sizes: "rb_sizes b' = AList.update name (content_size value) (rb_sizes b)"
      using assms Some
      by (cases "rp_aggregate_group p"; cases "rp_max_aggregate_bytes p")
        (auto simp: budget_read_def Let_def res_bind_Inr_iff split: if_splits)
    from read show ?thesis
      by (cases stored) (auto simp: Some sizes nonblocking_read_def content_size_def split: if_splits)
  qed
  then show "value = stored"
    and "map_of policies name = Some p \<Longrightarrow> stored = Some c \<Longrightarrow> int (length c) \<le> rp_max_bytes p"
    and "rb_sizes b' = (if map_of policies name = None then rb_sizes b
      else AList.update name (case stored of None \<Rightarrow> 0 | Some c \<Rightarrow> int (length c)) (rb_sizes b))"
    by blast+
qed

lemma read_all_Inr:
  assumes "fold_res (\<lambda>(name, file) (content, b).
      res_bind (budget_read policies name file b) (\<lambda>(value, b). Inr (content @ [(name, value)], b))) files (done_so_far, b0) =
      Inr (content, b)"
    and "distinct (map fst (done_so_far @ files))"
    and "\<And>name. map_of policies name \<noteq> None \<Longrightarrow> dict_int (rb_sizes b0) name = bytes_read done_so_far name"
  shows "content = done_so_far @ files"
    and "map_of policies name \<noteq> None \<Longrightarrow> dict_int (rb_sizes b) name = bytes_read content name"
    and "(name, Some c) \<in> set files \<Longrightarrow> map_of policies name = Some p \<Longrightarrow> int (length c) \<le> rp_max_bytes p"
proof -
  have "content = done_so_far @ files \<and>
      (\<forall>name. map_of policies name \<noteq> None \<longrightarrow> dict_int (rb_sizes b) name = bytes_read content name) \<and>
      (\<forall>name c p. (name, Some c) \<in> set files \<longrightarrow> map_of policies name = Some p \<longrightarrow> int (length c) \<le> rp_max_bytes p)"
    using assms
  proof (induction files arbitrary: done_so_far b0)
    case (Cons nf files)
    obtain n f where nf: "nf = (n, f)" by (cases nf)
    from Cons.prems(1) obtain v b1 where read: "budget_read policies n f b0 = Inr (v, b1)"
      and rest: "fold_res (\<lambda>(name, file) (content, b).
        res_bind (budget_read policies name file b) (\<lambda>(value, b). Inr (content @ [(name, value)], b))) files
        (done_so_far @ [(n, v)], b1) = Inr (content, b)"
      by (cases "budget_read policies n f b0") (auto simp: nf res_bind_def split: prod.splits)
    note v = budget_read_Inr(1) [OF read]
    have n: "map_of done_so_far n = None" using Cons.prems(2) by (simp add: nf map_of_eq_None_iff)
    have "dict_int (rb_sizes b1) name = bytes_read (done_so_far @ [(n, v)]) name" if known: "map_of policies name \<noteq> None" for name
    proof (cases "name = n")
      case True
      have "map_of (done_so_far @ [(n, v)]) n = Some f" using n v by (simp add: map_add_def)
      moreover obtain p where "map_of policies n = Some p" using known True by blast
      ultimately show ?thesis using True
        by (cases f) (simp_all add: budget_read_Inr(3) [OF read] dict_int_update bytes_read_def)
    next
      case False
      then have "map_of (done_so_far @ [(n, v)]) name = map_of done_so_far name" by (simp add: map_add_def split: option.split)
      then show ?thesis
        using False Cons.prems(3) [OF known] by (simp add: budget_read_Inr(3) [OF read] dict_int_update bytes_read_def)
    qed
    from Cons.IH [OF rest _ this] Cons.prems(2) budget_read_Inr(2) [OF read] show ?case by (auto simp: nf v)
  qed auto
  then show "content = done_so_far @ files"
    and "map_of policies name \<noteq> None \<Longrightarrow> dict_int (rb_sizes b) name = bytes_read content name"
    and "(name, Some c) \<in> set files \<Longrightarrow> map_of policies name = Some p \<Longrightarrow> int (length c) \<le> rp_max_bytes p"
    by blast+
qed

text \<open>C39: The byte limits of a lock scope (\<open>_ExtraReadBudget\<close>). When accepted read policies govern one reading of a
  set of files, the reading returns every file's content as it is, no returned content is longer than its
  policy allows, and the contents returned for the files of an aggregate group are together no longer than
  the group's limit.\<close>

theorem aggregate_read_bounded:
  assumes "extra_read_policies extras policies = Inr policies'"
    and "\<forall>(n, p) \<in> set policies. validate_read_policy p = Inr p"
    and "read_files policies' files \<lparr>rb_sizes = [], rb_totals = []\<rparr> = Inr (content, b)" "distinct (map fst files)"
    and "map_of policies' name = Some p"
  shows "content = sort_key fst files \<and> (\<forall>c. (name, Some c) \<in> set content \<longrightarrow> int (length c) \<le> rp_max_bytes p) \<and>
    (\<forall>g limit. rp_aggregate_group p = Some g \<and> rp_max_aggregate_bytes p = Some limit \<longrightarrow>
      (\<Sum>n \<in> group_names policies' g. case map_of content n of Some (Some c) \<Rightarrow> int (length c) | _ \<Rightarrow> 0) \<le> limit)"
proof -
  have agree: "policies' = policies" "limits_agree policies"
    using extra_read_policies_agree [OF assms(1,2)] by auto
  have "0 \<le> limit'" if "map_of policies n' = Some p'" "rp_max_aggregate_bytes p' = Some limit'" for n' p' limit'
    using assms(2) map_of_SomeD [OF that(1)] that(2) by (fastforce simp: validate_read_policy_def split: if_splits)
  then have start: "budget_ok policies \<lparr>rb_sizes = [], rb_totals = []\<rparr>"
    by (auto simp: budget_ok_def retained_bytes_def dict_int_def)
  have ok: "budget_ok policies b"
    using fold_res_invariant [where P = "\<lambda>(_, b). budget_ok policies b", OF assms(3) [unfolded read_files_def agree]]
      start budget_read_ok [OF agree(2)]
    by (fastforce simp: res_bind_Inr_iff)
  have names: "distinct (map fst ([] @ sort_key fst files))"
    using assms(4) by (simp add: distinct_map_sort_key)
  note all = read_all_Inr [OF assms(3) [unfolded read_files_def agree] names]
  have "retained_bytes policies g b = (\<Sum>n \<in> group_names policies g. bytes_read content n)" for g
    unfolding retained_bytes_def
    by (rule sum.cong [OF refl], rule all(2)) (auto simp: group_names_def dict_int_def bytes_read_def)
  then show ?thesis
    using ok all(1,3) assms(5) by (auto simp: agree budget_ok_def bytes_read_def dict_int_def)
qed

text \<open>Two files of one group with a limit of four bytes.\<close>

definition sample_policy :: read_policy where
  "sample_policy = \<lparr>rp_max_bytes = 3, rp_nonblocking_regular = True, rp_aggregate_group = Some ''ledgers'',
     rp_max_aggregate_bytes = Some 4\<rparr>"

theorem aggregate_read_bounded_witness:
  "\<exists>content b. read_files [(''a'', sample_policy), (''b'', sample_policy)] [(''a'', Some ''123''), (''b'', Some ''4'')]
      \<lparr>rb_sizes = [], rb_totals = []\<rparr> = Inr (content, b) \<and>
    (\<Sum>n \<in> group_names [(''a'', sample_policy), (''b'', sample_policy)] ''ledgers''.
      case map_of content n of Some (Some c) \<Rightarrow> int (length c) | _ \<Rightarrow> 0) \<le> 4 \<and>
    read_files [(''a'', sample_policy), (''b'', sample_policy)] [(''a'', Some ''123''), (''b'', Some ''45'')]
      \<lparr>rb_sizes = [], rb_totals = []\<rparr> = Inl UnsafePathError"
proof -
  let ?policies = "[(''a'', sample_policy), (''b'', sample_policy)]" and ?files = "[(''a'', Some ''123''), (''b'', Some ''4'')]"
  have read: "read_files ?policies ?files \<lparr>rb_sizes = [], rb_totals = []\<rparr> =
      Inr (?files, \<lparr>rb_sizes = [(''a'', 3), (''b'', 1)], rb_totals = [(''ledgers'', 4)]\<rparr>)"
    by code_simp
  have "extra_read_policies [''a'', ''b''] ?policies = Inr ?policies" by code_simp
  moreover have "\<forall>(n, p) \<in> set ?policies. validate_read_policy p = Inr p"
    by (simp add: validate_read_policy_def sample_policy_def target_name_def)
  moreover have "distinct (map fst ?files)" "map_of ?policies ''a'' = Some sample_policy" by simp_all
  moreover have "rp_aggregate_group sample_policy = Some ''ledgers'' \<and> rp_max_aggregate_bytes sample_policy = Some 4"
    by (simp add: sample_policy_def)
  ultimately have "(\<Sum>n \<in> group_names ?policies ''ledgers''.
      case map_of ?files n of Some (Some c) \<Rightarrow> int (length c) | _ \<Rightarrow> 0) \<le> 4"
    using aggregate_read_bounded [OF _ _ read] by blast
  moreover have "read_files ?policies [(''a'', Some ''123''), (''b'', Some ''45'')] \<lparr>rb_sizes = [], rb_totals = []\<rparr> =
      Inl UnsafePathError" by code_simp
  ultimately show ?thesis using read by blast
qed

end
