(* ===== verification/Txn_Handle.thy ===== *)
theory Txn_Handle
  imports Transaction Ledger
begin

text \<open>
  The handle a transaction yields (\<open>LocalTransaction\<close> in \<open>storage/transaction.py\<close>): reads of targets and
  of locked extras under their read budget, writes and appends of targets, refused after the scope or
  on a read-only handle. A body is an action on the handle and the files that may raise; files it has
  changed before raising stay changed until the coordinator restores them.
\<close>

record handle =
  hd_targets :: "string list"
  hd_extras :: "string list"
  hd_read_only :: bool
  hd_active :: bool
  hd_policies :: "read_policy dict"
  hd_budget :: read_budget

text \<open>Steps on a state that may raise; what was done before an exception stays done.\<close>

type_synonym ('s, 'a) act = "'s \<Rightarrow> 's \<times> 'a res"
type_synonym 'a action = "(handle \<times> files, 'a) act"

definition act_return :: "'a \<Rightarrow> ('s, 'a) act" where
  "act_return x s = (s, Inr x)"

definition act_lift :: "'a res \<Rightarrow> ('s, 'a) act" where
  "act_lift r s = (s, r)"

definition act_bind :: "('s, 'a) act \<Rightarrow> ('a \<Rightarrow> ('s, 'b) act) \<Rightarrow> ('s, 'b) act" where
  "act_bind m f s = (case m s of (s', Inl e) \<Rightarrow> (s', Inl e) | (s', Inr x) \<Rightarrow> f x s')"

text \<open>\<open>if condition: raise error\<close>.\<close>

definition act_guard :: "bool \<Rightarrow> exn \<Rightarrow> ('s, unit) act" where
  "act_guard bad e s = (s, if bad then Inl e else Inr ())"

definition new_handle :: "string list \<Rightarrow> string list \<Rightarrow> bool \<Rightarrow> read_policy dict \<Rightarrow> handle" where
  "new_handle targets extras read_only policies =
     \<lparr>hd_targets = targets, hd_extras = extras, hd_read_only = read_only, hd_active = True,
      hd_policies = policies, hd_budget = \<lparr>rb_sizes = [], rb_totals = []\<rparr>\<rparr>"

definition finish_handle :: "handle \<Rightarrow> handle" where
  "finish_handle h = h\<lparr>hd_active := False, hd_read_only := True, hd_extras := [], hd_policies := []\<rparr>"

definition handle_target :: "handle \<Rightarrow> string \<Rightarrow> unit res" where
  "handle_target h name =
     (if \<not> hd_active h then Inl (RuntimeError ''local transaction is no longer active'')
      else if hd_read_only h then Inl (ValueError ''read-only local transaction'')
      else if name \<notin> set (hd_targets h) then Inl (ValueError ''unknown local transaction target'')
      else Inr ())"

definition handle_read_target :: "handle \<Rightarrow> string \<Rightarrow> unit res" where
  "handle_read_target h name =
     (if \<not> hd_active h then Inl (RuntimeError ''local transaction is no longer active'')
      else if name \<in> set (hd_targets h) \<or> name \<in> set (hd_extras h) then Inr ()
      else Inl (ValueError ''unknown local transaction target''))"

definition txn_read_optional :: "string \<Rightarrow> string option action" where
  "txn_read_optional name s =
     (case s of (h, f) \<Rightarrow>
       (case handle_read_target h name of
          Inl e \<Rightarrow> (s, Inl e)
        | Inr _ \<Rightarrow>
            if name \<in> set (hd_extras h)
            then (case budget_read (hd_policies h) name (f name) (hd_budget h) of
                    Inl e \<Rightarrow> (s, Inl e)
                  | Inr (content, b) \<Rightarrow> ((h\<lparr>hd_budget := b\<rparr>, f), Inr content))
            else (s, Inr (f name))))"

definition txn_read :: "string \<Rightarrow> string action" where
  "txn_read name =
     act_bind (txn_read_optional name) (\<lambda>content.
       case content of None \<Rightarrow> act_lift (Inl UnsafePathError) | Some c \<Rightarrow> act_return c)"

definition txn_write :: "string \<Rightarrow> string \<Rightarrow> unit action" where
  "txn_write name content s =
     (case s of (h, f) \<Rightarrow>
       (case handle_target h name of
          Inl e \<Rightarrow> (s, Inl e)
        | Inr _ \<Rightarrow> ((h, f(name \<mapsto> content)), Inr ())))"

definition txn_append :: "string \<Rightarrow> string \<Rightarrow> unit action" where
  "txn_append name content s =
     (case s of (h, f) \<Rightarrow>
       (case handle_target h name of
          Inl e \<Rightarrow> (s, Inl e)
        | Inr _ \<Rightarrow> ((h, f(name := append_text (f name) content)), Inr ())))"

text \<open>The extras of a scope: policies, symbolic names, and no overlap with the targets.\<close>

definition check_extras ::
  "string list \<Rightarrow> string list \<Rightarrow> read_policy dict \<Rightarrow> read_policy dict res" where
  "check_extras targets extras policies =
     res_bind (extra_read_policies extras policies) (\<lambda>policies.
       if \<not> list_all target_name extras then Inl (ValueError ''invalid local transaction extras'')
       else if \<not> disjoint_lists extras targets
       then Inl (ValueError ''duplicate local transaction target'')
       else Inr policies)"

record coordinator =
  co_targets :: "string list"
  co_legacy_sets :: "string list list"

text \<open>A mutation scope, and a read-only scope, around a body.\<close>

definition run_transaction ::
  "coordinator \<Rightarrow> string list \<Rightarrow> read_policy dict \<Rightarrow> string \<Rightarrow> 'a action \<Rightarrow> disk \<Rightarrow> disk \<times> 'a res" where
  "run_transaction co extras policies transaction_id body d =
     (case check_extras (co_targets co) extras policies of
        Inl e \<Rightarrow> (d, Inl e)
      | Inr policies \<Rightarrow>
          transaction (co_targets co) (co_legacy_sets co) transaction_id
            (\<lambda>f. case body (new_handle (co_targets co) extras False policies, f) of
                   ((_, f'), r) \<Rightarrow> (f', r)) d)"

definition read_transaction ::
  "coordinator \<Rightarrow> string list \<Rightarrow> read_policy dict \<Rightarrow> 'a action \<Rightarrow> disk \<Rightarrow> disk \<times> 'a res" where
  "read_transaction co extras policies body d =
     (case check_extras (co_targets co) extras policies of
        Inl e \<Rightarrow> (d, Inl e)
      | Inr policies \<Rightarrow>
          (case recover (co_targets co) (co_legacy_sets co) d of
             Inl e \<Rightarrow> (d, Inl e)
           | Inr (_, d') \<Rightarrow>
               (case body (new_handle (co_targets co) extras True policies, dk_files d') of
                  ((_, f), r) \<Rightarrow> (d'\<lparr>dk_files := f\<rparr>, r))))"

section \<open>What a body can change\<close>

text \<open>Through a handle, only targets change, and nothing through a read-only one.\<close>

definition confined :: "'a action \<Rightarrow> bool" where
  "confined m \<longleftrightarrow>
     (\<forall>h f h' f' r. m (h, f) = ((h', f'), r) \<longrightarrow>
        hd_targets h' = hd_targets h \<and> hd_read_only h' = hd_read_only h \<and>
        differs_in (set (hd_targets h)) f' f \<and> (hd_read_only h \<longrightarrow> f' = f))"

named_theorems confined_intros

lemma confinedI:
  "(\<And>h f h' f' r. m (h, f) = ((h', f'), r) \<Longrightarrow> hd_targets h' = hd_targets h \<and>
     hd_read_only h' = hd_read_only h \<and> differs_in (set (hd_targets h)) f' f \<and>
     (hd_read_only h \<longrightarrow> f' = f)) \<Longrightarrow> confined m"
  unfolding confined_def by blast

lemma differs_in_refl [simp]: "differs_in S f f"
  by (simp add: differs_in_def)

lemma confined_simple [confined_intros]:
  "confined (act_return x)" "confined (act_lift r)" "confined (act_guard bad e)"
  by (auto simp: confined_def act_return_def act_lift_def act_guard_def)

lemma confined_bind [confined_intros]:
  assumes "confined m" and "\<And>x. confined (k x)"
  shows "confined (act_bind m k)"
proof (rule confinedI)
  fix h f h' f' r
  assume run: "act_bind m k (h, f) = ((h', f'), r)"
  obtain h1 f1 r1 where m: "m (h, f) = ((h1, f1), r1)" by (metis surj_pair)
  note first = assms(1) [unfolded confined_def, rule_format, OF m]
  show "hd_targets h' = hd_targets h \<and> hd_read_only h' = hd_read_only h \<and>
      differs_in (set (hd_targets h)) f' f \<and> (hd_read_only h \<longrightarrow> f' = f)"
  proof (cases r1)
    case (Inl e)
    then show ?thesis using run m first by (simp add: act_bind_def)
  next
    case (Inr x)
    then have "k x (h1, f1) = ((h', f'), r)"
      using run m by (simp add: act_bind_def)
    from assms(2) [unfolded confined_def, rule_format, OF this] first show ?thesis
      by (auto simp: differs_in_def)
  qed
qed

lemma confined_read_optional [confined_intros]: "confined (txn_read_optional name)"
  by (rule confinedI) (auto simp: txn_read_optional_def split: sum.splits if_splits)

lemma confined_read [confined_intros]: "confined (txn_read name)"
  unfolding txn_read_def by (auto intro!: confined_intros split: option.splits)

lemma confined_write [confined_intros]:
  "confined (txn_write name content)" "confined (txn_append name content)"
  by (auto intro!: confinedI simp: txn_write_def txn_append_def handle_target_def differs_in_def
      split: sum.splits if_splits)

lemma confined_if [confined_intros]:
  "confined m \<Longrightarrow> confined m' \<Longrightarrow> confined (if b then m else m')"
  by simp

lemma confined_case_option [confined_intros]:
  "confined m \<Longrightarrow> (\<And>x. confined (k x)) \<Longrightarrow> confined (case y of None \<Rightarrow> m | Some x \<Rightarrow> k x)"
  by (simp split: option.split)

section \<open>Outcomes of a scope\<close>

lemma run_transaction_outcome:
  assumes "confined body"
    and "check_extras (co_targets co) extras policies = Inr policies'"
    and "recover (co_targets co) (co_legacy_sets co) d = Inr (r, \<lparr>dk_files = f0, dk_journal = None\<rparr>)"
  shows "run_transaction co extras policies t body d =
    (case body (new_handle (co_targets co) extras False policies', f0) of
       (_, Inl e) \<Rightarrow> (\<lparr>dk_files = f0, dk_journal = None\<rparr>, Inl e)
     | ((_, f), Inr x) \<Rightarrow> (\<lparr>dk_files = f, dk_journal = None\<rparr>, Inr x))"
proof -
  let ?h = "new_handle (co_targets co) extras False policies'"
  obtain h f res where run: "body (?h, f0) = ((h, f), res)" by (metis surj_pair)
  have "differs_in (set (co_targets co)) f f0"
    using assms(1) run unfolding confined_def by (fastforce simp: new_handle_def)
  then have "restore (take_snapshot (co_targets co) f0) f = f0"
    by (intro restore_snapshot) (simp add: differs_in_def)
  then show ?thesis
    using assms(2,3) run
    by (simp add: run_transaction_def transaction_def Let_def split: sum.split)
qed

lemma recover_journal:
  "recover targets legacy_sets d = Inr (r, d') \<Longrightarrow> dk_journal d' = None"
  by (auto simp: recover_def read_journal_def Let_def split: option.splits if_splits sum.splits)

lemma recover_shape:
  "recover targets legacy_sets d = Inr (r, d') \<Longrightarrow> d' = \<lparr>dk_files = dk_files d', dk_journal = None\<rparr>"
  by (drule recover_journal) simp

text \<open>A scope that raises leaves the recovered files, or, when it raises before recovery, the disk.\<close>

lemma run_transaction_error:
  assumes "confined body" "run_transaction co extras policies t body d = (d', Inl e)"
  shows "d' = d \<or> (\<exists>r. recover (co_targets co) (co_legacy_sets co) d = Inr (r, d'))"
proof (cases "check_extras (co_targets co) extras policies")
  case (Inr policies')
  show ?thesis
  proof (cases "recover (co_targets co) (co_legacy_sets co) d")
    case (Inl e')
    then show ?thesis using assms(2) Inr by (simp add: run_transaction_def transaction_def)
  next
    case rec: (Inr rd)
    obtain r d0 where rd: "rd = (r, d0)" by (cases rd)
    note shape = recover_shape [OF rec [unfolded rd]]
    have rec': "recover (co_targets co) (co_legacy_sets co) d =
        Inr (r, \<lparr>dk_files = dk_files d0, dk_journal = None\<rparr>)"
      using rec rd shape by simp
    then have "d' = \<lparr>dk_files = dk_files d0, dk_journal = None\<rparr>"
      using run_transaction_outcome [OF assms(1) Inr rec', of t] assms(2)
      by (simp split: sum.splits prod.splits)
    then show ?thesis using rec' by blast
  qed
qed (use assms(2) in \<open>simp add: run_transaction_def\<close>)

lemma run_transaction_success:
  assumes "confined body" "run_transaction co extras policies t body d = (d', Inr x)"
  obtains policies' r f0 h where "check_extras (co_targets co) extras policies = Inr policies'"
    and "recover (co_targets co) (co_legacy_sets co) d = Inr (r, \<lparr>dk_files = f0, dk_journal = None\<rparr>)"
    and "body (new_handle (co_targets co) extras False policies', f0) = ((h, dk_files d'), Inr x)"
    and "dk_journal d' = None"
proof (cases "check_extras (co_targets co) extras policies")
  case (Inr policies')
  show thesis
  proof (cases "recover (co_targets co) (co_legacy_sets co) d")
    case (Inl e')
    then show thesis using assms(2) Inr by (simp add: run_transaction_def transaction_def)
  next
    case rec: (Inr rd)
    obtain r d0 where rd: "rd = (r, d0)" by (cases rd)
    note shape = recover_shape [OF rec [unfolded rd]]
    have rec': "recover (co_targets co) (co_legacy_sets co) d =
        Inr (r, \<lparr>dk_files = dk_files d0, dk_journal = None\<rparr>)"
      using rec rd shape by simp
    obtain h f res where run: "body (new_handle (co_targets co) extras False policies', dk_files d0) = ((h, f), res)"
      by (metis surj_pair)
    have "res = Inr x" "d' = \<lparr>dk_files = f, dk_journal = None\<rparr>"
      using run_transaction_outcome [OF assms(1) Inr rec', of t] run assms(2) by (auto split: sum.splits)
    then show thesis
      using that [OF Inr rec'] run by simp
  qed
qed (use assms(2) in \<open>simp add: run_transaction_def\<close>)

text \<open>A read-only scope never changes a file: whatever its body does, the files afterwards are the
  recovered ones.\<close>

theorem read_transaction_unchanged:
  assumes "confined body" "recover (co_targets co) (co_legacy_sets co) d = Inr (r, d0)"
    and "read_transaction co extras policies body d = (d', res)"
  shows "d' = d \<or> d' = d0"
proof (cases "check_extras (co_targets co) extras policies")
  case (Inr policies')
  obtain h f r where run: "body (new_handle (co_targets co) extras True policies', dk_files d0) = ((h, f), r)"
    by (metis surj_pair)
  then have "f = dk_files d0"
    using assms(1) unfolding confined_def by (fastforce simp: new_handle_def)
  then show ?thesis
    using assms(2,3) Inr run by (auto simp: read_transaction_def)
qed (use assms(3) in \<open>simp add: read_transaction_def\<close>)

text \<open>A body that tries to write.\<close>

theorem read_transaction_unchanged_witness:
  "let d = \<lparr>dk_files = [''graph'' \<mapsto> ''old''], dk_journal = None\<rparr>;
       out = read_transaction \<lparr>co_targets = [''graph''], co_legacy_sets = []\<rparr> [] []
         (txn_write ''graph'' ''new'') d
   in (fst out = d \<or> fst out = d) \<and> snd out = Inl (ValueError ''read-only local transaction'')"
proof -
  let ?d = "\<lparr>dk_files = [''graph'' \<mapsto> ''old''], dk_journal = None\<rparr>"
  let ?co = "\<lparr>co_targets = [''graph''], co_legacy_sets = []\<rparr>"
  let ?out = "read_transaction ?co [] [] (txn_write ''graph'' ''new'') ?d"
  have "fst ?out = ?d \<or> fst ?out = ?d"
    by (rule read_transaction_unchanged [where r = False, OF confined_write(1) _ prod.collapse [symmetric]])
       (simp add: recover_settled)
  moreover have "snd ?out = Inl (ValueError ''read-only local transaction'')"
    by (simp add: read_transaction_def check_extras_def extra_read_policies_def disjoint_lists_def
        recover_settled new_handle_def txn_write_def handle_target_def)
  ultimately show ?thesis by (simp only: Let_def simp_thms)
qed

end
