(* ===== verification/Graph_Store.thy ===== *)
theory Graph_Store
  imports Applier History_Store Txn_Handle
begin

text \<open>
  The canonical graph file (\<open>storage/yaml/graph_store.py\<close>). PyYAML and Pydantic are outside the program:
  \<open>codecs\<close> collects what they do. \<open>yaml_load\<close> is \<open>yaml.safe_load\<close> (its value a JSON value, a float by
  its printed form), \<open>yaml_dump\<close> is \<open>yaml.safe_dump\<close> of a graph's dump, \<open>graph_fields\<close> reads the fields of
  a graph before its validators run, \<open>py_repr\<close> is \<open>repr\<close> of a list or mapping.
\<close>

record codecs =
  yaml_load :: "string \<Rightarrow> json res"
  yaml_dump :: "graph \<Rightarrow> string"
  graph_fields :: "json dict \<Rightarrow> graph res"
  py_repr :: "json \<Rightarrow> string"
  changeset_dump :: "changeset \<Rightarrow> json dict"
  changeset_decode :: "string \<Rightarrow> changeset res"

definition py_str :: "codecs \<Rightarrow> json \<Rightarrow> string" where
  "py_str c v =
     (case v of
        JNull \<Rightarrow> ''None''
      | JBool b \<Rightarrow> if b then ''True'' else ''False''
      | JInt i \<Rightarrow> int_str i
      | JFloat s \<Rightarrow> s
      | JStr s \<Rightarrow> s
      | _ \<Rightarrow> py_repr c v)"

definition dict_get :: "'v dict \<Rightarrow> string \<Rightarrow> 'v \<Rightarrow> 'v" where
  "dict_get d k otherwise = (case map_of d k of None \<Rightarrow> otherwise | Some v \<Rightarrow> v)"

definition canonical_graph_payload :: "codecs \<Rightarrow> json dict \<Rightarrow> json dict" where
  "canonical_graph_payload c loaded =
     (case map_of loaded ''graph'' of
        Some (JObj starter_graph) \<Rightarrow>
          let semantic_version = dict_get starter_graph ''version'' (JStr ''0.1.0'');
              payload = AList.delete ''version'' starter_graph
          in AList.update ''edges'' (dict_get loaded ''edges'' (JArr []))
               (AList.update ''nodes'' (dict_get loaded ''nodes'' (JArr []))
                 (AList.update ''version'' (JInt 0)
                   (AList.update ''schema_version'' (JStr (py_str c semantic_version)) payload)))
      | _ \<Rightarrow> loaded)"

definition parse_graph :: "codecs \<Rightarrow> string \<Rightarrow> graph res" where
  "parse_graph c content =
     res_bind (yaml_load c content) (\<lambda>loaded.
       case loaded of
         JObj kvs \<Rightarrow> res_bind (graph_fields c (canonical_graph_payload c kvs)) validate_graph
       | _ \<Rightarrow> Inl (TypeError ''graph YAML must contain a mapping''))"

definition serialize_graph :: "codecs \<Rightarrow> graph \<Rightarrow> string" where
  "serialize_graph c g = yaml_dump c g"

section \<open>The store\<close>

definition open_graph_store :: "codecs \<Rightarrow> coordinator \<Rightarrow> disk \<Rightarrow> disk res" where
  "open_graph_store c co d =
     res_bind (recover (co_targets co) (co_legacy_sets co) d) (\<lambda>(_, d).
     res_bind (rebuild_index (changeset_decode c) (dk_files d ''history'')) (\<lambda>_. Inr d))"

definition initialize_graph :: "codecs \<Rightarrow> graph \<Rightarrow> files \<Rightarrow> files" where
  "initialize_graph c g f = f(''graph'' \<mapsto> serialize_graph c g)"

definition load_graph :: "codecs \<Rightarrow> files \<Rightarrow> graph res" where
  "load_graph c f =
     (case f ''graph'' of None \<Rightarrow> Inl UnsafePathError | Some content \<Rightarrow> parse_graph c content)"

definition apply_graph_body :: "codecs \<Rightarrow> changeset \<Rightarrow> graph action" where
  "apply_graph_body c cs =
     act_bind (txn_read ''graph'') (\<lambda>content.
     act_bind (act_lift (parse_graph c content)) (\<lambda>g.
     act_bind (act_lift (apply_changeset g cs)) (\<lambda>next_graph.
     act_bind (act_lift (assert_invariants next_graph)) (\<lambda>_.
     act_bind (txn_write ''graph'' (serialize_graph c next_graph)) (\<lambda>_.
     act_bind (txn_append ''history'' (serialize_changeset (changeset_dump c) cs)) (\<lambda>_.
     act_return next_graph))))))"

definition apply_graph :: "codecs \<Rightarrow> coordinator \<Rightarrow> string \<Rightarrow> changeset \<Rightarrow> disk \<Rightarrow> disk \<times> graph res" where
  "apply_graph c co t cs d = run_transaction co [] [] t (apply_graph_body c cs) d"

definition graph_history :: "codecs \<Rightarrow> files \<Rightarrow> string \<Rightarrow> changeset list res" where
  "graph_history c f subject_id = history (changeset_decode c) (f ''history'') subject_id"

section \<open>Running a body\<close>

lemma act_bind_Inr:
  "act_bind m k s = (s', Inr y) \<longleftrightarrow> (\<exists>s1 x. m s = (s1, Inr x) \<and> k x s1 = (s', Inr y))"
  by (auto simp: act_bind_def split: prod.splits sum.splits)

lemma act_lift_Inr: "act_lift r s = (s', Inr y) \<longleftrightarrow> s' = s \<and> r = Inr y"
  by (auto simp: act_lift_def)

lemma act_guard_Inr: "act_guard bad e s = (s', Inr y) \<longleftrightarrow> s' = s \<and> \<not> bad"
  by (auto simp: act_guard_def)

lemma act_return_Inr: "act_return x s = (s', Inr y) \<longleftrightarrow> s' = s \<and> x = y"
  by (auto simp: act_return_def)

lemma txn_write_Inr:
  "txn_write name content (h, f) = (s', Inr y) \<longleftrightarrow>
     handle_target h name = Inr () \<and> s' = (h, f(name \<mapsto> content))"
  by (auto simp: txn_write_def split: sum.splits)

lemma txn_append_Inr:
  "txn_append name content (h, f) = (s', Inr y) \<longleftrightarrow>
     handle_target h name = Inr () \<and> s' = (h, f(name := append_text (f name) content))"
  by (auto simp: txn_append_def split: sum.splits)

lemma txn_read_optional_target:
  "name \<notin> set (hd_extras h) \<Longrightarrow>
     txn_read_optional name (h, f) = (s', Inr y) \<longleftrightarrow>
       handle_read_target h name = Inr () \<and> s' = (h, f) \<and> y = f name"
  by (auto simp: txn_read_optional_def split: sum.splits)

lemma txn_read_target:
  "name \<notin> set (hd_extras h) \<Longrightarrow>
     txn_read name (h, f) = (s', Inr y) \<longleftrightarrow>
       handle_read_target h name = Inr () \<and> s' = (h, f) \<and> f name = Some y"
  by (auto simp: txn_read_def act_bind_Inr act_return_Inr act_lift_Inr txn_read_optional_target
      split: option.splits)

lemmas act_run = act_bind_Inr act_lift_Inr act_guard_Inr act_return_Inr txn_write_Inr txn_append_Inr
  txn_read_optional_target txn_read_target

lemma new_handle_sel [simp]:
  "hd_extras (new_handle targets extras ro policies) = extras"
  "hd_targets (new_handle targets extras ro policies) = targets"
  "hd_read_only (new_handle targets extras ro policies) = ro"
  "hd_active (new_handle targets extras ro policies) = True"
  by (simp_all add: new_handle_def)

lemma confined_apply_graph: "confined (apply_graph_body c cs)"
  unfolding apply_graph_body_def by (intro confined_intros)

text \<open>What is relied on of PyYAML and Pydantic: a graph that was printed is read back.\<close>

definition graph_reads_back :: "codecs \<Rightarrow> graph \<Rightarrow> bool" where
  "graph_reads_back c g \<longleftrightarrow> parse_graph c (serialize_graph c g) = Inr g"

text \<open>Applying a ChangeSet through the graph store either fails and leaves every file as it was after
  recovery, or returns the graph the applier computes from the stored one; then the stored graph is that
  graph, the stored history is the earlier one followed by the ChangeSet, and no other file changed.\<close>

theorem apply_graph_durable:
  assumes "recover (co_targets co) (co_legacy_sets co) d = Inr (r, \<lparr>dk_files = f0, dk_journal = None\<rparr>)"
    and "records (changeset_decode c) (f0 ''history'') = Inr old"
    and "complete_lines (text_of (f0 ''history''))"
    and "storable_changeset (changeset_dump c) (changeset_decode c) cs"
    and "\<forall>g g'. load_graph c f0 = Inr g \<and> apply_changeset g cs = Inr g' \<longrightarrow> graph_reads_back c g'"
    and "apply_graph c co t cs d = (d', out)"
  shows "dk_journal d' = None \<and>
    (case out of
       Inl _ \<Rightarrow> dk_files d' = f0
     | Inr g' \<Rightarrow>
         (\<exists>g. load_graph c f0 = Inr g \<and> apply_changeset g cs = Inr g') \<and>
         load_graph c (dk_files d') = Inr g' \<and>
         records (changeset_decode c) (dk_files d' ''history'') = Inr (old @ [cs]) \<and>
         (\<forall>name. name \<notin> {''graph'', ''history''} \<longrightarrow> dk_files d' name = f0 name))"
proof -
  have check: "check_extras (co_targets co) [] [] = Inr []"
    by (simp add: check_extras_def extra_read_policies_def disjoint_lists_def)
  let ?h = "new_handle (co_targets co) [] False []"
  obtain h f res where run: "apply_graph_body c cs (?h, f0) = ((h, f), res)" by (metis surj_pair)
  have out: "(d', out) = (case res of Inl e \<Rightarrow> (\<lparr>dk_files = f0, dk_journal = None\<rparr>, Inl e)
      | Inr x \<Rightarrow> (\<lparr>dk_files = f, dk_journal = None\<rparr>, Inr x))"
    using run_transaction_outcome [OF confined_apply_graph [of c cs] check assms(1), of t] run assms(6)
    by (simp add: apply_graph_def split: sum.splits)
  show ?thesis
  proof (cases res)
    case (Inl e)
    then show ?thesis using out by simp
  next
    case (Inr g')
    from run [unfolded Inr] obtain content g where content: "f0 ''graph'' = Some content"
      and g: "parse_graph c content = Inr g" and g': "apply_changeset g cs = Inr g'"
      and f: "f = (f0(''graph'' \<mapsto> serialize_graph c g'))
        (''history'' := append_text (f0 ''history'') (serialize_changeset (changeset_dump c) cs))"
      by (auto simp: apply_graph_body_def act_run)
    have "records (changeset_decode c) (f ''history'') = Inr (old @ [cs])"
      unfolding f using history_file.parse_append [OF assms(2,3,4)] by simp
    moreover have "load_graph c f0 = Inr g" using content g by (simp add: load_graph_def)
    ultimately show ?thesis
      using out Inr g' assms(5) f by (auto simp: load_graph_def graph_reads_back_def)
  qed
qed

text \<open>Codecs that know the sample graph before and after its ChangeSet, and one ChangeSet line each.\<close>

definition sample_codecs :: codecs where
  "sample_codecs =
     \<lparr>yaml_load = (\<lambda>s. Inr (JObj [(''name'', JStr s)])),
      yaml_dump = (\<lambda>g. if g = sample_result then ''after'' else ''before''),
      graph_fields = (\<lambda>kvs. Inr (if kvs = [(''name'', JStr ''after'')] then sample_result else sample_graph)),
      py_repr = (\<lambda>_. []),
      changeset_dump = (\<lambda>cs. [(''id'', JStr (cs_id cs))]),
      changeset_decode = (\<lambda>line. Inr (if line = json_line [(''id'', JStr (cs_id sample_changeset))]
        then sample_changeset else resolving_changeset))\<rparr>"

definition sample_coordinator :: coordinator where
  "sample_coordinator = \<lparr>co_targets = [''graph'', ''history'', ''cases''], co_legacy_sets = []\<rparr>"

definition sample_disk :: disk where
  "sample_disk = \<lparr>dk_files = [''graph'' \<mapsto> ''before''], dk_journal = None\<rparr>"

lemma sample_codecs_facts:
  "load_graph sample_codecs (dk_files sample_disk) = Inr sample_graph"
  "apply_changeset sample_graph sample_changeset = Inr sample_result"
  "graph_reads_back sample_codecs sample_result"
  "storable_changeset (changeset_dump sample_codecs) (changeset_decode sample_codecs) sample_changeset"
  by code_simp+

theorem apply_graph_durable_witness:
  "let (d', out) = apply_graph sample_codecs sample_coordinator [] sample_changeset sample_disk in
   out = Inr sample_result \<and> load_graph sample_codecs (dk_files d') = Inr sample_result \<and>
   records (changeset_decode sample_codecs) (dk_files d' ''history'') = Inr [sample_changeset]"
proof -
  obtain d' out where run: "apply_graph sample_codecs sample_coordinator [] sample_changeset sample_disk = (d', out)"
    by (metis surj_pair)
  have out: "out = Inr sample_result"
  proof -
    have "snd (apply_graph sample_codecs sample_coordinator [] sample_changeset sample_disk) = Inr sample_result"
      by code_simp
    then show ?thesis using run by simp
  qed
  have "recover (co_targets sample_coordinator) (co_legacy_sets sample_coordinator) sample_disk =
      Inr (False, \<lparr>dk_files = dk_files sample_disk, dk_journal = None\<rparr>)"
    by (simp add: sample_disk_def recover_settled)
  moreover have "records (changeset_decode sample_codecs) (dk_files sample_disk ''history'') = Inr []"
    and "complete_lines (text_of (dk_files sample_disk ''history''))"
    by (simp_all add: sample_disk_def records_def splitlines_keep.simps)
  moreover have "\<forall>g g'. load_graph sample_codecs (dk_files sample_disk) = Inr g \<and>
      apply_changeset g sample_changeset = Inr g' \<longrightarrow> graph_reads_back sample_codecs g'"
    by (auto simp: sample_codecs_facts)
  ultimately show ?thesis
    using apply_graph_durable [OF _ _ _ sample_codecs_facts(4) _ run] run out by auto
qed

end
