(* ===== verification/Case_Store.thy ===== *)
theory Case_Store
  imports Ledger Reconciliation
begin

text \<open>
  The append-only ledger of reconciliation cases (\<open>storage/jsonl/case_store.py\<close>), at the level of the
  file's text: every line is one lifecycle version. The state of a store is the content of its file
  (None when it does not exist); every operation reads it again under the path lock, as the code
  does. Pydantic is outside the program: \<open>dump\<close> is \<open>model_dump(mode="json")\<close> and \<open>decode\<close> its
  field-by-field reading of a mapping, before the validators of \<open>Reconciliation\<close> run.
\<close>

section \<open>Operations\<close>

type_synonym case_index = "reconciliation_case dict \<times> reconciliation_case dict"

definition serialize_case :: "(reconciliation_case \<Rightarrow> json dict) \<Rightarrow> reconciliation_case \<Rightarrow> string" where
  "serialize_case dump c = json_line (dump c)"

text \<open>Equality of the dumps without status, resolution, resolving ChangeSet and history.\<close>

definition immutable_identity :: "reconciliation_case \<Rightarrow> reconciliation_case" where
  "immutable_identity c =
     c\<lparr>rc_status := OPEN, rc_resolution := None, rc_resolved_by_changeset := None, rc_history := []\<rparr>"

definition history_extends :: "reconciliation_case \<Rightarrow> reconciliation_case \<Rightarrow> bool" where
  "history_extends previous c \<longleftrightarrow>
     length (rc_history c) = length (rc_history previous) + 1 \<and>
     butlast (rc_history c) = rc_history previous \<and>
     ev_prior (last (rc_history c)) = rc_status previous \<and>
     ev_new (last (rc_history c)) = rc_status c"

definition record_version :: "bool \<Rightarrow> reconciliation_case \<Rightarrow> case_index \<Rightarrow> (bool \<times> case_index) res" where
  "record_version exact_is_noop c index =
     (case index of (latest, fingerprints) \<Rightarrow>
       let previous = map_of latest (rc_id c); owner = map_of fingerprints (rc_fingerprint c);
           recorded = (True, AList.update (rc_id c) c latest,
                       AList.update (rc_fingerprint c) c fingerprints)
       in if (case owner of None \<Rightarrow> False | Some p \<Rightarrow> rc_id p \<noteq> rc_id c)
          then Inl (ConflictingCaseFingerprint (rc_fingerprint c))
          else case previous of
            None \<Rightarrow> Inr recorded
          | Some p \<Rightarrow>
              if immutable_identity p \<noteq> immutable_identity c then Inl (ConflictingCaseId (rc_id c))
              else if p = c then
                (if exact_is_noop then Inr (False, index) else Inl (ConflictingCaseId (rc_id c)))
              else if rc_status p = rc_status c then Inl (ConflictingCaseId (rc_id c))
              else if \<not> history_extends p c then Inl (ConflictingCaseId (rc_id c))
              else Inr recorded)"

definition migrate_legacy_case_payload :: "json \<Rightarrow> json dict res" where
  "migrate_legacy_case_payload payload =
     (case payload of
        JObj migrated \<Rightarrow>
          if map_of migrated ''created_by'' \<noteq> None then Inr migrated
          else
            let from_actor =
              (case map_of migrated ''history'' of
                 Some (JArr (JObj earliest # _)) \<Rightarrow>
                   (case map_of earliest ''actor'' of
                      Some (JStr a) \<Rightarrow> if strip a = [] then None else Some (strip a)
                    | _ \<Rightarrow> None)
               | _ \<Rightarrow> None)
            in (case from_actor of
                  Some a \<Rightarrow> Inr (AList.update ''created_by'' (JStr a) migrated)
                | None \<Rightarrow>
                    (case map_of migrated ''detector_id'' of
                       Some (JStr d) \<Rightarrow>
                         if strip d = [] then Inl (ValueError ''legacy case has no detector provenance'')
                         else Inr (AList.update ''created_by'' (JStr (''detector:'' @ d)) migrated)
                     | _ \<Rightarrow> Inl (ValueError ''legacy case has no detector provenance'')))
      | _ \<Rightarrow> Inl (TypeError ''case record must be a mapping''))"

definition parse_case :: "(json dict \<Rightarrow> reconciliation_case res) \<Rightarrow> string \<Rightarrow> reconciliation_case res"
  where
  "parse_case decode line =
     res_bind (json_loads line) (\<lambda>payload.
     res_bind (migrate_legacy_case_payload payload) (\<lambda>migrated.
     res_bind (decode migrated) validate_case))"

text \<open>The handlers: store errors pass, other value errors are wrapped, anything else passes.\<close>

definition wrap_case_error :: "nat \<Rightarrow> exn \<Rightarrow> exn" where
  "wrap_case_error line_number e =
     (case e of
        ValueError _ \<Rightarrow>
          CaseStoreError (''invalid reconciliation case record at line '' @ nat_str line_number)
      | ValidationError _ \<Rightarrow>
          CaseStoreError (''invalid reconciliation case record at line '' @ nat_str line_number)
      | _ \<Rightarrow> e)"

fun parse_lines ::
  "(json dict \<Rightarrow> reconciliation_case res) \<Rightarrow> nat \<Rightarrow> string list \<Rightarrow>
     reconciliation_case list \<times> case_index \<Rightarrow> (reconciliation_case list \<times> case_index) res" where
  "parse_lines decode n [] st = Inr st"
| "parse_lines decode n (line # lines) (versions, index) =
     (if is_blank line then Inl (CaseStoreError (''blank case record at line '' @ nat_str n))
      else
        (case res_bind (parse_case decode line)
                (\<lambda>c. res_bind (record_version True c index)
                       (\<lambda>(_, index'). Inr (versions @ [c], index'))) of
           Inl e \<Rightarrow> Inl (wrap_case_error n e)
         | Inr st \<Rightarrow> parse_lines decode (Suc n) lines st))"

definition parse_versions_with_history ::
  "(json dict \<Rightarrow> reconciliation_case res) \<Rightarrow> string option \<Rightarrow>
     (reconciliation_case list \<times> case_index) res" where
  "parse_versions_with_history decode content =
     (case content of
        None \<Rightarrow> Inr ([], [], [])
      | Some text \<Rightarrow> parse_lines decode 1 (splitlines_keep text) ([], [], []))"

definition parse_case_versions ::
  "(json dict \<Rightarrow> reconciliation_case res) \<Rightarrow> string option \<Rightarrow> reconciliation_case list res" where
  "parse_case_versions decode content =
     res_bind (parse_versions_with_history decode content) (\<lambda>(versions, _). Inr versions)"

definition validate_case_appends ::
  "(reconciliation_case \<Rightarrow> json dict) \<Rightarrow> (json dict \<Rightarrow> reconciliation_case res) \<Rightarrow> string option \<Rightarrow>
     reconciliation_case list \<Rightarrow> string res" where
  "validate_case_appends dump decode content cases =
     res_bind (parse_versions_with_history decode content) (\<lambda>(_, index).
     res_bind
       (fold_res (\<lambda>c (out, index).
            res_bind (validate_case c) (\<lambda>validated.
            res_bind (record_version False validated index) (\<lambda>(_, index').
              Inr (out @ serialize_case dump validated, index'))))
          cases ([], index))
       (\<lambda>(out, _). Inr out))"

definition put_case ::
  "(reconciliation_case \<Rightarrow> json dict) \<Rightarrow> (json dict \<Rightarrow> reconciliation_case res) \<Rightarrow>
     reconciliation_case \<Rightarrow> string option \<Rightarrow> (bool \<times> string option) res" where
  "put_case dump decode c content =
     (case validate_case c of
        Inl _ \<Rightarrow> Inl (CaseStoreError ''invalid reconciliation case'')
      | Inr c \<Rightarrow>
          res_bind (parse_versions_with_history decode content) (\<lambda>(_, latest, fingerprints).
            if map_of latest (rc_id c) = Some c then Inr (False, content)
            else res_bind (record_version True c (latest, fingerprints))
              (\<lambda>_. Inr (True, append_text content (serialize_case dump c)))))"

definition get_case ::
  "(json dict \<Rightarrow> reconciliation_case res) \<Rightarrow> string option \<Rightarrow> string \<Rightarrow> reconciliation_case res" where
  "get_case decode content case_id =
     res_bind (parse_versions_with_history decode content) (\<lambda>(_, latest, _).
       case map_of latest case_id of None \<Rightarrow> Inl (KeyError case_id) | Some c \<Rightarrow> Inr c)"

definition find_by_fingerprint ::
  "(json dict \<Rightarrow> reconciliation_case res) \<Rightarrow> string option \<Rightarrow> string \<Rightarrow>
     reconciliation_case option res" where
  "find_by_fingerprint decode content fingerprint =
     res_bind (parse_versions_with_history decode content)
       (\<lambda>(_, _, fingerprints). Inr (map_of fingerprints fingerprint))"

definition list_cases ::
  "(json dict \<Rightarrow> reconciliation_case res) \<Rightarrow> string option \<Rightarrow> ReconciliationStatus option \<Rightarrow>
     reconciliation_case list res" where
  "list_cases decode content status =
     res_bind (parse_versions_with_history decode content) (\<lambda>(_, latest, _).
       let cases = dict_values latest;
           chosen = (case status of None \<Rightarrow> cases | Some s \<Rightarrow> filter (\<lambda>c. rc_status c = s) cases)
       in Inr (sort_key rc_id chosen))"

section \<open>Index invariants\<close>

text \<open>The index a list of accepted versions leaves: the last version of every identity and the
  last holder of every fingerprint.\<close>

definition index_of :: "reconciliation_case list \<Rightarrow> case_index" where
  "index_of versions = (dict_of rc_id versions, dict_of rc_fingerprint versions)"

text \<open>What the ledger guarantees of its versions, in file order.\<close>

definition succeeds :: "reconciliation_case \<Rightarrow> reconciliation_case \<Rightarrow> bool" where
  "succeeds p c \<longleftrightarrow>
     immutable_identity p = immutable_identity c \<and>
     (\<exists>es. rc_history c = rc_history p @ es \<and> (es = [] \<longrightarrow> p = c))"

definition versions_ok :: "reconciliation_case list \<Rightarrow> bool" where
  "versions_ok versions \<longleftrightarrow>
     (\<forall>c \<in> set versions. case_ok c) \<and>
     sorted_wrt (\<lambda>p c. rc_id p = rc_id c \<longrightarrow> succeeds p c) versions \<and>
     (\<forall>p \<in> set versions. \<forall>c \<in> set versions. rc_fingerprint p = rc_fingerprint c \<longrightarrow> rc_id p = rc_id c)"

lemma succeeds_refl [simp]: "succeeds c c"
  by (simp add: succeeds_def)

lemma succeeds_trans: "succeeds p q \<Longrightarrow> succeeds q c \<Longrightarrow> succeeds p c"
  unfolding succeeds_def by fastforce

lemma history_extends_succeeds:
  "immutable_identity p = immutable_identity c \<Longrightarrow> history_extends p c \<Longrightarrow> succeeds p c"
  unfolding succeeds_def history_extends_def
  by (intro conjI exI [of _ "[last (rc_history c)]"])
    (simp_all, metis append_butlast_last_id length_0_conv nat.distinct(1))

lemma immutable_identity_eq:
  "immutable_identity p = immutable_identity c \<Longrightarrow> rc_id p = rc_id c \<and> rc_fingerprint p = rc_fingerprint c"
  by (cases p; cases c) (simp add: immutable_identity_def)

lemma succeeds_last:
  assumes "sorted_wrt (\<lambda>p c. rc_id p = rc_id c \<longrightarrow> succeeds p c) vs"
    and "map_of (dict_of rc_id vs) k = Some q" and "p \<in> set vs" and "rc_id p = k"
  shows "succeeds p q"
  using assms(1,2)[unfolded dict_of_find] assms(3,4)
proof (induction vs rule: rev_induct)
  case (snoc x vs)
  then show ?case by (auto simp: sorted_wrt_append split: if_splits)
qed simp

lemma versions_okD:
  "versions_ok vs \<Longrightarrow> p \<in> set vs \<Longrightarrow> c \<in> set vs \<Longrightarrow> rc_fingerprint p = rc_fingerprint c \<Longrightarrow>
     rc_id p = rc_id c"
  unfolding versions_ok_def by blast

lemma versions_ok_snoc:
  assumes "versions_ok vs" and "case_ok c"
    and "\<And>p. p \<in> set vs \<Longrightarrow> rc_id p = rc_id c \<Longrightarrow> succeeds p c"
    and "\<And>p. p \<in> set vs \<Longrightarrow> rc_fingerprint p = rc_fingerprint c \<Longrightarrow> rc_id p = rc_id c"
  shows "versions_ok (vs @ [c])"
proof -
  have "\<forall>p \<in> set vs \<union> {c}. \<forall>q \<in> set vs \<union> {c}. rc_fingerprint p = rc_fingerprint q \<longrightarrow> rc_id p = rc_id q"
    using assms(4) versions_okD [OF assms(1)] by (metis Un_iff singletonD)
  moreover have "sorted_wrt (\<lambda>p c. rc_id p = rc_id c \<longrightarrow> succeeds p c) (vs @ [c])"
    using assms(3) conjunct1 [OF conjunct2 [OF assms(1) [unfolded versions_ok_def]]]
    by (simp add: sorted_wrt_append)
  moreover have "\<forall>p \<in> set vs \<union> {c}. case_ok p"
    using assms(1,2) unfolding versions_ok_def by blast
  moreover have "set (vs @ [c]) = set vs \<union> {c}" by simp
  ultimately show ?thesis unfolding versions_ok_def by (simp only:)
qed

lemma same_holder:
  assumes "versions_ok vs" and "map_of (dict_of rc_id vs) (rc_id c) = Some c"
  shows "map_of (dict_of rc_fingerprint vs) (rc_fingerprint c) = Some c"
proof -
  from assms(2) have c: "c \<in> set vs" by (auto dest: dict_of_lookup simp del: map_of_eq_Some_iff)
  have "rc_id x = rc_id c \<longleftrightarrow> rc_fingerprint x = rc_fingerprint c" if "x \<in> set vs" for x
  proof
    assume id: "rc_id x = rc_id c"
    have "succeeds x c"
      using assms(1) by (intro succeeds_last [OF _ assms(2) that id]) (simp add: versions_ok_def)
    then show "rc_fingerprint x = rc_fingerprint c"
      unfolding succeeds_def by (blast dest: immutable_identity_eq)
  next
    assume "rc_fingerprint x = rc_fingerprint c"
    with assms(1) that c show "rc_id x = rc_id c" by (rule versions_okD)
  qed
  then have "find (\<lambda>x. rc_fingerprint x = rc_fingerprint c) (rev vs) = find (\<lambda>x. rc_id x = rc_id c) (rev vs)"
    by (intro find_cong) auto
  with assms(2) show ?thesis by (simp only: dict_of_find)
qed

lemma record_version_ok:
  assumes ok: "versions_ok vs" and c: "case_ok c"
    and run: "record_version noop c (index_of vs) = Inr (changed, index')"
  shows "versions_ok (vs @ [c])" and "index' = index_of (vs @ [c])"
    and "changed \<longleftrightarrow> map_of (dict_of rc_id vs) (rc_id c) \<noteq> Some c"
proof -
  let ?prev = "map_of (dict_of rc_id vs) (rc_id c)"
    and ?owner = "map_of (dict_of rc_fingerprint vs) (rc_fingerprint c)"
  have owner: "\<And>q. ?owner = Some q \<Longrightarrow> rc_id q = rc_id c"
    using run by (auto simp: record_version_def index_of_def Let_def split: option.splits if_splits
        simp del: map_of_eq_Some_iff)
  have prev: "succeeds q c" if "?prev = Some q" for q
    using run that
    by (auto simp: record_version_def index_of_def Let_def split: option.splits if_splits
        intro: history_extends_succeeds simp del: map_of_eq_Some_iff)
  have before: "succeeds p c" if "p \<in> set vs" "rc_id p = rc_id c" for p
  proof -
    from that have "?prev \<noteq> None" by (auto simp: dict_of_find find_None_iff)
    then obtain q where q: "?prev = Some q" by blast
    have "succeeds p q"
      using ok by (intro succeeds_last [OF _ q that]) (simp add: versions_ok_def)
    with prev [OF q] show ?thesis by (blast intro: succeeds_trans)
  qed
  have fp: "rc_id p = rc_id c" if "p \<in> set vs" "rc_fingerprint p = rc_fingerprint c" for p
  proof -
    from that have "?owner \<noteq> None" by (auto simp: dict_of_find find_None_iff)
    then obtain q where q: "?owner = Some q" by blast
    then have "q \<in> set vs" "rc_fingerprint q = rc_fingerprint c"
      by (auto dest: dict_of_lookup simp del: map_of_eq_Some_iff)
    with versions_okD [OF ok that(1), of q] that owner [OF q] show ?thesis by simp
  qed
  show "versions_ok (vs @ [c])"
    using ok c before fp by (rule versions_ok_snoc)
  show "index' = index_of (vs @ [c])"
    using run same_holder [OF ok, of c]
    by (auto simp: record_version_def index_of_def Let_def dict_update_same split: option.splits if_splits
        simp del: map_of_eq_Some_iff)
  show "changed \<longleftrightarrow> ?prev \<noteq> Some c"
    using run by (auto simp: record_version_def index_of_def Let_def split: option.splits if_splits
        simp del: map_of_eq_Some_iff)
qed

section \<open>The file and its versions\<close>

lemma versions_ok_Nil [simp]: "versions_ok []"
  by (simp add: versions_ok_def)

lemma parse_case_ok: "parse_case decode line = Inr c \<Longrightarrow> case_ok c"
  by (auto simp: parse_case_def res_simps validate_case_Inr_iff)

lemma parse_lines_ok:
  "parse_lines decode n lines (vs, index_of vs) = Inr (vs', index') \<Longrightarrow> versions_ok vs \<Longrightarrow>
     versions_ok vs' \<and> index' = index_of vs'"
proof (induction lines arbitrary: n vs)
  case (Cons line lines)
  then obtain c changed index1 where c: "parse_case decode line = Inr c"
    and rv: "record_version True c (index_of vs) = Inr (changed, index1)"
    and rest: "parse_lines decode (Suc n) lines (vs @ [c], index1) = Inr (vs', index')"
    by (auto simp: res_bind_def split: if_splits sum.splits prod.splits)
  note rec = record_version_ok [OF Cons.prems(2) parse_case_ok [OF c] rv]
  from Cons.IH [OF rest [unfolded rec(2)] rec(1)] show ?case .
qed simp

lemma parse_versions_ok:
  assumes "parse_versions_with_history decode content = Inr (vs, index)"
  shows "versions_ok vs \<and> index = index_of vs"
proof (cases content)
  case None
  with assms show ?thesis by (simp add: parse_versions_with_history_def index_of_def dict_of_def)
next
  case (Some body)
  have "index_of [] = ([], [])" by (simp add: index_of_def dict_of_def)
  with assms Some show ?thesis
    using parse_lines_ok [of decode 1 "splitlines_keep body" "[]" vs index]
    by (simp add: parse_versions_with_history_def)
qed

lemma parse_lines_append:
  "parse_lines decode n (xs @ ys) st =
     res_bind (parse_lines decode n xs st) (parse_lines decode (n + length xs) ys)"
proof (induction xs arbitrary: n st)
  case (Cons x xs)
  then show ?case by (cases st) (auto split: sum.split)
qed simp

text \<open>Pydantic reads a dump back: the fields of the canonical print, in key order, give the case.\<close>

definition reads_back ::
  "(reconciliation_case \<Rightarrow> json dict) \<Rightarrow> (json dict \<Rightarrow> reconciliation_case res) \<Rightarrow>
     reconciliation_case \<Rightarrow> bool" where
  "reads_back dump decode c \<longleftrightarrow>
     wf_json (JObj (dump c)) \<and>
     (case canon (JObj (dump c)) of
        JObj kvs \<Rightarrow> map_of kvs ''created_by'' \<noteq> None \<and> decode kvs = Inr c
      | _ \<Rightarrow> False)"

lemma parse_case_serialize:
  assumes "reads_back dump decode c" and "case_ok c"
  shows "parse_case decode (serialize_case dump c) = Inr c"
proof -
  from assms(1) have wf: "wf_json (JObj (dump c))" by (simp only: reads_back_def)
  obtain kvs where kvs: "canon (JObj (dump c)) = JObj kvs" by simp
  have "json_loads (serialize_case dump c) = Inr (JObj kvs)"
    unfolding serialize_case_def json_line_def json_loads_dumps_line [OF wf] kvs ..
  moreover have "migrate_legacy_case_payload (JObj kvs) = Inr kvs" and "decode kvs = Inr c"
    using assms(1) unfolding reads_back_def kvs migrate_legacy_case_payload_def by simp_all
  ultimately show ?thesis
    using assms(2) by (simp add: parse_case_def validate_case_Inr_iff)
qed

lemma serialize_case_line:
  assumes "one_line (dumps False (JObj (dump c)))"
  shows "splitlines_keep (serialize_case dump c) = [serialize_case dump c]"
    and "complete_lines (serialize_case dump c)" and "\<not> is_blank (serialize_case dump c)"
  using json_line(2) [OF assms] by (simp_all add: serialize_case_def)

lemma parse_versions_text:
  "parse_versions_with_history decode content =
     parse_lines decode 1 (splitlines_keep (text_of content)) ([], [], [])"
  by (cases content) (simp_all add: parse_versions_with_history_def text_of_def splitlines_keep.simps)

text \<open>Appending one version's line appends the version, if the ledger accepts it.\<close>

lemma parse_append_version:
  assumes parse: "parse_versions_with_history decode content = Inr (vs, index)"
    and complete: "complete_lines (text_of content)"
    and c: "reads_back dump decode c" "case_ok c" "one_line (dumps False (JObj (dump c)))"
    and rv: "record_version True c index = Inr (changed, index')"
  shows "parse_versions_with_history decode (append_text content (serialize_case dump c)) =
    Inr (vs @ [c], index_of (vs @ [c]))"
proof -
  note line = serialize_case_line [where dump = dump, OF c(3)]
  from parse_versions_ok [OF parse] have ok: "versions_ok vs" and index: "index = index_of vs" by auto
  have body: "text_of (append_text content (serialize_case dump c)) =
      text_of content @ serialize_case dump c"
    by (simp add: text_of_def append_text_def)
  have "parse_lines decode n [serialize_case dump c] (vs, index) = Inr (vs @ [c], index')" for n
    using line(3) parse_case_serialize [OF c(1,2)] rv by simp
  then have "parse_versions_with_history decode (append_text content (serialize_case dump c)) =
      Inr (vs @ [c], index')"
    using parse unfolding parse_versions_text body splitlines_keep_append [OF complete] line(1)
      parse_lines_append by simp
  then show ?thesis
    using record_version_ok(2) [OF ok c(2)] rv by (simp add: index)
qed

section \<open>Validated appends\<close>

definition storable ::
  "(reconciliation_case \<Rightarrow> json dict) \<Rightarrow> (json dict \<Rightarrow> reconciliation_case res) \<Rightarrow>
     reconciliation_case \<Rightarrow> bool" where
  "storable dump decode c \<longleftrightarrow> reads_back dump decode c \<and> one_line (dumps False (JObj (dump c)))"

lemma record_version_noop_mono:
  "record_version False c index = Inr (changed, index') \<Longrightarrow>
     record_version True c index = Inr (changed, index')"
  by (auto simp: record_version_def Let_def split: prod.splits option.splits if_splits
      simp del: map_of_eq_Some_iff)

definition append_step where
  "append_step dump c st =
     (case st of (out, index) \<Rightarrow>
        res_bind (validate_case c) (\<lambda>validated.
        res_bind (record_version False validated index) (\<lambda>(_, index').
          Inr (out @ serialize_case dump validated, index'))))"

lemma append_steps_parse:
  assumes "fold_res (append_step dump) cases (out, index) = Inr (out', index')"
    and "parse_versions_with_history decode (append_text content out) = Inr (vs, index)"
    and "complete_lines (text_of content @ out)" and "\<And>c. c \<in> set cases \<Longrightarrow> storable dump decode c"
  shows "parse_versions_with_history decode (append_text content out') =
      Inr (vs @ cases, index_of (vs @ cases)) \<and> complete_lines (text_of content @ out')"
  using assms
proof (induction cases arbitrary: out index vs)
  case Nil
  then show ?case using parse_versions_ok by fastforce
next
  case (Cons c cases)
  from Cons.prems(1) obtain st where st: "append_step dump c (out, index) = Inr st"
    and rest: "fold_res (append_step dump) cases st = Inr (out', index')"
    by (auto split: sum.splits)
  from st obtain changed index1 where ok: "case_ok c"
    and rv: "record_version False c index = Inr (changed, index1)"
    and st_eq: "st = (out @ serialize_case dump c, index1)"
    by (auto simp: append_step_def res_bind_def validate_case_Inr_iff split: sum.splits prod.splits)
  note rest = rest [unfolded st_eq]
  from Cons.prems(4) [of c] have c: "reads_back dump decode c" "one_line (dumps False (JObj (dump c)))"
    by (simp_all add: storable_def)
  have "complete_lines (text_of (append_text content out))" using Cons.prems(3) by simp
  note parse = parse_append_version [OF Cons.prems(2) this c(1) ok c(2) record_version_noop_mono [OF rv]]
  from parse_versions_ok [OF Cons.prems(2)] have "versions_ok vs" "index = index_of vs" by auto
  with record_version_ok(2) [OF _ ok] rv have "index1 = index_of (vs @ [c])" by blast
  with parse have "parse_versions_with_history decode
      (append_text content (out @ serialize_case dump c)) = Inr (vs @ [c], index1)"
    by (simp only: append_text_append)
  moreover have "complete_lines (text_of content @ out @ serialize_case dump c)"
    using Cons.prems(3) serialize_case_line(2) [where dump = dump, OF c(2)]
    by (metis append_assoc complete_lines_append)
  ultimately show ?case using Cons.IH [OF rest] Cons.prems(4) by auto
qed

lemma validate_case_appends_parse:
  assumes "validate_case_appends dump decode content cases = Inr out"
    and "parse_versions_with_history decode content = Inr (vs, index)"
    and "complete_lines (text_of content)" and "\<And>c. c \<in> set cases \<Longrightarrow> storable dump decode c"
  shows "parse_versions_with_history decode (append_text content out) =
      Inr (vs @ cases, index_of (vs @ cases)) \<and> complete_lines (text_of content @ out)"
proof -
  from assms(1,2) obtain index' where
    "fold_res (append_step dump) cases ([], index) = Inr (out, index')"
    by (auto simp: validate_case_appends_def append_step_def [abs_def] res_simps case_prod_beta')
  moreover have "parse_versions_with_history decode (append_text content []) = Inr (vs, index)"
    using assms(2) unfolding parse_versions_text by simp
  moreover have "complete_lines (text_of content @ [])" using assms(3) by simp
  ultimately show ?thesis using append_steps_parse assms(4) by blast
qed

text \<open>The case file provides the interface of a ledger: a version is accepted when it is a well-formed
  case that Pydantic reads back and the version rules let it follow.\<close>

definition case_accepts ::
  "(reconciliation_case \<Rightarrow> json dict) \<Rightarrow> (json dict \<Rightarrow> reconciliation_case res) \<Rightarrow>
     reconciliation_case list \<Rightarrow> reconciliation_case \<Rightarrow> bool" where
  "case_accepts dump decode vs c \<longleftrightarrow>
     storable dump decode c \<and> case_ok c \<and> (\<exists>st. record_version True c (index_of vs) = Inr st)"

interpretation case_file: append_ledger "parse_case_versions decode" "serialize_case dump"
  "case_accepts dump decode" for dump decode
proof
  show "parse_case_versions decode None = Inr []"
    by (simp add: parse_case_versions_def parse_versions_with_history_def)
  show "parse_case_versions decode (Some (text_of content)) = parse_case_versions decode content" for content
    by (simp add: parse_case_versions_def parse_versions_text)
  show "complete_lines (serialize_case dump c)" for c
    by (simp add: serialize_case_def)
  fix content vs c
  assume parse: "parse_case_versions decode content = Inr vs"
    and complete: "complete_lines (text_of content)" and c: "case_accepts dump decode vs c"
  from parse obtain index where index: "parse_versions_with_history decode content = Inr (vs, index)"
    by (auto simp: parse_case_versions_def res_simps)
  with c obtain changed index' where "record_version True c index = Inr (changed, index')"
    using parse_versions_ok [OF index] unfolding case_accepts_def by (metis surj_pair)
  then show "parse_case_versions decode (append_text content (serialize_case dump c)) = Inr (vs @ [c])"
    using parse_append_version [OF index complete] c
    by (simp add: case_accepts_def storable_def parse_case_versions_def)
qed

section \<open>Properties\<close>

lemma put_case_True:
  assumes "put_case dump decode c content = Inr (True, content')"
    and "parse_versions_with_history decode content = Inr (vs, index)"
  shows "case_ok c" and "content' = append_text content (serialize_case dump c)"
    and "\<exists>changed index'. record_version True c index = Inr (changed, index')"
proof -
  from assms(1) have ok: "validate_case c = Inr c"
    by (cases "validate_case c") (auto simp: put_case_def validate_case_Inr_iff)
  then show "case_ok c" by (simp add: validate_case_Inr_iff)
  show "content' = append_text content (serialize_case dump c)"
    and "\<exists>changed index'. record_version True c index = Inr (changed, index')"
    using assms ok by (auto simp: put_case_def res_simps split: if_splits prod.splits)
qed

lemma get_case_index:
  "parse_versions_with_history decode content = Inr (vs, index_of vs) \<Longrightarrow>
     get_case decode content k =
       (case map_of (dict_of rc_id vs) k of None \<Rightarrow> Inl (KeyError k) | Some c \<Rightarrow> Inr c)"
  by (simp add: get_case_def index_of_def)

text \<open>Storing a new case version appends exactly that version to a readable ledger: reading the
  file again gives the earlier versions and the new one, a lookup by identity gives the new
  version, every other identity reads as before, and storing the same version again changes
  nothing. The ledger must end its last line, the printed line must hold no line boundary, and
  pydantic must read its own dump back.\<close>

theorem put_case_appends:
  assumes put: "put_case dump decode c content = Inr (True, content')"
    and parse: "parse_versions_with_history decode content = Inr (vs, index)"
    and "complete_lines (text_of content)" and "reads_back dump decode c"
    and "one_line (dumps False (JObj (dump c)))"
  shows "parse_case_versions decode content' = Inr (vs @ [c]) \<and>
    get_case decode content' (rc_id c) = Inr c \<and>
    (\<forall>k. k \<noteq> rc_id c \<longrightarrow> get_case decode content' k = get_case decode content k) \<and>
    put_case dump decode c content' = Inr (False, content')"
proof -
  note p = put_case_True [OF put parse]
  from p(3) obtain changed index' where rv: "record_version True c index = Inr (changed, index')"
    by blast
  have parse': "parse_versions_with_history decode content' = Inr (vs @ [c], index_of (vs @ [c]))"
    unfolding p(2) using parse assms(3,4) p(1) assms(5) rv by (rule parse_append_version)
  have "index = index_of vs" using parse_versions_ok [OF parse] by simp
  note old = get_case_index [OF parse [unfolded this]] and new = get_case_index [OF parse']
  have "put_case dump decode c content' = Inr (False, content')"
    using p(1) parse' by (simp add: put_case_def validate_case_Inr_iff [of c c, THEN iffD2] index_of_def)
  then show ?thesis using parse' old new by (simp add: parse_case_versions_def)
qed

definition sample_dump :: "reconciliation_case \<Rightarrow> json dict" where
  "sample_dump c =
     [(''id'', JStr (rc_id c)), (''created_by'', JStr (rc_created_by c)), (''impact'', JStr (rc_impact c))]"

definition sample_decode :: "json dict \<Rightarrow> reconciliation_case res" where
  "sample_decode kvs =
     (case (map_of kvs ''id'', map_of kvs ''impact'') of
        (Some (JStr i), Some (JStr m)) \<Rightarrow> Inr ((sample_case i)\<lparr>rc_impact := m\<rparr>)
      | _ \<Rightarrow> Inl (ValidationError ''id''))"

theorem put_case_appends_witness:
  "\<exists>content'. put_case sample_dump sample_decode (sample_case ''c1'') None = Inr (True, content') \<and>
     parse_case_versions sample_decode content' = Inr [sample_case ''c1'']"
proof -
  let ?c = "sample_case ''c1''"
  let ?content' = "append_text None (serialize_case sample_dump ?c)"
  have "put_case sample_dump sample_decode ?c None = Inr (True, ?content')"
    and "parse_versions_with_history sample_decode None = Inr ([], [], [])"
    and "complete_lines (text_of None)" and "reads_back sample_dump sample_decode ?c"
    and "one_line (dumps False (JObj (sample_dump ?c)))"
    by code_simp+
  from put_case_appends [OF this] this(1) show ?thesis by auto
qed

text \<open>C35: Whatever a readable ledger holds, its versions form lifecycles: each is a well-formed case,
  a later version of an identity has the same immutable fields and extends the history of every
  earlier one, and no fingerprint belongs to two identities.\<close>

theorem case_ledger_versions:
  assumes "parse_case_versions decode content = Inr vs"
  shows "(\<forall>c \<in> set vs. case_ok c) \<and>
    sorted_wrt (\<lambda>p c. rc_id p = rc_id c \<longrightarrow> immutable_identity p = immutable_identity c \<and>
       (\<exists>es. rc_history c = rc_history p @ es \<and> (es = [] \<longrightarrow> p = c))) vs \<and>
    (\<forall>p \<in> set vs. \<forall>c \<in> set vs. rc_fingerprint p = rc_fingerprint c \<longrightarrow> rc_id p = rc_id c)"
proof -
  from assms obtain index where "parse_versions_with_history decode content = Inr (vs, index)"
    by (auto simp: parse_case_versions_def res_simps)
  then have "versions_ok vs" using parse_versions_ok by blast
  then show ?thesis unfolding versions_ok_def succeeds_def .
qed

theorem case_ledger_versions_witness:
  "parse_case_versions sample_decode (append_text None (serialize_case sample_dump (sample_case ''c1'')))
     = Inr [sample_case ''c1''] \<and> case_ok (sample_case ''c1'')"
proof -
  have "parse_case_versions sample_decode
      (append_text None (serialize_case sample_dump (sample_case ''c1''))) = Inr [sample_case ''c1'']"
    by code_simp
  from case_ledger_versions [OF this] this show ?thesis by simp
qed

text \<open>The ledger is written without escaping non-ASCII characters but read with
  \<open>str.splitlines\<close>, which also breaks lines at the character 0x85: a valid case with that character
  in its text is stored successfully, and from then on the store refuses every read.\<close>

theorem case_ledger_unreadable_after_nel:
  "\<exists>dump decode c content'. case_ok c \<and> reads_back dump decode c \<and>
     put_case dump decode c None = Inr (True, content') \<and>
     (\<forall>k. get_case decode content' k =
        Inl (CaseStoreError ''invalid reconciliation case record at line 1''))"
proof -
  let ?c = "(sample_case ''c1'')\<lparr>rc_impact := [CHR 0x85]\<rparr>"
  let ?content' = "append_text None (serialize_case sample_dump ?c)"
  have "case_ok ?c" and "reads_back sample_dump sample_decode ?c"
    and "put_case sample_dump sample_decode ?c None = Inr (True, ?content')"
    by code_simp+
  moreover have "parse_versions_with_history sample_decode ?content' =
      Inl (CaseStoreError ''invalid reconciliation case record at line 1'')"
    by code_simp
  then have "\<forall>k. get_case sample_decode ?content' k =
      Inl (CaseStoreError ''invalid reconciliation case record at line 1'')"
    by (simp add: get_case_def)
  ultimately show ?thesis by blast
qed

text \<open>What \<open>validate_case_appends\<close> prepares for a transaction is exactly what the ledger accepts:
  appended to the content it was checked against, it makes the ledger hold the earlier versions
  followed by the given ones.\<close>

theorem validate_case_appends_sound:
  assumes "validate_case_appends dump decode content cases = Inr out"
    and "parse_case_versions decode content = Inr vs"
    and "complete_lines (text_of content)" and "list_all (storable dump decode) cases"
  shows "parse_case_versions decode (append_text content out) = Inr (vs @ cases)"
  using assms validate_case_appends_parse [of dump decode content cases out vs]
  by (auto simp: parse_case_versions_def res_simps list_all_iff)

theorem validate_case_appends_sound_witness:
  "parse_case_versions sample_decode
     (append_text None (serialize_case sample_dump (sample_case ''c1''))) = Inr ([] @ [sample_case ''c1''])"
proof -
  have "validate_case_appends sample_dump sample_decode None [sample_case ''c1''] =
      Inr (serialize_case sample_dump (sample_case ''c1''))"
    and "parse_case_versions sample_decode None = Inr []" and "complete_lines (text_of None)"
    and "list_all (storable sample_dump sample_decode) [sample_case ''c1'']"
    by code_simp+
  then show ?thesis by (rule validate_case_appends_sound)
qed

end
