(* ===== verification/Executor.thy ===== *)
theory Executor
  imports Graph_Store Case_Store
begin

text \<open>
  The transaction-level executor of ChangeSets (\<open>storage/executor.py\<close>): the graph, the history and the
  reconciliation effects of a ChangeSet, and bindings to what the caller has read before, in one local
  transaction. Cancellation (\<open>BaseException\<close>) is the crash of \<open>Transaction\<close>; the clearing of local
  variables in the code's \<open>finally\<close> clause has no effect on state.
\<close>

record exec_codecs = codecs +
  case_dump :: "reconciliation_case \<Rightarrow> json dict"
  case_decode :: "json dict \<Rightarrow> reconciliation_case res"

definition ordered_effects ::
  "changeset \<Rightarrow> reconciliation_case list \<Rightarrow> reconciliation_case list \<Rightarrow> reconciliation_case list res" where
  "ordered_effects cs created_cases resolved_cases =
     (let created = dict_of rc_id created_cases; resolved = dict_of rc_id resolved_cases in
      if length created \<noteq> length created_cases \<or> length resolved \<noteq> length resolved_cases \<or>
         map fst created \<noteq> cs_reconciliation_cases_created cs \<or>
         map fst resolved \<noteq> cs_reconciliation_cases_resolved cs
      then Inl CaseEffectMismatch
      else if list_ex (\<lambda>c. rc_status c \<noteq> OPEN) (dict_values created) then Inl CaseEffectMismatch
      else if list_ex (\<lambda>c. rc_status c \<noteq> RESOLVED \<or> rc_resolved_by_changeset c \<noteq> Some (cs_id cs))
          (dict_values resolved) then Inl CaseEffectMismatch
      else Inr (dict_values created @ dict_values resolved))"

text \<open>The keyword arguments of \<open>apply\<close>; the extras' contents are among the files.\<close>

record apply_request =
  ar_created_cases :: "reconciliation_case list"
  ar_resolved_cases :: "reconciliation_case list"
  ar_intent_proposal_preimage :: "string option"
  ar_intent_proposal_append :: "string option"
  ar_graph_preimage :: "string option"
  ar_evidence_preimage :: "string option"
  ar_case_preimage :: "string option"
  ar_bind_case_preimage :: bool
  ar_read_only_extras :: "string list option"
  ar_extra_preimages :: "string option dict option"
  ar_extra_read_policies :: "read_policy dict option"

definition request_error :: "coordinator \<Rightarrow> apply_request \<Rightarrow> exn option" where
  "request_error co rq =
     (if (ar_intent_proposal_preimage rq = None) \<noteq> (ar_intent_proposal_append rq = None) \<or>
         ar_intent_proposal_append rq = Some []
      then Some (ValueError ''invalid intent proposal transaction effect'')
      else if ar_intent_proposal_append rq \<noteq> None \<and> ''intent_proposals'' \<notin> set (co_targets co)
      then Some (ValueError ''intent proposal transaction target is unavailable'')
      else if ar_evidence_preimage rq \<noteq> None \<and> ''evidence'' \<notin> set (co_targets co)
      then Some (ValueError ''evidence transaction target is unavailable'')
      else if ar_case_preimage rq \<noteq> None \<and> \<not> ar_bind_case_preimage rq
      then Some (ValueError ''case preimage requires an explicit binding'')
      else if (ar_read_only_extras rq = None) \<noteq> (ar_extra_preimages rq = None) \<or>
         (case ar_read_only_extras rq of
            None \<Rightarrow> False
          | Some extras \<Rightarrow>
              set extras \<noteq> set (map fst (case ar_extra_preimages rq of None \<Rightarrow> [] | Some d \<Rightarrow> d))) \<or>
         (case ar_extra_read_policies rq of
            None \<Rightarrow> False
          | Some policies \<Rightarrow>
              set (map fst policies) \<noteq>
                set (case ar_read_only_extras rq of None \<Rightarrow> [] | Some extras \<Rightarrow> extras))
      then Some (ValueError ''invalid read-only transaction binding'')
      else None)"

text \<open>\<open>any(transaction.read_optional(name) != content for ...)\<close>, stopping at the first difference.\<close>

fun extras_changed :: "string option dict \<Rightarrow> bool action" where
  "extras_changed [] = act_return False"
| "extras_changed ((name, content) # rest) =
     act_bind (txn_read_optional name) (\<lambda>current.
       if current \<noteq> content then act_return True else extras_changed rest)"

definition effects_unknown :: "graph \<Rightarrow> reconciliation_case list \<Rightarrow> bool" where
  "effects_unknown g effects =
     (let known_nodes = map nd_id (g_nodes g) in
      list_ex (\<lambda>c. rc_subject_ref c \<notin> set known_nodes \<or>
        list_ex (\<lambda>reference. reference \<notin> set known_nodes) (rc_affected_refs c)) effects)"

definition bind_graph :: "apply_request \<Rightarrow> unit action" where
  "bind_graph rq =
     (case ar_graph_preimage rq of
        None \<Rightarrow> act_return ()
      | Some preimage \<Rightarrow>
          act_bind (txn_read ''graph'') (\<lambda>content.
            act_guard (content \<noteq> preimage) (ValueError ''graph authorization changed'')))"

definition append_proposals :: "apply_request \<Rightarrow> unit action" where
  "append_proposals rq =
     (case ar_intent_proposal_append rq of
        None \<Rightarrow> act_return ()
      | Some addition \<Rightarrow>
          act_bind (txn_read_optional ''intent_proposals'') (\<lambda>content.
          act_bind (act_guard (content \<noteq> ar_intent_proposal_preimage rq)
              (ValueError ''intent proposal ledger changed'')) (\<lambda>_.
          txn_append ''intent_proposals'' addition)))"

definition bind_evidence :: "apply_request \<Rightarrow> unit action" where
  "bind_evidence rq =
     (case ar_evidence_preimage rq of
        None \<Rightarrow> act_return ()
      | Some preimage \<Rightarrow>
          act_bind (txn_read_optional ''evidence'') (\<lambda>content.
            act_guard (content \<noteq> Some preimage) (ValueError ''evidence authorization changed'')))"

definition bind_cases :: "apply_request \<Rightarrow> unit action" where
  "bind_cases rq =
     (if ar_bind_case_preimage rq
      then act_bind (txn_read_optional ''cases'') (\<lambda>content.
        act_guard (content \<noteq> ar_case_preimage rq) (ValueError ''case authorization changed''))
      else act_return ())"

text \<open>The body of the transaction: read-only bindings, prevalidation, bindings, writes.\<close>

definition check_extras_unchanged :: "apply_request \<Rightarrow> unit action" where
  "check_extras_unchanged rq =
     act_bind (case ar_extra_preimages rq of None \<Rightarrow> act_return False | Some d \<Rightarrow> extras_changed d) (\<lambda>changed.
       act_guard changed (ValueError ''read-only transaction binding changed''))"

definition prevalidate ::
  "exec_codecs \<Rightarrow> changeset \<Rightarrow> reconciliation_case list \<Rightarrow> (graph \<times> string) action" where
  "prevalidate c validated effects =
     act_bind (txn_read ''graph'') (\<lambda>content.
     act_bind (act_lift (parse_graph (codecs.truncate c) content)) (\<lambda>g.
     act_bind (act_lift (apply_changeset_with_case_effects g validated)) (\<lambda>next_graph.
     act_bind (act_guard (effects_unknown next_graph effects) CaseEffectMismatch) (\<lambda>_.
     act_bind (txn_read_optional ''cases'') (\<lambda>cases.
     act_bind (act_lift (validate_case_appends (case_dump c) (case_decode c) cases effects)) (\<lambda>case_bytes.
     act_return (next_graph, case_bytes)))))))"

definition write_effects :: "exec_codecs \<Rightarrow> changeset \<Rightarrow> graph \<Rightarrow> string \<Rightarrow> unit action" where
  "write_effects c validated next_graph case_bytes =
     act_bind (txn_write ''graph'' (serialize_graph (codecs.truncate c) next_graph)) (\<lambda>_.
     act_bind (txn_append ''history'' (serialize_changeset (changeset_dump c) validated)) (\<lambda>_.
     if case_bytes \<noteq> [] then txn_append ''cases'' case_bytes else act_return ()))"

definition execute_body ::
  "exec_codecs \<Rightarrow> changeset \<Rightarrow> reconciliation_case list \<Rightarrow> apply_request \<Rightarrow> graph action" where
  "execute_body c validated effects rq =
     act_bind (check_extras_unchanged rq) (\<lambda>_.
     act_bind (bind_graph rq) (\<lambda>_.
     act_bind (prevalidate c validated effects) (\<lambda>(next_graph, case_bytes).
     act_bind (append_proposals rq) (\<lambda>_.
     act_bind (bind_evidence rq) (\<lambda>_.
     act_bind (bind_cases rq) (\<lambda>_.
     act_bind (write_effects c validated next_graph case_bytes) (\<lambda>_.
     act_return next_graph)))))))"

definition or_empty :: "'a list option \<Rightarrow> 'a list" where
  "or_empty x = (case x of None \<Rightarrow> [] | Some xs \<Rightarrow> xs)"

definition execute ::
  "exec_codecs \<Rightarrow> coordinator \<Rightarrow> string \<Rightarrow> changeset \<Rightarrow> apply_request \<Rightarrow> disk \<Rightarrow> disk \<times> graph res" where
  "execute c co t cs rq d =
     (case request_error co rq of
        Some e \<Rightarrow> (d, Inl e)
      | None \<Rightarrow>
          (case res_bind (validate_changeset cs) (\<lambda>validated.
                  res_bind (ordered_effects validated (ar_created_cases rq) (ar_resolved_cases rq))
                    (\<lambda>effects. Inr (validated, effects))) of
             Inl e \<Rightarrow> (d, Inl e)
           | Inr (validated, effects) \<Rightarrow>
               run_transaction co (or_empty (ar_read_only_extras rq)) (or_empty (ar_extra_read_policies rq)) t
                 (execute_body c validated effects rq) d))"

definition executor_targets_ok :: "coordinator \<Rightarrow> unit res" where
  "executor_targets_ok co =
     (if {''graph'', ''history'', ''cases''} \<subseteq> set (co_targets co) then Inr ()
      else Inl (ValueError ''local executor requires graph, history, and cases targets''))"

section \<open>Case effects\<close>

lemma dict_values_dict_of:
  assumes "length (dict_of rc_id cs) = length cs"
  shows "distinct (map rc_id cs) \<and> dict_values (dict_of rc_id cs) = cs \<and> map fst (dict_of rc_id cs) = map rc_id cs"
proof -
  have "card (rc_id ` set cs) = length cs"
    using assms distinct_card [OF dict_of_distinct_keys [of rc_id cs]] by (simp add: set_map)
  then have distinct: "distinct (map rc_id cs)"
    by (intro card_distinct) simp
  then have "dict_of rc_id cs = map (\<lambda>c. (rc_id c, c)) cs"
    by (rule dict_of_fresh)
  then show ?thesis
    using distinct by (simp add: dict_values_def comp_def)
qed

lemma ordered_effects_Inr:
  assumes "ordered_effects cs created resolved = Inr effects"
  shows "effects = created @ resolved" and "map rc_id created = cs_reconciliation_cases_created cs"
    and "map rc_id resolved = cs_reconciliation_cases_resolved cs"
    and "\<forall>c \<in> set created. rc_status c = OPEN"
    and "\<forall>c \<in> set resolved. rc_status c = RESOLVED \<and> rc_resolved_by_changeset c = Some (cs_id cs)"
proof -
  have "length (dict_of rc_id created) = length created" "length (dict_of rc_id resolved) = length resolved"
    using assms by (auto simp: ordered_effects_def Let_def split: if_splits)
  note d = dict_values_dict_of [OF this(1)] dict_values_dict_of [OF this(2)]
  show "effects = created @ resolved" "map rc_id created = cs_reconciliation_cases_created cs"
    "map rc_id resolved = cs_reconciliation_cases_resolved cs" "\<forall>c \<in> set created. rc_status c = OPEN"
    "\<forall>c \<in> set resolved. rc_status c = RESOLVED \<and> rc_resolved_by_changeset c = Some (cs_id cs)"
    using assms d by (auto simp: ordered_effects_def Let_def list_ex_iff split: if_splits)
qed

section \<open>Confinement\<close>

lemma confined_extras_changed [confined_intros]: "confined (extras_changed d)"
  by (induction d rule: extras_changed.induct) (auto intro!: confined_intros)

lemma confined_bindings [confined_intros]:
  "confined (bind_graph rq)" "confined (append_proposals rq)" "confined (bind_evidence rq)"
  "confined (bind_cases rq)"
  unfolding bind_graph_def append_proposals_def bind_evidence_def bind_cases_def
  by (intro confined_intros)+

lemma confined_case_prod [confined_intros]: "(\<And>x y. confined (k x y)) \<Longrightarrow> confined (case p of (x, y) \<Rightarrow> k x y)"
  by (cases p) simp

lemma confined_stages [confined_intros]:
  "confined (check_extras_unchanged rq)" "confined (prevalidate c validated effects)"
  "confined (write_effects c validated g case_bytes)"
  unfolding check_extras_unchanged_def prevalidate_def write_effects_def by (intro confined_intros)+

lemma confined_execute: "confined (execute_body c validated effects rq)"
  unfolding execute_body_def by (intro confined_intros)

section \<open>Outcomes\<close>

lemma extras_changed_Inr:
  assumes "extras_changed d (h, f) = (s', Inr b)"
  shows "\<exists>budget. s' = (h\<lparr>hd_budget := budget\<rparr>, f)"
    and "\<not> b \<Longrightarrow> (\<forall>(name, content) \<in> set d. content = f name)"
proof -
  have read: "\<exists>budget. s1 = (h\<lparr>hd_budget := budget\<rparr>, f)"
    if "txn_read_optional name (h, f) = (s1, Inr x)" for name h s1 x
    using that
    by (auto simp: txn_read_optional_def split: sum.splits if_splits intro: exI [of _ "hd_budget h"])
  have content: "x = f name" if "txn_read_optional name (h, f) = (s1, Inr x)" for name h s1 x
    using that
    by (auto simp: txn_read_optional_def budget_read_def nonblocking_read_def Let_def res_bind_Inr_iff
        split: sum.splits if_splits option.splits)
  have "(\<exists>budget. s' = (h\<lparr>hd_budget := budget\<rparr>, f)) \<and> (\<not> b \<longrightarrow> (\<forall>(name, content) \<in> set d. content = f name))"
    using assms
  proof (induction d arbitrary: h)
    case Nil
    then show ?case by (auto simp: act_return_Inr intro: exI [of _ "hd_budget h"])
  next
    case (Cons p d)
    obtain name pre where p: "p = (name, pre)" by (cases p)
    from Cons.prems obtain s1 x where x: "txn_read_optional name (h, f) = (s1, Inr x)"
      and rest: "(if x \<noteq> pre then act_return True else extras_changed d) s1 = (s', Inr b)"
      by (auto simp: p act_bind_Inr)
    obtain budget where s1: "s1 = (h\<lparr>hd_budget := budget\<rparr>, f)" using read [OF x] by blast
    show ?case
    proof (cases "x = pre")
      case True
      then have "extras_changed d (h\<lparr>hd_budget := budget\<rparr>, f) = (s', Inr b)" using rest s1 by simp
      from Cons.IH [OF this] show ?thesis
        using content [OF x] True p by auto
    next
      case False
      then show ?thesis using rest s1 by (auto simp: act_return_Inr)
    qed
  qed
  then show "\<exists>budget. s' = (h\<lparr>hd_budget := budget\<rparr>, f)"
    and "\<not> b \<Longrightarrow> (\<forall>(name, content) \<in> set d. content = f name)"
    by auto
qed

lemma codecs_truncate [simp]:
  "changeset_dump (codecs.truncate c) = changeset_dump c"
  "changeset_decode (codecs.truncate c) = changeset_decode c"
  by (simp_all add: codecs.truncate_def)

lemma bind_graph_Inr:
  assumes "bind_graph rq (h, f) = (s', Inr y)" "''graph'' \<notin> set (hd_extras h)"
  shows "s' = (h, f) \<and> (\<forall>p. ar_graph_preimage rq = Some p \<longrightarrow> f ''graph'' = Some p)"
  using assms by (auto simp: bind_graph_def act_run split: option.splits)

lemma bind_evidence_Inr:
  assumes "bind_evidence rq (h, f) = (s', Inr y)" "''evidence'' \<notin> set (hd_extras h)"
  shows "s' = (h, f) \<and> (\<forall>p. ar_evidence_preimage rq = Some p \<longrightarrow> f ''evidence'' = Some p)"
  using assms by (auto simp: bind_evidence_def act_run split: option.splits)

lemma bind_cases_Inr:
  assumes "bind_cases rq (h, f) = (s', Inr y)" "''cases'' \<notin> set (hd_extras h)"
  shows "s' = (h, f) \<and> (ar_bind_case_preimage rq \<longrightarrow> f ''cases'' = ar_case_preimage rq)"
  using assms by (auto simp: bind_cases_def act_run split: if_splits)

lemma append_proposals_Inr:
  assumes "append_proposals rq (h, f) = (s', Inr y)" "''intent_proposals'' \<notin> set (hd_extras h)"
  shows "s' = (h, f(''intent_proposals'' := (case ar_intent_proposal_append rq of
      None \<Rightarrow> f ''intent_proposals'' | Some addition \<Rightarrow> append_text (f ''intent_proposals'') addition))) \<and>
    (ar_intent_proposal_append rq \<noteq> None \<longrightarrow> f ''intent_proposals'' = ar_intent_proposal_preimage rq)"
  using assms by (auto simp: append_proposals_def act_run split: option.splits)

lemma check_extras_unchanged_Inr:
  assumes "check_extras_unchanged rq (h, f) = (s', Inr y)"
  shows "\<exists>budget. s' = (h\<lparr>hd_budget := budget\<rparr>, f)"
    and "\<forall>d. ar_extra_preimages rq = Some d \<longrightarrow> (\<forall>(name, content) \<in> set d. content = f name)"
proof -
  from assms obtain s1 where s1: "(case ar_extra_preimages rq of None \<Rightarrow> act_return False
      | Some d \<Rightarrow> extras_changed d) (h, f) = (s1, Inr False)" and s': "s' = s1"
    by (auto simp: check_extras_unchanged_def act_bind_Inr act_guard_Inr)
  show "\<exists>budget. s' = (h\<lparr>hd_budget := budget\<rparr>, f)"
    and "\<forall>d. ar_extra_preimages rq = Some d \<longrightarrow> (\<forall>(name, content) \<in> set d. content = f name)"
    using s1 s' extras_changed_Inr [of _ h f s1 False]
    by (auto simp: act_return_Inr intro: exI [of _ "hd_budget h"] split: option.splits)
qed

lemma prevalidate_Inr:
  assumes "prevalidate c cs effects (h, f) = (s', Inr (g', case_bytes))"
    and "''graph'' \<notin> set (hd_extras h)" "''cases'' \<notin> set (hd_extras h)"
  shows "s' = (h, f)"
    and "\<exists>g. load_graph (codecs.truncate c) f = Inr g \<and> apply_changeset_with_case_effects g cs = Inr g'"
    and "\<not> effects_unknown g' effects"
    and "validate_case_appends (case_dump c) (case_decode c) (f ''cases'') effects = Inr case_bytes"
  using assms by (auto simp: prevalidate_def act_run load_graph_def)

lemma write_effects_Inr:
  assumes "write_effects c cs g' case_bytes (h, f) = (s', Inr y)"
  shows "s' = (h, f(''graph'' \<mapsto> serialize_graph (codecs.truncate c) g',
      ''history'' := append_text (f ''history'') (serialize_changeset (changeset_dump c) cs),
      ''cases'' := (if case_bytes = [] then f ''cases'' else append_text (f ''cases'') case_bytes)))"
  using assms by (auto simp: write_effects_def act_run split: if_splits)

text \<open>What the files are, and were, when the body returns.\<close>

definition bindings_hold :: "apply_request \<Rightarrow> files \<Rightarrow> bool" where
  "bindings_hold rq f0 \<longleftrightarrow>
     (\<forall>d. ar_extra_preimages rq = Some d \<longrightarrow> (\<forall>(name, content) \<in> set d. content = f0 name)) \<and>
     (\<forall>p. ar_graph_preimage rq = Some p \<longrightarrow> f0 ''graph'' = Some p) \<and>
     (\<forall>p. ar_evidence_preimage rq = Some p \<longrightarrow> f0 ''evidence'' = Some p) \<and>
     (ar_bind_case_preimage rq \<longrightarrow> f0 ''cases'' = ar_case_preimage rq) \<and>
     (ar_intent_proposal_append rq \<noteq> None \<longrightarrow> f0 ''intent_proposals'' = ar_intent_proposal_preimage rq)"

definition written_files ::
  "exec_codecs \<Rightarrow> changeset \<Rightarrow> graph \<Rightarrow> string \<Rightarrow> apply_request \<Rightarrow> files \<Rightarrow> files" where
  "written_files c cs g' case_bytes rq f0 = f0(
     ''intent_proposals'' := (case ar_intent_proposal_append rq of
        None \<Rightarrow> f0 ''intent_proposals'' | Some addition \<Rightarrow> append_text (f0 ''intent_proposals'') addition),
     ''graph'' \<mapsto> serialize_graph (codecs.truncate c) g',
     ''history'' := append_text (f0 ''history'') (serialize_changeset (changeset_dump c) cs),
     ''cases'' := (if case_bytes = [] then f0 ''cases'' else append_text (f0 ''cases'') case_bytes))"

lemma execute_body_Inr:
  assumes run: "execute_body c cs effects rq (new_handle targets extras False policies, f0) = ((h, f), Inr g')"
    and names: "set extras \<inter> {''graph'', ''history'', ''cases'', ''evidence'', ''intent_proposals''} = {}"
  obtains g case_bytes where "load_graph (codecs.truncate c) f0 = Inr g"
    and "apply_changeset_with_case_effects g cs = Inr g'" and "\<not> effects_unknown g' effects"
    and "validate_case_appends (case_dump c) (case_decode c) (f0 ''cases'') effects = Inr case_bytes"
    and "f = written_files c cs g' case_bytes rq f0" and "bindings_hold rq f0"
proof -
  from run obtain s1 s2 s3 s4 s5 s6 y1 y2 case_bytes y4 y5 y6 y7 where
    steps: "check_extras_unchanged rq (new_handle targets extras False policies, f0) = (s1, Inr y1)"
    "bind_graph rq s1 = (s2, Inr y2)" "prevalidate c cs effects s2 = (s3, Inr (g', case_bytes))"
    "append_proposals rq s3 = (s4, Inr y4)" "bind_evidence rq s4 = (s5, Inr y5)"
    "bind_cases rq s5 = (s6, Inr y6)" "write_effects c cs g' case_bytes s6 = ((h, f), Inr y7)"
    by (auto simp: execute_body_def act_bind_Inr act_return_Inr)
  obtain budget where s1: "s1 = ((new_handle targets extras False policies)\<lparr>hd_budget := budget\<rparr>, f0)"
    using check_extras_unchanged_Inr(1) [OF steps(1)] by blast
  define h1 where "h1 = (new_handle targets extras False policies)\<lparr>hd_budget := budget\<rparr>"
  have ex: "name \<notin> set (hd_extras h1)"
    if "name \<in> {''graph'', ''history'', ''cases'', ''evidence'', ''intent_proposals''}" for name
    using names that by (auto simp: h1_def)
  note s1 = s1 [folded h1_def]
  have g1: "s2 = (h1, f0)" and pg: "\<forall>p. ar_graph_preimage rq = Some p \<longrightarrow> f0 ''graph'' = Some p"
    using bind_graph_Inr [OF steps(2) [unfolded s1]] ex by simp_all
  note pv = prevalidate_Inr [OF steps(3) [unfolded g1] ex ex, simplified]
  note ap = append_proposals_Inr [OF steps(4) [unfolded pv(1)] ex, simplified]
  note ev = bind_evidence_Inr [OF steps(5) [unfolded conjunct1 [OF ap]] ex, simplified]
  note ca = bind_cases_Inr [OF steps(6) [unfolded conjunct1 [OF ev]] ex, simplified]
  note wr = write_effects_Inr [OF steps(7) [unfolded conjunct1 [OF ca]], simplified]
  from pv(2) obtain g where "load_graph (codecs.truncate c) f0 = Inr g"
    "apply_changeset_with_case_effects g cs = Inr g'" by blast
  moreover have "f = written_files c cs g' case_bytes rq f0"
    using wr by (auto simp: written_files_def)
  moreover have "bindings_hold rq f0"
    using check_extras_unchanged_Inr(2) [OF steps(1)] pg ap ev ca by (auto simp: bindings_hold_def)
  ultimately show thesis using pv(3,4) that by blast
qed

lemma check_extras_disjoint:
  "check_extras targets extras policies = Inr policies' \<Longrightarrow> set extras \<inter> set targets = {}"
  by (auto simp: check_extras_def res_simps py_simps split: if_splits)

text \<open>The targets every executor of the program has.\<close>

definition executor_names :: "string set" where
  "executor_names = {''graph'', ''history'', ''cases'', ''evidence'', ''intent_proposals''}"

lemma execute_Inr:
  assumes "execute c co t cs rq d = (d', Inr g')" "executor_names \<subseteq> set (co_targets co)"
  obtains r f0 effects g case_bytes where
    "recover (co_targets co) (co_legacy_sets co) d = Inr (r, \<lparr>dk_files = f0, dk_journal = None\<rparr>)"
    and "changeset_ok cs" and "ordered_effects cs (ar_created_cases rq) (ar_resolved_cases rq) = Inr effects"
    and "load_graph (codecs.truncate c) f0 = Inr g" and "apply_changeset_with_case_effects g cs = Inr g'"
    and "\<not> effects_unknown g' effects"
    and "validate_case_appends (case_dump c) (case_decode c) (f0 ''cases'') effects = Inr case_bytes"
    and "d' = \<lparr>dk_files = written_files c cs g' case_bytes rq f0, dk_journal = None\<rparr>"
    and "bindings_hold rq f0"
proof -
  from assms(1) obtain effects where ok: "changeset_ok cs"
    and eff: "ordered_effects cs (ar_created_cases rq) (ar_resolved_cases rq) = Inr effects"
    and run: "run_transaction co (or_empty (ar_read_only_extras rq)) (or_empty (ar_extra_read_policies rq)) t
       (execute_body c cs effects rq) d = (d', Inr g')"
    by (auto simp: execute_def res_bind_def validate_changeset_Inr_iff split: option.splits sum.splits prod.splits)
  obtain policies' r f0 h where check: "check_extras (co_targets co) (or_empty (ar_read_only_extras rq))
        (or_empty (ar_extra_read_policies rq)) = Inr policies'"
    and rec: "recover (co_targets co) (co_legacy_sets co) d = Inr (r, \<lparr>dk_files = f0, dk_journal = None\<rparr>)"
    and body: "execute_body c cs effects rq (new_handle (co_targets co) (or_empty (ar_read_only_extras rq)) False policies', f0)
      = ((h, dk_files d'), Inr g')" and "dk_journal d' = None"
    by (rule run_transaction_success [OF confined_execute run])
  have "set (or_empty (ar_read_only_extras rq)) \<inter> {''graph'', ''history'', ''cases'', ''evidence'', ''intent_proposals''} = {}"
    using check_extras_disjoint [OF check] assms(2) unfolding executor_names_def by blast
  then obtain g case_bytes where "load_graph (codecs.truncate c) f0 = Inr g"
      "apply_changeset_with_case_effects g cs = Inr g'" "\<not> effects_unknown g' effects"
      "validate_case_appends (case_dump c) (case_decode c) (f0 ''cases'') effects = Inr case_bytes"
      "dk_files d' = written_files c cs g' case_bytes rq f0" "bindings_hold rq f0"
    by (rule execute_body_Inr [OF body])
  moreover from this(5) have "d' = \<lparr>dk_files = written_files c cs g' case_bytes rq f0, dk_journal = None\<rparr>"
    using \<open>dk_journal d' = None\<close> by simp
  ultimately show thesis using that [OF rec ok eff] by blast
qed

text \<open>C5: The executor is atomic over the graph, the history, the cases and the proposal ledger. When it
  raises, the disk is untouched or every file is what recovery left. When it returns, the graph is the
  applier's result on the stored graph and is what a later load returns; the history has gained exactly
  this ChangeSet, the case ledger exactly the declared effects in order (created, then resolved), the
  proposal ledger the given bytes, and no other file has changed.\<close>

theorem execute_atomic:
  assumes "execute c co t cs rq d = (d', out)" and "executor_names \<subseteq> set (co_targets co)"
    and "recover (co_targets co) (co_legacy_sets co) d = Inr (r, \<lparr>dk_files = f0, dk_journal = None\<rparr>)"
    and "records (changeset_decode c) (f0 ''history'') = Inr old"
    and "complete_lines (text_of (f0 ''history''))" "complete_lines (text_of (f0 ''cases''))"
    and "storable_changeset (changeset_dump c) (changeset_decode c) cs"
    and "list_all (storable (case_dump c) (case_decode c)) (ar_created_cases rq @ ar_resolved_cases rq)"
    and "\<forall>g g'. load_graph (codecs.truncate c) f0 = Inr g \<and> apply_changeset_with_case_effects g cs = Inr g' \<longrightarrow>
        graph_reads_back (codecs.truncate c) g'"
  shows "case out of
      Inl _ \<Rightarrow> d' = d \<or> d' = \<lparr>dk_files = f0, dk_journal = None\<rparr>
    | Inr g' \<Rightarrow>
        dk_journal d' = None \<and>
        (\<exists>g. load_graph (codecs.truncate c) f0 = Inr g \<and> apply_changeset_with_case_effects g cs = Inr g') \<and>
        load_graph (codecs.truncate c) (dk_files d') = Inr g' \<and>
        records (changeset_decode c) (dk_files d' ''history'') = Inr (old @ [cs]) \<and>
        (\<exists>vs. parse_case_versions (case_decode c) (f0 ''cases'') = Inr vs \<and>
          parse_case_versions (case_decode c) (dk_files d' ''cases'') =
            Inr (vs @ ar_created_cases rq @ ar_resolved_cases rq)) \<and>
        text_of (dk_files d' ''intent_proposals'') =
          text_of (f0 ''intent_proposals'') @ text_of (ar_intent_proposal_append rq) \<and>
        (\<forall>name. name \<notin> {''graph'', ''history'', ''cases'', ''intent_proposals''} \<longrightarrow>
          dk_files d' name = f0 name)"
proof (cases out)
  case (Inl e)
  have "d' = d \<or> d' = \<lparr>dk_files = f0, dk_journal = None\<rparr>"
    using assms(1) [unfolded Inl] run_transaction_error [OF confined_execute] assms(3)
    by (fastforce simp: execute_def split: option.splits sum.splits prod.splits)
  then show ?thesis using Inl by simp
next
  case (Inr g')
  obtain r' f1 effects g case_bytes where
    rec: "recover (co_targets co) (co_legacy_sets co) d = Inr (r', \<lparr>dk_files = f1, dk_journal = None\<rparr>)"
    and eff: "ordered_effects cs (ar_created_cases rq) (ar_resolved_cases rq) = Inr effects"
    and g1: "load_graph (codecs.truncate c) f1 = Inr g" and g2: "apply_changeset_with_case_effects g cs = Inr g'"
    and app1: "validate_case_appends (case_dump c) (case_decode c) (f1 ''cases'') effects = Inr case_bytes"
    and d1: "d' = \<lparr>dk_files = written_files c cs g' case_bytes rq f1, dk_journal = None\<rparr>"
    by (rule execute_Inr [OF assms(1) [unfolded Inr] assms(2)])
  have f1: "f1 = f0" using rec assms(3) by simp
  note g = g1 [unfolded f1] g2 and app = app1 [unfolded f1] and d' = d1 [unfolded f1]
  have effects: "effects = ar_created_cases rq @ ar_resolved_cases rq"
    by (rule ordered_effects_Inr(1) [OF eff])
  obtain vs index where vs: "parse_versions_with_history (case_decode c) (f0 ''cases'') = Inr (vs, index)"
    using app by (auto simp: validate_case_appends_def res_simps)
  note parse = validate_case_appends_parse [OF app vs assms(6)]
  have cases: "parse_case_versions (case_decode c) (append_text (f0 ''cases'') case_bytes) = Inr (vs @ effects)"
    using parse assms(8) by (auto simp: parse_case_versions_def effects list_all_iff)
  have "parse_case_versions (case_decode c) (dk_files d' ''cases'') = Inr (vs @ effects)"
    using cases case_file.parse_text [of "case_decode c" "f0 ''cases''"]
    by (auto simp: d' written_files_def append_text_def text_of_def split: option.splits)
  moreover have "records (changeset_decode c) (dk_files d' ''history'') = Inr (old @ [cs])"
    using history_file.parse_append [OF assms(4,5,7)] by (simp add: d' written_files_def)
  moreover have "load_graph (codecs.truncate c) (dk_files d') = Inr g'"
    using assms(9) g by (simp add: d' written_files_def load_graph_def graph_reads_back_def)
  moreover have "text_of (dk_files d' ''intent_proposals'') =
      text_of (f0 ''intent_proposals'') @ text_of (ar_intent_proposal_append rq)"
    by (simp add: d' written_files_def split: option.split)
  moreover have "parse_case_versions (case_decode c) (f0 ''cases'') = Inr vs"
    using vs by (simp add: parse_case_versions_def)
  moreover have "dk_files d' name = f0 name"
    if "name \<notin> {''graph'', ''history'', ''cases'', ''intent_proposals''}" for name
    using that by (simp add: d' written_files_def)
  ultimately show ?thesis
    using Inr g d' by (auto simp: effects)
qed

text \<open>C6: What a caller has read before is what the executor commits against: when it returns, every
  bound preimage (read-only extras, graph, evidence, cases, proposal ledger) was the content of its file
  when the transaction held the locks, and the case effects are exactly those the ChangeSet declares:
  the created cases are open, the resolved ones are resolved by this ChangeSet, and every one speaks
  about nodes of the new graph.\<close>

theorem execute_bindings:
  assumes "execute c co t cs rq d = (d', Inr g')" and "executor_names \<subseteq> set (co_targets co)"
  shows "(\<exists>r f0. recover (co_targets co) (co_legacy_sets co) d = Inr (r, \<lparr>dk_files = f0, dk_journal = None\<rparr>) \<and>
      bindings_hold rq f0) \<and>
    map rc_id (ar_created_cases rq) = cs_reconciliation_cases_created cs \<and>
    map rc_id (ar_resolved_cases rq) = cs_reconciliation_cases_resolved cs \<and>
    (\<forall>x \<in> set (ar_created_cases rq). rc_status x = OPEN) \<and>
    (\<forall>x \<in> set (ar_resolved_cases rq). rc_status x = RESOLVED \<and> rc_resolved_by_changeset x = Some (cs_id cs)) \<and>
    (\<forall>x \<in> set (ar_created_cases rq @ ar_resolved_cases rq).
      rc_subject_ref x \<in> nd_id ` set (g_nodes g') \<and> set (rc_affected_refs x) \<subseteq> nd_id ` set (g_nodes g'))"
proof -
  obtain r f0 effects where
    rec: "recover (co_targets co) (co_legacy_sets co) d = Inr (r, \<lparr>dk_files = f0, dk_journal = None\<rparr>)"
    and eff: "ordered_effects cs (ar_created_cases rq) (ar_resolved_cases rq) = Inr effects"
    and known: "\<not> effects_unknown g' effects" and bind: "bindings_hold rq f0"
    by (rule execute_Inr [OF assms])
  note o = ordered_effects_Inr [OF eff]
  have "\<forall>x \<in> set (ar_created_cases rq @ ar_resolved_cases rq).
      rc_subject_ref x \<in> nd_id ` set (g_nodes g') \<and> set (rc_affected_refs x) \<subseteq> nd_id ` set (g_nodes g')"
    using known unfolding o(1) by (fastforce simp: effects_unknown_def Let_def list_ex_iff)
  then show ?thesis using rec bind o(2-5) by blast
qed

section \<open>A sample execution\<close>

text \<open>The sample ChangeSet, now opening a case, bound to the graph the caller has read.\<close>

definition opening_changeset :: changeset where
  "opening_changeset = sample_changeset\<lparr>cs_reconciliation_cases_created := [''c1'']\<rparr>"

definition sample_exec_codecs :: exec_codecs where
  "sample_exec_codecs = codecs.extend
     (sample_codecs\<lparr>changeset_decode := (\<lambda>_. Inr opening_changeset)\<rparr>)
     \<lparr>case_dump = sample_dump, case_decode = sample_decode\<rparr>"

definition opening_request :: apply_request where
  "opening_request =
     \<lparr>ar_created_cases = [sample_case ''c1''], ar_resolved_cases = [],
      ar_intent_proposal_preimage = None, ar_intent_proposal_append = None,
      ar_graph_preimage = Some ''before'', ar_evidence_preimage = None, ar_case_preimage = None,
      ar_bind_case_preimage = True, ar_read_only_extras = None, ar_extra_preimages = None,
      ar_extra_read_policies = None\<rparr>"

definition full_coordinator :: coordinator where
  "full_coordinator =
     \<lparr>co_targets = [''graph'', ''history'', ''cases'', ''evidence'', ''intent_proposals''], co_legacy_sets = []\<rparr>"

lemma sample_execution:
  "snd (execute sample_exec_codecs full_coordinator [] opening_changeset opening_request sample_disk) =
     Inr sample_result"
  by code_simp

lemma sample_execution_facts:
  "executor_names \<subseteq> set (co_targets full_coordinator)"
  "recover (co_targets full_coordinator) (co_legacy_sets full_coordinator) sample_disk =
     Inr (False, \<lparr>dk_files = dk_files sample_disk, dk_journal = None\<rparr>)"
  "records (changeset_decode sample_exec_codecs) (dk_files sample_disk ''history'') = Inr []"
  "complete_lines (text_of (dk_files sample_disk ''history''))"
  "complete_lines (text_of (dk_files sample_disk ''cases''))"
  by (simp_all add: executor_names_def full_coordinator_def sample_disk_def recover_settled records_def
      splitlines_keep.simps)

lemma sample_storable:
  "storable_changeset (changeset_dump sample_exec_codecs) (changeset_decode sample_exec_codecs) opening_changeset"
  "list_all (storable (case_dump sample_exec_codecs) (case_decode sample_exec_codecs))
     (ar_created_cases opening_request @ ar_resolved_cases opening_request)"
  by code_simp+

lemma sample_reads_back:
  "\<forall>g g'. load_graph (codecs.truncate sample_exec_codecs) (dk_files sample_disk) = Inr g \<and>
     apply_changeset_with_case_effects g opening_changeset = Inr g' \<longrightarrow>
     graph_reads_back (codecs.truncate sample_exec_codecs) g'"
proof -
  have "load_graph (codecs.truncate sample_exec_codecs) (dk_files sample_disk) = Inr sample_graph"
    "apply_changeset_with_case_effects sample_graph opening_changeset = Inr sample_result"
    "graph_reads_back (codecs.truncate sample_exec_codecs) sample_result"
    by code_simp+
  then show ?thesis by auto
qed

theorem execute_atomic_witness:
  "\<exists>d'. execute sample_exec_codecs full_coordinator [] opening_changeset opening_request sample_disk =
      (d', Inr sample_result) \<and>
    parse_case_versions (case_decode sample_exec_codecs) (dk_files d' ''cases'') = Inr [sample_case ''c1''] \<and>
    records (changeset_decode sample_exec_codecs) (dk_files d' ''history'') = Inr [opening_changeset]"
proof -
  obtain d' where run: "execute sample_exec_codecs full_coordinator [] opening_changeset opening_request sample_disk =
      (d', Inr sample_result)"
    using sample_execution by (metis prod.collapse)
  have "parse_case_versions (case_decode sample_exec_codecs) (dk_files sample_disk ''cases'') = Inr []"
    by (simp add: sample_disk_def case_file.parse_missing)
  then show ?thesis
    using execute_atomic [OF run sample_execution_facts sample_storable sample_reads_back] run
    by (auto simp: opening_request_def)
qed

theorem execute_bindings_witness:
  "\<exists>d'. execute sample_exec_codecs full_coordinator [] opening_changeset opening_request sample_disk =
      (d', Inr sample_result) \<and>
    map rc_id (ar_created_cases opening_request) = cs_reconciliation_cases_created opening_changeset \<and>
    dk_files sample_disk ''graph'' = ar_graph_preimage opening_request"
proof -
  obtain d' where run: "execute sample_exec_codecs full_coordinator [] opening_changeset opening_request sample_disk =
      (d', Inr sample_result)"
    using sample_execution by (metis prod.collapse)
  have "dk_files sample_disk ''graph'' = ar_graph_preimage opening_request"
    by (simp add: sample_disk_def opening_request_def)
  then show ?thesis
    using execute_bindings [OF run sample_execution_facts(1)] run by blast
qed

end
