(* ===== verification/Evidence_Store.thy ===== *)
theory Evidence_Store
  imports Ledger Evidence
begin

text \<open>
  The append-only evidence file with its connector ledgers (\<open>storage/jsonl/evidence_store.py\<close>), at the
  level of the file's text. Every operation reads the file again under the lock, so the state of a
  store is the file content. The codec record stands for pydantic: how a record and an ingestion
  are dumped and read back field by field, before the validators run.
\<close>

section \<open>Reading the file\<close>

record evidence_codec =
  dump_record :: "evidence_record \<Rightarrow> json dict"
  decode_record :: "json dict \<Rightarrow> evidence_record res"
  dump_ingestion :: "evidence_ingestion \<Rightarrow> json dict"
  decode_ingestion :: "json dict \<Rightarrow> evidence_ingestion res"

text \<open>The accumulators of the loop: the records by identity, the ingestions in file order, and the
  identities of the rows without an envelope. The code's per-connector lists and its set of
  associations are views of the ingestions (\<open>entries\<close>, \<open>associated\<close>).\<close>

record evidence_state =
  st_records :: "evidence_record dict"
  st_ingestions :: "evidence_ingestion list"
  st_legacy_ids :: "string list"

definition entries :: "string \<Rightarrow> evidence_ingestion list \<Rightarrow> evidence_ingestion list" where
  "entries connector_id = filter (\<lambda>i. ing_connector_id i = connector_id)"

definition associated :: "evidence_ingestion list \<Rightarrow> string \<Rightarrow> bool" where
  "associated ledger evidence_id = list_ex (\<lambda>i. er_id (ing_evidence i) = evidence_id) ledger"

text \<open>The identity of the last entry of the same object, if any.\<close>

definition predecessor :: "evidence_ingestion list \<Rightarrow> evidence_record \<Rightarrow> string option" where
  "predecessor ledger r =
     (let predecessors = filter (\<lambda>i. er_connector_type (ing_evidence i) = er_connector_type r \<and>
            er_external_object_id (ing_evidence i) = er_external_object_id r) ledger
      in if predecessors = [] then None else Some (er_id (ing_evidence (last predecessors))))"

definition ingestion_error :: "evidence_ingestion list \<Rightarrow> evidence_ingestion \<Rightarrow> exn option" where
  "ingestion_error ingestions i =
     (let ledger = entries (ing_connector_id i) ingestions in
      if ing_sequence i \<noteq> int (length ledger) + 1
      then Some (ValueError ''non-contiguous connector ingestion sequence'')
      else if associated ledger (er_id (ing_evidence i))
      then Some (ValueError ''duplicate connector evidence association'')
      else if ing_predecessor_id i \<noteq> predecessor ledger (ing_evidence i)
      then Some (ValueError ''invalid connector evidence predecessor'')
      else None)"

text \<open>One line: an ingestion envelope or a raw record.\<close>

definition parse_row ::
  "evidence_codec \<Rightarrow> evidence_ingestion list \<Rightarrow> string \<Rightarrow> (evidence_ingestion + evidence_record) res"
  where
  "parse_row codec ingestions line =
     res_bind (loads_strict_object line) (\<lambda>payload.
       if map_of payload ''storage_schema_version'' \<noteq> None then
         res_bind (decode_ingestion codec payload) (\<lambda>i.
         res_bind (validate_ingestion i) (\<lambda>i.
           case ingestion_error ingestions i of Some e \<Rightarrow> Inl e | None \<Rightarrow> Inr (Inl i)))
       else res_bind (decode_record codec payload) (\<lambda>r. Inr (Inr r)))"

definition row_record :: "evidence_ingestion + evidence_record \<Rightarrow> evidence_record" where
  "row_record row = (case row of Inl i \<Rightarrow> ing_evidence i | Inr r \<Rightarrow> r)"

definition add_row :: "evidence_ingestion + evidence_record \<Rightarrow> evidence_state \<Rightarrow> evidence_state res" where
  "add_row row st =
     (let r = row_record row;
          st' = (case row of
                   Inl i \<Rightarrow> st\<lparr>st_ingestions := st_ingestions st @ [i]\<rparr>
                 | Inr r \<Rightarrow> st\<lparr>st_legacy_ids := st_legacy_ids st @ [er_id r]\<rparr>)
      in case map_of (st_records st) (er_id r) of
           Some existing \<Rightarrow>
             if existing \<noteq> r then Inl (ConflictingEvidenceId (er_id r)) else Inr st'
         | None \<Rightarrow> Inr (st'\<lparr>st_records := AList.update (er_id r) r (st_records st)\<rparr>))"

fun parse_rows :: "evidence_codec \<Rightarrow> nat \<Rightarrow> string list \<Rightarrow> evidence_state \<Rightarrow> evidence_state res" where
  "parse_rows codec n [] st = Inr st"
| "parse_rows codec n (line # lines) st =
     (if is_blank line then parse_rows codec (Suc n) lines st
      else case parse_row codec (st_ingestions st) line of
        Inl e \<Rightarrow> Inl (EvidenceStoreError (''invalid evidence record at line '' @ nat_str n))
      | Inr row \<Rightarrow>
          (case add_row row st of
             Inl e \<Rightarrow> Inl e
           | Inr st' \<Rightarrow> parse_rows codec (Suc n) lines st'))"

definition empty_state :: evidence_state where
  "empty_state = \<lparr>st_records = [], st_ingestions = [], st_legacy_ids = []\<rparr>"

definition parse_evidence_lines :: "evidence_codec \<Rightarrow> string option \<Rightarrow> evidence_state res" where
  "parse_evidence_lines codec content =
     (case content of
        None \<Rightarrow> Inr empty_state
      | Some body \<Rightarrow>
          res_bind (parse_rows codec 1 (splitlines body) empty_state)
            (\<lambda>st. Inr (st\<lparr>st_legacy_ids := fromkeys (st_legacy_ids st)\<rparr>)))"

section \<open>Operations\<close>

definition serialized :: "json dict \<Rightarrow> string" where
  "serialized kvs = json_line kvs"

definition put_evidence ::
  "evidence_codec \<Rightarrow> evidence_record \<Rightarrow> string option \<Rightarrow> (bool \<times> string option) res" where
  "put_evidence codec r content =
     res_bind (parse_evidence_lines codec content) (\<lambda>st.
       case map_of (st_records st) (er_id r) of
         Some existing \<Rightarrow>
           if existing \<noteq> r then Inl (ConflictingEvidenceId (er_id r)) else Inr (False, content)
       | None \<Rightarrow> Inr (True, append_text content (serialized (dump_record codec r))))"

definition next_ingestion ::
  "string \<Rightarrow> evidence_record \<Rightarrow> evidence_ingestion list \<Rightarrow> evidence_ingestion" where
  "next_ingestion connector_id r ledger =
     \<lparr>ing_connector_id = connector_id, ing_sequence = int (length ledger) + 1,
      ing_predecessor_id = predecessor ledger r, ing_evidence = r\<rparr>"

definition associate ::
  "evidence_codec \<Rightarrow> string \<Rightarrow> evidence_record \<Rightarrow> string option \<Rightarrow> (bool \<times> string option) res" where
  "associate codec connector_id r content =
     res_bind (parse_evidence_lines codec content) (\<lambda>st.
       let existing = map_of (st_records st) (er_id r);
           ledger = entries connector_id (st_ingestions st) in
       if existing \<noteq> None \<and> existing \<noteq> Some r then Inl (ConflictingEvidenceId (er_id r))
       else if associated ledger (er_id r) then Inr (False, content)
       else res_bind (validate_ingestion (next_ingestion connector_id r ledger)) (\<lambda>i.
         Inr (existing = None, append_text content (serialized (dump_ingestion codec i)))))"

definition legacy_candidates :: "string \<Rightarrow> string \<Rightarrow> evidence_state \<Rightarrow> evidence_record list" where
  "legacy_candidates connector_id connector_type st =
     filter (\<lambda>r. er_id r \<in> set (st_legacy_ids st) \<and> er_connector_type r = connector_type \<and>
         \<not> associated (entries connector_id (st_ingestions st)) (er_id r))
       (dict_values (st_records st))"

text \<open>The legacy records are associated one by one, each in a transaction of its own: a failure leaves
  the entries that are already written.\<close>

fun associate_all ::
  "evidence_codec \<Rightarrow> string \<Rightarrow> evidence_record list \<Rightarrow> string option \<Rightarrow> string option \<times> unit res" where
  "associate_all codec connector_id [] content = (content, Inr ())"
| "associate_all codec connector_id (r # rs) content =
     (case associate codec connector_id r content of
        Inl e \<Rightarrow> (content, Inl e)
      | Inr (_, content') \<Rightarrow> associate_all codec connector_id rs content')"

definition migrate_legacy ::
  "evidence_codec \<Rightarrow> string \<Rightarrow> string \<Rightarrow> string option \<Rightarrow> string option \<times> unit res" where
  "migrate_legacy codec connector_id connector_type content =
     (case parse_evidence_lines codec content of
        Inl e \<Rightarrow> (content, Inl e)
      | Inr st \<Rightarrow>
          let candidates = legacy_candidates connector_id connector_type st in
          if candidates = [] then (content, Inr ())
          else if connector_id \<noteq> connector_type \<or> connector_type \<notin> {''markdown'', ''git''}
          then (content, Inl (LegacyAssociationRequired connector_id))
          else associate_all codec connector_id candidates content)"

definition get_evidence :: "evidence_codec \<Rightarrow> string option \<Rightarrow> string \<Rightarrow> evidence_record res" where
  "get_evidence codec content evidence_id =
     res_bind (parse_evidence_lines codec content) (\<lambda>st.
       case map_of (st_records st) evidence_id of
         None \<Rightarrow> Inl (KeyError evidence_id) | Some r \<Rightarrow> Inr r)"

definition evidence_versions :: "evidence_codec \<Rightarrow> string option \<Rightarrow> string \<Rightarrow> evidence_record list res" where
  "evidence_versions codec content external_object_id =
     res_bind (parse_evidence_lines codec content) (\<lambda>st.
       Inr (filter (\<lambda>r. er_external_object_id r = external_object_id) (dict_values (st_records st))))"

definition ledger ::
  "evidence_codec \<Rightarrow> string option \<Rightarrow> string \<Rightarrow> string option \<Rightarrow> evidence_ingestion list res" where
  "ledger codec content connector_id connector_type =
     res_bind (parse_evidence_lines codec content) (\<lambda>st.
       let es = entries connector_id (st_ingestions st) in
       case connector_type of
         None \<Rightarrow> Inr es
       | Some t \<Rightarrow>
           if list_ex (\<lambda>r. er_id r \<in> set (st_legacy_ids st) \<and> \<not> associated es (er_id r) \<and>
                er_connector_type r = t) (dict_values (st_records st))
           then Inl (LegacyAssociationRequired connector_id)
           else Inr (filter (\<lambda>i. er_connector_type (ing_evidence i) = t) es))"

definition chain ::
  "evidence_codec \<Rightarrow> string option \<Rightarrow> string \<Rightarrow> string \<Rightarrow> string \<Rightarrow> evidence_ingestion list res" where
  "chain codec content connector_id connector_type external_object_id =
     res_bind (ledger codec content connector_id (Some connector_type)) (\<lambda>es.
       Inr (filter (\<lambda>i. er_external_object_id (ing_evidence i) = external_object_id) es))"

definition for_connector :: "evidence_codec \<Rightarrow> string option \<Rightarrow> string \<Rightarrow> evidence_record list res" where
  "for_connector codec content connector_id =
     res_bind (ledger codec content connector_id None) (\<lambda>es. Inr (map ing_evidence es))"

definition list_evidence :: "evidence_codec \<Rightarrow> string option \<Rightarrow> evidence_record list res" where
  "list_evidence codec content =
     res_bind (parse_evidence_lines codec content) (\<lambda>st. Inr (dict_values (st_records st)))"

definition ingestions :: "evidence_codec \<Rightarrow> string option \<Rightarrow> evidence_ingestion list res" where
  "ingestions codec content =
     res_bind (parse_evidence_lines codec content) (\<lambda>st.
       Inr (concat (map (\<lambda>c. entries c (st_ingestions st))
         (sorted_set (map ing_connector_id (st_ingestions st))))))"

section \<open>The ledger invariant\<close>

definition ledger_ok :: "evidence_ingestion list \<Rightarrow> bool" where
  "ledger_ok es \<longleftrightarrow>
     map ing_sequence es = map (\<lambda>n. int n + 1) [0..<length es] \<and>
     distinct (map (\<lambda>i. er_id (ing_evidence i)) es) \<and>
     (\<forall>n < length es. ing_predecessor_id (es ! n) = predecessor (take n es) (ing_evidence (es ! n)))"

definition state_ok :: "evidence_state \<Rightarrow> bool" where
  "state_ok st \<longleftrightarrow>
     distinct (map fst (st_records st)) \<and>
     (\<forall>(k, r) \<in> set (st_records st). er_id r = k) \<and>
     (\<forall>i \<in> set (st_ingestions st).
        map_of (st_records st) (er_id (ing_evidence i)) = Some (ing_evidence i)) \<and>
     (\<forall>c. ledger_ok (entries c (st_ingestions st)))"

lemma ledger_ok_snoc:
  assumes "ledger_ok es" and "ing_sequence i = int (length es) + 1"
    and "\<not> associated es (er_id (ing_evidence i))"
    and "ing_predecessor_id i = predecessor es (ing_evidence i)"
  shows "ledger_ok (es @ [i])"
proof -
  have "er_id (ing_evidence i) \<notin> set (map (\<lambda>i. er_id (ing_evidence i)) es)"
    using assms(3) by (auto simp: associated_def list_ex_iff)
  moreover have "ing_predecessor_id ((es @ [i]) ! n) =
      predecessor (take n (es @ [i])) (ing_evidence ((es @ [i]) ! n))" if "n < length (es @ [i])" for n
    using that assms(1,4) by (cases "n = length es") (auto simp: ledger_ok_def nth_append)
  ultimately show ?thesis using assms(1,2) by (simp add: ledger_ok_def)
qed

lemma entries_append [simp]: "entries c (xs @ ys) = entries c xs @ entries c ys"
  by (simp add: entries_def)

lemma entries_single [simp]: "entries c [i] = (if ing_connector_id i = c then [i] else [])"
  by (simp add: entries_def)

lemma ingestion_error_None:
  "ingestion_error es i = None \<longleftrightarrow>
     ing_sequence i = int (length (entries (ing_connector_id i) es)) + 1 \<and>
     \<not> associated (entries (ing_connector_id i) es) (er_id (ing_evidence i)) \<and>
     ing_predecessor_id i = predecessor (entries (ing_connector_id i) es) (ing_evidence i)"
  by (simp add: ingestion_error_def Let_def)

lemma add_row_records:
  assumes "add_row row st = Inr st'"
  shows "map_of (st_records st') (er_id (row_record row)) = Some (row_record row)"
    and "\<And>k r. map_of (st_records st) k = Some r \<Longrightarrow> map_of (st_records st') k = Some r"
    and "st_records st' = st_records st \<or>
      st_records st' = AList.update (er_id (row_record row)) (row_record row) (st_records st)"
    and "st_ingestions st' = st_ingestions st @ (case row of Inl i \<Rightarrow> [i] | Inr _ \<Rightarrow> [])"
    and "st_legacy_ids st' = st_legacy_ids st @ (case row of Inl _ \<Rightarrow> [] | Inr r \<Rightarrow> [er_id r])"
  using assms
  by (auto simp: add_row_def Let_def split: option.splits sum.splits if_splits
      simp del: map_of_eq_Some_iff)

lemma add_row_ok:
  assumes ok: "state_ok st" and run: "add_row row st = Inr st'"
    and new: "\<And>i. row = Inl i \<Longrightarrow> ingestion_error (st_ingestions st) i = None"
  shows "state_ok st'"
proof -
  note r = add_row_records [OF run]
  have "distinct (map fst (st_records st'))"
    using r(3) ok by (auto simp: state_ok_def)
  moreover have "\<forall>(k, x) \<in> set (st_records st'). er_id x = k"
  proof -
    have "set (AList.update k x d) \<subseteq> insert (k, x) (set d)" for k x and d :: "evidence_record dict"
      by (induction d) auto
    with r(3) ok show ?thesis by (fastforce simp: state_ok_def)
  qed
  moreover have "map_of (st_records st') (er_id (ing_evidence i)) = Some (ing_evidence i)"
    if "i \<in> set (st_ingestions st')" for i
  proof (cases "i \<in> set (st_ingestions st)")
    case True
    then have "map_of (st_records st) (er_id (ing_evidence i)) = Some (ing_evidence i)"
      using ok unfolding state_ok_def by blast
    then show ?thesis by (rule r(2))
  next
    case False
    with that have "row = Inl i" by (auto simp: r(4) split: sum.splits)
    with r(1) show ?thesis by (simp add: row_record_def)
  qed
  moreover have "ledger_ok (entries c (st_ingestions st'))" for c
  proof -
    have old: "ledger_ok (entries c (st_ingestions st))" using ok unfolding state_ok_def by blast
    show ?thesis
    proof (cases row)
      case (Inl i)
      with new [OF Inl] old ledger_ok_snoc [of "entries c (st_ingestions st)" i]
      show ?thesis by (auto simp: r(4) ingestion_error_None)
    next
      case (Inr x)
      with old show ?thesis by (simp add: r(4))
    qed
  qed
  ultimately show ?thesis unfolding state_ok_def by blast
qed

lemma parse_row_ok:
  "parse_row codec es line = Inr (Inl i) \<Longrightarrow> ingestion_error es i = None"
  by (auto simp: parse_row_def res_simps split: if_splits option.splits)

lemma parse_rows_ok: "parse_rows codec n lines st = Inr st' \<Longrightarrow> state_ok st \<Longrightarrow> state_ok st'"
proof (induction lines arbitrary: n st)
  case (Cons line lines)
  show ?case
  proof (cases "is_blank line")
    case False
    with Cons.prems(1) obtain row where row: "parse_row codec (st_ingestions st) line = Inr row"
      by (cases "parse_row codec (st_ingestions st) line") simp_all
    with False Cons.prems(1) obtain st1 where
      st1: "add_row row st = Inr st1" and rest: "parse_rows codec (Suc n) lines st1 = Inr st'"
      by (cases "add_row row st") simp_all
    have "state_ok st1"
      using Cons.prems(2) st1 by (rule add_row_ok) (use row parse_row_ok in blast)
    with rest show ?thesis by (rule Cons.IH)
  qed (use Cons in simp)
qed simp

lemma state_ok_legacy [simp]: "state_ok (st\<lparr>st_legacy_ids := xs\<rparr>) \<longleftrightarrow> state_ok st"
  by (simp add: state_ok_def)

lemma state_ok_empty [simp]: "state_ok empty_state"
  by (simp add: state_ok_def empty_state_def entries_def ledger_ok_def)

lemma parse_evidence_ok: "parse_evidence_lines codec content = Inr st \<Longrightarrow> state_ok st"
  by (auto simp: parse_evidence_lines_def res_simps split: option.splits dest: parse_rows_ok)

lemma parse_rows_append:
  "parse_rows codec n (xs @ ys) st =
     res_bind (parse_rows codec n xs st) (parse_rows codec (n + length xs) ys)"
  by (induction xs arbitrary: n st) (auto split: sum.split)

section \<open>Appending a line\<close>

definition rows_of :: "evidence_codec \<Rightarrow> string option \<Rightarrow> evidence_state res" where
  "rows_of codec content = parse_rows codec 1 (splitlines (text_of content)) empty_state"

lemma parse_evidence_rows:
  "parse_evidence_lines codec content =
     res_bind (rows_of codec content) (\<lambda>st. Inr (st\<lparr>st_legacy_ids := fromkeys (st_legacy_ids st)\<rparr>))"
  by (cases content)
    (simp_all add: parse_evidence_lines_def rows_of_def text_of_def splitlines.simps empty_state_def
      fromkeys_def)

text \<open>Pydantic reads a dump back, and the print stays on one line.\<close>

definition writable :: "json dict \<Rightarrow> (json dict \<Rightarrow> 'a res) \<Rightarrow> 'a \<Rightarrow> bool \<Rightarrow> bool" where
  "writable kvs decode x envelope \<longleftrightarrow>
     wf_json (JObj kvs) \<and> one_line (dumps False (JObj kvs)) \<and>
     (case canon (JObj kvs) of
        JObj kvs' \<Rightarrow> decode kvs' = Inr x \<and>
          (map_of kvs' ''storage_schema_version'' \<noteq> None \<longleftrightarrow> envelope)
      | _ \<Rightarrow> False)"

lemma serialized_line:
  assumes "one_line (dumps False (JObj kvs))"
  shows "splitlines (serialized kvs) = [dumps False (JObj kvs)]" and "complete_lines (serialized kvs)"
    and "\<not> is_blank (dumps False (JObj kvs))"
  using json_line(1) [OF assms] json_not_blank [of False kvs "[]"] by (simp_all add: serialized_def)

lemma rows_append:
  assumes rows: "rows_of codec content = Inr st" and complete: "complete_lines (text_of content)"
    and line: "one_line (dumps False (JObj kvs))"
    and row: "parse_row codec (st_ingestions st) (dumps False (JObj kvs)) = Inr row"
    and add: "add_row row st = Inr st'"
  shows "rows_of codec (append_text content (serialized kvs)) = Inr st'"
    and "complete_lines (text_of (append_text content (serialized kvs)))"
proof -
  note l = serialized_line [OF line]
  have body: "text_of (append_text content (serialized kvs)) = text_of content @ serialized kvs"
    by (simp add: text_of_def append_text_def)
  have "parse_rows codec n [dumps False (JObj kvs)] st = Inr st'" for n
    using l(3) row add by simp
  then show "rows_of codec (append_text content (serialized kvs)) = Inr st'"
    using rows unfolding rows_of_def body splitlines_append [OF complete] l(1) parse_rows_append
    by simp
  show "complete_lines (text_of (append_text content (serialized kvs)))"
    unfolding body using complete l(2) by (rule complete_lines_append)
qed

lemma parse_row_writable:
  assumes "writable kvs decode x envelope"
  obtains kvs' where "loads_strict_object (dumps False (JObj kvs)) = Inr kvs'" and "decode kvs' = Inr x"
    and "map_of kvs' ''storage_schema_version'' \<noteq> None \<longleftrightarrow> envelope"
proof -
  obtain kvs' where kvs': "canon (JObj kvs) = JObj kvs'" by simp
  show thesis
  proof (rule that)
    show "loads_strict_object (dumps False (JObj kvs)) = Inr kvs'"
      using assms kvs' by (intro loads_object_dumps) (simp_all only: writable_def)
    show "decode kvs' = Inr x" and "map_of kvs' ''storage_schema_version'' \<noteq> None \<longleftrightarrow> envelope"
      using assms unfolding writable_def kvs' by simp_all
  qed
qed

section \<open>The operations on the file\<close>

definition ingestion_writable :: "evidence_codec \<Rightarrow> evidence_ingestion \<Rightarrow> bool" where
  "ingestion_writable codec i = writable (dump_ingestion codec i) (decode_ingestion codec) i True"

definition record_writable :: "evidence_codec \<Rightarrow> evidence_record \<Rightarrow> bool" where
  "record_writable codec r = writable (dump_record codec r) (decode_record codec) r False"

lemma reads_via_rows:
  assumes "rows_of codec content = Inr st"
  shows "ledger codec content c None = Inr (entries c (st_ingestions st))"
    and "get_evidence codec content k =
      (case map_of (st_records st) k of None \<Rightarrow> Inl (KeyError k) | Some r \<Rightarrow> Inr r)"
    and "state_ok st"
proof -
  show "state_ok st" using assms parse_rows_ok state_ok_empty unfolding rows_of_def by blast
qed (simp_all add: ledger_def get_evidence_def parse_evidence_rows assms)

lemma ledger_rows:
  assumes "ledger codec content c None = Inr es"
  obtains st where "rows_of codec content = Inr st" and "es = entries c (st_ingestions st)"
proof (cases "rows_of codec content")
  case (Inl e)
  with assms show thesis by (simp add: ledger_def parse_evidence_rows)
next
  case (Inr st)
  with assms that show thesis by (simp add: reads_via_rows(1))
qed

lemma associated_record:
  assumes "state_ok st" and "associated (entries c (st_ingestions st)) k"
  shows "\<exists>r. map_of (st_records st) k = Some r"
proof -
  from assms(2) obtain i where "i \<in> set (st_ingestions st)" "er_id (ing_evidence i) = k"
    by (auto simp: associated_def entries_def list_ex_iff)
  with assms(1) show ?thesis unfolding state_ok_def by blast
qed

lemma associate_rows:
  assumes rows: "rows_of codec content = Inr st" and complete: "complete_lines (text_of content)"
    and run: "associate codec c r content = Inr (added, content')"
    and fresh: "\<not> associated (entries c (st_ingestions st)) (er_id r)"
    and wr: "ingestion_writable codec (next_ingestion c r (entries c (st_ingestions st)))"
  obtains st' where "rows_of codec content' = Inr st'" and "complete_lines (text_of content')"
    and "st_ingestions st' = st_ingestions st @ [next_ingestion c r (entries c (st_ingestions st))]"
    and "map_of (st_records st') = (map_of (st_records st))(er_id r \<mapsto> r)"
    and "added \<longleftrightarrow> map_of (st_records st) (er_id r) = None"
proof -
  define i where "i = next_ingestion c r (entries c (st_ingestions st))"
  have parse: "parse_evidence_lines codec content =
      Inr (st\<lparr>st_legacy_ids := fromkeys (st_legacy_ids st)\<rparr>)"
    by (simp add: parse_evidence_rows rows)
  from run fresh have ex: "map_of (st_records st) (er_id r) = None \<or> map_of (st_records st) (er_id r) = Some r"
    and valid: "validate_ingestion i = Inr i"
    and out: "content' = append_text content (serialized (dump_ingestion codec i))"
    and added: "added \<longleftrightarrow> map_of (st_records st) (er_id r) = None"
    by (auto simp: associate_def parse Let_def res_simps i_def validate_ingestion_def
        split: if_splits simp del: map_of_eq_Some_iff)
  have none: "ingestion_error (st_ingestions st) i = None"
    using fresh by (simp add: ingestion_error_None i_def next_ingestion_def)
  from wr have w: "writable (dump_ingestion codec i) (decode_ingestion codec) i True"
    by (simp add: ingestion_writable_def i_def)
  then obtain kvs where "loads_strict_object (dumps False (JObj (dump_ingestion codec i))) = Inr kvs"
    and "decode_ingestion codec kvs = Inr i" and "map_of kvs ''storage_schema_version'' \<noteq> None"
    using parse_row_writable [OF w] by blast
  then have row: "parse_row codec (st_ingestions st) (dumps False (JObj (dump_ingestion codec i))) =
      Inr (Inl i)"
    using valid none by (simp add: parse_row_def)
  have "row_record (Inl i) = r" by (simp add: row_record_def i_def next_ingestion_def)
  then obtain st' where add: "add_row (Inl i) st = Inr st'"
    using ex by (auto simp: add_row_def Let_def simp del: map_of_eq_Some_iff)
  have line: "one_line (dumps False (JObj (dump_ingestion codec i)))" using w by (simp only: writable_def)
  note res = rows_append [OF rows complete line row add, folded out]
  show thesis
  proof (rule that [OF res])
    show "st_ingestions st' = st_ingestions st @ [next_ingestion c r (entries c (st_ingestions st))]"
      using add_row_records(4) [OF add] by (simp add: i_def)
    show "map_of (st_records st') = (map_of (st_records st))(er_id r \<mapsto> r)"
      using add_row_records(1,3) [OF add] \<open>row_record (Inl i) = r\<close>
      by (auto simp: fun_eq_iff simp del: map_of_eq_Some_iff)
    show "added \<longleftrightarrow> map_of (st_records st) (er_id r) = None" by (fact added)
  qed
qed

lemma associate_again:
  assumes rows: "rows_of codec content = Inr st"
    and "associated (entries c (st_ingestions st)) (er_id r)"
    and "map_of (st_records st) (er_id r) = Some r"
  shows "associate codec c r content = Inr (False, content)"
  using assms by (simp add: associate_def parse_evidence_rows Let_def del: map_of_eq_Some_iff)

section \<open>Properties\<close>

definition sample_codec :: evidence_codec where
  "sample_codec =
     \<lparr>dump_record = \<lambda>r. [(''id'', JStr (er_id r))],
      decode_record = (\<lambda>kvs. case map_of kvs ''id'' of
          Some (JStr i) \<Rightarrow> Inr (sample_evidence i []) | _ \<Rightarrow> Inl (ValidationError ''id'')),
      dump_ingestion = (\<lambda>i. [(''storage_schema_version'', JInt 1), (''sequence'', JInt (ing_sequence i)),
          (''connector_id'', JStr (ing_connector_id i)), (''id'', JStr (er_id (ing_evidence i))),
          (''predecessor_id'', case ing_predecessor_id i of None \<Rightarrow> JNull | Some p \<Rightarrow> JStr p)]),
      decode_ingestion = (\<lambda>kvs.
        case (map_of kvs ''sequence'', map_of kvs ''connector_id'', map_of kvs ''id'',
              map_of kvs ''predecessor_id'') of
          (Some (JInt n), Some (JStr c), Some (JStr i), Some p) \<Rightarrow>
            Inr \<lparr>ing_connector_id = c, ing_sequence = n,
                 ing_predecessor_id = (case p of JStr q \<Rightarrow> Some q | _ \<Rightarrow> None),
                 ing_evidence = sample_evidence i []\<rparr>
        | _ \<Rightarrow> Inl (ValidationError ''sequence''))\<rparr>"

text \<open>Associating a record with a connector appends one ledger entry, numbered next and linked
  to the connector's previous version of the object, unless the connector already holds the
  record; afterwards the record reads back, other connectors and other records read as before, and
  repeating the call changes nothing.\<close>

theorem associate_appends:
  assumes "ledger codec content c None = Inr es" and "complete_lines (text_of content)"
    and "ingestion_writable codec (next_ingestion c r es)"
    and "associate codec c r content = Inr (added, content')"
  shows "ledger codec content' c None =
      Inr (if associated es (er_id r) then es else es @ [next_ingestion c r es]) \<and>
    (\<forall>c'. c' \<noteq> c \<longrightarrow> ledger codec content' c' None = ledger codec content c' None) \<and>
    get_evidence codec content' (er_id r) = Inr r \<and>
    (\<forall>k. k \<noteq> er_id r \<longrightarrow> get_evidence codec content' k = get_evidence codec content k) \<and>
    associate codec c r content' = Inr (False, content')"
proof -
  from assms(1) obtain st where rows: "rows_of codec content = Inr st"
    and es: "es = entries c (st_ingestions st)" by (rule ledger_rows)
  show ?thesis
  proof (cases "associated es (er_id r)")
    case True
    then obtain x where x: "map_of (st_records st) (er_id r) = Some x"
      using associated_record reads_via_rows(3) [OF rows] es by blast
    with assms(4) True have "x = r" and same: "content' = content"
      by (auto simp: associate_def parse_evidence_rows rows Let_def es split: if_splits
          simp del: map_of_eq_Some_iff)
    with x True rows associate_again [OF rows, of c r] show ?thesis
      by (simp add: reads_via_rows es del: map_of_eq_Some_iff)
  next
    case False
    from associate_rows [OF rows assms(2) assms(4)] False assms(3) obtain st' where
      rows': "rows_of codec content' = Inr st'"
      and ing: "st_ingestions st' = st_ingestions st @ [next_ingestion c r es]"
      and rec: "map_of (st_records st') = (map_of (st_records st))(er_id r \<mapsto> r)"
      unfolding es by blast
    have "associated (entries c (st_ingestions st')) (er_id r)"
      by (simp add: ing associated_def next_ingestion_def)
    then have "associate codec c r content' = Inr (False, content')"
      by (rule associate_again [OF rows']) (simp add: rec del: map_of_eq_Some_iff)
    with False show ?thesis
      by (simp add: reads_via_rows(1,2) [OF rows] reads_via_rows(1,2) [OF rows'] ing rec es
          next_ingestion_def del: map_of_eq_Some_iff)
  qed
qed

theorem associate_appends_witness:
  "\<exists>content'. associate sample_codec ''git'' (sample_evidence ''e1'' []) None = Inr (True, content') \<and>
     ledger sample_codec content' ''git'' None = Inr [next_ingestion ''git'' (sample_evidence ''e1'' []) []]"
proof -
  let ?i = "next_ingestion ''git'' (sample_evidence ''e1'' []) []"
  let ?content' = "append_text None (serialized (dump_ingestion sample_codec ?i))"
  have "ledger sample_codec None ''git'' None = Inr []" and "complete_lines (text_of None)"
    and "ingestion_writable sample_codec ?i"
    and run: "associate sample_codec ''git'' (sample_evidence ''e1'' []) None = Inr (True, ?content')"
    by code_simp+
  from associate_appends [OF this] run show ?thesis by (auto simp: associated_def)
qed

text \<open>C38: In any readable evidence file the ledger of every connector numbers its entries
  contiguously from one, holds a record at most once, and links every entry to the connector's
  previous version of the same object; and every ledger entry carries the one record stored
  under its identity.\<close>

theorem evidence_ledger_contiguous:
  assumes "ledger codec content c None = Inr es"
  shows "map ing_sequence es = map (\<lambda>n. int n + 1) [0..<length es] \<and>
    distinct (map (\<lambda>i. er_id (ing_evidence i)) es) \<and>
    (\<forall>n < length es. ing_predecessor_id (es ! n) = predecessor (take n es) (ing_evidence (es ! n))) \<and>
    (\<forall>i \<in> set es. get_evidence codec content (er_id (ing_evidence i)) = Inr (ing_evidence i))"
proof -
  from assms obtain st where rows: "rows_of codec content = Inr st"
    and es: "es = entries c (st_ingestions st)" by (rule ledger_rows)
  have ok: "state_ok st" by (rule reads_via_rows(3) [OF rows])
  have "ledger_ok es" using ok unfolding es state_ok_def by blast
  moreover have "get_evidence codec content (er_id (ing_evidence i)) = Inr (ing_evidence i)"
    if "i \<in> set es" for i
  proof -
    have "i \<in> set (st_ingestions st)" using that by (simp add: es entries_def)
    then have "map_of (st_records st) (er_id (ing_evidence i)) = Some (ing_evidence i)"
      using ok unfolding state_ok_def by blast
    then show ?thesis by (simp add: reads_via_rows(2) [OF rows] del: map_of_eq_Some_iff)
  qed
  ultimately show ?thesis by (simp add: ledger_ok_def)
qed

theorem evidence_ledger_contiguous_witness:
  "map ing_sequence [next_ingestion ''git'' (sample_evidence ''e1'' []) []] = [1]"
proof -
  have "ledger sample_codec (append_text None (serialized (dump_ingestion sample_codec
      (next_ingestion ''git'' (sample_evidence ''e1'' []) [])))) ''git'' None =
      Inr [next_ingestion ''git'' (sample_evidence ''e1'' []) []]"
    by code_simp
  from evidence_ledger_contiguous [OF this] show ?thesis by simp
qed

text \<open>Evidence is immutable: a record under an existing identity with any different content is
  refused by \<open>put\<close> and by \<open>associate\<close> with the conflict error, and an equal one leaves the file
  as it is when put again.\<close>

theorem evidence_immutable:
  assumes "get_evidence codec content (er_id r) = Inr r0"
  shows "(r \<noteq> r0 \<longrightarrow> put_evidence codec r content = Inl (ConflictingEvidenceId (er_id r)) \<and>
      associate codec c r content = Inl (ConflictingEvidenceId (er_id r))) \<and>
    (r = r0 \<longrightarrow> put_evidence codec r content = Inr (False, content))"
proof -
  from assms obtain st where "parse_evidence_lines codec content = Inr st"
    and "map_of (st_records st) (er_id r) = Some r0"
    by (auto simp: get_evidence_def res_simps split: option.splits simp del: map_of_eq_Some_iff)
  then show ?thesis
    by (cases "r = r0") (simp_all add: put_evidence_def associate_def Let_def del: map_of_eq_Some_iff)
qed

theorem evidence_immutable_witness:
  "put_evidence sample_codec (sample_evidence ''e1'' [''bo''])
     (append_text None (serialized (dump_record sample_codec (sample_evidence ''e1'' []))))
   = Inl (ConflictingEvidenceId ''e1'')"
proof -
  have "get_evidence sample_codec (append_text None (serialized (dump_record sample_codec
      (sample_evidence ''e1'' [])))) (er_id (sample_evidence ''e1'' [''bo''])) =
      Inr (sample_evidence ''e1'' [])"
    by code_simp
  from evidence_immutable [OF this] show ?thesis by (simp add: sample_evidence_def)
qed

end
