(* ===== verification/Sync_Result.thy ===== *)
theory Sync_Result
  imports Prelude
begin

text \<open>Outcomes of a synchronisation run (\<open>sync/models.py\<close>).\<close>

datatype SyncRunStatus = SUCCESS | PARTIAL_RUN | FAILED

primrec sync_status_value :: "SyncRunStatus \<Rightarrow> string" where
  "sync_status_value SUCCESS = ''success''"
| "sync_status_value PARTIAL_RUN = ''partial''"
| "sync_status_value FAILED = ''failed''"

record connector_run_result =
  rr_status :: SyncRunStatus
  rr_evidence_added :: int
  rr_changes_applied :: int
  rr_cases_created :: int
  rr_checkpoint_advanced :: bool
  rr_redacted_error :: "string option"

definition succeeded :: "int \<Rightarrow> int \<Rightarrow> int \<Rightarrow> bool \<Rightarrow> connector_run_result" where
  "succeeded evidence_added changes_applied cases_created checkpoint_advanced =
     \<lparr>rr_status = SUCCESS, rr_evidence_added = evidence_added, rr_changes_applied = changes_applied,
      rr_cases_created = cases_created, rr_checkpoint_advanced = checkpoint_advanced,
      rr_redacted_error = None\<rparr>"

definition failed :: "string \<Rightarrow> int \<Rightarrow> int \<Rightarrow> int \<Rightarrow> connector_run_result" where
  "failed error evidence_added changes_applied cases_created =
     \<lparr>rr_status = FAILED, rr_evidence_added = evidence_added, rr_changes_applied = changes_applied,
      rr_cases_created = cases_created, rr_checkpoint_advanced = False, rr_redacted_error = Some error\<rparr>"

record sync_run_result =
  sr_run_id :: string
  sr_status :: SyncRunStatus
  sr_connectors :: "connector_run_result dict"
  sr_evidence_added :: int
  sr_changes_applied :: int
  sr_cases_created :: int
  sr_duration_ms :: int

definition from_connector_results ::
  "string \<Rightarrow> connector_run_result dict \<Rightarrow> int \<Rightarrow> sync_run_result" where
  "from_connector_results run_id connectors duration_ms =
     (let results = dict_values connectors;
          successful = length (filter (\<lambda>r. rr_status r = SUCCESS) results);
          failures = length (filter (\<lambda>r. rr_status r = FAILED) results) in
      \<lparr>sr_run_id = run_id,
       sr_status = (if failures = 0 then SUCCESS else if successful > 0 then PARTIAL_RUN else FAILED),
       sr_connectors = connectors,
       sr_evidence_added = sum_list (map rr_evidence_added results),
       sr_changes_applied = sum_list (map rr_changes_applied results),
       sr_cases_created = sum_list (map rr_cases_created results),
       sr_duration_ms = duration_ms\<rparr>)"

lemma run_status:
  "sr_status (from_connector_results run_id connectors ms) =
     (if \<forall>r \<in> set (dict_values connectors). rr_status r \<noteq> FAILED then SUCCESS
      else if \<exists>r \<in> set (dict_values connectors). rr_status r = SUCCESS then PARTIAL_RUN else FAILED)"
  by (auto simp: from_connector_results_def Let_def filter_empty_conv)

end
