(* ===== verification/Local_Resolution.thy ===== *)
theory Local_Resolution
  imports Executor Evidence_Store Digest
begin

text \<open>
  Resolution of reconciliation cases over local state (\<open>reconcile/local_resolution.py\<close>): an open case is
  deferred, dismissed, or brought to human review with a ChangeSet and an approval hash; a reviewed case
  is resolved when the hash is presented. The case, the graph and the evidence are read before the
  transaction starts, so a call sees two disks: the one it reads and the one it commits to, which other
  processes may have changed in between.
\<close>

record resolution_codecs = exec_codecs +
  plain_changeset_dump :: "changeset \<Rightarrow> json dict"

record resolution_service =
  rs_actor :: string
  rs_principals :: "string list"
  rs_coordinator :: coordinator

definition new_resolution_service ::
  "string \<Rightarrow> string list option \<Rightarrow> coordinator \<Rightarrow> resolution_service res" where
  "new_resolution_service who granted co =
     (let ps = (case granted of None \<Rightarrow> [who] | Some ps \<Rightarrow> ps) in
      if who \<notin> set ps \<or> [] \<in> set ps then Inl (ValueError ''invalid resolution principals'')
      else res_bind (executor_targets_ok co) (\<lambda>_.
        Inr \<lparr>rs_actor = who, rs_principals = ps, rs_coordinator = co\<rparr>))"

definition NUL :: string where
  "NUL = [CHR 0x00]"

definition changeset_material :: "reconciliation_case \<Rightarrow> int \<Rightarrow> ResolutionAction \<Rightarrow> string" where
  "changeset_material rcase version action =
     rc_id rcase @ NUL @ int_str version @ NUL @ resolution_action_value action @ NUL @
     join NUL (all_evidence_refs rcase)"

definition resolution_changeset ::
  "resolution_service \<Rightarrow> reconciliation_case \<Rightarrow> int \<Rightarrow> ResolutionAction \<Rightarrow> datetime \<Rightarrow> changeset res" where
  "resolution_changeset svc rcase version action timestamp =
     validate_changeset
       \<lparr>cs_id = ''changeset:resolve:'' @ hexdigest (changeset_material rcase version action),
        cs_actor = rs_actor svc, cs_timestamp = timestamp, cs_baseline_graph_version = version,
        cs_evidence_refs = all_evidence_refs rcase, cs_nodes_added = [], cs_nodes_updated = [],
        cs_nodes_superseded = [], cs_edges_added = [], cs_edges_updated = [], cs_edges_superseded = [],
        cs_confidence_changes = [], cs_implementation_status_changes = [],
        cs_reconciliation_cases_created = [], cs_reconciliation_cases_resolved = [rc_id rcase],
        cs_validation_status = ''validated''\<rparr>"

definition canonical_changeset ::
  "resolution_service \<Rightarrow> reconciliation_case \<Rightarrow> int \<Rightarrow> ResolutionAction \<Rightarrow> changeset res" where
  "canonical_changeset svc rcase version action =
     (if rc_history rcase = [] then Inl (IndexError ''tuple index out of range'')
      else resolution_changeset svc rcase version action (ev_at (last (rc_history rcase))))"

definition approval_payload ::
  "resolution_codecs \<Rightarrow> reconciliation_case \<Rightarrow> int \<Rightarrow> ResolutionAction \<Rightarrow> changeset \<Rightarrow> json" where
  "approval_payload c rcase version action cs =
     JObj [(''action'', JStr (resolution_action_value action)), (''case'', JObj (case_dump c rcase)),
           (''changeset'', JObj (plain_changeset_dump c cs)), (''graph_version'', JInt version)]"

definition approval_hash ::
  "resolution_codecs \<Rightarrow> reconciliation_case \<Rightarrow> int \<Rightarrow> ResolutionAction \<Rightarrow> changeset \<Rightarrow> string" where
  "approval_hash c rcase version action cs = hexdigest (dumps True (approval_payload c rcase version action cs))"

definition append_versions_body ::
  "resolution_codecs \<Rightarrow> reconciliation_case list \<Rightarrow> unit action" where
  "append_versions_body c versions =
     act_bind (txn_read_optional ''cases'') (\<lambda>content.
     act_bind (act_lift (validate_case_appends (case_dump c) (case_decode c) content versions))
       (txn_append ''cases''))"

definition append_case_versions ::
  "resolution_codecs \<Rightarrow> resolution_service \<Rightarrow> string \<Rightarrow> reconciliation_case list \<Rightarrow> disk \<Rightarrow> disk \<times> unit res" where
  "append_case_versions c svc t versions d =
     run_transaction (rs_coordinator svc) [] [] t (append_versions_body c versions) d"

text \<open>What a call does once it has read its inputs: raise, append versions, or execute a ChangeSet.\<close>

datatype resolution_plan =
    Append "reconciliation_case list" "reconciliation_case" "changeset option" "string option"
  | Execute changeset reconciliation_case

definition read_evidence ::
  "evidence_codec \<Rightarrow> string option \<Rightarrow> string list \<Rightarrow> evidence_record list res" where
  "read_evidence ec content refs =
     fold_res (\<lambda>ref acc. res_bind (get_evidence ec content ref) (\<lambda>r. Inr (acc @ [r]))) refs []"

definition plan_resolution ::
  "resolution_codecs \<Rightarrow> resolution_service \<Rightarrow> reconciliation_case \<Rightarrow> graph \<Rightarrow> ResolutionAction \<Rightarrow>
     string option \<Rightarrow> datetime \<Rightarrow> resolution_plan res" where
  "plan_resolution c svc rcase g action approve timestamp =
     (if rc_status rcase = OPEN \<and> action \<in> {DEFER, MARK_FALSE_POSITIVE}
      then res_bind (transition_case rcase (if action = DEFER then DEFERRED else FALSE_POSITIVE)
          (rs_actor svc) (Some timestamp) None None) (\<lambda>updated.
        Inr (Append [updated] updated None None))
      else if rc_status rcase = OPEN
      then
        res_bind (transition_case rcase PROPOSED (rs_actor svc) (Some timestamp) None None) (\<lambda>proposed.
        res_bind (transition_case proposed NEEDS_HUMAN (rs_actor svc) (Some timestamp) None None) (\<lambda>reviewed.
        res_bind (canonical_changeset svc reviewed (g_version g) action) (\<lambda>cs.
        Inr (Append [proposed, reviewed] reviewed (Some cs)
          (Some (approval_hash c reviewed (g_version g) action cs))))))
      else if action \<in> {DEFER, MARK_FALSE_POSITIVE} then Inl ResolutionUnavailable
      else if rc_status rcase \<noteq> NEEDS_HUMAN \<or> approve = None then Inl ResolutionUnavailable
      else
        res_bind (canonical_changeset svc rcase (g_version g) action) (\<lambda>cs.
        if approve \<noteq> Some (approval_hash c rcase (g_version g) action cs) then Inl ResolutionUnavailable
        else
          res_bind (transition_case rcase RESOLVED (rs_actor svc) (Some timestamp) (Some action)
              (Some (cs_id cs))) (\<lambda>resolved.
          Inr (Execute cs resolved))))"

definition resolve_request :: "reconciliation_case \<Rightarrow> apply_request" where
  "resolve_request resolved =
     \<lparr>ar_created_cases = [], ar_resolved_cases = [resolved], ar_intent_proposal_preimage = None,
      ar_intent_proposal_append = None, ar_graph_preimage = None, ar_evidence_preimage = None,
      ar_case_preimage = None, ar_bind_case_preimage = False, ar_read_only_extras = None,
      ar_extra_preimages = None, ar_extra_read_policies = None\<rparr>"

definition read_inputs ::
  "resolution_codecs \<Rightarrow> evidence_codec \<Rightarrow> resolution_service \<Rightarrow> string \<Rightarrow> files \<Rightarrow>
     (reconciliation_case \<times> graph) res" where
  "read_inputs c ec svc case_id f =
     res_bind (get_case (case_decode c) (f ''cases'') case_id) (\<lambda>rcase.
     res_bind (load_graph (codecs.truncate (exec_codecs.truncate c)) f) (\<lambda>g.
     res_bind (read_evidence ec (f ''evidence'') (all_evidence_refs rcase)) (\<lambda>records.
       if \<not> refs_allowed (all_evidence_refs rcase) records (Many (rs_principals svc))
       then Inl ResolutionUnavailable else Inr (rcase, g))))"

definition resolve ::
  "resolution_codecs \<Rightarrow> evidence_codec \<Rightarrow> resolution_service \<Rightarrow> string \<Rightarrow> string \<Rightarrow> ResolutionAction \<Rightarrow>
     string option \<Rightarrow> datetime \<Rightarrow> files \<Rightarrow> disk \<Rightarrow>
     disk \<times> (reconciliation_case \<times> changeset option \<times> string option) res" where
  "resolve c ec svc t case_id action approve timestamp f_read d =
     (case res_bind (read_inputs c ec svc case_id f_read) (\<lambda>(rcase, g).
             plan_resolution c svc rcase g action approve timestamp) of
        Inl _ \<Rightarrow> (d, Inl ResolutionUnavailable)
      | Inr (Append versions latest cs hash) \<Rightarrow>
          (case append_case_versions c svc t versions d of
             (d', Inl _) \<Rightarrow> (d', Inl ResolutionUnavailable)
           | (d', Inr _) \<Rightarrow> (d', Inr (latest, cs, hash)))
      | Inr (Execute cs resolved) \<Rightarrow>
          (case execute (exec_codecs.truncate c) (rs_coordinator svc) t cs (resolve_request resolved) d of
             (d', Inl _) \<Rightarrow> (d', Inl ResolutionUnavailable)
           | (d', Inr _) \<Rightarrow> (d', Inr (resolved, Some cs, None))))"

definition recover_resolution :: "resolution_service \<Rightarrow> disk \<Rightarrow> disk res" where
  "recover_resolution svc d =
     (case recover (co_targets (rs_coordinator svc)) (co_legacy_sets (rs_coordinator svc)) d of
        Inl TransactionRecoveryError \<Rightarrow> Inl ResolutionUnavailable
      | Inl e \<Rightarrow> Inl e
      | Inr (_, d') \<Rightarrow> Inr d')"

section \<open>Plans\<close>

lemma confined_append_versions: "confined (append_versions_body c versions)"
  unfolding append_versions_body_def by (intro confined_intros)

lemma truncate_sel [simp]:
  "case_dump (exec_codecs.truncate c) = case_dump c" "case_decode (exec_codecs.truncate c) = case_decode c"
  "changeset_dump (exec_codecs.truncate c) = changeset_dump c"
  "changeset_decode (exec_codecs.truncate c) = changeset_decode c"
  by (simp_all add: exec_codecs.truncate_def)

lemma get_case_ok: "get_case decode content i = Inr c \<Longrightarrow> case_ok c"
proof -
  assume "get_case decode content i = Inr c"
  then obtain vs latest fps where parse: "parse_versions_with_history decode content = Inr (vs, latest, fps)"
    and c: "map_of latest i = Some c"
    by (auto simp: get_case_def res_bind_Inr_iff split: option.splits simp del: map_of_eq_Some_iff)
  from parse_versions_ok [OF parse] have ok: "versions_ok vs" and latest: "latest = dict_of rc_id vs"
    by (simp_all add: index_of_def)
  have "c \<in> set vs" using c unfolding latest by (blast dest: dict_of_lookup)
  with ok show "case_ok c" by (simp add: versions_ok_def)
qed

text \<open>A plan to execute exists exactly for the reviewed case and the hash of what is executed.\<close>

lemma plan_execute:
  assumes "plan_resolution c svc rcase g action approve timestamp = Inr (Execute cs resolved)" "case_ok rcase"
  shows "rc_status rcase = NEEDS_HUMAN" "action \<notin> {DEFER, MARK_FALSE_POSITIVE}"
    "canonical_changeset svc rcase (g_version g) action = Inr cs"
    "approve = Some (approval_hash c rcase (g_version g) action cs)"
    "resolved = advance rcase RESOLVED (rs_actor svc) timestamp (Some action) (Some (cs_id cs))"
  using assms(1)
  by (auto simp: plan_resolution_def res_bind_Inr_iff transition_case_Inr_iff [OF assms(2)] split: if_splits)

lemma plan_append:
  assumes "plan_resolution c svc rcase g action approve timestamp = Inr (Append versions latest cs hash)"
    "case_ok rcase"
  shows "rc_status rcase = OPEN" "rc_status latest \<noteq> RESOLVED" "versions \<noteq> []" "last versions = latest"
    "\<forall>v \<in> set versions. case_ok v \<and> rc_id v = rc_id rcase"
proof -
  have "rc_status rcase = OPEN \<and> rc_status latest \<noteq> RESOLVED \<and> versions \<noteq> [] \<and> last versions = latest \<and>
    (\<forall>v \<in> set versions. case_ok v \<and> rc_id v = rc_id rcase)"
  proof (cases "action \<in> {DEFER, MARK_FALSE_POSITIVE}")
    case True
    with assms(1) obtain updated where
      u: "transition_case rcase (if action = DEFER then DEFERRED else FALSE_POSITIVE) (rs_actor svc)
        (Some timestamp) None None = Inr updated"
      and eq: "rc_status rcase = OPEN" "versions = [updated]" "latest = updated"
      by (auto simp: plan_resolution_def res_bind_Inr_iff split: if_splits)
    show ?thesis
      using eq transition_case_ok [OF u] u
      by (auto simp: transition_case_Inr_iff [OF assms(2)] advance_def split: if_splits)
  next
    case False
    with assms(1) obtain proposed reviewed where
      p: "transition_case rcase PROPOSED (rs_actor svc) (Some timestamp) None None = Inr proposed"
      and r: "transition_case proposed NEEDS_HUMAN (rs_actor svc) (Some timestamp) None None = Inr reviewed"
      and eq: "rc_status rcase = OPEN" "versions = [proposed, reviewed]" "latest = reviewed"
      by (auto simp: plan_resolution_def res_bind_Inr_iff split: if_splits)
    note po = transition_case_ok [OF p]
    have "proposed = advance rcase PROPOSED (rs_actor svc) timestamp None None"
      "reviewed = advance proposed NEEDS_HUMAN (rs_actor svc) timestamp None None"
      using p [unfolded transition_case_Inr_iff [OF assms(2)]] r [unfolded transition_case_Inr_iff [OF po]]
      by blast+
    then have "rc_id proposed = rc_id rcase" "rc_id reviewed = rc_id rcase" "rc_status reviewed = NEEDS_HUMAN"
      by (simp_all add: advance_def)
    then show ?thesis
      using eq po transition_case_ok [OF r] by simp
  qed
  then show "rc_status rcase = OPEN" "rc_status latest \<noteq> RESOLVED" "versions \<noteq> []" "last versions = latest"
    "\<forall>v \<in> set versions. case_ok v \<and> rc_id v = rc_id rcase" by auto
qed

section \<open>Properties\<close>

text \<open>C7: No case is resolved without the approval of exactly what is committed. When \<open>resolve\<close> returns a
  resolved case, the case it read was under human review, the caller may read all its evidence, and the
  presented hash is that of this case, the graph version it read, the action and the very ChangeSet that
  the executor committed; the committed case is the read case with one event more, naming the actor,
  the action and the ChangeSet.\<close>

theorem resolved_only_with_approval:
  assumes "resolve c ec svc t case_id action approve timestamp f_read d = (d', Inr (resolved, cs, hash))"
    and "rc_status resolved = RESOLVED"
  shows "\<exists>rcase g changeset g'. read_inputs c ec svc case_id f_read = Inr (rcase, g) \<and>
    rc_status rcase = NEEDS_HUMAN \<and> cs = Some changeset \<and> hash = None \<and>
    canonical_changeset svc rcase (g_version g) action = Inr changeset \<and>
    approve = Some (approval_hash c rcase (g_version g) action changeset) \<and>
    resolved = advance rcase RESOLVED (rs_actor svc) timestamp (Some action) (Some (cs_id changeset)) \<and>
    execute (exec_codecs.truncate c) (rs_coordinator svc) t changeset (resolve_request resolved) d = (d', Inr g')"
proof -
  from assms(1) obtain rcase g plan where inp: "read_inputs c ec svc case_id f_read = Inr (rcase, g)"
    and plan: "plan_resolution c svc rcase g action approve timestamp = Inr plan"
    by (auto simp: resolve_def res_bind_def split: sum.splits)
  have ok: "case_ok rcase"
    using inp by (auto simp: read_inputs_def res_bind_Inr_iff split: if_splits dest: get_case_ok)
  show ?thesis
  proof (cases plan)
    case (Append versions latest cs' hash')
    then have "resolved = latest"
      using assms(1) inp plan by (auto simp: resolve_def split: prod.splits sum.splits)
    then show ?thesis
      using plan_append(2) [OF plan [unfolded Append] ok] assms(2) by simp
  next
    case (Execute changeset final)
    then obtain g' where run: "execute (exec_codecs.truncate c) (rs_coordinator svc) t changeset
        (resolve_request final) d = (d', Inr g')" and out: "resolved = final" "cs = Some changeset" "hash = None"
      using assms(1) inp plan by (auto simp: resolve_def split: prod.splits sum.splits)
    show ?thesis
      using inp plan_execute [OF plan [unfolded Execute] ok] run out by blast
  qed
qed

text \<open>A refused or failed resolution says nothing and does nothing: the error is always the same one,
  and the disk is untouched or holds exactly what recovery left.\<close>

theorem resolve_failure:
  assumes "resolve c ec svc t case_id action approve timestamp f_read d = (d', Inl e)"
  shows "e = ResolutionUnavailable \<and>
    (d' = d \<or> (\<exists>r. recover (co_targets (rs_coordinator svc)) (co_legacy_sets (rs_coordinator svc)) d = Inr (r, d')))"
proof -
  have exec: "d1 = d \<or> (\<exists>r. recover (co_targets (rs_coordinator svc)) (co_legacy_sets (rs_coordinator svc)) d = Inr (r, d1))"
    if "execute c' (rs_coordinator svc) t cs rq d = (d1, Inl e1)" for c' cs rq d1 e1
    using that run_transaction_error [OF confined_execute]
    by (auto simp: execute_def split: option.splits sum.splits prod.splits)
  show ?thesis
    using assms run_transaction_error [OF confined_append_versions] exec
    by (auto simp: resolve_def append_case_versions_def split: sum.splits resolution_plan.splits prod.splits)
qed

lemma append_versions_success:
  assumes "append_case_versions c svc t versions d = (d', Inr u)" and "dk_journal d = None"
    and "complete_lines (text_of (dk_files d ''cases''))"
    and "list_all (storable (case_dump c) (case_decode c)) versions"
    and "parse_versions_with_history (case_decode c) (dk_files d ''cases'') = Inr (vs, index)"
  shows "parse_versions_with_history (case_decode c) (dk_files d' ''cases'') =
      Inr (vs @ versions, index_of (vs @ versions))"
    and "\<forall>name. name \<noteq> ''cases'' \<longrightarrow> dk_files d' name = dk_files d name" and "dk_journal d' = None"
proof -
  obtain policies' r f0 h where check: "check_extras (co_targets (rs_coordinator svc)) [] [] = Inr policies'"
    and rec: "recover (co_targets (rs_coordinator svc)) (co_legacy_sets (rs_coordinator svc)) d =
      Inr (r, \<lparr>dk_files = f0, dk_journal = None\<rparr>)"
    and body: "append_versions_body c versions (new_handle (co_targets (rs_coordinator svc)) [] False policies', f0)
      = ((h, dk_files d'), Inr u)" and jn: "dk_journal d' = None"
    by (rule run_transaction_success [OF confined_append_versions assms(1) [unfolded append_case_versions_def]])
  have f0: "f0 = dk_files d"
    using rec recover_settled [OF assms(2)] by (metis Inr_inject disk.select_convs(1) prod.inject)
  from body obtain out where out: "validate_case_appends (case_dump c) (case_decode c) (f0 ''cases'') versions = Inr out"
    and d': "dk_files d' = f0(''cases'' := append_text (f0 ''cases'') out)"
    by (auto simp: append_versions_body_def act_run)
  show "parse_versions_with_history (case_decode c) (dk_files d' ''cases'') =
      Inr (vs @ versions, index_of (vs @ versions))"
    using validate_case_appends_parse [OF out [unfolded f0] assms(5,3)] assms(4)
    by (simp add: d' f0 list_all_iff)
  show "\<forall>name. name \<noteq> ''cases'' \<longrightarrow> dk_files d' name = dk_files d name" "dk_journal d' = None"
    using jn by (simp_all add: d' f0)
qed

text \<open>C8: The approval hash that review returns is the one that resolution asks for. After a call has
  brought an open case to review and returned a ChangeSet and a hash, a second call with that hash on
  the disk it left reads exactly the reviewed case and the same graph, plans the same ChangeSet and hands
  it to the executor with the resolved case; its outcome is the executor's.\<close>

theorem review_then_approve:
  assumes "resolve c ec svc t case_id action None timestamp (dk_files d) d = (d1, Inr (reviewed, Some cs, Some hash))"
    and "dk_journal d = None" "complete_lines (text_of (dk_files d ''cases''))"
    and "\<forall>rcase. get_case (case_decode c) (dk_files d ''cases'') case_id = Inr rcase \<longrightarrow> rc_id rcase = case_id \<and>
      storable (case_dump c) (case_decode c) (advance rcase PROPOSED (rs_actor svc) timestamp None None)"
    and "storable (case_dump c) (case_decode c) reviewed"
  shows "resolve c ec svc t' case_id action (Some hash) timestamp' (dk_files d1) d1 =
    (let resolved = advance reviewed RESOLVED (rs_actor svc) timestamp' (Some action) (Some (cs_id cs)) in
     case execute (exec_codecs.truncate c) (rs_coordinator svc) t' cs (resolve_request resolved) d1 of
       (d2, Inl _) \<Rightarrow> (d2, Inl ResolutionUnavailable)
     | (d2, Inr _) \<Rightarrow> (d2, Inr (resolved, Some cs, None)))"
proof -
  from assms(1) obtain rcase g plan where inp: "read_inputs c ec svc case_id (dk_files d) = Inr (rcase, g)"
    and plan: "plan_resolution c svc rcase g action None timestamp = Inr plan"
    by (auto simp: resolve_def res_bind_def split: sum.splits)
  have get: "get_case (case_decode c) (dk_files d ''cases'') case_id = Inr rcase"
    using inp by (auto simp: read_inputs_def res_bind_Inr_iff split: if_splits)
  note ok = get_case_ok [OF get]
  have act: "action \<notin> {DEFER, MARK_FALSE_POSITIVE}" and op: "rc_status rcase = OPEN"
    using assms(1) inp plan
    by (auto simp: resolve_def plan_resolution_def res_bind_Inr_iff split: if_splits sum.splits prod.splits)
  then obtain proposed where
    p: "transition_case rcase PROPOSED (rs_actor svc) (Some timestamp) None None = Inr proposed"
    and r: "transition_case proposed NEEDS_HUMAN (rs_actor svc) (Some timestamp) None None = Inr reviewed"
    and cs: "canonical_changeset svc reviewed (g_version g) action = Inr cs"
    and hash: "hash = approval_hash c reviewed (g_version g) action cs"
    and app: "append_case_versions c svc t [proposed, reviewed] d = (d1, Inr ())"
    using assms(1) inp plan
    by (auto simp: resolve_def plan_resolution_def res_bind_Inr_iff split: if_splits sum.splits prod.splits)
  have pe: "proposed = advance rcase PROPOSED (rs_actor svc) timestamp None None" and actor: "rs_actor svc \<noteq> []"
    using p [unfolded transition_case_Inr_iff [OF ok]] by blast+
  have re: "reviewed = advance proposed NEEDS_HUMAN (rs_actor svc) timestamp None None"
    using r [unfolded transition_case_Inr_iff [OF transition_case_ok [OF p]]] by blast
  obtain vs index where vs: "parse_versions_with_history (case_decode c) (dk_files d ''cases'') = Inr (vs, index)"
    using get by (auto simp: get_case_def res_bind_Inr_iff)
  have st: "list_all (storable (case_dump c) (case_decode c)) [proposed, reviewed]"
    using assms(4,5) get pe by auto
  note after = append_versions_success [OF app assms(2,3) st vs]
  have id: "rc_id reviewed = case_id"
    using assms(4) get by (auto simp: re pe advance_def)
  have refs: "all_evidence_refs reviewed = all_evidence_refs rcase"
    by (simp add: re pe advance_def)
  have "get_case (case_decode c) (dk_files d1 ''cases'') case_id = Inr reviewed"
    using after(1) id by (simp add: get_case_def index_of_def dict_of_def)
  then have inp1: "read_inputs c ec svc case_id (dk_files d1) = Inr (reviewed, g)"
    using inp get after(2) refs by (auto simp: read_inputs_def load_graph_def res_bind_Inr_iff split: if_splits)
  have "transition_case reviewed RESOLVED (rs_actor svc) (Some timestamp') (Some action) (Some (cs_id cs)) =
      Inr (advance reviewed RESOLVED (rs_actor svc) timestamp' (Some action) (Some (cs_id cs)))"
    using actor by (simp add: transition_case_Inr_iff [OF transition_case_ok [OF r]]) (simp add: re advance_def)
  then have "plan_resolution c svc reviewed g action (Some hash) timestamp' =
      Inr (Execute cs (advance reviewed RESOLVED (rs_actor svc) timestamp' (Some action) (Some (cs_id cs))))"
    using act cs hash by (simp add: plan_resolution_def) (simp add: re advance_def)
  then show ?thesis
    by (simp add: resolve_def inp1 Let_def)
qed

text \<open>An approval hash approves one thing: for payloads Pydantic can print, two calls have the same
  hash only if they agree on the action, the graph version, and the printed case and ChangeSet, or their
  payloads are a SHA-256 collision.\<close>

theorem approval_hash_binds:
  assumes "approval_hash c rcase version action cs = approval_hash c rcase' version' action' cs'"
    and "wf_json (JObj (case_dump c rcase))" "wf_json (JObj (case_dump c rcase'))"
    and "wf_json (JObj (plain_changeset_dump c cs))" "wf_json (JObj (plain_changeset_dump c cs'))"
  shows "(action = action' \<and> version = version' \<and>
      canon (JObj (case_dump c rcase)) = canon (JObj (case_dump c rcase')) \<and>
      canon (JObj (plain_changeset_dump c cs)) = canon (JObj (plain_changeset_dump c cs'))) \<or>
    collision (dumps True (approval_payload c rcase version action cs))
      (dumps True (approval_payload c rcase' version' action' cs'))"
proof (cases "dumps True (approval_payload c rcase version action cs) =
    dumps True (approval_payload c rcase' version' action' cs')")
  case True
  have wf: "wf_json (approval_payload c rcase version action cs)"
    "wf_json (approval_payload c rcase' version' action' cs')"
    using assms(2-5) by (simp_all add: approval_payload_def)
  have "canon (approval_payload c rcase version action cs) = canon (approval_payload c rcase' version' action' cs')"
    using dumps_inject [OF wf] True by blast
  then show ?thesis
    by (simp add: approval_payload_def)
next
  case False
  then show ?thesis
    using assms(1) by (simp add: approval_hash_def collision_def)
qed

section \<open>A sample resolution\<close>

text \<open>Digests stay symbolic in what follows.\<close>

declare hexdigest_def [code del]

definition reviewed_case :: reconciliation_case where
  "reviewed_case =
     advance (advance (sample_case ''c1'') PROPOSED ''ana'' 7 None None) NEEDS_HUMAN ''ana'' 7 None None"

definition sample_resolution_codecs :: resolution_codecs where
  "sample_resolution_codecs = exec_codecs.extend
     (codecs.extend (sample_codecs\<lparr>changeset_dump := (\<lambda>_. [])\<rparr>)
       \<lparr>case_dump = (\<lambda>rcase. [(''created_by'', JStr (rc_created_by rcase))]), case_decode = (\<lambda>_. Inr reviewed_case)\<rparr>)
     \<lparr>plain_changeset_dump = (\<lambda>_. [])\<rparr>"

definition sample_service :: resolution_service where
  "sample_service = \<lparr>rs_actor = ''ana'', rs_principals = [''ana''], rs_coordinator = full_coordinator\<rparr>"

definition review_disk :: disk where
  "review_disk =
     \<lparr>dk_files = [''graph'' \<mapsto> ''after'',
        ''cases'' \<mapsto> json_line [(''created_by'', JStr ''detector'')],
        ''evidence'' \<mapsto> json_line [(''id'', JStr ''ev-1'')]],
      dk_journal = None\<rparr>"

definition review_changeset :: changeset where
  "review_changeset = projr (canonical_changeset sample_service reviewed_case 5 UPDATE_REQUIREMENT)"

lemma sample_resolution:
  "read_inputs sample_resolution_codecs sample_codec sample_service ''c1'' (dk_files review_disk) =
     Inr (reviewed_case, sample_result)"
  "canonical_changeset sample_service reviewed_case 5 UPDATE_REQUIREMENT = Inr review_changeset"
  by code_simp+

definition resolved_case :: reconciliation_case where
  "resolved_case = advance reviewed_case RESOLVED ''ana'' 9 (Some UPDATE_REQUIREMENT) (Some (cs_id review_changeset))"

lemma sample_resolution_run:
  "snd (execute (exec_codecs.truncate sample_resolution_codecs) full_coordinator [] review_changeset
     (resolve_request resolved_case) review_disk) = Inr (sample_result\<lparr>g_version := 6\<rparr>)"
  by code_simp

lemma sample_resolve:
  "\<exists>d'. resolve sample_resolution_codecs sample_codec sample_service [] ''c1'' UPDATE_REQUIREMENT
     (Some (approval_hash sample_resolution_codecs reviewed_case 5 UPDATE_REQUIREMENT review_changeset)) 9
     (dk_files review_disk) review_disk = (d', Inr (resolved_case, Some review_changeset, None))"
proof -
  have "rc_status reviewed_case = NEEDS_HUMAN" "g_version sample_result = 5" "rs_actor sample_service = ''ana''"
    "transition_case reviewed_case RESOLVED ''ana'' (Some 9) (Some UPDATE_REQUIREMENT) (Some (cs_id review_changeset)) =
      Inr resolved_case"
    by code_simp+
  then have "plan_resolution sample_resolution_codecs sample_service reviewed_case sample_result UPDATE_REQUIREMENT
     (Some (approval_hash sample_resolution_codecs reviewed_case 5 UPDATE_REQUIREMENT review_changeset)) 9 =
      Inr (Execute review_changeset resolved_case)"
    by (simp add: plan_resolution_def sample_resolution(2))
  moreover obtain d' where "execute (exec_codecs.truncate sample_resolution_codecs) full_coordinator [] review_changeset
     (resolve_request resolved_case) review_disk = (d', Inr (sample_result\<lparr>g_version := 6\<rparr>))"
    using sample_resolution_run by (metis prod.collapse)
  ultimately show ?thesis
    by (simp add: resolve_def sample_resolution(1)) (simp add: sample_service_def)
qed

theorem resolved_only_with_approval_witness:
  "\<exists>rcase g. read_inputs sample_resolution_codecs sample_codec sample_service ''c1'' (dk_files review_disk) =
     Inr (rcase, g) \<and> rc_status rcase = NEEDS_HUMAN"
proof -
  have "rc_status resolved_case = RESOLVED" by code_simp
  then show ?thesis
    using sample_resolve resolved_only_with_approval by blast
qed

theorem resolve_failure_witness:
  "snd (resolve sample_resolution_codecs sample_codec sample_service [] ''c1'' UPDATE_REQUIREMENT None 9
     (dk_files review_disk) review_disk) = Inl ResolutionUnavailable"
proof -
  obtain d' out where run: "resolve sample_resolution_codecs sample_codec sample_service [] ''c1''
      UPDATE_REQUIREMENT None 9 (dk_files review_disk) review_disk = (d', out)"
    by (metis prod.collapse)
  have "\<exists>e. out = Inl e"
  proof -
    have "rc_status reviewed_case = NEEDS_HUMAN" by code_simp
    then show ?thesis
      using run by (auto simp: resolve_def sample_resolution(1) plan_resolution_def)
  qed
  then show ?thesis
    using resolve_failure run by fastforce
qed

theorem approval_hash_binds_witness:
  "UPDATE_REQUIREMENT = UPDATE_REQUIREMENT \<or>
   collision (dumps True (approval_payload sample_resolution_codecs reviewed_case 5 UPDATE_REQUIREMENT review_changeset))
     (dumps True (approval_payload sample_resolution_codecs reviewed_case 5 UPDATE_REQUIREMENT review_changeset))"
proof -
  have "wf_json (JObj (case_dump sample_resolution_codecs reviewed_case))"
    "wf_json (JObj (plain_changeset_dump sample_resolution_codecs review_changeset))"
    by code_simp+
  then show ?thesis
    using approval_hash_binds [of sample_resolution_codecs reviewed_case 5 UPDATE_REQUIREMENT review_changeset
        reviewed_case 5 UPDATE_REQUIREMENT review_changeset] by blast
qed

text \<open>The same case while it is open, with codecs that tell its three versions apart.\<close>

definition review_codecs :: resolution_codecs where
  "review_codecs = sample_resolution_codecs\<lparr>
     case_dump := (\<lambda>rcase. [(''created_by'', JStr (case_status_value (rc_status rcase)))]),
     case_decode := (\<lambda>kvs. Inr (
        if kvs = [(''created_by'', JStr (case_status_value OPEN))] then sample_case ''c1''
        else if kvs = [(''created_by'', JStr (case_status_value PROPOSED))]
        then advance (sample_case ''c1'') PROPOSED ''ana'' 7 None None
        else reviewed_case))\<rparr>"

definition open_disk :: disk where
  "open_disk = review_disk\<lparr>dk_files := (dk_files review_disk)(''cases'' \<mapsto>
     json_line [(''created_by'', JStr (case_status_value OPEN))])\<rparr>"

lemma sample_review:
  "snd (resolve review_codecs sample_codec sample_service [] ''c1'' UPDATE_REQUIREMENT None 7 (dk_files open_disk) open_disk) =
     Inr (reviewed_case, Some review_changeset,
       Some (approval_hash review_codecs reviewed_case 5 UPDATE_REQUIREMENT review_changeset))"
  by code_simp

theorem review_then_approve_witness:
  "\<exists>d1. fst (resolve review_codecs sample_codec sample_service [] ''c1'' UPDATE_REQUIREMENT None 7
       (dk_files open_disk) open_disk) = d1 \<and>
     resolve review_codecs sample_codec sample_service [] ''c1'' UPDATE_REQUIREMENT
       (Some (approval_hash review_codecs reviewed_case 5 UPDATE_REQUIREMENT review_changeset)) 9 (dk_files d1) d1 =
     (case execute (exec_codecs.truncate review_codecs) (rs_coordinator sample_service) [] review_changeset
         (resolve_request resolved_case) d1 of
        (d2, Inl _) \<Rightarrow> (d2, Inl ResolutionUnavailable)
      | (d2, Inr _) \<Rightarrow> (d2, Inr (resolved_case, Some review_changeset, None)))"
proof -
  obtain d1 where run: "resolve review_codecs sample_codec sample_service [] ''c1'' UPDATE_REQUIREMENT None 7
      (dk_files open_disk) open_disk = (d1, Inr (reviewed_case, Some review_changeset,
       Some (approval_hash review_codecs reviewed_case 5 UPDATE_REQUIREMENT review_changeset)))"
    using sample_review by (metis prod.collapse)
  have "get_case (case_decode review_codecs) (dk_files open_disk ''cases'') ''c1'' = Inr (sample_case ''c1'')"
    "storable (case_dump review_codecs) (case_decode review_codecs)
       (advance (sample_case ''c1'') PROPOSED (rs_actor sample_service) 7 None None)"
    "rc_id (sample_case ''c1'') = ''c1''"
    by code_simp+
  then have "\<forall>rcase. get_case (case_decode review_codecs) (dk_files open_disk ''cases'') ''c1'' = Inr rcase \<longrightarrow>
      rc_id rcase = ''c1'' \<and> storable (case_dump review_codecs) (case_decode review_codecs)
        (advance rcase PROPOSED (rs_actor sample_service) 7 None None)"
    by auto
  moreover have "dk_journal open_disk = None" "complete_lines (text_of (dk_files open_disk ''cases''))"
    "storable (case_dump review_codecs) (case_decode review_codecs) reviewed_case"
    by code_simp+
  ultimately have "resolve review_codecs sample_codec sample_service [] ''c1'' UPDATE_REQUIREMENT
       (Some (approval_hash review_codecs reviewed_case 5 UPDATE_REQUIREMENT review_changeset)) 9 (dk_files d1) d1 =
    (let resolved = advance reviewed_case RESOLVED (rs_actor sample_service) 9 (Some UPDATE_REQUIREMENT)
        (Some (cs_id review_changeset)) in
     case execute (exec_codecs.truncate review_codecs) (rs_coordinator sample_service) [] review_changeset
         (resolve_request resolved) d1 of
       (d2, Inl _) \<Rightarrow> (d2, Inl ResolutionUnavailable)
     | (d2, Inr _) \<Rightarrow> (d2, Inr (resolved, Some review_changeset, None)))"
    using review_then_approve [OF run] by blast
  then show ?thesis
    using run by (simp add: Let_def resolved_case_def sample_service_def)
qed

end
