(* ===== verification/Sync.thy ===== *)
theory Sync
  imports Capture Executor Evidence_Store Sync_Result Local_Resolution
begin

text \<open>
  The orchestrator of a synchronisation run (\<open>sync/orchestrator.py\<close>). Every connector is synchronised in
  isolation: its new evidence becomes durable, its ChangeSet is applied, the cases found in the combined
  evidence are committed in one ChangeSet, and only then its checkpoint advances. The reasoner, the case
  detector, the assurance service and the connectors are the values the orchestrator is constructed
  with. The asynchronous calls to a connector are sequential in the code; cancellation is not modelled.
\<close>

record sync_state =
  sy_disk :: disk
  sy_checkpoints :: "string option"
  sy_aborted :: "string list"
  sy_ticks :: nat

record sync_env =
  se_codecs :: exec_codecs
  se_evidence :: evidence_codec
  se_checkpoint :: checkpoint_codec
  se_reason :: "evidence_delta \<Rightarrow> graph \<Rightarrow> changeset res"
  se_detect :: "evidence_delta \<Rightarrow> graph \<Rightarrow> drift_observation list res"
  se_graph_coordinator :: coordinator
  se_executor :: "coordinator option"
  se_assurance :: "(graph \<Rightarrow> evidence_record list \<Rightarrow> evidence_ingestion list \<Rightarrow>
    reconciliation_case list \<Rightarrow> drift_observation list res) option"
  se_transactions :: "coordinator option"
  se_snapshot_files :: "string list"
  se_clock :: "nat \<Rightarrow> datetime"

definition new_orchestrator :: "sync_env \<Rightarrow> sync_env res" where
  "new_orchestrator env =
     (if se_transactions env = None \<and> se_snapshot_files env \<noteq> []
      then Inl (ValueError ''assurance snapshot files require transactions'')
      else case se_transactions env of
        Some co \<Rightarrow>
          if {''graph'', ''evidence'', ''cases''} \<subseteq> set (co_targets co)
          then Inr (env\<lparr>se_snapshot_files := sort (se_snapshot_files env)\<rparr>)
          else Inl (ValueError ''assurance transaction targets are incomplete'')
      | None \<Rightarrow> Inr env)"

record progress =
  pg_evidence_added :: int
  pg_changes_applied :: int
  pg_cases_created :: int

record pending_connector =
  pc_connector :: connector
  pc_prior :: "sync_checkpoint option"
  pc_discovered :: "source_object list"
  pc_delta :: evidence_delta
  pc_progress :: progress

section \<open>Fetching\<close>

text \<open>The state of the work on one connector: the run's state, its progress, and whether this run owns
  a generation of it.\<close>

record work =
  wk_sync :: sync_state
  wk_progress :: progress
  wk_acquired :: bool

definition evidence_file :: "sync_state \<Rightarrow> string option" where
  "evidence_file st = dk_files (sy_disk st) ''evidence''"

definition set_evidence_file :: "string option \<Rightarrow> sync_state \<Rightarrow> sync_state" where
  "set_evidence_file content st =
     st\<lparr>sy_disk := (sy_disk st)\<lparr>dk_files := (dk_files (sy_disk st))(''evidence'' := content)\<rparr>\<rparr>"

definition connector_type :: "connector \<Rightarrow> string res" where
  "connector_type cn =
     (let t = (case cn_type cn of None \<Rightarrow> cn_id cn | Some t \<Rightarrow> t) in
      if t = [] then Inl (ValueError ''connector type must be a non-empty string'') else Inr t)"

definition migrate_connector :: "sync_env \<Rightarrow> string \<Rightarrow> string \<Rightarrow> (work, unit) act" where
  "migrate_connector env connector_id ctype w =
     (case migrate_legacy (se_evidence env) connector_id ctype (evidence_file (wk_sync w)) of
        (content, result) \<Rightarrow> (w\<lparr>wk_sync := set_evidence_file content (wk_sync w)\<rparr>, result))"

definition read_ledger :: "sync_env \<Rightarrow> string \<Rightarrow> string \<Rightarrow> (work, evidence_ingestion list) act" where
  "read_ledger env connector_id ctype w =
     (w, ledger (se_evidence env) (evidence_file (wk_sync w)) connector_id (Some ctype))"

definition persist_evidence :: "sync_env \<Rightarrow> string \<Rightarrow> evidence_record \<Rightarrow> (work, unit) act" where
  "persist_evidence env connector_id r w =
     (case associate (se_evidence env) connector_id r (evidence_file (wk_sync w)) of
        Inl e \<Rightarrow> (w, Inl e)
      | Inr (added, content) \<Rightarrow>
          (w\<lparr>wk_sync := set_evidence_file content (wk_sync w),
             wk_progress := (if added then (wk_progress w)\<lparr>pg_evidence_added := pg_evidence_added (wk_progress w) + 1\<rparr>
               else wk_progress w)\<rparr>, Inr ()))"

text \<open>The accumulators of the loop over the discovered objects. \<open>record_ids\<close> of the code is the set of
  identities of \<open>records\<close>.\<close>

record fetched =
  ft_records :: "evidence_record list"
  ft_ingestions :: "evidence_ingestion list"
  ft_prior_versions :: "string dict"

definition last_ingestion :: "string \<Rightarrow> evidence_ingestion list \<Rightarrow> evidence_ingestion res" where
  "last_ingestion i es =
     (case find (\<lambda>x. er_id (ing_evidence x) = i) (rev es) of
        None \<Rightarrow> Inl StopIteration | Some x \<Rightarrow> Inr x)"

definition note_record :: "string list \<Rightarrow> evidence_record \<Rightarrow> evidence_ingestion \<Rightarrow> fetched \<Rightarrow> fetched" where
  "note_record consumed r i ft =
     (let ft = (case ing_predecessor_id i of
            None \<Rightarrow> ft
          | Some p \<Rightarrow> ft\<lparr>ft_prior_versions := AList.update (er_external_object_id r) p (ft_prior_versions ft)\<rparr>) in
      if er_id r \<notin> set consumed \<and> er_id r \<notin> er_id ` set (ft_records ft)
      then ft\<lparr>ft_records := ft_records ft @ [r], ft_ingestions := ft_ingestions ft @ [i]\<rparr> else ft)"

definition fetch_object ::
  "sync_env \<Rightarrow> connector \<Rightarrow> string \<Rightarrow> string list \<Rightarrow> source_object \<Rightarrow> fetched \<Rightarrow> (work, fetched) act" where
  "fetch_object env cn ctype consumed obj ft =
     act_bind (act_lift (cn_fetch cn (so_external_object_id obj) (so_external_version obj))) (\<lambda>raw.
     act_bind (act_lift (cn_normalize cn raw)) (\<lambda>r.
     act_bind (act_guard (er_connector_type r \<noteq> ctype) (ValueError ''connector evidence type mismatch'')) (\<lambda>_.
     act_bind (persist_evidence env (cn_id cn) r) (\<lambda>_.
     act_bind (read_ledger env (cn_id cn) ctype) (\<lambda>es.
     act_bind (act_lift (last_ingestion (er_id r) es)) (\<lambda>i.
     act_return (note_record consumed r i ft)))))))"

fun fetch_objects ::
  "sync_env \<Rightarrow> connector \<Rightarrow> string \<Rightarrow> string list \<Rightarrow> source_object list \<Rightarrow> fetched \<Rightarrow> (work, fetched) act" where
  "fetch_objects env cn ctype consumed [] ft = act_return ft"
| "fetch_objects env cn ctype consumed (obj # objs) ft =
     act_bind (fetch_object env cn ctype consumed obj ft) (fetch_objects env cn ctype consumed objs)"

text \<open>What is left of the ledger behind the checkpoint.\<close>

definition unconsumed :: "string list \<Rightarrow> evidence_ingestion list \<Rightarrow> fetched" where
  "unconsumed consumed es =
     (let rest = filter (\<lambda>x. er_id (ing_evidence x) \<notin> set consumed) es in
      \<lparr>ft_records = map ing_evidence rest, ft_ingestions = rest,
       ft_prior_versions = fold (\<lambda>x d. case ing_predecessor_id x of
           None \<Rightarrow> d | Some p \<Rightarrow> AList.update (er_external_object_id (ing_evidence x)) p d) rest []\<rparr>)"

definition consumed_ids :: "sync_checkpoint option \<Rightarrow> string list" where
  "consumed_ids prior = (case prior of None \<Rightarrow> [] | Some p \<Rightarrow> cp_consumed_evidence_ids p)"

definition acquire :: "connector \<Rightarrow> string option \<Rightarrow> (work, source_object list) act" where
  "acquire cn cursor w =
     (case cn_discover cn cursor of
        Inl e \<Rightarrow> (w, Inl e) | Inr objs \<Rightarrow> (w\<lparr>wk_acquired := True\<rparr>, Inr objs))"

definition fetch_connector :: "sync_env \<Rightarrow> connector \<Rightarrow> (work, pending_connector) act" where
  "fetch_connector env cn =
     act_bind (\<lambda>w. (w, get_checkpoint (se_checkpoint env) (sy_checkpoints (wk_sync w)) (cn_id cn))) (\<lambda>prior.
     act_bind (act_lift (connector_type cn)) (\<lambda>ctype.
     act_bind (migrate_connector env (cn_id cn) ctype) (\<lambda>_.
     act_bind (read_ledger env (cn_id cn) ctype) (\<lambda>es.
     act_bind (act_guard (\<not> is_exact_consumed_prefix (consumed_ids prior) (map (\<lambda>x. er_id (ing_evidence x)) es))
         (ValueError ''checkpoint consumption association is invalid'')) (\<lambda>_.
     act_bind (acquire cn (case prior of None \<Rightarrow> None | Some p \<Rightarrow> cp_cursor p)) (\<lambda>discovered.
     act_bind (fetch_objects env cn ctype (consumed_ids prior) discovered (unconsumed (consumed_ids prior) es)) (\<lambda>ft.
     (\<lambda>w. (w, Inr \<lparr>pc_connector = cn, pc_prior = prior, pc_discovered = discovered,
        pc_delta = \<lparr>ed_added = ft_records ft, ed_prior_versions = ft_prior_versions ft, ed_ingestions = ft_ingestions ft\<rparr>,
        pc_progress = wk_progress w\<rparr>)))))))))"

section \<open>The run\<close>

record run =
  rn_sync :: sync_state
  rn_results :: "connector_run_result dict"
  rn_owned :: "string list"

definition redacted :: string where
  "redacted = ''connector failed''"

definition failure :: "progress \<Rightarrow> connector_run_result" where
  "failure p = failed redacted (pg_evidence_added p) (pg_changes_applied p) (pg_cases_created p)"

definition set_result :: "string \<Rightarrow> connector_run_result \<Rightarrow> run \<Rightarrow> run" where
  "set_result k x r = r\<lparr>rn_results := AList.update k x (rn_results r)\<rparr>"

definition abort_owned :: "string \<Rightarrow> run \<Rightarrow> run" where
  "abort_owned k r =
     (if k \<in> set (rn_owned r)
      then r\<lparr>rn_owned := filter (\<lambda>x. x \<noteq> k) (rn_owned r),
             rn_sync := (rn_sync r)\<lparr>sy_aborted := sy_aborted (rn_sync r) @ [k]\<rparr>\<rparr>
      else r)"

definition abort_all_owned :: "run \<Rightarrow> run" where
  "abort_all_owned r =
     r\<lparr>rn_owned := [], rn_sync := (rn_sync r)\<lparr>sy_aborted := sy_aborted (rn_sync r) @ rn_owned r\<rparr>\<rparr>"

definition no_progress :: progress where
  "no_progress = \<lparr>pg_evidence_added = 0, pg_changes_applied = 0, pg_cases_created = 0\<rparr>"

definition fetch_one :: "sync_env \<Rightarrow> connector \<Rightarrow> run \<Rightarrow> run \<times> pending_connector option" where
  "fetch_one env cn r =
     (case fetch_connector env cn \<lparr>wk_sync = rn_sync r, wk_progress = no_progress, wk_acquired = False\<rparr> of (w, out) \<Rightarrow>
       let r = r\<lparr>rn_sync := wk_sync w,
                 rn_owned := (if wk_acquired w \<and> has_lifecycle cn then rn_owned r @ [cn_id cn] else rn_owned r)\<rparr> in
       case out of
         Inr p \<Rightarrow> (r, Some p)
       | Inl _ \<Rightarrow>
           (set_result (cn_id cn) (failure (wk_progress w))
              (if wk_acquired w then abort_owned (cn_id cn) r else r), None))"

fun fetch_phase :: "sync_env \<Rightarrow> connector list \<Rightarrow> run \<Rightarrow> run \<times> pending_connector list" where
  "fetch_phase env [] r = (r, [])"
| "fetch_phase env (cn # cns) r =
     (case fetch_one env cn r of (r, p) \<Rightarrow>
      case fetch_phase env cns r of (r, ps) \<Rightarrow>
        (r, (case p of None \<Rightarrow> ps | Some p \<Rightarrow> p # ps)))"

section \<open>Reasoning\<close>

definition no_effects :: apply_request where
  "no_effects =
     \<lparr>ar_created_cases = [], ar_resolved_cases = [], ar_intent_proposal_preimage = None,
      ar_intent_proposal_append = None, ar_graph_preimage = None, ar_evidence_preimage = None,
      ar_case_preimage = None, ar_bind_case_preimage = False, ar_read_only_extras = None,
      ar_extra_preimages = None, ar_extra_read_policies = None\<rparr>"

definition commit_changeset :: "sync_env \<Rightarrow> changeset \<Rightarrow> disk \<Rightarrow> disk \<times> graph res" where
  "commit_changeset env cs d =
     (case se_executor env of
        None \<Rightarrow> apply_graph (codecs.truncate (se_codecs env)) (se_graph_coordinator env) [] cs d
      | Some co \<Rightarrow> execute (se_codecs env) co [] cs no_effects d)"

definition apply_reasoning :: "sync_env \<Rightarrow> evidence_delta \<Rightarrow> (sync_state \<times> progress, unit) act" where
  "apply_reasoning env delta =
     act_bind (\<lambda>s. (s, load_graph (codecs.truncate (se_codecs env)) (dk_files (sy_disk (fst s))))) (\<lambda>g.
     act_bind (act_lift (se_reason env delta g)) (\<lambda>proposed.
     act_bind (act_lift (validate_changeset proposed)) (\<lambda>cs.
     act_bind (act_guard (cs_reconciliation_cases_created cs \<noteq> [] \<or> cs_reconciliation_cases_resolved cs \<noteq> [])
         (ValueError ''reasoner cannot supply reconciliation payloads'')) (\<lambda>_.
     if \<not> is_semantic cs then act_return ()
     else (\<lambda>(st, p).
       case commit_changeset env cs (sy_disk st) of
         (d, Inl e) \<Rightarrow> ((st\<lparr>sy_disk := d\<rparr>, p), Inl e)
       | (d, Inr _) \<Rightarrow> ((st\<lparr>sy_disk := d\<rparr>, p\<lparr>pg_changes_applied := pg_changes_applied p + 1\<rparr>), Inr ()))))))"

definition reason_one :: "sync_env \<Rightarrow> pending_connector \<Rightarrow> run \<Rightarrow> run \<times> pending_connector option" where
  "reason_one env p r =
     (if ed_added (pc_delta p) = [] then (r, Some p)
      else case apply_reasoning env (pc_delta p) (rn_sync r, pc_progress p) of ((st, pg), out) \<Rightarrow>
        let r = r\<lparr>rn_sync := st\<rparr>; k = cn_id (pc_connector p) in
        case out of
          Inr _ \<Rightarrow> (r, Some (p\<lparr>pc_progress := pg\<rparr>))
        | Inl _ \<Rightarrow> (set_result k (failure pg) (abort_owned k r), None))"

fun reason_phase :: "sync_env \<Rightarrow> pending_connector list \<Rightarrow> run \<Rightarrow> run \<times> pending_connector list" where
  "reason_phase env [] r = (r, [])"
| "reason_phase env (p # ps) r =
     (case reason_one env p r of (r, q) \<Rightarrow>
      case reason_phase env ps r of (r, qs) \<Rightarrow>
        (r, (case q of None \<Rightarrow> qs | Some q \<Rightarrow> q # qs)))"

section \<open>Detection over the combined evidence\<close>

definition combined_delta :: "pending_connector list \<Rightarrow> evidence_delta" where
  "combined_delta ps =
     \<lparr>ed_added = concat (map (\<lambda>p. ed_added (pc_delta p)) ps), ed_prior_versions = [],
      ed_ingestions = concat (map (\<lambda>p. ed_ingestions (pc_delta p)) ps)\<rparr>"

record scheduled_snapshot =
  sn_graph :: graph
  sn_records :: "evidence_record list"
  sn_ingestions :: "evidence_ingestion list"
  sn_cases :: "reconciliation_case list"
  sn_graph_preimage :: string
  sn_evidence_preimage :: "string option"
  sn_case_preimage :: "string option"
  sn_extra_preimages :: "string option dict"

definition combined_snapshot :: "sync_env \<Rightarrow> (sync_state, scheduled_snapshot) act" where
  "combined_snapshot env st =
     (case se_transactions env of
        None \<Rightarrow> (st, Inl (ValueError ''assurance transaction snapshot is unavailable''))
      | Some co \<Rightarrow>
          (case res_bind (check_extras (co_targets co) (se_snapshot_files env) []) (\<lambda>_.
                  recover (co_targets co) (co_legacy_sets co) (sy_disk st)) of
             Inl e \<Rightarrow> (st, Inl e)
           | Inr (_, d) \<Rightarrow>
               (st\<lparr>sy_disk := d\<rparr>,
                let f = dk_files d in
                case f ''graph'' of
                  None \<Rightarrow> Inl (ValueError ''assurance graph snapshot is unavailable'')
                | Some graph_content \<Rightarrow>
                    res_bind (parse_evidence_lines (se_evidence env) (f ''evidence'')) (\<lambda>es.
                    res_bind (parse_case_versions (case_decode (se_codecs env)) (f ''cases'')) (\<lambda>versions.
                    res_bind (parse_graph (codecs.truncate (se_codecs env)) graph_content) (\<lambda>g.
                    Inr \<lparr>sn_graph = g, sn_records = sort_key er_id (dict_values (st_records es)),
                      sn_ingestions = sort_key (\<lambda>i. (ing_connector_id i, ing_sequence i)) (st_ingestions es),
                      sn_cases = sorted_values (dict_of rc_id versions),
                      sn_graph_preimage = graph_content, sn_evidence_preimage = f ''evidence'',
                      sn_case_preimage = f ''cases'',
                      sn_extra_preimages = map (\<lambda>name. (name, f name)) (se_snapshot_files env)\<rparr>))))))"

definition baseline_type :: "node_kind \<Rightarrow> bool" where
  "baseline_type t \<longleftrightarrow>
     (\<exists>n \<in> {CONTEXT, NEED, PRODUCT_INTENT, DESIRED_OUTCOME, ASSUMPTION, PRINCIPLE, CONSTRAINT}. t = Builtin n)"

definition has_baseline :: "graph \<Rightarrow> bool" where
  "has_baseline g \<longleftrightarrow>
     list_ex (\<lambda>n. nd_status n \<in> {''active'', ''provisional''} \<and> baseline_type (nd_type n)) (g_nodes g)"

definition case_of_observation :: "datetime \<Rightarrow> drift_observation \<Rightarrow> reconciliation_case" where
  "case_of_observation created_at obs =
     \<lparr>rc_id = ''case:sha256:'' @ do_fingerprint obs, rc_subject_ref = do_subject_ref obs,
      rc_case_type = do_case_type obs, rc_affected_refs = do_affected_refs obs,
      rc_evidence_sides = do_evidence_sides obs, rc_detector_id = do_detector_id obs,
      rc_fingerprint = do_fingerprint obs, rc_created_at = created_at,
      rc_created_by = ''detector:'' @ do_detector_id obs, rc_status = OPEN,
      rc_requires_human = do_requires_human obs, rc_alternatives = [], rc_impact = [],
      rc_resolution = None, rc_resolved_by_changeset = None, rc_history = []\<rparr>"

definition tick :: "sync_env \<Rightarrow> sync_state \<Rightarrow> datetime \<times> sync_state" where
  "tick env st = (se_clock env (sy_ticks st), st\<lparr>sy_ticks := Suc (sy_ticks st)\<rparr>)"

fun new_cases ::
  "sync_env \<Rightarrow> drift_observation list \<Rightarrow> string list \<Rightarrow> (sync_state, reconciliation_case list) act" where
  "new_cases env [] known st = (st, Inr [])"
| "new_cases env (obs # rest) known st =
     (if do_fingerprint obs \<in> set known then new_cases env rest known st
      else case tick env st of (now, st) \<Rightarrow>
        act_bind (act_lift (validate_case (case_of_observation now obs))) (\<lambda>c.
        act_bind (new_cases env rest (do_fingerprint obs # known)) (\<lambda>cs.
        act_return (c # cs))) st)"

definition detection_changeset :: "graph \<Rightarrow> reconciliation_case list \<Rightarrow> datetime \<Rightarrow> changeset res" where
  "detection_changeset g cases now =
     (let case_ids = map rc_id cases;
          evidence_refs = sorted_set (concat (map all_evidence_refs cases));
          material = join NUL (int_str (g_version g) # case_ids @ evidence_refs) in
      validate_changeset
        \<lparr>cs_id = ''changeset:detect:'' @ hexdigest material, cs_actor = ''detector:sync'',
         cs_timestamp = now, cs_baseline_graph_version = g_version g, cs_evidence_refs = evidence_refs,
         cs_nodes_added = [], cs_nodes_updated = [], cs_nodes_superseded = [], cs_edges_added = [],
         cs_edges_updated = [], cs_edges_superseded = [], cs_confidence_changes = [],
         cs_implementation_status_changes = [], cs_reconciliation_cases_created = case_ids,
         cs_reconciliation_cases_resolved = [], cs_validation_status = ''validated''\<rparr>)"

definition detection_request ::
  "sync_env \<Rightarrow> scheduled_snapshot option \<Rightarrow> reconciliation_case list \<Rightarrow> apply_request" where
  "detection_request env snap cases =
     (case snap of
        None \<Rightarrow> no_effects\<lparr>ar_created_cases := cases\<rparr>
      | Some sn \<Rightarrow> no_effects\<lparr>ar_created_cases := cases, ar_graph_preimage := Some (sn_graph_preimage sn),
          ar_evidence_preimage := sn_evidence_preimage sn, ar_case_preimage := sn_case_preimage sn,
          ar_bind_case_preimage := True, ar_read_only_extras := Some (se_snapshot_files env),
          ar_extra_preimages := Some (sn_extra_preimages sn)\<rparr>)"

definition all_observations ::
  "sync_env \<Rightarrow> evidence_delta \<Rightarrow> graph \<Rightarrow> scheduled_snapshot option \<Rightarrow> drift_observation list res" where
  "all_observations env delta g snap =
     res_bind (se_detect env delta g) (\<lambda>observations.
       case (se_assurance env, snap) of
         (Some detect, Some sn) \<Rightarrow>
           if has_baseline g
           then res_bind (detect g (sn_records sn) (sn_ingestions sn) (sn_cases sn)) (\<lambda>more.
             Inr (observations @
               filter (\<lambda>obs. do_subject_ref obs \<notin> set (map do_subject_ref observations)) more))
           else Inr observations
       | _ \<Rightarrow> Inr observations)"

definition known_fingerprints :: "sync_env \<Rightarrow> scheduled_snapshot option \<Rightarrow> files \<Rightarrow> string list res" where
  "known_fingerprints env snap f =
     (case snap of
        Some sn \<Rightarrow> Inr (map rc_fingerprint (sn_cases sn))
      | None \<Rightarrow>
          res_bind (list_cases (case_decode (se_codecs env)) (f ''cases'') None) (\<lambda>cs.
            Inr (map rc_fingerprint cs)))"

definition commit_cases ::
  "sync_env \<Rightarrow> scheduled_snapshot option \<Rightarrow> graph \<Rightarrow> reconciliation_case list \<Rightarrow> (sync_state, int \<times> int) act" where
  "commit_cases env snap g cases st =
     (if cases = [] then (st, Inr (0, 0))
      else case se_executor env of
        None \<Rightarrow> (st, Inl (ValueError ''case effects require transaction-level executor''))
      | Some co \<Rightarrow>
          (case tick env st of (now, st) \<Rightarrow>
             (case detection_changeset g cases now of
                Inl e \<Rightarrow> (st, Inl e)
              | Inr cs \<Rightarrow>
                  (case execute (se_codecs env) co [] cs (detection_request env snap cases) (sy_disk st) of
                     (d, Inl e) \<Rightarrow> (st\<lparr>sy_disk := d\<rparr>, Inl e)
                   | (d, Inr _) \<Rightarrow> (st\<lparr>sy_disk := d\<rparr>, Inr (int (length cases), 1))))))"

definition apply_detected_cases ::
  "sync_env \<Rightarrow> evidence_delta \<Rightarrow> scheduled_snapshot option \<Rightarrow> (sync_state, int \<times> int) act" where
  "apply_detected_cases env delta snap =
     (if ed_added delta = [] \<and>
         (se_assurance env = None \<or> (case snap of None \<Rightarrow> True | Some sn \<Rightarrow> sn_records sn = []))
      then act_return (0, 0)
      else
        act_bind (\<lambda>st. (st, case snap of
            Some sn \<Rightarrow> Inr (sn_graph sn)
          | None \<Rightarrow> load_graph (codecs.truncate (se_codecs env)) (dk_files (sy_disk st)))) (\<lambda>g.
        act_bind (act_lift (all_observations env delta g snap)) (\<lambda>observations.
        act_bind (\<lambda>st. (st, known_fingerprints env snap (dk_files (sy_disk st)))) (\<lambda>known.
        act_bind (new_cases env (sort_key do_fingerprint observations) known) (\<lambda>cases.
        commit_cases env snap g cases)))))"

definition add_case_counts :: "int \<times> int \<Rightarrow> progress \<Rightarrow> progress" where
  "add_case_counts n p =
     p\<lparr>pg_cases_created := pg_cases_created p + fst n, pg_changes_applied := pg_changes_applied p + snd n\<rparr>"

definition detect_phase :: "sync_env \<Rightarrow> pending_connector list \<Rightarrow> run \<Rightarrow> run \<times> pending_connector list" where
  "detect_phase env ps r =
     (case ps of
        [] \<Rightarrow> (r, [])
      | p # rest \<Rightarrow>
          (case act_bind
                  (if se_assurance env \<noteq> None then act_bind (combined_snapshot env) (\<lambda>s. act_return (Some s))
                   else act_return None)
                  (\<lambda>snap. apply_detected_cases env (combined_delta ps) snap) (rn_sync r) of
             (st, Inr n) \<Rightarrow>
               (r\<lparr>rn_sync := st\<rparr>,
                (if fst n \<noteq> 0 then p\<lparr>pc_progress := add_case_counts n (pc_progress p)\<rparr> # rest else ps))
           | (st, Inl _) \<Rightarrow>
               (abort_all_owned
                  (fold (\<lambda>p. set_result (cn_id (pc_connector p)) (failure (pc_progress p))) ps (r\<lparr>rn_sync := st\<rparr>)),
                [])))"

section \<open>Checkpoints\<close>

definition lookup_records :: "string list \<Rightarrow> evidence_ingestion list \<Rightarrow> evidence_record list res" where
  "lookup_records ids es =
     (let by_id = dict_of er_id (map ing_evidence es) in
      fold_res (\<lambda>i acc. case map_of by_id i of None \<Rightarrow> Inl (KeyError i) | Some r \<Rightarrow> Inr (acc @ [r])) ids [])"

definition next_consumed :: "pending_connector \<Rightarrow> string list" where
  "next_consumed p = fromkeys (consumed_ids (pc_prior p) @ map er_id (ed_added (pc_delta p)))"

definition build_checkpoint :: "sync_env \<Rightarrow> pending_connector \<Rightarrow> (sync_state, sync_checkpoint) act" where
  "build_checkpoint env p =
     act_bind (\<lambda>st. (st, res_bind (connector_type (pc_connector p)) (\<lambda>ctype.
         ledger (se_evidence env) (evidence_file st) (cn_id (pc_connector p)) (Some ctype)))) (\<lambda>es.
     act_bind (act_lift (lookup_records (next_consumed p) es)) (\<lambda>consumed.
     act_bind (\<lambda>st. case tick env st of (now, st) \<Rightarrow> (st, Inr now)) (\<lambda>now.
     act_lift (checkpoint_after_discovery (pc_connector p) (pc_discovered p) now (pc_prior p)
       (next_consumed p) consumed))))"

definition checkpoint_advanced :: "sync_checkpoint option \<Rightarrow> sync_checkpoint \<Rightarrow> bool" where
  "checkpoint_advanced prior cp \<longleftrightarrow>
     (case prior of
        None \<Rightarrow> True
      | Some p \<Rightarrow> cp_cursor cp \<noteq> cp_cursor p \<or> cp_consumed_evidence_ids cp \<noteq> cp_consumed_evidence_ids p)"

definition store_checkpoint :: "sync_env \<Rightarrow> pending_connector \<Rightarrow> sync_checkpoint \<Rightarrow> (sync_state, bool) act" where
  "store_checkpoint env p cp st =
     (if checkpoint_advanced (pc_prior p) cp
      then
        (case compare_and_set (se_checkpoint env) (cn_id (pc_connector p)) (pc_prior p) (cp_cursor cp)
                (cp_committed_at cp) (cp_consumed_evidence_ids cp) (sy_checkpoints st) of
           Inl e \<Rightarrow> (st, Inl e)
         | Inr (_, content) \<Rightarrow> (st\<lparr>sy_checkpoints := content\<rparr>, Inr True))
      else (st, Inr False))"

text \<open>The generation counts as finalised once the checkpoint is built: a stale write no longer aborts it.\<close>

definition checkpoint_one :: "sync_env \<Rightarrow> pending_connector \<Rightarrow> run \<Rightarrow> run" where
  "checkpoint_one env p r =
     (let k = cn_id (pc_connector p); pg = pc_progress p in
      case build_checkpoint env p (rn_sync r) of
        (st, Inl _) \<Rightarrow> set_result k (failure pg) (abort_owned k (r\<lparr>rn_sync := st\<rparr>))
      | (st, Inr cp) \<Rightarrow>
          let r = r\<lparr>rn_owned := filter (\<lambda>x. x \<noteq> k) (rn_owned r)\<rparr> in
          (case store_checkpoint env p cp st of
             (st, Inl _) \<Rightarrow> set_result k (failure pg) (abort_owned k (r\<lparr>rn_sync := st\<rparr>))
           | (st, Inr advanced) \<Rightarrow>
               set_result k (succeeded (pg_evidence_added pg) (pg_changes_applied pg) (pg_cases_created pg) advanced)
                 (r\<lparr>rn_sync := st\<rparr>)))"

definition run_phases :: "sync_env \<Rightarrow> connector list \<Rightarrow> sync_state \<Rightarrow> run" where
  "run_phases env cns st =
     (case fetch_phase env cns \<lparr>rn_sync = st, rn_results = [], rn_owned = []\<rparr> of (r, pending) \<Rightarrow>
      case reason_phase env pending r of (r, successes) \<Rightarrow>
      case detect_phase env successes r of (r, successes) \<Rightarrow>
        fold (checkpoint_one env) successes r)"

definition run_sync ::
  "sync_env \<Rightarrow> string \<Rightarrow> connector list \<Rightarrow> int \<Rightarrow> (sync_state, sync_run_result) act" where
  "run_sync env run_id cns duration_ms st =
     (case find (\<lambda>i. count_list (map cn_id cns) i > 1) (map cn_id cns) of
        Some duplicate \<Rightarrow> (st, Inl (ValueError (''duplicate connector id: '' @ duplicate)))
      | None \<Rightarrow>
          let r = run_phases env cns st in
          (rn_sync r, Inr (from_connector_results run_id (rn_results r) duration_ms)))"

section \<open>Frames\<close>

text \<open>An action leaves a part of its state alone.\<close>

definition keeps :: "('s \<Rightarrow> 'p) \<Rightarrow> ('s, 'a) act \<Rightarrow> bool" where
  "keeps proj m \<longleftrightarrow> (\<forall>s. proj (fst (m s)) = proj s)"

named_theorems keeps_intros

lemma keepsD: "keeps proj m \<Longrightarrow> m s = (s', r) \<Longrightarrow> proj s' = proj s"
  unfolding keeps_def by (metis fst_conv)

lemma keeps_simple [keeps_intros]:
  "keeps proj (act_return x)" "keeps proj (act_lift r)" "keeps proj (act_guard b e)" "keeps proj (\<lambda>s. (s, r' s))"
  by (simp_all add: keeps_def act_return_def act_lift_def act_guard_def)

lemma keeps_bind [keeps_intros]:
  "keeps proj m \<Longrightarrow> (\<And>x. keeps proj (k x)) \<Longrightarrow> keeps proj (act_bind m k)"
  by (simp add: keeps_def act_bind_def split: prod.split sum.split) (metis fst_conv)

lemma keeps_if [keeps_intros]: "keeps proj m \<Longrightarrow> keeps proj m' \<Longrightarrow> keeps proj (if b then m else m')"
  by simp

abbreviation work_checkpoints :: "work \<Rightarrow> string option" where
  "work_checkpoints w \<equiv> sy_checkpoints (wk_sync w)"

lemma set_evidence_checkpoints [simp]: "sy_checkpoints (set_evidence_file content st) = sy_checkpoints st"
  by (simp add: set_evidence_file_def)

lemma fetch_keeps [keeps_intros]:
  "keeps work_checkpoints (migrate_connector env i t)" "keeps work_checkpoints (read_ledger env i t)"
  "keeps work_checkpoints (persist_evidence env i r)" "keeps work_checkpoints (acquire cn cursor)"
  by (simp_all add: keeps_def migrate_connector_def read_ledger_def persist_evidence_def acquire_def
      split: sum.split prod.split)

lemma fetch_object_keeps [keeps_intros]: "keeps work_checkpoints (fetch_object env cn t consumed obj ft)"
  unfolding fetch_object_def by (intro keeps_intros)

lemma fetch_objects_keeps [keeps_intros]: "keeps work_checkpoints (fetch_objects env cn t consumed objs ft)"
proof (induction objs arbitrary: ft)
  case Nil
  show ?case unfolding fetch_objects.simps by (rule keeps_simple)
next
  case (Cons obj objs)
  show ?case unfolding fetch_objects.simps by (intro keeps_intros Cons)
qed

lemma fetch_connector_keeps: "keeps work_checkpoints (fetch_connector env cn)"
  unfolding fetch_connector_def by (intro keeps_intros)

lemma reasoning_keeps: "keeps (\<lambda>s. sy_checkpoints (fst s)) (apply_reasoning env delta)"
  unfolding apply_reasoning_def
  by (intro keeps_intros) (simp add: keeps_def split: prod.split sum.split)

lemma tick_checkpoints [simp]: "sy_checkpoints (snd (tick env st)) = sy_checkpoints st"
  by (simp add: tick_def)

lemma new_cases_keeps [keeps_intros]: "keeps sy_checkpoints (new_cases env observations known)"
proof (induction observations arbitrary: known)
  case (Cons ob obs)
  have "keeps sy_checkpoints (act_bind (act_lift (validate_case (case_of_observation now ob))) (\<lambda>c.
        act_bind (new_cases env obs (do_fingerprint ob # known)) (\<lambda>cs. act_return (c # cs))))" for now
    by (intro keeps_intros Cons)
  then show ?case
    using Cons by (auto simp: keeps_def tick_def)
qed (simp add: keeps_def)

lemma detection_keeps [keeps_intros]:
  "keeps sy_checkpoints (combined_snapshot env)" "keeps sy_checkpoints (commit_cases env snap g cases)"
  by (auto simp: keeps_def combined_snapshot_def commit_cases_def tick_def split: option.split sum.split prod.split)

lemma detected_keeps [keeps_intros]: "keeps sy_checkpoints (apply_detected_cases env delta snap)"
  unfolding apply_detected_cases_def by (intro keeps_intros)

lemma build_checkpoint_keeps: "keeps sy_checkpoints (build_checkpoint env p)"
  unfolding build_checkpoint_def
  by (intro keeps_intros) (simp add: keeps_def tick_def)

section \<open>Phases\<close>

abbreviation pid :: "pending_connector \<Rightarrow> string" where
  "pid p \<equiv> cn_id (pc_connector p)"

abbreviation result_ids :: "run \<Rightarrow> string set" where
  "result_ids r \<equiv> fst ` set (rn_results r)"

abbreviation checkpoint_file :: "run \<Rightarrow> string option" where
  "checkpoint_file r \<equiv> sy_checkpoints (rn_sync r)"

definition is_failure :: "connector_run_result \<Rightarrow> bool" where
  "is_failure x \<longleftrightarrow> rr_status x = FAILED \<and> \<not> rr_checkpoint_advanced x \<and> rr_redacted_error x = Some redacted"

text \<open>Before checkpoints are written: \<open>ids\<close> are split into those still pending and those that failed.\<close>

definition split_ok :: "string set \<Rightarrow> run \<Rightarrow> pending_connector list \<Rightarrow> bool" where
  "split_ok ids r ps \<longleftrightarrow>
     distinct (map pid ps) \<and> set (map pid ps) \<inter> result_ids r = {} \<and>
     set (map pid ps) \<union> result_ids r = ids \<and> (\<forall>(k, x) \<in> set (rn_results r). is_failure x)"

lemma is_failure_failure [simp]: "is_failure (failure p)"
  by (simp add: is_failure_def failure_def failed_def)

lemma abort_owned_sel [simp]:
  "checkpoint_file (abort_owned k r) = checkpoint_file r" "rn_results (abort_owned k r) = rn_results r"
  "checkpoint_file (abort_all_owned r) = checkpoint_file r" "rn_results (abort_all_owned r) = rn_results r"
  by (simp_all add: abort_owned_def abort_all_owned_def)

lemma set_result_sel [simp]:
  "rn_sync (set_result k x r) = rn_sync r" "rn_results (set_result k x r) = AList.update k x (rn_results r)"
  by (simp_all add: set_result_def)

lemma fetch_one_cases:
  assumes "fetch_one env cn r = (r', q)"
  shows "checkpoint_file r' = checkpoint_file r \<and>
    (case q of
       Some p \<Rightarrow> pc_connector p = cn \<and> rn_results r' = rn_results r
     | None \<Rightarrow> \<exists>x. is_failure x \<and> rn_results r' = AList.update (cn_id cn) x (rn_results r))"
proof -
  obtain w out where run: "fetch_connector env cn \<lparr>wk_sync = rn_sync r, wk_progress = no_progress, wk_acquired = False\<rparr> = (w, out)"
    by (metis surj_pair)
  have "work_checkpoints w = checkpoint_file r"
    using keepsD [OF fetch_connector_keeps run] by simp
  moreover have "pc_connector p = cn" if "out = Inr p" for p
    using run that by (auto simp: fetch_connector_def act_bind_Inr)
  ultimately show ?thesis
    using assms run is_failure_failure [of "wk_progress w"]
    by (auto simp: fetch_one_def Let_def split: sum.splits intro!: exI [of _ "failure (wk_progress w)"])
qed

lemma fetch_phase_split:
  assumes "fetch_phase env cns r = (r', ps)" "distinct (map cn_id cns)"
    and "set (map cn_id cns) \<inter> result_ids r = {}" "\<forall>(k, x) \<in> set (rn_results r). is_failure x"
  shows "checkpoint_file r' = checkpoint_file r \<and>
    split_ok (set (map cn_id cns) \<union> result_ids r) r' ps \<and> set (map pid ps) \<subseteq> set (map cn_id cns)"
  using assms
proof (induction cns arbitrary: r r' ps)
  case Nil
  then show ?case by (auto simp: split_ok_def)
next
  case (Cons cn cns)
  obtain r1 q where one: "fetch_one env cn r = (r1, q)" by (metis surj_pair)
  obtain ps' where rest: "fetch_phase env cns r1 = (r', ps')"
    and ps: "ps = (case q of None \<Rightarrow> ps' | Some p \<Rightarrow> p # ps')"
    using Cons.prems(1) one by (auto split: prod.splits)
  note f = fetch_one_cases [OF one]
  show ?case
  proof (cases q)
    case None
    then obtain x where x: "is_failure x" "rn_results r1 = AList.update (cn_id cn) x (rn_results r)"
      using f by auto
    have ids: "result_ids r1 = insert (cn_id cn) (result_ids r)"
      using x(2) by (simp add: set_keys_update fst_set_update)
    have "\<forall>(k, x) \<in> set (rn_results r1). is_failure x"
      using set_update_subset [of "cn_id cn" x "rn_results r"] x Cons.prems(4) by fastforce
    with Cons.IH [OF rest] Cons.prems(2,3) ids f None ps show ?thesis
      by auto
  next
    case (Some p)
    then have "pid p = cn_id cn" "result_ids r1 = result_ids r" "rn_results r1 = rn_results r" using f by auto
    with Cons.IH [OF rest] Cons.prems(2,3,4) f Some ps show ?thesis
      by (auto simp: split_ok_def)
  qed
qed

lemma split_fail:
  assumes "split_ok ids r (p # ps)" "is_failure x" "rn_results r' = AList.update (pid p) x (rn_results r)"
  shows "split_ok ids r' ps"
proof -
  have "result_ids r' = insert (pid p) (result_ids r)" using assms(3) by simp
  moreover have "\<forall>(k, x) \<in> set (rn_results r'). is_failure x"
    using set_update_subset [of "pid p" x "rn_results r"] assms by (fastforce simp: split_ok_def)
  ultimately show ?thesis using assms(1) by (auto simp: split_ok_def)
qed

lemma reason_one_cases:
  assumes "reason_one env p r = (r', q)"
  shows "checkpoint_file r' = checkpoint_file r \<and>
    (case q of
       Some p' \<Rightarrow> (\<exists>pg. p' = p\<lparr>pc_progress := pg\<rparr>) \<and> rn_results r' = rn_results r
     | None \<Rightarrow> \<exists>x. is_failure x \<and> rn_results r' = AList.update (pid p) x (rn_results r))"
proof (cases "ed_added (pc_delta p) = []")
  case True
  have "\<exists>pg. p = p\<lparr>pc_progress := pg\<rparr>" by (rule exI [of _ "pc_progress p"]) simp
  then show ?thesis using True assms by (auto simp: reason_one_def)
next
  case False
  obtain st pg out where run: "apply_reasoning env (pc_delta p) (rn_sync r, pc_progress p) = ((st, pg), out)"
    by (metis surj_pair)
  have "sy_checkpoints st = checkpoint_file r"
    using keepsD [OF reasoning_keeps run] by simp
  then show ?thesis
    using assms run False is_failure_failure [of pg]
    by (auto simp: reason_one_def Let_def split: sum.splits intro!: exI [of _ "failure pg"])
qed

lemma split_ok_cong:
  "split_ok ids r ps \<Longrightarrow> rn_results r' = rn_results r \<Longrightarrow> map pid ps' = map pid ps \<Longrightarrow> split_ok ids r' ps'"
  by (simp add: split_ok_def)

lemma reason_phase_split:
  assumes "reason_phase env ps r = (r', qs)" "split_ok ids r (kept @ ps)"
  shows "checkpoint_file r' = checkpoint_file r \<and> split_ok ids r' (kept @ qs) \<and>
    (\<forall>q \<in> set qs. \<exists>p \<in> set ps. \<exists>pg. q = p\<lparr>pc_progress := pg\<rparr>)"
  using assms
proof (induction ps arbitrary: r r' qs kept)
  case (Cons p ps)
  obtain r1 q where one: "reason_one env p r = (r1, q)" by (metis surj_pair)
  obtain qs' where rest: "reason_phase env ps r1 = (r', qs')"
    and qs: "qs = (case q of None \<Rightarrow> qs' | Some q \<Rightarrow> q # qs')"
    using Cons.prems(1) one by (auto split: prod.splits)
  note f = reason_one_cases [OF one]
  show ?case
  proof (cases q)
    case None
    then obtain x where x: "is_failure x" "rn_results r1 = AList.update (pid p) x (rn_results r)" using f by auto
    have "split_ok ids r (p # kept @ ps)" using Cons.prems(2) by (auto simp: split_ok_def)
    from Cons.IH [OF rest split_fail [OF this x]] show ?thesis
      using f None qs by auto
  next
    case (Some p')
    then obtain pg where p': "p' = p\<lparr>pc_progress := pg\<rparr>" and same: "rn_results r1 = rn_results r" using f by auto
    have "split_ok ids r1 ((kept @ [p']) @ ps)"
      by (rule split_ok_cong [OF Cons.prems(2) same]) (simp add: p')
    from Cons.IH [OF rest this] show ?thesis
      using f Some qs p' by auto
  qed
qed simp

lemma fold_set_failures:
  assumes "split_ok ids r ps"
  shows "split_ok ids (fold (\<lambda>p. set_result (pid p) (failure (pc_progress p))) ps r) [] \<and>
    rn_sync (fold (\<lambda>p. set_result (pid p) (failure (pc_progress p))) ps r) = rn_sync r"
  using assms
proof (induction ps arbitrary: r)
  case (Cons p ps)
  have "split_ok ids (set_result (pid p) (failure (pc_progress p)) r) ps"
    by (rule split_fail [OF Cons.prems is_failure_failure]) simp
  from Cons.IH [OF this] show ?case by simp
qed simp

lemma detect_phase_split:
  assumes "detect_phase env ps r = (r', qs)" "split_ok ids r ps"
  shows "checkpoint_file r' = checkpoint_file r \<and> split_ok ids r' qs \<and>
    (\<forall>q \<in> set qs. \<exists>p \<in> set ps. \<exists>pg. q = p\<lparr>pc_progress := pg\<rparr>)"
proof (cases ps)
  case Nil
  then show ?thesis using assms by (auto simp: detect_phase_def)
next
  case (Cons p rest)
  let ?m = "act_bind (if se_assurance env \<noteq> None then act_bind (combined_snapshot env) (\<lambda>s. act_return (Some s))
      else act_return None) (\<lambda>snap. apply_detected_cases env (combined_delta ps) snap)"
  obtain st out where run: "?m (rn_sync r) = (st, out)" by (metis surj_pair)
  have "keeps sy_checkpoints ?m" by (intro keeps_intros)
  from keepsD [OF this run] have cp: "sy_checkpoints st = checkpoint_file r" .
  show ?thesis
  proof (cases out)
    case (Inl e)
    let ?r1 = "r\<lparr>rn_sync := st\<rparr>"
    have "split_ok ids ?r1 ps" by (rule split_ok_cong [OF assms(2)]) simp_all
    note kept = fold_set_failures [OF this]
    have r': "r' = abort_all_owned (fold (\<lambda>p. set_result (pid p) (failure (pc_progress p))) ps ?r1)" "qs = []"
      using assms(1) run Inl Cons by (auto simp: detect_phase_def)
    have "split_ok ids r' []"
      unfolding r' by (rule split_ok_cong [OF conjunct1 [OF kept]]) simp_all
    then show ?thesis using kept cp r' by simp
  next
    case (Inr n)
    then have r': "r' = r\<lparr>rn_sync := st\<rparr>"
      and qs: "qs = (if fst n \<noteq> 0 then p\<lparr>pc_progress := add_case_counts n (pc_progress p)\<rparr> # rest else ps)"
      using assms(1) run Cons by (auto simp: detect_phase_def)
    have "\<exists>pg. q = q\<lparr>pc_progress := pg\<rparr>" for q :: pending_connector
      by (rule exI [of _ "pc_progress q"]) simp
    then have "\<forall>q \<in> set qs. \<exists>p \<in> set ps. \<exists>pg. q = p\<lparr>pc_progress := pg\<rparr>"
      unfolding qs Cons by auto
    moreover have "split_ok ids r' qs"
      by (rule split_ok_cong [OF assms(2)]) (simp_all add: r' qs Cons)
    ultimately show ?thesis using cp r' by simp
  qed
qed

section \<open>Checkpoints are connector-local\<close>

text \<open>The outcome of the last phase for one connector: a failure or no news, and its checkpoint stays;
  or success, and it names exactly what was consumed before and the delta.\<close>

definition outcome_ok :: "sync_env \<Rightarrow> pending_connector \<Rightarrow> string option \<Rightarrow> string option \<Rightarrow>
    connector_run_result \<Rightarrow> bool" where
  "outcome_ok env p before after x \<longleftrightarrow>
     (let get = (\<lambda>content. get_checkpoint (se_checkpoint env) content (pid p)) in
      (is_failure x \<and> get after = get before) \<or>
      (rr_status x = SUCCESS \<and> \<not> rr_checkpoint_advanced x \<and> get after = get before) \<or>
      (rr_status x = SUCCESS \<and> rr_checkpoint_advanced x \<and> get before = Inr (pc_prior p) \<and>
       (\<exists>cp. get after = Inr (Some cp) \<and> cp_consumed_evidence_ids cp = next_consumed p)))"

lemma checkpoint_one_cases:
  assumes ok: "checkpoint_codec_ok (se_checkpoint env)" and r': "checkpoint_one env p r = r'"
  shows "(\<forall>j. j \<noteq> pid p \<longrightarrow> get_checkpoint (se_checkpoint env) (checkpoint_file r') j =
      get_checkpoint (se_checkpoint env) (checkpoint_file r) j) \<and>
    (\<exists>x. rn_results r' = AList.update (pid p) x (rn_results r) \<and>
      outcome_ok env p (checkpoint_file r) (checkpoint_file r') x)"
proof -
  obtain st out where build: "build_checkpoint env p (rn_sync r) = (st, out)" by (metis surj_pair)
  have st: "sy_checkpoints st = checkpoint_file r"
    using keepsD [OF build_checkpoint_keeps build] by simp
  show ?thesis
  proof (cases out)
    case (Inl e)
    then show ?thesis
      using r' build st
      by (auto simp: checkpoint_one_def Let_def outcome_ok_def intro!: exI [of _ "failure (pc_progress p)"])
  next
    case (Inr cp)
    have ids: "cp_consumed_evidence_ids cp = next_consumed p"
      using build [unfolded Inr]
      by (auto simp: build_checkpoint_def act_run checkpoint_after_discovery_def res_simps Let_def
          validate_checkpoint_def tick_def split: if_splits prod.splits)
    show ?thesis
    proof (cases "checkpoint_advanced (pc_prior p) cp")
      case False
      then show ?thesis
        using r' build st Inr
        by (auto simp: checkpoint_one_def Let_def store_checkpoint_def outcome_ok_def succeeded_def)
    next
      case True
      show ?thesis
      proof (cases "compare_and_set (se_checkpoint env) (pid p) (pc_prior p) (cp_cursor cp) (cp_committed_at cp)
          (cp_consumed_evidence_ids cp) (sy_checkpoints st)")
        case (Inl e)
        then show ?thesis
          using r' build st Inr True
          by (auto simp: checkpoint_one_def Let_def store_checkpoint_def outcome_ok_def
              intro!: exI [of _ "failure (pc_progress p)"])
      next
        case cas: (Inr res)
        obtain cp' content' where res: "res = (cp', content')" by (cases res)
        note facts = compare_and_set_codec_ok [OF ok cas [unfolded res]]
        have new: "checkpoint_file r' = content'"
          "\<exists>x. rn_results r' = AList.update (pid p) x (rn_results r) \<and> rr_status x = SUCCESS \<and> rr_checkpoint_advanced x"
          using r' build st Inr True cas res
          by (auto simp: checkpoint_one_def Let_def store_checkpoint_def succeeded_def)
        then show ?thesis
          using facts st ids by (auto simp: outcome_ok_def)
      qed
    qed
  qed
qed

lemma checkpoints_fold:
  assumes ok: "checkpoint_codec_ok (se_checkpoint env)" and "distinct (map pid ps)"
  shows "(\<forall>k. k \<notin> set (map pid ps) \<longrightarrow>
      map_of (rn_results (fold (checkpoint_one env) ps r)) k = map_of (rn_results r) k \<and>
      get_checkpoint (se_checkpoint env) (checkpoint_file (fold (checkpoint_one env) ps r)) k =
        get_checkpoint (se_checkpoint env) (checkpoint_file r) k) \<and>
    (\<forall>p \<in> set ps. \<exists>x. map_of (rn_results (fold (checkpoint_one env) ps r)) (pid p) = Some x \<and>
      outcome_ok env p (checkpoint_file r) (checkpoint_file (fold (checkpoint_one env) ps r)) x)"
  using assms(2)
proof (induction ps arbitrary: r)
  case (Cons p ps)
  define r1 where "r1 = checkpoint_one env p r"
  note one = checkpoint_one_cases [OF ok r1_def [symmetric]]
  then obtain x where x: "rn_results r1 = AList.update (pid p) x (rn_results r)"
    "outcome_ok env p (checkpoint_file r) (checkpoint_file r1) x" by blast
  have ih: "\<forall>k. k \<notin> set (map pid ps) \<longrightarrow>
      map_of (rn_results (fold (checkpoint_one env) ps r1)) k = map_of (rn_results r1) k \<and>
      get_checkpoint (se_checkpoint env) (checkpoint_file (fold (checkpoint_one env) ps r1)) k =
        get_checkpoint (se_checkpoint env) (checkpoint_file r1) k"
    and ih2: "\<forall>p \<in> set ps. \<exists>x. map_of (rn_results (fold (checkpoint_one env) ps r1)) (pid p) = Some x \<and>
      outcome_ok env p (checkpoint_file r1) (checkpoint_file (fold (checkpoint_one env) ps r1)) x"
    using Cons.IH [of r1] Cons.prems by auto
  have fresh: "pid p \<notin> set (map pid ps)" using Cons.prems by simp
  have out: "outcome_ok env q (checkpoint_file r) (checkpoint_file (fold (checkpoint_one env) ps r1)) y"
    if "q \<in> set ps" "outcome_ok env q (checkpoint_file r1) (checkpoint_file (fold (checkpoint_one env) ps r1)) y" for q y
  proof -
    have "pid q \<in> set (map pid ps)" using that(1) by simp
    then have "pid q \<noteq> pid p" using fresh by metis
    then have "get_checkpoint (se_checkpoint env) (checkpoint_file r1) (pid q) =
        get_checkpoint (se_checkpoint env) (checkpoint_file r) (pid q)"
      using one by blast
    then show ?thesis using that(2) by (simp add: outcome_ok_def)
  qed
  have first: "map_of (rn_results (fold (checkpoint_one env) ps r1)) (pid p) = Some x"
    "outcome_ok env p (checkpoint_file r) (checkpoint_file (fold (checkpoint_one env) ps r1)) x"
    using ih fresh x by (simp_all add: outcome_ok_def Let_def)
  have others: "map_of (rn_results (fold (checkpoint_one env) ps r1)) k = map_of (rn_results r) k \<and>
      get_checkpoint (se_checkpoint env) (checkpoint_file (fold (checkpoint_one env) ps r1)) k =
        get_checkpoint (se_checkpoint env) (checkpoint_file r) k" if "k \<notin> set (map pid (p # ps))" for k
    using ih one x(1) that by simp
  have rest: "\<exists>y. map_of (rn_results (fold (checkpoint_one env) ps r1)) (pid q) = Some y \<and>
      outcome_ok env q (checkpoint_file r) (checkpoint_file (fold (checkpoint_one env) ps r1)) y" if "q \<in> set ps" for q
    using ih2 out that by blast
  show ?case
    unfolding fold.simps comp_def r1_def [symmetric]
    using first others rest by auto
qed simp

section \<open>A run\<close>

lemma run_phases_split:
  assumes "distinct (map cn_id cns)"
  obtains r ps where "run_phases env cns st = fold (checkpoint_one env) ps r"
    and "checkpoint_file r = sy_checkpoints st" and "split_ok (set (map cn_id cns)) r ps"
proof -
  let ?r0 = "\<lparr>rn_sync = st, rn_results = [], rn_owned = []\<rparr>"
  obtain r1 ps1 where f: "fetch_phase env cns ?r0 = (r1, ps1)" by (metis surj_pair)
  obtain r2 ps2 where g: "reason_phase env ps1 r1 = (r2, ps2)" by (metis surj_pair)
  obtain r3 ps3 where h: "detect_phase env ps2 r2 = (r3, ps3)" by (metis surj_pair)
  have 1: "checkpoint_file r1 = sy_checkpoints st" "split_ok (set (map cn_id cns)) r1 ps1"
    using fetch_phase_split [OF f] assms by simp_all
  have 2: "checkpoint_file r2 = sy_checkpoints st" "split_ok (set (map cn_id cns)) r2 ps2"
    using reason_phase_split [OF g, of _ "[]"] 1 by simp_all
  have 3: "checkpoint_file r3 = sy_checkpoints st" "split_ok (set (map cn_id cns)) r3 ps3"
    using detect_phase_split [OF h] 2 by simp_all
  show thesis
    by (rule that [OF _ 3]) (simp add: run_phases_def f g h)
qed

lemma distinct_if_counted_once: "\<not> (\<exists>i \<in> set xs. count_list xs i > 1) \<Longrightarrow> distinct xs"
proof (induction xs)
  case (Cons x xs)
  have "\<not> count_list (x # xs) x > 1" using Cons.prems by (meson list.set_intros(1))
  then have "count_list xs x = 0" by simp
  moreover have "count_list xs i \<le> count_list (x # xs) i" for i by simp
  then have "\<not> (\<exists>i \<in> set xs. count_list xs i > 1)"
    using Cons.prems by (meson less_le_trans list.set_intros(2))
  ultimately show ?case using Cons.IH by (simp add: count_list_0_iff)
qed simp

lemma next_consumed_extends:
  assumes "get_checkpoint c content k = Inr (pc_prior p)"
  shows "is_exact_consumed_prefix (consumed_ids (pc_prior p)) (next_consumed p)"
proof -
  have "distinct (consumed_ids (pc_prior p))"
  proof (cases "pc_prior p")
    case (Some cp)
    with assms obtain d where d: "load_all c content = Inr d" "map_of d k = Some cp"
      by (auto simp: get_checkpoint_def res_simps simp del: map_of_eq_Some_iff)
    have "checkpoint_valid cp"
      using load_all_valid [OF d(1)] map_of_SomeD [OF d(2)] by (auto simp: list_all_iff)
    then show ?thesis
      using Some by (simp add: consumed_ids_def checkpoint_valid_def validate_checkpoint_def split: if_splits)
  qed (simp add: consumed_ids_def)
  then show ?thesis
    by (simp add: is_exact_consumed_prefix_iff next_consumed_def fromkeys_append)
qed

lemma outcome_ok_result:
  assumes "outcome_ok env p before after x"
  shows "if rr_checkpoint_advanced x
         then rr_status x = SUCCESS \<and>
           (\<exists>prior cp. get_checkpoint (se_checkpoint env) before (pid p) = Inr prior \<and>
             get_checkpoint (se_checkpoint env) after (pid p) = Inr (Some cp) \<and>
             is_exact_consumed_prefix (consumed_ids prior) (cp_consumed_evidence_ids cp))
         else (rr_status x = SUCCESS \<or> rr_redacted_error x = Some redacted) \<and>
           get_checkpoint (se_checkpoint env) after (pid p) = get_checkpoint (se_checkpoint env) before (pid p)"
  using assms next_consumed_extends [of "se_checkpoint env" before "pid p" p]
  by (auto simp: outcome_ok_def is_failure_def)

text \<open>C9: A checkpoint moves only when its connector's work has completed. A run reports exactly one
  result per connector. When the result is a failure, the error is redacted and the connector's stored
  checkpoint is what it was before the run; the same holds when the run reports that the checkpoint did
  not advance. When it advanced, the new checkpoint extends what the stored one had consumed. The
  checkpoints of connectors that are not part of the run never change.\<close>

theorem sync_checkpoint_safety:
  assumes "checkpoint_codec_ok (se_checkpoint env)" "run_sync env run_id cns duration_ms st = (st', Inr result)"
  shows "fst ` set (sr_connectors result) = set (map cn_id cns) \<and>
    (\<forall>k. case map_of (sr_connectors result) k of
       None \<Rightarrow> get_checkpoint (se_checkpoint env) (sy_checkpoints st') k =
         get_checkpoint (se_checkpoint env) (sy_checkpoints st) k
     | Some x \<Rightarrow>
         if rr_checkpoint_advanced x
         then rr_status x = SUCCESS \<and>
           (\<exists>prior cp. get_checkpoint (se_checkpoint env) (sy_checkpoints st) k = Inr prior \<and>
             get_checkpoint (se_checkpoint env) (sy_checkpoints st') k = Inr (Some cp) \<and>
             is_exact_consumed_prefix (consumed_ids prior) (cp_consumed_evidence_ids cp))
         else (rr_status x = SUCCESS \<or> rr_redacted_error x = Some redacted) \<and>
           get_checkpoint (se_checkpoint env) (sy_checkpoints st') k =
             get_checkpoint (se_checkpoint env) (sy_checkpoints st) k)"
proof -
  from assms(2) have "\<not> (\<exists>i \<in> set (map cn_id cns). count_list (map cn_id cns) i > 1)"
    by (auto simp: run_sync_def find_None_iff Let_def split: option.splits)
  then have distinct: "distinct (map cn_id cns)"
    using distinct_if_counted_once by blast
  then obtain r ps where run: "run_phases env cns st = fold (checkpoint_one env) ps r"
    and start: "checkpoint_file r = sy_checkpoints st" and split: "split_ok (set (map cn_id cns)) r ps"
    by (rule run_phases_split)
  let ?r' = "fold (checkpoint_one env) ps r"
  have st': "sy_checkpoints st' = checkpoint_file ?r'" and res: "sr_connectors result = rn_results ?r'"
    using assms(2) run by (auto simp: run_sync_def Let_def from_connector_results_def split: option.splits)
  note fold = checkpoints_fold [OF assms(1), of ps r]
  have ps: "distinct (map pid ps)" using split by (simp add: split_ok_def)
  have dom: "k \<in> set (map cn_id cns) \<longleftrightarrow> k \<in> set (map pid ps) \<or> map_of (rn_results r) k \<noteq> None" for k
    using split unfolding split_ok_def map_of_eq_None_iff by auto
  have early: "is_failure x" if "map_of (rn_results r) k = Some x" for k x
    using split map_of_SomeD [OF that] by (auto simp: split_ok_def)
  have "k \<in> fst ` set (rn_results ?r') \<longleftrightarrow> k \<in> set (map cn_id cns)" for k
  proof (cases "k \<in> set (map pid ps)")
    case True
    then obtain p x where "map_of (rn_results ?r') k = Some x" using fold ps by fastforce
    then show ?thesis using True dom [of k] by (metis domI dom_map_of_conv_image_fst)
  next
    case False
    then have "map_of (rn_results ?r') k = map_of (rn_results r) k" using fold ps by blast
    then show ?thesis using False dom [of k] by (metis map_of_eq_None_iff)
  qed
  then have ids: "fst ` set (sr_connectors result) = set (map cn_id cns)" unfolding res by blast
  show ?thesis
  proof (intro conjI allI)
    show "fst ` set (sr_connectors result) = set (map cn_id cns)" by (rule ids)
    fix k
    show "case map_of (sr_connectors result) k of
       None \<Rightarrow> get_checkpoint (se_checkpoint env) (sy_checkpoints st') k =
         get_checkpoint (se_checkpoint env) (sy_checkpoints st) k
     | Some x \<Rightarrow>
         if rr_checkpoint_advanced x
         then rr_status x = SUCCESS \<and>
           (\<exists>prior cp. get_checkpoint (se_checkpoint env) (sy_checkpoints st) k = Inr prior \<and>
             get_checkpoint (se_checkpoint env) (sy_checkpoints st') k = Inr (Some cp) \<and>
             is_exact_consumed_prefix (consumed_ids prior) (cp_consumed_evidence_ids cp))
         else (rr_status x = SUCCESS \<or> rr_redacted_error x = Some redacted) \<and>
           get_checkpoint (se_checkpoint env) (sy_checkpoints st') k =
             get_checkpoint (se_checkpoint env) (sy_checkpoints st) k"
    proof (cases "k \<in> set (map pid ps)")
      case True
      then obtain p where p: "p \<in> set ps" "k = pid p" by auto
      then obtain x where "map_of (rn_results ?r') k = Some x"
        and o: "outcome_ok env p (checkpoint_file r) (checkpoint_file ?r') x"
        using fold ps by blast
      then have "map_of (sr_connectors result) k = Some x" unfolding res by simp
      then show ?thesis
        using outcome_ok_result [OF o [unfolded start st' [symmetric]]] unfolding p(2) by simp
    next
      case False
      then have "map_of (rn_results ?r') k = map_of (rn_results r) k"
        "get_checkpoint (se_checkpoint env) (checkpoint_file ?r') k =
           get_checkpoint (se_checkpoint env) (checkpoint_file r) k"
        using fold ps by blast+
      then show ?thesis
        using early [of k] res start st' by (auto simp: is_failure_def split: option.split)
    qed
  qed
qed

section \<open>Every ledger entry is consumed once\<close>

abbreviation ing_id :: "evidence_ingestion \<Rightarrow> string" where
  "ing_id x \<equiv> er_id (ing_evidence x)"

definition typed :: "string \<Rightarrow> string \<Rightarrow> evidence_state \<Rightarrow> evidence_ingestion list" where
  "typed c t st = filter (\<lambda>i. er_connector_type (ing_evidence i) = t) (entries c (st_ingestions st))"

lemma typed_ledger:
  assumes "ledger codec content c (Some t) = Inr es" "rows_of codec content = Inr st"
  shows "es = typed c t st"
  using assms by (auto simp: ledger_def parse_evidence_rows typed_def Let_def split: if_splits)

lemma typed_ledger_rows:
  assumes "ledger codec content c (Some t) = Inr es"
  obtains st where "rows_of codec content = Inr st" "state_ok st" "es = typed c t st"
proof (cases "rows_of codec content")
  case (Inl e)
  with assms show thesis by (simp add: ledger_def parse_evidence_rows)
next
  case (Inr st)
  with that reads_via_rows(3) typed_ledger [OF assms] show thesis by blast
qed

lemma typed_distinct: "state_ok st \<Longrightarrow> distinct (map ing_id (typed c t st))"
  unfolding typed_def state_ok_def ledger_ok_def by (simp add: distinct_map_filter)

lemma filter_after_prefix:
  assumes "distinct (map f xs)" "map f xs = pre @ suf"
  shows "filter (\<lambda>x. f x \<notin> set pre) xs = drop (length pre) xs"
  using assms
proof (induction pre arbitrary: xs)
  case Nil
  then show ?case by simp
next
  case (Cons p pre)
  then obtain x xs' where xs: "xs = x # xs'" "f x = p" "map f xs' = pre @ suf" by (cases xs) auto
  have "f y \<noteq> p" if "y \<in> set xs'" for y
    using Cons.prems(1) xs(1,2) imageI [OF that, of f] by auto
  then have "filter (\<lambda>x. f x \<notin> set (p # pre)) xs' = filter (\<lambda>x. f x \<notin> set pre) xs'"
    by (intro filter_cong) auto
  then show ?case
    using Cons.IH [of xs'] Cons.prems(1) xs by simp
qed

text \<open>What is relied on of the evidence codec, for the records that occur (\<open>good\<close>).\<close>

definition writes_good :: "evidence_codec \<Rightarrow> string \<Rightarrow> (evidence_record \<Rightarrow> bool) \<Rightarrow> bool" where
  "writes_good codec c good \<longleftrightarrow>
     (\<forall>r es. good r \<and> (\<forall>i \<in> set es. good (ing_evidence i)) \<longrightarrow> ingestion_writable codec (next_ingestion c r es))"

definition fetch_inv ::
  "sync_env \<Rightarrow> string \<Rightarrow> string \<Rightarrow> string list \<Rightarrow> (evidence_record \<Rightarrow> bool) \<Rightarrow> work \<Rightarrow> fetched \<Rightarrow> bool" where
  "fetch_inv env c t consumed good w ft \<longleftrightarrow>
     (\<exists>st. rows_of (se_evidence env) (evidence_file (wk_sync w)) = Inr st \<and> state_ok st \<and>
        complete_lines (text_of (evidence_file (wk_sync w))) \<and>
        (\<forall>i \<in> set (entries c (st_ingestions st)). good (ing_evidence i)) \<and>
        is_exact_consumed_prefix consumed (map ing_id (typed c t st)) \<and>
        ft_ingestions ft = filter (\<lambda>x. ing_id x \<notin> set consumed) (typed c t st) \<and>
        ft_records ft = map ing_evidence (ft_ingestions ft))"

lemma note_record_sel:
  "ft_ingestions (note_record consumed r i ft) =
     (if er_id r \<notin> set consumed \<and> er_id r \<notin> er_id ` set (ft_records ft) then ft_ingestions ft @ [i] else ft_ingestions ft)"
  "ft_records (note_record consumed r i ft) =
     (if er_id r \<notin> set consumed \<and> er_id r \<notin> er_id ` set (ft_records ft) then ft_records ft @ [r] else ft_records ft)"
  by (simp_all add: note_record_def Let_def split: option.splits)

lemma last_ingestion_mem: "last_ingestion k es = Inr i \<Longrightarrow> i \<in> set es \<and> ing_id i = k"
  by (auto simp: last_ingestion_def find_Some_iff split: option.splits) (metis nth_mem set_rev length_rev)

lemma evidence_file_set [simp]: "evidence_file (set_evidence_file content st) = content"
  by (simp add: evidence_file_def set_evidence_file_def)

lemma fetch_object_inv:
  assumes inv: "fetch_inv env (cn_id cn) t consumed good w ft"
    and run: "fetch_object env cn t consumed obj ft w = (w', Inr ft')"
    and codec: "writes_good (se_evidence env) (cn_id cn) good"
    and good: "\<And>raw r. cn_fetch cn (so_external_object_id obj) (so_external_version obj) = Inr raw \<Longrightarrow>
      cn_normalize cn raw = Inr r \<Longrightarrow> good r"
  shows "fetch_inv env (cn_id cn) t consumed good w' ft'"
proof -
  obtain raw r w1 es i where raw: "cn_fetch cn (so_external_object_id obj) (so_external_version obj) = Inr raw"
    and r: "cn_normalize cn raw = Inr r" and type: "er_connector_type r = t"
    and pers: "persist_evidence env (cn_id cn) r w = (w1, Inr ())"
    and led: "ledger (se_evidence env) (evidence_file (wk_sync w1)) (cn_id cn) (Some t) = Inr es"
    and i: "last_ingestion (er_id r) es = Inr i" and w': "w' = w1" and ft': "ft' = note_record consumed r i ft"
    using run by (auto simp: fetch_object_def act_run read_ledger_def)
  obtain added content' where assoc: "associate (se_evidence env) (cn_id cn) r (evidence_file (wk_sync w)) = Inr (added, content')"
    and fl: "evidence_file (wk_sync w1) = content'"
    using pers by (auto simp: persist_evidence_def split: sum.splits prod.splits)
  from inv obtain st where rows: "rows_of (se_evidence env) (evidence_file (wk_sync w)) = Inr st" and ok: "state_ok st"
    and complete: "complete_lines (text_of (evidence_file (wk_sync w)))"
    and ents: "\<forall>i \<in> set (entries (cn_id cn) (st_ingestions st)). good (ing_evidence i)"
    and pre: "is_exact_consumed_prefix consumed (map ing_id (typed (cn_id cn) t st))"
    and ing: "ft_ingestions ft = filter (\<lambda>x. ing_id x \<notin> set consumed) (typed (cn_id cn) t st)"
    and recs: "ft_records ft = map ing_evidence (ft_ingestions ft)"
    by (auto simp: fetch_inv_def)
  have sub: "set consumed \<subseteq> set (map ing_id (typed (cn_id cn) t st))"
    using pre unfolding is_exact_consumed_prefix_iff by (metis Un_upper1 set_append)
  note i_mem = last_ingestion_mem [OF i]
  show ?thesis
  proof (cases "associated (entries (cn_id cn) (st_ingestions st)) (er_id r)")
    case True
    have same: "content' = evidence_file (wk_sync w)"
      using assoc True by (auto simp: associate_def parse_evidence_rows rows Let_def split: if_splits)
    then have es: "es = typed (cn_id cn) t st" using typed_ledger [OF led] fl rows by simp
    have "er_id r \<in> set consumed \<or> er_id r \<in> er_id ` set (ft_records ft)"
      using i_mem imageI [of i "set (ft_ingestions ft)" ing_id] unfolding es recs ing by (auto simp: image_image)
    then have "ft_ingestions ft' = ft_ingestions ft" "ft_records ft' = ft_records ft"
      unfolding ft' note_record_sel by auto
    then show ?thesis
      unfolding fetch_inv_def w' fl same using rows ok complete ents pre ing recs by auto
  next
    case False
    let ?i = "next_ingestion (cn_id cn) r (entries (cn_id cn) (st_ingestions st))"
    have "ingestion_writable (se_evidence env) ?i"
      using codec good [OF raw r] ents unfolding writes_good_def by blast
    then obtain st' where rows': "rows_of (se_evidence env) content' = Inr st'" and complete': "complete_lines (text_of content')"
      and ing': "st_ingestions st' = st_ingestions st @ [?i]"
      using associate_rows [OF rows complete assoc False] by blast
    have new: "entries (cn_id cn) (st_ingestions st') = entries (cn_id cn) (st_ingestions st) @ [?i]"
      by (simp add: ing' entries_def next_ingestion_def)
    have ev: "ing_evidence ?i = r" by (simp add: next_ingestion_def)
    have typed': "typed (cn_id cn) t st' = typed (cn_id cn) t st @ [?i]"
      using type by (simp add: typed_def new ev)
    have es: "es = typed (cn_id cn) t st @ [?i]" using typed_ledger [OF led] fl rows' typed' by simp
    have fresh: "er_id r \<notin> set (map ing_id (typed (cn_id cn) t st))"
      using False by (auto simp: associated_def list_ex_iff typed_def)
    have "i = ?i"
      using i_mem fresh imageI [of i "set (typed (cn_id cn) t st)" ing_id] unfolding es by (auto simp: ev)
    moreover have "er_id r \<notin> set consumed" using fresh sub by blast
    moreover have "er_id r \<notin> er_id ` set (ft_records ft)"
      using fresh unfolding recs ing by auto
    ultimately have "ft_ingestions ft' = ft_ingestions ft @ [?i]" "ft_records ft' = ft_records ft @ [r]"
      unfolding ft' note_record_sel by auto
    moreover have "is_exact_consumed_prefix consumed (map ing_id (typed (cn_id cn) t st'))"
      using pre unfolding is_exact_consumed_prefix_iff typed' by auto
    ultimately show ?thesis
      unfolding fetch_inv_def w' fl
      using rows' reads_via_rows(3) [OF rows'] complete' new ents good [OF raw r] typed' ing recs \<open>er_id r \<notin> set consumed\<close>
      by (intro exI [of _ st']) (auto simp: ev)
  qed
qed

lemma fetch_objects_inv:
  assumes "fetch_inv env (cn_id cn) t consumed good w ft" "fetch_objects env cn t consumed objs ft w = (w', Inr ft')"
    and "writes_good (se_evidence env) (cn_id cn) good"
    and "\<And>i v raw r. cn_fetch cn i v = Inr raw \<Longrightarrow> cn_normalize cn raw = Inr r \<Longrightarrow> good r"
  shows "fetch_inv env (cn_id cn) t consumed good w' ft'"
  using assms(1,2)
proof (induction objs arbitrary: w ft)
  case Nil
  then show ?case by (simp add: act_return_Inr)
next
  case (Cons obj objs)
  then obtain w1 ft1 where "fetch_object env cn t consumed obj ft w = (w1, Inr ft1)"
    "fetch_objects env cn t consumed objs ft1 w1 = (w', Inr ft')"
    by (auto simp: act_bind_Inr)
  with Cons fetch_object_inv [OF Cons.prems(1) _ assms(3)] assms(4) show ?case by blast
qed

text \<open>C10: A successful fetch misses nothing and repeats nothing. The delta it hands to reasoning is exactly
  the connector's ledger behind its checkpoint, in ledger order, including what this run has just made
  durable; and the consumption recorded with the next checkpoint is exactly the connector's whole ledger,
  so that the next run finds it an exact prefix again.\<close>

theorem fetch_consumes_ledger:
  assumes "fetch_connector env cn w0 = (w, Inr p)" "connector_type cn = Inr t"
    and "migrate_legacy (se_evidence env) (cn_id cn) t (evidence_file (wk_sync w0)) = (content, Inr ())"
    and "complete_lines (text_of content)" "writes_good (se_evidence env) (cn_id cn) good"
    and "\<forall>i v raw r. cn_fetch cn i v = Inr raw \<and> cn_normalize cn raw = Inr r \<longrightarrow> good r"
    and "\<forall>es. ledger (se_evidence env) content (cn_id cn) None = Inr es \<longrightarrow> (\<forall>i \<in> set es. good (ing_evidence i))"
  shows "\<exists>st. rows_of (se_evidence env) (evidence_file (wk_sync w)) = Inr st \<and>
    ed_ingestions (pc_delta p) = drop (length (consumed_ids (pc_prior p))) (typed (cn_id cn) t st) \<and>
    ed_added (pc_delta p) = map ing_evidence (ed_ingestions (pc_delta p)) \<and>
    next_consumed p = map ing_id (typed (cn_id cn) t st)"
proof -
  obtain prior w1 es w2 discovered ft where
    mig: "migrate_connector env (cn_id cn) t w0 = (w1, Inr ())"
    and led: "ledger (se_evidence env) (evidence_file (wk_sync w1)) (cn_id cn) (Some t) = Inr es"
    and prefix: "is_exact_consumed_prefix (consumed_ids prior) (map ing_id es)"
    and acq: "acquire cn (case prior of None \<Rightarrow> None | Some p \<Rightarrow> cp_cursor p) w1 = (w2, Inr discovered)"
    and objs: "fetch_objects env cn t (consumed_ids prior) discovered (unconsumed (consumed_ids prior) es) w2 = (w, Inr ft)"
    and p: "pc_prior p = prior" "pc_delta p = \<lparr>ed_added = ft_records ft, ed_prior_versions = ft_prior_versions ft,
      ed_ingestions = ft_ingestions ft\<rparr>"
    using assms(1,2) by (auto simp: fetch_connector_def act_run read_ledger_def)
  have file1: "evidence_file (wk_sync w1) = content"
    using mig assms(3) by (auto simp: migrate_connector_def)
  have file2: "evidence_file (wk_sync w2) = content"
    using acq file1 by (auto simp: acquire_def split: sum.splits)
  from led obtain st where rows: "rows_of (se_evidence env) content = Inr st" and ok: "state_ok st"
    and es: "es = typed (cn_id cn) t st"
    unfolding file1 by (rule typed_ledger_rows)
  have "fetch_inv env (cn_id cn) t (consumed_ids prior) good w2 (unconsumed (consumed_ids prior) es)"
    unfolding fetch_inv_def file2
  proof (intro exI conjI)
    show "rows_of (se_evidence env) content = Inr st" "state_ok st" "complete_lines (text_of content)"
      by (fact rows, fact ok, fact assms(4))
    show "\<forall>i \<in> set (entries (cn_id cn) (st_ingestions st)). good (ing_evidence i)"
      using assms(7) reads_via_rows(1) [OF rows] by simp
    show "is_exact_consumed_prefix (consumed_ids prior) (map ing_id (typed (cn_id cn) t st))"
      using prefix by (simp add: es)
  qed (simp_all add: unconsumed_def es Let_def)
  from fetch_objects_inv [OF this objs assms(5)] assms(6) obtain st' where
    rows': "rows_of (se_evidence env) (evidence_file (wk_sync w)) = Inr st'" and ok': "state_ok st'"
    and pre: "is_exact_consumed_prefix (consumed_ids prior) (map ing_id (typed (cn_id cn) t st'))"
    and ing: "ft_ingestions ft = filter (\<lambda>x. ing_id x \<notin> set (consumed_ids prior)) (typed (cn_id cn) t st')"
    and recs: "ft_records ft = map ing_evidence (ft_ingestions ft)"
    unfolding fetch_inv_def by blast
  from pre obtain suf where suf: "map ing_id (typed (cn_id cn) t st') = consumed_ids prior @ suf"
    unfolding is_exact_consumed_prefix_iff by auto
  have dist: "distinct (consumed_ids prior @ suf)" using typed_distinct [OF ok'] suf by metis
  have drop: "ft_ingestions ft = drop (length (consumed_ids prior)) (typed (cn_id cn) t st')"
    unfolding ing by (rule filter_after_prefix [OF typed_distinct [OF ok'] suf])
  then have "map ing_id (ft_ingestions ft) = suf" using suf by (simp add: drop_map [symmetric])
  then have "next_consumed p = consumed_ids prior @ suf"
    using dist by (simp add: next_consumed_def p recs comp_def)
  then show ?thesis
    using rows' drop recs suf p by auto
qed

text \<open>A run of one connector that finds nothing new and moves its cursor.\<close>

definition idle_connector :: connector where
  "idle_connector =
     \<lparr>cn_id = ''git'', cn_type = None, cn_discover = (\<lambda>_. Inr []), cn_fetch = (\<lambda>_ _. Inl (KeyError [])),
      cn_normalize = (\<lambda>raw. Inr (normalize_raw_source raw)), cn_next_checkpoint = (\<lambda>_. Inr (Some ''c1'')),
      cn_finalize = None\<rparr>"

definition sample_env :: sync_env where
  "sample_env =
     \<lparr>se_codecs = sample_exec_codecs, se_evidence = sample_codec, se_checkpoint = json_checkpoint_codec,
      se_reason = (\<lambda>_ _. Inl (ValueError [])), se_detect = (\<lambda>_ _. Inr []),
      se_graph_coordinator = sample_coordinator, se_executor = None, se_assurance = None,
      se_transactions = None, se_snapshot_files = [], se_clock = int\<rparr>"

definition sample_sync_state :: sync_state where
  "sample_sync_state = \<lparr>sy_disk = sample_disk, sy_checkpoints = None, sy_aborted = [], sy_ticks = 7\<rparr>"

text \<open>A connector that discovers one object.\<close>

definition one_object_connector :: connector where
  "one_object_connector = idle_connector\<lparr>
     cn_discover := (\<lambda>_. Inr [\<lparr>so_external_object_id = ''o1'', so_external_version = ''v1'', so_locator = ''a.py''\<rparr>]),
     cn_fetch := (\<lambda>i v. Inr \<lparr>raw_connector_type = ''git'', raw_external_object_id = i, raw_external_version = v,
       raw_author = None, raw_observed_at = 3, raw_source_locator = ''a.py'', raw_content_hash = ''h'',
       raw_payload = [], raw_parent_ref = None, raw_acl = []\<rparr>),
     cn_normalize := (\<lambda>_. Inr (sample_evidence ''e1'' []))\<rparr>"

lemma sample_writes_good: "writes_good sample_codec ''git'' (\<lambda>r. r = sample_evidence ''e1'' [])"
proof -
  have "ingestion_writable sample_codec \<lparr>ing_connector_id = ''git'', ing_sequence = n, ing_predecessor_id = p,
      ing_evidence = sample_evidence ''e1'' []\<rparr>" if "p = None \<or> p = Some ''e1''" for n p
    using that by (auto simp: ingestion_writable_def writable_def sample_codec_def sample_evidence_def one_line_dumps_str
        one_line_int_str no_break_ascii is_line_break_def)
  moreover have "predecessor es (sample_evidence ''e1'' []) = None \<or> predecessor es (sample_evidence ''e1'' []) = Some ''e1''"
    if "\<forall>i \<in> set es. ing_evidence i = sample_evidence ''e1'' []" for es
    using that by (auto simp: predecessor_def Let_def sample_evidence_def dest: last_in_set)
  ultimately show ?thesis by (simp add: writes_good_def next_ingestion_def)
qed

theorem fetch_consumes_ledger_witness:
  "\<exists>w p st. fetch_connector sample_env one_object_connector \<lparr>wk_sync = sample_sync_state, wk_progress = no_progress,
       wk_acquired = False\<rparr> = (w, Inr p) \<and>
     rows_of sample_codec (evidence_file (wk_sync w)) = Inr st \<and> map ing_id (typed ''git'' ''git'' st) = [''e1'']"
proof -
  let ?w0 = "\<lparr>wk_sync = sample_sync_state, wk_progress = no_progress, wk_acquired = False\<rparr>"
  let ?good = "\<lambda>r. r = sample_evidence ''e1'' []"
  have "case snd (fetch_connector sample_env one_object_connector ?w0) of Inr p \<Rightarrow> next_consumed p = [''e1''] | _ \<Rightarrow> False"
    by code_simp
  then obtain w p where run: "fetch_connector sample_env one_object_connector ?w0 = (w, Inr p)"
    and consumed: "next_consumed p = [''e1'']"
    by (cases "fetch_connector sample_env one_object_connector ?w0") (auto split: sum.splits)
  have [simp]: "cn_id one_object_connector = ''git''" "se_evidence sample_env = sample_codec"
    by (simp_all add: one_object_connector_def idle_connector_def sample_env_def)
  have ctype: "connector_type one_object_connector = Inr ''git''"
    by code_simp
  have mig: "migrate_legacy (se_evidence sample_env) (cn_id one_object_connector) ''git'' (evidence_file (wk_sync ?w0)) =
      (None, Inr ())"
    by code_simp
  have led: "ledger sample_codec None ''git'' None = Inr []"
    by code_simp
  have fetched: "\<forall>i v raw r. cn_fetch one_object_connector i v = Inr raw \<and> cn_normalize one_object_connector raw = Inr r \<longrightarrow>
      ?good r"
    by (simp add: one_object_connector_def)
  have "\<exists>st. rows_of (se_evidence sample_env) (evidence_file (wk_sync w)) = Inr st \<and>
      next_consumed p = map ing_id (typed (cn_id one_object_connector) ''git'' st)"
    using fetch_consumes_ledger [OF run ctype mig _ _ fetched] sample_writes_good led by fastforce
  then show ?thesis using run consumed by auto
qed

theorem sync_checkpoint_safety_witness:
  "\<exists>st' result cp. run_sync sample_env ''r1'' [idle_connector] 0 sample_sync_state = (st', Inr result) \<and>
     fst ` set (sr_connectors result) = {''git''} \<and>
     get_checkpoint json_checkpoint_codec (sy_checkpoints st') ''git'' = Inr (Some cp)"
proof -
  have val: "snd (run_sync sample_env ''r1'' [idle_connector] 0 sample_sync_state) =
      Inr (from_connector_results ''r1'' [(''git'', succeeded 0 0 0 True)] 0)"
    by code_simp
  then obtain st' where run: "run_sync sample_env ''r1'' [idle_connector] 0 sample_sync_state =
      (st', Inr (from_connector_results ''r1'' [(''git'', succeeded 0 0 0 True)] 0))"
    by (metis prod.collapse)
  have "checkpoint_codec_ok (se_checkpoint sample_env)"
    using json_checkpoint_codec_ok by (simp add: sample_env_def)
  from sync_checkpoint_safety [OF this run] have "fst ` set [(''git'', succeeded 0 0 0 True)] = {''git''}"
    and "\<exists>cp. get_checkpoint json_checkpoint_codec (sy_checkpoints st') ''git'' = Inr (Some cp)"
    by (auto simp: from_connector_results_def idle_connector_def succeeded_def sample_env_def Let_def
        dest!: spec [of _ "''git''"])
  then show ?thesis
    using run by (auto simp: from_connector_results_def Let_def)
qed

end
