(* ===== verification/Context_Provider.thy ===== *)
theory Context_Provider
  imports Evidence Reconciliation
begin

text \<open>
  The selection of context for a task (\<open>context/provider.py\<close>, with \<open>core/models/context.py\<close> and
  \<open>ProjectConfig\<close> of \<open>core/models/project.py\<close>): which nodes, cases and evidence references an actor is
  shown, in which order and how many. Python sets are lists here where the code sorts them before
  use.
\<close>

section \<open>Records\<close>

record context_item =
  ci_id :: string
  ci_type :: string
  ci_label :: string
  ci_confidence :: "confidence option"
  ci_evidence_refs :: "string list"

record context_pack =
  cx_task :: string
  cx_relevant_intent :: "context_item list"
  cx_relevant_requirements :: "context_item list"
  cx_decisions :: "context_item list"
  cx_constraints :: "context_item list"
  cx_acceptance_criteria :: "context_item list"
  cx_code_refs :: "context_item list"
  cx_test_refs :: "context_item list"
  cx_open_reconciliation_cases :: "context_item list"
  cx_evidence_refs :: "string list"
  cx_warnings :: "string list"

record project_config =
  pj_project_id :: string
  pj_graph_path :: string
  pj_local_actor :: string
  pj_source_exclusions :: "string list"
  pj_auto_apply_metadata :: bool
  pj_auto_apply_semantic :: bool
  pj_source_roles :: "source_role_assignment list"
  pj_context_limits :: "int dict"

definition REF_LIMITS :: "int dict" where
  "REF_LIMITS =
     [(''relevant_intent'', 10), (''relevant_requirements'', 10), (''decisions'', 10), (''constraints'', 10),
      (''acceptance_criteria'', 10), (''code_refs'', 20), (''test_refs'', 20), (''open_reconciliation_cases'', 10),
      (''evidence_refs'', 20)]"

definition normalize_source_roles :: "source_role_assignment list \<Rightarrow> source_role_assignment list res" where
  "normalize_source_roles roles =
     (let normalized = sort_key (\<lambda>a. (sr_connector_id a, sr_scope a)) roles in
      if distinct (map (\<lambda>a. (sr_connector_id a, sr_scope a)) normalized) then Inr normalized
      else Inl (ValueError ''duplicate source role assignment''))"

definition validate_project_config :: "project_config \<Rightarrow> project_config res" where
  "validate_project_config config =
     (if list_all valid_source_role_assignment (pj_source_roles config)
      then res_bind (normalize_source_roles (pj_source_roles config)) (\<lambda>roles.
        Inr (config\<lparr>pj_source_roles := roles\<rparr>))
      else Inl (ValidationError ''source_roles''))"

section \<open>Tokens\<close>

text \<open>\<open>str.lower\<close> and \<open>\w\<close> of \<open>re\<close> on the code points below 256.\<close>

definition lower_char :: "char \<Rightarrow> char" where
  "lower_char c =
     (let n = of_char c :: nat in
      if (65 \<le> n \<and> n \<le> 90) \<or> (192 \<le> n \<and> n \<le> 222 \<and> n \<noteq> 215) then char_of (n + 32) else c)"

definition word_char :: "char \<Rightarrow> bool" where
  "word_char c \<longleftrightarrow>
     (let n = of_char c :: nat in
      (48 \<le> n \<and> n \<le> 57) \<or> (65 \<le> n \<and> n \<le> 90) \<or> n = 95 \<or> (97 \<le> n \<and> n \<le> 122) \<or>
      n \<in> {170, 178, 179, 181, 185, 186, 188, 189, 190} \<or> (192 \<le> n \<and> n \<noteq> 215 \<and> n \<noteq> 247))"

function words :: "string \<Rightarrow> string list" where
  "words s =
     (case dropWhile (\<lambda>c. \<not> word_char c) s of
        [] \<Rightarrow> []
      | c # rest \<Rightarrow> (c # takeWhile word_char rest) # words (dropWhile word_char rest))"
  by pat_completeness auto
termination
proof (relation "measure length", simp)
  fix s rest and c :: char
  assume "dropWhile (\<lambda>c. \<not> word_char c) s = c # rest"
  then have "length (c # rest) \<le> length s" by (metis length_dropWhile_le)
  then show "(dropWhile word_char rest, s) \<in> measure length"
    using length_dropWhile_le [of word_char rest] by simp
qed

declare words.simps [simp del]

definition tokens :: "string \<Rightarrow> string list" where
  "tokens value = remdups (words (map lower_char value))"

section \<open>The provider\<close>

record provider =
  cv_graph :: graph
  cv_cases :: "reconciliation_case list"
  cv_config :: project_config
  cv_evidence :: "evidence_record dict"

definition new_provider ::
  "graph \<Rightarrow> reconciliation_case list \<Rightarrow> project_config \<Rightarrow> evidence_record list \<Rightarrow> provider" where
  "new_provider g cases config evidence =
     \<lparr>cv_graph = g, cv_cases = sorted_values (dict_of rc_id cases), cv_config = config,
      cv_evidence = dict_of er_id evidence\<rparr>"

definition scope_of :: "evidence_record \<Rightarrow> string option" where
  "scope_of r = (case map_of (er_payload r) ''repository_scope'' of Some (JStr s) \<Rightarrow> Some s | _ \<Rightarrow> None)"

definition context_evidence_allowed :: "evidence_record \<Rightarrow> string option \<Rightarrow> actor option \<Rightarrow> bool" where
  "context_evidence_allowed r repository_scope a =
     (if er_acl r \<noteq> [] \<and>
         (case a of
            None \<Rightarrow> True
          | Some (One s) \<Rightarrow> s \<notin> set (er_acl r)
          | Some (Many xs) \<Rightarrow> set (er_acl r) \<inter> set xs = {})
      then False
      else repository_scope = None \<or> scope_of r = repository_scope)"

definition context_refs_allowed ::
  "provider \<Rightarrow> string list \<Rightarrow> string option \<Rightarrow> actor option \<Rightarrow> bool" where
  "context_refs_allowed p refs repository_scope a \<longleftrightarrow>
     list_all (\<lambda>r. map_of (cv_evidence p) r \<noteq> None) refs \<and>
     list_all (\<lambda>r. case map_of (cv_evidence p) r of
         None \<Rightarrow> True | Some e \<Rightarrow> context_evidence_allowed e repository_scope a) refs"

definition node_allowed :: "provider \<Rightarrow> node \<Rightarrow> string option \<Rightarrow> actor option \<Rightarrow> bool" where
  "node_allowed p n repository_scope a = context_refs_allowed p (nd_evidence_refs n) repository_scope a"

definition active_nodes :: "provider \<Rightarrow> string option \<Rightarrow> actor option \<Rightarrow> node dict" where
  "active_nodes p repository_scope a =
     dict_of nd_id (filter (\<lambda>n. nd_status n = ''active'' \<and> node_allowed p n repository_scope a)
       (g_nodes (cv_graph p)))"

section \<open>Two hops\<close>

definition add_edge :: "'a dict \<Rightarrow> edge \<Rightarrow> string list dict \<Rightarrow> string list dict" where
  "add_edge active e d =
     (if ed_status e = ''active'' \<and> ed_from_id e \<in> fst ` set active \<and> ed_to_id e \<in> fst ` set active
      then AList.map_entry (ed_to_id e) (List.insert (ed_from_id e))
             (AList.map_entry (ed_from_id e) (List.insert (ed_to_id e)) d)
      else d)"

definition neighbours :: "graph \<Rightarrow> 'a dict \<Rightarrow> string list dict" where
  "neighbours g active = fold (add_edge active) (g_edges g) (map (\<lambda>(i, _). (i, [])) active)"

fun visit ::
  "nat \<Rightarrow> string list \<Rightarrow> (string \<times> nat) list \<Rightarrow> string list \<Rightarrow> (string \<times> nat) list \<times> string list" where
  "visit hops [] frontier selected = (frontier, selected)"
| "visit hops (n # ns) frontier selected =
     (if n \<notin> set selected then visit hops ns (frontier @ [(n, hops + 1)]) (selected @ [n])
      else visit hops ns frontier selected)"

text \<open>The unvisited ones among the sorted neighbours are appended.\<close>

lemma visit_eq:
  "distinct ns \<Longrightarrow>
     visit hops ns frontier selected =
       (let fresh = filter (\<lambda>n. n \<notin> set selected) ns in
        (frontier @ map (\<lambda>n. (n, hops + 1)) fresh, selected @ fresh))"
proof (induction hops ns frontier selected rule: visit.induct)
  case (2 hops n ns frontier selected)
  then have "filter (\<lambda>m. m \<notin> set (selected @ [n])) ns = filter (\<lambda>m. m \<notin> set selected) ns"
    by (intro filter_cong) auto
  with 2 show ?case by (simp add: Let_def)
qed simp

text \<open>The loop over the queue; \<open>neighbours[node_id]\<close> raises for a node that is not active.\<close>

function expand_loop ::
  "string list dict \<Rightarrow> (string \<times> nat) list \<Rightarrow> string list \<Rightarrow> string list res" where
  "expand_loop d [] selected = Inr selected"
| "expand_loop d ((n, hops) # frontier) selected =
     (if hops = 2 then expand_loop d frontier selected
      else case map_of d n of
        None \<Rightarrow> Inl (KeyError n)
      | Some ns \<Rightarrow>
          (case visit hops (sorted_set ns) frontier selected of
             (frontier', selected') \<Rightarrow> expand_loop d frontier' selected'))"
  by pat_completeness auto
termination
proof (relation "measures [\<lambda>(d, _, selected). card (set (concat (map snd d)) - set selected),
    \<lambda>(_, frontier, _). length frontier]", goal_cases)
  case 1
  then show ?case by simp
next
  case 2
  then show ?case by simp
next
  case (3 d n hops frontier selected ns frontier' selected')
  note ns = 3(2)
  from 3(3) have sel: "selected' = selected @ filter (\<lambda>n. n \<notin> set selected) (sorted_set ns)"
    and fr: "frontier' = frontier @ map (\<lambda>n. (n, hops + 1)) (filter (\<lambda>n. n \<notin> set selected) (sorted_set ns))"
    using visit_eq [of "sorted_set ns" hops frontier selected] by (simp_all add: Let_def)
  have sub: "set ns \<subseteq> set (concat (map snd d))"
    using map_of_SomeD [OF ns] by force
  let ?all = "set (concat (map snd d))"
  show ?case
  proof (cases "set ns \<subseteq> set selected")
    case True
    then have "filter (\<lambda>n. n \<notin> set selected) (sorted_set ns) = []"
      by (auto simp: filter_empty_conv)
    then show ?thesis by (simp add: sel fr)
  next
    case False
    then have "?all - set selected' \<subset> ?all - set selected"
      using sub by (auto simp: sel)
    then have "card (?all - set selected') < card (?all - set selected)"
      by (intro psubset_card_mono) auto
    then show ?thesis by simp
  qed
qed

definition expand :: "graph \<Rightarrow> string list \<Rightarrow> 'a dict \<Rightarrow> string list res" where
  "expand g seeds active =
     expand_loop (neighbours g active) (map (\<lambda>n. (n, 0)) (sorted_set seeds)) (sorted_set seeds)"

section \<open>Scores, order and limits\<close>

text \<open>\<open>scores.get(i, 0)\<close>; \<open>scores[i]\<close> is only read for active nodes, which all have a score
  (\<open>scores_keys\<close> below).\<close>

definition score :: "int dict \<Rightarrow> string \<Rightarrow> int" where
  "score scores i = (case map_of scores i of None \<Rightarrow> 0 | Some s \<Rightarrow> s)"

definition label_scores :: "string \<Rightarrow> node dict \<Rightarrow> int dict" where
  "label_scores query active =
     map (\<lambda>(i, n). (i, int (length (filter (\<lambda>t. t \<in> set (tokens (nd_label n))) (tokens query))))) active"

definition seed_ids :: "string option \<Rightarrow> string list option \<Rightarrow> node dict \<Rightarrow> int dict \<Rightarrow> string list" where
  "seed_ids exact_seed_id exact_seed_ids active scores =
     (case exact_seed_ids of
        Some is \<Rightarrow> is
      | None \<Rightarrow>
          (case exact_seed_id of
             Some i \<Rightarrow> if i \<in> fst ` set active then [i] else []
           | None \<Rightarrow> map fst (filter (\<lambda>(_, s). s > 0) scores)))"

definition seed_scores :: "string list option \<Rightarrow> int dict \<Rightarrow> int dict" where
  "seed_scores exact_seed_ids scores =
     (case exact_seed_ids of None \<Rightarrow> scores | Some is \<Rightarrow> fold (\<lambda>i. AList.update i 1) is scores)"

definition ordered :: "int dict \<Rightarrow> node list \<Rightarrow> node list" where
  "ordered scores nodes = sort_key (\<lambda>n. (- score scores (nd_id n), nd_id n)) nodes"

definition cap :: "project_config \<Rightarrow> string \<Rightarrow> int option \<Rightarrow> 'a list \<Rightarrow> 'a list" where
  "cap config category hard_limit values =
     (let limit = (case map_of (pj_context_limits config) category of None \<Rightarrow> int (length values) | Some l \<Rightarrow> l);
          limit = (case hard_limit of None \<Rightarrow> limit | Some h \<Rightarrow> min limit h) in
      take (nat (max 0 limit)) values)"

definition hard_limit :: "bool \<Rightarrow> string \<Rightarrow> int option" where
  "hard_limit fixed_caps category = (if fixed_caps then map_of REF_LIMITS category else None)"

definition item_for_node :: "node \<Rightarrow> context_item" where
  "item_for_node n =
     \<lparr>ci_id = nd_id n, ci_type = kind_value (nd_type n), ci_label = nd_label n,
      ci_confidence = nd_intent_fidelity_confidence n, ci_evidence_refs = nd_evidence_refs n\<rparr>"

definition item_for_case :: "reconciliation_case \<Rightarrow> context_item" where
  "item_for_case c =
     \<lparr>ci_id = rc_id c, ci_type = node_type_value RECONCILIATION_CASE,
      ci_label = case_type_value (rc_case_type c) @ '': '' @ rc_subject_ref c, ci_confidence = None,
      ci_evidence_refs = all_evidence_refs c\<rparr>"

definition case_score :: "int dict \<Rightarrow> reconciliation_case \<Rightarrow> int" where
  "case_score scores c =
     fold max (map (score scores) (rc_affected_refs c)) (score scores (rc_subject_ref c))"

definition selected_cases ::
  "provider \<Rightarrow> string list \<Rightarrow> string option \<Rightarrow> actor option \<Rightarrow> reconciliation_case list" where
  "selected_cases p selected repository_scope a =
     filter (\<lambda>c. is_nonterminal_case_status (rc_status c) \<and>
         (rc_subject_ref c \<in> set selected \<or> set (rc_affected_refs c) \<inter> set selected \<noteq> {}) \<and>
         context_refs_allowed p (all_evidence_refs c) repository_scope a) (cv_cases p)"

definition note_refs :: "int \<Rightarrow> string list \<Rightarrow> int dict \<Rightarrow> int dict" where
  "note_refs s refs d = fold (\<lambda>r d. AList.update r (max (score d r) s) d) refs d"

definition evidence_refs ::
  "project_config \<Rightarrow> node list \<Rightarrow> reconciliation_case list \<Rightarrow> int dict \<Rightarrow> int option \<Rightarrow> string list" where
  "evidence_refs config nodes cases scores hard =
     (let d = fold (\<lambda>n. note_refs (score scores (nd_id n)) (nd_evidence_refs n)) nodes [];
          d = fold (\<lambda>c. note_refs (case_score scores c) (all_evidence_refs c)) cases d in
      cap config ''evidence_refs'' hard (sort_key (\<lambda>r. (- score d r, r)) (map fst d)))"

text \<open>The literal \<open>0.65\<close> is the nearest double.\<close>

definition low_confidence :: confidence where
  "low_confidence = 5854679515581645 / 9007199254740992"

definition node_warnings :: "int dict \<Rightarrow> node \<Rightarrow> (int \<times> string \<times> string) list" where
  "node_warnings scores n =
     (case nd_intent_fidelity_confidence n of
        Some c \<Rightarrow> if c < low_confidence
          then [(- score scores (nd_id n), nd_id n, ''low confidence: '' @ nd_id n)] else []
      | None \<Rightarrow> []) @
     (if nd_evidence_refs n = [] then [(- score scores (nd_id n), nd_id n, ''missing evidence: '' @ nd_id n)]
      else [])"

definition warnings :: "node list \<Rightarrow> int dict \<Rightarrow> string list" where
  "warnings nodes scores = map (\<lambda>(_, _, message). message) (sort (concat (map (node_warnings scores) nodes)))"

section \<open>Building a pack\<close>

definition CATEGORIES :: "NodeType list dict" where
  "CATEGORIES =
     [(''relevant_intent'', [CONTEXT, NEED, PRODUCT_INTENT, DESIRED_OUTCOME, ASSUMPTION, PRINCIPLE]),
      (''relevant_requirements'', [REQUIREMENT, CAPABILITY]),
      (''decisions'', [DECISION, ARCHITECTURE, INTERFACE, DATA_CONTRACT]),
      (''constraints'', [CONSTRAINT, POLICY]),
      (''acceptance_criteria'', [ACCEPTANCE_CRITERION]),
      (''code_refs'', [REPOSITORY, MODULE, FILE, SYMBOL, ENDPOINT, SCHEMA, BUILD_ARTIFACT, DEPLOYMENT]),
      (''test_refs'', [TEST])]"

definition grouped :: "int dict \<Rightarrow> node list \<Rightarrow> string \<Rightarrow> node list" where
  "grouped scores selected category =
     (case map_of CATEGORIES category of
        None \<Rightarrow> []
      | Some types \<Rightarrow> ordered scores (filter (\<lambda>n. nd_type n \<in> Builtin ` set types) selected))"

definition capped_nodes :: "project_config \<Rightarrow> bool \<Rightarrow> int dict \<Rightarrow> node list \<Rightarrow> string \<Rightarrow> node list" where
  "capped_nodes config fixed_caps scores selected category =
     cap config category (hard_limit fixed_caps category) (grouped scores selected category)"

definition make_pack ::
  "provider \<Rightarrow> string \<Rightarrow> bool \<Rightarrow> int dict \<Rightarrow> node list \<Rightarrow> reconciliation_case list \<Rightarrow> context_pack" where
  "make_pack p query fixed_caps scores selected cases =
     (let nodes = capped_nodes (cv_config p) fixed_caps scores selected;
          items = (\<lambda>category. map item_for_node (nodes category));
          capped_cases = cap (cv_config p) ''open_reconciliation_cases''
            (hard_limit fixed_caps ''open_reconciliation_cases'')
            (sort_key (\<lambda>c. (- case_score scores c, rc_id c)) cases);
          context_nodes = concat (map nodes (map fst CATEGORIES)) in
      \<lparr>cx_task = query,
       cx_relevant_intent = items ''relevant_intent'',
       cx_relevant_requirements = items ''relevant_requirements'',
       cx_decisions = items ''decisions'',
       cx_constraints = items ''constraints'',
       cx_acceptance_criteria = items ''acceptance_criteria'',
       cx_code_refs = items ''code_refs'',
       cx_test_refs = items ''test_refs'',
       cx_open_reconciliation_cases = map item_for_case capped_cases,
       cx_evidence_refs = evidence_refs (cv_config p) context_nodes capped_cases scores
         (hard_limit fixed_caps ''evidence_refs''),
       cx_warnings = warnings context_nodes scores\<rparr>)"

definition build ::
  "provider \<Rightarrow> string \<Rightarrow> string option \<Rightarrow> actor option \<Rightarrow> string option \<Rightarrow> string list option \<Rightarrow> bool \<Rightarrow>
     context_pack res" where
  "build p query repository_scope a exact_seed_id exact_seed_ids fixed_caps =
     (let active = active_nodes p repository_scope a;
          scores = label_scores query active;
          seeds = seed_ids exact_seed_id exact_seed_ids active scores in
      if exact_seed_ids \<noteq> None \<and> \<not> set seeds \<subseteq> fst ` set active
      then Inl (ValueError ''unavailable exact context references'')
      else
        res_bind (expand (cv_graph p) seeds active) (\<lambda>selected.
          Inr (make_pack p query fixed_caps (seed_scores exact_seed_ids scores)
            (map (\<lambda>i. the (map_of active i)) selected) (selected_cases p selected repository_scope a))))"

definition for_task :: "provider \<Rightarrow> string \<Rightarrow> string option \<Rightarrow> actor option \<Rightarrow> context_pack res" where
  "for_task p task repository_scope a = build p task repository_scope a None None False"

definition for_symbol :: "provider \<Rightarrow> string \<Rightarrow> actor option \<Rightarrow> context_pack res" where
  "for_symbol p symbol_ref a =
     build p symbol_ref None a (if symbol_ref = [] then None else Some symbol_ref) None False"

definition pack_items :: "context_pack \<Rightarrow> context_item list" where
  "pack_items pack =
     concat [cx_relevant_intent pack, cx_relevant_requirements pack, cx_decisions pack, cx_constraints pack,
       cx_acceptance_criteria pack, cx_code_refs pack, cx_test_refs pack]"

definition valid_principals :: "actor \<Rightarrow> bool" where
  "valid_principals a = (case a of One _ \<Rightarrow> True | Many xs \<Rightarrow> xs \<noteq> [] \<and> [] \<notin> set xs)"

definition for_refs :: "provider \<Rightarrow> string list \<Rightarrow> actor \<Rightarrow> context_pack res" where
  "for_refs p node_ids a =
     (if node_ids = [] \<or> 256 < length node_ids \<or> [] \<in> set node_ids \<or> \<not> distinct node_ids \<or> \<not> valid_principals a
      then Inl (ValueError ''intent context unavailable'')
      else case build p [] None (Some a) None (Some (sort node_ids)) True of
        Inl _ \<Rightarrow> Inl (ValueError ''intent context unavailable'')
      | Inr pack \<Rightarrow>
          if set node_ids \<subseteq> ci_id ` set (pack_items pack) then Inr pack
          else Inl (ValueError ''intent context unavailable''))"

section \<open>The search reaches exactly two hops\<close>

text \<open>An active edge, in either direction, between two nodes of \<open>K\<close>.\<close>

definition joins :: "string set \<Rightarrow> string \<Rightarrow> edge \<Rightarrow> string set" where
  "joins K a e = {b. a \<in> K \<and> b \<in> K \<and> ed_status e = ''active'' \<and>
     (ed_from_id e = a \<and> ed_to_id e = b \<or> ed_from_id e = b \<and> ed_to_id e = a)}"

definition linked :: "graph \<Rightarrow> string set \<Rightarrow> string \<Rightarrow> string \<Rightarrow> bool" where
  "linked g K a b \<longleftrightarrow> (\<exists>e \<in> set (g_edges g). b \<in> joins K a e)"

definition two_hops :: "graph \<Rightarrow> string set \<Rightarrow> string set \<Rightarrow> string set" where
  "two_hops g K S = {b. \<exists>a \<in> S. b = a \<or> linked g K a b \<or> (\<exists>m. linked g K a m \<and> linked g K m b)}"

lemma add_edge_lookup:
  assumes "map_of d a = Some ns"
  shows "\<exists>ns'. map_of (add_edge active e d) a = Some ns' \<and> set ns' = set ns \<union> joins (fst ` set active) a e"
proof -
  have "\<exists>ns'. map_of (if ed_status e = ''active'' \<and> ed_from_id e \<in> K \<and> ed_to_id e \<in> K
      then AList.map_entry (ed_to_id e) (List.insert (ed_from_id e))
             (AList.map_entry (ed_from_id e) (List.insert (ed_to_id e)) d) else d) a = Some ns' \<and>
    set ns' = set ns \<union> joins K a e" for K
    using assms by (auto simp: map_of_map_entry joins_def)
  then show ?thesis unfolding add_edge_def .
qed

lemma fold_add_edge_lookup:
  "map_of d a = Some ns \<Longrightarrow>
     \<exists>ns'. map_of (fold (add_edge active) es d) a = Some ns' \<and>
       set ns' = set ns \<union> (\<Union>e \<in> set es. joins (fst ` set active) a e)"
proof (induction es arbitrary: d ns)
  case (Cons e es)
  from add_edge_lookup [OF Cons.prems] obtain ns1 where "map_of (add_edge active e d) a = Some ns1"
    and ns1: "set ns1 = set ns \<union> joins (fst ` set active) a e"
    by blast
  from Cons.IH [OF this(1)] ns1 show ?case by auto
qed simp

lemma neighbours_lookup:
  assumes "a \<in> fst ` set active"
  shows "\<exists>ns. map_of (neighbours g active) a = Some ns \<and> set ns = {b. linked g (fst ` set active) a b}"
proof -
  have "map_of (map (\<lambda>(i, _). (i, [] :: string list)) active) a = Some []"
    using assms by (induction active) auto
  from fold_add_edge_lookup [OF this, of active "g_edges g"] show ?thesis
    unfolding neighbours_def linked_def by auto
qed

text \<open>A level of the queue is processed before the next.\<close>

definition hop :: "string list dict \<Rightarrow> string set \<Rightarrow> string set" where
  "hop d S = {b. \<exists>a ns. a \<in> S \<and> map_of d a = Some ns \<and> b \<in> set ns}"

lemma hop_eq: "(\<And>a. a \<in> S \<Longrightarrow> map_of d a = Some (f a)) \<Longrightarrow> hop d S = (\<Union>a \<in> S. set (f a))"
  unfolding hop_def by (fastforce simp del: map_of_eq_Some_iff)

lemma expand_level:
  assumes "set xs \<subseteq> dom (map_of d)" "hops \<noteq> 2"
  shows "\<exists>zs. set zs = hop d (set xs) - set selected \<and>
    expand_loop d (map (\<lambda>n. (n, hops)) xs @ map (\<lambda>n. (n, hops + 1)) ys) selected =
    expand_loop d (map (\<lambda>n. (n, hops + 1)) (ys @ zs)) (selected @ zs)"
  using assms(1)
proof (induction xs arbitrary: ys selected)
  case Nil
  then show ?case by (intro exI [of _ "[]"]) (simp add: hop_def)
next
  case (Cons x xs)
  then obtain ns where ns: "map_of d x = Some ns" by auto
  let ?new = "filter (\<lambda>n. n \<notin> set selected) (sorted_set ns)"
  have step: "expand_loop d (map (\<lambda>n. (n, hops)) (x # xs) @ map (\<lambda>n. (n, hops + 1)) ys) selected =
      expand_loop d (map (\<lambda>n. (n, hops)) xs @ map (\<lambda>n. (n, hops + 1)) (ys @ ?new)) (selected @ ?new)"
    using ns assms(2) by (simp add: visit_eq Let_def)
  from Cons.IH [of "selected @ ?new" "ys @ ?new"] Cons.prems obtain zs where
    zs: "set zs = hop d (set xs) - set (selected @ ?new)"
    and eq: "expand_loop d (map (\<lambda>n. (n, hops)) xs @ map (\<lambda>n. (n, hops + 1)) (ys @ ?new)) (selected @ ?new) =
      expand_loop d (map (\<lambda>n. (n, hops + 1)) ((ys @ ?new) @ zs)) ((selected @ ?new) @ zs)"
    by auto
  have "set (?new @ zs) = hop d (set (x # xs)) - set selected"
    using zs ns by (auto simp: hop_def)
  with step eq show ?case by (intro exI [of _ "?new @ zs"]) simp
qed

lemma expand_last: "expand_loop d (map (\<lambda>n. (n, 2)) xs) selected = Inr selected"
  by (induction xs) simp_all

lemma expand_spec:
  assumes "set seeds \<subseteq> fst ` set active"
  obtains selected where "expand g seeds active = Inr selected"
    "set selected = two_hops g (fst ` set active) (set seeds)"
proof -
  let ?d = "neighbours g active" and ?K = "fst ` set active"
  have "\<forall>a \<in> ?K. \<exists>ns. map_of ?d a = Some ns \<and> set ns = {b. linked g ?K a b}"
    using neighbours_lookup by blast
  then obtain f where f: "\<And>a. a \<in> ?K \<Longrightarrow> map_of ?d a = Some (f a)"
    and set_f: "\<And>a. a \<in> ?K \<Longrightarrow> set (f a) = {b. linked g ?K a b}"
    by (metis (no_types, lifting))
  have hop: "hop ?d S = {b. \<exists>a \<in> S. linked g ?K a b}" if "S \<subseteq> ?K" for S
  proof -
    have "hop ?d S = (\<Union>a \<in> S. set (f a))"
      by (rule hop_eq) (rule f [OF subsetD [OF that]])
    also have "\<dots> = (\<Union>a \<in> S. {b. linked g ?K a b})"
      by (rule SUP_cong [OF refl]) (rule set_f [OF subsetD [OF that]])
    finally show ?thesis by (simp add: Collect_bex_eq)
  qed
  have K: "?K \<subseteq> dom (map_of ?d)" using f by blast
  have range: "hop ?d S \<subseteq> ?K" if "S \<subseteq> ?K" for S
    unfolding hop [OF that] linked_def joins_def by auto
  have "set (sorted_set seeds) \<subseteq> dom (map_of ?d)" using assms K by auto
  from expand_level [OF this, of 0 "sorted_set seeds" "[]"] obtain zs where
    zs: "set zs = hop ?d (set seeds) - set seeds"
    and eq: "expand g seeds active = expand_loop ?d (map (\<lambda>n. (n, 1)) zs) (sorted_set seeds @ zs)"
    by (auto simp: expand_def)
  have zsK: "set zs \<subseteq> ?K" using zs range [OF assms] by auto
  then have "set zs \<subseteq> dom (map_of ?d)" using K by auto
  from expand_level [OF this, of 1 "sorted_set seeds @ zs" "[]"] obtain ws where
    ws: "set ws = hop ?d (set zs) - (set seeds \<union> set zs)"
    and eq2: "expand_loop ?d (map (\<lambda>n. (n, 1)) zs) (sorted_set seeds @ zs) =
      expand_loop ?d (map (\<lambda>n. (n, 2)) ws) (sorted_set seeds @ zs @ ws)"
    by (auto simp: numeral_2_eq_2)
  have "expand g seeds active = Inr (sorted_set seeds @ zs @ ws)" using eq eq2 expand_last by simp
  moreover have "set (sorted_set seeds @ zs @ ws) = two_hops g ?K (set seeds)"
    using zs ws unfolding hop [OF assms] hop [OF zsK] two_hops_def by auto
  ultimately show thesis by (rule that)
qed

section \<open>What a pack is made of\<close>

lemma dict_of_active:
  assumes "(i, n) \<in> set (active_nodes p repository_scope a)"
  shows "nd_id n = i" "n \<in> set (g_nodes (cv_graph p))" "nd_status n = ''active''"
    "node_allowed p n repository_scope a"
  using dict_of_mem [OF assms [unfolded active_nodes_def]] by auto

lemma scores_keys:
  "fst ` set (label_scores query active) = fst ` set active"
  by (force simp: label_scores_def)

lemma seed_ids_active:
  "exact_seed_ids = None \<or> set (seed_ids exact_seed_id exact_seed_ids active scores) \<subseteq> fst ` set active \<Longrightarrow>
     fst ` set scores = fst ` set active \<Longrightarrow>
     set (seed_ids exact_seed_id exact_seed_ids active scores) \<subseteq> fst ` set active"
  unfolding seed_ids_def by (auto split: option.splits)

lemma set_cap: "set (cap config category hard values) \<subseteq> set values"
  by (simp add: cap_def Let_def set_take_subset)

lemma length_cap: "length (cap config category (Some h) values) \<le> nat h"
proof -
  have "nat (max 0 (min l h)) \<le> nat h" for l by auto
  then have "length (take (nat (max 0 (min l h))) values) \<le> nat h" for l
    by (simp add: min.coboundedI2)
  then show ?thesis by (simp only: cap_def Let_def option.case)
qed

lemma set_capped_nodes: "set (capped_nodes config fixed_caps scores selected category) \<subseteq> set selected"
proof -
  have "set (grouped scores selected category) \<subseteq> set selected"
    by (auto simp: grouped_def ordered_def split: option.splits)
  then show ?thesis unfolding capped_nodes_def by (rule subset_trans [OF set_cap])
qed

lemma keys_note_refs: "fst ` set (note_refs s refs d) = fst ` set d \<union> set refs"
  unfolding note_refs_def by (induction refs arbitrary: d) auto

lemma keys_fold_note_refs: "fst ` set (fold (\<lambda>x. note_refs (f x) (refs x)) xs d) = fst ` set d \<union> (\<Union>x \<in> set xs. set (refs x))"
  by (induction xs arbitrary: d) (auto simp: keys_note_refs)

lemma set_evidence_refs:
  "set (evidence_refs config nodes cases scores hard) \<subseteq>
     (\<Union>n \<in> set nodes. set (nd_evidence_refs n)) \<union> (\<Union>c \<in> set cases. set (all_evidence_refs c))"
proof -
  have "fst ` set (fold (\<lambda>c. note_refs (case_score scores c) (all_evidence_refs c)) cases
      (fold (\<lambda>n. note_refs (score scores (nd_id n)) (nd_evidence_refs n)) nodes [])) =
    (\<Union>n \<in> set nodes. set (nd_evidence_refs n)) \<union> (\<Union>c \<in> set cases. set (all_evidence_refs c))"
    by (simp add: keys_fold_note_refs)
  then show ?thesis
    unfolding evidence_refs_def Let_def by (intro subset_trans [OF set_cap]) simp
qed

text \<open>The evidence an actor may be shown, in a repository scope.\<close>

definition reader_names :: "actor option \<Rightarrow> string set" where
  "reader_names a = (case a of None \<Rightarrow> {} | Some (One s) \<Rightarrow> {s} | Some (Many xs) \<Rightarrow> set xs)"

definition readable :: "provider \<Rightarrow> string option \<Rightarrow> actor option \<Rightarrow> string set" where
  "readable p repository_scope a =
     {r. \<exists>e. map_of (cv_evidence p) r = Some e \<and> (er_acl e = [] \<or> set (er_acl e) \<inter> reader_names a \<noteq> {}) \<and>
        (repository_scope = None \<or> scope_of e = repository_scope)}"

lemma context_evidence_allowed_iff:
  "context_evidence_allowed e sc a \<longleftrightarrow>
     (er_acl e = [] \<or> set (er_acl e) \<inter> reader_names a \<noteq> {}) \<and> (sc = None \<or> scope_of e = sc)"
proof (cases a)
  case (Some b)
  then show ?thesis by (cases b) (auto simp: context_evidence_allowed_def reader_names_def)
qed (simp add: context_evidence_allowed_def reader_names_def)

lemma context_refs_allowed_iff: "context_refs_allowed p refs sc a \<longleftrightarrow> set refs \<subseteq> readable p sc a"
proof -
  have "context_refs_allowed p refs sc a \<longleftrightarrow>
      (\<forall>r \<in> set refs. \<exists>e. map_of (cv_evidence p) r = Some e \<and> context_evidence_allowed e sc a)"
    by (auto simp: context_refs_allowed_def list_all_iff split: option.splits)
  also have "\<dots> \<longleftrightarrow> set refs \<subseteq> readable p sc a"
    by (auto simp: readable_def context_evidence_allowed_iff)
  finally show ?thesis .
qed

text \<open>Below the principals of the access policy: a reader with well-formed names sees only what the policy
  grants.\<close>

lemma readable_policy:
  "r \<in> readable p sc (Some a) \<Longrightarrow> valid_principals a \<Longrightarrow>
     \<exists>e. map_of (cv_evidence p) r = Some e \<and> evidence_allowed e a"
  by (auto simp: readable_def evidence_allowed_def principals_def valid_principals_def reader_names_def list_ex_iff
      split: actor.splits)

definition shows_only :: "provider \<Rightarrow> string option \<Rightarrow> actor option \<Rightarrow> context_pack \<Rightarrow> bool" where
  "shows_only p sc a pack \<longleftrightarrow>
     (\<forall>item \<in> set (pack_items pack). \<exists>n \<in> set (g_nodes (cv_graph p)). item = item_for_node n \<and>
        nd_status n = ''active'' \<and> set (nd_evidence_refs n) \<subseteq> readable p sc a) \<and>
     (\<forall>item \<in> set (cx_open_reconciliation_cases pack). \<exists>c \<in> set (cv_cases p). item = item_for_case c \<and>
        is_nonterminal_case_status (rc_status c) \<and> set (all_evidence_refs c) \<subseteq> readable p sc a) \<and>
     set (cx_evidence_refs pack) \<subseteq> readable p sc a"

lemma make_pack_items:
  "set (pack_items (make_pack p query fixed_caps scores selected cases)) \<subseteq> item_for_node ` set selected"
  using set_capped_nodes [of "cv_config p" fixed_caps scores selected]
  by (auto simp: pack_items_def make_pack_def Let_def)

lemma make_pack_shows_only:
  assumes nodes: "\<forall>n \<in> set selected. n \<in> set (g_nodes (cv_graph p)) \<and> nd_status n = ''active'' \<and> node_allowed p n sc a"
  shows "shows_only p sc a (make_pack p query fixed_caps scores selected (selected_cases p ids sc a))"
proof -
  let ?cases = "cap (cv_config p) ''open_reconciliation_cases'' (hard_limit fixed_caps ''open_reconciliation_cases'')
    (sort_key (\<lambda>c. (- case_score scores c, rc_id c)) (selected_cases p ids sc a))"
  have cases: "c \<in> set (cv_cases p) \<and> is_nonterminal_case_status (rc_status c) \<and>
      set (all_evidence_refs c) \<subseteq> readable p sc a" if "c \<in> set ?cases" for c
    using subsetD [OF set_cap that] by (simp add: selected_cases_def context_refs_allowed_iff)
  let ?nodes = "concat (map (capped_nodes (cv_config p) fixed_caps scores selected) (map fst CATEGORIES))"
  have "set ?nodes \<subseteq> set selected"
    using set_capped_nodes [of "cv_config p" fixed_caps scores selected] by auto
  then have "set (nd_evidence_refs n) \<subseteq> readable p sc a" if "n \<in> set ?nodes" for n
    using subsetD [OF _ that] nodes by (auto simp: node_allowed_def context_refs_allowed_iff)
  then have "set (evidence_refs (cv_config p) ?nodes ?cases scores h) \<subseteq> readable p sc a" for h
    using cases by (intro subset_trans [OF set_evidence_refs] Un_least UN_least) blast+
  moreover have "\<exists>n \<in> set (g_nodes (cv_graph p)). item = item_for_node n \<and> nd_status n = ''active'' \<and>
      set (nd_evidence_refs n) \<subseteq> readable p sc a"
    if "item \<in> set (pack_items (make_pack p query fixed_caps scores selected (selected_cases p ids sc a)))" for item
    using subsetD [OF make_pack_items that] nodes by (auto simp: node_allowed_def context_refs_allowed_iff)
  moreover have "cx_open_reconciliation_cases (make_pack p query fixed_caps scores selected (selected_cases p ids sc a)) =
      map item_for_case ?cases"
    and "cx_evidence_refs (make_pack p query fixed_caps scores selected (selected_cases p ids sc a)) =
      evidence_refs (cv_config p) ?nodes ?cases scores (hard_limit fixed_caps ''evidence_refs'')"
    by (simp_all add: make_pack_def Let_def)
  moreover have "\<exists>c \<in> set (cv_cases p). item = item_for_case c \<and> is_nonterminal_case_status (rc_status c) \<and>
      set (all_evidence_refs c) \<subseteq> readable p sc a" if "item \<in> set (map item_for_case ?cases)" for item
    using cases that by auto
  ultimately show ?thesis
    unfolding shows_only_def by (intro conjI ballI; simp only:)
qed

lemma build_Inr:
  assumes "case exact_seed_ids of None \<Rightarrow> True | Some is \<Rightarrow> set is \<subseteq> fst ` set (active_nodes p sc a)"
  obtains selected scores ids where
    "build p query sc a exact_seed_id exact_seed_ids fixed_caps =
       Inr (make_pack p query fixed_caps scores selected (selected_cases p ids sc a))"
    "\<forall>n \<in> set selected. n \<in> set (g_nodes (cv_graph p)) \<and> nd_status n = ''active'' \<and> node_allowed p n sc a"
    "nd_id ` set selected = two_hops (cv_graph p) (fst ` set (active_nodes p sc a))
       (set (seed_ids exact_seed_id exact_seed_ids (active_nodes p sc a) (label_scores query (active_nodes p sc a))))"
proof -
  let ?active = "active_nodes p sc a"
  let ?seeds = "seed_ids exact_seed_id exact_seed_ids ?active (label_scores query ?active)"
  have seeds: "set ?seeds \<subseteq> fst ` set ?active"
    using assms by (intro seed_ids_active scores_keys) (auto simp: seed_ids_def split: option.splits)
  from expand_spec [OF this] obtain ids where ids: "expand (cv_graph p) ?seeds ?active = Inr ids"
    and hops: "set ids = two_hops (cv_graph p) (fst ` set ?active) (set ?seeds)" by blast
  have active: "set ids \<subseteq> fst ` set ?active"
    using seeds unfolding hops two_hops_def linked_def joins_def by blast
  let ?selected = "map (\<lambda>i. the (map_of ?active i)) ids"
  have lookup: "(i, the (map_of ?active i)) \<in> set ?active" if "i \<in> set ids" for i
  proof -
    from subsetD [OF active that] obtain n where "map_of ?active i = Some n"
      by (metis imageE map_of_eq_None_iff not_None_eq)
    then show ?thesis using map_of_SomeD by fastforce
  qed
  have "build p query sc a exact_seed_id exact_seed_ids fixed_caps =
      Inr (make_pack p query fixed_caps (seed_scores exact_seed_ids (label_scores query ?active)) ?selected
        (selected_cases p ids sc a))"
    using seeds ids by (simp add: build_def Let_def)
  moreover have "\<forall>n \<in> set ?selected. n \<in> set (g_nodes (cv_graph p)) \<and> nd_status n = ''active'' \<and> node_allowed p n sc a"
  proof
    fix n assume "n \<in> set ?selected"
    then obtain i where i: "i \<in> set ids" and n: "n = the (map_of ?active i)" by auto
    show "n \<in> set (g_nodes (cv_graph p)) \<and> nd_status n = ''active'' \<and> node_allowed p n sc a"
      unfolding n by (intro conjI dict_of_active(2-4) [OF lookup [OF i]])
  qed
  moreover have "nd_id ` set ?selected = set ids"
    using dict_of_active(1) [OF lookup] by (simp add: image_image)
  ultimately show thesis by (intro that) (simp_all only: hops)
qed

lemma length_fixed_cap:
  "map_of REF_LIMITS category = Some h \<Longrightarrow> length (cap config category (hard_limit True category) values) \<le> nat h"
  using length_cap by (simp add: hard_limit_def)

lemma make_pack_fixed_lengths:
  "length (pack_items (make_pack p query True scores selected cases)) \<le> 90"
  "length (cx_open_reconciliation_cases (make_pack p query True scores selected cases)) \<le> 10"
  "length (cx_evidence_refs (make_pack p query True scores selected cases)) \<le> 20"
proof -
  have nodes: "length (capped_nodes (cv_config p) True scores selected category) \<le> nat h"
    if "map_of REF_LIMITS category = Some h" for category h
    unfolding capped_nodes_def by (rule length_fixed_cap [OF that])
  show "length (pack_items (make_pack p query True scores selected cases)) \<le> 90"
    using nodes [of "''relevant_intent''" 10] nodes [of "''relevant_requirements''" 10] nodes [of "''decisions''" 10]
      nodes [of "''constraints''" 10] nodes [of "''acceptance_criteria''" 10] nodes [of "''code_refs''" 20]
      nodes [of "''test_refs''" 20]
    by (simp add: pack_items_def make_pack_def Let_def REF_LIMITS_def)
  show "length (cx_open_reconciliation_cases (make_pack p query True scores selected cases)) \<le> 10"
    using length_fixed_cap [of "''open_reconciliation_cases''" 10] by (simp add: make_pack_def Let_def REF_LIMITS_def)
  show "length (cx_evidence_refs (make_pack p query True scores selected cases)) \<le> 20"
    using length_fixed_cap [of "''evidence_refs''" 20]
    by (simp add: make_pack_def Let_def evidence_refs_def REF_LIMITS_def)
qed

section \<open>Properties\<close>

text \<open>C13: The breadth-first search with its queue of nodes and hop counts never fails on active seeds and
  selects exactly the nodes at most two active edges away from a seed, edges taken in both directions
  and between active, readable nodes only.\<close>

theorem expand_two_hops:
  assumes "set seeds \<subseteq> fst ` set active"
  shows "\<exists>selected. expand g seeds active = Inr selected \<and>
    set selected = {b. \<exists>a \<in> set seeds. b = a \<or> linked g (fst ` set active) a b \<or>
      (\<exists>m. linked g (fst ` set active) a m \<and> linked g (fst ` set active) m b)}"
  by (rule expand_spec [OF assms]) (auto simp: two_hops_def)

definition chain_edge :: "string \<Rightarrow> string \<Rightarrow> edge" where
  "chain_edge a b =
     \<lparr>ed_id = a @ b, ed_from_id = a, ed_relation = REFINES, ed_to_id = b, ed_status = ''active'', ed_created_by = ''x'',
      ed_created_at = 0, ed_last_modified_by = ''x'', ed_last_modified_at = 0, ed_external = False\<rparr>"

definition chain_graph :: graph where
  "chain_graph =
     \<lparr>g_id = ''g'', g_version = 1, g_schema_version = ''1'', g_name = None, g_purpose = None, g_created_at = None,
      g_source_spec = None, g_nodes = [], g_edges = [chain_edge ''a'' ''b'', chain_edge ''c'' ''b'', chain_edge ''c'' ''d''],
      g_extensions = []\<rparr>"

theorem expand_two_hops_witness:
  "\<exists>selected. expand chain_graph [''a''] [(''a'', ()), (''b'', ()), (''c'', ()), (''d'', ())] = Inr selected \<and>
     ''c'' \<in> set selected \<and> ''d'' \<notin> set selected"
proof -
  let ?active = "[(''a'', ()), (''b'', ()), (''c'', ()), (''d'', ())]"
  from expand_two_hops [of "[''a'']" ?active chain_graph] obtain selected where
    "expand chain_graph [''a''] ?active = Inr selected"
    "set selected = two_hops chain_graph (fst ` set ?active) {''a''}"
    unfolding two_hops_def by auto
  then show ?thesis
    by (auto simp: two_hops_def linked_def joins_def chain_graph_def chain_edge_def)
qed

text \<open>C12: A context pack can always be built for a task, and it shows nothing its reader may not see:
  every item is an active node of the graph or an unsettled case, and all the evidence it rests on, like
  every evidence reference of the pack, is known, readable by the reader and in the repository scope.\<close>

theorem task_context_readable:
  "\<exists>pack. for_task p task sc a = Inr pack \<and> shows_only p sc a pack \<and>
     ci_id ` set (pack_items pack) \<subseteq> two_hops (cv_graph p) (fst ` set (active_nodes p sc a))
       {i. \<exists>n. (i, n) \<in> set (active_nodes p sc a) \<and> set (tokens task) \<inter> set (tokens (nd_label n)) \<noteq> {}}"
proof -
  let ?active = "active_nodes p sc a"
  have "case None of None \<Rightarrow> True | Some is \<Rightarrow> set is \<subseteq> fst ` set ?active" by simp
  then obtain selected scores ids where
    build: "build p task sc a None None False = Inr (make_pack p task False scores selected (selected_cases p ids sc a))"
    and nodes: "\<forall>n \<in> set selected. n \<in> set (g_nodes (cv_graph p)) \<and> nd_status n = ''active'' \<and> node_allowed p n sc a"
    and hops: "nd_id ` set selected = two_hops (cv_graph p) (fst ` set ?active)
       (set (seed_ids None None ?active (label_scores task ?active)))"
    by (rule build_Inr)
  have "set (seed_ids None None ?active (label_scores task ?active)) =
      {i. \<exists>n. (i, n) \<in> set ?active \<and> set (tokens task) \<inter> set (tokens (nd_label n)) \<noteq> {}}"
    by (force simp: seed_ids_def label_scores_def filter_empty_conv)
  moreover have "ci_id ` set (pack_items (make_pack p task False scores selected (selected_cases p ids sc a))) \<subseteq>
      nd_id ` set selected"
    using make_pack_items by (fastforce simp: item_for_node_def)
  ultimately show ?thesis
    using build hops make_pack_shows_only [OF nodes] by (auto simp: for_task_def)
qed

text \<open>Context for exact references is all or nothing. A pack is returned only if every requested node
  is among its items; then it shows only what the reader may see and stays within the fixed limits, whatever
  the project configures. Every failure is the same error, so an absent reference cannot be told from a
  forbidden one.\<close>

theorem exact_context_all_or_nothing:
  "(\<exists>pack. for_refs p node_ids a = Inr pack \<and> set node_ids \<subseteq> ci_id ` set (pack_items pack) \<and>
      shows_only p None (Some a) pack \<and> length (pack_items pack) \<le> 90 \<and>
      length (cx_open_reconciliation_cases pack) \<le> 10 \<and> length (cx_evidence_refs pack) \<le> 20) \<or>
   for_refs p node_ids a = Inl (ValueError ''intent context unavailable'')"
proof (cases "for_refs p node_ids a")
  case (Inl e)
  then show ?thesis by (auto simp: for_refs_def split: if_splits sum.splits)
next
  case (Inr pack)
  then have build: "build p [] None (Some a) None (Some (sort node_ids)) True = Inr pack"
    and all: "set node_ids \<subseteq> ci_id ` set (pack_items pack)"
    by (auto simp: for_refs_def split: if_splits sum.splits)
  have "case Some (sort node_ids) of None \<Rightarrow> True | Some is \<Rightarrow> set is \<subseteq> fst ` set (active_nodes p None (Some a))"
    using build by (simp add: build_def seed_ids_def Let_def split: if_splits)
  then obtain selected scores ids where
    "build p [] None (Some a) None (Some (sort node_ids)) True =
       Inr (make_pack p [] True scores selected (selected_cases p ids None (Some a)))"
    and nodes: "\<forall>n \<in> set selected. n \<in> set (g_nodes (cv_graph p)) \<and> nd_status n = ''active'' \<and>
      node_allowed p n None (Some a)"
    by (rule build_Inr)
  with build have pack: "pack = make_pack p [] True scores selected (selected_cases p ids None (Some a))" by simp
  show ?thesis
    using Inr all make_pack_shows_only [OF nodes, of "[]" True scores ids] make_pack_fixed_lengths [of p "[]" scores selected]
    unfolding pack by (intro disjI1 exI conjI) simp_all
qed

end
