(* ===== verification/Reasoner.thy ===== *)
theory Reasoner
  imports Applier Digest Evidence
begin

text \<open>
  The deterministic reasoner (\<open>extract/deterministic.py\<close>, with \<open>CandidateAssertion\<close> of
  \<open>core/models/changeset.py\<close>): explicit assertions in evidence payloads become a ChangeSet that adds the
  nodes the graph does not have. \<open>decode\<close> stands for the field reading of Pydantic; the clock is
  consulted once for every node and then for the ChangeSet.
\<close>

record candidate_assertion =
  ca_id :: string
  ca_subject_id :: string
  ca_change_kind :: ChangeKind
  ca_node_type :: node_kind
  ca_label :: string
  ca_source_mode :: SourceMode
  ca_evidence_refs :: "string list"
  ca_confidence :: confidence
  ca_attributes :: "json dict"

record reasoner =
  dr_actor :: string
  dr_clock :: "nat \<Rightarrow> datetime"

definition validate_assertion :: "candidate_assertion \<Rightarrow> candidate_assertion res" where
  "validate_assertion a =
     (if valid_confidence (ca_confidence a) then Inr a else Inl (ValidationError ''confidence''))"

fun assertions_of ::
  "(json \<Rightarrow> candidate_assertion res) \<Rightarrow> evidence_record list \<Rightarrow> candidate_assertion list res" where
  "assertions_of decode [] = Inr []"
| "assertions_of decode (r # rs) =
     (case map_of (er_payload r) ''intent_assertion'' of
        None \<Rightarrow> assertions_of decode rs
      | Some j \<Rightarrow>
          res_bind (res_bind (decode j) validate_assertion) (\<lambda>a.
          res_bind (assertions_of decode rs) (\<lambda>rest. Inr (a # rest))))"

definition extract_assertions ::
  "(json \<Rightarrow> candidate_assertion res) \<Rightarrow> evidence_delta \<Rightarrow> candidate_assertion list res" where
  "extract_assertions decode delta = assertions_of decode (ed_added delta)"

definition node_from_assertion :: "reasoner \<Rightarrow> datetime \<Rightarrow> candidate_assertion \<Rightarrow> node" where
  "node_from_assertion r timestamp a =
     \<lparr>nd_id = ca_subject_id a, nd_type = ca_node_type a, nd_label = ca_label a, nd_status = ''active'',
      nd_created_by = dr_actor r, nd_created_at = timestamp, nd_last_modified_by = dr_actor r,
      nd_last_modified_at = timestamp, nd_source_mode = Some (ca_source_mode a),
      nd_intent_fidelity_confidence = Some (ca_confidence a),
      nd_confidence_basis = Some ''deterministic fixture assertion'', nd_last_reassessed_at = Some timestamp,
      nd_implementation_status = None, nd_evidence_refs = ca_evidence_refs a\<rparr>"

fun nodes_from :: "reasoner \<Rightarrow> nat \<Rightarrow> candidate_assertion list \<Rightarrow> node list res" where
  "nodes_from r k [] = Inr []"
| "nodes_from r k (a # as) =
     res_bind (validate_node (node_from_assertion r (dr_clock r k) a)) (\<lambda>n.
     res_bind (nodes_from r (Suc k) as) (\<lambda>ns. Inr (n # ns)))"

definition reasoned_changeset_id :: "graph \<Rightarrow> candidate_assertion list \<Rightarrow> string" where
  "reasoned_changeset_id g assertions =
     ''changeset:deterministic:'' @
       hexdigest (join [CHR 0x00] (int_str (g_version g) # map ca_id (sort_key ca_id assertions)))"

definition absent_assertions :: "candidate_assertion list \<Rightarrow> graph \<Rightarrow> candidate_assertion list" where
  "absent_assertions assertions g =
     filter (\<lambda>a. ca_subject_id a \<notin> nd_id ` set (g_nodes g)) (sort_key ca_id assertions)"

definition map_to_graph :: "reasoner \<Rightarrow> candidate_assertion list \<Rightarrow> graph \<Rightarrow> changeset res" where
  "map_to_graph r assertions g =
     res_bind (nodes_from r 0 (absent_assertions assertions g)) (\<lambda>nodes_added.
     validate_changeset
       \<lparr>cs_id = reasoned_changeset_id g assertions, cs_actor = dr_actor r,
        cs_timestamp = dr_clock r (length nodes_added), cs_baseline_graph_version = g_version g,
        cs_evidence_refs = (if nodes_added \<noteq> [] then sorted_set (concat (map ca_evidence_refs assertions)) else []),
        cs_nodes_added = nodes_added, cs_nodes_updated = [], cs_nodes_superseded = [], cs_edges_added = [],
        cs_edges_updated = [], cs_edges_superseded = [], cs_confidence_changes = [],
        cs_implementation_status_changes = [], cs_reconciliation_cases_created = [],
        cs_reconciliation_cases_resolved = [], cs_validation_status = ''validated''\<rparr>)"

section \<open>The nodes it adds\<close>

lemma nodes_from_ids: "nodes_from r k as = Inr ns \<Longrightarrow> map nd_id ns = map ca_subject_id as"
  by (induction as arbitrary: k ns)
    (auto simp: res_simps validate_node_Inr_iff node_from_assertion_def)

lemma map_to_graph_Inr:
  assumes "map_to_graph r assertions g = Inr cs"
  shows "changeset_ok cs" "map nd_id (cs_nodes_added cs) = map ca_subject_id (absent_assertions assertions g)"
    "cs_baseline_graph_version cs = g_version g" "is_semantic cs \<longleftrightarrow> cs_nodes_added cs \<noteq> []"
    "cs_nodes_updated cs = []" "cs_nodes_superseded cs = []" "cs_confidence_changes cs = []"
    "cs_implementation_status_changes cs = []" "cs_edges_added cs = []" "cs_edges_updated cs = []"
    "cs_edges_superseded cs = []"
  using assms unfolding map_to_graph_def
  by (auto simp: res_simps validate_changeset_Inr_iff is_semantic_def dest: nodes_from_ids)

lemma absent_assertions_mem:
  "a \<in> set (absent_assertions assertions g) \<longleftrightarrow> a \<in> set assertions \<and> ca_subject_id a \<notin> nd_id ` set (g_nodes g)"
  by (auto simp: absent_assertions_def)

lemma dom_lookup_node: "dom (lookup_node g) = nd_id ` set (g_nodes g)"
  by (simp add: lookup_node_def dom_map_of_conv_image_fst)

section \<open>Properties\<close>

text \<open>Reasoning is additive and idempotent. The ChangeSet adds exactly the asserted subjects the graph
  does not have; applied, it leaves every existing node and all edges as they are; and reasoning over the
  same assertions again then yields a ChangeSet without any change.\<close>

theorem reasoning_idempotent:
  assumes "graph_nodes_valid g" "map_to_graph r assertions g = Inr cs" "apply_changeset g cs = Inr g'"
  shows "nd_id ` set (g_nodes g') = nd_id ` set (g_nodes g) \<union> ca_subject_id ` set assertions \<and>
    (\<forall>i \<in> nd_id ` set (g_nodes g). lookup_node g' i = lookup_node g i) \<and> lookup_edge g' = lookup_edge g \<and>
    (\<exists>cs'. map_to_graph r assertions g' = Inr cs' \<and> \<not> is_semantic cs')"
proof -
  note cs = map_to_graph_Inr [OF assms(2)]
  from assms(1,3) have ok: "applicable g cs" and g': "g' = apply_spec g cs"
    by (simp_all add: apply_changeset_Inr_iff [OF cs(1)])
  have look: "lookup_node g' = nodes_spec cs (lookup_node g)" "lookup_edge g' = edges_spec cs (lookup_edge g)"
    unfolding g' by (rule apply_spec_lookup [OF cs(1)])+
  have added: "nd_id ` set (cs_nodes_added cs) = ca_subject_id ` set assertions - nd_id ` set (g_nodes g)"
    using arg_cong [OF cs(2), of set] by (auto simp: absent_assertions_mem image_iff)
  have nodes: "nd_id ` set (g_nodes g') = nd_id ` set (g_nodes g) \<union> ca_subject_id ` set assertions"
    using arg_cong [OF look(1), of dom] added by (auto simp: dom_nodes_spec dom_lookup_node)
  have "nodes_spec cs M i = M i" if "i \<notin> nd_id ` set (cs_nodes_added cs)" for i M
    using that by (simp add: nodes_spec_def records_spec_def cs rewrite_spec_frame map_of_frame map_add_def)
  then have "\<forall>i \<in> nd_id ` set (g_nodes g). lookup_node g' i = lookup_node g i"
    using look(1) added by simp
  moreover have "lookup_edge g' = lookup_edge g"
    unfolding look(2) by (rule ext) (simp add: edges_spec_def records_spec_def cs rewrite_spec_frame)
  moreover have "absent_assertions assertions g' = []"
    using nodes by (auto simp: absent_assertions_def filter_empty_conv)
  then have "\<exists>cs'. map_to_graph r assertions g' = Inr cs' \<and> \<not> is_semantic cs'"
    using ok unfolding map_to_graph_def
    by (auto simp: validate_changeset_Inr_iff changeset_ok_def is_semantic_def mutations_distinct_def
        mutation_subjects_def mutations_disjoint_def applicable_def g' graph_ok_def res_simps)
  ultimately show ?thesis using nodes by blast
qed

definition sample_assertion :: candidate_assertion where
  "sample_assertion =
     \<lparr>ca_id = ''a1'', ca_subject_id = ''n9'', ca_change_kind = INITIALIZE, ca_node_type = Extension ''REQUIREMENT'',
      ca_label = ''Log out'', ca_source_mode = EXPLICIT, ca_evidence_refs = [''ev-9''], ca_confidence = 1/2,
      ca_attributes = []\<rparr>"

definition sample_reasoner :: reasoner where
  "sample_reasoner = \<lparr>dr_actor = ''deterministic-reasoner'', dr_clock = int\<rparr>"

declare hexdigest_def [code del]

theorem reasoning_idempotent_witness:
  "\<exists>cs g' cs'. map_to_graph sample_reasoner [sample_assertion] sample_graph = Inr cs \<and>
     apply_changeset sample_graph cs = Inr g' \<and> nd_id ` set (g_nodes g') = {''n2'', ''n9''} \<and>
     map_to_graph sample_reasoner [sample_assertion] g' = Inr cs' \<and> \<not> is_semantic cs'"
proof -
  have "case map_to_graph sample_reasoner [sample_assertion] sample_graph of
      Inr cs \<Rightarrow> (case apply_changeset sample_graph cs of Inr _ \<Rightarrow> True | Inl _ \<Rightarrow> False) | Inl _ \<Rightarrow> False"
    by code_simp
  then obtain cs g' where run: "map_to_graph sample_reasoner [sample_assertion] sample_graph = Inr cs"
    "apply_changeset sample_graph cs = Inr g'"
    by (auto split: sum.splits)
  have "nd_id ` set (g_nodes sample_graph) \<union> ca_subject_id ` set [sample_assertion] = {''n2'', ''n9''}"
    by (auto simp: sample_graph_def sample_node_def sample_assertion_def)
  with reasoning_idempotent [OF sample_ok(3) run] have nodes: "nd_id ` set (g_nodes g') = {''n2'', ''n9''}"
    and "\<exists>cs'. map_to_graph sample_reasoner [sample_assertion] g' = Inr cs' \<and> \<not> is_semantic cs'"
    by simp_all
  then obtain cs' where "map_to_graph sample_reasoner [sample_assertion] g' = Inr cs'" "\<not> is_semantic cs'" by blast
  with run nodes show ?thesis by (intro exI conjI)
qed

text \<open>Two assertions about one subject the graph does not have cannot be reasoned over together: the
  reasoner proposes the node twice, and the ChangeSet refuses its own duplicate. As the evidence of both
  stays unconsumed, every later run of the connector fails in the same way.\<close>

theorem duplicate_subject_blocks_reasoning:
  assumes "assertions = as @ a # bs @ b # ds" "ca_subject_id a = ca_subject_id b"
    and "ca_subject_id a \<notin> nd_id ` set (g_nodes g)"
  shows "\<exists>e. map_to_graph r assertions g = Inl e"
proof (cases "map_to_graph r assertions g")
  case (Inr cs)
  note cs = map_to_graph_Inr [OF this]
  let ?absent = "filter (\<lambda>a. ca_subject_id a \<notin> nd_id ` set (g_nodes g))"
  have "mset (map ca_subject_id (absent_assertions assertions g)) = mset (map ca_subject_id (?absent assertions))"
    by (simp add: absent_assertions_def)
  then have "distinct (map ca_subject_id (absent_assertions assertions g)) \<longleftrightarrow>
      distinct (map ca_subject_id (?absent assertions))"
    by (rule mset_eq_imp_distinct_iff)
  moreover have "\<not> distinct (map ca_subject_id (?absent assertions))"
    using assms by auto
  ultimately have "\<not> distinct (map ca_subject_id (absent_assertions assertions g))" by simp
  then show ?thesis
    using cs(1,2) by (auto simp: changeset_ok_def mutations_distinct_def mutation_subjects_def)
qed simp

theorem duplicate_subject_blocks_reasoning_witness:
  "\<exists>e. map_to_graph sample_reasoner [sample_assertion, sample_assertion] sample_graph = Inl e"
  by (rule duplicate_subject_blocks_reasoning [of _ "[]" sample_assertion "[]" sample_assertion "[]"])
    (simp_all add: sample_assertion_def sample_graph_def sample_node_def)

end
