(* ===== verification/Provider_Profile.thy ===== *)
theory Provider_Profile
  imports Digest Evidence
begin

text \<open>
  Provider profiles and local bindings (\<open>capture/mcp/profile_models.py\<close>) and the selectors that read
  provider payloads and build arguments (\<open>capture/mcp/selectors.py\<close>). The JSON Schema library and
  \<open>datetime.fromisoformat\<close> are parameters. Freezing and copying of JSON values is the identity here, as
  values of the model are never shared.
\<close>

section \<open>Text\<close>

definition control_char :: "char \<Rightarrow> bool" where
  "control_char c \<longleftrightarrow> of_char c < (32 :: nat) \<or> of_char c = (127 :: nat)"

definition require_text :: "string \<Rightarrow> bool" where
  "require_text s \<longleftrightarrow> \<not> is_blank s \<and> \<not> list_ex control_char s"

definition profile_text :: "string \<Rightarrow> bool" where
  "profile_text s \<longleftrightarrow> 1 \<le> length s \<and> length s \<le> 256 \<and> list_ex (\<lambda>c. \<not> pattern_space c) s \<and> \<not> list_ex control_char s"

section \<open>Selector paths\<close>

fun split_on :: "char \<Rightarrow> string \<Rightarrow> string list" where
  "split_on sep [] = [[]]"
| "split_on sep (c # cs) =
     (if c = sep then [] # split_on sep cs
      else case split_on sep cs of [] \<Rightarrow> [[c]] | s # ss \<Rightarrow> (c # s) # ss)"

definition is_letter :: "char \<Rightarrow> bool" where
  "is_letter c \<longleftrightarrow>
     (let n = of_char c :: nat in (65 \<le> n \<and> n \<le> 90) \<or> (97 \<le> n \<and> n \<le> 122) \<or> n = 95)"

definition decimal_index :: "string \<Rightarrow> bool" where
  "decimal_index s \<longleftrightarrow> s = ''0'' \<or> (s \<noteq> [] \<and> hd s \<noteq> CHR ''0'' \<and> list_all is_digit s)"

definition selector_key :: "string \<Rightarrow> bool" where
  "selector_key s \<longleftrightarrow>
     s \<noteq> [] \<and> is_letter (hd s) \<and> list_all (\<lambda>c. is_letter c \<or> is_digit c \<or> c = CHR ''-'') (tl s)"

definition validate_selector_path :: "string \<Rightarrow> string res" where
  "validate_selector_path path =
     (if \<not> require_text path then Inl (ValueError ''invalid selector path'')
      else if path = ''$'' then Inr path
      else if length path > 256 \<or> \<not> starts_with ''$.'' path then Inl (ValueError ''invalid selector path'')
      else let segments = split_on (CHR ''.'') (drop 2 path) in
        if length segments > 32 \<or> [] \<in> set segments then Inl (ValueError ''invalid selector path'')
        else if list_all (\<lambda>s. decimal_index s \<or> (selector_key s \<and> \<not> starts_with ''__'' s)) segments
        then Inr path else Inl (ValueError ''invalid selector path''))"

section \<open>Transforms\<close>

datatype transform = To_String | To_Integer | To_Iso_Datetime | To_String_List | To_Canonical_Json | To_Sha256

datatype value_kind = Any | A_String | An_Integer | A_Number | A_List

definition TRANSFORM_INPUTS :: "transform \<Rightarrow> value_kind list" where
  "TRANSFORM_INPUTS t =
     (case t of
        To_String \<Rightarrow> [A_String, An_Integer, A_Number] | To_Integer \<Rightarrow> [A_String, An_Integer]
      | To_Iso_Datetime \<Rightarrow> [A_String] | To_String_List \<Rightarrow> [A_List] | To_Canonical_Json \<Rightarrow> [Any] | To_Sha256 \<Rightarrow> [Any])"

definition TRANSFORM_OUTPUTS :: "transform \<Rightarrow> value_kind" where
  "TRANSFORM_OUTPUTS t =
     (case t of To_Integer \<Rightarrow> An_Integer | To_String_List \<Rightarrow> A_List | _ \<Rightarrow> A_String)"

fun chain_error :: "value_kind \<Rightarrow> transform list \<Rightarrow> exn option" where
  "chain_error current [] = None"
| "chain_error current (t # ts) =
     (if current \<noteq> Any \<and> current \<notin> set (TRANSFORM_INPUTS t) \<and> Any \<notin> set (TRANSFORM_INPUTS t)
      then Some (ValueError ''incompatible selector transforms'')
      else chain_error (TRANSFORM_OUTPUTS t) ts)"

definition validate_transform_chain :: "transform list \<Rightarrow> transform list res" where
  "validate_transform_chain ts = (case chain_error Any ts of Some e \<Rightarrow> Inl e | None \<Rightarrow> Inr ts)"

record selector =
  sl_path :: string
  sl_transforms :: "transform list"
  sl_required :: bool

definition validate_selector :: "selector \<Rightarrow> selector res" where
  "validate_selector s =
     res_bind (validate_selector_path (sl_path s)) (\<lambda>_.
     res_bind (if length (sl_transforms s) > 8 then Inl (ValidationError ''transforms'')
               else validate_transform_chain (sl_transforms s)) (\<lambda>_. Inr s))"

definition integer_text :: "string \<Rightarrow> bool" where
  "integer_text s \<longleftrightarrow> decimal_index (if s \<noteq> [] \<and> hd s = CHR ''-'' then tl s else s)"

definition apply_transform :: "(string \<Rightarrow> string option) \<Rightarrow> transform \<Rightarrow> json \<Rightarrow> json option" where
  "apply_transform to_iso t v =
     (case t of
        To_String \<Rightarrow> (case v of JStr s \<Rightarrow> Some v | JInt i \<Rightarrow> Some (JStr (int_str i)) | JFloat l \<Rightarrow> Some (JStr l) | _ \<Rightarrow> None)
      | To_Integer \<Rightarrow>
          (case v of JInt i \<Rightarrow> Some v | JStr s \<Rightarrow> if integer_text s then Some (JInt (int_of_lexeme s)) else None
           | _ \<Rightarrow> None)
      | To_Iso_Datetime \<Rightarrow> (case v of JStr s \<Rightarrow> map_option JStr (to_iso s) | _ \<Rightarrow> None)
      | To_String_List \<Rightarrow>
          (case v of JArr vs \<Rightarrow> if list_all (\<lambda>x. case x of JStr _ \<Rightarrow> True | _ \<Rightarrow> False) vs then Some v else None
           | _ \<Rightarrow> None)
      | To_Canonical_Json \<Rightarrow> Some (JStr (dumps False v))
      | To_Sha256 \<Rightarrow>
          Some (JStr (''sha256:'' @ hexdigest (case v of JStr s \<Rightarrow> s | _ \<Rightarrow> dumps False v))))"

datatype select_error = Access | Missing_Path | Optional_Missing | Bad_Transform

fun walk :: "bool \<Rightarrow> string list \<Rightarrow> json \<Rightarrow> select_error + json" where
  "walk required [] v = Inr v"
| "walk required (segment # segments) v =
     (case v of
        JObj kvs \<Rightarrow>
          (case map_of kvs segment of
             None \<Rightarrow> Inl (if required then Missing_Path else Optional_Missing)
           | Some w \<Rightarrow> walk required segments w)
      | JArr vs \<Rightarrow>
          if segment = [] \<or> \<not> list_all is_digit segment \<or> length vs \<le> nat_of_digits segment then Inl Access
          else walk required segments (vs ! nat_of_digits segment)
      | _ \<Rightarrow> Inl Access)"

fun transform_all :: "(string \<Rightarrow> string option) \<Rightarrow> transform list \<Rightarrow> json \<Rightarrow> select_error + json" where
  "transform_all to_iso [] v = Inr v"
| "transform_all to_iso (t # ts) v =
     (case apply_transform to_iso t v of None \<Rightarrow> Inl Bad_Transform | Some w \<Rightarrow> transform_all to_iso ts w)"

definition select_result :: "(string \<Rightarrow> string option) \<Rightarrow> json \<Rightarrow> selector \<Rightarrow> select_error + json" where
  "select_result to_iso payload s =
     (case walk (sl_required s) (if sl_path s = ''$'' then [] else split_on (CHR ''.'') (drop 2 (sl_path s))) payload of
        Inl e \<Rightarrow> Inl e
      | Inr v \<Rightarrow> transform_all to_iso (sl_transforms s) v)"

definition select_value :: "(string \<Rightarrow> string option) \<Rightarrow> json \<Rightarrow> selector \<Rightarrow> json option res" where
  "select_value to_iso payload s =
     (case select_result to_iso payload s of
        Inr v \<Rightarrow> Inr (Some v)
      | Inl Optional_Missing \<Rightarrow> Inr None
      | Inl Bad_Transform \<Rightarrow> Inl (ValueError ''invalid selector transform'')
      | Inl Missing_Path \<Rightarrow> Inl (ValueError ''required selector path is missing'')
      | Inl Access \<Rightarrow> Inl (ValueError ''invalid selector access''))"

section \<open>Arguments\<close>

text \<open>Pydantic keeps which fields were given: \<open>None\<close> is a field that was not.\<close>

record argument_binding =
  ab_source :: string
  ab_value :: "json option"
  ab_field :: "string option option"

definition ARGUMENT_SOURCES :: "string list" where
  "ARGUMENT_SOURCES =
     [''constant'', ''scope'', ''cursor'', ''object_id'', ''object_version'', ''target_id'', ''before_version'', ''field'']"

definition argument_error :: "argument_binding \<Rightarrow> exn option" where
  "argument_error a =
     (if ab_source a \<notin> set ARGUMENT_SOURCES then Some (ValidationError ''source'')
      else if (case ab_field a of Some (Some f) \<Rightarrow> \<not> profile_text f \<or> \<not> require_text f | _ \<Rightarrow> False)
      then Some (ValidationError ''field'')
      else if ab_source a = ''field'' \<and> (ab_field a = None \<or> ab_field a = Some None)
      then Some (ValueError ''field source requires field'')
      else if ab_source a \<noteq> ''field'' \<and> ab_field a \<noteq> None
      then Some (ValueError ''field is only valid for field source'')
      else if ab_source a = ''constant'' \<and> ab_value a = None
      then Some (ValueError ''constant source requires value'')
      else if ab_source a \<noteq> ''constant'' \<and> ab_value a \<noteq> None
      then Some (ValueError ''value is only valid for constant source'')
      else None)"

definition bind_argument :: "json dict \<Rightarrow> argument_binding \<Rightarrow> json option" where
  "bind_argument context a =
     (if ab_source a = ''constant'' then Some (case ab_value a of None \<Rightarrow> JNull | Some v \<Rightarrow> v)
      else if ab_source a = ''field'' then
        (case ab_field a of
           Some (Some f) \<Rightarrow> (case map_of context ''fields'' of Some (JObj given) \<Rightarrow> map_of given f | _ \<Rightarrow> None)
         | _ \<Rightarrow> None)
      else map_of context (ab_source a))"

fun bind_all :: "json dict \<Rightarrow> argument_binding dict \<Rightarrow> json dict option" where
  "bind_all context [] = Some []"
| "bind_all context ((name, a) # as) =
     (case bind_argument context a of
        None \<Rightarrow> None
      | Some v \<Rightarrow> map_option ((#) (name, v)) (bind_all context as))"

definition bind_arguments :: "argument_binding dict \<Rightarrow> json dict \<Rightarrow> json dict res" where
  "bind_arguments bindings context =
     (case bind_all context bindings of
        None \<Rightarrow> Inl (ValueError ''invalid argument binding'') | Some arguments \<Rightarrow> Inr arguments)"

section \<open>Profiles\<close>

datatype capability_kind = Tool | Resource
datatype pagination = No_Pages | By_Cursor | By_Page

record read_operation =
  ro_semantic_name :: string
  ro_kind :: capability_kind
  ro_pagination :: pagination
  ro_arguments :: "argument_binding dict"
  ro_item_selector :: selector
  ro_next_cursor_selector :: "selector option"

record object_profile =
  op_discover_operation :: string
  op_fetch_operation :: string
  op_external_id :: selector
  op_external_version :: selector
  op_author :: selector
  op_observed_at :: selector
  op_locator :: selector
  op_parent_ref :: "selector option"
  op_acl :: "selector option"
  op_content :: "selector dict"

record write_operation =
  wo_semantic_name :: string
  wo_target_object :: string
  wo_target_id :: selector
  wo_before_version :: selector
  wo_allowed_fields :: "string list"
  wo_arguments :: "argument_binding dict"
  wo_input_schema :: "json dict"
  wo_result_version :: selector

record provider_profile =
  pp_id :: string
  pp_version :: string
  pp_display_name :: string
  pp_operations :: "read_operation dict"
  pp_objects :: "object_profile dict"
  pp_writes :: "write_operation dict"
  pp_redacted_paths :: "string list"

definition first_error :: "exn option list \<Rightarrow> exn option" where
  "first_error es = (case filter (\<lambda>e. e \<noteq> None) es of [] \<Rightarrow> None | e # _ \<Rightarrow> e)"

definition error_of :: "'a res \<Rightarrow> exn option" where
  "error_of r = (case r of Inl e \<Rightarrow> Some e | Inr _ \<Rightarrow> None)"

definition text_error :: "string \<Rightarrow> exn option" where
  "text_error s = (if profile_text s \<and> require_text s then None else Some (ValidationError ''text''))"

definition arguments_error :: "argument_binding dict \<Rightarrow> exn option" where
  "arguments_error d = first_error (concat (map (\<lambda>(name, a). [text_error name, argument_error a]) d))"

definition read_operation_error :: "read_operation \<Rightarrow> exn option" where
  "read_operation_error r =
     first_error
       [text_error (ro_semantic_name r), arguments_error (ro_arguments r),
        error_of (validate_selector (ro_item_selector r)),
        (case ro_next_cursor_selector r of None \<Rightarrow> None | Some s \<Rightarrow> error_of (validate_selector s)),
        (if ro_pagination r = No_Pages \<and> ro_next_cursor_selector r \<noteq> None
         then Some (ValueError ''non-paginated operation forbids next cursor selector'') else None),
        (if ro_pagination r \<noteq> No_Pages \<and> ro_next_cursor_selector r = None
         then Some (ValueError ''paginated operation requires next cursor selector'') else None)]"

definition object_profile_error :: "object_profile \<Rightarrow> exn option" where
  "object_profile_error ob =
     first_error
       ([text_error (op_discover_operation ob), text_error (op_fetch_operation ob)] @
        map (\<lambda>s. error_of (validate_selector s))
          ([op_external_id ob, op_external_version ob, op_author ob, op_observed_at ob, op_locator ob] @
           (case op_parent_ref ob of None \<Rightarrow> [] | Some s \<Rightarrow> [s]) @ (case op_acl ob of None \<Rightarrow> [] | Some s \<Rightarrow> [s])) @
        [if op_content ob = [] then Some (ValueError ''content requires at least one field'') else None] @
        concat (map (\<lambda>(name, s). [text_error name, error_of (validate_selector s)]) (op_content ob)))"

definition schema_error :: "(json \<Rightarrow> bool) \<Rightarrow> write_operation \<Rightarrow> exn option" where
  "schema_error check_schema w =
     (let schema = wo_input_schema w in
      if map_of schema ''type'' \<noteq> Some (JStr ''object'')
      then Some (ValueError ''write input schema must be a strict object schema'')
      else if map_of schema ''additionalProperties'' \<noteq> Some (JBool False)
      then Some (ValueError ''write input schema must forbid additional properties'')
      else if (case map_of schema ''properties'' of
                 Some (JObj kvs) \<Rightarrow> fst ` set kvs \<noteq> set (wo_allowed_fields w) | _ \<Rightarrow> True)
      then Some (ValueError ''write input schema fields must match allowed fields'')
      else if (case map_of schema ''required'' of
                 None \<Rightarrow> False
               | Some (JArr vs) \<Rightarrow> \<not> set vs \<subseteq> JStr ` set (wo_allowed_fields w)
               | _ \<Rightarrow> True)
      then Some (ValueError ''write input schema has invalid required fields'')
      else if \<not> check_schema (JObj schema) then Some (ValueError ''invalid write input schema'')
      else None)"

definition write_operation_error :: "(json \<Rightarrow> bool) \<Rightarrow> write_operation \<Rightarrow> exn option" where
  "write_operation_error check_schema w =
     first_error
       ([text_error (wo_semantic_name w), text_error (wo_target_object w)] @
        map (\<lambda>s. error_of (validate_selector s)) [wo_target_id w, wo_before_version w, wo_result_version w] @
        [(if wo_allowed_fields w = [] then Some (ValueError ''write operation requires allowed fields'') else None)] @
        map text_error (wo_allowed_fields w) @
        [(if wo_arguments w = [] then Some (ValidationError ''arguments'') else None),
         arguments_error (wo_arguments w),
         (if \<not> sl_required (wo_target_id w) \<or> \<not> sl_required (wo_before_version w) \<or> \<not> sl_required (wo_result_version w)
          then Some (ValueError ''write selectors must be required'') else None),
         schema_error check_schema w,
         (if list_ex (\<lambda>(_, a). ab_source a = ''field'' \<and>
               (case ab_field a of Some (Some f) \<Rightarrow> f \<notin> set (wo_allowed_fields w) | _ \<Rightarrow> True)) (wo_arguments w)
          then Some (ValueError ''write argument field is not allowed'') else None)])"

definition profile_error :: "(json \<Rightarrow> bool) \<Rightarrow> provider_profile \<Rightarrow> exn option" where
  "profile_error check_schema p =
     first_error
       ([text_error (pp_id p), text_error (pp_version p), text_error (pp_display_name p),
         (if pp_operations p = [] then Some (ValueError ''profile requires operations'') else None)] @
        concat (map (\<lambda>(name, r). [text_error name, read_operation_error r]) (pp_operations p)) @
        [(if pp_objects p = [] then Some (ValueError ''profile requires objects'') else None)] @
        concat (map (\<lambda>(name, ob). [text_error name, object_profile_error ob]) (pp_objects p)) @
        concat (map (\<lambda>(name, w). [text_error name, write_operation_error check_schema w]) (pp_writes p)) @
        map (\<lambda>path. error_of (validate_selector_path path)) (pp_redacted_paths p) @
        [(if list_ex (\<lambda>(name, r). name \<noteq> ro_semantic_name r) (pp_operations p)
          then Some (ValueError ''operation mapping key must match semantic name'') else None),
         (if list_ex (\<lambda>(name, w). name \<noteq> wo_semantic_name w) (pp_writes p)
          then Some (ValueError ''write mapping key must match semantic name'') else None),
         (if list_ex (\<lambda>(_, ob). op_discover_operation ob \<notin> fst ` set (pp_operations p)) (pp_objects p)
          then Some (ValueError ''object references unknown discover operation'') else None),
         (if list_ex (\<lambda>(_, ob). op_fetch_operation ob \<notin> fst ` set (pp_operations p)) (pp_objects p)
          then Some (ValueError ''object references unknown fetch operation'') else None)])"

definition validate_profile :: "(json \<Rightarrow> bool) \<Rightarrow> provider_profile \<Rightarrow> provider_profile res" where
  "validate_profile check_schema p = (case profile_error check_schema p of Some e \<Rightarrow> Inl e | None \<Rightarrow> Inr p)"

section \<open>Bindings\<close>

record provider_binding =
  pb_profile_id :: string
  pb_profile_version :: string
  pb_tools :: "string dict"
  pb_resources :: "string dict"
  pb_actor_principals :: "string list dict"

definition binding_error :: "provider_binding \<Rightarrow> exn option" where
  "binding_error b =
     first_error
       ([text_error (pb_profile_id b), text_error (pb_profile_version b)] @
        concat (map (\<lambda>(name, provider_name). [text_error name, text_error provider_name])
          (pb_tools b @ pb_resources b)) @
        concat (map (\<lambda>(actor, ps). text_error actor # map text_error ps) (pb_actor_principals b)))"

definition validate_binding :: "provider_binding \<Rightarrow> provider_binding res" where
  "validate_binding b = (case binding_error b of Some e \<Rightarrow> Inl e | None \<Rightarrow> Inr b)"

definition kind_names :: "capability_kind \<Rightarrow> provider_profile \<Rightarrow> string list" where
  "kind_names k p = map fst (filter (\<lambda>(_, r). ro_kind r = k) (pp_operations p))"

definition validate_against :: "provider_binding \<Rightarrow> provider_profile \<Rightarrow> unit res" where
  "validate_against b p =
     (let expected_tools = kind_names Tool p @ map fst (pp_writes p);
          expected_resources = kind_names Resource p;
          provided = map fst (pb_tools b) @ map fst (pb_resources b);
          expected = expected_tools @ expected_resources in
      if pb_profile_id b \<noteq> pp_id p then Inl (ValueError ''profile identifier mismatch'')
      else if pb_profile_version b \<noteq> pp_version p then Inl (ValueError ''profile version mismatch'')
      else if \<not> set provided \<subseteq> set expected then Inl (ValueError ''unknown operation mapping'')
      else if set (map fst (pb_tools b)) \<inter> set expected_resources \<noteq> {} \<or>
              set (map fst (pb_resources b)) \<inter> set expected_tools \<noteq> {}
      then Inl (ValueError ''operation mapping has wrong capability kind'')
      else if \<not> set expected \<subseteq> set provided then Inl (ValueError ''missing operation mapping'')
      else
        let tool = (\<lambda>name. map_of (pb_tools b) name) in
        if tool ` set (kind_names Tool p) \<inter> tool ` fst ` set (pp_writes p) \<noteq> {}
        then Inl (ValueError ''read and write capabilities overlap'')
        else Inr ())"

definition assert_capabilities :: "provider_binding \<Rightarrow> string list \<Rightarrow> string list \<Rightarrow> string list \<Rightarrow> unit res" where
  "assert_capabilities b tools resources resource_templates =
     (if list_ex (\<lambda>(_, name). name \<notin> set tools) (pb_tools b) then Inl (ValueError ''missing bound tool'')
      else if list_ex (\<lambda>(_, name).
          name \<notin> set (if CHR ''{'' \<in> set name \<or> CHR ''}'' \<in> set name then resource_templates else resources))
          (pb_resources b)
      then Inl (ValueError ''missing bound resource'')
      else Inr ())"

section \<open>Properties\<close>

lemma name_partition:
  "T \<union> R \<subseteq> A \<union> W \<union> U \<Longrightarrow> T \<inter> U = {} \<Longrightarrow> R \<inter> (A \<union> W) = {} \<Longrightarrow> A \<union> W \<union> U \<subseteq> T \<union> R \<Longrightarrow> T = A \<union> W \<and> R = U"
  by blast

text \<open>A binding that passes validation maps every declared operation and nothing else, tools to tools
  and resources to resources, and no tool that a read operation calls is one that a write operation
  calls: reading can never trigger an external write.\<close>

theorem binding_separates_writes:
  assumes "validate_against b p = Inr ()"
  shows "fst ` set (pb_tools b) = set (kind_names Tool p) \<union> fst ` set (pp_writes p) \<and>
    fst ` set (pb_resources b) = set (kind_names Resource p) \<and>
    fst ` set (pb_tools b) \<inter> fst ` set (pb_resources b) = {} \<and>
    set (kind_names Tool p) \<inter> fst ` set (pp_writes p) = {} \<and>
    (\<forall>r \<in> set (kind_names Tool p). \<forall>w \<in> fst ` set (pp_writes p). \<exists>x y.
       map_of (pb_tools b) r = Some x \<and> map_of (pb_tools b) w = Some y \<and> x \<noteq> y)"
proof -
  let ?tools = "fst ` set (pb_tools b)" and ?resources = "fst ` set (pb_resources b)"
  let ?reads = "set (kind_names Tool p)" and ?writes = "fst ` set (pp_writes p)" and ?others = "set (kind_names Resource p)"
  from assms have sub: "?tools \<union> ?resources \<subseteq> ?reads \<union> ?writes \<union> ?others" "?tools \<inter> ?others = {}"
    "?resources \<inter> (?reads \<union> ?writes) = {}" "?reads \<union> ?writes \<union> ?others \<subseteq> ?tools \<union> ?resources"
    and apart: "map_of (pb_tools b) ` ?reads \<inter> map_of (pb_tools b) ` ?writes = {}"
    by (simp_all add: validate_against_def Let_def Un_assoc split: if_splits)
  from name_partition [OF sub] have eqs: "?tools = ?reads \<union> ?writes" "?resources = ?others" by simp_all
  have "?reads \<inter> ?writes = {}" using apart by blast
  moreover have "\<exists>x y. map_of (pb_tools b) r = Some x \<and> map_of (pb_tools b) w = Some y \<and> x \<noteq> y"
    if "r \<in> ?reads" "w \<in> ?writes" for r w
  proof -
    have "r \<in> ?tools" "w \<in> ?tools" using eqs(1) that by auto
    then obtain x y where "map_of (pb_tools b) r = Some x" "map_of (pb_tools b) w = Some y"
      by (metis map_of_eq_None_iff not_None_eq)
    moreover have "map_of (pb_tools b) r \<noteq> map_of (pb_tools b) w"
    proof
      assume "map_of (pb_tools b) r = map_of (pb_tools b) w"
      then have "map_of (pb_tools b) r \<in> map_of (pb_tools b) ` ?reads \<inter> map_of (pb_tools b) ` ?writes"
        using that by (metis IntI imageI)
      then show False unfolding apart by simp
    qed
    ultimately show ?thesis by simp
  qed
  moreover have "?tools \<inter> ?resources = {}" unfolding eqs(2) by (rule sub(2))
  ultimately show ?thesis using eqs by simp
qed

definition plain_selector :: "string \<Rightarrow> selector" where
  "plain_selector path = \<lparr>sl_path = path, sl_transforms = [], sl_required = True\<rparr>"

definition sample_write :: write_operation where
  "sample_write =
     \<lparr>wo_semantic_name = ''update'', wo_target_object = ''issue'', wo_target_id = plain_selector ''$.id'',
      wo_before_version = plain_selector ''$.version'', wo_allowed_fields = [''title''],
      wo_arguments =
        [(''id'', \<lparr>ab_source = ''target_id'', ab_value = None, ab_field = None\<rparr>),
         (''version'', \<lparr>ab_source = ''before_version'', ab_value = None, ab_field = None\<rparr>),
         (''title'', \<lparr>ab_source = ''field'', ab_value = None, ab_field = Some (Some ''title'')\<rparr>)],
      wo_input_schema =
        [(''type'', JStr ''object''), (''additionalProperties'', JBool False),
         (''properties'', JObj [(''title'', JObj [(''type'', JStr ''string'')])])],
      wo_result_version = plain_selector ''$.version''\<rparr>"

definition sample_read :: "string \<Rightarrow> read_operation" where
  "sample_read name =
     \<lparr>ro_semantic_name = name, ro_kind = Tool, ro_pagination = No_Pages, ro_arguments = [],
      ro_item_selector = plain_selector ''$'', ro_next_cursor_selector = None\<rparr>"

definition sample_profile :: provider_profile where
  "sample_profile =
     \<lparr>pp_id = ''tracker'', pp_version = ''1'', pp_display_name = ''Tracker'',
      pp_operations = [(''list'', sample_read ''list''), (''get'', sample_read ''get'')],
      pp_objects =
        [(''issue'',
          \<lparr>op_discover_operation = ''list'', op_fetch_operation = ''get'', op_external_id = plain_selector ''$.id'',
           op_external_version = plain_selector ''$.version'', op_author = plain_selector ''$.author'',
           op_observed_at = plain_selector ''$.at'', op_locator = plain_selector ''$.url'', op_parent_ref = None,
           op_acl = None, op_content = [(''title'', plain_selector ''$.title'')]\<rparr>)],
      pp_writes = [(''update'', sample_write)], pp_redacted_paths = []\<rparr>"

definition sample_binding :: provider_binding where
  "sample_binding =
     \<lparr>pb_profile_id = ''tracker'', pb_profile_version = ''1'',
      pb_tools = [(''list'', ''issues.list''), (''get'', ''issues.get''), (''update'', ''issues.update'')],
      pb_resources = [], pb_actor_principals = [(''ana'', [''ana@tracker'']), (''bo'', [''bo@tracker''])]\<rparr>"

lemma sample_profile_valid:
  "validate_profile (\<lambda>_. True) sample_profile = Inr sample_profile" "validate_binding sample_binding = Inr sample_binding"
  "validate_against sample_binding sample_profile = Inr ()"
  by code_simp+

theorem binding_separates_writes_witness:
  "\<exists>x y. map_of (pb_tools sample_binding) ''get'' = Some x \<and> map_of (pb_tools sample_binding) ''update'' = Some y \<and> x \<noteq> y"
proof -
  have "''get'' \<in> set (kind_names Tool sample_profile)" "''update'' \<in> fst ` set (pp_writes sample_profile)"
    by code_simp+
  with binding_separates_writes [OF sample_profile_valid(3)] show ?thesis by blast
qed

end
