(* ===== verification/Mutation_Models.thy ===== *)
theory Mutation_Models
  imports Provider_Profile Detectors
begin

text \<open>
  The records of an external write (\<open>mutations/models.py\<close>): the plan, its approval, the receipt of its
  execution, and the identities and hashes that bind them to one another. \<open>isoformat\<close> is the rendering of a
  UTC time that \<open>isoformat\<close> and Pydantic agree on. A frozen set is the list of its elements in the order in
  which the process iterates over it.
\<close>

section \<open>Field checks\<close>

definition mutation_text :: "string \<Rightarrow> bool" where
  "mutation_text s \<longleftrightarrow> \<not> is_blank s \<and> length s \<le> 2048 \<and> \<not> list_ex control_char s"

definition tagged_hash :: "string \<Rightarrow> string \<Rightarrow> bool" where
  "tagged_hash tag s \<longleftrightarrow> starts_with tag s \<and> hex64 (drop (length tag) s)"

definition provenance :: "string list \<Rightarrow> bool" where
  "provenance values \<longleftrightarrow> values \<noteq> [] \<and> sorted_set values = values \<and> list_all mutation_text values"

definition field_error :: "bool \<Rightarrow> exn option" where
  "field_error ok = (if ok then None else Some (ValidationError ''mutation field''))"

definition when_error :: "bool \<Rightarrow> string \<Rightarrow> exn option" where
  "when_error wrong message = (if wrong then Some (ValueError message) else None)"

text \<open>Python's \<open>==\<close> on JSON values: the order of keys does not matter and a truth value is an integer. A
  float is its shortest rendering; that \<open>1.0 == 1\<close> is not part of the model.\<close>

fun untag :: "json \<Rightarrow> json" where
  "untag (JBool b) = JInt (if b then 1 else 0)"
| "untag (JArr vs) = JArr (map untag vs)"
| "untag (JObj kvs) = JObj (map (\<lambda>(k, v). (k, untag v)) kvs)"
| "untag v = v"

definition json_equal :: "json dict \<Rightarrow> json dict \<Rightarrow> bool" where
  "json_equal a b \<longleftrightarrow> canon (untag (JObj a)) = canon (untag (JObj b))"

definition canonical_hash :: "json dict \<Rightarrow> string" where
  "canonical_hash payload = ''sha256:'' @ hexdigest (dumps False (JObj payload))"

definition strs :: "string list \<Rightarrow> json" where
  "strs xs = JArr (map JStr xs)"

definition opt_str :: "string option \<Rightarrow> json" where
  "opt_str x = (case x of None \<Rightarrow> JNull | Some s \<Rightarrow> JStr s)"

text \<open>Fifteen minutes in microseconds.\<close>

definition MAX_WINDOW :: int where
  "MAX_WINDOW = 900000000"

section \<open>Records\<close>

record remote_object =
  rm_connector_id :: string
  rm_profile_id :: string
  rm_profile_version :: string
  rm_object_type :: string
  rm_id :: string
  rm_version :: string
  rm_content :: "json dict"

record write_plan =
  wp_id :: string
  wp_case_id :: string
  wp_connector_id :: string
  wp_profile_id :: string
  wp_profile_version :: string
  wp_object_type :: string
  wp_target_ref :: string
  wp_binding_hash :: string
  wp_write_contract_hash :: string
  wp_operation :: string
  wp_provider_operation :: string
  wp_resolution_action :: ResolutionAction
  wp_target_id :: string
  wp_before_version :: string
  wp_before :: "json dict"
  wp_after :: "json dict"
  wp_arguments :: "json dict"
  wp_evidence_refs :: "string list"
  wp_conflicting_authors :: "string list"
  wp_created_by :: string
  wp_created_by_aliases :: "string list"
  wp_created_at :: datetime
  wp_expires_at :: datetime

record approval_record =
  ap_id :: string
  ap_plan_id :: string
  ap_plan_hash :: string
  ap_target_version :: string
  ap_actor :: string
  ap_actor_aliases :: "string list"
  ap_plan_created_at :: datetime
  ap_plan_expires_at :: datetime
  ap_approved_at :: datetime
  ap_expires_at :: datetime

datatype receipt_status = Succeeded | Rejected | Failed
datatype write_failure = Target_Changed | Permission_Denied | Provider_Failure

record execution_receipt =
  xr_id :: string
  xr_plan_id :: string
  xr_plan_hash :: string
  xr_approval_id :: string
  xr_target_version :: string
  xr_executed_by :: string
  xr_status :: receipt_status
  xr_attempted_at :: datetime
  xr_completed_at :: datetime
  xr_resulting_version :: "string option"
  xr_evidence_ref :: "string option"
  xr_redacted_error :: "write_failure option"

record write_result =
  wr_resulting_version :: string
  wr_redacted_result :: "json dict"

definition receipt_status_value :: "receipt_status \<Rightarrow> string" where
  "receipt_status_value s = (case s of Succeeded \<Rightarrow> ''succeeded'' | Rejected \<Rightarrow> ''rejected'' | Failed \<Rightarrow> ''failed'')"

definition write_failure_value :: "write_failure \<Rightarrow> string" where
  "write_failure_value f =
     (case f of Target_Changed \<Rightarrow> ''target_changed'' | Permission_Denied \<Rightarrow> ''permission_denied''
      | Provider_Failure \<Rightarrow> ''provider_failure'')"

definition validate_remote_object :: "remote_object \<Rightarrow> remote_object res" where
  "validate_remote_object r =
     (if list_all mutation_text
           [rm_connector_id r, rm_profile_id r, rm_profile_version r, rm_object_type r, rm_id r, rm_version r]
      then Inr r else Inl (ValidationError ''remote object field''))"

definition validate_write_result :: "write_result \<Rightarrow> write_result res" where
  "validate_write_result r =
     (if mutation_text (wr_resulting_version r) then Inr r else Inl (ValidationError ''resulting version''))"

section \<open>Plans\<close>

definition plan_material :: "(datetime \<Rightarrow> string) \<Rightarrow> write_plan \<Rightarrow> json dict" where
  "plan_material isoformat p =
     [(''schema_version'', JInt 1), (''case_id'', JStr (wp_case_id p)), (''connector_id'', JStr (wp_connector_id p)),
      (''profile_id'', JStr (wp_profile_id p)), (''profile_version'', JStr (wp_profile_version p)),
      (''object_type'', JStr (wp_object_type p)), (''target_ref'', JStr (wp_target_ref p)),
      (''binding_hash'', JStr (wp_binding_hash p)), (''write_contract_hash'', JStr (wp_write_contract_hash p)),
      (''operation'', JStr (wp_operation p)), (''provider_operation'', JStr (wp_provider_operation p)),
      (''resolution_action'', JStr (resolution_action_value (wp_resolution_action p))),
      (''target_id'', JStr (wp_target_id p)), (''before_version'', JStr (wp_before_version p)),
      (''before'', JObj (wp_before p)), (''after'', JObj (wp_after p)), (''arguments'', JObj (wp_arguments p)),
      (''evidence_refs'', strs (wp_evidence_refs p)), (''conflicting_authors'', strs (wp_conflicting_authors p)),
      (''created_by'', JStr (wp_created_by p)), (''created_by_aliases'', strs (wp_created_by_aliases p)),
      (''created_at'', JStr (isoformat (wp_created_at p))), (''expires_at'', JStr (isoformat (wp_expires_at p)))]"

definition plan_hash :: "(datetime \<Rightarrow> string) \<Rightarrow> write_plan \<Rightarrow> string" where
  "plan_hash isoformat p = canonical_hash (plan_material isoformat p)"

definition write_plan_id :: "json dict \<Rightarrow> string" where
  "write_plan_id material = ''write-plan:'' @ canonical_hash material"

definition plan_error :: "(datetime \<Rightarrow> string) \<Rightarrow> write_plan \<Rightarrow> exn option" where
  "plan_error isoformat p =
     first_error
       [field_error (tagged_hash ''write-plan:sha256:'' (wp_id p)),
        field_error (tagged_hash ''sha256:'' (wp_binding_hash p)),
        field_error (tagged_hash ''sha256:'' (wp_write_contract_hash p)),
        field_error (list_all mutation_text
          [wp_case_id p, wp_connector_id p, wp_profile_id p, wp_profile_version p, wp_object_type p, wp_target_ref p,
           wp_operation p, wp_provider_operation p, wp_target_id p, wp_before_version p, wp_created_by p]),
        field_error (provenance (wp_evidence_refs p)), field_error (provenance (wp_conflicting_authors p)),
        field_error (provenance (wp_created_by_aliases p)),
        when_error (wp_id p \<noteq> ''write-plan:'' @ plan_hash isoformat p) ''write plan identifier does not match canonical hash'',
        when_error (wp_expires_at p \<le> wp_created_at p) ''write plan expiry must follow creation'',
        when_error (wp_expires_at p - wp_created_at p > MAX_WINDOW) ''write plan window exceeds maximum'',
        when_error (wp_created_by p \<notin> set (wp_created_by_aliases p)) ''write plan aliases omit creator'',
        when_error (wp_before p = [] \<or> wp_after p = [] \<or> wp_arguments p = [] \<or> json_equal (wp_before p) (wp_after p))
          ''write plan must describe one exact change'']"

definition validate_plan :: "(datetime \<Rightarrow> string) \<Rightarrow> write_plan \<Rightarrow> write_plan res" where
  "validate_plan isoformat p = (case plan_error isoformat p of Some e \<Rightarrow> Inl e | None \<Rightarrow> Inr p)"

section \<open>Approvals\<close>

definition approval_material :: "(datetime \<Rightarrow> string) \<Rightarrow> approval_record \<Rightarrow> json dict" where
  "approval_material isoformat a =
     [(''schema_version'', JInt 1), (''plan_id'', JStr (ap_plan_id a)), (''plan_hash'', JStr (ap_plan_hash a)),
      (''target_version'', JStr (ap_target_version a)), (''actor'', JStr (ap_actor a)),
      (''actor_aliases'', strs (ap_actor_aliases a)),
      (''plan_created_at'', JStr (isoformat (ap_plan_created_at a))), (''plan_expires_at'', JStr (isoformat (ap_plan_expires_at a))),
      (''approved_at'', JStr (isoformat (ap_approved_at a))), (''expires_at'', JStr (isoformat (ap_expires_at a))),
      (''confirmation_method'', JStr ''interactive'')]"

definition approval_id :: "json dict \<Rightarrow> string" where
  "approval_id material = ''approval:'' @ canonical_hash material"

definition approval_error :: "(datetime \<Rightarrow> string) \<Rightarrow> approval_record \<Rightarrow> exn option" where
  "approval_error isoformat a =
     first_error
       [field_error (tagged_hash ''approval:sha256:'' (ap_id a)),
        field_error (tagged_hash ''write-plan:sha256:'' (ap_plan_id a)),
        field_error (tagged_hash ''sha256:'' (ap_plan_hash a)),
        field_error (mutation_text (ap_target_version a)), field_error (mutation_text (ap_actor a)),
        field_error (provenance (ap_actor_aliases a)),
        when_error (ap_id a \<noteq> approval_id (approval_material isoformat a)) ''approval identifier does not match canonical hash'',
        when_error (ap_actor a \<notin> set (ap_actor_aliases a)) ''approval aliases omit actor'',
        when_error (ap_plan_id a \<noteq> ''write-plan:'' @ ap_plan_hash a) ''approval plan identity does not match plan hash'',
        when_error (ap_plan_expires_at a \<le> ap_plan_created_at a) ''approval plan window is invalid'',
        when_error (ap_approved_at a < ap_plan_created_at a \<or> ap_plan_expires_at a \<le> ap_approved_at a)
          ''approval time is outside plan window'',
        when_error (ap_expires_at a \<le> ap_approved_at a) ''approval expiry must follow approval'',
        when_error (ap_expires_at a - ap_approved_at a > MAX_WINDOW) ''approval window exceeds maximum'',
        when_error (ap_expires_at a > ap_plan_expires_at a) ''approval outlives plan'']"

definition validate_approval :: "(datetime \<Rightarrow> string) \<Rightarrow> approval_record \<Rightarrow> approval_record res" where
  "validate_approval isoformat a = (case approval_error isoformat a of Some e \<Rightarrow> Inl e | None \<Rightarrow> Inr a)"

section \<open>Receipts\<close>

definition receipt_material :: "(datetime \<Rightarrow> string) \<Rightarrow> execution_receipt \<Rightarrow> json dict" where
  "receipt_material isoformat r =
     [(''schema_version'', JInt 1), (''plan_id'', JStr (xr_plan_id r)), (''plan_hash'', JStr (xr_plan_hash r)),
      (''approval_id'', JStr (xr_approval_id r)), (''target_version'', JStr (xr_target_version r)),
      (''executed_by'', JStr (xr_executed_by r)), (''status'', JStr (receipt_status_value (xr_status r))),
      (''attempted_at'', JStr (isoformat (xr_attempted_at r))), (''completed_at'', JStr (isoformat (xr_completed_at r))),
      (''resulting_version'', opt_str (xr_resulting_version r)), (''evidence_ref'', opt_str (xr_evidence_ref r)),
      (''redacted_error'', opt_str (map_option write_failure_value (xr_redacted_error r)))]"

definition receipt_id :: "json dict \<Rightarrow> string" where
  "receipt_id material = ''receipt:'' @ canonical_hash material"

definition receipt_error :: "(datetime \<Rightarrow> string) \<Rightarrow> execution_receipt \<Rightarrow> exn option" where
  "receipt_error isoformat r =
     first_error
       [field_error (tagged_hash ''receipt:sha256:'' (xr_id r)),
        field_error (tagged_hash ''write-plan:sha256:'' (xr_plan_id r)),
        field_error (tagged_hash ''sha256:'' (xr_plan_hash r)),
        field_error (tagged_hash ''approval:sha256:'' (xr_approval_id r)),
        field_error (mutation_text (xr_target_version r)), field_error (mutation_text (xr_executed_by r)),
        field_error (case xr_resulting_version r of None \<Rightarrow> True | Some v \<Rightarrow> mutation_text v),
        field_error (case xr_evidence_ref r of None \<Rightarrow> True | Some e \<Rightarrow> tagged_hash ''evidence:mcp-write:'' e),
        when_error (xr_id r \<noteq> receipt_id (receipt_material isoformat r)) ''receipt identifier does not match canonical hash'',
        when_error (xr_completed_at r < xr_attempted_at r) ''receipt completion precedes attempt'',
        (if xr_status r = Succeeded
         then when_error (xr_resulting_version r = None \<or> xr_evidence_ref r = None \<or> xr_redacted_error r \<noteq> None)
           ''successful receipt has incomplete result''
         else when_error (xr_resulting_version r \<noteq> None \<or> xr_evidence_ref r \<noteq> None \<or> xr_redacted_error r = None)
           ''unsuccessful receipt has invalid result'')]"

definition validate_receipt :: "(datetime \<Rightarrow> string) \<Rightarrow> execution_receipt \<Rightarrow> execution_receipt res" where
  "validate_receipt isoformat r = (case receipt_error isoformat r of Some e \<Rightarrow> Inl e | None \<Rightarrow> Inr r)"

section \<open>Hashes of the provider contract\<close>

definition transform_name :: "transform \<Rightarrow> string" where
  "transform_name t =
     (case t of To_String \<Rightarrow> ''string'' | To_Integer \<Rightarrow> ''integer'' | To_Iso_Datetime \<Rightarrow> ''iso_datetime''
      | To_String_List \<Rightarrow> ''string_list'' | To_Canonical_Json \<Rightarrow> ''canonical_json'' | To_Sha256 \<Rightarrow> ''sha256'')"

definition selector_dump :: "selector \<Rightarrow> json" where
  "selector_dump s =
     JObj [(''path'', JStr (sl_path s)), (''transforms'', strs (map transform_name (sl_transforms s))),
           (''required'', JBool (sl_required s))]"

definition argument_dump :: "argument_binding \<Rightarrow> json" where
  "argument_dump a =
     JObj ((''source'', JStr (ab_source a)) #
       (if ab_source a = ''constant'' then [(''value'', case ab_value a of None \<Rightarrow> JNull | Some v \<Rightarrow> v)] else []) @
       (if ab_source a = ''field'' then [(''field'', opt_str (case ab_field a of None \<Rightarrow> None | Some f \<Rightarrow> f))] else []))"

definition write_operation_dump :: "write_operation \<Rightarrow> json" where
  "write_operation_dump w =
     JObj [(''semantic_name'', JStr (wo_semantic_name w)), (''target_object'', JStr (wo_target_object w)),
       (''target_id'', selector_dump (wo_target_id w)), (''before_version'', selector_dump (wo_before_version w)),
       (''allowed_fields'', strs (wo_allowed_fields w)),
       (''arguments'', JObj (map (\<lambda>(name, a). (name, argument_dump a)) (wo_arguments w))),
       (''input_schema'', JObj (wo_input_schema w)), (''result_version'', selector_dump (wo_result_version w))]"

definition binding_dump :: "provider_binding \<Rightarrow> json dict" where
  "binding_dump b =
     [(''profile_id'', JStr (pb_profile_id b)), (''profile_version'', JStr (pb_profile_version b)),
      (''tools'', JObj (map (\<lambda>(k, v). (k, JStr v)) (pb_tools b))),
      (''resources'', JObj (map (\<lambda>(k, v). (k, JStr v)) (pb_resources b))),
      (''actor_principals'', JObj (map (\<lambda>(k, vs). (k, strs (sort vs))) (pb_actor_principals b)))]"

definition provider_binding_hash :: "provider_binding \<Rightarrow> string res" where
  "provider_binding_hash b = res_bind (validate_binding b) (\<lambda>b. Inr (canonical_hash (binding_dump b)))"

definition contract_material :: "provider_profile \<Rightarrow> provider_binding \<Rightarrow> string \<Rightarrow> json dict res" where
  "contract_material profile b operation_name =
     (case (map_of (pp_writes profile) operation_name, map_of (pb_tools b) operation_name) of
        (Some w, Some tool) \<Rightarrow>
          Inr [(''profile_id'', JStr (pp_id profile)), (''profile_version'', JStr (pp_version profile)),
            (''semantic_name'', JStr operation_name), (''provider_operation'', JStr tool),
            (''operation'', write_operation_dump w)]
      | _ \<Rightarrow> Inl (KeyError operation_name))"

definition provider_write_contract_hash ::
  "(json \<Rightarrow> bool) \<Rightarrow> provider_profile \<Rightarrow> provider_binding \<Rightarrow> string \<Rightarrow> string res" where
  "provider_write_contract_hash check_schema profile b operation_name =
     res_bind (validate_profile check_schema profile) (\<lambda>profile.
     res_bind (validate_binding b) (\<lambda>b.
     res_bind (validate_against b profile) (\<lambda>_.
     res_bind (contract_material profile b operation_name) (\<lambda>material.
     Inr (canonical_hash material)))))"

definition identity_aliases_for :: "string list dict \<Rightarrow> string \<Rightarrow> string list \<Rightarrow> string list res" where
  "identity_aliases_for aliases_by_actor actor provider_principals =
     (case map_of aliases_by_actor actor of
        None \<Rightarrow> Inl (ValueError ''invalid identity aliases'')
      | Some aliases \<Rightarrow>
          if list_ex is_blank aliases then Inl (ValueError ''invalid identity aliases'')
          else if actor \<notin> set aliases \<or> \<not> set provider_principals \<subseteq> set aliases
          then Inl (ValueError ''identity aliases omit authenticated identities'')
          else Inr (sorted_set aliases))"

lemma first_error_None [simp]: "first_error es = None \<longleftrightarrow> (\<forall>e \<in> set es. e = None)"
  by (induction es) (auto simp: first_error_def)

lemma error_None [simp]: "field_error ok = None \<longleftrightarrow> ok" "when_error wrong message = None \<longleftrightarrow> \<not> wrong"
  by (simp_all add: field_error_def when_error_def)

lemma tagged_canonical [simp]:
  "tagged_hash ''sha256:'' (canonical_hash m)" "tagged_hash ''write-plan:sha256:'' (write_plan_id m)"
  "tagged_hash ''approval:sha256:'' (approval_id m)" "tagged_hash ''receipt:sha256:'' (receipt_id m)"
  by (simp_all add: tagged_hash_def canonical_hash_def write_plan_id_def approval_id_def receipt_id_def starts_with_def
      hex64_hexdigest)

end
