(* ===== verification/Receipt_Store.thy ===== *)
theory Receipt_Store
  imports Txn_Handle Mutation_Models
begin

text \<open>
  Claims and receipts of external writes (\<open>storage/jsonl/receipt_store.py\<close>): before the provider is called a
  plan and its approval are claimed, and at most one receipt completes a claim. The state is the content
  of the file, whose bytes are UTF-8: a carriage return or newline in them is one of the text.
  \<open>read_claim\<close> and \<open>read_completion\<close> are \<open>model_validate_json\<close> of the two line models (\<open>None\<close> is the
  validation error) and belong to Pydantic.
\<close>

section \<open>Lines\<close>

text \<open>\<open>bytes.splitlines(keepends=True)\<close> ends lines at newlines and carriage returns only.\<close>

fun byte_lines :: "string \<Rightarrow> string list" where
  "byte_lines [] = []"
| "byte_lines [c] = [[c]]"
| "byte_lines (c # d # s) =
     (if c = CHR 0x0A then [c] # byte_lines (d # s)
      else if c = CHR 0x0D then (if d = CHR 0x0A then [c, d] # byte_lines s else [c] # byte_lines (d # s))
      else (case byte_lines (d # s) of [] \<Rightarrow> [[c]] | l # ls \<Rightarrow> (c # l) # ls))"

type_synonym write_key = "string \<times> string"

record claim =
  cl_plan_id :: string
  cl_approval_id :: string
  cl_actor :: string
  cl_claimed_at :: datetime

datatype receipt_entry = Claim claim | Completion execution_receipt

record receipt_codec =
  rx_isoformat :: "datetime \<Rightarrow> string"
  rx_read_claim :: "string \<Rightarrow> claim option"
  rx_read_completion :: "string \<Rightarrow> execution_receipt option"

definition claim_error :: "claim \<Rightarrow> exn option" where
  "claim_error c =
     first_error
       [field_error (tagged_hash ''write-plan:sha256:'' (cl_plan_id c)),
        field_error (tagged_hash ''approval:sha256:'' (cl_approval_id c)),
        field_error (list_all mutation_text [cl_plan_id c, cl_approval_id c, cl_actor c])]"

definition claim_dump :: "(datetime \<Rightarrow> string) \<Rightarrow> claim \<Rightarrow> json dict" where
  "claim_dump isoformat c =
     [(''storage_schema_version'', JInt 1), (''kind'', JStr ''claim''), (''plan_id'', JStr (cl_plan_id c)),
      (''approval_id'', JStr (cl_approval_id c)), (''actor'', JStr (cl_actor c)),
      (''claimed_at'', JStr (isoformat (cl_claimed_at c)))]"

definition completion_dump :: "(datetime \<Rightarrow> string) \<Rightarrow> execution_receipt \<Rightarrow> json dict" where
  "completion_dump isoformat r =
     [(''storage_schema_version'', JInt 1), (''kind'', JStr ''receipt''),
      (''receipt'', JObj ((''id'', JStr (xr_id r)) # receipt_material isoformat r))]"

definition serialize_entry :: "receipt_codec \<Rightarrow> receipt_entry \<Rightarrow> string" where
  "serialize_entry cd e =
     (case e of Claim c \<Rightarrow> json_line (claim_dump (rx_isoformat cd) c)
      | Completion r \<Rightarrow> json_line (completion_dump (rx_isoformat cd) r))"

section \<open>Decoding\<close>

text \<open>One line must be exactly the line its own record prints.\<close>

definition decode_entry :: "receipt_codec \<Rightarrow> string \<Rightarrow> receipt_entry option" where
  "decode_entry cd encoded =
     (if encoded = [] \<or> last encoded \<noteq> CHR 0x0A \<or> is_blank encoded then None
      else
        (case loads_strict_object (butlast encoded) of
           Inl _ \<Rightarrow> None
         | Inr payload \<Rightarrow>
             let entry =
               (if map_of payload ''kind'' = Some (JStr ''claim'')
                then map_option Claim (rx_read_claim cd (butlast encoded))
                else if map_of payload ''kind'' = Some (JStr ''receipt'')
                then map_option Completion (rx_read_completion cd (butlast encoded))
                else None) in
             (case entry of None \<Rightarrow> None | Some e \<Rightarrow> if serialize_entry cd e \<noteq> encoded then None else Some e)))"

record receipt_index =
  ri_claims :: "(write_key \<times> claim) list"
  ri_receipts :: "(write_key \<times> execution_receipt) list"

definition claim_key :: "claim \<Rightarrow> write_key" where
  "claim_key c = (cl_plan_id c, cl_approval_id c)"

definition receipt_key :: "execution_receipt \<Rightarrow> write_key" where
  "receipt_key r = (xr_plan_id r, xr_approval_id r)"

definition index_entry :: "receipt_entry \<Rightarrow> receipt_index \<Rightarrow> receipt_index option" where
  "index_entry e i =
     (case e of
        Claim c \<Rightarrow>
          if claim_key c \<in> fst ` set (ri_claims i) \<or> claim_key c \<in> fst ` set (ri_receipts i) then None
          else Some (i\<lparr>ri_claims := ri_claims i @ [(claim_key c, c)]\<rparr>)
      | Completion r \<Rightarrow>
          (case map_of (ri_claims i) (receipt_key r) of
             None \<Rightarrow> None
           | Some c \<Rightarrow>
               if receipt_key r \<in> fst ` set (ri_receipts i) \<or> cl_actor c \<noteq> xr_executed_by r then None
               else Some (i\<lparr>ri_receipts := ri_receipts i @ [(receipt_key r, r)]\<rparr>)))"

fun decode_entries :: "receipt_codec \<Rightarrow> string list \<Rightarrow> receipt_index \<Rightarrow> receipt_index option" where
  "decode_entries cd [] i = Some i"
| "decode_entries cd (line # lines) i =
     (case decode_entry cd line of
        None \<Rightarrow> None
      | Some e \<Rightarrow> (case index_entry e i of None \<Rightarrow> None | Some i' \<Rightarrow> decode_entries cd lines i'))"

definition no_receipts :: receipt_index where
  "no_receipts = \<lparr>ri_claims = [], ri_receipts = []\<rparr>"

definition decode_content :: "receipt_codec \<Rightarrow> string option \<Rightarrow> receipt_index option" where
  "decode_content cd content =
     (case content of None \<Rightarrow> Some no_receipts | Some t \<Rightarrow> decode_entries cd (byte_lines t) no_receipts)"

definition rebuild_receipts :: "receipt_codec \<Rightarrow> string option \<Rightarrow> receipt_index res" where
  "rebuild_receipts cd content =
     (case decode_content cd content of None \<Rightarrow> Inl (ReceiptStoreError ''invalid receipt store'') | Some i \<Rightarrow> Inr i)"

section \<open>Operations\<close>

definition validate_receipt_completion ::
  "receipt_codec \<Rightarrow> string option \<Rightarrow> execution_receipt \<Rightarrow> string res" where
  "validate_receipt_completion cd content r =
     (case validate_receipt (rx_isoformat cd) r of
        Inl _ \<Rightarrow> Inl (ReceiptStoreError ''invalid execution receipt'')
      | Inr r \<Rightarrow>
          res_bind (rebuild_receipts cd content) (\<lambda>i.
            case map_of (ri_claims i) (receipt_key r) of
              None \<Rightarrow> Inl (ReceiptStoreError ''invalid execution receipt'')
            | Some c \<Rightarrow>
                if cl_actor c \<noteq> xr_executed_by r then Inl (ReceiptStoreError ''invalid execution receipt'')
                else
                  (case map_of (ri_receipts i) (receipt_key r) of
                     None \<Rightarrow> Inr (serialize_entry cd (Completion r))
                   | Some existing \<Rightarrow>
                       if existing \<noteq> r then Inl (ReceiptStoreError ''conflicting execution receipt'') else Inr [])))"

definition validated_claim :: "string \<Rightarrow> string \<Rightarrow> string \<Rightarrow> datetime \<Rightarrow> claim option" where
  "validated_claim plan_id approval actor claimed_at =
     (let c = \<lparr>cl_plan_id = plan_id, cl_approval_id = approval, cl_actor = actor, cl_claimed_at = claimed_at\<rparr> in
      case claim_error c of Some _ \<Rightarrow> None | None \<Rightarrow> Some c)"

text \<open>An operation maps the content of the file to its result and the new content.\<close>

definition store_claim ::
  "receipt_codec \<Rightarrow> string \<Rightarrow> string \<Rightarrow> string \<Rightarrow> datetime \<Rightarrow> string option \<Rightarrow> (bool \<times> string option) res" where
  "store_claim cd plan_id approval actor claimed_at content =
     (case validated_claim plan_id approval actor claimed_at of
        None \<Rightarrow> Inl (ReceiptStoreError ''invalid execution claim'')
      | Some c \<Rightarrow>
          res_bind (rebuild_receipts cd content) (\<lambda>i.
            if claim_key c \<in> fst ` set (ri_claims i) then Inr (False, content)
            else Inr (True, append_text content (serialize_entry cd (Claim c)))))"

definition complete_receipt ::
  "receipt_codec \<Rightarrow> execution_receipt \<Rightarrow> string option \<Rightarrow> (bool \<times> string option) res" where
  "complete_receipt cd r content =
     res_bind (rebuild_receipts cd content) (\<lambda>_.
     res_bind (validate_receipt_completion cd content r) (\<lambda>serialized.
       if serialized = [] then Inr (False, content)
       else res_bind (validate_receipt (rx_isoformat cd) r) (\<lambda>_. Inr (True, append_text content serialized))))"

definition get_receipt :: "receipt_codec \<Rightarrow> string \<Rightarrow> string \<Rightarrow> string option \<Rightarrow> execution_receipt option res" where
  "get_receipt cd plan_id approval content =
     res_bind (rebuild_receipts cd content) (\<lambda>i. Inr (map_of (ri_receipts i) (plan_id, approval)))"

definition is_claimed :: "receipt_codec \<Rightarrow> string \<Rightarrow> string \<Rightarrow> string option \<Rightarrow> bool res" where
  "is_claimed cd plan_id approval content =
     res_bind (rebuild_receipts cd content) (\<lambda>i. Inr ((plan_id, approval) \<in> fst ` set (ri_claims i)))"

definition list_receipts :: "receipt_codec \<Rightarrow> string option \<Rightarrow> execution_receipt list res" where
  "list_receipts cd content =
     res_bind (rebuild_receipts cd content) (\<lambda>i. Inr (map snd (sort_key fst (ri_receipts i))))"

text \<open>With a transaction coordinator every operation recovers first (\<open>coordinated()\<close>).\<close>

definition coordinated :: "coordinator \<Rightarrow> string \<Rightarrow> (string option \<Rightarrow> ('a \<times> string option) res) \<Rightarrow> (disk, 'a) act" where
  "coordinated co name operation d =
     (case recover (co_targets co) (co_legacy_sets co) d of
        Inl e \<Rightarrow> (d, Inl e)
      | Inr (_, d') \<Rightarrow>
          (case operation (dk_files d' name) of
             Inl e \<Rightarrow> (d', Inl e)
           | Inr (x, content) \<Rightarrow> (d'\<lparr>dk_files := (dk_files d')(name := content)\<rparr>, Inr x)))"

section \<open>Printed lines\<close>

text \<open>A printed value holds neither newline nor carriage return, so it is one line of the file.\<close>

definition no_newline :: "string \<Rightarrow> bool" where
  "no_newline s \<longleftrightarrow> list_all (\<lambda>c. c \<noteq> CHR 0x0A \<and> c \<noteq> CHR 0x0D) s"

lemma no_newline_simps [simp]:
  "no_newline []" "no_newline (c # s) \<longleftrightarrow> c \<noteq> CHR 0x0A \<and> c \<noteq> CHR 0x0D \<and> no_newline s"
  "no_newline (s @ t) \<longleftrightarrow> no_newline s \<and> no_newline t"
  by (simp_all add: no_newline_def conj_assoc)

lemma no_newline_one_line: "one_line s \<Longrightarrow> no_newline s"
  by (auto simp: no_newline_def one_line_def list_all_iff is_line_break_def)

lemma no_newline_concat: "no_newline (concat ss) \<longleftrightarrow> (\<forall>s \<in> set ss. no_newline s)"
  by (induction ss) auto

lemma no_newline_join: "no_newline sep \<Longrightarrow> no_newline (join sep ss) \<longleftrightarrow> (\<forall>s \<in> set ss. no_newline s)"
  by (induction sep ss rule: join.induct) auto

lemma no_newline_dumps_str: "no_newline (dumps_str ea s)"
proof -
  have "no_newline (esc_char ea c)" for c
    by (auto simp: esc_char_def no_newline_one_line one_line_unicode_escape)
  then show ?thesis by (simp add: dumps_str_def no_newline_concat)
qed

lemma no_newline_dumps: "wf_json v \<Longrightarrow> no_newline (dumps ea v)"
proof (induction v)
  case (JArr vs)
  then show ?case by (auto simp: no_newline_join list_all_iff)
next
  case (JObj kvs)
  have "no_newline (print_member ea p)" if "p \<in> set kvs" for p
    using JObj that by (fastforce simp: print_member_def no_newline_dumps_str list_all_iff)
  then show ?case by (simp only: dumps_JObj) (simp add: no_newline_join)
qed (auto simp: no_newline_dumps_str no_newline_one_line one_line_int_str one_line_float_literal)

lemma byte_lines_line: "no_newline l \<Longrightarrow> byte_lines (l @ [CHR 0x0A]) = [l @ [CHR 0x0A]]"
  by (induction l rule: byte_lines.induct) auto

lemma byte_lines_append: "complete_lines s \<Longrightarrow> byte_lines (s @ t) = byte_lines s @ byte_lines t"
proof (induction s rule: byte_lines.induct)
  case (2 c)
  then show ?case by (cases t) (auto simp: complete_lines_def)
next
  case (3 c d s)
  have "byte_lines (d # s) \<noteq> []" by (cases s) (auto split: list.split)
  with 3 show ?case by (auto simp: complete_lines_def split: list.splits if_splits)
qed simp

lemma entry_line:
  "byte_lines (serialize_entry cd e) = [serialize_entry cd e]" "complete_lines (serialize_entry cd e)"
  "serialize_entry cd e \<noteq> []"
proof -
  have "wf_json (JObj (claim_dump f c))" "wf_json (JObj (completion_dump f r))" for f c r
    by (simp_all add: claim_dump_def completion_dump_def receipt_material_def opt_str_def split: option.split)
  then show "byte_lines (serialize_entry cd e) = [serialize_entry cd e]"
    by (cases e) (simp_all only: serialize_entry_def receipt_entry.case json_line_def byte_lines_line no_newline_dumps)
  show "complete_lines (serialize_entry cd e)" "serialize_entry cd e \<noteq> []"
    by (cases e; simp add: serialize_entry_def; simp add: json_line_def)+
qed

section \<open>The ledger of claims and receipts\<close>

definition storable_entry :: "receipt_codec \<Rightarrow> receipt_entry \<Rightarrow> bool" where
  "storable_entry cd e \<longleftrightarrow> decode_entry cd (serialize_entry cd e) = Some e"

fun index_entries :: "receipt_entry list \<Rightarrow> receipt_index \<Rightarrow> receipt_index option" where
  "index_entries [] i = Some i"
| "index_entries (e # es) i = (case index_entry e i of None \<Rightarrow> None | Some i' \<Rightarrow> index_entries es i')"

definition receipt_entries :: "receipt_codec \<Rightarrow> string option \<Rightarrow> receipt_entry list res" where
  "receipt_entries cd content =
     res_bind (rebuild_receipts cd content) (\<lambda>_. Inr (map (the \<circ> decode_entry cd) (byte_lines (text_of content))))"

definition entry_fits :: "receipt_codec \<Rightarrow> receipt_entry list \<Rightarrow> receipt_entry \<Rightarrow> bool" where
  "entry_fits cd es e \<longleftrightarrow> storable_entry cd e \<and> index_entries (es @ [e]) no_receipts \<noteq> None"

lemma decode_entries_append:
  "decode_entries cd (xs @ ys) i =
     (case decode_entries cd xs i of None \<Rightarrow> None | Some i' \<Rightarrow> decode_entries cd ys i')"
  by (induction xs arbitrary: i) (auto split: option.split)

lemma index_entries_append:
  "index_entries (xs @ ys) i = (case index_entries xs i of None \<Rightarrow> None | Some i' \<Rightarrow> index_entries ys i')"
  by (induction xs arbitrary: i) (auto split: option.split)

lemma decode_entries_index:
  "decode_entries cd lines i = Some i' \<Longrightarrow> index_entries (map (the \<circ> decode_entry cd) lines) i = Some i'"
  by (induction lines arbitrary: i) (auto split: option.splits)

lemma decode_content_text: "decode_content cd content = decode_entries cd (byte_lines (text_of content)) no_receipts"
  by (cases content) (simp_all add: decode_content_def)

lemma rebuild_receipts_iff: "rebuild_receipts cd content = Inr i \<longleftrightarrow> decode_content cd content = Some i"
  by (auto simp: rebuild_receipts_def split: option.split)

lemma receipt_entries_index:
  "receipt_entries cd content = Inr es \<Longrightarrow>
     \<exists>i. decode_content cd content = Some i \<and> index_entries es no_receipts = Some i"
  by (auto simp: receipt_entries_def res_bind_Inr_iff rebuild_receipts_iff decode_content_text decode_entries_index)

lemma decode_append:
  assumes "complete_lines (text_of content)" "storable_entry cd e"
  shows "decode_content cd (append_text content (serialize_entry cd e)) =
    (case decode_content cd content of None \<Rightarrow> None | Some i \<Rightarrow> index_entry e i)"
  using assms
  by (simp add: decode_content_text byte_lines_append entry_line decode_entries_append storable_entry_def
      split: option.split)

interpretation receipt_file: append_ledger "receipt_entries cd" "serialize_entry cd" "entry_fits cd" for cd
proof
  show "receipt_entries cd None = Inr []"
    by (simp add: receipt_entries_def rebuild_receipts_def decode_content_def)
  show "receipt_entries cd (Some (text_of content)) = receipt_entries cd content" for content
    by (simp add: receipt_entries_def rebuild_receipts_def decode_content_text)
  show "complete_lines (serialize_entry cd x)" for x
    by (rule entry_line)
  fix content es e
  assume es: "receipt_entries cd content = Inr es" and complete: "complete_lines (text_of content)"
    and e: "entry_fits cd es e"
  from receipt_entries_index [OF es] obtain i where i: "decode_content cd content = Some i" "index_entries es no_receipts = Some i"
    by blast
  with e obtain i' where i': "index_entry e i = Some i'"
    by (auto simp: entry_fits_def index_entries_append split: option.splits)
  with i complete e have "decode_content cd (append_text content (serialize_entry cd e)) = Some i'"
    by (simp add: decode_append entry_fits_def)
  with es i e complete show "receipt_entries cd (append_text content (serialize_entry cd e)) = Inr (es @ [e])"
    by (simp add: receipt_entries_def rebuild_receipts_def byte_lines_append entry_line entry_fits_def storable_entry_def)
qed

section \<open>What the index keeps\<close>

definition index_ok :: "receipt_index \<Rightarrow> bool" where
  "index_ok i \<longleftrightarrow>
     distinct (map fst (ri_claims i)) \<and> distinct (map fst (ri_receipts i)) \<and>
     (\<forall>(k, c) \<in> set (ri_claims i). k = claim_key c) \<and>
     (\<forall>(k, r) \<in> set (ri_receipts i). k = receipt_key r \<and>
        (\<exists>c. map_of (ri_claims i) k = Some c \<and> cl_actor c = xr_executed_by r))"

definition claimed_keys :: "receipt_index \<Rightarrow> write_key set" where
  "claimed_keys i = fst ` set (ri_claims i)"

lemma map_of_snoc: "map_of xs k = Some v \<Longrightarrow> map_of (xs @ [p]) k = Some v"
  by (simp add: map_of_append)

lemma index_entry_claims:
  assumes "index_entry e i = Some i'"
  shows "claimed_keys i \<subseteq> claimed_keys i'"
    and "e = Claim c \<Longrightarrow> claimed_keys i' = insert (claim_key c) (claimed_keys i)"
    and "e = Completion r \<Longrightarrow> claimed_keys i' = claimed_keys i"
  using assms by (auto simp: index_entry_def claimed_keys_def split: receipt_entry.splits if_splits option.splits)

lemma index_entry_ok:
  assumes "index_entry e i = Some i'" "index_ok i"
  shows "index_ok i'"
proof (cases e)
  case (Claim c)
  then have i': "i' = i\<lparr>ri_claims := ri_claims i @ [(claim_key c, c)]\<rparr>" "claim_key c \<notin> fst ` set (ri_claims i)"
    using assms(1) by (auto simp: index_entry_def split: if_splits)
  have kept: "map_of (ri_claims i') k = Some c'" if "map_of (ri_claims i) k = Some c'" for k c'
    using map_of_snoc [OF that, of "(claim_key c, c)"] i'(1) by (simp del: map_of_append map_of_eq_Some_iff)
  have old: "distinct (map fst (ri_claims i))" "distinct (map fst (ri_receipts i))"
    "\<forall>(k, c) \<in> set (ri_claims i). k = claim_key c"
    "\<forall>(k, r) \<in> set (ri_receipts i). k = receipt_key r \<and>
      (\<exists>c. map_of (ri_claims i) k = Some c \<and> cl_actor c = xr_executed_by r)"
    using assms(2) unfolding index_ok_def by blast+
  show ?thesis
    unfolding index_ok_def
  proof (intro conjI)
    show "distinct (map fst (ri_claims i'))" using old(1) i' by simp
    show "distinct (map fst (ri_receipts i'))" using old(2) i'(1) by simp
    show "\<forall>(k, c) \<in> set (ri_claims i'). k = claim_key c" using old(3) i'(1) by auto
    have "ri_receipts i' = ri_receipts i" using i'(1) by simp
    then show "\<forall>(k, r) \<in> set (ri_receipts i'). k = receipt_key r \<and>
        (\<exists>c. map_of (ri_claims i') k = Some c \<and> cl_actor c = xr_executed_by r)"
    proof (intro ballI, clarify)
      fix p a r assume "((p, a), r) \<in> set (ri_receipts i')" "ri_receipts i' = ri_receipts i"
      with old(4) obtain c' where "(p, a) = receipt_key r" "map_of (ri_claims i) (p, a) = Some c'"
        "cl_actor c' = xr_executed_by r" by auto
      with kept show "(p, a) = receipt_key r \<and> (\<exists>c. map_of (ri_claims i') (p, a) = Some c \<and> cl_actor c = xr_executed_by r)"
        by blast
    qed
  qed
next
  case (Completion r)
  with assms show ?thesis
    by (auto simp: index_entry_def index_ok_def simp del: map_of_eq_Some_iff split: if_splits option.splits)
qed

lemma decode_entries_ok: "decode_entries cd lines i = Some i' \<Longrightarrow> index_ok i \<Longrightarrow> index_ok i'"
  by (induction lines arbitrary: i) (auto split: option.splits dest: index_entry_ok)

lemma decode_content_ok: "decode_content cd content = Some i \<Longrightarrow> index_ok i"
  unfolding decode_content_text by (erule decode_entries_ok) (simp add: index_ok_def no_receipts_def)

text \<open>A file that can be read ends with a newline, so what is appended to it is a line of its own.\<close>

lemma byte_lines_Cons: "byte_lines (c # s) \<noteq> []"
  by (cases s) (auto split: list.split)

lemma concat_byte_lines: "concat (byte_lines s) = s"
  by (induction s rule: byte_lines.induct) (auto simp: byte_lines_Cons split: list.splits)

lemma decoded_lines_complete:
  "decode_entries cd lines i = Some i' \<Longrightarrow> complete_lines (concat lines)"
proof (induction lines arbitrary: i)
  case (Cons line lines)
  have "complete_lines line"
    using Cons.prems by (auto simp: decode_entry_def complete_lines_def split: if_splits option.splits)
  moreover have "complete_lines (concat lines)"
    using Cons by (auto split: option.splits)
  ultimately show ?case by simp
qed simp

lemma decoded_complete: "decode_content cd content = Some i \<Longrightarrow> complete_lines (text_of content)"
  unfolding decode_content_text using decoded_lines_complete concat_byte_lines by metis

section \<open>Claimed once\<close>

text \<open>No claim of \<open>k\<close> can succeed any more: it is claimed, or the file cannot be read.\<close>

definition blocked :: "receipt_codec \<Rightarrow> write_key \<Rightarrow> string option \<Rightarrow> bool" where
  "blocked cd k content \<longleftrightarrow> (case decode_content cd content of None \<Rightarrow> True | Some i \<Rightarrow> k \<in> claimed_keys i)"

text \<open>A printed claim is read as a claim of the same plan and approval, if at all: this needs nothing of
  Pydantic, since a line must be what its own record prints.\<close>

lemma claim_dump_key:
  assumes "serialize_entry cd (Claim c) = serialize_entry cd e"
  shows "\<exists>c'. e = Claim c' \<and> claim_key c' = claim_key c"
proof -
  have wf: "wf_json (JObj (claim_dump f c))" "wf_json (JObj (completion_dump f r))" for f c r
    by (simp_all add: claim_dump_def completion_dump_def receipt_material_def opt_str_def split: option.split)
  let ?f = "rx_isoformat cd"
  have canons: "\<exists>x y z. canon (JObj (claim_dump ?f c)) = JObj [(''actor'', x), (''approval_id'', JStr (cl_approval_id c)),
      (''claimed_at'', y), (''kind'', JStr ''claim''), (''plan_id'', JStr (cl_plan_id c)), (''storage_schema_version'', z)]" for c
    by (simp add: claim_dump_def)
  show ?thesis
  proof (cases e)
    case (Claim c')
    then have "dumps False (JObj (claim_dump ?f c)) = dumps False (JObj (claim_dump ?f c'))"
      using assms by (simp only: serialize_entry_def json_line_def receipt_entry.case append_same_eq)
    then have "canon (JObj (claim_dump ?f c)) = canon (JObj (claim_dump ?f c'))"
      by (rule dumps_inject [OF wf(1) wf(1)])
    moreover obtain x y z where "canon (JObj (claim_dump ?f c)) = JObj [(''actor'', x), (''approval_id'', JStr (cl_approval_id c)),
      (''claimed_at'', y), (''kind'', JStr ''claim''), (''plan_id'', JStr (cl_plan_id c)), (''storage_schema_version'', z)]"
      using canons [of c] by blast
    moreover obtain x' y' z' where "canon (JObj (claim_dump ?f c')) = JObj [(''actor'', x'), (''approval_id'', JStr (cl_approval_id c')),
      (''claimed_at'', y'), (''kind'', JStr ''claim''), (''plan_id'', JStr (cl_plan_id c')), (''storage_schema_version'', z')]"
      using canons [of c'] by blast
    ultimately have "claim_key c' = claim_key c" by (simp only: claim_key_def) simp
    then show ?thesis using Claim by blast
  next
    case (Completion r)
    then have "dumps False (JObj (claim_dump ?f c)) = dumps False (JObj (completion_dump ?f r))"
      using assms by (simp only: serialize_entry_def json_line_def receipt_entry.case append_same_eq)
    then have "canon (JObj (claim_dump ?f c)) = canon (JObj (completion_dump ?f r))"
      by (rule dumps_inject [OF wf(1) wf(2)])
    moreover obtain x y z where "canon (JObj (claim_dump ?f c)) = JObj [(''actor'', x), (''approval_id'', JStr (cl_approval_id c)),
      (''claimed_at'', y), (''kind'', JStr ''claim''), (''plan_id'', JStr (cl_plan_id c)), (''storage_schema_version'', z)]"
      using canons [of c] by blast
    moreover obtain u v w where "canon (JObj (completion_dump ?f r)) = JObj [u, v, w]"
      by (simp add: completion_dump_def)
    ultimately have False by (simp only: json.inject list.inject list.distinct simp_thms)
    then show ?thesis by blast
  qed
qed

lemma decode_serialized:
  "decode_entry cd (serialize_entry cd e) = Some e' \<Longrightarrow> serialize_entry cd e' = serialize_entry cd e"
  by (auto simp: decode_entry_def Let_def split: if_splits sum.splits option.splits)

lemma decode_appended:
  assumes "decode_content cd content = Some i"
  shows "decode_content cd (append_text content (serialize_entry cd e)) =
    (case decode_entry cd (serialize_entry cd e) of None \<Rightarrow> None | Some e' \<Rightarrow> index_entry e' i)"
  using assms decoded_complete [OF assms]
  by (auto simp: decode_content_text byte_lines_append entry_line decode_entries_append split: option.split)

lemma blocked_append:
  assumes "decode_content cd content = Some i" "blocked cd k content"
  shows "blocked cd k (append_text content (serialize_entry cd e))"
  using assms index_entry_claims(1)
  by (fastforce simp: blocked_def decode_appended [OF assms(1)] split: option.splits)

lemma blocked_claim:
  assumes "decode_content cd content = Some i"
  shows "blocked cd (claim_key c) (append_text content (serialize_entry cd (Claim c)))"
proof -
  have "claim_key c \<in> claimed_keys i'"
    if "decode_entry cd (serialize_entry cd (Claim c)) = Some e" "index_entry e i = Some i'" for e i'
    using claim_dump_key [OF decode_serialized [OF that(1), symmetric]] index_entry_claims(2) [OF that(2)]
    by auto
  then show ?thesis by (auto simp: blocked_def decode_appended [OF assms] split: option.split)
qed

lemma store_claim_blocked:
  assumes "store_claim cd p a actor t content = Inr (b, content')"
  shows "b \<Longrightarrow> \<not> blocked cd (p, a) content \<and> blocked cd (p, a) content'"
    and "blocked cd k content \<Longrightarrow> blocked cd k content'"
proof -
  let ?c = "\<lparr>cl_plan_id = p, cl_approval_id = a, cl_actor = actor, cl_claimed_at = t\<rparr>"
  have c: "claim_key ?c = (p, a)" by (simp add: claim_key_def)
  have valid: "claim_error ?c = None"
    using assms by (auto simp: store_claim_def validated_claim_def Let_def split: option.splits)
  from assms obtain i where i: "decode_content cd content = Some i"
    and out: "(if (p, a) \<in> claimed_keys i then Inr (False, content)
        else Inr (True, append_text content (serialize_entry cd (Claim ?c)))) = (Inr (b, content') :: (bool \<times> string option) res)"
    by (simp only: store_claim_def validated_claim_def Let_def valid option.case res_bind_Inr_iff rebuild_receipts_iff c
        claimed_keys_def [symmetric]) blast
  then have run: "(b, content') = (if (p, a) \<in> claimed_keys i then (False, content)
        else (True, append_text content (serialize_entry cd (Claim ?c))))"
    by (simp split: if_splits)
  from i run show "b \<Longrightarrow> \<not> blocked cd (p, a) content \<and> blocked cd (p, a) content'"
    using blocked_claim [OF i, of ?c] c i by (auto simp: blocked_def [of cd "(p, a)" content] split: if_splits)
  show "blocked cd k content \<Longrightarrow> blocked cd k content'"
    using run blocked_append [OF i] by (auto split: if_splits)
qed

lemma validate_completion_append:
  assumes "validate_receipt_completion cd content r = Inr line"
  obtains i where "decode_content cd content = Some i" and "line = [] \<or> line = serialize_entry cd (Completion r)"
    and "\<exists>c. map_of (ri_claims i) (receipt_key r) = Some c \<and> cl_actor c = xr_executed_by r"
    and "line = [] \<Longrightarrow> map_of (ri_receipts i) (receipt_key r) = Some r"
    and "line \<noteq> [] \<Longrightarrow> map_of (ri_receipts i) (receipt_key r) = None"
    and "validate_receipt (rx_isoformat cd) r = Inr r"
  using assms entry_line(3) [of cd "Completion r"]
  by (auto simp: validate_receipt_completion_def validate_receipt_def res_bind_Inr_iff rebuild_receipts_iff
      split: option.splits if_splits)

lemma complete_receipt_blocked:
  assumes "complete_receipt cd r content = Inr (b, content')" "blocked cd k content"
  shows "blocked cd k content'"
proof -
  from assms(1) obtain line where line: "validate_receipt_completion cd content r = Inr line"
    and run: "content' = (if line = [] then content else append_text content line)"
    by (auto simp: complete_receipt_def res_bind_Inr_iff split: if_splits)
  from validate_completion_append [OF line] show ?thesis
    using run assms(2) blocked_append by metis
qed

text \<open>What is relied on of Pydantic is that it reads back the printed object.\<close>

lemma storable_claim:
  "rx_read_claim cd (dumps False (JObj (claim_dump (rx_isoformat cd) c))) = Some c \<Longrightarrow> storable_entry cd (Claim c)"
  using loads_object_dumps [of "claim_dump (rx_isoformat cd) c" _ False] json_line_not_blank [of "claim_dump (rx_isoformat cd) c"]
  by (simp add: storable_entry_def decode_entry_def serialize_entry_def json_line_def claim_dump_def del: dumps.simps)

lemma storable_completion:
  "rx_read_completion cd (dumps False (JObj (completion_dump (rx_isoformat cd) r))) = Some r \<Longrightarrow>
     storable_entry cd (Completion r)"
proof -
  assume read: "rx_read_completion cd (dumps False (JObj (completion_dump (rx_isoformat cd) r))) = Some r"
  let ?d = "completion_dump (rx_isoformat cd) r"
  have wf: "wf_json (JObj ?d)"
    by (simp add: completion_dump_def receipt_material_def opt_str_def split: option.split)
  obtain kvs where kvs: "canon (JObj ?d) = JObj kvs" "map_of kvs ''kind'' = Some (JStr ''receipt'')"
    by (simp add: completion_dump_def del: canon.simps(1))
  show ?thesis
    using loads_object_dumps [OF wf kvs(1), of False] json_line_not_blank [of ?d] kvs(2) read
    by (simp add: storable_entry_def decode_entry_def serialize_entry_def json_line_def del: dumps.simps)
qed

section \<open>Properties\<close>

text \<open>C18: In a readable receipt file every plan and approval has at most one claim and at most one receipt,
  and a receipt is the work of whoever holds the claim.\<close>

theorem receipts_have_claims:
  assumes "decode_content cd content = Some i"
  shows "distinct (map fst (ri_claims i)) \<and> distinct (map fst (ri_receipts i)) \<and>
    (\<forall>k r. map_of (ri_receipts i) k = Some r \<longrightarrow> receipt_key r = k \<and>
      (\<exists>c. map_of (ri_claims i) k = Some c \<and> claim_key c = k \<and> cl_actor c = xr_executed_by r))"
proof -
  note ok = decode_content_ok [OF assms, unfolded index_ok_def]
  have "receipt_key r = k \<and> (\<exists>c. map_of (ri_claims i) k = Some c \<and> claim_key c = k \<and> cl_actor c = xr_executed_by r)"
    if "map_of (ri_receipts i) k = Some r" for k r
  proof -
    have "(k, r) \<in> set (ri_receipts i)" using that by (rule map_of_SomeD)
    from bspec [OF conjunct2 [OF conjunct2 [OF conjunct2 [OF ok]]] this] obtain c
      where c: "k = receipt_key r" "map_of (ri_claims i) k = Some c" "cl_actor c = xr_executed_by r"
      unfolding case_prod_conv by blast
    have "(k, c) \<in> set (ri_claims i)" using c(2) by (rule map_of_SomeD)
    from bspec [OF conjunct1 [OF conjunct2 [OF conjunct2 [OF ok]]] this] have "k = claim_key c"
      unfolding case_prod_conv .
    show ?thesis
    proof (intro conjI exI [of _ c])
      show "receipt_key r = k" by (rule c(1) [symmetric])
      show "claim_key c = k" by (rule \<open>k = claim_key c\<close> [symmetric])
    qed (rule c)+
  qed
  with conjunct1 [OF ok] conjunct1 [OF conjunct2 [OF ok]] show ?thesis by simp
qed

text \<open>A receipt completes a claim once. Completing makes the receipt readable under its plan and approval
  and changes no other; completing again with the same receipt does nothing, and a different receipt for
  the same claim is refused.\<close>

theorem completion_recorded:
  assumes "complete_receipt cd r content = Inr (True, content')" "storable_entry cd (Completion r)"
  shows "get_receipt cd (xr_plan_id r) (xr_approval_id r) content = Inr None \<and>
    get_receipt cd (xr_plan_id r) (xr_approval_id r) content' = Inr (Some r) \<and>
    (\<forall>p a. (p, a) \<noteq> receipt_key r \<longrightarrow> get_receipt cd p a content' = get_receipt cd p a content) \<and>
    (\<forall>p a. is_claimed cd p a content' = is_claimed cd p a content) \<and>
    complete_receipt cd r content' = Inr (False, content') \<and>
    (\<forall>r'. receipt_key r' = receipt_key r \<and> r' \<noteq> r \<longrightarrow> (\<exists>m. complete_receipt cd r' content' = Inl (ReceiptStoreError m)))"
proof -
  from assms(1) obtain line where line: "validate_receipt_completion cd content r = Inr line" "line \<noteq> []"
    and content': "content' = append_text content line"
    by (auto simp: complete_receipt_def res_bind_Inr_iff split: if_splits)
  from line(1) obtain i where i: "decode_content cd content = Some i" "line = serialize_entry cd (Completion r)"
    and claim: "\<exists>c. map_of (ri_claims i) (receipt_key r) = Some c \<and> cl_actor c = xr_executed_by r"
    and new: "map_of (ri_receipts i) (receipt_key r) = None" and valid: "validate_receipt (rx_isoformat cd) r = Inr r"
    by (rule validate_completion_append) (use line(2) in blast)
  let ?i = "i\<lparr>ri_receipts := ri_receipts i @ [(receipt_key r, r)]\<rparr>"
  have "index_entry (Completion r) i = Some ?i"
    using claim new by (auto simp: index_entry_def map_of_eq_None_iff simp del: map_of_eq_Some_iff)
  then have i': "decode_content cd content' = Some ?i"
    using decode_appended [OF i(1), of "Completion r"] assms(2) i(2) content' by (simp add: storable_entry_def)
  note rebuilt = i(1) [folded rebuild_receipts_iff] i' [folded rebuild_receipts_iff]
  have again: "validate_receipt_completion cd content' r' =
      (case validate_receipt (rx_isoformat cd) r' of Inl _ \<Rightarrow> Inl (ReceiptStoreError ''invalid execution receipt'')
       | Inr r' \<Rightarrow> if xr_executed_by r \<noteq> xr_executed_by r' then Inl (ReceiptStoreError ''invalid execution receipt'')
         else if r \<noteq> r' then Inl (ReceiptStoreError ''conflicting execution receipt'') else Inr [])"
    if "receipt_key r' = receipt_key r" for r'
    using claim new that rebuilt(2)
    by (auto simp: validate_receipt_completion_def validate_receipt_def map_add_Some_iff simp del: map_of_eq_Some_iff split: sum.split option.split)
  have same: "q = r'" if "validate_receipt (rx_isoformat cd) r' = Inr q" for q r'
    using that by (auto simp: validate_receipt_def split: option.splits)
  show ?thesis
    using rebuilt new again [of r] again valid
    by (auto dest!: same simp: get_receipt_def is_claimed_def complete_receipt_def receipt_key_def map_add_def
        simp del: map_of_eq_Some_iff split: option.splits sum.splits)
qed

definition sample_claim :: claim where
  "sample_claim =
     \<lparr>cl_plan_id = ''write-plan:sha256:'' @ replicate 64 (CHR ''a''), cl_approval_id = ''approval:sha256:'' @ replicate 64 (CHR ''b''),
      cl_actor = ''bo'', cl_claimed_at = 5\<rparr>"

definition unnamed_receipt :: execution_receipt where
  "unnamed_receipt =
     \<lparr>xr_id = [], xr_plan_id = cl_plan_id sample_claim, xr_plan_hash = ''sha256:'' @ replicate 64 (CHR ''a''),
      xr_approval_id = cl_approval_id sample_claim, xr_target_version = ''v1'', xr_executed_by = ''bo'',
      xr_status = Failed, xr_attempted_at = 5, xr_completed_at = 5, xr_resulting_version = None,
      xr_evidence_ref = None, xr_redacted_error = Some Provider_Failure\<rparr>"

definition sample_receipt :: execution_receipt where
  "sample_receipt = unnamed_receipt\<lparr>xr_id := receipt_id (receipt_material int_str unnamed_receipt)\<rparr>"

definition sample_receipt_codec :: receipt_codec where
  "sample_receipt_codec =
     \<lparr>rx_isoformat = int_str,
      rx_read_claim = (\<lambda>line. if line = dumps False (JObj (claim_dump int_str sample_claim)) then Some sample_claim else None),
      rx_read_completion = (\<lambda>line.
        if line = dumps False (JObj (completion_dump int_str sample_receipt)) then Some sample_receipt else None)\<rparr>"

lemma sample_storable_entries:
  "storable_entry sample_receipt_codec (Claim sample_claim)"
  "storable_entry sample_receipt_codec (Completion sample_receipt)"
  by (rule storable_claim storable_completion; simp add: sample_receipt_codec_def del: dumps.simps)+

lemma sample_receipt_valid: "validate_receipt int_str sample_receipt = Inr sample_receipt"
proof -
  have "receipt_material int_str sample_receipt = receipt_material int_str unnamed_receipt"
    by (simp add: sample_receipt_def receipt_material_def)
  moreover have "tagged_hash ''write-plan:sha256:'' (xr_plan_id unnamed_receipt)" "tagged_hash ''sha256:'' (xr_plan_hash unnamed_receipt)"
    "tagged_hash ''approval:sha256:'' (xr_approval_id unnamed_receipt)" "mutation_text ''v1''" "mutation_text ''bo''"
    by code_simp+
  ultimately show ?thesis
    by (simp add: validate_receipt_def receipt_error_def sample_receipt_def)
      (simp add: unnamed_receipt_def first_error_def field_error_def when_error_def)
qed

definition claimed_file :: "string option" where
  "claimed_file = append_text None (serialize_entry sample_receipt_codec (Claim sample_claim))"

lemma claimed_file_index:
  "decode_content sample_receipt_codec claimed_file =
     Some \<lparr>ri_claims = [(claim_key sample_claim, sample_claim)], ri_receipts = []\<rparr>"
  using decode_append [of None sample_receipt_codec "Claim sample_claim"] sample_storable_entries(1)
  by (simp add: claimed_file_def decode_content_def index_entry_def no_receipts_def)

theorem receipts_have_claims_witness:
  "\<exists>i. decode_content sample_receipt_codec claimed_file = Some i \<and> distinct (map fst (ri_claims i))"
  using claimed_file_index receipts_have_claims [OF claimed_file_index] by blast

theorem completion_recorded_witness:
  "\<exists>content'. complete_receipt sample_receipt_codec sample_receipt claimed_file = Inr (True, content') \<and>
     get_receipt sample_receipt_codec (xr_plan_id sample_receipt) (xr_approval_id sample_receipt) content' = Inr (Some sample_receipt)"
proof -
  have key: "claim_key sample_claim = receipt_key sample_receipt" "cl_actor sample_claim = xr_executed_by sample_receipt"
    by (simp_all add: sample_receipt_def unnamed_receipt_def claim_key_def receipt_key_def sample_claim_def)
  have iso: "rx_isoformat sample_receipt_codec = int_str" by (simp add: sample_receipt_codec_def)
  have "\<exists>content'. complete_receipt sample_receipt_codec sample_receipt claimed_file = Inr (True, content')"
    using claimed_file_index key sample_receipt_valid entry_line(3) [of sample_receipt_codec "Completion sample_receipt"]
    by (simp add: complete_receipt_def validate_receipt_completion_def iso rebuild_receipts_def)
  with completion_recorded [OF _ sample_storable_entries(2)] show ?thesis by blast
qed

end
