(* ===== verification/Write_Approval.thy ===== *)
theory Write_Approval
  imports Mutation_Models
begin

text \<open>
  Planning and approval of an external write (\<open>mutations/planner.py\<close>, \<open>mutations/authorization.py\<close>,
  \<open>mutations/approval.py\<close>). The JSON Schema library is a parameter: \<open>check_schema\<close> accepts schemas,
  \<open>conforms schema value\<close> validates a value. Every failure inside these functions becomes one fixed error;
  type tests on the arguments always hold for the values of the model.
\<close>

section \<open>Planning\<close>

definition write_fields :: "write_operation \<Rightarrow> json dict \<Rightarrow> json dict" where
  "write_fields w after =
     concat (map (\<lambda>name. case map_of after name of None \<Rightarrow> [] | Some v \<Rightarrow> [(name, v)]) (wo_allowed_fields w))"

definition active_arguments :: "write_operation \<Rightarrow> json dict \<Rightarrow> argument_binding dict" where
  "active_arguments w given =
     filter (\<lambda>(_, a). ab_source a \<noteq> ''field'' \<or>
       (case ab_field a of Some (Some f) \<Rightarrow> f \<in> fst ` set given | _ \<Rightarrow> False)) (wo_arguments w)"

definition argument_context :: "string \<Rightarrow> string \<Rightarrow> json dict \<Rightarrow> json dict" where
  "argument_context target_id before_version given =
     [(''target_id'', JStr target_id), (''before_version'', JStr before_version), (''fields'', JObj given)]"

definition expected_arguments ::
  "(json dict \<Rightarrow> json dict \<Rightarrow> bool) \<Rightarrow> write_operation \<Rightarrow> string \<Rightarrow> string \<Rightarrow> json dict \<Rightarrow> json dict res" where
  "expected_arguments conforms w target_id before_version after =
     (let given = write_fields w after in
      if \<not> conforms (wo_input_schema w) given then Inl (ValidationError ''input schema'')
      else bind_arguments (active_arguments w given) (argument_context target_id before_version given))"

definition merge_fields :: "json dict \<Rightarrow> json dict \<Rightarrow> json dict" where
  "merge_fields before requested = fold (\<lambda>(k, v). AList.update k v) requested before"

definition conflicting_authors :: "reconciliation_case \<Rightarrow> string list" where
  "conflicting_authors c = sorted_set (concat (map sd_authors (rc_evidence_sides c)))"

definition exact_policy :: "string list \<Rightarrow> bool" where
  "exact_policy values \<longleftrightarrow> \<not> list_ex is_blank values"

definition plan_inputs_ok ::
  "reconciliation_case \<Rightarrow> provider_profile \<Rightarrow> provider_binding \<Rightarrow> string \<Rightarrow> remote_object \<Rightarrow> json dict \<Rightarrow> string \<Rightarrow>
     string list \<Rightarrow> bool" where
  "plan_inputs_ok c profile b operation_name current requested actor contributors \<longleftrightarrow>
     rc_status c = NEEDS_HUMAN \<and> rc_requires_human c \<and> operation_name \<in> fst ` set (pp_writes profile) \<and>
     \<not> is_blank actor \<and> exact_policy contributors \<and> actor \<in> set contributors \<and>
     (case map_of (pb_actor_principals b) actor of None \<Rightarrow> False | Some ps \<Rightarrow> ps \<noteq> []) \<and>
     rm_profile_id current = pp_id profile \<and> rm_profile_version current = pp_version profile \<and> requested \<noteq> []"

definition target_ok :: "reconciliation_case \<Rightarrow> string \<Rightarrow> write_operation \<Rightarrow> remote_object \<Rightarrow> json dict \<Rightarrow> bool" where
  "target_ok c target_ref w current requested \<longleftrightarrow>
     rm_object_type current = wo_target_object w \<and> target_ref \<in> set (rc_subject_ref c # rc_affected_refs c) \<and>
     {''target_id'', ''before_version''} \<subseteq> ab_source ` snd ` set (wo_arguments w) \<and>
     fst ` set requested \<subseteq> set (wo_allowed_fields w)"

text \<open>\<open>schema_lib\<close> pairs the two operations of the schema library.\<close>

type_synonym schema_lib = "(json \<Rightarrow> bool) \<times> (json dict \<Rightarrow> json dict \<Rightarrow> bool)"

definition make_plan ::
  "(datetime \<Rightarrow> string) \<Rightarrow> schema_lib \<Rightarrow> reconciliation_case \<Rightarrow> provider_profile \<Rightarrow> provider_binding \<Rightarrow> string \<Rightarrow>
     write_operation \<Rightarrow> remote_object \<Rightarrow> json dict \<Rightarrow> string \<Rightarrow> string list dict \<Rightarrow> ResolutionAction \<Rightarrow> datetime \<Rightarrow>
     write_plan res" where
  "make_plan isoformat lib c profile b operation_name w current requested actor identity_aliases action now =
     (let before = rm_content current; after = merge_fields before requested;
          principals_of = (case map_of (pb_actor_principals b) actor of None \<Rightarrow> [] | Some ps \<Rightarrow> ps) in
      if json_equal after before then Inl WritePlanError
      else
        res_bind (expected_arguments (snd lib) w (rm_id current) (rm_version current) after) (\<lambda>arguments.
        res_bind (provider_binding_hash b) (\<lambda>binding_hash.
        res_bind (provider_write_contract_hash (fst lib) profile b operation_name) (\<lambda>contract_hash.
        res_bind (identity_aliases_for identity_aliases actor principals_of) (\<lambda>creator_aliases.
        case map_of (pb_tools b) operation_name of
          None \<Rightarrow> Inl (KeyError operation_name)
        | Some tool \<Rightarrow>
            let p = \<lparr>wp_id = [], wp_case_id = rc_id c, wp_connector_id = rm_connector_id current,
                 wp_profile_id = rm_profile_id current, wp_profile_version = rm_profile_version current,
                 wp_object_type = rm_object_type current, wp_target_ref = pp_id profile @ '':'' @ rm_id current,
                 wp_binding_hash = binding_hash, wp_write_contract_hash = contract_hash,
                 wp_operation = wo_semantic_name w, wp_provider_operation = tool, wp_resolution_action = action,
                 wp_target_id = rm_id current, wp_before_version = rm_version current, wp_before = before,
                 wp_after = after, wp_arguments = arguments, wp_evidence_refs = all_evidence_refs c,
                 wp_conflicting_authors = conflicting_authors c, wp_created_by = actor,
                 wp_created_by_aliases = creator_aliases, wp_created_at = now, wp_expires_at = now + MAX_WINDOW\<rparr> in
            validate_plan isoformat (p\<lparr>wp_id := write_plan_id (plan_material isoformat p)\<rparr>))))))"

definition build_write_plan ::
  "(datetime \<Rightarrow> string) \<Rightarrow> schema_lib \<Rightarrow> reconciliation_case \<Rightarrow> provider_profile \<Rightarrow> provider_binding \<Rightarrow> string \<Rightarrow>
     remote_object \<Rightarrow> json dict \<Rightarrow> string \<Rightarrow> string list \<Rightarrow> string list dict \<Rightarrow> ResolutionAction \<Rightarrow> datetime \<Rightarrow>
     write_plan res" where
  "build_write_plan isoformat lib c profile b operation_name current requested actor contributors identity_aliases action now =
     (let checked =
        res_bind (validate_case c) (\<lambda>c.
        res_bind (validate_profile (fst lib) profile) (\<lambda>profile.
        res_bind (validate_binding b) (\<lambda>b.
        res_bind (validate_against b profile) (\<lambda>_.
        res_bind (validate_remote_object current) (\<lambda>current.
        if \<not> plan_inputs_ok c profile b operation_name current requested actor contributors then Inl WritePlanError
        else case map_of (pp_writes profile) operation_name of
          None \<Rightarrow> Inl (KeyError operation_name)
        | Some w \<Rightarrow>
            if \<not> target_ok c (pp_id profile @ '':'' @ rm_id current) w current requested then Inl WritePlanError
            else make_plan isoformat lib c profile b operation_name w current requested actor identity_aliases action now)))))
      in case checked of Inl _ \<Rightarrow> Inl WritePlanError | Inr p \<Rightarrow> Inr p)"

section \<open>Authorization\<close>

definition binding_matches :: "write_plan \<Rightarrow> provider_binding \<Rightarrow> bool" where
  "binding_matches p b \<longleftrightarrow>
     pb_profile_id b = wp_profile_id p \<and> pb_profile_version b = wp_profile_version p \<and>
     provider_binding_hash b = Inr (wp_binding_hash p)"

definition approver_aliases :: "write_plan \<Rightarrow> provider_binding \<Rightarrow> string \<Rightarrow> string list dict \<Rightarrow> string list option" where
  "approver_aliases p b actor identity_aliases =
     (case (map_of (pb_actor_principals b) (wp_created_by p), map_of (pb_actor_principals b) actor) of
        (Some creator_principals, Some actor_principals) \<Rightarrow>
          if creator_principals = [] \<or> actor_principals = [] then None
          else
            (case (identity_aliases_for identity_aliases (wp_created_by p) creator_principals,
                   identity_aliases_for identity_aliases actor actor_principals) of
               (Inr creator_aliases, Inr actor_aliases) \<Rightarrow>
                 if creator_aliases \<noteq> wp_created_by_aliases p \<or>
                    set actor_aliases \<inter> set (wp_created_by_aliases p) \<noteq> {} \<or>
                    set actor_aliases \<inter> set (wp_conflicting_authors p) \<noteq> {}
                 then None else Some actor_aliases
             | _ \<Rightarrow> None)
      | _ \<Rightarrow> None)"

definition authenticated_approval_aliases ::
  "(datetime \<Rightarrow> string) \<Rightarrow> write_plan \<Rightarrow> provider_binding \<Rightarrow> string \<Rightarrow> string list \<Rightarrow> string list \<Rightarrow> string list dict \<Rightarrow>
     string list option" where
  "authenticated_approval_aliases isoformat p b actor contributors approvers identity_aliases =
     (case res_bind (validate_plan isoformat p) (\<lambda>p. res_bind (validate_binding b) (\<lambda>b. Inr (p, b))) of
        Inl _ \<Rightarrow> None
      | Inr (p, b) \<Rightarrow>
          if is_blank actor \<or> \<not> exact_policy contributors \<or> \<not> exact_policy approvers \<or>
             wp_created_by p \<notin> set contributors \<or> actor \<notin> set approvers \<or> actor = wp_created_by p \<or>
             actor \<in> set (wp_conflicting_authors p) \<or> \<not> binding_matches p b
          then None
          else approver_aliases p b actor identity_aliases)"

section \<open>Approval\<close>

definition make_approval ::
  "(datetime \<Rightarrow> string) \<Rightarrow> write_plan \<Rightarrow> string \<Rightarrow> string list \<Rightarrow> datetime \<Rightarrow> datetime \<Rightarrow> approval_record res" where
  "make_approval isoformat p actor actor_aliases approved_at expires_at =
     (let a = \<lparr>ap_id = [], ap_plan_id = wp_id p, ap_plan_hash = plan_hash isoformat p,
          ap_target_version = wp_before_version p, ap_actor = actor, ap_actor_aliases = sorted_set actor_aliases,
          ap_plan_created_at = wp_created_at p, ap_plan_expires_at = wp_expires_at p,
          ap_approved_at = approved_at, ap_expires_at = expires_at\<rparr> in
      validate_approval isoformat (a\<lparr>ap_id := approval_id (approval_material isoformat a)\<rparr>))"

definition approval_result ::
  "(datetime \<Rightarrow> string) \<Rightarrow> write_plan \<Rightarrow> provider_binding \<Rightarrow> string \<Rightarrow> datetime \<Rightarrow> int \<Rightarrow> string \<Rightarrow> bool \<Rightarrow> string list \<Rightarrow>
     string list dict \<Rightarrow> approval_record option" where
  "approval_result isoformat p b actor now expires_in confirmation interactive approvers identity_aliases =
     (case res_bind (validate_plan isoformat p) (\<lambda>p. res_bind (validate_binding b) (\<lambda>b. Inr (p, b))) of
        Inl _ \<Rightarrow> None
      | Inr (p, b) \<Rightarrow>
          if is_blank actor \<or> expires_in \<le> 0 \<or> expires_in > MAX_WINDOW \<or> \<not> interactive \<or>
             confirmation \<noteq> ''approve '' @ wp_id p \<or> \<not> exact_policy approvers
          then None
          else
            (case authenticated_approval_aliases isoformat p b actor [wp_created_by p] approvers identity_aliases of
               None \<Rightarrow> None
             | Some actor_aliases \<Rightarrow>
                 if set actor_aliases \<inter> set (wp_created_by_aliases p) \<noteq> {} \<or>
                    set actor_aliases \<inter> set (wp_conflicting_authors p) \<noteq> {} \<or>
                    now < wp_created_at p \<or> wp_expires_at p \<le> now
                 then None
                 else
                   let expires_at = min (now + expires_in) (wp_expires_at p) in
                   if expires_at \<le> now then None
                   else (case make_approval isoformat p actor actor_aliases now expires_at of
                      Inl _ \<Rightarrow> None | Inr a \<Rightarrow> Some a)))"

definition approve_plan ::
  "(datetime \<Rightarrow> string) \<Rightarrow> write_plan \<Rightarrow> provider_binding \<Rightarrow> string \<Rightarrow> datetime \<Rightarrow> int \<Rightarrow> string \<Rightarrow> bool \<Rightarrow> string list \<Rightarrow>
     string list dict \<Rightarrow> approval_record res" where
  "approve_plan isoformat p b actor now expires_in confirmation interactive approvers identity_aliases =
     (case approval_result isoformat p b actor now expires_in confirmation interactive approvers identity_aliases of
        None \<Rightarrow> Inl ApprovalError | Some a \<Rightarrow> Inr a)"

section \<open>Lemmas\<close>

lemma validate_simps [simp]:
  "validate_plan isoformat p = Inr q \<longleftrightarrow> q = p \<and> plan_error isoformat p = None"
  "validate_approval isoformat a = Inr d \<longleftrightarrow> d = a \<and> approval_error isoformat a = None"
  "validate_binding b = Inr c \<longleftrightarrow> c = b \<and> binding_error b = None"
  "validate_profile check_schema f = Inr g \<longleftrightarrow> g = f \<and> profile_error check_schema f = None"
  by (auto simp: validate_plan_def validate_approval_def validate_binding_def validate_profile_def split: option.splits)

lemma identity_aliases_for_Inr:
  "identity_aliases_for aliases actor ps = Inr xs \<Longrightarrow>
     \<exists>as. map_of aliases actor = Some as \<and> set xs = set as \<and> actor \<in> set xs \<and> set ps \<subseteq> set xs"
  by (auto simp: identity_aliases_for_def split: option.splits if_splits)

lemma approver_aliases_Some:
  assumes "approver_aliases p b actor aliases = Some xs"
  shows "set xs \<inter> set (wp_created_by_aliases p) = {}" "set xs \<inter> set (wp_conflicting_authors p) = {}"
    "\<exists>as. map_of aliases actor = Some as \<and> set xs = set as \<and> actor \<in> set xs"
  using assms by (auto simp: approver_aliases_def dest: identity_aliases_for_Inr split: option.splits if_splits sum.splits)

lemma authenticated_Some:
  assumes "authenticated_approval_aliases isoformat p b actor contributors approvers aliases = Some xs"
  shows "plan_error isoformat p = None" "actor \<in> set approvers" "wp_created_by p \<in> set contributors"
    "binding_matches p b" "approver_aliases p b actor aliases = Some xs"
  using assms by (auto simp: authenticated_approval_aliases_def res_simps split: sum.splits if_splits)

lemma map_of_fold_update:
  "map_of (fold (\<lambda>(k, v). AList.update k v) kvs d) k = (case map_of (rev kvs) k of None \<Rightarrow> map_of d k | Some v \<Rightarrow> Some v)"
  by (induction kvs rule: rev_induct) (auto simp: map_add_Some_iff split: option.splits)

text \<open>A plan that is named after its own material.\<close>

lemma named_plan:
  defines "named isoformat p \<equiv> p\<lparr>wp_id := write_plan_id (plan_material isoformat p)\<rparr>"
  shows "wp_id (named isoformat p) = ''write-plan:'' @ plan_hash isoformat (named isoformat p)"
    "tagged_hash ''write-plan:sha256:'' (wp_id (named isoformat p))"
proof -
  have same: "plan_material isoformat (named isoformat p) = plan_material isoformat p"
    by (simp add: named_def plan_material_def)
  have "wp_id (named isoformat p) = write_plan_id (plan_material isoformat p)"
    by (simp add: named_def)
  then show "wp_id (named isoformat p) = ''write-plan:'' @ plan_hash isoformat (named isoformat p)"
    "tagged_hash ''write-plan:sha256:'' (wp_id (named isoformat p))"
    by (simp_all only: plan_hash_def same write_plan_id_def [symmetric] tagged_canonical)
qed

lemma named_plan_error:
  "plan_error isoformat (p\<lparr>wp_id := write_plan_id (plan_material isoformat p)\<rparr>) = None \<longleftrightarrow>
     tagged_hash ''sha256:'' (wp_binding_hash p) \<and> tagged_hash ''sha256:'' (wp_write_contract_hash p) \<and>
     list_all mutation_text
       [wp_case_id p, wp_connector_id p, wp_profile_id p, wp_profile_version p, wp_object_type p, wp_target_ref p,
        wp_operation p, wp_provider_operation p, wp_target_id p, wp_before_version p, wp_created_by p] \<and>
     provenance (wp_evidence_refs p) \<and> provenance (wp_conflicting_authors p) \<and> provenance (wp_created_by_aliases p) \<and>
     wp_created_at p < wp_expires_at p \<and> wp_expires_at p - wp_created_at p \<le> MAX_WINDOW \<and>
     wp_created_by p \<in> set (wp_created_by_aliases p) \<and> wp_before p \<noteq> [] \<and> wp_after p \<noteq> [] \<and> wp_arguments p \<noteq> [] \<and>
     \<not> json_equal (wp_before p) (wp_after p)"
proof -
  let ?q = "p\<lparr>wp_id := write_plan_id (plan_material isoformat p)\<rparr>"
  have "field_error (tagged_hash ''write-plan:sha256:'' (wp_id ?q)) = None"
    "when_error (wp_id ?q \<noteq> ''write-plan:'' @ plan_hash isoformat ?q) message = None" for message
    using named_plan [of isoformat p] by (simp_all only: error_None)
  then show ?thesis
    unfolding plan_error_def by (auto simp only: first_error_None list.set ball_simps error_None simp_thms) auto
qed

section \<open>Properties\<close>

text \<open>C19: An approval is independent, informed and bounded in time. Whoever approves is an authorized
  approver none of whose known identities is one of the plan's creator or of an author of the conflicting
  evidence; has interactively confirmed the identity of exactly this plan; and the approval names the plan, its
  hash and the version of the target, lies within the plan's window and ends with it and within fifteen
  minutes.\<close>

theorem approval_independent:
  assumes "approve_plan isoformat p b actor now expires_in confirmation interactive approvers aliases = Inr a"
  shows "validate_plan isoformat p = Inr p \<and> validate_approval isoformat a = Inr a \<and>
    ap_plan_id a = wp_id p \<and> ap_plan_hash a = plan_hash isoformat p \<and> ap_target_version a = wp_before_version p \<and>
    actor \<in> set approvers \<and> ap_actor a = actor \<and> actor \<in> set (ap_actor_aliases a) \<and>
    (\<exists>as. map_of aliases actor = Some as \<and> set (ap_actor_aliases a) = set as) \<and>
    set (ap_actor_aliases a) \<inter> (set (wp_created_by_aliases p) \<union> set (wp_conflicting_authors p)) = {} \<and>
    interactive \<and> confirmation = ''approve '' @ wp_id p \<and>
    wp_created_at p \<le> now \<and> ap_approved_at a = now \<and> now < ap_expires_at a \<and>
    ap_expires_at a \<le> wp_expires_at p \<and> ap_expires_at a \<le> now + 900000000"
proof -
  from assms obtain xs where plan: "plan_error isoformat p = None"
    and auth: "authenticated_approval_aliases isoformat p b actor [wp_created_by p] approvers aliases = Some xs"
    and conf: "interactive" "confirmation = ''approve '' @ wp_id p" "expires_in \<le> MAX_WINDOW"
    and time: "wp_created_at p \<le> now" "now < min (now + expires_in) (wp_expires_at p)"
    and made: "make_approval isoformat p actor xs now (min (now + expires_in) (wp_expires_at p)) = Inr a"
    by (auto simp: approve_plan_def approval_result_def res_simps Let_def split: option.splits sum.splits if_splits)
  from made have a: "approval_error isoformat a = None" "ap_plan_id a = wp_id p" "ap_plan_hash a = plan_hash isoformat p"
    "ap_target_version a = wp_before_version p" "ap_actor a = actor" "set (ap_actor_aliases a) = set xs"
    "ap_approved_at a = now" "ap_expires_at a = min (now + expires_in) (wp_expires_at p)"
    by (auto simp: make_approval_def Let_def)
  note facts = authenticated_Some [OF auth] approver_aliases_Some [OF authenticated_Some(5) [OF auth]]
  show ?thesis
    using plan a conf time facts by (auto simp: MAX_WINDOW_def)
qed

text \<open>A plan describes one exact change. Every field of the target after the write is the requested
  value or the current one; requested fields are allowed by the operation; the target is one the case is
  about; and the plan names everyone whose evidence is in conflict and all of the case's evidence.\<close>

theorem plan_is_exact:
  assumes "build_write_plan isoformat lib c profile b operation_name current requested actor contributors aliases action now = Inr p"
  shows "validate_plan isoformat p = Inr p \<and>
    (\<exists>w. map_of (pp_writes profile) operation_name = Some w \<and> fst ` set requested \<subseteq> set (wo_allowed_fields w) \<and>
      wp_object_type p = wo_target_object w \<and>
      expected_arguments (snd lib) w (wp_target_id p) (wp_before_version p) (wp_after p) = Inr (wp_arguments p)) \<and>
    (\<forall>k. map_of (wp_after p) k =
      (case map_of (rev requested) k of None \<Rightarrow> map_of (rm_content current) k | Some v \<Rightarrow> Some v)) \<and>
    wp_before p = rm_content current \<and> wp_before_version p = rm_version current \<and> wp_target_id p = rm_id current \<and>
    wp_target_ref p \<in> set (rc_subject_ref c # rc_affected_refs c) \<and> rc_status c = NEEDS_HUMAN \<and>
    wp_evidence_refs p = all_evidence_refs c \<and>
    set (wp_conflicting_authors p) = (\<Union>s \<in> set (rc_evidence_sides c). set (sd_authors s)) \<and>
    wp_created_by p = actor \<and> actor \<in> set contributors"
proof -
  from assms obtain w where w: "map_of (pp_writes profile) operation_name = Some w"
    and inputs: "plan_inputs_ok c profile b operation_name current requested actor contributors"
    and target: "target_ok c (pp_id profile @ '':'' @ rm_id current) w current requested"
    and made: "make_plan isoformat lib c profile b operation_name w current requested actor aliases action now = Inr p"
    by (auto simp: build_write_plan_def res_simps validate_case_Inr_iff validate_remote_object_def Let_def
        split: sum.splits option.splits if_splits)
  from made have p: "plan_error isoformat p = None" "wp_after p = merge_fields (rm_content current) requested"
    "wp_before p = rm_content current" "wp_before_version p = rm_version current" "wp_target_id p = rm_id current"
    "wp_target_ref p = pp_id profile @ '':'' @ rm_id current" "wp_object_type p = rm_object_type current"
    "wp_evidence_refs p = all_evidence_refs c" "wp_conflicting_authors p = conflicting_authors c" "wp_created_by p = actor"
    "expected_arguments (snd lib) w (rm_id current) (rm_version current) (merge_fields (rm_content current) requested) =
      Inr (wp_arguments p)"
    by (auto simp: make_plan_def res_simps Let_def split: if_splits option.splits)
  show ?thesis
    using p w inputs target
    by (simp add: merge_fields_def map_of_fold_update plan_inputs_ok_def target_ok_def conflicting_authors_def)
qed

section \<open>A sample plan\<close>

declare hexdigest_def [code del]

definition sample_remote :: remote_object where
  "sample_remote =
     \<lparr>rm_connector_id = ''tracker'', rm_profile_id = ''tracker'', rm_profile_version = ''1'', rm_object_type = ''issue'',
      rm_id = ''7'', rm_version = ''v1'', rm_content = [(''title'', JStr ''old'')]\<rparr>"

definition sample_aliases :: "string list dict" where
  "sample_aliases = [(''ana'', [''ana'', ''ana@tracker'']), (''bo'', [''bo'', ''bo@tracker''])]"

definition unnamed_plan :: write_plan where
  "unnamed_plan =
     \<lparr>wp_id = [], wp_case_id = ''case-1'', wp_connector_id = ''tracker'', wp_profile_id = ''tracker'',
      wp_profile_version = ''1'', wp_object_type = ''issue'', wp_target_ref = ''tracker:7'',
      wp_binding_hash = canonical_hash (binding_dump sample_binding),
      wp_write_contract_hash = canonical_hash [], wp_operation = ''update'', wp_provider_operation = ''issues.update'',
      wp_resolution_action = UPDATE_REQUIREMENT, wp_target_id = ''7'', wp_before_version = ''v1'',
      wp_before = [(''title'', JStr ''old'')], wp_after = [(''title'', JStr ''new'')],
      wp_arguments = [(''id'', JStr ''7''), (''version'', JStr ''v1''), (''title'', JStr ''new'')],
      wp_evidence_refs = [''e1''], wp_conflicting_authors = [''eve''], wp_created_by = ''ana'',
      wp_created_by_aliases = [''ana'', ''ana@tracker''], wp_created_at = 0, wp_expires_at = MAX_WINDOW\<rparr>"

definition sample_plan :: write_plan where
  "sample_plan = unnamed_plan\<lparr>wp_id := write_plan_id (plan_material int_str unnamed_plan)\<rparr>"

lemma sample_plan_fields [simp]:
  "wp_case_id sample_plan = ''case-1''" "wp_connector_id sample_plan = ''tracker''" "wp_profile_id sample_plan = ''tracker''"
  "wp_profile_version sample_plan = ''1''" "wp_object_type sample_plan = ''issue''" "wp_target_ref sample_plan = ''tracker:7''"
  "wp_binding_hash sample_plan = canonical_hash (binding_dump sample_binding)"
  "wp_write_contract_hash sample_plan = canonical_hash []" "wp_operation sample_plan = ''update''"
  "wp_provider_operation sample_plan = ''issues.update''" "wp_target_id sample_plan = ''7''" "wp_before_version sample_plan = ''v1''"
  "wp_before sample_plan = [(''title'', JStr ''old'')]" "wp_after sample_plan = [(''title'', JStr ''new'')]"
  "wp_arguments sample_plan \<noteq> []" "wp_evidence_refs sample_plan = [''e1'']" "wp_conflicting_authors sample_plan = [''eve'']"
  "wp_created_by sample_plan = ''ana''" "wp_created_by_aliases sample_plan = [''ana'', ''ana@tracker'']"
  "wp_created_at sample_plan = 0" "wp_expires_at sample_plan = MAX_WINDOW"
  by (simp_all add: sample_plan_def unnamed_plan_def)

lemma sample_plan_id:
  "wp_id sample_plan = ''write-plan:'' @ plan_hash int_str sample_plan"
  "tagged_hash ''write-plan:sha256:'' (wp_id sample_plan)"
  unfolding sample_plan_def by (rule named_plan)+

lemma sample_texts:
  "list_all mutation_text [''case-1'', ''tracker'', ''1'', ''issue'', ''tracker:7'', ''update'', ''issues.update'', ''7'', ''v1'', ''ana'', ''bo'']"
  "provenance [''e1'']" "provenance [''eve'']" "provenance [''ana'', ''ana@tracker'']" "provenance [''bo'', ''bo@tracker'']"
  "\<not> json_equal [(''title'', JStr ''old'')] [(''title'', JStr ''new'')]"
  by code_simp+

lemma sample_plan_valid: "plan_error int_str sample_plan = None"
  unfolding plan_error_def first_error_None
  using sample_texts sample_plan_id by (simp add: MAX_WINDOW_def)

lemma sample_valid: "validate_plan int_str sample_plan = Inr sample_plan" "validate_binding sample_binding = Inr sample_binding"
  by (simp add: sample_plan_valid) (rule sample_profile_valid(2))

lemma sample_approver:
  "authenticated_approval_aliases int_str sample_plan sample_binding ''bo'' [''ana''] [''bo''] sample_aliases =
     Some [''bo'', ''bo@tracker'']"
proof -
  have "binding_matches sample_plan sample_binding"
    by (simp add: binding_matches_def provider_binding_hash_def sample_valid del: validate_simps) (simp add: sample_binding_def)
  moreover have "approver_aliases sample_plan sample_binding ''bo'' sample_aliases = Some [''bo'', ''bo@tracker'']"
    "\<not> is_blank ''bo''" "exact_policy [''ana'']" "exact_policy [''bo'']"
    by (simp only: approver_aliases_def sample_plan_fields, code_simp+)
  ultimately show ?thesis
    unfolding authenticated_approval_aliases_def by (simp add: sample_valid del: validate_simps)
qed

lemma sample_approval_made:
  "\<exists>a. make_approval int_str sample_plan ''bo'' [''bo'', ''bo@tracker''] 5 60000005 = Inr a"
proof -
  have "sorted_set [''bo'', ''bo@tracker''] = [''bo'', ''bo@tracker'']" by code_simp
  moreover have "tagged_hash ''sha256:'' (plan_hash int_str sample_plan)" by (simp add: plan_hash_def)
  ultimately show ?thesis
    using sample_texts sample_plan_id
    by (simp add: make_approval_def Let_def approval_error_def approval_material_def [abs_def] MAX_WINDOW_def)
qed

theorem approval_independent_witness:
  "\<exists>a. approve_plan int_str sample_plan sample_binding ''bo'' 5 60000000 (''approve '' @ wp_id sample_plan) True [''bo'']
       sample_aliases = Inr a \<and> ap_plan_id a = wp_id sample_plan \<and> ''ana'' \<notin> set (ap_actor_aliases a)"
proof -
  have "\<not> is_blank ''bo''" "exact_policy [''bo'']" by code_simp+
  then obtain a where run: "approve_plan int_str sample_plan sample_binding ''bo'' 5 60000000
      (''approve '' @ wp_id sample_plan) True [''bo''] sample_aliases = Inr a"
    using sample_approver sample_approval_made
    by (auto simp: approve_plan_def approval_result_def sample_valid MAX_WINDOW_def Let_def simp del: validate_simps)
  from approval_independent [OF this] show ?thesis using run by auto
qed

definition sample_review :: reconciliation_case where
  "sample_review =
     advance (advance ((sample_case ''case-1'')\<lparr>rc_subject_ref := ''tracker:7'', rc_affected_refs := [''tracker:7'']\<rparr>)
       PROPOSED ''ana'' 7 None None) NEEDS_HUMAN ''ana'' 8 None None"

lemma sample_hashes:
  "\<exists>h. provider_binding_hash sample_binding = Inr h \<and> tagged_hash ''sha256:'' h"
  "\<exists>h. provider_write_contract_hash (\<lambda>_. True) sample_profile sample_binding ''update'' = Inr h \<and> tagged_hash ''sha256:'' h"
proof -
  have "\<exists>m. contract_material sample_profile sample_binding ''update'' = Inr m"
    by (simp add: contract_material_def sample_profile_def sample_binding_def)
  then show "\<exists>h. provider_binding_hash sample_binding = Inr h \<and> tagged_hash ''sha256:'' h"
    "\<exists>h. provider_write_contract_hash (\<lambda>_. True) sample_profile sample_binding ''update'' = Inr h \<and> tagged_hash ''sha256:'' h"
    using sample_profile_valid
    by (auto simp: provider_binding_hash_def provider_write_contract_hash_def simp del: validate_simps)
qed

lemma sample_parts:
  "merge_fields (rm_content sample_remote) [(''title'', JStr ''new'')] = [(''title'', JStr ''new'')]"
  "rm_content sample_remote = [(''title'', JStr ''old'')]"
  "expected_arguments (\<lambda>_ _. True) sample_write (rm_id sample_remote) (rm_version sample_remote) [(''title'', JStr ''new'')] =
     Inr [(''id'', JStr ''7''), (''version'', JStr ''v1''), (''title'', JStr ''new'')]"
  "map_of (pb_actor_principals sample_binding) ''ana'' = Some [''ana@tracker'']"
  "identity_aliases_for sample_aliases ''ana'' [''ana@tracker''] = Inr [''ana'', ''ana@tracker'']"
  "map_of (pb_tools sample_binding) ''update'' = Some ''issues.update''"
  by code_simp+

lemma sample_plan_parts:
  "rc_id sample_review = ''case-1''" "conflicting_authors sample_review = [''ana'']"
  "all_evidence_refs sample_review = [''ev-1'']" "provenance [''ana'']" "provenance [''ev-1'']"
  "pp_id sample_profile = ''tracker''" "rm_connector_id sample_remote = ''tracker''"
  "rm_profile_id sample_remote = ''tracker''" "rm_profile_version sample_remote = ''1''"
  "rm_object_type sample_remote = ''issue''" "rm_id sample_remote = ''7''" "rm_version sample_remote = ''v1''"
  "wo_semantic_name sample_write = ''update''"
  by code_simp+

lemma sample_plan_made:
  "\<exists>p. make_plan int_str (\<lambda>_. True, \<lambda>_ _. True) sample_review sample_profile sample_binding ''update'' sample_write
     sample_remote [(''title'', JStr ''new'')] ''ana'' sample_aliases UPDATE_REQUIREMENT 9 = Inr p"
proof -
  obtain h where h: "provider_binding_hash sample_binding = Inr h" "tagged_hash ''sha256:'' h"
    using sample_hashes(1) by blast
  obtain k where k: "provider_write_contract_hash (\<lambda>_. True) sample_profile sample_binding ''update'' = Inr k"
    "tagged_hash ''sha256:'' k"
    using sample_hashes(2) by blast
  let ?p = "unnamed_plan\<lparr>wp_binding_hash := h, wp_write_contract_hash := k, wp_evidence_refs := [''ev-1''],
    wp_conflicting_authors := [''ana''], wp_created_at := 9, wp_expires_at := 9 + MAX_WINDOW\<rparr>"
  let ?q = "?p\<lparr>wp_id := write_plan_id (plan_material int_str ?p)\<rparr>"
  have "\<not> json_equal [(''title'', JStr ''new'')] [(''title'', JStr ''old'')]" by code_simp
  then have "make_plan int_str (\<lambda>_. True, \<lambda>_ _. True) sample_review sample_profile sample_binding ''update'' sample_write
     sample_remote [(''title'', JStr ''new'')] ''ana'' sample_aliases UPDATE_REQUIREMENT 9 = validate_plan int_str ?q"
    using h k sample_plan_parts sample_parts
    by (simp add: make_plan_def Let_def unnamed_plan_def del: validate_simps)
  moreover have "plan_error int_str ?q = None"
    unfolding named_plan_error using sample_texts sample_plan_parts h k by (simp add: unnamed_plan_def MAX_WINDOW_def)
  ultimately show ?thesis by simp
qed

theorem plan_is_exact_witness:
  "\<exists>p. build_write_plan int_str (\<lambda>_. True, \<lambda>_ _. True) sample_review sample_profile sample_binding ''update'' sample_remote
       [(''title'', JStr ''new'')] ''ana'' [''ana''] sample_aliases UPDATE_REQUIREMENT 9 = Inr p \<and>
     map_of (wp_after p) ''title'' = Some (JStr ''new'') \<and> wp_evidence_refs p = [''ev-1'']"
proof -
  let ?lib = "(\<lambda>_. True, \<lambda>_ _. True) :: schema_lib" and ?requested = "[(''title'', JStr ''new'')]"
  have checks: "validate_case sample_review = Inr sample_review" "validate_remote_object sample_remote = Inr sample_remote"
    "plan_inputs_ok sample_review sample_profile sample_binding ''update'' sample_remote ?requested ''ana'' [''ana'']"
    "map_of (pp_writes sample_profile) ''update'' = Some sample_write"
    "target_ok sample_review (pp_id sample_profile @ '':'' @ rm_id sample_remote) sample_write sample_remote ?requested"
    by code_simp+
  have made: "\<exists>p. make_plan int_str ?lib sample_review sample_profile sample_binding ''update'' sample_write sample_remote
      ?requested ''ana'' sample_aliases UPDATE_REQUIREMENT 9 = Inr p"
    by (rule sample_plan_made)
  then obtain p where run: "build_write_plan int_str ?lib sample_review sample_profile sample_binding ''update'' sample_remote
      ?requested ''ana'' [''ana''] sample_aliases UPDATE_REQUIREMENT 9 = Inr p"
    using checks sample_profile_valid by (auto simp: build_write_plan_def Let_def simp del: validate_simps)
  have "all_evidence_refs sample_review = [''ev-1'']" "rm_content sample_remote = [(''title'', JStr ''old'')]" by code_simp+
  with plan_is_exact [OF run] run show ?thesis by auto
qed

end
