(* ===== verification/Plan_Store.thy ===== *)
theory Plan_Store
  imports Ledger Write_Approval
begin

text \<open>
  The immutable ledgers of write plans and approvals (\<open>storage/jsonl/approval_store.py\<close>). The state is the
  content of the file. A model record stands for the stored class: its identity, Python's equality on it,
  its validators, its dump, and Pydantic's reading of one object (\<open>None\<close> is the validation error).
\<close>

record 'a mutation_model =
  mm_id :: "'a \<Rightarrow> string"
  mm_equal :: "'a \<Rightarrow> 'a \<Rightarrow> bool"
  mm_validate :: "'a \<Rightarrow> 'a res"
  mm_dump :: "'a \<Rightarrow> json dict"
  mm_read :: "string \<Rightarrow> 'a option"

text \<open>Plans are equal when their JSON objects are equal dictionaries and everything else agrees.\<close>

definition plan_equal :: "write_plan \<Rightarrow> write_plan \<Rightarrow> bool" where
  "plan_equal p q \<longleftrightarrow>
     json_equal (wp_before p) (wp_before q) \<and> json_equal (wp_after p) (wp_after q) \<and>
     json_equal (wp_arguments p) (wp_arguments q) \<and>
     p\<lparr>wp_before := [], wp_after := [], wp_arguments := []\<rparr> = q\<lparr>wp_before := [], wp_after := [], wp_arguments := []\<rparr>"

definition plan_model :: "(datetime \<Rightarrow> string) \<Rightarrow> (string \<Rightarrow> write_plan option) \<Rightarrow> write_plan mutation_model" where
  "plan_model isoformat read =
     \<lparr>mm_id = wp_id, mm_equal = plan_equal, mm_validate = validate_plan isoformat,
      mm_dump = (\<lambda>p. (''id'', JStr (wp_id p)) # plan_material isoformat p), mm_read = read\<rparr>"

definition approval_model ::
  "(datetime \<Rightarrow> string) \<Rightarrow> (string \<Rightarrow> approval_record option) \<Rightarrow> approval_record mutation_model" where
  "approval_model isoformat read =
     \<lparr>mm_id = ap_id, mm_equal = (=), mm_validate = validate_approval isoformat,
      mm_dump = (\<lambda>a. (''id'', JStr (ap_id a)) # approval_material isoformat a), mm_read = read\<rparr>"

section \<open>Decoding\<close>

definition decode_record :: "'a mutation_model \<Rightarrow> string \<Rightarrow> 'a option" where
  "decode_record m line =
     (if is_blank line then None
      else
        (case loads_strict_object line of
           Inl _ \<Rightarrow> None
         | Inr payload \<Rightarrow> mm_read m (dumps False (JObj payload))))"

text \<open>The records by identity, each with the line it was first read from.\<close>

fun decode_records :: "'a mutation_model \<Rightarrow> string list \<Rightarrow> ('a \<times> string) dict \<Rightarrow> ('a \<times> string) dict option" where
  "decode_records m [] d = Some d"
| "decode_records m (line # lines) d =
     (case decode_record m line of
        None \<Rightarrow> None
      | Some r \<Rightarrow>
          (case map_of d (mm_id m r) of
             None \<Rightarrow> decode_records m lines (d @ [(mm_id m r, r, line)])
           | Some (existing, encoding) \<Rightarrow>
               if \<not> mm_equal m existing r \<or> encoding \<noteq> line then None else decode_records m lines d))"

definition rebuild_records :: "'a mutation_model \<Rightarrow> string option \<Rightarrow> ('a \<times> string) dict res" where
  "rebuild_records m content =
     (case decode_records m (case content of None \<Rightarrow> [] | Some t \<Rightarrow> splitlines t) [] of
        None \<Rightarrow> Inl (MutationStoreError ''invalid mutation store'')
      | Some d \<Rightarrow> Inr d)"

section \<open>Operations\<close>

definition serialize_record :: "'a mutation_model \<Rightarrow> 'a \<Rightarrow> string" where
  "serialize_record m r = json_line (mm_dump m r)"

datatype put_outcome = Added | Duplicate | Invalid_Record | Conflict

definition put_result :: "'a mutation_model \<Rightarrow> 'a \<Rightarrow> string option \<Rightarrow> put_outcome \<times> string option" where
  "put_result m r content =
     (case mm_validate m r of
        Inl _ \<Rightarrow> (Invalid_Record, content)
      | Inr r \<Rightarrow>
          (case rebuild_records m content of
             Inl _ \<Rightarrow> (Invalid_Record, content)
           | Inr d \<Rightarrow>
               (case map_of d (mm_id m r) of
                  Some (existing, _) \<Rightarrow> (if \<not> mm_equal m existing r then Conflict else Duplicate, content)
                | None \<Rightarrow> (Added, append_text content (serialize_record m r)))))"

definition put_record :: "'a mutation_model \<Rightarrow> 'a \<Rightarrow> string option \<Rightarrow> (bool \<times> string option) res" where
  "put_record m r content =
     (case put_result m r content of
        (Invalid_Record, _) \<Rightarrow> Inl (MutationStoreError ''invalid mutation record'')
      | (Conflict, _) \<Rightarrow> Inl ConflictingMutationId
      | (outcome, content') \<Rightarrow> Inr (outcome = Added, content'))"

definition get_record :: "'a mutation_model \<Rightarrow> string option \<Rightarrow> string \<Rightarrow> 'a res" where
  "get_record m content record_id =
     res_bind (rebuild_records m content) (\<lambda>d.
       case map_of d record_id of None \<Rightarrow> Inl (KeyError record_id) | Some (r, _) \<Rightarrow> Inr r)"

definition list_records :: "'a mutation_model \<Rightarrow> string option \<Rightarrow> 'a list res" where
  "list_records m content = res_bind (rebuild_records m content) (\<lambda>d. Inr (map (fst \<circ> snd) d))"

section \<open>The ledger\<close>

text \<open>What is relied on of Pydantic: the line a record prints is one line and reads back as the record.\<close>

definition storable_record :: "'a mutation_model \<Rightarrow> 'a \<Rightarrow> bool" where
  "storable_record m r \<longleftrightarrow>
     decode_record m (dumps False (JObj (mm_dump m r))) = Some r \<and> one_line (dumps False (JObj (mm_dump m r)))"

definition new_record :: "'a mutation_model \<Rightarrow> 'a list \<Rightarrow> 'a \<Rightarrow> bool" where
  "new_record m rs r \<longleftrightarrow> storable_record m r \<and> mm_id m r \<notin> mm_id m ` set rs"

lemma decode_records_append:
  "decode_records m (xs @ ys) d =
     (case decode_records m xs d of None \<Rightarrow> None | Some d' \<Rightarrow> decode_records m ys d')"
  by (induction xs arbitrary: d) (auto split: option.split)

lemma decode_records_keys:
  "decode_records m lines d = Some d' \<Longrightarrow> list_all (\<lambda>(k, r, l). k = mm_id m r) d \<Longrightarrow>
     list_all (\<lambda>(k, r, l). k = mm_id m r) d'"
  by (induction lines arbitrary: d) (auto split: option.splits if_splits)

lemma rebuild_text: "rebuild_records m content =
    (case decode_records m (splitlines (text_of content)) [] of
       None \<Rightarrow> Inl (MutationStoreError ''invalid mutation store'') | Some d \<Rightarrow> Inr d)"
  by (cases content) (simp_all add: rebuild_records_def splitlines.simps)

lemma rebuild_keys: "rebuild_records m content = Inr d \<Longrightarrow> fst ` set d = mm_id m ` set (map (fst \<circ> snd) d)"
  using decode_records_keys [of m "splitlines (text_of content)" "[]" d]
  by (force simp: rebuild_text image_image list_all_iff split: option.splits)

lemma rebuild_append:
  assumes "rebuild_records m content = Inr d" "complete_lines (text_of content)"
    and "storable_record m r" "mm_id m r \<notin> fst ` set d"
  shows "rebuild_records m (append_text content (serialize_record m r)) =
    Inr (d @ [(mm_id m r, r, dumps False (JObj (mm_dump m r)))])"
proof -
  have "splitlines (serialize_record m r) = [dumps False (JObj (mm_dump m r))]"
    using assms(3) by (simp only: storable_record_def serialize_record_def json_line)
  moreover have "map_of d (mm_id m r) = None"
    using assms(4) by (simp only: map_of_eq_None_iff not_False_eq_True)
  moreover have "decode_records m (splitlines (text_of content)) [] = Some d"
    using assms(1) by (simp add: rebuild_text split: option.splits)
  ultimately show ?thesis
    using assms(2,3) by (simp add: rebuild_text splitlines_append decode_records_append storable_record_def
        del: dumps.simps map_of_eq_Some_iff)
qed

interpretation record_file: append_ledger "list_records m" "serialize_record m" "new_record m" for m :: "'a mutation_model"
proof
  show "list_records m None = Inr []"
    by (simp add: list_records_def rebuild_records_def)
  show "list_records m (Some (text_of content)) = list_records m content" for content
    by (simp add: list_records_def rebuild_text)
  show "complete_lines (serialize_record m x)" for x
    by (simp add: serialize_record_def)
  show "list_records m (append_text content (serialize_record m r)) = Inr (rs @ [r])"
    if "list_records m content = Inr rs" "complete_lines (text_of content)" "new_record m rs r" for content rs r
    using that rebuild_append [of m content] rebuild_keys [of m content]
    by (auto simp: list_records_def res_bind_Inr_iff new_record_def)
qed

section \<open>Properties\<close>

text \<open>Plans and approvals are immutable. After a successful put the record, or one equal to it that was
  already there, is what its identity names; every record that could be read before is read back unchanged,
  and no other identity becomes known. Only a record with a new identity changes the file.\<close>

theorem put_record_immutable:
  assumes "put_record m r content = Inr (added, content')" "mm_validate m r = Inr r" "mm_equal m r r"
    and "complete_lines (text_of content)" "storable_record m r"
  shows "(\<exists>x. get_record m content' (mm_id m r) = Inr x \<and> mm_equal m x r) \<and>
    (\<forall>k y. get_record m content k = Inr y \<longrightarrow> get_record m content' k = Inr y) \<and>
    (\<forall>k. k \<noteq> mm_id m r \<longrightarrow> get_record m content' k = get_record m content k) \<and>
    (added \<longleftrightarrow> get_record m content (mm_id m r) = Inl (KeyError (mm_id m r))) \<and> (\<not> added \<longrightarrow> content' = content)"
proof -
  from assms(1,2) obtain d where d: "rebuild_records m content = Inr d"
    and run: "(case map_of d (mm_id m r) of
        Some (existing, _) \<Rightarrow> mm_equal m existing r \<and> \<not> added \<and> content' = content
      | None \<Rightarrow> added \<and> content' = append_text content (serialize_record m r))"
    by (auto simp: put_record_def put_result_def simp del: map_of_eq_Some_iff
        split: sum.splits option.splits put_outcome.splits prod.splits if_splits)
  show ?thesis
  proof (cases "map_of d (mm_id m r)")
    case None
    then have "mm_id m r \<notin> fst ` set d" by (simp only: map_of_eq_None_iff not_False_eq_True)
    from rebuild_append [OF d assms(4,5) this] run None
    have d': "rebuild_records m content' = Inr (d @ [(mm_id m r, r, dumps False (JObj (mm_dump m r)))])" by simp
    show ?thesis
      using d d' run None assms(3)
      by (auto simp: get_record_def map_add_def simp del: map_of_eq_Some_iff dumps.simps split: option.splits)
  next
    case (Some p)
    then show ?thesis
      using d run by (cases p) (auto simp: get_record_def simp del: map_of_eq_Some_iff)
  qed
qed

text \<open>A different record under a known identity is refused.\<close>

lemma put_record_conflict:
  assumes "mm_validate m r = Inr r" "get_record m content (mm_id m r) = Inr x" "\<not> mm_equal m x r"
  shows "put_record m r content = Inl ConflictingMutationId"
  using assms by (auto simp: put_record_def put_result_def get_record_def res_bind_Inr_iff simp del: map_of_eq_Some_iff
      split: option.splits)

lemma decode_record_dumps:
  assumes "wf_json (JObj kvs)" "canon (JObj kvs) = JObj kvs'"
  shows "decode_record m (dumps False (JObj kvs)) = mm_read m (dumps False (JObj kvs'))"
  using loads_object_dumps [OF assms, of False] json_not_blank [of False kvs "[]"]
  by (simp add: decode_record_def del: dumps.simps)

definition sample_plan_model :: "write_plan mutation_model" where
  "sample_plan_model = plan_model int_str (\<lambda>line.
     if line = dumps False (canon (JObj ((''id'', JStr (wp_id sample_plan)) # plan_material int_str sample_plan)))
     then Some sample_plan else None)"

lemma hash_no_break: "tagged_hash tag h \<Longrightarrow> CHR 0x85 \<notin> set tag \<Longrightarrow> CHR 0x85 \<notin> set h"
proof -
  assume h: "tagged_hash tag h" "CHR 0x85 \<notin> set tag"
  then have "list_all hex_char (drop (length tag) h)" "take (length tag) h = tag"
    by (auto simp: tagged_hash_def hex64_def starts_with_def)
  moreover have "\<not> hex_char (CHR 0x85)" by code_simp
  ultimately have "CHR 0x85 \<notin> set (take (length tag) h @ drop (length tag) h)"
    using h(2) by (simp only: set_append list_all_iff) blast
  then show ?thesis by simp
qed

lemma nat_str_no_nel: "CHR 0x85 \<notin> set (nat_str n)"
proof -
  have "\<not> is_digit (CHR 0x85)" by code_simp
  then show ?thesis using nat_str_digits [of n] by (auto simp: list_all_iff)
qed

lemma sample_plan_storable: "storable_record sample_plan_model sample_plan"
proof -
  let ?d = "(''id'', JStr (wp_id sample_plan)) # plan_material int_str sample_plan"
  have dump: "mm_dump sample_plan_model sample_plan = ?d"
    by (simp add: sample_plan_model_def plan_model_def)
  have wf: "wf_json (JObj ?d)"
    by (simp add: plan_material_def strs_def sample_plan_def unnamed_plan_def)
  have ascii: "CHR 0x85 \<notin> set (wp_id sample_plan)" "CHR 0x85 \<notin> set (wp_binding_hash sample_plan)"
    "CHR 0x85 \<notin> set (wp_write_contract_hash sample_plan)"
    by (rule hash_no_break [of "''write-plan:sha256:''"] hash_no_break [of "''sha256:''"];
        use sample_plan_id(2) in \<open>simp add: sample_plan_def unnamed_plan_def\<close>)+
  have "\<forall>s \<in> set (json_strings (JObj ?d)). CHR 0x85 \<notin> set s"
    using ascii by (auto simp: plan_material_def strs_def sample_plan_def unnamed_plan_def int_str_def nat_str_no_nel)
  then have "one_line (dumps False (JObj ?d))" using one_line_dumps [OF wf] by blast
  moreover obtain kvs where kvs: "canon (JObj ?d) = JObj kvs" by simp
  moreover have "mm_read sample_plan_model (dumps False (JObj kvs)) = Some sample_plan"
    by (simp only: sample_plan_model_def plan_model_def mutation_model.simps kvs) simp
  ultimately show ?thesis
    unfolding storable_record_def dump by (simp only: decode_record_dumps [OF wf kvs] simp_thms)
qed

lemma sample_plan_model_simps:
  "mm_id sample_plan_model = wp_id" "mm_validate sample_plan_model = validate_plan int_str"
  "mm_equal sample_plan_model p p"
  by (simp_all add: sample_plan_model_def plan_model_def plan_equal_def json_equal_def)

lemma sample_plan_put:
  "put_record sample_plan_model sample_plan None =
     Inr (True, append_text None (serialize_record sample_plan_model sample_plan))"
  by (simp add: put_record_def put_result_def sample_plan_model_simps sample_valid rebuild_records_def del: validate_simps)

theorem put_record_immutable_witness:
  "\<exists>x. get_record sample_plan_model (append_text None (serialize_record sample_plan_model sample_plan)) (wp_id sample_plan) = Inr x \<and>
     mm_equal sample_plan_model x sample_plan"
  using put_record_immutable [OF sample_plan_put _ _ _ sample_plan_storable] sample_valid(1)
  by (simp add: sample_plan_model_simps del: validate_simps)

end
