(* ===== verification/Write_Executor.thy ===== *)
theory Write_Executor
  imports Receipt_Store Plan_Store
begin

text \<open>
  Execution of an approved external write (\<open>mutations/executor.py\<close>). One call of \<open>execute\<close> is a sequence of
  phases, one for every operation on the stores and every call of the provider; between two of them other
  executors run, so the system is the interleaving of their steps on one shared store, each of which may
  also be interrupted before or after its effect. The stores and the committer are the operations the
  executor is constructed with, on a state of their own; the provider's answers are arbitrary.
\<close>

section \<open>The executor\<close>

record 's exec_services =
  es_plan :: "string \<Rightarrow> ('s, write_plan) act"
  es_approval :: "string \<Rightarrow> ('s, approval_record) act"
  es_get :: "string \<Rightarrow> string \<Rightarrow> ('s, execution_receipt option) act"
  es_claim :: "string \<Rightarrow> string \<Rightarrow> string \<Rightarrow> datetime \<Rightarrow> ('s, bool) act"
  es_complete :: "execution_receipt \<Rightarrow> ('s, bool) act"
  es_commit :: "execution_receipt \<Rightarrow> write_plan \<Rightarrow> approval_record \<Rightarrow> write_result \<Rightarrow> ('s, unit) act"

record write_authority =
  wa_isoformat :: "datetime \<Rightarrow> string"
  wa_schemas :: schema_lib
  wa_profile :: provider_profile
  wa_binding :: provider_binding
  wa_contributors :: "string list"
  wa_approvers :: "string list"
  wa_executors :: "string list"
  wa_aliases :: "string list dict"

record exec_request =
  xq_plan_id :: string
  xq_approval_id :: string
  xq_actor :: string
  xq_now :: datetime

datatype gateway_answer = Target remote_object | Written write_result | Denied | Broken | Aborting

datatype 'a provider_status = Provided 'a | Refused | Unusable | Aborted

definition fetch_target_safely :: "gateway_answer \<Rightarrow> remote_object provider_status" where
  "fetch_target_safely answer =
     (case answer of
        Target r \<Rightarrow> (case validate_remote_object r of Inl _ \<Rightarrow> Unusable | Inr r \<Rightarrow> Provided r)
      | Denied \<Rightarrow> Refused | Aborting \<Rightarrow> Aborted | _ \<Rightarrow> Unusable)"

definition execute_provider_safely :: "string \<Rightarrow> gateway_answer \<Rightarrow> write_result provider_status" where
  "execute_provider_safely before_version answer =
     (case answer of
        Written r \<Rightarrow>
          (case validate_write_result r of
             Inl _ \<Rightarrow> Unusable
           | Inr r \<Rightarrow> if wr_resulting_version r = before_version then Unusable else Provided r)
      | Denied \<Rightarrow> Refused | Aborting \<Rightarrow> Aborted | _ \<Rightarrow> Unusable)"

section \<open>Validated inputs\<close>

text \<open>Plan, approval, profile and binding belong together and to the actor.\<close>

definition inputs_agree :: "write_authority \<Rightarrow> exec_request \<Rightarrow> write_plan \<Rightarrow> approval_record \<Rightarrow> bool" where
  "inputs_agree x rq p a \<longleftrightarrow>
     wp_created_by p \<in> set (wa_contributors x) \<and> ap_actor a \<in> set (wa_approvers x) \<and>
     xq_actor rq \<in> set (wa_executors x) \<and> xq_actor rq = ap_actor a \<and> ap_plan_id a = wp_id p \<and>
     ap_plan_hash a = plan_hash (wa_isoformat x) p \<and> ap_target_version a = wp_before_version p \<and>
     ap_plan_created_at a = wp_created_at p \<and> ap_plan_expires_at a = wp_expires_at p \<and>
     pp_id (wa_profile x) = wp_profile_id p \<and> pp_version (wa_profile x) = wp_profile_version p \<and>
     provider_binding_hash (wa_binding x) = Inr (wp_binding_hash p)"

text \<open>The plan is still what the provider's profile and binding say.\<close>

definition contract_agrees :: "write_authority \<Rightarrow> write_plan \<Rightarrow> bool" where
  "contract_agrees x p \<longleftrightarrow>
     (case map_of (pp_writes (wa_profile x)) (wp_operation p) of
        None \<Rightarrow> False
      | Some w \<Rightarrow>
          wo_target_object w = wp_object_type p \<and> wp_target_ref p = pp_id (wa_profile x) @ '':'' @ wp_target_id p \<and>
          map_of (pb_tools (wa_binding x)) (wp_operation p) = Some (wp_provider_operation p) \<and>
          provider_write_contract_hash (fst (wa_schemas x)) (wa_profile x) (wa_binding x) (wp_operation p) =
            Inr (wp_write_contract_hash p) \<and>
          (case expected_arguments (snd (wa_schemas x)) w (wp_target_id p) (wp_before_version p) (wp_after p) of
             Inl _ \<Rightarrow> False | Inr arguments \<Rightarrow> json_equal arguments (wp_arguments p)))"

definition executable :: "write_authority \<Rightarrow> exec_request \<Rightarrow> write_plan \<Rightarrow> approval_record \<Rightarrow> bool" where
  "executable x rq p a \<longleftrightarrow>
     validate_plan (wa_isoformat x) p = Inr p \<and> validate_approval (wa_isoformat x) a = Inr a \<and>
     validate_profile (fst (wa_schemas x)) (wa_profile x) = Inr (wa_profile x) \<and>
     validate_binding (wa_binding x) = Inr (wa_binding x) \<and>
     validate_against (wa_binding x) (wa_profile x) = Inr () \<and> inputs_agree x rq p a \<and> contract_agrees x p \<and>
     authenticated_approval_aliases (wa_isoformat x) p (wa_binding x) (ap_actor a) (wa_contributors x)
       (wa_approvers x) (wa_aliases x) = Some (ap_actor_aliases a)"

definition validated_inputs ::
  "'s exec_services \<Rightarrow> write_authority \<Rightarrow> exec_request \<Rightarrow> ('s, write_plan \<times> approval_record) act" where
  "validated_inputs S x rq =
     act_bind (act_guard (\<not> exact_policy (wa_contributors x) \<or> \<not> exact_policy (wa_approvers x) \<or>
       \<not> exact_policy (wa_executors x)) ExecutionUnavailable) (\<lambda>_.
     act_bind (es_plan S (xq_plan_id rq)) (\<lambda>p.
     act_bind (es_approval S (xq_approval_id rq)) (\<lambda>a.
     act_bind (act_guard (\<not> executable x rq p a) ExecutionUnavailable) (\<lambda>_.
     act_return (p, a)))))"

section \<open>Receipts\<close>

definition make_receipt ::
  "(datetime \<Rightarrow> string) \<Rightarrow> write_plan \<Rightarrow> approval_record \<Rightarrow> string \<Rightarrow> datetime \<Rightarrow> receipt_status \<Rightarrow> string option \<Rightarrow>
     write_failure option \<Rightarrow> execution_receipt res" where
  "make_receipt isoformat p a actor now status resulting_version redacted_error =
     (let r = \<lparr>xr_id = [], xr_plan_id = wp_id p, xr_plan_hash = plan_hash isoformat p, xr_approval_id = ap_id a,
          xr_target_version = wp_before_version p, xr_executed_by = actor, xr_status = status, xr_attempted_at = now,
          xr_completed_at = now, xr_resulting_version = resulting_version, xr_evidence_ref = None,
          xr_redacted_error = redacted_error\<rparr>;
        r = (if status = Succeeded
             then r\<lparr>xr_evidence_ref := Some (''evidence:mcp-write:'' @
               removeprefix ''receipt:sha256:'' (receipt_id (receipt_material isoformat r)))\<rparr>
             else r) in
      validate_receipt isoformat (r\<lparr>xr_id := receipt_id (receipt_material isoformat r)\<rparr>))"

definition failure_receipt ::
  "(datetime \<Rightarrow> string) \<Rightarrow> write_plan \<Rightarrow> approval_record \<Rightarrow> string \<Rightarrow> datetime \<Rightarrow> write_failure \<Rightarrow> bool \<Rightarrow>
     execution_receipt res" where
  "failure_receipt isoformat p a actor now code rejected =
     make_receipt isoformat p a actor now (if rejected then Rejected else Failed) None (Some code)"

section \<open>The phases of \<open>execute\<close>\<close>

datatype exec_outcome = Returned execution_receipt | Unavailable | Interrupted | Raised exn

datatype phase =
    Entered
  | Checked write_plan approval_record
  | Claiming write_plan approval_record
  | Contested write_plan approval_record
  | Fetching write_plan approval_record
  | Calling write_plan approval_record
  | Verifying write_plan approval_record write_result
  | Completing execution_receipt
  | Committing write_plan approval_record execution_receipt write_result
  | Finished exec_outcome

type_synonym provider_call = "write_key \<times> string \<times> json dict"

definition in_window :: "exec_request \<Rightarrow> write_plan \<Rightarrow> approval_record \<Rightarrow> bool" where
  "in_window rq p a \<longleftrightarrow>
     wp_created_at p \<le> xq_now rq \<and> xq_now rq < wp_expires_at p \<and>
     ap_approved_at a \<le> xq_now rq \<and> xq_now rq < ap_expires_at a"

definition same_target :: "remote_object \<Rightarrow> write_plan \<Rightarrow> string \<Rightarrow> json dict \<Rightarrow> bool" where
  "same_target r p version content \<longleftrightarrow>
     rm_connector_id r = wp_connector_id p \<and> rm_profile_id r = wp_profile_id p \<and>
     rm_profile_version r = wp_profile_version p \<and> rm_object_type r = wp_object_type p \<and>
     rm_id r = wp_target_id p \<and> rm_version r = version \<and> json_equal (rm_content r) content"

text \<open>What follows a failed write: its receipt is to be completed.\<close>

definition fail_with :: "write_authority \<Rightarrow> exec_request \<Rightarrow> write_plan \<Rightarrow> approval_record \<Rightarrow> write_failure \<Rightarrow> bool \<Rightarrow> phase" where
  "fail_with x rq p a code rejected =
     (case failure_receipt (wa_isoformat x) p a (xq_actor rq) (xq_now rq) code rejected of
        Inl e \<Rightarrow> Finished (Raised e) | Inr r \<Rightarrow> Completing r)"

definition after_fetch :: "write_authority \<Rightarrow> exec_request \<Rightarrow> write_plan \<Rightarrow> approval_record \<Rightarrow> gateway_answer \<Rightarrow> phase" where
  "after_fetch x rq p a answer =
     (case fetch_target_safely answer of
        Aborted \<Rightarrow> Finished Interrupted
      | Refused \<Rightarrow> fail_with x rq p a Permission_Denied False
      | Unusable \<Rightarrow> fail_with x rq p a Provider_Failure False
      | Provided current \<Rightarrow>
          if \<not> same_target current p (wp_before_version p) (wp_before p) then fail_with x rq p a Target_Changed True
          else Calling p a)"

definition after_call :: "write_authority \<Rightarrow> exec_request \<Rightarrow> write_plan \<Rightarrow> approval_record \<Rightarrow> gateway_answer \<Rightarrow> phase" where
  "after_call x rq p a answer =
     (case execute_provider_safely (wp_before_version p) answer of
        Aborted \<Rightarrow> Finished Interrupted
      | Refused \<Rightarrow> fail_with x rq p a Permission_Denied False
      | Unusable \<Rightarrow> fail_with x rq p a Provider_Failure False
      | Provided result \<Rightarrow> Verifying p a result)"

definition after_verify ::
  "write_authority \<Rightarrow> exec_request \<Rightarrow> write_plan \<Rightarrow> approval_record \<Rightarrow> write_result \<Rightarrow> gateway_answer \<Rightarrow> phase" where
  "after_verify x rq p a result answer =
     (case fetch_target_safely answer of
        Aborted \<Rightarrow> Finished Interrupted
      | Refused \<Rightarrow> Finished Unavailable
      | Unusable \<Rightarrow> Finished Unavailable
      | Provided target \<Rightarrow>
          if \<not> same_target target p (wr_resulting_version result) (wp_after p) then Finished Unavailable
          else
            (let result = \<lparr>wr_resulting_version = wr_resulting_version result,
                 wr_redacted_result = [(''status'', JStr ''verified'')]\<rparr> in
             case make_receipt (wa_isoformat x) p a (xq_actor rq) (xq_now rq) Succeeded (Some (wr_resulting_version result)) None of
               Inl e \<Rightarrow> Finished (Raised e)
             | Inr r \<Rightarrow> if xr_evidence_ref r = None then Finished Unavailable else Committing p a r result))"

text \<open>The result of a store operation decides the next phase; its exceptions are one fixed failure.\<close>

definition on_store :: "('s, 'a) act \<Rightarrow> ('a \<Rightarrow> phase) \<Rightarrow> 's \<Rightarrow> 's \<times> phase \<times> provider_call list" where
  "on_store m next_phase s =
     (case m s of (s', Inl _) \<Rightarrow> (s', Finished Unavailable, []) | (s', Inr y) \<Rightarrow> (s', next_phase y, []))"

fun exec_step ::
  "'s exec_services \<Rightarrow> write_authority \<Rightarrow> exec_request \<Rightarrow> gateway_answer \<Rightarrow> phase \<Rightarrow> 's \<Rightarrow>
     's \<times> phase \<times> provider_call list" where
  "exec_step S x rq answer Entered s = on_store (validated_inputs S x rq) (\<lambda>(p, a). Checked p a) s"
| "exec_step S x rq answer (Checked p a) s =
     on_store (es_get S (wp_id p) (ap_id a)) (\<lambda>existing.
       case existing of
         Some r \<Rightarrow> Finished (Returned r)
       | None \<Rightarrow> if \<not> in_window rq p a then Finished Unavailable else Claiming p a) s"
| "exec_step S x rq answer (Claiming p a) s =
     on_store (es_claim S (wp_id p) (ap_id a) (xq_actor rq) (xq_now rq)) (\<lambda>claimed.
       if claimed then Fetching p a else Contested p a) s"
| "exec_step S x rq answer (Contested p a) s =
     on_store (es_get S (wp_id p) (ap_id a)) (\<lambda>completed.
       case completed of Some r \<Rightarrow> Finished (Returned r) | None \<Rightarrow> Finished Unavailable) s"
| "exec_step S x rq answer (Fetching p a) s = (s, after_fetch x rq p a answer, [])"
| "exec_step S x rq answer (Calling p a) s =
     (s, after_call x rq p a answer, [((wp_id p, ap_id a), wp_provider_operation p, wp_arguments p)])"
| "exec_step S x rq answer (Verifying p a result) s = (s, after_verify x rq p a result answer, [])"
| "exec_step S x rq answer (Completing r) s =
     on_store (es_complete S r) (\<lambda>written. if written then Finished (Returned r) else Finished Unavailable) s"
| "exec_step S x rq answer (Committing p a r result) s =
     on_store (es_commit S r p a result) (\<lambda>_. Finished (Returned r)) s"
| "exec_step S x rq answer (Finished outcome) s = (s, Finished outcome, [])"

text \<open>One executor alone: the \<open>k\<close>-th answer is what the provider answers in the \<open>k\<close>-th step.\<close>

fun run_execute ::
  "nat \<Rightarrow> 's exec_services \<Rightarrow> write_authority \<Rightarrow> exec_request \<Rightarrow> (nat \<Rightarrow> gateway_answer) \<Rightarrow> phase \<Rightarrow> 's \<Rightarrow>
     's \<times> phase \<times> provider_call list" where
  "run_execute 0 S x rq answers ph s = (s, ph, [])"
| "run_execute (Suc n) S x rq answers ph s =
     (case exec_step S x rq (answers 0) ph s of
        (s', ph', calls) \<Rightarrow>
          (case run_execute n S x rq (answers \<circ> Suc) ph' s' of (s'', ph'', calls') \<Rightarrow> (s'', ph'', calls @ calls')))"

definition execute_write ::
  "'s exec_services \<Rightarrow> write_authority \<Rightarrow> exec_request \<Rightarrow> (nat \<Rightarrow> gateway_answer) \<Rightarrow> 's \<Rightarrow> 's \<times> phase \<times> provider_call list" where
  "execute_write S x rq answers s = run_execute 7 S x rq answers Entered s"

section \<open>Interleaving\<close>

text \<open>Executors are numbered; each has its authority and its request. A state is the shared store, the phase
  of every executor, and the calls the provider has received.\<close>

type_synonym 's exec_system = "'s \<times> (nat \<Rightarrow> phase) \<times> provider_call list"

inductive exec_system_step ::
  "'s exec_services \<Rightarrow> (nat \<Rightarrow> write_authority \<times> exec_request) \<Rightarrow> 's exec_system \<Rightarrow> 's exec_system \<Rightarrow> bool"
  for S :: "'s exec_services" and config :: "nat \<Rightarrow> write_authority \<times> exec_request" where
  advance: "exec_step S (fst (config n)) (snd (config n)) answer (phases n) s = (s', ph, calls) \<Longrightarrow>
     exec_system_step S config (s, phases, trace) (s', phases(n := ph), trace @ calls)"
| killed_before: "exec_system_step S config (s, phases, trace) (s, phases(n := Finished Interrupted), trace)"
| killed_after: "exec_step S (fst (config n)) (snd (config n)) answer (phases n) s = (s', ph, calls) \<Longrightarrow>
     exec_system_step S config (s, phases, trace) (s', phases(n := Finished Interrupted), trace @ calls)"

inductive exec_reachable ::
  "'s exec_services \<Rightarrow> (nat \<Rightarrow> write_authority \<times> exec_request) \<Rightarrow> 's \<Rightarrow> 's exec_system \<Rightarrow> bool"
  for S :: "'s exec_services" and config :: "nat \<Rightarrow> write_authority \<times> exec_request" and s0 :: 's where
  start: "exec_reachable S config s0 (s0, \<lambda>_. Entered, [])"
| step: "exec_reachable S config s0 t \<Longrightarrow> exec_system_step S config t t' \<Longrightarrow> exec_reachable S config s0 t'"

inductive_cases exec_system_stepE: "exec_system_step S config t t'"

section \<open>What a step can do\<close>

lemma on_store_cases:
  assumes "on_store m k s = (s', ph, calls)"
  obtains e where "m s = (s', Inl e)" "ph = Finished Unavailable" "calls = []"
  | y where "m s = (s', Inr y)" "ph = k y" "calls = []"
  using assms by (auto simp: on_store_def split: prod.splits sum.splits)

text \<open>The key an executor holds while it may still call the provider.\<close>

fun holds :: "phase \<Rightarrow> write_key option" where
  "holds (Fetching p a) = Some (wp_id p, ap_id a)"
| "holds (Calling p a) = Some (wp_id p, ap_id a)"
| "holds _ = None"

lemma fail_with_simps [simp]: "holds (fail_with x rq p a code rejected) = None" "fail_with x rq p a code rejected \<noteq> Calling q b"
  by (simp_all add: fail_with_def split: sum.split)

lemma after_call_holds [simp]: "holds (after_call x rq p a answer) = None" "holds (after_verify x rq p a result answer) = None"
  by (simp_all add: after_call_def after_verify_def Let_def split: provider_status.split sum.split)

lemma after_fetch_holds: "holds (after_fetch x rq p a answer) = Some k \<Longrightarrow> k = (wp_id p, ap_id a)"
  by (auto simp: after_fetch_def split: provider_status.splits if_splits)

lemma step_calls:
  "exec_step S x rq answer ph s = (s', ph', calls) \<Longrightarrow>
     calls = [] \<or> (\<exists>p a. ph = Calling p a \<and> calls = [((wp_id p, ap_id a), wp_provider_operation p, wp_arguments p)] \<and>
       holds ph' = None \<and> s' = s)"
  by (cases ph) (auto elim: on_store_cases)

section \<open>At most one call\<close>

text \<open>Who holds what and what was called, for any kind of key: \<open>T\<close> are the taken keys, \<open>H\<close> the key each
  executor holds, \<open>C\<close> the keys of the calls so far.\<close>

definition once :: "('k \<Rightarrow> bool) \<Rightarrow> (nat \<Rightarrow> 'k option) \<Rightarrow> 'k list \<Rightarrow> bool" where
  "once T H C \<longleftrightarrow>
     distinct C \<and> (\<forall>k \<in> set C. T k) \<and> (\<forall>n k. H n = Some k \<longrightarrow> T k \<and> k \<notin> set C) \<and>
     (\<forall>m n k. H m = Some k \<longrightarrow> H n = Some k \<longrightarrow> m = n)"

lemma once_start: "once T (\<lambda>_. None) []"
  by (simp add: once_def)

lemma once_release: "once T H C \<Longrightarrow> once T (H(n := None)) C"
  by (auto simp: once_def split: if_splits)

lemma once_mono: "once T H C \<Longrightarrow> (\<And>k. T k \<Longrightarrow> T' k) \<Longrightarrow> once T' H C"
  by (auto simp: once_def)

lemma once_take: "once T H C \<Longrightarrow> (\<And>k. T k \<Longrightarrow> T' k) \<Longrightarrow> \<not> T k \<Longrightarrow> T' k \<Longrightarrow> once T' (H(n := Some k)) C"
  by (auto simp: once_def split: if_splits)

lemma once_call: "once T H C \<Longrightarrow> H n = Some k \<Longrightarrow> once T (H(n := None)) (C @ [k])"
  by (auto simp: once_def split: if_splits)

text \<open>What the executor relies on: a claim succeeds only for a key that is free, the key is taken from then
  on, and no operation frees a key.\<close>

locale claim_store =
  fixes S :: "'s exec_services" and taken :: "write_key \<Rightarrow> 's \<Rightarrow> bool"
  assumes plan_keeps: "es_plan S i s = (s', r1) \<Longrightarrow> taken k s \<Longrightarrow> taken k s'"
    and approval_keeps: "es_approval S i s = (s', r2) \<Longrightarrow> taken k s \<Longrightarrow> taken k s'"
    and get_keeps: "es_get S i j s = (s', r3) \<Longrightarrow> taken k s \<Longrightarrow> taken k s'"
    and claim_keeps: "es_claim S i j actor now s = (s', r4) \<Longrightarrow> taken k s \<Longrightarrow> taken k s'"
    and complete_keeps: "es_complete S r s = (s', r5) \<Longrightarrow> taken k s \<Longrightarrow> taken k s'"
    and commit_keeps: "es_commit S r p a result s = (s', r6) \<Longrightarrow> taken k s \<Longrightarrow> taken k s'"
    and claim_takes: "es_claim S i j actor now s = (s', Inr True) \<Longrightarrow> \<not> taken (i, j) s \<and> taken (i, j) s'"
begin

lemma inputs_keep: "validated_inputs S x rq s = (s', r) \<Longrightarrow> taken k s \<Longrightarrow> taken k s'"
  by (auto simp: validated_inputs_def act_bind_def act_guard_def act_return_def split: prod.splits sum.splits if_splits
      dest: plan_keeps [of _ _ _ _ k] approval_keeps [of _ _ _ _ k])

lemma step_keeps:
  assumes "exec_step S x rq answer ph s = (s', ph', calls)" "taken k s"
  shows "taken k s'"
  using assms
  by (cases ph) (auto elim!: on_store_cases dest: inputs_keep [of _ _ _ _ _ k] get_keeps [of _ _ _ _ _ k]
      claim_keeps [of _ _ _ _ _ _ _ k] complete_keeps [of _ _ _ _ k] commit_keeps [of _ _ _ _ _ _ _ k])

lemma step_holds:
  assumes "exec_step S x rq answer ph s = (s', ph', calls)" "holds ph' = Some k"
  shows "holds ph = Some k \<and> calls = [] \<or> \<not> taken k s \<and> taken k s' \<and> calls = []"
proof (cases ph)
  case (Claiming p a)
  with assms claim_takes show ?thesis
    by (auto elim!: on_store_cases split: if_splits)
qed (use assms in \<open>auto elim!: on_store_cases dest: after_fetch_holds split: prod.splits option.splits if_splits\<close>)

definition calls_once :: "'s exec_system \<Rightarrow> bool" where
  "calls_once t \<longleftrightarrow> (case t of (s, phases, trace) \<Rightarrow> once (\<lambda>k. taken k s) (holds \<circ> phases) (map fst trace))"

lemma calls_once_kill: "calls_once (s, phases, trace) \<Longrightarrow> calls_once (s, phases(n := Finished outcome), trace)"
  using once_release [of "\<lambda>k. taken k s" "holds \<circ> phases" "map fst trace" n]
  by (simp add: calls_once_def fun_upd_comp)

lemma calls_once_advance:
  assumes inv: "calls_once (s, phases, trace)" and step: "exec_step S x rq answer (phases n) s = (s', ph, calls)"
  shows "calls_once (s', phases(n := ph), trace @ calls)"
proof -
  let ?H = "holds \<circ> phases" and ?C = "map fst trace"
  have inv: "once (\<lambda>k. taken k s) ?H ?C" using inv by (simp add: calls_once_def)
  note keep = step_keeps [OF step]
  have "once (\<lambda>k. taken k s') (?H(n := holds ph)) (?C @ map fst calls)"
  proof (cases "holds ph")
    case (Some k)
    from step_holds [OF step Some] show ?thesis
    proof
      assume "holds (phases n) = Some k \<and> calls = []"
      with Some have "?H(n := holds ph) = ?H" "calls = []" by auto
      then show ?thesis using once_mono [OF inv keep] by simp
    next
      assume "\<not> taken k s \<and> taken k s' \<and> calls = []"
      with once_take [OF inv keep, where k = k and n = n] Some show ?thesis by simp
    qed
  next
    case None
    from step_calls [OF step] consider "calls = []"
      | c where "calls = [c]" "holds (phases n) = Some (fst c)" by auto
    then show ?thesis
    proof cases
      case 1
      with once_mono [OF once_release [OF inv] keep] None show ?thesis by simp
    next
      case 2
      then have "once (\<lambda>k. taken k s) (?H(n := None)) (?C @ [fst c])"
        using once_call [OF inv, where n = n and k = "fst c"] by simp
      from once_mono [OF this keep] 2 None show ?thesis by simp
    qed
  qed
  then show ?thesis by (simp add: calls_once_def fun_upd_comp)
qed

lemma calls_once_reachable: "exec_reachable S config s0 t \<Longrightarrow> calls_once t"
proof (induction rule: exec_reachable.induct)
  case start
  show ?case using once_start [of "\<lambda>k. taken k s0"] by (simp add: calls_once_def comp_def)
next
  case (step t t')
  from step.hyps(2) show ?case
  proof (cases rule: exec_system_step.cases)
    case advance
    with step.IH calls_once_advance show ?thesis by simp
  next
    case killed_before
    with step.IH calls_once_kill show ?thesis by simp
  next
    case (killed_after n answer phases s s' ph calls trace)
    have "calls_once (s', (phases(n := ph))(n := Finished Interrupted), trace @ calls)"
      using step.IH calls_once_advance killed_after by (intro calls_once_kill) simp
    then show ?thesis using killed_after by simp
  qed
qed

lemma called_once: "exec_reachable S config s0 (s, phases, trace) \<Longrightarrow> distinct (map fst trace)"
  using calls_once_reachable by (force simp: calls_once_def once_def)

text \<open>What was taken before the executors started is never called.\<close>

lemma taken_before:
  assumes "exec_reachable S config s0 t" "taken k s0"
  shows "taken k (fst t) \<and> (\<forall>n. holds (fst (snd t) n) \<noteq> Some k) \<and> k \<notin> fst ` set (snd (snd t))"
  using assms(1)
proof (induction rule: exec_reachable.induct)
  case start
  show ?case using assms(2) by simp
next
  case (step t t')
  have advance: "taken k s' \<and> holds ph \<noteq> Some k \<and> k \<notin> fst ` set calls"
    if "exec_step S x rq answer (phases n) s = (s', ph, calls)" "t = (s, phases, trace)"
    for x rq answer phases n s s' ph calls trace
    using step.IH step_keeps [OF that(1), of k] step_holds [OF that(1), of k] step_calls [OF that(1)] that(2)
    by (auto dest: spec [of _ n])
  from step.hyps(2) show ?case
  proof (cases rule: exec_system_step.cases)
    case adv: (advance n answer phases s s' ph calls trace)
    with advance [OF adv(3,1)] step.IH show ?thesis by auto
  next
    case killed_before
    with step.IH show ?thesis by simp
  next
    case kil: (killed_after n answer phases s s' ph calls trace)
    with advance [OF kil(3,1)] step.IH show ?thesis by auto
  qed
qed

end

section \<open>What holds in every phase\<close>

lemma removeprefix_tagged: "tagged_hash tag s \<Longrightarrow> tagged_hash tag' (tag' @ removeprefix tag s)"
  by (auto simp: tagged_hash_def removeprefix_def starts_with_def)

text \<open>A receipt that is named after its own material.\<close>

lemma named_receipt_error:
  "receipt_error isoformat (r\<lparr>xr_id := receipt_id (receipt_material isoformat r)\<rparr>) = None \<longleftrightarrow>
     tagged_hash ''write-plan:sha256:'' (xr_plan_id r) \<and> tagged_hash ''sha256:'' (xr_plan_hash r) \<and>
     tagged_hash ''approval:sha256:'' (xr_approval_id r) \<and> mutation_text (xr_target_version r) \<and>
     mutation_text (xr_executed_by r) \<and> (\<forall>v. xr_resulting_version r = Some v \<longrightarrow> mutation_text v) \<and>
     (\<forall>e. xr_evidence_ref r = Some e \<longrightarrow> tagged_hash ''evidence:mcp-write:'' e) \<and>
     xr_attempted_at r \<le> xr_completed_at r \<and>
     (if xr_status r = Succeeded
      then xr_resulting_version r \<noteq> None \<and> xr_evidence_ref r \<noteq> None \<and> xr_redacted_error r = None
      else xr_resulting_version r = None \<and> xr_evidence_ref r = None \<and> xr_redacted_error r \<noteq> None)"
proof -
  have "receipt_material isoformat (r\<lparr>xr_id := i\<rparr>) = receipt_material isoformat r" for i
    by (simp add: receipt_material_def)
  then show ?thesis
    unfolding receipt_error_def first_error_None
    by (cases "xr_status r = Succeeded") (auto simp: not_less split: option.splits)
qed

text \<open>Receipts of executable plans are always well-formed.\<close>

lemma make_receipt_total:
  assumes "executable x rq p a" "status = Succeeded \<longleftrightarrow> version \<noteq> None" "status = Succeeded \<longleftrightarrow> code = None"
    and "\<And>v. version = Some v \<Longrightarrow> mutation_text v"
  shows "\<exists>r. make_receipt (wa_isoformat x) p a (xq_actor rq) now status version code = Inr r \<and>
    validate_receipt (wa_isoformat x) r = Inr r \<and> xr_status r = status \<and> receipt_key r = (wp_id p, ap_id a) \<and>
    xr_executed_by r = xq_actor rq \<and> xr_resulting_version r = version \<and> (xr_evidence_ref r = None \<longleftrightarrow> status \<noteq> Succeeded)"
proof -
  let ?f = "wa_isoformat x"
  have valid: "tagged_hash ''write-plan:sha256:'' (wp_id p)" "tagged_hash ''approval:sha256:'' (ap_id a)"
    "mutation_text (wp_before_version p)" "mutation_text (xq_actor rq)" "tagged_hash ''sha256:'' (plan_hash ?f p)"
    using assms(1) by (auto simp: executable_def inputs_agree_def plan_error_def approval_error_def plan_hash_def)
  let ?r0 = "\<lparr>xr_id = [], xr_plan_id = wp_id p, xr_plan_hash = plan_hash ?f p, xr_approval_id = ap_id a,
      xr_target_version = wp_before_version p, xr_executed_by = xq_actor rq, xr_status = status, xr_attempted_at = now,
      xr_completed_at = now, xr_resulting_version = version, xr_evidence_ref = None, xr_redacted_error = code\<rparr>"
  have evidence: "tagged_hash ''evidence:mcp-write:'' (''evidence:mcp-write:'' @ removeprefix ''receipt:sha256:'' (receipt_id m))" for m
    by (rule removeprefix_tagged) simp
  define r where "r = (if status = Succeeded
      then ?r0\<lparr>xr_evidence_ref := Some (''evidence:mcp-write:'' @ removeprefix ''receipt:sha256:'' (receipt_id (receipt_material ?f ?r0)))\<rparr>
      else ?r0)"
  have sel: "xr_plan_id r = wp_id p" "xr_plan_hash r = plan_hash ?f p" "xr_approval_id r = ap_id a"
    "xr_target_version r = wp_before_version p" "xr_executed_by r = xq_actor rq" "xr_status r = status"
    "xr_attempted_at r = now" "xr_completed_at r = now" "xr_resulting_version r = version" "xr_redacted_error r = code"
    "xr_evidence_ref r = None \<longleftrightarrow> status \<noteq> Succeeded" "xr_evidence_ref r = Some e \<Longrightarrow> tagged_hash ''evidence:mcp-write:'' e" for e
    using evidence by (auto simp: r_def split: if_splits)
  let ?n = "r\<lparr>xr_id := receipt_id (receipt_material ?f r)\<rparr>"
  have "receipt_error ?f ?n = None"
    unfolding named_receipt_error using sel valid assms(2-4) by auto
  then have v: "validate_receipt ?f ?n = Inr ?n" by (simp only: validate_receipt_def option.case)
  have "make_receipt ?f p a (xq_actor rq) now status version code = validate_receipt ?f ?n"
    by (simp only: make_receipt_def Let_def r_def)
  with v sel show ?thesis by (intro exI [of _ ?n]) (simp add: receipt_key_def)
qed

fun phase_ok :: "write_authority \<Rightarrow> exec_request \<Rightarrow> phase \<Rightarrow> bool" where
  "phase_ok x rq (Checked p a) \<longleftrightarrow> executable x rq p a"
| "phase_ok x rq (Claiming p a) \<longleftrightarrow> executable x rq p a \<and> in_window rq p a"
| "phase_ok x rq (Contested p a) \<longleftrightarrow> executable x rq p a \<and> in_window rq p a"
| "phase_ok x rq (Fetching p a) \<longleftrightarrow> executable x rq p a \<and> in_window rq p a"
| "phase_ok x rq (Calling p a) \<longleftrightarrow> executable x rq p a \<and> in_window rq p a"
| "phase_ok x rq (Verifying p a result) \<longleftrightarrow> executable x rq p a \<and> in_window rq p a \<and>
     mutation_text (wr_resulting_version result) \<and> wr_resulting_version result \<noteq> wp_before_version p"
| "phase_ok x rq (Committing p a r result) \<longleftrightarrow> executable x rq p a \<and> in_window rq p a \<and>
     validate_receipt (wa_isoformat x) r = Inr r \<and> xr_status r = Succeeded \<and> receipt_key r = (wp_id p, ap_id a) \<and>
     xr_resulting_version r = Some (wr_resulting_version result) \<and> wr_resulting_version result \<noteq> wp_before_version p \<and>
     wr_redacted_result result = [(''status'', JStr ''verified'')]"
| "phase_ok x rq (Completing r) \<longleftrightarrow> validate_receipt (wa_isoformat x) r = Inr r \<and> xr_status r \<noteq> Succeeded"
| "phase_ok x rq (Finished outcome) \<longleftrightarrow> (\<forall>e. outcome \<noteq> Raised e)"
| "phase_ok x rq Entered \<longleftrightarrow> True"

lemma fail_with_ok: "executable x rq p a \<Longrightarrow> phase_ok x rq (fail_with x rq p a code rejected)"
  using make_receipt_total [of x rq p a "if rejected then Rejected else Failed" None "Some code" "xq_now rq"]
  by (auto simp: fail_with_def failure_receipt_def split: if_splits)

lemma execute_provider_Provided:
  "execute_provider_safely v answer = Provided r \<Longrightarrow> mutation_text (wr_resulting_version r) \<and> wr_resulting_version r \<noteq> v"
  by (auto simp: execute_provider_safely_def validate_write_result_def split: gateway_answer.splits sum.splits if_splits)

lemma after_phases_ok:
  assumes "executable x rq p a" "in_window rq p a"
  shows "phase_ok x rq (after_fetch x rq p a answer)" "phase_ok x rq (after_call x rq p a answer)"
    and "mutation_text (wr_resulting_version result) \<Longrightarrow> wr_resulting_version result \<noteq> wp_before_version p \<Longrightarrow>
      phase_ok x rq (after_verify x rq p a result answer)"
proof -
  show "phase_ok x rq (after_fetch x rq p a answer)" "phase_ok x rq (after_call x rq p a answer)"
    using assms fail_with_ok execute_provider_Provided [of "wp_before_version p" answer]
    by (auto simp: after_fetch_def after_call_def split: provider_status.split)
  show "phase_ok x rq (after_verify x rq p a result answer)"
    if "mutation_text (wr_resulting_version result)" "wr_resulting_version result \<noteq> wp_before_version p"
    using assms that make_receipt_total [of x rq p a Succeeded "Some (wr_resulting_version result)" None "xq_now rq"]
    by (auto simp: after_verify_def Let_def split: provider_status.split)
qed

lemma validated_inputs_executable:
  "validated_inputs S x rq s = (s', Inr (p, a)) \<Longrightarrow> executable x rq p a"
  by (auto simp: validated_inputs_def act_bind_def act_guard_def act_return_def split: prod.splits sum.splits if_splits)

lemma phase_ok_step:
  assumes "exec_step S x rq answer ph s = (s', ph', calls)" "phase_ok x rq ph"
  shows "phase_ok x rq ph'"
  using assms after_phases_ok validated_inputs_executable
  by (cases ph) (auto elim!: on_store_cases split: option.splits)

lemma phases_ok_reachable:
  assumes "exec_reachable S config s0 t"
  shows "(\<forall>n. phase_ok (fst (config n)) (snd (config n)) (fst (snd t) n)) \<and>
    (\<forall>c \<in> set (snd (snd t)). \<exists>n p a. executable (fst (config n)) (snd (config n)) p a \<and> in_window (snd (config n)) p a \<and>
      c = ((wp_id p, ap_id a), wp_provider_operation p, wp_arguments p))"
  using assms
proof (induction rule: exec_reachable.induct)
  case (step t t')
  have calls: "\<exists>n p a. executable (fst (config n)) (snd (config n)) p a \<and> in_window (snd (config n)) p a \<and>
      c = ((wp_id p, ap_id a), wp_provider_operation p, wp_arguments p)"
    if "exec_step S (fst (config n)) (snd (config n)) answer (phases n) s = (s', ph, calls)" "t = (s, phases, trace)" "c \<in> set calls"
    for n answer phases s s' ph calls trace c
  proof -
    from step_calls [OF that(1)] that(3) obtain p a where "phases n = Calling p a"
      "c = ((wp_id p, ap_id a), wp_provider_operation p, wp_arguments p)" by auto
    moreover have "phase_ok (fst (config n)) (snd (config n)) (phases n)" using step.IH that(2) by simp
    ultimately show ?thesis by auto
  qed
  from step.hyps(2) show ?case
  proof (cases rule: exec_system_step.cases)
    case adv: (advance n answer phases s s' ph calls trace)
    have "phase_ok (fst (config n)) (snd (config n)) ph"
      using phase_ok_step [OF adv(3)] step.IH adv(1) by simp
    with adv step.IH calls [OF adv(3,1)] show ?thesis by (simp add: ball_Un)
  next
    case killed_before
    with step.IH show ?thesis by simp
  next
    case kil: (killed_after n answer phases s s' ph calls trace)
    with step.IH calls [OF kil(3,1)] show ?thesis by (simp add: ball_Un)
  qed
qed simp

section \<open>Termination\<close>

text \<open>Every step comes nearer to the end, whatever the stores and the provider do.\<close>

fun steps_left :: "phase \<Rightarrow> nat" where
  "steps_left Entered = 7"
| "steps_left (Checked p a) = 6"
| "steps_left (Claiming p a) = 5"
| "steps_left (Fetching p a) = 4"
| "steps_left (Calling p a) = 3"
| "steps_left (Verifying p a result) = 2"
| "steps_left (Contested p a) = 1"
| "steps_left (Completing r) = 1"
| "steps_left (Committing p a r result) = 1"
| "steps_left (Finished outcome) = 0"

lemma steps_left_zero: "steps_left ph = 0 \<longleftrightarrow> (\<exists>outcome. ph = Finished outcome)"
  by (cases ph) auto

lemma steps_left_after [simp]:
  "steps_left (fail_with x rq p a code rejected) \<le> Suc 0" "steps_left (after_fetch x rq p a answer) \<le> 3"
  "steps_left (after_call x rq p a answer) \<le> 2" "steps_left (after_verify x rq p a result answer) \<le> Suc 0"
proof -
  show fail: "steps_left (fail_with x rq p a code rejected) \<le> Suc 0" for code rejected
    by (simp add: fail_with_def split: sum.split)
  note fail [THEN order_trans, simp]
  show "steps_left (after_fetch x rq p a answer) \<le> 3" "steps_left (after_call x rq p a answer) \<le> 2"
    by (simp_all add: after_fetch_def after_call_def split: provider_status.split)
  show "steps_left (after_verify x rq p a result answer) \<le> Suc 0"
    by (simp add: after_verify_def Let_def split: provider_status.split sum.split)
qed

lemma step_nearer:
  assumes "exec_step S x rq answer ph s = (s', ph', calls)"
  shows "steps_left ph' \<le> steps_left ph - 1"
  using assms by (cases ph) (auto elim!: on_store_cases split: option.splits)

lemma run_execute_finishes:
  "steps_left ph \<le> n \<Longrightarrow> \<exists>outcome. fst (snd (run_execute n S x rq answers ph s)) = Finished outcome"
proof (induction n arbitrary: ph s answers)
  case 0
  then show ?case by (simp add: steps_left_zero)
next
  case (Suc n)
  obtain s' ph' calls where step: "exec_step S x rq (answers 0) ph s = (s', ph', calls)" by (metis surj_pair)
  have "steps_left ph' \<le> n" using step_nearer [OF step] Suc.prems by simp
  obtain s'' ph'' calls' where rest: "run_execute n S x rq (answers \<circ> Suc) ph' s' = (s'', ph'', calls')" by (metis surj_pair)
  from Suc.IH [OF \<open>steps_left ph' \<le> n\<close>, of "answers \<circ> Suc" s'] step rest show ?case by (simp add: comp_def)
qed

lemma run_execute_Finished: "run_execute n S x rq answers (Finished outcome) s = (s, Finished outcome, [])"
  by (induction n arbitrary: answers) simp_all

lemma run_execute_more:
  "steps_left ph \<le> n \<Longrightarrow> run_execute (n + m) S x rq answers ph s = run_execute n S x rq answers ph s"
proof (induction n arbitrary: ph s answers)
  case 0
  then show ?case by (auto simp: steps_left_zero run_execute_Finished)
next
  case (Suc n)
  obtain s' ph' calls where step: "exec_step S x rq (answers 0) ph s = (s', ph', calls)" by (metis surj_pair)
  have "steps_left ph' \<le> n" using step_nearer [OF step] Suc.prems by simp
  from Suc.IH [OF this, of "answers \<circ> Suc" s'] step show ?case by (simp add: comp_def)
qed

section \<open>Properties\<close>

text \<open>The fuel of \<open>execute_write\<close> is enough: whatever the stores and the provider do, one execution is over after
  seven steps, with one outcome that further steps do not change.\<close>

lemma execute_terminates:
  "\<exists>outcome. fst (snd (execute_write S x rq answers s)) = Finished outcome \<and>
     (\<forall>m. run_execute (7 + m) S x rq answers Entered s = execute_write S x rq answers s)"
  using run_execute_finishes [of Entered 7 S x rq answers s] run_execute_more [of Entered 7 _ S x rq answers s]
  by (simp add: execute_write_def)

text \<open>C15: The provider is only called as approved. However executors are interleaved and interrupted, every
  call the provider receives carries the operation and the arguments of a valid plan, under a valid approval
  of exactly that plan and target version by an authorized approver who is not the plan's creator and none of
  whose identities is the creator's or a conflicting author's, within the window of both.\<close>

theorem only_approved_calls:
  assumes "exec_reachable S config s0 (s, phases, trace)" "call \<in> set trace"
  shows "\<exists>n p a. call = ((wp_id p, ap_id a), wp_provider_operation p, wp_arguments p) \<and>
    (let x = fst (config n); rq = snd (config n) in
      validate_plan (wa_isoformat x) p = Inr p \<and> validate_approval (wa_isoformat x) a = Inr a \<and>
      ap_plan_id a = wp_id p \<and> ap_plan_hash a = plan_hash (wa_isoformat x) p \<and> ap_target_version a = wp_before_version p \<and>
      wp_created_by p \<in> set (wa_contributors x) \<and> ap_actor a \<in> set (wa_approvers x) \<and> ap_actor a \<in> set (wa_executors x) \<and>
      ap_actor a = xq_actor rq \<and> ap_actor a \<noteq> wp_created_by p \<and>
      set (ap_actor_aliases a) \<inter> (set (wp_created_by_aliases p) \<union> set (wp_conflicting_authors p)) = {} \<and>
      wp_created_at p \<le> xq_now rq \<and> xq_now rq < wp_expires_at p \<and> ap_approved_at a \<le> xq_now rq \<and> xq_now rq < ap_expires_at a)"
proof -
  from phases_ok_reachable [OF assms(1)] assms(2) obtain n p a where ok: "executable (fst (config n)) (snd (config n)) p a"
    "in_window (snd (config n)) p a" "call = ((wp_id p, ap_id a), wp_provider_operation p, wp_arguments p)" by auto
  let ?x = "fst (config n)"
  have auth: "authenticated_approval_aliases (wa_isoformat ?x) p (wa_binding ?x) (ap_actor a) (wa_contributors ?x)
      (wa_approvers ?x) (wa_aliases ?x) = Some (ap_actor_aliases a)"
    using ok(1) by (simp add: executable_def)
  have "ap_actor a \<noteq> wp_created_by p"
    using auth by (auto simp: authenticated_approval_aliases_def res_simps split: sum.splits if_splits)
  with ok approver_aliases_Some(1,2) [OF authenticated_Some(5) [OF auth]] show ?thesis
    by (intro exI [of _ n] exI [of _ p] exI [of _ a]) (auto simp: executable_def inputs_agree_def in_window_def Let_def)
qed

lemma fetched: "fetch_target_safely answer = Provided t \<Longrightarrow> answer = Target t"
  by (auto simp: fetch_target_safely_def validate_remote_object_def split: gateway_answer.splits sum.splits if_splits)

lemma to_Calling:
  assumes "exec_step S x rq answer ph s = (s', Calling p a, calls)"
  shows "ph = Fetching p a \<and> (\<exists>t. answer = Target t \<and> same_target t p (wp_before_version p) (wp_before p))"
proof (cases ph)
  case (Fetching q b)
  with assms have "after_fetch x rq q b answer = Calling p a" by simp
  then obtain t where "fetch_target_safely answer = Provided t" "same_target t q (wp_before_version q) (wp_before q)" "q = p" "b = a"
    by (auto simp: after_fetch_def fail_with_def split: provider_status.splits if_splits sum.splits)
  with fetched Fetching show ?thesis by blast
qed (use assms in \<open>auto elim!: on_store_cases simp: after_call_def after_verify_def fail_with_def Let_def
    split: prod.splits option.splits if_splits provider_status.splits sum.splits\<close>)

lemma to_Committing:
  assumes "exec_step S x rq answer ph s = (s', Committing p a r result, calls)"
  shows "\<exists>written t. ph = Verifying p a written \<and> answer = Target t \<and>
      same_target t p (wr_resulting_version written) (wp_after p) \<and> wr_resulting_version result = wr_resulting_version written"
proof (cases ph)
  case (Verifying q b written)
  with assms have "after_verify x rq q b written answer = Committing p a r result" by simp
  then obtain t where "fetch_target_safely answer = Provided t" "same_target t q (wr_resulting_version written) (wp_after q)"
    "q = p" "b = a" "wr_resulting_version result = wr_resulting_version written"
    by (auto simp: after_verify_def Let_def split: provider_status.splits if_splits sum.splits)
  with fetched Verifying show ?thesis by blast
qed (use assms in \<open>auto elim!: on_store_cases simp: after_call_def after_fetch_def fail_with_def
    split: prod.splits option.splits if_splits provider_status.splits sum.splits\<close>)

lemma to_success:
  assumes "exec_step S x rq answer ph s = (s', Finished (Returned r), calls)" "phase_ok x rq ph" "xr_status r = Succeeded"
  shows "(\<exists>p a. (ph = Checked p a \<or> ph = Contested p a) \<and> es_get S (wp_id p) (ap_id a) s = (s', Inr (Some r))) \<or>
    (\<exists>p a result. ph = Committing p a r result \<and> es_commit S r p a result s = (s', Inr ())) \<or> ph = Finished (Returned r)"
  using assms
  by (cases ph) (auto elim!: on_store_cases simp: after_call_def after_fetch_def after_verify_def fail_with_def Let_def
    split: prod.splits option.splits if_splits provider_status.splits sum.splits)

text \<open>C17: The target is checked before and after. The provider is called only if the target was just read in
  exactly the state the plan starts from, and a success is committed only if it was then read in exactly the
  state and version that the plan and the provider's answer announce; a receipt of success is returned only if
  it was found in the store or has just been committed.\<close>

theorem target_checked:
  assumes "exec_step S x rq answer ph s = (s', ph', calls)" "phase_ok x rq ph"
  shows "(\<forall>p a. ph' = Calling p a \<longrightarrow> ph = Fetching p a \<and>
      (\<exists>t. answer = Target t \<and> same_target t p (wp_before_version p) (wp_before p))) \<and>
    (\<forall>p a r result. ph' = Committing p a r result \<longrightarrow> (\<exists>written t. ph = Verifying p a written \<and> answer = Target t \<and>
      same_target t p (wr_resulting_version written) (wp_after p) \<and> wr_resulting_version result = wr_resulting_version written)) \<and>
    (\<forall>r. ph' = Finished (Returned r) \<and> xr_status r = Succeeded \<longrightarrow>
      (\<exists>p a. (ph = Checked p a \<or> ph = Contested p a) \<and> es_get S (wp_id p) (ap_id a) s = (s', Inr (Some r))) \<or>
      (\<exists>p a result. ph = Committing p a r result \<and> es_commit S r p a result s = (s', Inr ())) \<or> ph = ph')"
proof (intro conjI allI impI)
  show "ph = Fetching p a" "\<exists>t. answer = Target t \<and> same_target t p (wp_before_version p) (wp_before p)"
    if "ph' = Calling p a" for p a
    using to_Calling [OF assms(1) [unfolded that]] by simp_all
  show "\<exists>written t. ph = Verifying p a written \<and> answer = Target t \<and>
      same_target t p (wr_resulting_version written) (wp_after p) \<and> wr_resulting_version result = wr_resulting_version written"
    if "ph' = Committing p a r result" for p a r result
    using to_Committing [OF assms(1) [unfolded that]] by simp
  show "(\<exists>p a. (ph = Checked p a \<or> ph = Contested p a) \<and> es_get S (wp_id p) (ap_id a) s = (s', Inr (Some r))) \<or>
      (\<exists>p a result. ph = Committing p a r result \<and> es_commit S r p a result s = (s', Inr ())) \<or> ph = ph'"
    if "ph' = Finished (Returned r) \<and> xr_status r = Succeeded" for r
    using to_success [of S x rq answer ph s s' r calls] assms that by blast
qed

section \<open>A sample execution\<close>

definition sample_authority :: write_authority where
  "sample_authority =
     \<lparr>wa_isoformat = int_str, wa_schemas = (\<lambda>_. True, \<lambda>_ _. True), wa_profile = sample_profile,
      wa_binding = sample_binding, wa_contributors = [''ana''], wa_approvers = [''bo''], wa_executors = [''bo''],
      wa_aliases = sample_aliases\<rparr>"

definition sample_request :: exec_request where
  "sample_request = \<lparr>xq_plan_id = ''plan'', xq_approval_id = ''approval'', xq_actor = ''bo'', xq_now = 10\<rparr>"

text \<open>Stores that hold one plan and one approval, and no receipt.\<close>

definition sample_services :: "write_plan \<Rightarrow> approval_record \<Rightarrow> unit exec_services" where
  "sample_services p a =
     \<lparr>es_plan = (\<lambda>_ s. (s, Inr p)), es_approval = (\<lambda>_ s. (s, Inr a)), es_get = (\<lambda>_ _ s. (s, Inr None)),
      es_claim = (\<lambda>_ _ _ _ s. (s, Inr True)), es_complete = (\<lambda>_ s. (s, Inr True)), es_commit = (\<lambda>_ _ _ _ s. (s, Inr ()))\<rparr>"

lemma sample_plan_approved:
  "\<exists>p a. executable sample_authority sample_request p a \<and> in_window sample_request p a \<and>
     wp_before p = rm_content sample_remote \<and> wp_before_version p = ''v1'' \<and> wp_connector_id p = ''tracker'' \<and>
     wp_profile_id p = ''tracker'' \<and> wp_profile_version p = ''1'' \<and> wp_object_type p = ''issue'' \<and> wp_target_id p = ''7''"
proof -
  obtain h where h: "provider_binding_hash sample_binding = Inr h" "tagged_hash ''sha256:'' h"
    using sample_hashes(1) by blast
  obtain k where k: "provider_write_contract_hash (\<lambda>_. True) sample_profile sample_binding ''update'' = Inr k"
    "tagged_hash ''sha256:'' k"
    using sample_hashes(2) by blast
  let ?u = "unnamed_plan\<lparr>wp_binding_hash := h, wp_write_contract_hash := k\<rparr>"
  define p where "p = ?u\<lparr>wp_id := write_plan_id (plan_material int_str ?u)\<rparr>"
  have valid: "plan_error int_str p = None"
    unfolding p_def named_plan_error using sample_texts sample_plan_parts h k by (simp add: unnamed_plan_def MAX_WINDOW_def)
  then have plan: "validate_plan int_str p = Inr p" by simp
  have id: "wp_id p = ''write-plan:'' @ plan_hash int_str p" "tagged_hash ''write-plan:sha256:'' (wp_id p)"
    unfolding p_def by (rule named_plan)+
  have sel: "wp_created_by p = ''ana''" "wp_created_by_aliases p = [''ana'', ''ana@tracker'']" "wp_conflicting_authors p = [''eve'']"
    "wp_profile_id p = ''tracker''" "wp_profile_version p = ''1''" "wp_binding_hash p = h" "wp_before_version p = ''v1''"
    "wp_write_contract_hash p = k" "wp_operation p = ''update''" "wp_provider_operation p = ''issues.update''"
    "wp_object_type p = ''issue''" "wp_target_ref p = ''tracker:7''" "wp_target_id p = ''7''" "wp_connector_id p = ''tracker''"
    "wp_before p = rm_content sample_remote" "wp_after p = [(''title'', JStr ''new'')]" "wp_created_at p = 0" "wp_expires_at p = MAX_WINDOW"
    "wp_arguments p = [(''id'', JStr ''7''), (''version'', JStr ''v1''), (''title'', JStr ''new'')]"
    by (simp_all add: p_def unnamed_plan_def sample_remote_def)
  have policy: "\<not> is_blank ''bo''" "exact_policy [''ana'']" "exact_policy [''bo'']" by code_simp+
  have "binding_matches p sample_binding"
    using h sel by (simp add: binding_matches_def) (simp add: sample_binding_def)
  moreover have "approver_aliases p sample_binding ''bo'' sample_aliases = Some [''bo'', ''bo@tracker'']"
    by (simp only: approver_aliases_def sel, code_simp)
  ultimately have auth: "authenticated_approval_aliases int_str p sample_binding ''bo'' [''ana''] [''bo''] sample_aliases =
      Some [''bo'', ''bo@tracker'']"
    using plan policy sample_profile_valid(2) sel by (simp add: authenticated_approval_aliases_def del: validate_simps)
  have sorted: "sorted_set [''bo'', ''bo@tracker''] = [''bo'', ''bo@tracker'']" by code_simp
  have "tagged_hash ''sha256:'' (plan_hash int_str p)" by (simp add: plan_hash_def)
  with sorted obtain a where made: "make_approval int_str p ''bo'' [''bo'', ''bo@tracker''] 5 60000005 = Inr a"
    using sample_texts id sel
    by (simp add: make_approval_def Let_def approval_error_def approval_material_def [abs_def] MAX_WINDOW_def)
  then have a: "approval_error int_str a = None" "ap_actor a = ''bo''" "ap_plan_id a = wp_id p"
    "ap_plan_hash a = plan_hash int_str p" "ap_target_version a = wp_before_version p" "ap_plan_created_at a = wp_created_at p"
    "ap_plan_expires_at a = wp_expires_at p" "ap_actor_aliases a = [''bo'', ''bo@tracker'']" "ap_approved_at a = 5"
    "ap_expires_at a = 60000005"
    using sorted sel by (auto simp: make_approval_def Let_def)
  have w: "map_of (pp_writes sample_profile) ''update'' = Some sample_write" "wo_target_object sample_write = ''issue''"
    "pp_id sample_profile = ''tracker''" "pp_version sample_profile = ''1''"
    "json_equal [(''id'', JStr ''7''), (''version'', JStr ''v1''), (''title'', JStr ''new'')]
       [(''id'', JStr ''7''), (''version'', JStr ''v1''), (''title'', JStr ''new'')]"
    "expected_arguments (\<lambda>_ _. True) sample_write ''7'' ''v1'' [(''title'', JStr ''new'')] =
       Inr [(''id'', JStr ''7''), (''version'', JStr ''v1''), (''title'', JStr ''new'')]"
    by code_simp+
  have "contract_agrees sample_authority p"
    using w sel k sample_parts(6) by (simp add: contract_agrees_def sample_authority_def)
  moreover have "inputs_agree sample_authority sample_request p a"
    using a sel h w by (simp add: inputs_agree_def sample_authority_def sample_request_def)
  ultimately have "executable sample_authority sample_request p a"
    using valid a auth sample_profile_valid by (simp add: executable_def sample_authority_def)
  moreover have "in_window sample_request p a"
    using a sel by (simp add: in_window_def sample_request_def MAX_WINDOW_def)
  ultimately show ?thesis using sel by (intro exI [of _ p] exI [of _ a]) simp
qed

lemma sample_target:
  assumes "wp_before p = rm_content sample_remote" "wp_before_version p = ''v1''" "wp_connector_id p = ''tracker''"
    "wp_profile_id p = ''tracker''" "wp_profile_version p = ''1''" "wp_object_type p = ''issue''" "wp_target_id p = ''7''"
  shows "exec_step S x rq (Target sample_remote) (Fetching p a) s = (s, Calling p a, [])"
proof -
  have "validate_remote_object sample_remote = Inr sample_remote"
    "json_equal (rm_content sample_remote) (rm_content sample_remote)" by code_simp+
  with assms show ?thesis
    by (simp add: after_fetch_def fetch_target_safely_def same_target_def sample_plan_parts)
qed

theorem target_checked_witness:
  "\<exists>p a s'. exec_step (sample_services p a) sample_authority sample_request (Target sample_remote) (Fetching p a) () =
       (s', Calling p a, []) \<and> same_target sample_remote p (wp_before_version p) (wp_before p)"
proof -
  obtain p a where ok: "executable sample_authority sample_request p a" "in_window sample_request p a"
    and t: "wp_before p = rm_content sample_remote" "wp_before_version p = ''v1''" "wp_connector_id p = ''tracker''"
    "wp_profile_id p = ''tracker''" "wp_profile_version p = ''1''" "wp_object_type p = ''issue''" "wp_target_id p = ''7''"
    using sample_plan_approved by blast
  note step = sample_target [OF t, of "sample_services p a" sample_authority sample_request a "()"]
  from target_checked [OF step] ok have "same_target sample_remote p (wp_before_version p) (wp_before p)" by simp
  with step show ?thesis by blast
qed

theorem only_approved_calls_witness:
  "\<exists>p a phases call. exec_reachable (sample_services p a) (\<lambda>_. (sample_authority, sample_request)) () ((), phases, [call]) \<and>
     (\<exists>(q :: write_plan) (b :: approval_record). call = ((wp_id q, ap_id b), wp_provider_operation q, wp_arguments q) \<and> ap_actor b \<noteq> wp_created_by q)"
proof -
  obtain p a where ok: "executable sample_authority sample_request p a" "in_window sample_request p a"
    and t: "wp_before p = rm_content sample_remote" "wp_before_version p = ''v1''" "wp_connector_id p = ''tracker''"
    "wp_profile_id p = ''tracker''" "wp_profile_version p = ''1''" "wp_object_type p = ''issue''" "wp_target_id p = ''7''"
    using sample_plan_approved by blast
  let ?S = "sample_services p a" and ?config = "\<lambda>_ :: nat. (sample_authority, sample_request)"
  let ?call = "((wp_id p, ap_id a), wp_provider_operation p, wp_arguments p)"
  let ?at = "\<lambda>ph. (\<lambda>_ :: nat. Entered)(0 := ph)"
  define run where "run ph trace \<longleftrightarrow> exec_reachable ?S ?config () ((), ?at ph, trace)" for ph trace
  have next_phase: "run ph' (trace @ calls)"
    if "run ph trace" "exec_step ?S sample_authority sample_request answer ph () = ((), ph', calls)"
    for ph trace answer ph' calls
    using exec_reachable.step [OF that(1) [unfolded run_def] advance [of ?S ?config 0 answer "?at ph" "()" "()" ph' calls trace]] that(2)
    by (simp add: run_def)
  have "exact_policy [''ana'']" "exact_policy [''bo'']" by code_simp+
  with ok(1) have entered: "exec_step ?S sample_authority sample_request answer Entered () = ((), Checked p a, [])" for answer
    by (simp add: on_store_def validated_inputs_def act_bind_def act_guard_def act_return_def sample_services_def
        sample_authority_def)
  have checked: "exec_step ?S sample_authority sample_request answer (Checked p a) () = ((), Claiming p a, [])"
    "exec_step ?S sample_authority sample_request answer (Claiming p a) () = ((), Fetching p a, [])" for answer
    using ok(2) by (simp_all add: on_store_def sample_services_def)
  have called: "exec_step ?S sample_authority sample_request Denied (Calling p a) () =
      ((), after_call sample_authority sample_request p a Denied, [?call])" by simp
  have "run Entered []" using exec_reachable.start [of ?S ?config "()"] by (simp add: run_def fun_upd_idem)
  from next_phase [OF this entered] have "run (Checked p a) []" by simp
  from next_phase [OF this checked(1)] have "run (Claiming p a) []" by simp
  from next_phase [OF this checked(2)] have "run (Fetching p a) []" by simp
  from next_phase [OF this sample_target [OF t]] have "run (Calling p a) []" by simp
  from next_phase [OF this called] have reach: "exec_reachable ?S ?config ()
      ((), ?at (after_call sample_authority sample_request p a Denied), [?call])"
    by (simp add: run_def)
  from only_approved_calls [OF reach list.set_intros(1)]
  obtain q :: write_plan and b :: approval_record where "?call = ((wp_id q, ap_id b), wp_provider_operation q, wp_arguments q)" "ap_actor b \<noteq> wp_created_by q"
    unfolding Let_def by (elim exE conjE) (rule that)
  then have "\<exists>(q :: write_plan) (b :: approval_record). ?call = ((wp_id q, ap_id b), wp_provider_operation q, wp_arguments q) \<and> ap_actor b \<noteq> wp_created_by q"
    by (intro exI conjI)
  with reach show ?thesis by blast
qed

end
