(* ===== verification/Write_Commit.thy ===== *)
theory Write_Commit
  imports Write_Executor Executor Evidence_Store
begin

text \<open>
  The local commit of a successful external write (\<open>mutations/committer.py\<close>): receipt, evidence, resolved
  case, graph and history in one transaction; and the stores the command line gives to the executor, as
  the operations \<open>local_services\<close> on one disk.
\<close>

section \<open>The committer\<close>

record committer =
  cm_coordinator :: coordinator
  cm_acl :: "string list"
  cm_authority :: write_authority

record commit_codecs = exec_codecs +
  evidence_codec :: evidence_codec
  receipt_codec :: receipt_codec

definition new_committer :: "coordinator \<Rightarrow> string list \<Rightarrow> write_authority \<Rightarrow> committer res" where
  "new_committer co acl x =
     (if \<not> {''graph'', ''history'', ''cases'', ''evidence'', ''receipts''} \<subseteq> set (co_targets co)
      then Inl (ValueError ''local write committer requires complete transaction targets'')
      else if acl = [] \<or> sorted_set acl \<noteq> acl \<or> list_ex is_blank acl then Inl (ValueError ''invalid write evidence ACL'')
      else
        let checked =
          res_bind (validate_profile (fst (wa_schemas x)) (wa_profile x)) (\<lambda>profile.
          res_bind (validate_binding (wa_binding x)) (\<lambda>b.
          res_bind (validate_against b profile) (\<lambda>_.
          if list_ex (\<lambda>policy. policy = [] \<or> list_ex is_blank policy)
              [wa_contributors x, wa_approvers x, wa_executors x]
          then Inl (ValueError [])
          else Inr \<lparr>cm_coordinator = co, cm_acl = acl, cm_authority = x\<lparr>wa_profile := profile, wa_binding := b\<rparr>\<rparr>))) in
        case checked of Inl _ \<Rightarrow> Inl (ValueError ''invalid local write authorization'') | Inr cm \<Rightarrow> Inr cm)"

definition write_evidence_payload ::
  "(datetime \<Rightarrow> string) \<Rightarrow> execution_receipt \<Rightarrow> write_plan \<Rightarrow> approval_record \<Rightarrow> write_result \<Rightarrow> json dict" where
  "write_evidence_payload isoformat r p a result =
     [(''approval'', JObj [(''actor'', JStr (ap_actor a)), (''actor_aliases'', strs (ap_actor_aliases a)), (''id'', JStr (ap_id a))]),
      (''case_id'', JStr (wp_case_id p)), (''executed_by'', JStr (xr_executed_by r)),
      (''plan'', JObj [(''conflicting_authors'', strs (wp_conflicting_authors p)), (''created_by'', JStr (wp_created_by p)),
         (''created_by_aliases'', strs (wp_created_by_aliases p)), (''evidence_refs'', strs (wp_evidence_refs p)),
         (''hash'', JStr (plan_hash isoformat p)), (''id'', JStr (wp_id p))]),
      (''provider'', JObj [(''binding_hash'', JStr (wp_binding_hash p)), (''connector_id'', JStr (wp_connector_id p)),
         (''operation'', JStr (wp_provider_operation p)), (''profile_id'', JStr (wp_profile_id p)),
         (''profile_version'', JStr (wp_profile_version p)), (''write_contract_hash'', JStr (wp_write_contract_hash p))]),
      (''resolution_action'', JStr (resolution_action_value (wp_resolution_action p))),
      (''result'', JObj (wr_redacted_result result)),
      (''target'', JObj [(''after'', JObj (wp_after p)), (''id'', JStr (wp_target_id p)),
         (''object_type'', JStr (wp_object_type p)), (''prior_version'', JStr (wp_before_version p)),
         (''resulting_version'', JStr (wr_resulting_version result))])]"

definition write_evidence ::
  "(datetime \<Rightarrow> string) \<Rightarrow> execution_receipt \<Rightarrow> write_plan \<Rightarrow> approval_record \<Rightarrow> write_result \<Rightarrow> string list \<Rightarrow>
     evidence_record res" where
  "write_evidence isoformat r p a result acl =
     (case (xr_evidence_ref r, xr_resulting_version r) of
        (Some ref, Some _) \<Rightarrow>
          let payload = write_evidence_payload isoformat r p a result in
          Inr \<lparr>er_id = ref, er_connector_type = ''mcp-write'',
            er_external_object_id = wp_profile_id p @ '':'' @ wp_object_type p @ '':'' @ wp_target_id p,
            er_external_version = wr_resulting_version result, er_author = Some (xr_executed_by r),
            er_observed_at = xr_completed_at r,
            er_source_locator = ''mcp-write://'' @ wp_profile_id p @ ''/'' @ wp_object_type p,
            er_content_hash = canonical_hash payload, er_payload = payload, er_parent_ref = None, er_acl = acl\<rparr>
      | _ \<Rightarrow> Inl (ValueError ''successful receipt lacks evidence identity''))"

definition evidence_append :: "evidence_codec \<Rightarrow> string option \<Rightarrow> string \<Rightarrow> evidence_record \<Rightarrow> string res" where
  "evidence_append ec content connector_id e =
     res_bind (parse_evidence_lines ec content) (\<lambda>st.
       if list_ex (\<lambda>r. er_id r = er_id e) (dict_values (st_records st))
       then Inl (ValueError ''write evidence already exists without receipt'')
       else
         res_bind (validate_ingestion (next_ingestion connector_id e (entries connector_id (st_ingestions st)))) (\<lambda>i.
         Inr (serialized (dump_ingestion ec i))))"

section \<open>What must agree\<close>

definition commit_agrees ::
  "write_authority \<Rightarrow> execution_receipt \<Rightarrow> write_plan \<Rightarrow> approval_record \<Rightarrow> write_result \<Rightarrow> bool" where
  "commit_agrees x r p a result \<longleftrightarrow>
     xr_status r = Succeeded \<and> xr_plan_id r = wp_id p \<and> xr_plan_hash r = plan_hash (wa_isoformat x) p \<and>
     xr_approval_id r = ap_id a \<and> xr_target_version r = wp_before_version p \<and>
     xr_resulting_version r = Some (wr_resulting_version result) \<and>
     json_equal (wr_redacted_result result) [(''status'', JStr ''verified'')] \<and>
     xr_executed_by r = ap_actor a \<and> ap_plan_id a = wp_id p \<and> ap_plan_hash a = plan_hash (wa_isoformat x) p \<and>
     ap_target_version a = wp_before_version p \<and> ap_plan_created_at a = wp_created_at p \<and>
     ap_plan_expires_at a = wp_expires_at p \<and> xr_executed_by r \<in> set (wa_executors x) \<and>
     authenticated_approval_aliases (wa_isoformat x) p (wa_binding x) (ap_actor a) (wa_contributors x) (wa_approvers x)
       (wa_aliases x) = Some (ap_actor_aliases a) \<and>
     ap_approved_at a \<le> xr_attempted_at r \<and> xr_attempted_at r < ap_expires_at a \<and>
     pp_id (wa_profile x) = wp_profile_id p \<and> pp_version (wa_profile x) = wp_profile_version p \<and>
     provider_binding_hash (wa_binding x) = Inr (wp_binding_hash p)"

definition commit_contract :: "write_authority \<Rightarrow> write_plan \<Rightarrow> bool" where
  "commit_contract x p \<longleftrightarrow>
     (case map_of (pp_writes (wa_profile x)) (wp_operation p) of
        None \<Rightarrow> False
      | Some w \<Rightarrow>
          wo_target_object w = wp_object_type p \<and> wp_target_ref p = pp_id (wa_profile x) @ '':'' @ wp_target_id p \<and>
          map_of (pb_tools (wa_binding x)) (wp_operation p) = Some (wp_provider_operation p) \<and>
          provider_write_contract_hash (fst (wa_schemas x)) (wa_profile x) (wa_binding x) (wp_operation p) =
            Inr (wp_write_contract_hash p))"

definition commit_inputs_ok ::
  "write_authority \<Rightarrow> execution_receipt \<Rightarrow> write_plan \<Rightarrow> approval_record \<Rightarrow> write_result \<Rightarrow> bool" where
  "commit_inputs_ok x r p a result \<longleftrightarrow>
     validate_receipt (wa_isoformat x) r = Inr r \<and> validate_plan (wa_isoformat x) p = Inr p \<and>
     validate_approval (wa_isoformat x) a = Inr a \<and> validate_write_result result = Inr result \<and>
     validate_profile (fst (wa_schemas x)) (wa_profile x) = Inr (wa_profile x) \<and>
     validate_binding (wa_binding x) = Inr (wa_binding x) \<and>
     validate_against (wa_binding x) (wa_profile x) = Inr () \<and> commit_agrees x r p a result \<and> commit_contract x p"

text \<open>The case must still be the one the plan was made for.\<close>

definition case_agrees :: "write_plan \<Rightarrow> reconciliation_case \<Rightarrow> bool" where
  "case_agrees p c \<longleftrightarrow>
     rc_status c = NEEDS_HUMAN \<and> all_evidence_refs c = wp_evidence_refs p \<and>
     wp_target_ref p \<in> set (rc_subject_ref c # rc_affected_refs c) \<and> conflicting_authors c = wp_conflicting_authors p"

section \<open>The transaction\<close>

definition write_changeset_id :: "json dict \<Rightarrow> string" where
  "write_changeset_id material = ''changeset:mcp-write:'' @ hexdigest (dumps False (JObj material))"

definition write_changeset ::
  "execution_receipt \<Rightarrow> write_plan \<Rightarrow> graph \<Rightarrow> reconciliation_case \<Rightarrow> evidence_record \<Rightarrow> changeset" where
  "write_changeset r p g c e =
     \<lparr>cs_id = write_changeset_id
        [(''baseline_graph_version'', JInt (g_version g)), (''case_id'', JStr (rc_id c)), (''evidence_id'', JStr (er_id e)),
         (''receipt_id'', JStr (xr_id r)), (''resolution_action'', JStr (resolution_action_value (wp_resolution_action p)))],
      cs_actor = xr_executed_by r, cs_timestamp = xr_completed_at r, cs_baseline_graph_version = g_version g,
      cs_evidence_refs = all_evidence_refs c @ [er_id e], cs_nodes_added = [], cs_nodes_updated = [],
      cs_nodes_superseded = [], cs_edges_added = [], cs_edges_updated = [], cs_edges_superseded = [],
      cs_confidence_changes = [], cs_implementation_status_changes = [], cs_reconciliation_cases_created = [],
      cs_reconciliation_cases_resolved = [rc_id c], cs_validation_status = ''approved''\<rparr>"

text \<open>Everything that is computed before the first write; \<open>None\<close> is a refusal.\<close>

record write_effects =
  we_graph :: graph
  we_changeset :: changeset
  we_case :: reconciliation_case
  we_evidence_line :: string
  we_case_line :: string
  we_receipt_line :: string

definition resolve_for_write ::
  "commit_codecs \<Rightarrow> execution_receipt \<Rightarrow> write_plan \<Rightarrow> evidence_record \<Rightarrow> graph \<Rightarrow> reconciliation_case \<Rightarrow>
     (graph \<times> changeset \<times> reconciliation_case) option res" where
  "resolve_for_write c r p e g rcase =
     res_bind (validate_changeset (write_changeset r p g rcase e)) (\<lambda>cs.
     res_bind (transition_case rcase RESOLVED (xr_executed_by r) (Some (xr_completed_at r))
       (Some (wp_resolution_action p)) (Some (cs_id cs))) (\<lambda>resolved.
     res_bind (apply_changeset_with_case_effects g cs) (\<lambda>next_graph.
     Inr (if effects_unknown next_graph [resolved] then None else Some (next_graph, cs, resolved)))))"

definition commit_lines ::
  "commit_codecs \<Rightarrow> execution_receipt \<Rightarrow> evidence_record \<Rightarrow> string \<Rightarrow> string option \<Rightarrow>
     (graph \<times> changeset \<times> reconciliation_case) option \<Rightarrow> write_effects option action" where
  "commit_lines c r e connector_id evidence_text resolution =
     (case resolution of
        None \<Rightarrow> act_return None
      | Some (next_graph, cs, resolved) \<Rightarrow>
          act_bind (txn_read_optional ''cases'') (\<lambda>cases_text.
          act_bind (act_lift (validate_case_appends (case_dump c) (case_decode c) cases_text [resolved])) (\<lambda>case_line.
          act_bind (act_lift (evidence_append (evidence_codec c) evidence_text connector_id e)) (\<lambda>evidence_line.
          act_bind (txn_read_optional ''receipts'') (\<lambda>receipts_text.
          act_bind (act_lift (validate_receipt_completion (receipt_codec c) receipts_text r)) (\<lambda>receipt_line.
          act_return (if receipt_line = [] then None
            else Some \<lparr>we_graph = next_graph, we_changeset = cs, we_case = resolved, we_evidence_line = evidence_line,
              we_case_line = case_line, we_receipt_line = receipt_line\<rparr>)))))))"

definition commit_reads ::
  "commit_codecs \<Rightarrow> execution_receipt \<Rightarrow> write_plan \<Rightarrow> evidence_record \<Rightarrow> string \<Rightarrow> write_effects option action" where
  "commit_reads c r p e connector_id =
     act_bind (txn_read ''graph'') (\<lambda>graph_text.
     act_bind (act_lift (parse_graph (codecs.truncate c) graph_text)) (\<lambda>g.
     act_bind (txn_read_optional ''evidence'') (\<lambda>evidence_text.
     act_bind (act_lift (parse_evidence_lines (evidence_codec c) evidence_text)) (\<lambda>st.
     if \<not> set (wp_evidence_refs p) \<subseteq> fst ` set (st_records st) then act_return None
     else
       act_bind (txn_read_optional ''cases'') (\<lambda>cases_text.
       act_bind (act_lift (parse_case_versions (case_decode c) cases_text)) (\<lambda>versions.
       case map_of (dict_of rc_id versions) (wp_case_id p) of
         None \<Rightarrow> act_return None
       | Some rcase \<Rightarrow>
           if \<not> case_agrees p rcase then act_return None
           else
             act_bind (act_lift (resolve_for_write c r p e g rcase)) (commit_lines c r e connector_id evidence_text)))))))"

definition commit_writes :: "commit_codecs \<Rightarrow> write_effects \<Rightarrow> unit action" where
  "commit_writes c w =
     act_bind (txn_write ''graph'' (serialize_graph (codecs.truncate c) (we_graph w))) (\<lambda>_.
     act_bind (txn_append ''history'' (serialize_changeset (changeset_dump c) (we_changeset w))) (\<lambda>_.
     act_bind (txn_append ''evidence'' (we_evidence_line w)) (\<lambda>_.
     act_bind (txn_append ''cases'' (we_case_line w)) (\<lambda>_.
     txn_append ''receipts'' (we_receipt_line w)))))"

definition commit_body ::
  "commit_codecs \<Rightarrow> execution_receipt \<Rightarrow> write_plan \<Rightarrow> evidence_record \<Rightarrow> string \<Rightarrow> bool action" where
  "commit_body c r p e connector_id =
     act_bind (commit_reads c r p e connector_id) (\<lambda>effects.
       case effects of
         None \<Rightarrow> act_return False
       | Some w \<Rightarrow> act_bind (commit_writes c w) (\<lambda>_. act_return True))"

definition commit_write ::
  "commit_codecs \<Rightarrow> committer \<Rightarrow> string \<Rightarrow> execution_receipt \<Rightarrow> write_plan \<Rightarrow> approval_record \<Rightarrow> write_result \<Rightarrow>
     disk \<Rightarrow> disk \<times> bool" where
  "commit_write c cm t r p a result d =
     (if \<not> commit_inputs_ok (cm_authority cm) r p a result then (d, False)
      else
        (case write_evidence (wa_isoformat (cm_authority cm)) r p a result (cm_acl cm) of
           Inl _ \<Rightarrow> (d, False)
         | Inr e \<Rightarrow>
             (case run_transaction (cm_coordinator cm) [] [] t
                 (commit_body c r p e (''mcp-write:'' @ removeprefix ''sha256:'' (wp_binding_hash p))) d of
                (d', Inl _) \<Rightarrow> (d', False) | (d', Inr accepted) \<Rightarrow> (d', accepted))))"

definition commit_success ::
  "commit_codecs \<Rightarrow> committer \<Rightarrow> string \<Rightarrow> execution_receipt \<Rightarrow> write_plan \<Rightarrow> approval_record \<Rightarrow> write_result \<Rightarrow>
     (disk, unit) act" where
  "commit_success c cm t r p a result d =
     (case commit_write c cm t r p a result d of (d', ok) \<Rightarrow> (d', if ok then Inr () else Inl WriteCommitError))"

text \<open>The services of the local executor: plan and approval files beside the transaction's targets, the
  receipt store under the coordinator, and the committer.\<close>

definition local_services ::
  "commit_codecs \<Rightarrow> write_plan mutation_model \<Rightarrow> approval_record mutation_model \<Rightarrow> committer \<Rightarrow> string \<Rightarrow>
     disk exec_services" where
  "local_services c plans approvals cm t =
     \<lparr>es_plan = (\<lambda>i d. (d, get_record plans (dk_files d ''plans'') i)),
      es_approval = (\<lambda>i d. (d, get_record approvals (dk_files d ''approvals'') i)),
      es_get = (\<lambda>p a. coordinated (cm_coordinator cm) ''receipts'' (\<lambda>content.
        res_bind (get_receipt (receipt_codec c) p a content) (\<lambda>r. Inr (r, content)))),
      es_claim = (\<lambda>p a actor now. coordinated (cm_coordinator cm) ''receipts'' (store_claim (receipt_codec c) p a actor now)),
      es_complete = (\<lambda>r. coordinated (cm_coordinator cm) ''receipts'' (complete_receipt (receipt_codec c) r)),
      es_commit = commit_success c cm t\<rparr>"

section \<open>What a commit does\<close>

lemma confined_act_if: "(b \<Longrightarrow> confined m) \<Longrightarrow> (\<not> b \<Longrightarrow> confined m') \<Longrightarrow> confined (if b then m else m')"
  by simp

lemma confined_commit_body: "confined (commit_body c r p e connector_id)"
  unfolding commit_body_def commit_reads_def commit_lines_def commit_writes_def
  by (intro confined_intros confined_case_prod | simp split: option.split prod.split)+

definition write_effects_of ::
  "commit_codecs \<Rightarrow> execution_receipt \<Rightarrow> write_plan \<Rightarrow> evidence_record \<Rightarrow> string \<Rightarrow> files \<Rightarrow> write_effects \<Rightarrow> bool" where
  "write_effects_of c r p e connector_id f w \<longleftrightarrow>
     (\<exists>g rcase st versions.
        load_graph (codecs.truncate c) f = Inr g \<and>
        parse_evidence_lines (evidence_codec c) (f ''evidence'') = Inr st \<and> set (wp_evidence_refs p) \<subseteq> fst ` set (st_records st) \<and>
        parse_case_versions (case_decode c) (f ''cases'') = Inr versions \<and>
        map_of (dict_of rc_id versions) (wp_case_id p) = Some rcase \<and> case_agrees p rcase \<and>
        resolve_for_write c r p e g rcase = Inr (Some (we_graph w, we_changeset w, we_case w)) \<and>
        validate_case_appends (case_dump c) (case_decode c) (f ''cases'') [we_case w] = Inr (we_case_line w) \<and>
        evidence_append (evidence_codec c) (f ''evidence'') connector_id e = Inr (we_evidence_line w) \<and>
        validate_receipt_completion (receipt_codec c) (f ''receipts'') r = Inr (we_receipt_line w) \<and> we_receipt_line w \<noteq> [])"

definition written_group :: "commit_codecs \<Rightarrow> write_effects \<Rightarrow> files \<Rightarrow> files" where
  "written_group c w f =
     f(''graph'' \<mapsto> serialize_graph (codecs.truncate c) (we_graph w),
       ''history'' := append_text (f ''history'') (serialize_changeset (changeset_dump c) (we_changeset w)),
       ''evidence'' := append_text (f ''evidence'') (we_evidence_line w),
       ''cases'' := append_text (f ''cases'') (we_case_line w),
       ''receipts'' := append_text (f ''receipts'') (we_receipt_line w))"

lemma commit_reads_Inr:
  assumes h: "hd_extras h = []" and run: "commit_reads c r p e connector_id (h, f) = (s', Inr effects)"
  shows "s' = (h, f) \<and> (\<forall>w. effects = Some w \<longrightarrow> write_effects_of c r p e connector_id f w)"
proof -
  note plain = act_bind_Inr act_lift_Inr txn_read_optional_target [of _ h] txn_read_target [of _ h]
  from run h obtain g st where g: "load_graph (codecs.truncate c) f = Inr g"
    and st: "parse_evidence_lines (evidence_codec c) (f ''evidence'') = Inr st"
    and rest: "(if \<not> set (wp_evidence_refs p) \<subseteq> fst ` set (st_records st) then act_return None
     else
       act_bind (txn_read_optional ''cases'') (\<lambda>cases_text.
       act_bind (act_lift (parse_case_versions (case_decode c) cases_text)) (\<lambda>versions.
       case map_of (dict_of rc_id versions) (wp_case_id p) of
         None \<Rightarrow> act_return None
       | Some rcase \<Rightarrow> if \<not> case_agrees p rcase then act_return None
           else act_bind (act_lift (resolve_for_write c r p e g rcase)) (commit_lines c r e connector_id (f ''evidence''))))) (h, f)
       = (s', Inr effects)"
    by (auto simp: commit_reads_def plain load_graph_def)
  show ?thesis
  proof (cases "set (wp_evidence_refs p) \<subseteq> fst ` set (st_records st)")
    case known: True
    from rest known h obtain versions where versions: "parse_case_versions (case_decode c) (f ''cases'') = Inr versions"
      and rest: "(case map_of (dict_of rc_id versions) (wp_case_id p) of
         None \<Rightarrow> act_return None
       | Some rcase \<Rightarrow> if \<not> case_agrees p rcase then act_return None
           else act_bind (act_lift (resolve_for_write c r p e g rcase)) (commit_lines c r e connector_id (f ''evidence''))) (h, f)
         = (s', Inr effects)"
      by (auto simp: plain)
    show ?thesis
    proof (cases "\<exists>rcase. map_of (dict_of rc_id versions) (wp_case_id p) = Some rcase \<and> case_agrees p rcase")
      case True
      then obtain rcase where rcase: "map_of (dict_of rc_id versions) (wp_case_id p) = Some rcase" "case_agrees p rcase" by blast
      with rest obtain resolution where res: "resolve_for_write c r p e g rcase = Inr resolution"
        and lines: "commit_lines c r e connector_id (f ''evidence'') resolution (h, f) = (s', Inr effects)"
        by (auto simp: plain simp del: map_of_eq_Some_iff)
      show ?thesis
      proof (cases resolution)
        case (Some q)
        obtain next_graph cs resolved where q: "q = (next_graph, cs, resolved)" by (cases q)
        from lines Some q h obtain case_line evidence_line receipt_line where
          "validate_case_appends (case_dump c) (case_decode c) (f ''cases'') [resolved] = Inr case_line"
          "evidence_append (evidence_codec c) (f ''evidence'') connector_id e = Inr evidence_line"
          "validate_receipt_completion (receipt_codec c) (f ''receipts'') r = Inr receipt_line"
          and out: "s' = (h, f)" "effects = (if receipt_line = [] then None
             else Some \<lparr>we_graph = next_graph, we_changeset = cs, we_case = resolved, we_evidence_line = evidence_line,
               we_case_line = case_line, we_receipt_line = receipt_line\<rparr>)"
          by (auto simp: commit_lines_def plain act_return_Inr)
        then show ?thesis
          using g st known versions rcase res Some q unfolding write_effects_of_def
          by (auto simp del: map_of_eq_Some_iff split: if_splits)
      qed (use lines in \<open>simp add: commit_lines_def act_return_Inr\<close>)
    qed (use rest in \<open>auto simp: act_return_Inr simp del: map_of_eq_Some_iff split: option.splits if_splits\<close>)
  qed (use rest in \<open>simp add: act_return_Inr\<close>)
qed

lemma commit_writes_Inr:
  "commit_writes c w (h, f) = (s', Inr u) \<Longrightarrow> s' = (h, written_group c w f)"
  by (auto simp: commit_writes_def act_run written_group_def fun_upd_twist)

lemma commit_body_Inr:
  assumes "hd_extras h = []" "commit_body c r p e connector_id (h, f) = ((h', f'), Inr ok)"
  shows "if ok then \<exists>w. write_effects_of c r p e connector_id f w \<and> f' = written_group c w f else f' = f"
proof -
  from assms(2) obtain s1 effects where reads: "commit_reads c r p e connector_id (h, f) = (s1, Inr effects)"
    and rest: "(case effects of None \<Rightarrow> act_return False
      | Some w \<Rightarrow> act_bind (commit_writes c w) (\<lambda>_. act_return True)) s1 = ((h', f'), Inr ok)"
    by (auto simp: commit_body_def act_bind_Inr)
  note facts = commit_reads_Inr [OF assms(1) reads]
  show ?thesis
    using rest facts by (auto simp: act_bind_Inr act_return_Inr dest: commit_writes_Inr split: option.splits)
qed

lemma commit_write_cases:
  assumes "commit_write c cm t r p a result d = (d', ok)"
    and "recover (co_targets (cm_coordinator cm)) (co_legacy_sets (cm_coordinator cm)) d = Inr (b, \<lparr>dk_files = f0, dk_journal = None\<rparr>)"
  shows "if ok
    then commit_inputs_ok (cm_authority cm) r p a result \<and>
      (\<exists>e w. write_evidence (wa_isoformat (cm_authority cm)) r p a result (cm_acl cm) = Inr e \<and>
        write_effects_of c r p e (''mcp-write:'' @ removeprefix ''sha256:'' (wp_binding_hash p)) f0 w \<and>
        d' = \<lparr>dk_files = written_group c w f0, dk_journal = None\<rparr>)
    else d' = d \<or> d' = \<lparr>dk_files = f0, dk_journal = None\<rparr>"
proof (cases "commit_inputs_ok (cm_authority cm) r p a result")
  case inputs: True
  let ?co = "cm_coordinator cm" and ?cid = "''mcp-write:'' @ removeprefix ''sha256:'' (wp_binding_hash p)"
  show ?thesis
  proof (cases "write_evidence (wa_isoformat (cm_authority cm)) r p a result (cm_acl cm)")
    case (Inl e)
    then show ?thesis using assms(1) inputs by (simp add: commit_write_def)
  next
    case (Inr e)
    let ?body = "commit_body c r p e ?cid"
    obtain d1 res where run: "run_transaction ?co [] [] t ?body d = (d1, res)" by (metis surj_pair)
    have out: "d' = d1" "ok \<longleftrightarrow> res = Inr True"
      using assms(1) inputs Inr run by (auto simp: commit_write_def split: sum.splits)
    show ?thesis
    proof (cases res)
      case (Inl x)
      then show ?thesis
        using run_transaction_error [OF confined_commit_body] run out assms(2) by fastforce
    next
      case res: (Inr x)
      obtain policies' b' f1 h where rec: "recover (co_targets ?co) (co_legacy_sets ?co) d = Inr (b', \<lparr>dk_files = f1, dk_journal = None\<rparr>)"
        and body: "?body (new_handle (co_targets ?co) [] False policies', f1) = ((h, dk_files d1), Inr x)"
        and j: "dk_journal d1 = None"
        by (rule run_transaction_success [OF confined_commit_body run [unfolded res]])
      have f1: "f1 = f0" using rec assms(2) by simp
      have effect: "if x then \<exists>w. write_effects_of c r p e ?cid f1 w \<and> dk_files d1 = written_group c w f1 else dk_files d1 = f1"
        by (rule commit_body_Inr [OF _ body]) simp
      have shape: "d' = \<lparr>dk_files = f, dk_journal = None\<rparr>" if "dk_files d1 = f" for f
        using that j out(1) by (intro disk.equality) simp_all
      show ?thesis
      proof (cases x)
        case True
        with effect f1 obtain w where "write_effects_of c r p e ?cid f0 w" "dk_files d1 = written_group c w f0" by auto
        moreover have ok using out(2) res True by blast
        ultimately show ?thesis using inputs Inr shape by (simp only: if_True) blast
      next
        case False
        with effect f1 have "dk_files d1 = f0" by simp
        moreover have "\<not> ok" using out(2) res False by blast
        ultimately show ?thesis using shape by (simp only: if_False) blast
      qed
    qed
  qed
qed (use assms(1) in \<open>simp add: commit_write_def\<close>)

section \<open>At most one provider call\<close>

definition write_taken :: "commit_codecs \<Rightarrow> coordinator \<Rightarrow> write_key \<Rightarrow> disk \<Rightarrow> bool" where
  "write_taken c co k d =
     (case recover (co_targets co) (co_legacy_sets co) d of
        Inl _ \<Rightarrow> True
      | Inr (_, d') \<Rightarrow> blocked (receipt_codec c) k (dk_files d' ''receipts''))"

lemma write_taken_settled:
  "write_taken c co k \<lparr>dk_files = f, dk_journal = None\<rparr> \<longleftrightarrow> blocked (receipt_codec c) k (f ''receipts'')"
  by (simp add: write_taken_def recover_def)

lemma coordinated_taken:
  assumes "coordinated co ''receipts'' operation d = (d', res)"
    and keeps: "\<And>content x content'. operation content = Inr (x, content') \<Longrightarrow> blocked (receipt_codec c) k content \<Longrightarrow>
      blocked (receipt_codec c) k content'"
    and "write_taken c co k d"
  shows "write_taken c co k d'"
proof (cases "recover (co_targets co) (co_legacy_sets co) d")
  case (Inl e)
  then show ?thesis using assms(1,3) by (simp add: coordinated_def)
next
  case (Inr rd)
  then obtain b f0 where rec: "recover (co_targets co) (co_legacy_sets co) d = Inr (b, \<lparr>dk_files = f0, dk_journal = None\<rparr>)"
    using recover_shape by (metis surj_pair)
  then have "blocked (receipt_codec c) k (f0 ''receipts'')" using assms(3) by (simp add: write_taken_def)
  then show ?thesis
    using assms(1) rec keeps by (auto simp: coordinated_def write_taken_settled split: sum.splits)
qed

lemma coordinated_claim:
  assumes "coordinated co ''receipts'' (store_claim (receipt_codec c) p a actor now) d = (d', Inr True)"
  shows "\<not> write_taken c co (p, a) d \<and> write_taken c co (p, a) d'"
proof -
  from assms obtain b d0 content where rec: "recover (co_targets co) (co_legacy_sets co) d = Inr (b, d0)"
    and op: "store_claim (receipt_codec c) p a actor now (dk_files d0 ''receipts'') = Inr (True, content)"
    and d': "d' = d0\<lparr>dk_files := (dk_files d0)(''receipts'' := content)\<rparr>"
    by (auto simp: coordinated_def split: sum.splits prod.splits)
  from recover_shape [OF rec] d' have "d' = \<lparr>dk_files = (dk_files d0)(''receipts'' := content), dk_journal = None\<rparr>"
    by (metis disk.update_convs(1))
  with store_claim_blocked(1) [OF op] rec show ?thesis
    by (simp add: write_taken_settled) (simp add: write_taken_def)
qed

lemma commit_taken:
  assumes "commit_success c cm t r p a result d = (d', res)" "write_taken c (cm_coordinator cm) k d"
  shows "write_taken c (cm_coordinator cm) k d'"
proof (cases "recover (co_targets (cm_coordinator cm)) (co_legacy_sets (cm_coordinator cm)) d")
  case (Inl e)
  have "fst (run_transaction (cm_coordinator cm) [] [] t body d) = d" "\<exists>e. snd (run_transaction (cm_coordinator cm) [] [] t body d) = Inl e"
    for body :: "bool action"
    using Inl by (simp_all add: run_transaction_def transaction_def split: sum.split)
  then have "d' = d"
    using assms(1) by (auto simp: commit_success_def commit_write_def split: sum.splits if_splits prod.splits) (metis fst_conv)+
  then show ?thesis using assms(2) by simp
next
  case (Inr rd)
  then obtain b f0 where rec: "recover (co_targets (cm_coordinator cm)) (co_legacy_sets (cm_coordinator cm)) d =
      Inr (b, \<lparr>dk_files = f0, dk_journal = None\<rparr>)"
    using recover_shape by (metis surj_pair)
  obtain ok where run: "commit_write c cm t r p a result d = (d', ok)"
    using assms(1) by (auto simp: commit_success_def split: prod.splits)
  have k: "blocked (receipt_codec c) k (f0 ''receipts'')" using assms(2) rec by (simp add: write_taken_def)
  from commit_write_cases [OF run rec] consider "d' = d" | "d' = \<lparr>dk_files = f0, dk_journal = None\<rparr>"
    | e w where "write_effects_of c r p e (''mcp-write:'' @ removeprefix ''sha256:'' (wp_binding_hash p)) f0 w"
      "d' = \<lparr>dk_files = written_group c w f0, dk_journal = None\<rparr>" by (auto split: if_splits)
  then show ?thesis
  proof cases
    case (3 e w)
    from 3(1) have line: "validate_receipt_completion (receipt_codec c) (f0 ''receipts'') r = Inr (we_receipt_line w)"
      "we_receipt_line w \<noteq> []" by (auto simp: write_effects_of_def)
    obtain i where i: "decode_content (receipt_codec c) (f0 ''receipts'') = Some i"
      and "we_receipt_line w = serialize_entry (receipt_codec c) (Completion r)"
      by (rule validate_completion_append [OF line(1)]) (use line(2) in blast)
    then have "blocked (receipt_codec c) k (append_text (f0 ''receipts'') (we_receipt_line w))"
      using blocked_append [OF i k] by simp
    then show ?thesis by (simp add: 3(2) write_taken_settled written_group_def)
  qed (use assms(2) k in \<open>simp_all add: write_taken_settled\<close>)
qed

interpretation local_store: claim_store "local_services c plans approvals cm t" "write_taken c (cm_coordinator cm)"
  for c plans approvals cm t
proof
  show "write_taken c (cm_coordinator cm) k d'"
    if "es_get (local_services c plans approvals cm t) i j d = (d', r)" "write_taken c (cm_coordinator cm) k d" for i j d d' r k
    using that by (auto simp: local_services_def res_bind_Inr_iff intro!: coordinated_taken [of _ _ d])
  show "write_taken c (cm_coordinator cm) k d'"
    if "es_claim (local_services c plans approvals cm t) i j actor now d = (d', r)" "write_taken c (cm_coordinator cm) k d"
    for i j actor now d d' r k
    using that by (auto simp: local_services_def dest: store_claim_blocked(2) intro!: coordinated_taken [of _ _ d])
  show "write_taken c (cm_coordinator cm) k d'"
    if "es_complete (local_services c plans approvals cm t) rc d = (d', r)" "write_taken c (cm_coordinator cm) k d" for rc d d' r k
    using that by (auto simp: local_services_def dest: complete_receipt_blocked intro!: coordinated_taken [of _ _ d])
qed (auto simp: local_services_def dest: commit_taken coordinated_claim)

text \<open>C14: The provider is called at most once for a plan and an approval. However many executors share the
  local stores, however their steps are interleaved, wherever they or the disk are interrupted and whatever
  the provider answers, no two of the calls the provider receives carry the same plan and approval; and a plan
  and approval that were claimed before, or whose receipts cannot be read, are not called at all.\<close>

theorem at_most_one_call:
  assumes "exec_reachable (local_services c plans approvals cm t) config d0 (d, phases, trace)"
  shows "distinct (map fst trace) \<and> (\<forall>k. write_taken c (cm_coordinator cm) k d0 \<longrightarrow> k \<notin> fst ` set trace)"
proof (intro conjI allI impI)
  show "distinct (map fst trace)" by (rule local_store.called_once [OF assms])
  show "k \<notin> fst ` set trace" if "write_taken c (cm_coordinator cm) k d0" for k
    using local_store.taken_before [OF assms that] by simp
qed

text \<open>C16: A commit is atomic and only made for a verified success. On success the inputs agreed and the five
  targets are exactly the files the computed effects prescribe, computed from the files as recovered;
  otherwise the disk is as it was, or as recovery alone leaves it.\<close>

theorem commit_atomic:
  assumes "commit_write c cm t r p a result d = (d', ok)"
    and "recover (co_targets (cm_coordinator cm)) (co_legacy_sets (cm_coordinator cm)) d = Inr (b, \<lparr>dk_files = f0, dk_journal = None\<rparr>)"
  shows "if ok
    then commit_inputs_ok (cm_authority cm) r p a result \<and>
      (\<exists>e w. write_evidence (wa_isoformat (cm_authority cm)) r p a result (cm_acl cm) = Inr e \<and>
        write_effects_of c r p e (''mcp-write:'' @ removeprefix ''sha256:'' (wp_binding_hash p)) f0 w \<and>
        d' = \<lparr>dk_files = written_group c w f0, dk_journal = None\<rparr>)
    else d' = d \<or> d' = \<lparr>dk_files = f0, dk_journal = None\<rparr>"
  by (rule commit_write_cases [OF assms])

section \<open>Samples\<close>

definition sample_commit_codecs :: commit_codecs where
  "sample_commit_codecs = exec_codecs.extend sample_exec_codecs (commit_codecs.fields sample_codec sample_receipt_codec)"

definition sample_committer :: committer where
  "sample_committer =
     \<lparr>cm_coordinator = \<lparr>co_targets = [''graph'', ''history'', ''cases'', ''evidence'', ''receipts''], co_legacy_sets = []\<rparr>,
      cm_acl = [''team''], cm_authority = sample_authority\<rparr>"

definition empty_disk :: disk where
  "empty_disk = \<lparr>dk_files = (\<lambda>_. None), dk_journal = None\<rparr>"

theorem at_most_one_call_witness:
  "\<exists>phases trace. exec_reachable
      (local_services sample_commit_codecs sample_plan_model (approval_model int_str (\<lambda>_. None)) sample_committer ''t1'')
      (\<lambda>_. (sample_authority, sample_request)) empty_disk (empty_disk, phases, trace) \<and>
     phases 0 = Finished Unavailable \<and> phases 1 = Finished Interrupted \<and> distinct (map fst trace)"
proof -
  let ?S = "local_services sample_commit_codecs sample_plan_model (approval_model int_str (\<lambda>_. None)) sample_committer ''t1''"
    and ?config = "\<lambda>_ :: nat. (sample_authority, sample_request)"
  have "exact_policy [''ana'']" "exact_policy [''bo'']" by code_simp+
  moreover have "\<exists>e. get_record sample_plan_model None (xq_plan_id sample_request) = Inl e"
    by (simp add: get_record_def rebuild_records_def res_bind_def)
  ultimately have "exec_step ?S sample_authority sample_request Denied Entered empty_disk = (empty_disk, Finished Unavailable, [])"
    by (auto simp: on_store_def validated_inputs_def act_bind_def act_guard_def local_services_def sample_authority_def empty_disk_def)
  then have "exec_system_step ?S ?config (empty_disk, \<lambda>_. Entered, [])
      (empty_disk, (\<lambda>_. Entered)(0 := Finished Unavailable), [] @ [])"
    using advance [of ?S ?config 0 Denied "\<lambda>_. Entered" empty_disk empty_disk "Finished Unavailable" "[]" "[]"] by simp
  note exec_reachable.step [OF exec_reachable.start this]
  from exec_reachable.step [OF this killed_before [of _ _ _ _ _ 1]] have reach: "exec_reachable ?S ?config empty_disk
      (empty_disk, (\<lambda>_. Entered)(0 := Finished Unavailable, 1 := Finished Interrupted), [])" by simp
  with at_most_one_call [OF reach] show ?thesis
    by (intro exI [of _ "(\<lambda>_. Entered)(0 := Finished Unavailable, 1 := Finished Interrupted)"] exI [of _ "[]"]) simp
qed

text \<open>A valid plan and approval, but the receipt is one of a failed write.\<close>

theorem commit_atomic_witness:
  "\<exists>p a. executable sample_authority sample_request p a \<and>
     commit_write sample_commit_codecs sample_committer ''t1'' sample_receipt p a
       \<lparr>wr_resulting_version = ''v2'', wr_redacted_result = [(''status'', JStr ''verified'')]\<rparr> empty_disk = (empty_disk, False)"
proof -
  obtain p a where ok: "executable sample_authority sample_request p a" using sample_plan_approved by blast
  let ?result = "\<lparr>wr_resulting_version = ''v2'', wr_redacted_result = [(''status'', JStr ''verified'')]\<rparr>"
  have "\<not> commit_inputs_ok sample_authority sample_receipt p a ?result"
    by (simp add: commit_inputs_ok_def commit_agrees_def sample_receipt_def unnamed_receipt_def)
  then obtain d' where run: "commit_write sample_commit_codecs sample_committer ''t1'' sample_receipt p a ?result empty_disk = (d', False)"
    by (simp add: commit_write_def sample_committer_def)
  have "recover (co_targets (cm_coordinator sample_committer)) (co_legacy_sets (cm_coordinator sample_committer)) empty_disk =
      Inr (False, \<lparr>dk_files = (\<lambda>_. None), dk_journal = None\<rparr>)"
    by (simp add: recover_def empty_disk_def sample_committer_def)
  from commit_atomic [OF run this] have "d' = empty_disk" by (auto simp: empty_disk_def)
  with ok run show ?thesis by blast
qed

end
