(* ===== verification/Intent_Models.thy ===== *)
theory Intent_Models
  imports Changeset Mutation_Models Evidence
begin

text \<open>
  The records an agent workflow exchanges (\<open>intent_workflow/models.py\<close>): the task, the result of its
  preflight, proposals with their decisions, and clarification sessions with their events. Each is named by
  the digest of its own content; \<open>isoformat\<close> is the rendering of UTC times. A time in the model is UTC.
\<close>

definition canonical_digest :: "json dict \<Rightarrow> string" where
  "canonical_digest material = sha256_id (dumps False (JObj material))"

definition sha256_pattern :: "string \<Rightarrow> bool" where
  "sha256_pattern s \<longleftrightarrow> tagged_hash ''sha256:'' s"

definition bounded_text :: "nat \<Rightarrow> string \<Rightarrow> bool" where
  "bounded_text n s \<longleftrightarrow> 1 \<le> length s \<and> length s \<le> n"

section \<open>Tasks\<close>

datatype TaskClassification = No_Semantic_Impact | Aligned | New_Or_Ambiguous | Conflicting

definition prompt_control :: "char \<Rightarrow> bool" where
  "prompt_control c \<longleftrightarrow> control_char c \<and> of_char c \<notin> {9, 10, 13 :: nat}"

definition task_text :: "bool \<Rightarrow> nat \<Rightarrow> string \<Rightarrow> bool" where
  "task_text prompt limit s \<longleftrightarrow>
     \<not> list_ex (if prompt then prompt_control else control_char) s \<and> length (utf8 s) \<le> limit"

record task_envelope =
  te_id :: string
  te_repository_id :: string
  te_actor :: string
  te_conversation_ref :: string
  te_request :: string
  te_request_evidence_ref :: string
  te_graph_version :: int
  te_created_at :: datetime
  te_requested_scope :: "string list"

definition envelope_material :: "(datetime \<Rightarrow> string) \<Rightarrow> task_envelope \<Rightarrow> json dict" where
  "envelope_material isoformat e =
     [(''schema_version'', JInt 1), (''repository_id'', JStr (te_repository_id e)), (''actor'', JStr (te_actor e)),
      (''conversation_ref'', JStr (te_conversation_ref e)), (''request'', JStr (te_request e)),
      (''request_evidence_ref'', JStr (te_request_evidence_ref e)), (''graph_version'', JInt (te_graph_version e)),
      (''created_at'', JStr (isoformat (te_created_at e))), (''requested_scope'', strs (te_requested_scope e))]"

definition envelope_error :: "task_envelope \<Rightarrow> exn option" where
  "envelope_error e = first_error
     [field_error (\<not> list_ex control_char (te_repository_id e)), field_error (\<not> list_ex control_char (te_actor e)),
      field_error (length (te_conversation_ref e) \<le> 512 \<and> task_text False 512 (te_conversation_ref e)),
      field_error (task_text True 16384 (te_request e)), field_error (\<not> list_ex control_char (te_request_evidence_ref e)),
      field_error (0 \<le> te_graph_version e), when_error (256 < length (te_requested_scope e)) ''requested scope exceeds maximum entries'',
      field_error (list_all (task_text False 2048) (te_requested_scope e))]"

text \<open>An envelope without an identifier receives its own; any other must carry it.\<close>

definition validate_envelope :: "(datetime \<Rightarrow> string) \<Rightarrow> task_envelope \<Rightarrow> task_envelope res" where
  "validate_envelope isoformat e =
     (case envelope_error e of
        Some x \<Rightarrow> Inl x
      | None \<Rightarrow>
          let expected = ''task:'' @ canonical_digest (envelope_material isoformat e) in
          if te_id e \<noteq> [] \<and> te_id e \<noteq> expected then Inl (ValueError ''task identifier does not match canonical hash'')
          else Inr (e\<lparr>te_id := expected\<rparr>))"

text \<open>The context is a JSON object by its type, so the checks of \<open>require_exact_context\<close> always pass.\<close>

record preflight_result =
  pr_task_id :: string
  pr_graph_version :: int
  pr_classification :: TaskClassification
  pr_authorized :: bool
  pr_basis :: string
  pr_relevant_node_ids :: "string list"
  pr_evidence_refs :: "string list"
  pr_questions :: "string list"
  pr_review_case_id :: "string option"
  pr_permitted_scope :: "string list"
  pr_context :: "json dict"

section \<open>What an identifier pins down\<close>

lemma digest_pattern [simp]: "sha256_pattern (canonical_digest m)"
  by (simp add: sha256_pattern_def canonical_digest_def tagged_hash_def sha256_id_def starts_with_def hex64_hexdigest)

lemma validate_envelope_Inr:
  "validate_envelope isoformat e = Inr e' \<longleftrightarrow> envelope_error e = None \<and>
     e' = e\<lparr>te_id := ''task:'' @ canonical_digest (envelope_material isoformat e)\<rparr> \<and> (te_id e = [] \<or> te_id e = te_id e')"
  by (auto simp: validate_envelope_def Let_def split: option.splits)

section \<open>Proposals\<close>

datatype ProposalKind = Bootstrap | Requirement

definition proposal_kind_value :: "ProposalKind \<Rightarrow> string" where
  "proposal_kind_value k = (case k of Bootstrap \<Rightarrow> ''bootstrap'' | Requirement \<Rightarrow> ''requirement'')"

text \<open>\<open>ClarificationIntentProposal\<close> is the proposal with the session and the task it is bound to.\<close>

record clarification_binding =
  cb_session_id :: string
  cb_task_id :: string

record intent_proposal =
  ip_id :: string
  ip_kind :: ProposalKind
  ip_proposed_by :: string
  ip_proposed_at :: datetime
  ip_baseline :: int
  ip_evidence_refs :: "string list"
  ip_source_roles :: "source_role_assignment list"
  ip_changeset :: changeset
  ip_core_node_ids :: "string list"
  ip_provisional_node_ids :: "string list"
  ip_assumptions :: "string list"
  ip_unanswered_questions :: "string list"
  ip_conflicting_authors :: "string list"
  ip_destructive :: bool
  ip_clarification :: "clarification_binding option"

text \<open>What the program's JSON needs from Pydantic: the rendering of times and the dump of a ChangeSet.\<close>

record dumpers =
  dm_isoformat :: "datetime \<Rightarrow> string"
  dm_changeset :: "changeset \<Rightarrow> json dict"

definition source_role_value :: "SourceRole \<Rightarrow> string" where
  "source_role_value r =
     (case r of DECLARED_INTENT \<Rightarrow> ''declared_intent'' | DECISION_ROLE \<Rightarrow> ''decision'' | PROPOSED_INTENT \<Rightarrow> ''proposed_intent''
      | IMPLEMENTATION_EVIDENCE \<Rightarrow> ''implementation_evidence'' | OPERATING_CONTEXT \<Rightarrow> ''operating_context'')"

definition source_role_dump :: "source_role_assignment \<Rightarrow> json" where
  "source_role_dump a =
     JObj [(''connector_id'', JStr (sr_connector_id a)), (''scope'', JStr (sr_scope a)),
       (''role'', JStr (source_role_value (sr_role a))), (''inherited'', JBool (sr_inherited a))]"

definition proposal_material :: "dumpers \<Rightarrow> intent_proposal \<Rightarrow> json dict" where
  "proposal_material dm p =
     [(''schema_version'', JInt (if ip_clarification p = None then 1 else 2)), (''kind'', JStr (proposal_kind_value (ip_kind p))),
      (''proposed_by'', JStr (ip_proposed_by p)), (''proposed_at'', JStr (dm_isoformat dm (ip_proposed_at p))),
      (''baseline_graph_version'', JInt (ip_baseline p)), (''evidence_refs'', strs (ip_evidence_refs p)),
      (''source_roles'', JArr (map source_role_dump (ip_source_roles p))), (''changeset'', JObj (dm_changeset dm (ip_changeset p))),
      (''core_node_ids'', strs (ip_core_node_ids p)), (''provisional_node_ids'', strs (ip_provisional_node_ids p)),
      (''assumptions'', strs (ip_assumptions p)), (''unanswered_questions'', strs (ip_unanswered_questions p)),
      (''conflicting_authors'', strs (ip_conflicting_authors p)), (''destructive'', JBool (ip_destructive p))] @
     (case ip_clarification p of
        None \<Rightarrow> []
      | Some b \<Rightarrow> [(''clarification_session_id'', JStr (cb_session_id b)), (''task_id'', JStr (cb_task_id b))])"

definition proposal_digest :: "dumpers \<Rightarrow> intent_proposal \<Rightarrow> string" where
  "proposal_digest dm p = canonical_digest (proposal_material dm p)"

definition normalize_source_roles :: "source_role_assignment list \<Rightarrow> source_role_assignment list" where
  "normalize_source_roles roles = sort_key (\<lambda>a. (sr_connector_id a, sr_scope a)) roles"

definition proposal_error :: "dumpers \<Rightarrow> intent_proposal \<Rightarrow> exn option" where
  "proposal_error dm p = first_error
     [field_error (list_all valid_source_role_assignment (ip_source_roles p)),
      when_error (\<not> distinct (map (\<lambda>a. (sr_connector_id a, sr_scope a)) (ip_source_roles p))) ''duplicate source role assignment'',
      error_of (validate_changeset (ip_changeset p)),
      field_error (\<forall>b. ip_clarification p = Some b \<longrightarrow> bounded_text 256 (cb_session_id b) \<and> bounded_text 256 (cb_task_id b)),
      when_error (ip_id p \<noteq> ''proposal:'' @ proposal_digest dm p) ''proposal identifier does not match canonical hash'']"

definition validate_proposal :: "dumpers \<Rightarrow> intent_proposal \<Rightarrow> intent_proposal res" where
  "validate_proposal dm p =
     (let p = p\<lparr>ip_source_roles := normalize_source_roles (ip_source_roles p)\<rparr> in
      case proposal_error dm p of Some e \<Rightarrow> Inl e | None \<Rightarrow> Inr p)"

section \<open>Decisions\<close>

datatype decision_action = Confirm | Reject

definition decision_action_value :: "decision_action \<Rightarrow> string" where
  "decision_action_value a = (case a of Confirm \<Rightarrow> ''confirm'' | Reject \<Rightarrow> ''reject'')"

record governed_decision =
  gd_selected_node_ids :: "string list"
  gd_activation_changeset_id :: string
  gd_activation_graph_effect_digest :: string
  gd_review_case_id :: "string option"
  gd_review_case_preimage_digest :: "string option"
  gd_proposal_author_aliases :: "string list"
  gd_conflicting_author_aliases :: "string list"

text \<open>The three versions of a decision: \<open>ProposalDecision\<close>, \<open>ProposalDecisionV2\<close> with the confirmed nodes and
  the activating ChangeSet, \<open>ProposalDecisionV3\<close>.\<close>

datatype decision_version = Plain_Decision | Activation_Decision "string list" string | Governed_Decision governed_decision

record proposal_decision =
  pd_id :: string
  pd_proposal_id :: string
  pd_proposal_digest :: string
  pd_actor :: string
  pd_actor_aliases :: "string list"
  pd_decided_at :: datetime
  pd_action :: decision_action
  pd_baseline :: int
  pd_version :: decision_version

definition decision_material :: "dumpers \<Rightarrow> proposal_decision \<Rightarrow> json dict" where
  "decision_material dm d =
     [(''schema_version'', JInt (case pd_version d of Plain_Decision \<Rightarrow> 1 | Activation_Decision _ _ \<Rightarrow> 2 | Governed_Decision _ \<Rightarrow> 3)),
      (''proposal_id'', JStr (pd_proposal_id d)), (''proposal_digest'', JStr (pd_proposal_digest d)), (''actor'', JStr (pd_actor d)),
      (''actor_aliases'', strs (pd_actor_aliases d)), (''decided_at'', JStr (dm_isoformat dm (pd_decided_at d))),
      (''action'', JStr (decision_action_value (pd_action d))), (''baseline_graph_version'', JInt (pd_baseline d))] @
     (case pd_version d of
        Plain_Decision \<Rightarrow> []
      | Activation_Decision confirmed changeset_id \<Rightarrow>
          [(''confirmed_node_ids'', strs confirmed), (''activation_changeset_id'', JStr changeset_id)]
      | Governed_Decision g \<Rightarrow>
          [(''selected_node_ids'', strs (gd_selected_node_ids g)), (''activation_changeset_id'', JStr (gd_activation_changeset_id g)),
           (''activation_graph_effect_digest'', JStr (gd_activation_graph_effect_digest g)),
           (''review_case_id'', opt_str (gd_review_case_id g)),
           (''review_case_preimage_digest'', opt_str (gd_review_case_preimage_digest g)),
           (''proposal_author_aliases'', strs (gd_proposal_author_aliases g)),
           (''conflicting_author_aliases'', strs (gd_conflicting_author_aliases g))])"

definition canonical_unique :: "string list \<Rightarrow> bool" where
  "canonical_unique values \<longleftrightarrow> sorted_set values = values"

definition governed_error :: "proposal_decision \<Rightarrow> governed_decision \<Rightarrow> exn option" where
  "governed_error d g = first_error
     [field_error (list_all canonical_unique
        [pd_actor_aliases d, gd_selected_node_ids g, gd_proposal_author_aliases g, gd_conflicting_author_aliases g]),
      field_error (length (gd_selected_node_ids g) \<le> 10000 \<and> 1 \<le> length (gd_activation_changeset_id g) \<and>
        sha256_pattern (gd_activation_graph_effect_digest g) \<and> 1 \<le> length (gd_proposal_author_aliases g)),
      field_error (\<forall>h. gd_review_case_preimage_digest g = Some h \<longrightarrow> sha256_pattern h),
      when_error (pd_action d \<noteq> Confirm) ''action'',
      when_error (pd_actor d \<notin> set (pd_actor_aliases d)) ''decision aliases omit actor'',
      when_error (gd_review_case_id g = None \<and> gd_conflicting_author_aliases g \<noteq> []) ''conflicting aliases require a review case'',
      when_error ((gd_review_case_id g = None) \<noteq> (gd_review_case_preimage_digest g = None)) ''review case preimage binding mismatch'']"

definition decision_error :: "dumpers \<Rightarrow> proposal_decision \<Rightarrow> exn option" where
  "decision_error dm d = first_error
     [(case pd_version d of
         Plain_Decision \<Rightarrow> None
       | Activation_Decision confirmed changeset_id \<Rightarrow>
           field_error (pd_action d = Confirm \<and> 1 \<le> length confirmed \<and> length confirmed \<le> 10000 \<and> distinct confirmed \<and>
             1 \<le> length changeset_id)
       | Governed_Decision g \<Rightarrow> governed_error d g),
      when_error (pd_id d \<noteq> ''proposal-decision:'' @ canonical_digest (decision_material dm d))
        ''proposal decision identifier does not match canonical hash'']"

definition validate_decision :: "dumpers \<Rightarrow> proposal_decision \<Rightarrow> proposal_decision res" where
  "validate_decision dm d = (case decision_error dm d of Some e \<Rightarrow> Inl e | None \<Rightarrow> Inr d)"

section \<open>Clarification\<close>

record clarification_question =
  cq_id :: string
  cq_prompt_digest :: string
  cq_evidence_ref :: string
  cq_author :: string
  cq_asked_at :: datetime
  cq_predecessor :: "string option"
  cq_required :: bool

record clarification_answer =
  ca_question_id :: string
  ca_actor :: string
  ca_answered_at :: datetime
  ca_evidence_ref :: string
  ca_answer_digest :: string
  ca_predecessor :: "string option"

record clarification_conflict =
  cf_question_id :: string
  cf_actor :: string
  cf_observed_at :: datetime
  cf_original_ref :: string
  cf_conflicting_ref :: string
  cf_answer_digest :: string
  cf_predecessor :: string

datatype session_status = Open | Proposed | Closed

record clarification_session =
  cn_id :: string
  cn_task_id :: string
  cn_conversation_ref :: string
  cn_request_evidence_ref :: string
  cn_classification_evidence_ref :: string
  cn_opened_by :: string
  cn_opened_at :: datetime
  cn_baseline :: int
  cn_questions :: "clarification_question list"
  cn_answers :: "clarification_answer list"
  cn_conflicts :: "clarification_conflict list"
  cn_status :: session_status
  cn_latest_event_id :: "string option"

datatype event_type = Opened | Answered | Conflicted | Proposed_Event | Closed_Event

record clarification_event =
  ce_id :: string
  ce_event_type :: event_type
  ce_session :: clarification_session
  ce_actor :: string
  ce_at :: datetime
  ce_predecessor :: "string option"
  ce_proposal_id :: "string option"
  ce_decision_id :: "string option"
  ce_activation :: "string option"

definition session_status_value :: "session_status \<Rightarrow> string" where
  "session_status_value s = (case s of Open \<Rightarrow> ''open'' | Proposed \<Rightarrow> ''proposed'' | Closed \<Rightarrow> ''closed'')"

definition event_type_value :: "event_type \<Rightarrow> string" where
  "event_type_value t =
     (case t of Opened \<Rightarrow> ''opened'' | Answered \<Rightarrow> ''answered'' | Conflicted \<Rightarrow> ''conflicted'' | Proposed_Event \<Rightarrow> ''proposed''
      | Closed_Event \<Rightarrow> ''closed'')"

definition question_dump :: "dumpers \<Rightarrow> clarification_question \<Rightarrow> json" where
  "question_dump dm q =
     JObj [(''id'', JStr (cq_id q)), (''prompt_digest'', JStr (cq_prompt_digest q)), (''evidence_ref'', JStr (cq_evidence_ref q)),
       (''author'', JStr (cq_author q)), (''asked_at'', JStr (dm_isoformat dm (cq_asked_at q))),
       (''predecessor_evidence_ref'', opt_str (cq_predecessor q)), (''required'', JBool (cq_required q))]"

definition answer_dump :: "dumpers \<Rightarrow> clarification_answer \<Rightarrow> json" where
  "answer_dump dm a =
     JObj [(''question_id'', JStr (ca_question_id a)), (''actor'', JStr (ca_actor a)),
       (''answered_at'', JStr (dm_isoformat dm (ca_answered_at a))), (''evidence_ref'', JStr (ca_evidence_ref a)),
       (''answer_digest'', JStr (ca_answer_digest a)), (''predecessor_evidence_ref'', opt_str (ca_predecessor a))]"

definition conflict_dump :: "dumpers \<Rightarrow> clarification_conflict \<Rightarrow> json" where
  "conflict_dump dm f =
     JObj [(''question_id'', JStr (cf_question_id f)), (''actor'', JStr (cf_actor f)),
       (''observed_at'', JStr (dm_isoformat dm (cf_observed_at f))), (''original_evidence_ref'', JStr (cf_original_ref f)),
       (''conflicting_evidence_ref'', JStr (cf_conflicting_ref f)), (''conflicting_answer_digest'', JStr (cf_answer_digest f)),
       (''predecessor_evidence_ref'', JStr (cf_predecessor f))]"

text \<open>What every event of a session keeps, and what it may change.\<close>

definition session_frame :: "dumpers \<Rightarrow> clarification_session \<Rightarrow> json dict" where
  "session_frame dm s =
     [(''schema_version'', JInt 1), (''task_id'', JStr (cn_task_id s)), (''conversation_ref'', JStr (cn_conversation_ref s)),
      (''request_evidence_ref'', JStr (cn_request_evidence_ref s)),
      (''classification_evidence_ref'', JStr (cn_classification_evidence_ref s)), (''opened_by'', JStr (cn_opened_by s)),
      (''opened_at'', JStr (dm_isoformat dm (cn_opened_at s))), (''baseline_graph_version'', JInt (cn_baseline s)),
      (''questions'', JArr (map (question_dump dm) (cn_questions s)))]"

definition session_dump :: "dumpers \<Rightarrow> clarification_session \<Rightarrow> json dict" where
  "session_dump dm s =
     (''id'', JStr (cn_id s)) # session_frame dm s @
     [(''answers'', JArr (map (answer_dump dm) (cn_answers s))), (''conflicts'', JArr (map (conflict_dump dm) (cn_conflicts s))),
      (''status'', JStr (session_status_value (cn_status s)))]"

definition event_material :: "dumpers \<Rightarrow> clarification_event \<Rightarrow> json dict" where
  "event_material dm e =
     [(''schema_version'', JInt 1), (''event_type'', JStr (event_type_value (ce_event_type e))),
      (''session'', JObj (session_dump dm (ce_session e))), (''actor'', JStr (ce_actor e)),
      (''at'', JStr (dm_isoformat dm (ce_at e))), (''predecessor_event_id'', opt_str (ce_predecessor e)),
      (''proposal_id'', opt_str (ce_proposal_id e)), (''decision_id'', opt_str (ce_decision_id e)),
      (''activation_changeset_id'', opt_str (ce_activation e))]"

definition question_ok :: "clarification_question \<Rightarrow> bool" where
  "question_ok q \<longleftrightarrow> list_all (bounded_text 256) [cq_id q, cq_evidence_ref q, cq_author q] \<and> sha256_pattern (cq_prompt_digest q)"

definition answer_ok :: "clarification_answer \<Rightarrow> bool" where
  "answer_ok a \<longleftrightarrow> list_all (bounded_text 256) [ca_question_id a, ca_actor a, ca_evidence_ref a] \<and> sha256_pattern (ca_answer_digest a)"

definition conflict_ok :: "clarification_conflict \<Rightarrow> bool" where
  "conflict_ok f \<longleftrightarrow>
     list_all (bounded_text 256) [cf_question_id f, cf_actor f, cf_original_ref f, cf_conflicting_ref f, cf_predecessor f] \<and>
     sha256_pattern (cf_answer_digest f)"

definition session_error :: "dumpers \<Rightarrow> clarification_session \<Rightarrow> exn option" where
  "session_error dm s = first_error
     [field_error (list_all (bounded_text 256)
        [cn_id s, cn_task_id s, cn_request_evidence_ref s, cn_classification_evidence_ref s, cn_opened_by s]),
      field_error (bounded_text 512 (cn_conversation_ref s)), field_error (0 \<le> cn_baseline s),
      field_error (1 \<le> length (cn_questions s) \<and> length (cn_questions s) \<le> 16 \<and> list_all question_ok (cn_questions s)),
      field_error (length (cn_answers s) \<le> 16 \<and> list_all answer_ok (cn_answers s)),
      field_error (length (cn_conflicts s) \<le> 16 \<and> list_all conflict_ok (cn_conflicts s)),
      when_error (\<not> distinct (map cq_id (cn_questions s))) ''duplicate clarification question'',
      when_error (\<not> distinct (map ca_question_id (cn_answers s)) \<or>
        \<not> set (map ca_question_id (cn_answers s)) \<subseteq> set (map cq_id (cn_questions s))) ''invalid clarification answers'',
      when_error (\<not> set (map cf_question_id (cn_conflicts s)) \<subseteq> set (map ca_question_id (cn_answers s)) \<or>
        \<not> distinct (map cf_conflicting_ref (cn_conflicts s))) ''invalid clarification conflicts'',
      when_error (cn_id s \<noteq> ''clarification:'' @ canonical_digest (session_frame dm s))
        ''clarification session identifier does not match canonical hash'']"

definition event_status :: "event_type \<Rightarrow> session_status" where
  "event_status t = (case t of Proposed_Event \<Rightarrow> Proposed | Closed_Event \<Rightarrow> Closed | _ \<Rightarrow> Open)"

text \<open>The mutations a closing event binds, a proposing event, and any other.\<close>

definition event_binds :: "clarification_event \<Rightarrow> bool" where
  "event_binds e \<longleftrightarrow>
     (case ce_event_type e of
        Proposed_Event \<Rightarrow> ce_proposal_id e \<noteq> None \<and> ce_decision_id e = None \<and> ce_activation e = None
      | Closed_Event \<Rightarrow> ce_proposal_id e \<noteq> None \<and> ce_decision_id e \<noteq> None \<and> ce_activation e \<noteq> None
      | _ \<Rightarrow> ce_proposal_id e = None \<and> ce_decision_id e = None \<and> ce_activation e = None)"

definition event_error :: "dumpers \<Rightarrow> clarification_event \<Rightarrow> exn option" where
  "event_error dm e = first_error
     [field_error (bounded_text 256 (ce_id e) \<and> bounded_text 256 (ce_actor e)), session_error dm (ce_session e),
      field_error ((\<forall>i. ce_proposal_id e = Some i \<longrightarrow> bounded_text 256 i) \<and> (\<forall>i. ce_decision_id e = Some i \<longrightarrow> bounded_text 256 i) \<and>
        (\<forall>i. ce_activation e = Some i \<longrightarrow> i \<noteq> [])),
      when_error (ce_id e \<noteq> ''clarification-event:'' @ canonical_digest (event_material dm e))
        ''clarification event identifier does not match canonical hash'',
      when_error (cn_latest_event_id (ce_session e) \<noteq> Some (ce_id e)) ''clarification event/session binding mismatch'',
      when_error (cn_status (ce_session e) \<noteq> event_status (ce_event_type e)) ''clarification event status mismatch'',
      when_error (\<not> event_binds e) ''clarification event mutation binding mismatch'']"

definition validate_event :: "dumpers \<Rightarrow> clarification_event \<Rightarrow> clarification_event res" where
  "validate_event dm e = (case event_error dm e of Some x \<Rightarrow> Inl x | None \<Rightarrow> Inr e)"

end
