(* ===== verification/Intent_Authorization.thy ===== *)
theory Intent_Authorization
  imports Intent_Models Graph_Store
begin

text \<open>
  Short-lived capabilities for validated preflight results (\<open>intent_workflow/authorization.py\<close>): the paths a
  capability may name, the grant behind a token, and the registry of one process with its operations. Every
  operation holds the registry's lock, so it is one step of the registry. The random tokens are arguments, and
  so is the action that consuming a capability runs.
\<close>

section \<open>Identities and paths\<close>

definition task_id_pattern :: "string \<Rightarrow> bool" where
  "task_id_pattern s \<longleftrightarrow> tagged_hash ''task:sha256:'' s"

definition token_char :: "char \<Rightarrow> bool" where
  "token_char c \<longleftrightarrow> c \<in> set ''ABCDEFGHIJKLMNOPQRSTUVWXYZabcdefghijklmnopqrstuvwxyz0123456789_-''"

definition token_pattern :: "string \<Rightarrow> bool" where
  "token_pattern s \<longleftrightarrow> length s = 43 \<and> list_all token_char s"

definition checked_identity :: "bool \<Rightarrow> string \<Rightarrow> string res" where
  "checked_identity task s =
     (if s = [] \<or> list_ex control_char s \<or> length (utf8 s) > 2048 \<or> task \<and> \<not> task_id_pattern s
      then Inl (ValueError ''invalid authorization identity'') else Inr s)"

text \<open>The parts of a path without drive and root: \<open>pathlib\<close> drops empty parts and dots. A text in which a
  colon or a backslash occurs is refused anyway, so its parts as a Windows path are the same.\<close>

fun split_on :: "char \<Rightarrow> string \<Rightarrow> string list" where
  "split_on c [] = [[]]"
| "split_on c (x # xs) =
     (if x = c then [] # split_on c xs
      else (case split_on c xs of [] \<Rightarrow> [[x]] | part # parts \<Rightarrow> (x # part) # parts))"

definition path_parts :: "string \<Rightarrow> string list" where
  "path_parts s = filter (\<lambda>p. p \<noteq> [] \<and> p \<noteq> ''.'') (split_on (CHR ''/'') s)"

definition as_posix :: "string \<Rightarrow> string" where
  "as_posix s = (if path_parts s = [] then ''.'' else join ''/'' (path_parts s))"

definition ascii_upper :: "char \<Rightarrow> char" where
  "ascii_upper c = (if 97 \<le> (of_char c :: nat) \<and> of_char c \<le> (122 :: nat) then char_of (of_char c - 32 :: nat) else c)"

definition rstrip_chars :: "string \<Rightarrow> string \<Rightarrow> string" where
  "rstrip_chars cs s = rev (dropWhile (\<lambda>c. c \<in> set cs) (rev s))"

definition before_dot :: "string \<Rightarrow> string" where
  "before_dot s = takeWhile (\<lambda>c. c \<noteq> CHR ''.'') s"

text \<open>\<open>PureWindowsPath(part).is_reserved()\<close> for one part, as in Python 3.12. The reserved names are plain
  letters, digits and the superscripts one to three, so upper case matters only for plain letters.\<close>

definition reserved_name :: "string \<Rightarrow> bool" where
  "reserved_name name \<longleftrightarrow>
     name \<in> set [''CON'', ''PRN'', ''AUX'', ''NUL'', ''CONIN$'', ''CONOUT$''] \<or>
     length name = 4 \<and> take 3 name \<in> set [''COM'', ''LPT''] \<and>
       last name \<in> set (''123456789'' @ [CHR 0xB9, CHR 0xB2, CHR 0xB3])"

definition is_reserved :: "string \<Rightarrow> bool" where
  "is_reserved part \<longleftrightarrow> reserved_name (map ascii_upper (rstrip_chars '' '' (before_dot part)))"

text \<open>The pattern \<open>_WINDOWS_DEVICE\<close>.\<close>

definition windows_device :: "string \<Rightarrow> bool" where
  "windows_device stem \<longleftrightarrow>
     (let name = map ascii_upper stem in
      name \<in> set [''CON'', ''PRN'', ''AUX'', ''NUL'', ''CLOCK$''] \<or>
      length name = 4 \<and> take 3 name \<in> set [''COM'', ''LPT''] \<and> last name \<in> set ''123456789'')"

definition has_reserved_windows_segment :: "string list \<Rightarrow> bool" where
  "has_reserved_windows_segment parts \<longleftrightarrow>
     list_ex (\<lambda>part. is_reserved part \<or> windows_device (rstrip_chars '' '' (before_dot (rstrip_chars '' .'' part)))) parts"

definition path_ok :: "string \<Rightarrow> bool" where
  "path_ok s \<longleftrightarrow>
     s \<noteq> [] \<and> \<not> list_ex control_char s \<and> CHR 0x5C \<notin> set s \<and> length (utf8 s) \<le> 2048 \<and> hd s \<noteq> CHR ''/'' \<and>
     CHR '':'' \<notin> set s \<and> \<not> has_reserved_windows_segment (path_parts s) \<and> as_posix s = s \<and> s \<noteq> ''.'' \<and>
     \<not> list_ex (\<lambda>part. part \<in> set [[], ''.'', ''..'']) (path_parts s)"

definition checked_path :: "string \<Rightarrow> string res" where
  "checked_path s = (if path_ok s then Inr s else Inl (ValueError ''invalid authorization path''))"

fun map_res :: "('a \<Rightarrow> 'b res) \<Rightarrow> 'a list \<Rightarrow> 'b list res" where
  "map_res f [] = Inr []"
| "map_res f (x # xs) = res_bind (f x) (\<lambda>y. res_bind (map_res f xs) (\<lambda>ys. Inr (y # ys)))"

definition checked_set :: "(string \<Rightarrow> string res) \<Rightarrow> string list \<Rightarrow> string list res" where
  "checked_set check values =
     (if length values > 256 then Inl (ValueError ''invalid authorization scope'')
      else
        res_bind (map_res check values) (\<lambda>checked.
          if \<not> distinct checked then Inl (ValueError ''invalid authorization scope'') else Inr (sort checked)))"

definition checked_paths :: "string list \<Rightarrow> string list res" where
  "checked_paths = checked_set checked_path"

definition checked_identities :: "string list \<Rightarrow> string list res" where
  "checked_identities = checked_set (checked_identity False)"

definition token_digest :: "string \<Rightarrow> string" where
  "token_digest token = sha256_id token"

definition request_digest :: "string \<Rightarrow> string" where
  "request_digest request = sha256_id request"

definition canonical_graph_digest :: "codecs \<Rightarrow> string \<Rightarrow> string res" where
  "canonical_graph_digest c content =
     res_bind (parse_graph c content) (\<lambda>g. Inr (sha256_id (serialize_graph c g)))"

section \<open>Grants and verifications\<close>

text \<open>Five minutes in microseconds.\<close>

definition DEFAULT_TTL :: int where
  "DEFAULT_TTL = 300000000"

record authorization_grant =
  ag_digest :: string
  ag_actor :: string
  ag_repository_id :: string
  ag_task_id :: string
  ag_request_digest :: string
  ag_classification :: TaskClassification
  ag_graph_version :: int
  ag_graph_digest :: string
  ag_permitted_paths :: "string list"
  ag_relevant_node_ids :: "string list"
  ag_issued_at :: datetime
  ag_expires_at :: datetime

definition grant_error :: "authorization_grant \<Rightarrow> exn option" where
  "grant_error g = first_error
     [field_error (sha256_pattern (ag_digest g)), error_of (checked_identity False (ag_actor g)),
      error_of (checked_identity False (ag_repository_id g)), error_of (checked_identity True (ag_task_id g)),
      field_error (sha256_pattern (ag_request_digest g)),
      field_error (ag_classification g \<in> {No_Semantic_Impact, Aligned}), field_error (0 \<le> ag_graph_version g),
      field_error (sha256_pattern (ag_graph_digest g)),
      field_error (checked_paths (ag_permitted_paths g) = Inr (ag_permitted_paths g)),
      field_error (checked_identities (ag_relevant_node_ids g) = Inr (ag_relevant_node_ids g)),
      when_error (ag_expires_at g - ag_issued_at g \<noteq> DEFAULT_TTL) ''invalid authorization chronology'',
      when_error (ag_classification g = Aligned \<and> ag_relevant_node_ids g = []) ''aligned authorization requires relevant intent'',
      when_error (ag_classification g = No_Semantic_Impact \<and> ag_relevant_node_ids g \<noteq> [])
        ''mechanical authorization cannot bind semantic intent'']"

definition validate_grant :: "authorization_grant \<Rightarrow> authorization_grant res" where
  "validate_grant g = (case grant_error g of Some e \<Rightarrow> Inl e | None \<Rightarrow> Inr g)"

datatype AuthorizationReason =
    Authorized | Unknown_Grant | Expired | Actor_Mismatch | Repository_Mismatch | Task_Mismatch
  | Request_Mismatch | Graph_Mismatch | Scope_Mismatch

record authorization_verification =
  av_authorized :: bool
  av_classification :: "TaskClassification option"
  av_relevant_node_ids :: "string list"
  av_expires_at :: "datetime option"
  av_reason :: AuthorizationReason

definition verification_error :: "authorization_verification \<Rightarrow> exn option" where
  "verification_error v = first_error
     [field_error (checked_identities (av_relevant_node_ids v) = Inr (av_relevant_node_ids v)),
      (if av_authorized v
       then when_error (av_reason v \<noteq> Authorized \<or> av_classification v \<notin> {Some No_Semantic_Impact, Some Aligned} \<or>
         av_expires_at v = None) ''invalid authorized verification''
       else when_error (av_reason v = Authorized \<or> av_classification v \<noteq> None \<or> av_relevant_node_ids v \<noteq> [] \<or>
         av_expires_at v \<noteq> None) ''invalid denied verification'')]"

definition denied :: "AuthorizationReason \<Rightarrow> authorization_verification" where
  "denied reason = \<lparr>av_authorized = False, av_classification = None, av_relevant_node_ids = [], av_expires_at = None,
     av_reason = reason\<rparr>"

section \<open>The registry\<close>

record issuer =
  is_max :: nat
  is_grants :: "authorization_grant dict"

definition new_issuer :: "int \<Rightarrow> issuer res" where
  "new_issuer max_live_grants =
     (if max_live_grants < 1 \<or> max_live_grants > 1024 then Inl (ValueError ''invalid authorization capacity'')
      else Inr \<lparr>is_max = nat max_live_grants, is_grants = []\<rparr>)"

text \<open>What an issued capability is bound to: task, result, graph digest, request digest, scope, relevant nodes.\<close>

record checked_issue =
  ci_envelope :: task_envelope
  ci_result :: preflight_result
  ci_graph_digest :: string
  ci_request_digest :: string
  ci_scope :: "string list"
  ci_relevant :: "string list"

definition issue_agrees :: "task_envelope \<Rightarrow> preflight_result \<Rightarrow> graph \<Rightarrow> string list \<Rightarrow> string list \<Rightarrow> datetime \<Rightarrow> bool" where
  "issue_agrees e r g scope relevant now \<longleftrightarrow>
     te_created_at e \<le> now \<and> now - te_created_at e \<le> DEFAULT_TTL \<and> pr_task_id r = te_id e \<and>
     pr_graph_version r = te_graph_version e \<and> g_version g = pr_graph_version r \<and>
     pr_classification r \<in> {No_Semantic_Impact, Aligned} \<and> pr_authorized r \<and> pr_permitted_scope r = scope \<and>
     pr_relevant_node_ids r = relevant \<and> pr_questions r = [] \<and> pr_review_case_id r = None \<and>
     \<not> (pr_classification r = Aligned \<and> relevant = []) \<and> \<not> (pr_classification r = No_Semantic_Impact \<and> relevant \<noteq> [])"

definition validated_issue ::
  "codecs \<Rightarrow> (datetime \<Rightarrow> string) \<Rightarrow> task_envelope \<Rightarrow> preflight_result \<Rightarrow> string \<Rightarrow> datetime \<Rightarrow> checked_issue res" where
  "validated_issue c isoformat envelope r graph_content now =
     res_bind (validate_envelope isoformat envelope) (\<lambda>e.
     res_bind (checked_identity False (te_actor e)) (\<lambda>_.
     res_bind (checked_identity False (te_repository_id e)) (\<lambda>_.
     res_bind (checked_identity True (te_id e)) (\<lambda>_.
     res_bind (checked_identity False (te_request_evidence_ref e)) (\<lambda>_.
     res_bind (checked_paths (te_requested_scope e)) (\<lambda>scope.
     res_bind (checked_identities (pr_relevant_node_ids r)) (\<lambda>relevant.
     res_bind (parse_graph c graph_content) (\<lambda>g.
     res_bind (canonical_graph_digest c graph_content) (\<lambda>graph_digest.
     if \<not> issue_agrees e r g scope relevant now then Inl (ValueError ''invalid authorization result'')
     else Inr \<lparr>ci_envelope = e, ci_result = r, ci_graph_digest = graph_digest,
       ci_request_digest = request_digest (te_request e), ci_scope = scope, ci_relevant = relevant\<rparr>)))))))))"

definition evict_expired :: "authorization_grant dict \<Rightarrow> datetime \<Rightarrow> authorization_grant dict" where
  "evict_expired grants now = filter (\<lambda>(digest, g). now < ag_expires_at g) grants"

text \<open>At most \<open>n\<close> attempts to draw a token whose digest is not in use.\<close>

fun fresh_token :: "nat \<Rightarrow> (nat \<Rightarrow> string) \<Rightarrow> authorization_grant dict \<Rightarrow> string res" where
  "fresh_token 0 tokens grants = Inl (ValueError ''capability token collision'')"
| "fresh_token (Suc n) tokens grants =
     (let token = tokens 0 in
      if \<not> token_pattern token then Inl (ValueError ''invalid capability token'')
      else if \<not> sha256_pattern (token_digest token) then Inl (ValueError ''invalid capability digest'')
      else if map_of grants (token_digest token) = None then Inr token
      else fresh_token n (tokens \<circ> Suc) grants)"

definition make_grant :: "checked_issue \<Rightarrow> string \<Rightarrow> datetime \<Rightarrow> authorization_grant" where
  "make_grant ci digest now =
     \<lparr>ag_digest = digest, ag_actor = te_actor (ci_envelope ci), ag_repository_id = te_repository_id (ci_envelope ci),
      ag_task_id = te_id (ci_envelope ci), ag_request_digest = ci_request_digest ci,
      ag_classification = pr_classification (ci_result ci), ag_graph_version = pr_graph_version (ci_result ci),
      ag_graph_digest = ci_graph_digest ci, ag_permitted_paths = ci_scope ci, ag_relevant_node_ids = ci_relevant ci,
      ag_issued_at = now, ag_expires_at = now + DEFAULT_TTL\<rparr>"

definition issue ::
  "codecs \<Rightarrow> (datetime \<Rightarrow> string) \<Rightarrow> (nat \<Rightarrow> string) \<Rightarrow> task_envelope \<Rightarrow> preflight_result \<Rightarrow> string \<Rightarrow> datetime \<Rightarrow>
     issuer \<Rightarrow> issuer \<times> string res" where
  "issue c isoformat tokens envelope r graph_content now s =
     (case validated_issue c isoformat envelope r graph_content now of
        Inl _ \<Rightarrow> (s, Inl AuthorizationError)
      | Inr ci \<Rightarrow>
          let grants = evict_expired (is_grants s) now; s = s\<lparr>is_grants := grants\<rparr> in
          if is_max s \<le> length grants then (s, Inl AuthorizationError)
          else
            (case fresh_token 4 tokens grants of
               Inl _ \<Rightarrow> (s, Inl AuthorizationError)
             | Inr token \<Rightarrow>
                 (case validate_grant (make_grant ci (token_digest token) now) of
                    Inl _ \<Rightarrow> (s, Inl AuthorizationError)
                  | Inr g \<Rightarrow> (s\<lparr>is_grants := grants @ [(token_digest token, g)]\<rparr>, Inr token))))"

text \<open>What the caller of an operation claims, as a record.\<close>

record capability_use =
  cu_actor :: string
  cu_repository_id :: string
  cu_task_id :: string
  cu_graph_version :: int
  cu_graph_content :: string
  cu_requested_paths :: "string list"
  cu_now :: datetime
  cu_request_digest :: "string option"

text \<open>The checks before the registry is consulted: the digest of the graph and the canonical paths.\<close>

definition checked_use :: "codecs \<Rightarrow> capability_use \<Rightarrow> (string \<times> string list) res" where
  "checked_use c u =
     res_bind (checked_identity False (cu_actor u)) (\<lambda>_.
     res_bind (checked_identity False (cu_repository_id u)) (\<lambda>_.
     res_bind (checked_identity True (cu_task_id u)) (\<lambda>_.
     res_bind (case cu_request_digest u of None \<Rightarrow> Inr [] | Some d \<Rightarrow> checked_identity False d) (\<lambda>_.
     if cu_graph_version u < 0 then Inl (ValueError ''invalid graph version'')
     else
       res_bind (canonical_graph_digest c (cu_graph_content u)) (\<lambda>digest.
       res_bind (checked_paths (cu_requested_paths u)) (\<lambda>paths. Inr (digest, paths)))))))"

text \<open>The first binding of the grant that the use does not meet.\<close>

definition refusal :: "authorization_grant \<Rightarrow> capability_use \<Rightarrow> string \<Rightarrow> string list \<Rightarrow> AuthorizationReason option" where
  "refusal g u graph_digest paths =
     (if cu_actor u \<noteq> ag_actor g then Some Actor_Mismatch
      else if cu_repository_id u \<noteq> ag_repository_id g then Some Repository_Mismatch
      else if cu_task_id u \<noteq> ag_task_id g then Some Task_Mismatch
      else if (case cu_request_digest u of None \<Rightarrow> False | Some d \<Rightarrow> \<not> sha256_pattern d \<or> d \<noteq> ag_request_digest g)
      then Some Request_Mismatch
      else if cu_graph_version u \<noteq> ag_graph_version g \<or> graph_digest \<noteq> ag_graph_digest g then Some Graph_Mismatch
      else if paths = [] \<and> ag_permitted_paths g \<noteq> [] \<or> \<not> set paths \<subseteq> set (ag_permitted_paths g) then Some Scope_Mismatch
      else None)"

definition granted :: "authorization_grant \<Rightarrow> authorization_verification" where
  "granted g = \<lparr>av_authorized = True, av_classification = Some (ag_classification g),
     av_relevant_node_ids = ag_relevant_node_ids g, av_expires_at = Some (ag_expires_at g), av_reason = Authorized\<rparr>"

definition verify :: "codecs \<Rightarrow> string \<Rightarrow> capability_use \<Rightarrow> issuer \<Rightarrow> issuer \<times> authorization_verification" where
  "verify c token u s =
     (if \<not> token_pattern token then (s, denied Unknown_Grant)
      else
        (case checked_use c u of
           Inl _ \<Rightarrow> (s, denied Unknown_Grant)
         | Inr (graph_digest, paths) \<Rightarrow>
             (case map_of (is_grants s) (token_digest token) of
                None \<Rightarrow> (s, denied Unknown_Grant)
              | Some g \<Rightarrow>
                  if ag_expires_at g \<le> cu_now u
                  then (s\<lparr>is_grants := AList.delete (token_digest token) (is_grants s)\<rparr>, denied Expired)
                  else
                    (case refusal g u graph_digest paths of
                       Some reason \<Rightarrow> (s, denied reason)
                     | None \<Rightarrow> (s, case verification_error (granted g) of Some _ \<Rightarrow> denied Unknown_Grant | None \<Rightarrow> granted g)))))"

definition revoke_all :: "issuer \<Rightarrow> issuer" where
  "revoke_all s = s\<lparr>is_grants := []\<rparr>"

definition revoke :: "string \<Rightarrow> issuer \<Rightarrow> issuer" where
  "revoke token s =
     (if token_pattern token then s\<lparr>is_grants := AList.delete (token_digest token) (is_grants s)\<rparr> else s)"

text \<open>The part of \<open>consume\<close> before the action: verification, and removal of the grant.\<close>

definition take_capability :: "codecs \<Rightarrow> string \<Rightarrow> capability_use \<Rightarrow> issuer \<Rightarrow> issuer \<times> authorization_verification option" where
  "take_capability c token u s =
     (case verify c token u s of
        (s, v) \<Rightarrow>
          if \<not> av_authorized v then (s, None)
          else
            (case map_of (is_grants s) (token_digest token) of
               None \<Rightarrow> (s, None)
             | Some _ \<Rightarrow> (s\<lparr>is_grants := AList.delete (token_digest token) (is_grants s)\<rparr>, Some v)))"

text \<open>The action runs while the registry's lock is held and may itself use the registry; its exception is the
  caller's.\<close>

definition consume ::
  "codecs \<Rightarrow> string \<Rightarrow> capability_use \<Rightarrow> (authorization_verification \<Rightarrow> issuer \<times> 'w \<Rightarrow> (issuer \<times> 'w) \<times> 'r res) \<Rightarrow>
     issuer \<times> 'w \<Rightarrow> (issuer \<times> 'w) \<times> 'r option res" where
  "consume c token u action_of = (\<lambda>(s, w).
     (case take_capability c token u s of
        (s, None) \<Rightarrow> ((s, w), Inr None)
      | (s, Some v) \<Rightarrow>
          (case action_of v (s, w) of (sw, Inl e) \<Rightarrow> (sw, Inl e) | (sw, Inr y) \<Rightarrow> (sw, Inr (Some y)))))"

section \<open>The registry's invariant\<close>

definition issuer_ok :: "issuer \<Rightarrow> bool" where
  "issuer_ok s \<longleftrightarrow>
     1 \<le> is_max s \<and> is_max s \<le> 1024 \<and> length (is_grants s) \<le> is_max s \<and> distinct (map fst (is_grants s)) \<and>
     (\<forall>(digest, g) \<in> set (is_grants s). digest = ag_digest g \<and> grant_error g = None)"

lemma new_issuer_ok: "new_issuer n = Inr s \<Longrightarrow> issuer_ok s"
  by (auto simp: new_issuer_def issuer_ok_def split: if_splits)

lemma filter_ok: "issuer_ok s \<Longrightarrow> issuer_ok (s\<lparr>is_grants := filter P (is_grants s)\<rparr>)"
  by (auto simp: issuer_ok_def distinct_map_filter intro: order_trans [OF length_filter_le])

lemma delete_ok: "issuer_ok s \<Longrightarrow> issuer_ok (s\<lparr>is_grants := AList.delete k (is_grants s)\<rparr>)"
  unfolding AList.delete_eq by (rule filter_ok)

lemma fresh_token_Inr:
  "fresh_token n tokens grants = Inr token \<Longrightarrow> token_pattern token \<and> map_of grants (token_digest token) = None"
  by (induction n arbitrary: tokens) (auto simp: Let_def split: if_splits)

text \<open>A successful issue in full.\<close>

lemma issue_Inr:
  assumes "issue c isoformat tokens e r content now s = (s', Inr token)"
  obtains ci g where "validated_issue c isoformat e r content now = Inr ci" "token_pattern token"
    "g = make_grant ci (token_digest token) now" "grant_error g = None"
    "length (evict_expired (is_grants s) now) < is_max s" "map_of (evict_expired (is_grants s) now) (token_digest token) = None"
    "s' = s\<lparr>is_grants := evict_expired (is_grants s) now @ [(token_digest token, g)]\<rparr>"
  using assms
  by (auto simp: issue_def Let_def validate_grant_def not_le dest: fresh_token_Inr split: sum.splits if_splits option.splits)

lemma issue_Inl:
  assumes "issue c isoformat tokens e r content now s = (s', Inl x)"
  shows "s' = s \<or> s' = s\<lparr>is_grants := evict_expired (is_grants s) now\<rparr>"
  using assms by (auto simp: issue_def Let_def split: sum.splits if_splits)

lemma issue_ok:
  assumes "issue c isoformat tokens e r content now s = (s', out)" "issuer_ok s"
  shows "issuer_ok s'"
proof (cases out)
  case (Inl x)
  then show ?thesis using issue_Inl [OF assms(1) [unfolded Inl]] filter_ok [OF assms(2)] assms(2) by (auto simp: evict_expired_def)
next
  case (Inr token)
  obtain ci g where *: "g = make_grant ci (token_digest token) now" "grant_error g = None"
    "length (evict_expired (is_grants s) now) < is_max s" "map_of (evict_expired (is_grants s) now) (token_digest token) = None"
    "s' = s\<lparr>is_grants := evict_expired (is_grants s) now @ [(token_digest token, g)]\<rparr>"
    by (rule issue_Inr [OF assms(1) [unfolded Inr]])
  have "issuer_ok (s\<lparr>is_grants := evict_expired (is_grants s) now\<rparr>)"
    using filter_ok [OF assms(2)] by (simp add: evict_expired_def)
  moreover have "ag_digest g = token_digest token" using * by (simp add: make_grant_def)
  ultimately show ?thesis using * by (auto simp: issuer_ok_def map_of_eq_None_iff)
qed

lemma refusal_reason: "refusal g u digest paths = Some reason \<Longrightarrow> reason \<noteq> Authorized"
  by (auto simp: refusal_def split: if_splits)

lemma verify_cases:
  assumes "verify c token u s = (s', v)"
  obtains (same) reason where "s' = s" "v = denied reason" "reason \<noteq> Authorized"
  | (expired) "s' = s\<lparr>is_grants := AList.delete (token_digest token) (is_grants s)\<rparr>" "v = denied Expired"
  | (granted) g digest paths where "s' = s" "v = granted g" "token_pattern token" "checked_use c u = Inr (digest, paths)"
      "map_of (is_grants s) (token_digest token) = Some g" "cu_now u < ag_expires_at g" "refusal g u digest paths = None"
proof -
  have id: "verify c token u s = (s', v)" by (rule assms)
  consider "s' = s" "v = denied Unknown_Grant"
    | "s' = s\<lparr>is_grants := AList.delete (token_digest token) (is_grants s)\<rparr>" "v = denied Expired"
    | g digest paths where "token_pattern token" "checked_use c u = Inr (digest, paths)" "s' = s"
      "map_of (is_grants s) (token_digest token) = Some g" "cu_now u < ag_expires_at g"
      "\<exists>reason. refusal g u digest paths = Some reason \<and> v = denied reason"
    | g digest paths where "token_pattern token" "checked_use c u = Inr (digest, paths)" "s' = s" "v = granted g"
      "map_of (is_grants s) (token_digest token) = Some g" "cu_now u < ag_expires_at g" "refusal g u digest paths = None"
    using id by (auto simp: verify_def not_le split: if_splits sum.splits option.splits)
  then show ?thesis
  proof cases
    case 1
    then show ?thesis using same by simp
  next
    case (3 g digest paths)
    then obtain reason where "v = denied reason" "reason \<noteq> Authorized" using refusal_reason by metis
    then show ?thesis using same 3(3) by simp
  qed (use expired granted in simp_all)
qed

lemma verify_ok: "verify c token u s = (s', v) \<Longrightarrow> issuer_ok s \<Longrightarrow> issuer_ok s'"
  by (erule verify_cases) (auto intro: delete_ok)

lemma take_capability_cases:
  assumes "take_capability c token u s = (s', out)"
  obtains (refused) v where "verify c token u s = (s', v)" "out = None"
  | (taken) g digest paths where "s' = s\<lparr>is_grants := AList.delete (token_digest token) (is_grants s)\<rparr>" "out = Some (granted g)"
      "token_pattern token" "checked_use c u = Inr (digest, paths)" "map_of (is_grants s) (token_digest token) = Some g"
      "cu_now u < ag_expires_at g" "refusal g u digest paths = None"
proof -
  obtain s1 v where v: "verify c token u s = (s1, v)" by (metis surj_pair)
  show ?thesis
  proof (cases "av_authorized v")
    case True
    then show ?thesis using assms v taken by (cases rule: verify_cases [OF v]) (auto simp: take_capability_def denied_def)
  next
    case False
    then show ?thesis using assms v refused [of v] by (simp add: take_capability_def)
  qed
qed

section \<open>A process and its capabilities\<close>

text \<open>What happened in a process: capabilities issued and consumed, in order.\<close>

datatype issuer_event =
    Issued string authorization_grant
  | Consumed string capability_use authorization_verification

inductive issuer_step :: "codecs \<Rightarrow> (datetime \<Rightarrow> string) \<Rightarrow> issuer \<Rightarrow> issuer_event list \<Rightarrow> issuer \<Rightarrow> bool"
  for c :: codecs and isoformat :: "datetime \<Rightarrow> string" where
  issued: "issue c isoformat tokens e r content now s = (s', Inr token) \<Longrightarrow>
     map_of (is_grants s') (token_digest token) = Some g \<Longrightarrow> issuer_step c isoformat s [Issued token g] s'"
| not_issued: "issue c isoformat tokens e r content now s = (s', Inl x) \<Longrightarrow> issuer_step c isoformat s [] s'"
| verified: "verify c token u s = (s', v) \<Longrightarrow> issuer_step c isoformat s [] s'"
| consumed: "take_capability c token u s = (s', Some v) \<Longrightarrow> issuer_step c isoformat s [Consumed token u v] s'"
| not_consumed: "take_capability c token u s = (s', None) \<Longrightarrow> issuer_step c isoformat s [] s'"
| revoked: "issuer_step c isoformat s [] (revoke token s)"
| all_revoked: "issuer_step c isoformat s [] (revoke_all s)"

inductive issuer_reachable :: "codecs \<Rightarrow> (datetime \<Rightarrow> string) \<Rightarrow> issuer \<Rightarrow> issuer \<Rightarrow> issuer_event list \<Rightarrow> bool"
  for c :: codecs and isoformat :: "datetime \<Rightarrow> string" and s0 :: issuer where
  start: "issuer_reachable c isoformat s0 s0 []"
| step: "issuer_reachable c isoformat s0 s events \<Longrightarrow> issuer_step c isoformat s new s' \<Longrightarrow>
     issuer_reachable c isoformat s0 s' (events @ new)"

fun issued_digests :: "issuer_event list \<Rightarrow> string list" where
  "issued_digests [] = []"
| "issued_digests (Issued token g # es) = token_digest token # issued_digests es"
| "issued_digests (e # es) = issued_digests es"

fun consumed_digests :: "issuer_event list \<Rightarrow> string list" where
  "consumed_digests [] = []"
| "consumed_digests (Consumed token u v # es) = token_digest token # consumed_digests es"
| "consumed_digests (e # es) = consumed_digests es"

lemma digests_append [simp]:
  "issued_digests (xs @ ys) = issued_digests xs @ issued_digests ys"
  "consumed_digests (xs @ ys) = consumed_digests xs @ consumed_digests ys"
  by (induction xs rule: issued_digests.induct) simp_all

text \<open>A use that meets every binding of a grant.\<close>

definition meets :: "codecs \<Rightarrow> capability_use \<Rightarrow> authorization_grant \<Rightarrow> bool" where
  "meets c u g \<longleftrightarrow>
     cu_actor u = ag_actor g \<and> cu_repository_id u = ag_repository_id g \<and> cu_task_id u = ag_task_id g \<and>
     (\<forall>d. cu_request_digest u = Some d \<longrightarrow> d = ag_request_digest g) \<and> cu_graph_version u = ag_graph_version g \<and>
     canonical_graph_digest c (cu_graph_content u) = Inr (ag_graph_digest g) \<and>
     (\<exists>paths. checked_paths (cu_requested_paths u) = Inr paths \<and> set paths \<subseteq> set (ag_permitted_paths g)) \<and>
     cu_now u < ag_issued_at g + DEFAULT_TTL"

lemma checked_use_Inr:
  assumes "checked_use c u = Inr (digest, paths)" "refusal g u digest paths = None" "cu_now u < ag_expires_at g" "grant_error g = None"
  shows "meets c u g"
proof -
  have "canonical_graph_digest c (cu_graph_content u) = Inr digest" "checked_paths (cu_requested_paths u) = Inr paths"
    using assms(1) by (auto simp: checked_use_def res_simps split: if_splits)
  moreover have "ag_expires_at g = ag_issued_at g + DEFAULT_TTL"
    using assms(4) by (auto simp: grant_error_def)
  ultimately show ?thesis
    using assms(2,3) by (auto simp: meets_def refusal_def split: if_splits option.splits)
qed

text \<open>Live capabilities and consumed ones together are among the issued ones, and every live one is as issued.\<close>

definition accounted :: "issuer \<Rightarrow> issuer_event list \<Rightarrow> bool" where
  "accounted s events \<longleftrightarrow>
     mset (map fst (is_grants s)) + mset (consumed_digests events) \<subseteq># mset (issued_digests events) \<and>
     (\<forall>(digest, g) \<in> set (is_grants s). \<exists>token. Issued token g \<in> set events \<and> token_digest token = digest)"

lemma accounted_subset:
  assumes "accounted s events" "mset (is_grants s') \<subseteq># mset (is_grants s)"
  shows "accounted s' events"
proof -
  have "mset (map fst (is_grants s')) \<subseteq># mset (map fst (is_grants s))"
    using image_mset_subseteq_mono [OF assms(2), of fst] by simp
  moreover have "set (is_grants s') \<subseteq> set (is_grants s)"
    using set_mset_mono [OF assms(2)] by simp
  ultimately show ?thesis
    using assms(1) unfolding accounted_def by (meson subset_mset.add_right_mono subset_mset.order_trans subsetD)
qed

lemma accounted_filter: "accounted s events \<Longrightarrow> accounted (s\<lparr>is_grants := filter P (is_grants s)\<rparr>) events"
  by (erule accounted_subset) (simp add: multiset_filter_subset)

lemma accounted_delete:
  "accounted s events \<Longrightarrow> accounted (s\<lparr>is_grants := AList.delete k (is_grants s)\<rparr>) events"
  unfolding AList.delete_eq by (rule accounted_filter)

lemma accounted_issue:
  assumes "accounted s events" "token_digest token = digest"
  shows "accounted (s\<lparr>is_grants := is_grants s @ [(digest, g)]\<rparr>) (events @ [Issued token g])"
  using assms by (auto simp: accounted_def)

lemma accounted_consume:
  assumes "accounted s events" "map_of (is_grants s) (token_digest token) = Some g" "distinct (map fst (is_grants s))"
  shows "accounted (s\<lparr>is_grants := AList.delete (token_digest token) (is_grants s)\<rparr>) (events @ [Consumed token u v])"
proof -
  let ?k = "token_digest token" and ?ks = "map fst (is_grants s)"
  have k: "?k \<in> set ?ks" using assms(2) by (force dest: map_of_SomeD)
  have d: "map fst (AList.delete ?k (is_grants s)) = filter (\<lambda>x. x \<noteq> ?k) ?ks"
    unfolding AList.delete_eq filter_map comp_def by (intro arg_cong [where f = "map fst"] filter_cong) auto
  have f: "mset (filter (\<lambda>x. x \<noteq> k) ks) + {#k#} = mset ks" if "distinct ks" "k \<in> set ks" for k and ks :: "string list"
  proof -
    have "filter (\<lambda>x. x \<noteq> k) ks = remove1 k ks"
      using that(1) by (simp add: distinct_remove1_removeAll removeAll_filter_not_eq eq_commute [of k])
    then show ?thesis using that(2) by simp
  qed
  have "mset (map fst (AList.delete ?k (is_grants s))) + {#?k#} = mset ?ks"
    unfolding d by (rule f [OF assms(3) k])
  then have "mset (map fst (AList.delete ?k (is_grants s))) + mset (consumed_digests (events @ [Consumed token u v])) =
      mset ?ks + mset (consumed_digests events)"
    by (simp add: ac_simps flip: union_mset_add_mset_right)
  also have "\<dots> \<subseteq># mset (issued_digests (events @ [Consumed token u v]))"
    using assms(1) by (simp add: accounted_def)
  finally have "mset (map fst (AList.delete ?k (is_grants s))) + mset (consumed_digests (events @ [Consumed token u v])) \<subseteq>#
      mset (issued_digests (events @ [Consumed token u v]))" .
  moreover have "set (AList.delete ?k (is_grants s)) \<subseteq> set (is_grants s)" by (auto simp: AList.delete_eq)
  then have "\<forall>(digest, g) \<in> set (AList.delete ?k (is_grants s)). \<exists>token'. Issued token' g \<in> set (events @ [Consumed token u v]) \<and>
      token_digest token' = digest"
    using assms(1) unfolding accounted_def by auto
  ultimately show ?thesis unfolding accounted_def by simp
qed

text \<open>What holds of every reachable registry and of every event.\<close>

definition process_ok :: "codecs \<Rightarrow> issuer \<Rightarrow> issuer_event list \<Rightarrow> bool" where
  "process_ok c s events \<longleftrightarrow> issuer_ok s \<and> accounted s events \<and>
     (\<forall>token g. Issued token g \<in> set events \<longrightarrow> grant_error g = None \<and> ag_digest g = token_digest token) \<and>
     (\<forall>token u v. Consumed token u v \<in> set events \<longrightarrow>
       (\<exists>token' g. Issued token' g \<in> set events \<and> token_digest token' = token_digest token \<and> v = granted g \<and> meets c u g))"

lemma process_ok_quiet: "process_ok c s events \<Longrightarrow> issuer_ok s' \<Longrightarrow> accounted s' events \<Longrightarrow> process_ok c s' events"
  by (simp add: process_ok_def)

lemma process_ok_filter: "process_ok c s events \<Longrightarrow> process_ok c (s\<lparr>is_grants := filter P (is_grants s)\<rparr>) events"
  by (rule process_ok_quiet, assumption) (simp_all add: process_ok_def filter_ok accounted_filter)

lemma process_ok_delete: "process_ok c s events \<Longrightarrow> process_ok c (s\<lparr>is_grants := AList.delete k (is_grants s)\<rparr>) events"
  unfolding AList.delete_eq by (rule process_ok_filter)

lemma grants_all: "s\<lparr>is_grants := is_grants s\<rparr> = s"
  by simp

lemma process_ok_issue:
  assumes ok: "process_ok c s events" and run: "issue c isoformat tokens e r content now s = (s', Inr token)"
    and g': "map_of (is_grants s') (token_digest token) = Some g'"
  shows "process_ok c s' (events @ [Issued token g'])"
proof -
  obtain ci g where *: "g = make_grant ci (token_digest token) now" "grant_error g = None"
    "map_of (evict_expired (is_grants s) now) (token_digest token) = None"
    "s' = s\<lparr>is_grants := evict_expired (is_grants s) now @ [(token_digest token, g)]\<rparr>"
    by (rule issue_Inr [OF run])
  have g: "g' = g" using g' * by (simp add: map_add_def)
  have "accounted (s\<lparr>is_grants := evict_expired (is_grants s) now\<rparr>) events"
    using ok accounted_filter by (simp add: process_ok_def evict_expired_def)
  from accounted_issue [OF this refl, of token g] have "accounted s' (events @ [Issued token g])"
    using * by simp
  moreover have "issuer_ok s'" using issue_ok [OF run] ok by (simp add: process_ok_def)
  moreover have "ag_digest g = token_digest token" using * by (simp add: make_grant_def)
  ultimately show ?thesis using ok *(2) unfolding g process_ok_def by (simp add: imp_conjL) blast
qed

lemma process_ok_consume:
  assumes ok: "process_ok c s events" and run: "take_capability c token u s = (s', Some v)"
  shows "process_ok c s' (events @ [Consumed token u v])"
  using run
proof (cases rule: take_capability_cases)
  case (taken g digest paths)
  have "(token_digest token, g) \<in> set (is_grants s)" using taken(5) by (rule map_of_SomeD)
  moreover have "accounted s events" "issuer_ok s" using ok by (simp_all add: process_ok_def)
  ultimately obtain token' where issued: "Issued token' g \<in> set events" "token_digest token' = token_digest token"
    and valid: "grant_error g = None"
    unfolding accounted_def issuer_ok_def by blast
  have "meets c u g" by (rule checked_use_Inr [OF taken(4,7,6) valid])
  with issued taken(2) have event: "\<exists>token' g. Issued token' g \<in> set (events @ [Consumed token u v]) \<and>
      token_digest token' = token_digest token \<and> v = granted g \<and> meets c u g" by auto
  have "distinct (map fst (is_grants s))" using ok by (simp add: process_ok_def issuer_ok_def)
  then have "accounted s' (events @ [Consumed token u v])"
    using ok accounted_consume [OF _ taken(5)] taken(1) by (simp add: process_ok_def)
  moreover have "issuer_ok s'" using ok delete_ok taken(1) by (simp add: process_ok_def)
  moreover have "grant_error g = None \<and> ag_digest g = token_digest t" if "Issued t g \<in> set (events @ [Consumed token u v])" for t g
    using that ok by (simp add: process_ok_def)
  moreover have "\<exists>token' g. Issued token' g \<in> set (events @ [Consumed token u v]) \<and>
      token_digest token' = token_digest t \<and> x = granted g \<and> meets c y g"
    if "Consumed t y x \<in> set (events @ [Consumed token u v])" for t y x
  proof (cases "Consumed t y x \<in> set events")
    case True
    then have "\<exists>token' g. Issued token' g \<in> set events \<and> token_digest token' = token_digest t \<and> x = granted g \<and> meets c y g"
      using ok unfolding process_ok_def by blast
    then show ?thesis by auto
  next
    case False
    then show ?thesis using that event by simp
  qed
  ultimately show ?thesis unfolding process_ok_def by blast
qed simp

lemma process_ok_step:
  assumes "issuer_step c isoformat s new s'" "process_ok c s events"
  shows "process_ok c s' (events @ new)"
proof -
  have verified: "process_ok c s' events" if "verify c token u s = (s', v)" for token u s' v
    using that assms(2) process_ok_delete by (cases rule: verify_cases) auto
  from assms(1) show ?thesis
  proof cases
    case issued
    with process_ok_issue [OF assms(2)] show ?thesis by simp
  next
    case not_issued
    from issue_Inl [OF not_issued(2)] assms(2) process_ok_filter not_issued(1) show ?thesis by (auto simp: evict_expired_def)
  next
    case consumed
    with process_ok_consume [OF assms(2)] show ?thesis by simp
  next
    case not_consumed
    then show ?thesis using verified by (auto elim: take_capability_cases)
  next
    case revoked
    with assms(2) process_ok_delete show ?thesis by (simp add: revoke_def)
  next
    case all_revoked
    with process_ok_filter [OF assms(2), of "\<lambda>_. False"] show ?thesis by (simp add: revoke_all_def)
  qed (use verified in simp_all)
qed

lemma process_ok_reachable:
  assumes "issuer_reachable c isoformat s0 s events" "new_issuer n = Inr s0"
  shows "process_ok c s events"
  using assms(1)
proof (induction rule: issuer_reachable.induct)
  case start
  have "is_grants s0 = []" using assms(2) by (auto simp: new_issuer_def split: if_splits)
  then show ?case using new_issuer_ok [OF assms(2)] by (simp add: process_ok_def accounted_def)
next
  case step
  with process_ok_step show ?case by simp
qed

section \<open>Consumed once\<close>

definition live :: "issuer \<Rightarrow> string set" where
  "live s = fst ` set (is_grants s)"

lemma live_simps [simp]:
  "live (s\<lparr>is_grants := AList.delete k (is_grants s)\<rparr>) = live s - {k}"
  "live (s\<lparr>is_grants := []\<rparr>) = {}"
  by (auto simp: live_def AList.delete_eq image_iff)

lemma live_filter: "live (s\<lparr>is_grants := filter P (is_grants s)\<rparr>) \<subseteq> live s"
  by (auto simp: live_def)

lemma live_verify: "verify c token u s = (s', v) \<Longrightarrow> live s' \<subseteq> live s"
  by (cases rule: verify_cases) auto

text \<open>What a step does to the digests of the live capabilities.\<close>

lemma issuer_step_live:
  assumes "issuer_step c isoformat s new s'"
  obtains (quiet) "new = []" "live s' \<subseteq> live s"
  | (issued) token g where "new = [Issued token g]" "live s' \<subseteq> insert (token_digest token) (live s)"
  | (consumed) token u v where "new = [Consumed token u v]" "token_digest token \<in> live s" "live s' \<subseteq> live s - {token_digest token}"
  using assms
proof cases
  case (issued tokens e r content now token g)
  obtain ci g' where "s' = s\<lparr>is_grants := evict_expired (is_grants s) now @ [(token_digest token, g')]\<rparr>"
    by (rule issue_Inr [OF issued(2)])
  then have "live s' \<subseteq> insert (token_digest token) (live s)" by (auto simp: live_def evict_expired_def)
  with issued(1) that(2) show thesis by blast
next
  case (not_issued tokens e r content now x)
  from issue_Inl [OF not_issued(2)] live_filter have "live s' \<subseteq> live s" by (auto simp: evict_expired_def)
  with not_issued(1) that(1) show thesis by blast
next
  case (consumed token u v)
  from consumed(2) show thesis
  proof (cases rule: take_capability_cases)
    case (taken g digest paths)
    have "token_digest token \<in> live s" using map_of_SomeD [OF taken(5)] by (force simp: live_def)
    with consumed(1) taken(1) that(3) show thesis by simp
  qed simp
next
  case (not_consumed token u)
  from not_consumed(2) have "live s' \<subseteq> live s" by (cases rule: take_capability_cases) (auto dest: live_verify)
  with not_consumed(1) that(1) show thesis by blast
next
  case (revoked token)
  then have "live s' \<subseteq> live s" by (auto simp: revoke_def)
  with revoked(1) that(1) show thesis by blast
next
  case all_revoked
  then have "live s' \<subseteq> live s" by (simp add: revoke_all_def)
  with all_revoked(1) that(1) show thesis by blast
qed (use live_verify that(1) in blast)

text \<open>A capability that was consumed is not live before it is issued again.\<close>

definition spent :: "issuer \<Rightarrow> issuer_event list \<Rightarrow> bool" where
  "spent s events \<longleftrightarrow>
     (\<forall>xs token u v ys. events = xs @ Consumed token u v # ys \<longrightarrow> token_digest token \<in> live s \<longrightarrow>
        token_digest token \<in> set (issued_digests ys))"

definition separated :: "issuer_event list \<Rightarrow> bool" where
  "separated events \<longleftrightarrow>
     (\<forall>xs t u v ys t' u' v' zs. events = xs @ Consumed t u v # ys @ Consumed t' u' v' # zs \<longrightarrow>
        token_digest t = token_digest t' \<longrightarrow> token_digest t \<in> set (issued_digests ys))"

lemma spent_mono: "spent s events \<Longrightarrow> live s' \<subseteq> live s \<Longrightarrow> spent s' events"
  unfolding spent_def by blast

lemma spent_snoc:
  assumes "spent s events" "live s' \<subseteq> live s \<union> set (issued_digests [e])"
    and "\<And>token u v. e = Consumed token u v \<Longrightarrow> token_digest token \<notin> live s'"
  shows "spent s' (events @ [e])"
  unfolding spent_def
proof (intro allI impI)
  fix xs token u v ys
  assume split: "events @ [e] = xs @ Consumed token u v # ys" and live: "token_digest token \<in> live s'"
  show "token_digest token \<in> set (issued_digests ys)"
  proof (cases ys rule: rev_cases)
    case Nil
    then show ?thesis using split assms(3) live by auto
  next
    case (snoc ys' y)
    then have "events = xs @ Consumed token u v # ys'" "y = e" using split by simp_all
    then show ?thesis using assms(1,2) live snoc unfolding spent_def by auto
  qed
qed

lemma separated_snoc:
  assumes "separated events" "spent s events" "\<And>token u v. e = Consumed token u v \<Longrightarrow> token_digest token \<in> live s"
  shows "separated (events @ [e])"
  unfolding separated_def
proof (intro allI impI)
  fix xs t u v ys t' u' v' zs
  assume split: "events @ [e] = xs @ Consumed t u v # ys @ Consumed t' u' v' # zs" and same: "token_digest t = token_digest t'"
  show "token_digest t \<in> set (issued_digests ys)"
  proof (cases zs rule: rev_cases)
    case Nil
    then have "events = xs @ Consumed t u v # ys" "e = Consumed t' u' v'" using split by simp_all
    moreover from this have "token_digest t \<in> live s" using assms(3) same by simp
    ultimately show ?thesis using assms(2) unfolding spent_def by blast
  next
    case (snoc zs' z)
    then have "events = xs @ Consumed t u v # ys @ Consumed t' u' v' # zs'" using split by simp
    then show ?thesis using assms(1) same unfolding separated_def by blast
  qed
qed

lemma consumptions_separated:
  assumes "issuer_reachable c isoformat s0 s events" "new_issuer n = Inr s0"
  shows "separated events \<and> spent s events"
  using assms(1)
proof (induction rule: issuer_reachable.induct)
  case start
  show ?case by (simp add: separated_def spent_def)
next
  case (step s events new s')
  from step.hyps(2) show ?case
  proof (cases rule: issuer_step_live)
    case quiet
    then show ?thesis using step.IH spent_mono [of s events s'] by simp
  next
    case (issued token g)
    have "spent s' (events @ new)"
      unfolding issued(1) by (rule spent_snoc [of s]) (use issued step.IH in auto)
    moreover have "separated (events @ new)"
      unfolding issued(1) by (rule separated_snoc [of _ s]) (use step.IH in simp_all)
    ultimately show ?thesis by blast
  next
    case (consumed token u v)
    have "spent s' (events @ new)"
      unfolding consumed(1) by (rule spent_snoc [of s]) (use consumed step.IH in auto)
    moreover have "separated (events @ new)"
      unfolding consumed(1) by (rule separated_snoc [of _ s]) (use consumed step.IH in auto)
    ultimately show ?thesis by blast
  qed
qed

lemma reachable_prefix:
  assumes "issuer_reachable c isoformat s0 s events" "events = xs @ e # ys"
  shows "\<exists>s1. issuer_reachable c isoformat s0 s1 (xs @ [e])"
  using assms
proof (induction arbitrary: ys rule: issuer_reachable.induct)
  case (step s events new s')
  have more: "\<exists>s1. issuer_reachable c isoformat s0 s1 (xs @ [e])" if new: "new = [x]" for x
  proof (cases ys rule: rev_cases)
    case Nil
    then show ?thesis using issuer_reachable.step [OF step.hyps] step.prems by auto
  next
    case (snoc ys' y)
    then show ?thesis using step.IH [of ys'] step.prems new by simp
  qed
  from step.hyps(2) show ?case
    by (cases rule: issuer_step_live) (use step.IH step.prems more in auto)
qed simp

section \<open>Properties\<close>

text \<open>C33: A capability is consumed at most once, and only for what it was issued for. In every process, up to
  every moment, between any two consumptions under one digest there was a new issue under that digest; and
  whatever is consumed was issued before it, under the same token or one that collides with it, for the same
  actor, repository, task, request and graph, for all the requested paths, less than five minutes ago, and is
  verified as exactly what was granted.\<close>

theorem capability_consumed_once:
  assumes "issuer_reachable c isoformat s0 s events" "new_issuer n = Inr s0"
  shows "(\<forall>xs t u v ys t' u' v' zs. events = xs @ Consumed t u v # ys @ Consumed t' u' v' # zs \<longrightarrow>
      token_digest t = token_digest t' \<longrightarrow> token_digest t \<in> set (issued_digests ys)) \<and>
    mset (consumed_digests events) \<subseteq># mset (issued_digests events) \<and>
    (\<forall>xs token u v ys. events = xs @ Consumed token u v # ys \<longrightarrow>
      (\<exists>token' g. Issued token' g \<in> set xs \<and> (token' = token \<or> collision token' token) \<and> v = granted g \<and> meets c u g))"
proof (intro conjI)
  show "\<forall>xs t u v ys t' u' v' zs. events = xs @ Consumed t u v # ys @ Consumed t' u' v' # zs \<longrightarrow>
      token_digest t = token_digest t' \<longrightarrow> token_digest t \<in> set (issued_digests ys)"
    using consumptions_separated [OF assms] unfolding separated_def by blast
  note ok = process_ok_reachable [OF assms]
  have "mset (consumed_digests events) \<subseteq># mset (map fst (is_grants s)) + mset (consumed_digests events)" by simp
  also have "\<dots> \<subseteq># mset (issued_digests events)" using ok by (simp add: process_ok_def accounted_def)
  finally show "mset (consumed_digests events) \<subseteq># mset (issued_digests events)" .
  show "\<forall>xs token u v ys. events = xs @ Consumed token u v # ys \<longrightarrow>
      (\<exists>token' g. Issued token' g \<in> set xs \<and> (token' = token \<or> collision token' token) \<and> v = granted g \<and> meets c u g)"
  proof (intro allI impI)
    fix xs token u v ys
    assume "events = xs @ Consumed token u v # ys"
    with reachable_prefix [OF assms(1)] obtain s1 where "issuer_reachable c isoformat s0 s1 (xs @ [Consumed token u v])" by blast
    from process_ok_reachable [OF this assms(2)]
    have "\<exists>token' g. Issued token' g \<in> set xs \<and> token_digest token' = token_digest token \<and> v = granted g \<and> meets c u g"
      unfolding process_ok_def by auto
    then show "\<exists>token' g. Issued token' g \<in> set xs \<and> (token' = token \<or> collision token' token) \<and> v = granted g \<and> meets c u g"
      unfolding token_digest_def sha256_id_inject by blast
  qed
qed

text \<open>C34: The registry is bounded and consistent. It never holds more grants than its capacity, which is at most
  1024, never two under one digest, and every grant in it is valid: bound to an actor, a repository, a task, a
  request and a graph, for canonical paths, for exactly five minutes.\<close>

theorem registry_well_formed:
  assumes "issuer_reachable c isoformat s0 s events" "new_issuer n = Inr s0"
  shows "length (is_grants s) \<le> is_max s \<and> is_max s \<le> 1024 \<and> distinct (map fst (is_grants s)) \<and>
    (\<forall>(digest, g) \<in> set (is_grants s). digest = ag_digest g \<and> validate_grant g = Inr g)"
  using process_ok_reachable [OF assms] by (auto simp: process_ok_def issuer_ok_def validate_grant_def)

section \<open>Issuing and verifying\<close>

lemma length_utf8: "length (utf8 s) \<le> 2 * length s"
  by (induction s) (simp_all add: utf8_def utf8_char_def Let_def)

lemma tagged_identity:
  assumes "tagged_hash tag s" "\<not> list_ex control_char tag" "tag \<noteq> []" "length tag \<le> 100" "task \<Longrightarrow> tag = ''task:sha256:''"
  shows "checked_identity task s = Inr s"
proof -
  from assms(1) obtain h where s: "s = tag @ h" and h: "hex64 h"
    by (metis append_take_drop_id starts_with_def tagged_hash_def)
  have "\<not> control_char c" if "c \<in> set h" for c
  proof -
    have "c \<in> set ''0123456789abcdef''" using h that by (auto simp: hex64_def hex_char_def list_all_iff)
    then show ?thesis by (auto simp: control_char_def)
  qed
  then have "\<not> list_ex control_char s" using s assms(2) by (auto simp: list_ex_iff)
  moreover have "length (utf8 s) \<le> 2048" using length_utf8 [of s] s h assms(4) by (simp add: hex64_def)
  ultimately show ?thesis using s assms(1,3,5) by (auto simp: checked_identity_def task_id_pattern_def)
qed

lemma sha256_identity: "sha256_pattern d \<Longrightarrow> checked_identity False d = Inr d"
proof -
  have "\<not> list_ex control_char ''sha256:''" by code_simp
  then show "sha256_pattern d \<Longrightarrow> checked_identity False d = Inr d"
    by (intro tagged_identity [where tag = "''sha256:''"]) (simp_all add: sha256_pattern_def)
qed

lemma validated_issue_Inr:
  assumes "validated_issue c isoformat e r content now = Inr ci"
  obtains e' g digest where "validate_envelope isoformat e = Inr e'" "ci_envelope ci = e'" "ci_result ci = r"
    "checked_identity False (te_actor e') = Inr (te_actor e')" "checked_identity False (te_repository_id e') = Inr (te_repository_id e')"
    "checked_identity True (te_id e') = Inr (te_id e')" "parse_graph c content = Inr g"
    "canonical_graph_digest c content = Inr (ci_graph_digest ci)" "ci_request_digest ci = request_digest (te_request e')"
    "issue_agrees e' r g (ci_scope ci) (ci_relevant ci) now"
  using assms
  by (auto simp: validated_issue_def res_simps checked_identity_def split: if_splits)

lemma granted_valid: "grant_error g = None \<Longrightarrow> verification_error (granted g) = None"
  by (auto simp: grant_error_def verification_error_def granted_def)

lemma issued_taken:
  assumes issued: "issue c isoformat tokens e r content now s = (s', Inr token)"
    and use: "validate_envelope isoformat e = Inr e'" "cu_actor u = te_actor e'" "cu_repository_id u = te_repository_id e'"
      "cu_task_id u = te_id e'" "cu_request_digest u = None \<or> cu_request_digest u = Some (request_digest (te_request e'))"
      "cu_graph_version u = pr_graph_version r" "cu_graph_content u = content"
      "checked_paths (cu_requested_paths u) = Inr paths" "paths \<noteq> []" "set paths \<subseteq> set (pr_permitted_scope r)"
      "cu_now u < now + DEFAULT_TTL"
  shows "\<exists>v s''. verify c token u s' = (s', v) \<and> av_authorized v \<and> av_classification v = Some (pr_classification r) \<and>
      av_relevant_node_ids v = pr_relevant_node_ids r \<and> av_expires_at v = Some (now + DEFAULT_TTL) \<and>
      take_capability c token u s' = (s'', Some v) \<and> (\<forall>u'. \<not> av_authorized (snd (verify c token u' s'')))"
proof -
  obtain ci g where ci: "validated_issue c isoformat e r content now = Inr ci" and token: "token_pattern token"
    and g: "g = make_grant ci (token_digest token) now" "grant_error g = None"
    and free: "map_of (evict_expired (is_grants s) now) (token_digest token) = None"
    and s': "s' = s\<lparr>is_grants := evict_expired (is_grants s) now @ [(token_digest token, g)]\<rparr>"
    by (rule issue_Inr [OF issued])
  obtain gr where env: "ci_envelope ci = e'" "ci_result ci = r"
    and ids: "checked_identity False (te_actor e') = Inr (te_actor e')" "checked_identity False (te_repository_id e') = Inr (te_repository_id e')"
      "checked_identity True (te_id e') = Inr (te_id e')"
    and graph: "parse_graph c content = Inr gr" "canonical_graph_digest c content = Inr (ci_graph_digest ci)"
    and req: "ci_request_digest ci = request_digest (te_request e')"
    and agrees: "issue_agrees e' r gr (ci_scope ci) (ci_relevant ci) now"
    by (rule validated_issue_Inr [OF ci]) (use use(1) in auto)
  have digest: "sha256_pattern (request_digest t)" for t
    by (simp add: request_digest_def sha256_pattern_def tagged_hash_def sha256_id_def starts_with_def hex64_hexdigest)
  have version: "0 \<le> pr_graph_version r" using g by (auto simp: grant_error_def make_grant_def env)
  have checked: "checked_use c u = Inr (ci_graph_digest ci, paths)"
    using use ids graph version sha256_identity [OF digest] by (auto simp: checked_use_def)
  have "refusal g u (ci_graph_digest ci) paths = None"
    using use g agrees digest by (auto simp: refusal_def make_grant_def env req issue_agrees_def)
  moreover have found: "map_of (is_grants s') (token_digest token) = Some g"
    using free s' by (simp add: map_add_def)
  moreover have "cu_now u < ag_expires_at g" using use g by (simp add: make_grant_def)
  ultimately have verified: "verify c token u s' = (s', granted g)"
    using token checked granted_valid [OF g(2)] by (simp add: verify_def)
  let ?s'' = "s'\<lparr>is_grants := AList.delete (token_digest token) (is_grants s')\<rparr>"
  have taken: "take_capability c token u s' = (?s'', Some (granted g))"
    using verified found by (simp add: take_capability_def granted_def)
  have gone: "\<not> av_authorized (snd (verify c token u' ?s''))" for u'
    by (auto simp: verify_def denied_def delete_conv split: sum.splits)
  have "av_authorized (granted g) \<and> av_classification (granted g) = Some (pr_classification r) \<and>
      av_relevant_node_ids (granted g) = pr_relevant_node_ids r \<and> av_expires_at (granted g) = Some (now + DEFAULT_TTL)"
    using g agrees by (simp add: granted_def make_grant_def env issue_agrees_def)
  with verified taken gone show ?thesis by blast
qed

text \<open>A capability that was issued is worth what it was issued for. It is only issued for an authorized result
  of the task, about the graph as it is; right after, whoever presents the token for the same actor, repository,
  task and graph, for some of the permitted paths, within five minutes, is granted the classification and the
  relevant nodes of the result; and once taken, nothing is granted for the token any more.\<close>

theorem issue_then_verify:
  assumes issued: "issue c isoformat tokens e r content now s = (s', Inr token)"
    and use: "validate_envelope isoformat e = Inr e'" "cu_actor u = te_actor e'" "cu_repository_id u = te_repository_id e'"
      "cu_task_id u = te_id e'" "cu_request_digest u = None \<or> cu_request_digest u = Some (request_digest (te_request e'))"
      "cu_graph_version u = pr_graph_version r" "cu_graph_content u = content"
      "checked_paths (cu_requested_paths u) = Inr paths" "paths \<noteq> []" "set paths \<subseteq> set (pr_permitted_scope r)"
      "cu_now u < now + DEFAULT_TTL"
  shows "pr_authorized r \<and> pr_classification r \<in> {No_Semantic_Impact, Aligned} \<and> pr_task_id r = te_id e' \<and>
    (\<exists>g. parse_graph c content = Inr g \<and> g_version g = pr_graph_version r) \<and>
    (\<exists>v s''. verify c token u s' = (s', v) \<and> av_authorized v \<and> av_classification v = Some (pr_classification r) \<and>
      av_relevant_node_ids v = pr_relevant_node_ids r \<and> av_expires_at v = Some (now + DEFAULT_TTL) \<and>
      take_capability c token u s' = (s'', Some v) \<and> (\<forall>u'. \<not> av_authorized (snd (verify c token u' s''))))"
proof -
  obtain ci where "validated_issue c isoformat e r content now = Inr ci" by (rule issue_Inr [OF issued])
  then obtain g scope relevant where "parse_graph c content = Inr g" "issue_agrees e' r g scope relevant now"
    using use(1) by (auto elim!: validated_issue_Inr)
  then show ?thesis using issued_taken [OF assms] by (simp add: issue_agrees_def)
qed

section \<open>A sample process\<close>

definition sample_task :: task_envelope where
  "sample_task =
     \<lparr>te_id = [], te_repository_id = ''repo'', te_actor = ''ana'', te_conversation_ref = ''talk'', te_request = ''rename'',
      te_request_evidence_ref = ''ev-1'', te_graph_version = 4, te_created_at = 0, te_requested_scope = [''src/b.py'', ''src/a.py'']\<rparr>"

definition sample_task_id :: string where
  "sample_task_id = ''task:'' @ canonical_digest (envelope_material int_str sample_task)"

definition sample_preflight :: preflight_result where
  "sample_preflight =
     \<lparr>pr_task_id = sample_task_id, pr_graph_version = 4, pr_classification = Aligned, pr_authorized = True, pr_basis = ''n2'',
      pr_relevant_node_ids = [''n2''], pr_evidence_refs = [], pr_questions = [], pr_review_case_id = None,
      pr_permitted_scope = [''src/a.py'', ''src/b.py''], pr_context = []\<rparr>"

definition sample_token :: string where
  "sample_token = replicate 43 (CHR ''a'')"

definition sample_use :: capability_use where
  "sample_use =
     \<lparr>cu_actor = ''ana'', cu_repository_id = ''repo'', cu_task_id = sample_task_id, cu_graph_version = 4,
      cu_graph_content = ''before'', cu_requested_paths = [''src/a.py''], cu_now = 60, cu_request_digest = None\<rparr>"

definition empty_issuer :: issuer where
  "empty_issuer = \<lparr>is_max = 2, is_grants = []\<rparr>"

lemma sample_scope:
  "checked_paths [''src/b.py'', ''src/a.py''] = Inr [''src/a.py'', ''src/b.py'']"
  "checked_paths [''src/a.py'', ''src/b.py''] = Inr [''src/a.py'', ''src/b.py'']"
  "checked_paths [''src/a.py''] = Inr [''src/a.py'']"
  "checked_identities [''n2''] = Inr [''n2'']"
  "checked_identity False ''ana'' = Inr ''ana''" "checked_identity False ''repo'' = Inr ''repo''"
  "checked_identity False ''ev-1'' = Inr ''ev-1''" "envelope_error sample_task = None" "token_pattern sample_token"
  "parse_graph sample_codecs ''before'' = Inr sample_graph" "serialize_graph sample_codecs sample_graph = ''before''"
  "g_version sample_graph = 4" "new_issuer 2 = Inr empty_issuer"
  by code_simp+

lemma sample_task_checked:
  "checked_identity True sample_task_id = Inr sample_task_id"
  "validate_envelope int_str sample_task = Inr (sample_task\<lparr>te_id := sample_task_id\<rparr>)"
proof -
  have "tagged_hash ''task:sha256:'' sample_task_id"
    by (simp add: sample_task_id_def canonical_digest_def sha256_id_def tagged_hash_def starts_with_def hex64_hexdigest)
  moreover have "\<not> list_ex control_char ''task:sha256:''" by code_simp
  ultimately show "checked_identity True sample_task_id = Inr sample_task_id"
    by (intro tagged_identity [where tag = "''task:sha256:''"]) simp_all
  show "validate_envelope int_str sample_task = Inr (sample_task\<lparr>te_id := sample_task_id\<rparr>)"
    unfolding validate_envelope_Inr using sample_scope by (simp add: sample_task_id_def) (simp add: sample_task_def)
qed

lemma sample_issued:
  "\<exists>g. issue sample_codecs int_str (\<lambda>_. sample_token) sample_task sample_preflight ''before'' 5 empty_issuer =
     (\<lparr>is_max = 2, is_grants = [(token_digest sample_token, g)]\<rparr>, Inr sample_token)"
proof -
  have hash: "sha256_pattern (sha256_id t)" for t
    by (simp add: sha256_pattern_def tagged_hash_def sha256_id_def starts_with_def hex64_hexdigest)
  have "canonical_graph_digest sample_codecs ''before'' = Inr (sha256_id ''before'')"
    by (simp add: canonical_graph_digest_def sample_scope)
  moreover have "issue_agrees (sample_task\<lparr>te_id := sample_task_id\<rparr>) sample_preflight sample_graph [''src/a.py'', ''src/b.py''] [''n2''] 5"
    by (simp add: issue_agrees_def sample_task_def sample_preflight_def sample_scope DEFAULT_TTL_def)
  moreover have "te_actor sample_task = ''ana''" "te_repository_id sample_task = ''repo''"
    "te_request_evidence_ref sample_task = ''ev-1''" "te_requested_scope sample_task = [''src/b.py'', ''src/a.py'']"
    "pr_relevant_node_ids sample_preflight = [''n2'']"
    by (simp_all add: sample_task_def sample_preflight_def)
  ultimately obtain ci where ci: "validated_issue sample_codecs int_str sample_task sample_preflight ''before'' 5 = Inr ci"
    "ci = \<lparr>ci_envelope = sample_task\<lparr>te_id := sample_task_id\<rparr>, ci_result = sample_preflight, ci_graph_digest = sha256_id ''before'',
       ci_request_digest = request_digest (te_request sample_task), ci_scope = [''src/a.py'', ''src/b.py''], ci_relevant = [''n2'']\<rparr>"
    by (simp add: validated_issue_def sample_task_checked sample_scope)
  have "grant_error (make_grant ci (token_digest sample_token) 5) = None"
    using hash by (simp add: ci(2) grant_error_def make_grant_def token_digest_def request_digest_def sample_task_checked
        sample_scope sample_task_def sample_preflight_def error_of_def)
  then show ?thesis
    using ci(1) sample_scope(9) hash
    by (simp add: issue_def Let_def empty_issuer_def evict_expired_def validate_grant_def numeral_eq_Suc token_digest_def)
qed

lemma sample_use_checked:
  "cu_actor sample_use = te_actor (sample_task\<lparr>te_id := sample_task_id\<rparr>)"
  "cu_repository_id sample_use = te_repository_id (sample_task\<lparr>te_id := sample_task_id\<rparr>)"
  "cu_task_id sample_use = te_id (sample_task\<lparr>te_id := sample_task_id\<rparr>)"
  "cu_request_digest sample_use = None \<or>
     cu_request_digest sample_use = Some (request_digest (te_request (sample_task\<lparr>te_id := sample_task_id\<rparr>)))"
  "cu_graph_version sample_use = pr_graph_version sample_preflight" "cu_graph_content sample_use = ''before''"
  "checked_paths (cu_requested_paths sample_use) = Inr [''src/a.py'']" "[''src/a.py''] \<noteq> []"
  "set [''src/a.py''] \<subseteq> set (pr_permitted_scope sample_preflight)" "cu_now sample_use < 5 + DEFAULT_TTL"
  by (simp_all add: sample_use_def sample_task_def sample_preflight_def sample_scope DEFAULT_TTL_def)

theorem issue_then_verify_witness:
  "\<exists>s token v. issue sample_codecs int_str (\<lambda>_. sample_token) sample_task sample_preflight ''before'' 5 empty_issuer = (s, Inr token) \<and>
     verify sample_codecs token sample_use s = (s, v) \<and> av_authorized v \<and>
     av_relevant_node_ids v = pr_relevant_node_ids sample_preflight"
proof -
  obtain g where run: "issue sample_codecs int_str (\<lambda>_. sample_token) sample_task sample_preflight ''before'' 5 empty_issuer =
      (\<lparr>is_max = 2, is_grants = [(token_digest sample_token, g)]\<rparr>, Inr sample_token)"
    using sample_issued by blast
  from issue_then_verify [OF run sample_task_checked(2) sample_use_checked] run show ?thesis by blast
qed

lemma sample_process:
  "\<exists>s s' g v. issuer_reachable sample_codecs int_str empty_issuer s [Issued sample_token g] \<and>
     is_grants s = [(token_digest sample_token, g)] \<and>
     issuer_reachable sample_codecs int_str empty_issuer s' ([Issued sample_token g] @ [Consumed sample_token sample_use v])"
proof -
  obtain g where run: "issue sample_codecs int_str (\<lambda>_. sample_token) sample_task sample_preflight ''before'' 5 empty_issuer =
      (\<lparr>is_max = 2, is_grants = [(token_digest sample_token, g)]\<rparr>, Inr sample_token)"
    using sample_issued by blast
  let ?s = "\<lparr>is_max = 2, is_grants = [(token_digest sample_token, g)]\<rparr>"
  have "issuer_step sample_codecs int_str empty_issuer [Issued sample_token g] ?s"
    by (rule issuer_step.issued [OF run]) simp
  from issuer_reachable.step [OF issuer_reachable.start this]
  have one: "issuer_reachable sample_codecs int_str empty_issuer ?s [Issued sample_token g]" by simp
  obtain s' v where "take_capability sample_codecs sample_token sample_use ?s = (s', Some v)"
    using issued_taken [OF run sample_task_checked(2) sample_use_checked] by blast
  from issuer_reachable.step [OF one issuer_step.consumed [OF this]] one show ?thesis by fastforce
qed

theorem capability_consumed_once_witness:
  "\<exists>s g v. issuer_reachable sample_codecs int_str empty_issuer s [Issued sample_token g, Consumed sample_token sample_use v] \<and>
     (\<exists>token' g. (token' = sample_token \<or> collision token' sample_token) \<and> v = granted g \<and> meets sample_codecs sample_use g)"
proof -
  obtain s g v where reach: "issuer_reachable sample_codecs int_str empty_issuer s
      ([Issued sample_token g] @ [Consumed sample_token sample_use v])"
    using sample_process by blast
  have "\<exists>token' g'. Issued token' g' \<in> set [Issued sample_token g] \<and>
      (token' = sample_token \<or> collision token' sample_token) \<and> v = granted g' \<and> meets sample_codecs sample_use g'"
    using conjunct2 [OF conjunct2 [OF capability_consumed_once [OF reach sample_scope(13)]]] by blast
  with reach show ?thesis by auto
qed

theorem registry_well_formed_witness:
  "\<exists>s g. issuer_reachable sample_codecs int_str empty_issuer s [Issued sample_token g] \<and>
     is_grants s = [(token_digest sample_token, g)] \<and> validate_grant g = Inr g"
proof -
  obtain s g where reach: "issuer_reachable sample_codecs int_str empty_issuer s [Issued sample_token g]"
    "is_grants s = [(token_digest sample_token, g)]"
    using sample_process by blast
  from registry_well_formed [OF this(1) sample_scope(13)] reach(2) have "validate_grant g = Inr g" by simp
  with reach show ?thesis by blast
qed

end
