(* ===== verification/Proposal_Store.thy ===== *)
theory Proposal_Store
  imports Intent_Models Receipt_Store
begin

text \<open>
  The ledger of intent proposals, decisions and clarification events (\<open>intent_workflow/proposal_store.py\<close>): one
  file of numbered frames, decoded in full by every operation. \<open>ix_read\<close> is \<open>model_validate_json\<close> of a frame,
  its validators included (\<open>None\<close> is the validation error). Decoding may raise an exception the store does not
  expect: the lookup of the last answer of a session without answers.
\<close>

section \<open>Frames\<close>

datatype intent_payload =
    Proposal_Frame intent_proposal
  | Decision_Frame proposal_decision
  | Event_Frame clarification_event

record intent_frame =
  if_sequence :: int
  if_payload :: intent_payload

record intent_codec =
  ix_dumpers :: dumpers
  ix_read :: "string \<Rightarrow> intent_frame option"

definition proposal_dump :: "dumpers \<Rightarrow> intent_proposal \<Rightarrow> json" where
  "proposal_dump dm p = JObj ((''id'', JStr (ip_id p)) # proposal_material dm p)"

definition decision_dump :: "dumpers \<Rightarrow> proposal_decision \<Rightarrow> json" where
  "decision_dump dm d = JObj ((''id'', JStr (pd_id d)) # decision_material dm d)"

definition event_dump :: "dumpers \<Rightarrow> clarification_event \<Rightarrow> json" where
  "event_dump dm e =
     JObj ((''id'', JStr (ce_id e)) #
       AList.update ''session''
         (JObj (session_dump dm (ce_session e) @ [(''latest_event_id'', opt_str (cn_latest_event_id (ce_session e)))]))
         (event_material dm e))"

text \<open>A frame without a clarification does not mention that field.\<close>

definition serialize_frame :: "intent_codec \<Rightarrow> intent_frame \<Rightarrow> string" where
  "serialize_frame cd f =
     (let dm = ix_dumpers cd; head = [(''schema_version'', JInt 1), (''sequence'', JInt (if_sequence f))] in
      json_line
        (case if_payload f of
           Proposal_Frame p \<Rightarrow> head @ [(''proposal'', proposal_dump dm p), (''decision'', JNull)]
         | Decision_Frame d \<Rightarrow> head @ [(''proposal'', JNull), (''decision'', decision_dump dm d)]
         | Event_Frame e \<Rightarrow> head @ [(''proposal'', JNull), (''decision'', JNull), (''clarification'', event_dump dm e)]))"

section \<open>Clarification transitions\<close>

text \<open>The questions of a new session form a chain of evidence, asked one after the other.\<close>

fun question_chain :: "string \<Rightarrow> string \<Rightarrow> datetime \<Rightarrow> clarification_question list \<Rightarrow> bool" where
  "question_chain opened_by predecessor previous_at [] \<longleftrightarrow> True"
| "question_chain opened_by predecessor previous_at (q # qs) \<longleftrightarrow>
     cq_author q = opened_by \<and> cq_predecessor q = Some predecessor \<and> previous_at \<le> cq_asked_at q \<and>
     question_chain opened_by (cq_evidence_ref q) (cq_asked_at q) qs"

definition opens :: "clarification_event \<Rightarrow> clarification_event option \<Rightarrow> bool" where
  "opens e previous_event \<longleftrightarrow>
     (let s = ce_session e in
      previous_event = None \<and> ce_event_type e = Opened \<and> ce_predecessor e = None \<and> cn_answers s = [] \<and> cn_status s = Open \<and>
      ce_actor e = cn_opened_by s \<and> ce_at e = cn_opened_at s \<and>
      question_chain (cn_opened_by s) (cn_classification_evidence_ref s) (cn_opened_at s) (cn_questions s))"

definition same_frame :: "dumpers \<Rightarrow> clarification_session \<Rightarrow> clarification_session \<Rightarrow> bool" where
  "same_frame dm s s' \<longleftrightarrow> cn_id s = cn_id s' \<and> session_frame dm s = session_frame dm s'"

text \<open>\<open>xs[-1]\<close>\<close>

definition last_item :: "'a list \<Rightarrow> 'a res" where
  "last_item xs = (if xs = [] then Inl (IndexError ''list index out of range'') else Inr (last xs))"

definition answered_ok :: "clarification_session \<Rightarrow> clarification_event \<Rightarrow> bool res" where
  "answered_ok previous e =
     (let s = ce_session e in
      res_bind
        (if cn_conflicts previous \<noteq> [] then Inr (cf_conflicting_ref (last (cn_conflicts previous)))
         else if cn_answers previous \<noteq> [] then Inr (ca_evidence_ref (last (cn_answers previous)))
         else res_bind (last_item (cn_questions previous)) (\<lambda>q. Inr (cq_evidence_ref q))) (\<lambda>expected.
      Inr (cn_status previous = Open \<and> cn_status s = Open \<and> length (cn_answers s) = length (cn_answers previous) + 1 \<and>
        butlast (cn_answers s) = cn_answers previous \<and> cn_conflicts s = cn_conflicts previous \<and> cn_answers s \<noteq> [] \<and>
        ca_actor (last (cn_answers s)) = ce_actor e \<and> ca_answered_at (last (cn_answers s)) = ce_at e \<and>
        ca_predecessor (last (cn_answers s)) = Some expected)))"

definition conflicted_ok :: "clarification_session \<Rightarrow> clarification_event \<Rightarrow> bool res" where
  "conflicted_ok previous e =
     (let s = ce_session e in
      res_bind
        (if cn_conflicts previous \<noteq> [] then Inr (cf_conflicting_ref (last (cn_conflicts previous)))
         else res_bind (last_item (cn_answers previous)) (\<lambda>a. Inr (ca_evidence_ref a))) (\<lambda>expected.
      Inr (cn_status previous = Open \<and> cn_status s = Open \<and> cn_answers s = cn_answers previous \<and>
        length (cn_conflicts s) = length (cn_conflicts previous) + 1 \<and> butlast (cn_conflicts s) = cn_conflicts previous \<and>
        cn_conflicts s \<noteq> [] \<and> cf_actor (last (cn_conflicts s)) = ce_actor e \<and>
        cf_observed_at (last (cn_conflicts s)) = ce_at e \<and> cf_predecessor (last (cn_conflicts s)) = expected \<and>
        (case find (\<lambda>a. ca_question_id a = cf_question_id (last (cn_conflicts s))) (cn_answers previous) of
           None \<Rightarrow> False
         | Some accepted \<Rightarrow> cf_original_ref (last (cn_conflicts s)) = ca_evidence_ref accepted))))"

definition proposed_ok :: "clarification_session \<Rightarrow> clarification_event \<Rightarrow> bool" where
  "proposed_ok previous e \<longleftrightarrow>
     (let s = ce_session e in
      cn_status previous = Open \<and> cn_status s = Proposed \<and> cn_answers s = cn_answers previous \<and> cn_conflicts s = [] \<and>
      set (map cq_id (filter cq_required (cn_questions s))) \<subseteq> set (map ca_question_id (cn_answers s)) \<and>
      ce_proposal_id e \<noteq> None \<and> cn_answers s \<noteq> [] \<and> ce_actor e = ca_actor (last (cn_answers s)))"

definition closed_ok :: "clarification_session \<Rightarrow> clarification_event \<Rightarrow> bool" where
  "closed_ok previous e \<longleftrightarrow>
     (let s = ce_session e in
      cn_status previous = Proposed \<and> cn_status s = Closed \<and> cn_answers s = cn_answers previous \<and>
      cn_conflicts s = cn_conflicts previous \<and> ce_proposal_id e \<noteq> None \<and> ce_decision_id e \<noteq> None \<and> ce_activation e \<noteq> None)"

definition valid_clarification_transition ::
  "dumpers \<Rightarrow> clarification_session option \<Rightarrow> clarification_event \<Rightarrow> clarification_event option \<Rightarrow> bool res" where
  "valid_clarification_transition dm previous e previous_event =
     (case previous of
        None \<Rightarrow> Inr (opens e previous_event)
      | Some s \<Rightarrow>
          (case previous_event of
             None \<Rightarrow> Inr False
           | Some before \<Rightarrow>
               if ce_predecessor e \<noteq> cn_latest_event_id s \<or> ce_at e < ce_at before \<or> \<not> same_frame dm s (ce_session e) \<or>
                  ce_at e < cn_opened_at s
               then Inr False
               else
                 (case ce_event_type e of
                    Opened \<Rightarrow> Inr False
                  | Answered \<Rightarrow> answered_ok s e
                  | Conflicted \<Rightarrow> conflicted_ok s e
                  | Proposed_Event \<Rightarrow> Inr (proposed_ok s e)
                  | Closed_Event \<Rightarrow> Inr (closed_ok s e))))"

section \<open>Decoding\<close>

record ledger_state =
  ls_proposals :: "intent_proposal dict"
  ls_decisions :: "proposal_decision dict"
  ls_events :: "clarification_event list"
  ls_sessions :: "clarification_session dict"
  ls_latest :: "clarification_event dict"
  ls_pending :: "(string \<times> string) option"

definition empty_ledger :: ledger_state where
  "empty_ledger = \<lparr>ls_proposals = [], ls_decisions = [], ls_events = [], ls_sessions = [], ls_latest = [], ls_pending = None\<rparr>"

definition is_governed :: "proposal_decision \<Rightarrow> bool" where
  "is_governed d \<longleftrightarrow> (case pd_version d of Governed_Decision _ \<Rightarrow> True | _ \<Rightarrow> False)"

definition activation_of :: "proposal_decision \<Rightarrow> string option" where
  "activation_of d = (case pd_version d of Governed_Decision g \<Rightarrow> Some (gd_activation_changeset_id g) | _ \<Rightarrow> None)"

text \<open>Between a proposing event and its proposal nothing may stand.\<close>

definition pending_ok :: "(string \<times> string) option \<Rightarrow> intent_payload \<Rightarrow> bool" where
  "pending_ok pending payload \<longleftrightarrow>
     (case pending of
        None \<Rightarrow> True
      | Some (proposal_id, session_id) \<Rightarrow>
          (case payload of
             Proposal_Frame p \<Rightarrow> ip_id p = proposal_id \<and> map_option cb_session_id (ip_clarification p) = Some session_id
           | _ \<Rightarrow> False))"

text \<open>What a closing event claims was decided as it says.\<close>

definition closure_bound :: "ledger_state \<Rightarrow> clarification_event \<Rightarrow> bool" where
  "closure_bound st e \<longleftrightarrow>
     (case ce_proposal_id e of
        None \<Rightarrow> False
      | Some i \<Rightarrow>
          (case (map_of (ls_proposals st) i, map_of (ls_decisions st) i) of
             (Some p, Some d) \<Rightarrow>
               map_option cb_session_id (ip_clarification p) = Some (cn_id (ce_session e)) \<and> is_governed d \<and>
               Some (pd_id d) = ce_decision_id e \<and> pd_actor d = ce_actor e \<and> pd_decided_at d = ce_at e \<and>
               activation_of d = ce_activation e
           | _ \<Rightarrow> False))"

definition add_event :: "dumpers \<Rightarrow> clarification_event \<Rightarrow> ledger_state \<Rightarrow> ledger_state option res" where
  "add_event dm e st =
     (let sid = cn_id (ce_session e) in
      res_bind (valid_clarification_transition dm (map_of (ls_sessions st) sid) e (map_of (ls_latest st) sid)) (\<lambda>valid.
      Inr
        (if \<not> valid \<or> ce_event_type e = Closed_Event \<and> \<not> closure_bound st e then None
         else Some (st\<lparr>ls_events := ls_events st @ [e], ls_sessions := AList.update sid (ce_session e) (ls_sessions st),
           ls_latest := AList.update sid e (ls_latest st),
           ls_pending := (if ce_event_type e = Proposed_Event then map_option (\<lambda>i. (i, sid)) (ce_proposal_id e) else ls_pending st)\<rparr>))))"

definition session_awaits :: "ledger_state \<Rightarrow> intent_proposal \<Rightarrow> clarification_binding \<Rightarrow> bool" where
  "session_awaits st p b \<longleftrightarrow>
     (case (map_of (ls_sessions st) (cb_session_id b), map_of (ls_latest st) (cb_session_id b)) of
        (Some s, Some latest) \<Rightarrow>
          cn_status s = Proposed \<and> cn_task_id s = cb_task_id b \<and> cn_baseline s = ip_baseline p \<and>
          ce_proposal_id latest = Some (ip_id p)
      | _ \<Rightarrow> False)"

definition add_proposal :: "intent_proposal \<Rightarrow> ledger_state \<Rightarrow> ledger_state option" where
  "add_proposal p st =
     (if map_of (ls_proposals st) (ip_id p) \<noteq> None then None
      else
        (case ip_clarification p of
           None \<Rightarrow> Some (st\<lparr>ls_proposals := ls_proposals st @ [(ip_id p, p)]\<rparr>)
         | Some b \<Rightarrow>
             if session_awaits st p b then Some (st\<lparr>ls_proposals := ls_proposals st @ [(ip_id p, p)], ls_pending := None\<rparr>)
             else None))"

definition add_decision :: "dumpers \<Rightarrow> proposal_decision \<Rightarrow> ledger_state \<Rightarrow> ledger_state option" where
  "add_decision dm d st =
     (case map_of (ls_proposals st) (pd_proposal_id d) of
        None \<Rightarrow> None
      | Some p \<Rightarrow>
          if pd_proposal_digest d \<noteq> proposal_digest dm p \<or> pd_baseline d \<noteq> ip_baseline p \<or>
             map_of (ls_decisions st) (pd_proposal_id d) \<noteq> None
          then None
          else if (case ip_clarification p of None \<Rightarrow> False
            | Some b \<Rightarrow> \<not> is_governed d \<or> map_option cn_status (map_of (ls_sessions st) (cb_session_id b)) \<noteq> Some Proposed)
          then None
          else Some (st\<lparr>ls_decisions := ls_decisions st @ [(pd_proposal_id d, d)]\<rparr>))"

definition add_frame :: "dumpers \<Rightarrow> nat \<Rightarrow> intent_frame \<Rightarrow> ledger_state \<Rightarrow> ledger_state option res" where
  "add_frame dm expected f st =
     (if if_sequence f \<noteq> int expected \<or> \<not> pending_ok (ls_pending st) (if_payload f) then Inr None
      else
        (case if_payload f of
           Event_Frame e \<Rightarrow> add_event dm e st
         | Proposal_Frame p \<Rightarrow> Inr (add_proposal p st)
         | Decision_Frame d \<Rightarrow> Inr (add_decision dm d st)))"

text \<open>One line must be canonical and exactly what its own frame prints.\<close>

definition decode_frame :: "intent_codec \<Rightarrow> string \<Rightarrow> intent_frame option" where
  "decode_frame cd encoded =
     (if encoded = [] \<or> last encoded \<noteq> CHR 0x0A \<or> is_blank encoded then None
      else
        (case loads_strict_object (butlast encoded) of
           Inl _ \<Rightarrow> None
         | Inr payload \<Rightarrow>
             if json_line payload \<noteq> encoded then None
             else
               (case ix_read cd (butlast encoded) of
                  None \<Rightarrow> None | Some f \<Rightarrow> if serialize_frame cd f \<noteq> encoded then None else Some f)))"

fun decode_frames :: "intent_codec \<Rightarrow> nat \<Rightarrow> string list \<Rightarrow> ledger_state \<Rightarrow> ledger_state option res" where
  "decode_frames cd n [] st = Inr (Some st)"
| "decode_frames cd n (line # lines) st =
     (case decode_frame cd line of
        None \<Rightarrow> Inr None
      | Some f \<Rightarrow>
          (case add_frame (ix_dumpers cd) n f st of
             Inl e \<Rightarrow> Inl e
           | Inr None \<Rightarrow> Inr None
           | Inr (Some st') \<Rightarrow> decode_frames cd (Suc n) lines st'))"

text \<open>A decided clarification proposal closes its session with exactly that decision.\<close>

definition decision_closed :: "ledger_state \<Rightarrow> intent_proposal \<Rightarrow> bool" where
  "decision_closed st p \<longleftrightarrow>
     (case (ip_clarification p, map_of (ls_decisions st) (ip_id p)) of
        (Some b, Some d) \<Rightarrow>
          (case (map_of (ls_sessions st) (cb_session_id b), map_of (ls_latest st) (cb_session_id b)) of
             (Some s, Some latest) \<Rightarrow>
               cn_status s = Closed \<and> ce_proposal_id latest = Some (ip_id p) \<and> ce_decision_id latest = Some (pd_id d)
           | _ \<Rightarrow> False)
      | _ \<Rightarrow> True)"

definition ledger_complete :: "ledger_state \<Rightarrow> bool" where
  "ledger_complete st \<longleftrightarrow> ls_pending st = None \<and> (\<forall>p \<in> set (dict_values (ls_proposals st)). decision_closed st p)"

definition decode_ledger :: "intent_codec \<Rightarrow> string option \<Rightarrow> ledger_state option res" where
  "decode_ledger cd content =
     (let t = text_of content in
      if t \<noteq> [] \<and> last t \<noteq> CHR 0x0A then Inr None
      else
        res_bind (decode_frames cd 0 (byte_lines t) empty_ledger) (\<lambda>decoded.
        Inr (case decoded of None \<Rightarrow> None | Some st \<Rightarrow> if ledger_complete st then Some st else None)))"

section \<open>Operations\<close>

definition frame_count :: "string option \<Rightarrow> int" where
  "frame_count content = int (length (byte_lines (text_of content)))"

definition append_frame :: "intent_codec \<Rightarrow> string option \<Rightarrow> intent_payload \<Rightarrow> string option" where
  "append_frame cd content payload =
     append_text content (serialize_frame cd \<lparr>if_sequence = frame_count content, if_payload = payload\<rparr>)"

definition put_proposal :: "intent_codec \<Rightarrow> intent_proposal \<Rightarrow> string option \<Rightarrow> (bool \<times> string option) res" where
  "put_proposal cd p content =
     (case validate_proposal (ix_dumpers cd) p of
        Inl _ \<Rightarrow> Inl IntentProposalStoreError
      | Inr p \<Rightarrow>
          (case decode_ledger cd content of
             Inr (Some st) \<Rightarrow>
               (case map_of (ls_proposals st) (ip_id p) of
                  Some existing \<Rightarrow> if existing = p then Inr (False, content) else Inl IntentProposalStoreError
                | None \<Rightarrow> Inr (True, append_frame cd content (Proposal_Frame p)))
           | _ \<Rightarrow> Inl IntentProposalStoreError))"

definition decide_proposal :: "intent_codec \<Rightarrow> proposal_decision \<Rightarrow> string option \<Rightarrow> (bool \<times> string option) res" where
  "decide_proposal cd d content =
     (case validate_decision (ix_dumpers cd) d of
        Inl _ \<Rightarrow> Inl IntentProposalStoreError
      | Inr d \<Rightarrow>
          (case decode_ledger cd content of
             Inr (Some st) \<Rightarrow>
               (case map_of (ls_proposals st) (pd_proposal_id d) of
                  None \<Rightarrow> Inl IntentProposalStoreError
                | Some p \<Rightarrow>
                    if ip_clarification p \<noteq> None \<or> pd_proposal_digest d \<noteq> proposal_digest (ix_dumpers cd) p \<or>
                       pd_baseline d \<noteq> ip_baseline p
                    then Inl IntentProposalStoreError
                    else
                      (case map_of (ls_decisions st) (pd_proposal_id d) of
                         Some existing \<Rightarrow> if existing = d then Inr (False, content) else Inl IntentProposalStoreError
                       | None \<Rightarrow> Inr (True, append_frame cd content (Decision_Frame d))))
           | _ \<Rightarrow> Inl IntentProposalStoreError))"

definition append_clarification :: "intent_codec \<Rightarrow> clarification_event \<Rightarrow> string option \<Rightarrow> (bool \<times> string option) res" where
  "append_clarification cd e content =
     (let dm = ix_dumpers cd; sid = cn_id (ce_session e) in
      case validate_event dm e of
        Inl _ \<Rightarrow> Inl IntentProposalStoreError
      | Inr e \<Rightarrow>
          (case decode_ledger cd content of
             Inr (Some st) \<Rightarrow>
               (case filter (\<lambda>x. ce_id x = ce_id e) (ls_events st) of
                  [] \<Rightarrow>
                    (case valid_clarification_transition dm (map_of (ls_sessions st) sid) e
                        (find (\<lambda>x. cn_id (ce_session x) = sid) (rev (ls_events st))) of
                       Inr True \<Rightarrow> Inr (True, append_frame cd content (Event_Frame e))
                     | _ \<Rightarrow> Inl IntentProposalStoreError)
                | existing \<Rightarrow> if existing = [e] then Inr (False, content) else Inl IntentProposalStoreError)
           | _ \<Rightarrow> Inl IntentProposalStoreError))"

definition clarification_events :: "intent_codec \<Rightarrow> string option \<Rightarrow> string option \<Rightarrow> clarification_event list res" where
  "clarification_events cd session_id content =
     res_bind (decode_ledger cd content) (\<lambda>decoded.
       case decoded of
         None \<Rightarrow> Inl IntentProposalStoreError
       | Some st \<Rightarrow>
           Inr (case session_id of None \<Rightarrow> ls_events st | Some i \<Rightarrow> filter (\<lambda>e. cn_id (ce_session e) = i) (ls_events st)))"

definition get_session :: "intent_codec \<Rightarrow> string \<Rightarrow> string option \<Rightarrow> clarification_session res" where
  "get_session cd session_id content =
     res_bind (decode_ledger cd content) (\<lambda>decoded.
       case decoded of
         None \<Rightarrow> Inl IntentProposalStoreError
       | Some st \<Rightarrow> (case map_of (ls_sessions st) session_id of None \<Rightarrow> Inl IntentProposalStoreError | Some s \<Rightarrow> Inr s))"

definition get_proposal :: "intent_codec \<Rightarrow> string \<Rightarrow> string option \<Rightarrow> intent_proposal res" where
  "get_proposal cd i content =
     (case decode_ledger cd content of
        Inr (Some st) \<Rightarrow> (case map_of (ls_proposals st) i of None \<Rightarrow> Inl IntentProposalStoreError | Some p \<Rightarrow> Inr p)
      | _ \<Rightarrow> Inl IntentProposalStoreError)"

definition list_proposals :: "intent_codec \<Rightarrow> string option \<Rightarrow> intent_proposal list res" where
  "list_proposals cd content =
     (case decode_ledger cd content of
        Inr (Some st) \<Rightarrow> Inr (dict_values (ls_proposals st)) | _ \<Rightarrow> Inl IntentProposalStoreError)"

definition decision_for :: "intent_codec \<Rightarrow> string \<Rightarrow> string option \<Rightarrow> proposal_decision option res" where
  "decision_for cd i content =
     (case decode_ledger cd content of
        Inr (Some st) \<Rightarrow>
          if map_of (ls_proposals st) i = None then Inl IntentProposalStoreError else Inr (map_of (ls_decisions st) i)
      | _ \<Rightarrow> Inl IntentProposalStoreError)"

definition ledger_bytes :: "intent_codec \<Rightarrow> string option \<Rightarrow> string res" where
  "ledger_bytes cd content =
     (case decode_ledger cd content of Inr (Some st) \<Rightarrow> Inr (text_of content) | _ \<Rightarrow> Inl IntentProposalStoreError)"

section \<open>Appending a frame\<close>

text \<open>A frame that the file gives back: one line, read as what it prints.\<close>

definition storable_frame :: "intent_codec \<Rightarrow> intent_frame \<Rightarrow> bool" where
  "storable_frame cd f \<longleftrightarrow>
     decode_frame cd (serialize_frame cd f) = Some f \<and> byte_lines (serialize_frame cd f) = [serialize_frame cd f]"

lemma serialize_frame_line: "complete_lines (serialize_frame cd f)" "serialize_frame cd f \<noteq> []"
  by (simp_all add: serialize_frame_def Let_def) (simp add: json_line_def)

lemma decode_frames_append:
  "decode_frames cd n (xs @ ys) st =
     (case decode_frames cd n xs st of Inr (Some st') \<Rightarrow> decode_frames cd (n + length xs) ys st' | r \<Rightarrow> r)"
  by (induction xs arbitrary: n st) (auto split: option.split sum.split)

lemma decode_ledger_Some:
  "decode_ledger cd content = Inr (Some st) \<longleftrightarrow>
     complete_lines (text_of content) \<and> decode_frames cd 0 (byte_lines (text_of content)) empty_ledger = Inr (Some st) \<and>
     ledger_complete st"
  by (auto simp: decode_ledger_def Let_def complete_lines_def res_bind_Inr_iff split: option.splits if_splits)

lemma decode_append_line:
  assumes "decode_ledger cd content = Inr (Some st)"
    and "storable_frame cd \<lparr>if_sequence = frame_count content, if_payload = payload\<rparr>"
  shows "decode_ledger cd (append_frame cd content payload) =
    res_bind (add_frame (ix_dumpers cd) (length (byte_lines (text_of content)))
      \<lparr>if_sequence = frame_count content, if_payload = payload\<rparr> st) (\<lambda>decoded.
    Inr (case decoded of None \<Rightarrow> None | Some st' \<Rightarrow> if ledger_complete st' then Some st' else None))"
proof -
  let ?f = "\<lparr>if_sequence = frame_count content, if_payload = payload\<rparr>" and ?n = "length (byte_lines (text_of content))"
  have old: "complete_lines (text_of content)" "decode_frames cd 0 (byte_lines (text_of content)) empty_ledger = Inr (Some st)"
    using assms(1) by (simp_all add: decode_ledger_Some)
  have line: "byte_lines (serialize_frame cd ?f) = [serialize_frame cd ?f]" "decode_frame cd (serialize_frame cd ?f) = Some ?f"
    using assms(2) by (simp_all add: storable_frame_def)
  have t: "text_of (append_frame cd content payload) = text_of content @ serialize_frame cd ?f"
    by (simp add: append_frame_def)
  have "complete_lines (text_of content @ serialize_frame cd ?f)" using old(1) serialize_frame_line(1) by simp
  moreover have "decode_frames cd 0 (byte_lines (text_of content @ serialize_frame cd ?f)) empty_ledger =
      (case add_frame (ix_dumpers cd) ?n ?f st of Inl e \<Rightarrow> Inl e | Inr x \<Rightarrow> Inr x)"
    using old line by (simp add: byte_lines_append decode_frames_append split: sum.split option.split)
  ultimately show ?thesis
    by (auto simp: decode_ledger_def Let_def t complete_lines_def res_bind_def split: sum.split)
qed

section \<open>Sessions\<close>

definition session_events :: "string \<Rightarrow> clarification_event list \<Rightarrow> clarification_event list" where
  "session_events sid es = filter (\<lambda>e. cn_id (ce_session e) = sid) es"

text \<open>The events of one session: the first opens it, each is a valid transition from the one before.\<close>

definition event_chain :: "dumpers \<Rightarrow> clarification_event list \<Rightarrow> bool" where
  "event_chain dm es \<longleftrightarrow>
     (\<forall>i < length es.
        if i = 0 then opens (es ! 0) None
        else valid_clarification_transition dm (Some (ce_session (es ! (i - 1)))) (es ! i) (Some (es ! (i - 1))) = Inr True)"

lemma event_chain_Nil [simp]: "event_chain dm []"
  by (simp add: event_chain_def)

lemma event_chain_snoc:
  "event_chain dm (es @ [e]) \<longleftrightarrow> event_chain dm es \<and>
     (if es = [] then opens e None
      else valid_clarification_transition dm (Some (ce_session (last es))) e (Some (last es)) = Inr True)"
proof (cases "es = []")
  case False
  have "(es @ [e]) ! i = es ! i" "(es @ [e]) ! (i - 1) = es ! (i - 1)" if "i < length es" for i
    using that by (simp_all add: nth_append less_imp_diff_less)
  moreover have "(es @ [e]) ! (length es - 1) = last es" using False by (simp add: nth_append last_conv_nth)
  ultimately show ?thesis
    using False by (auto simp: event_chain_def less_Suc_eq nth_append)
qed (simp add: event_chain_def)

definition last_event :: "string \<Rightarrow> ledger_state \<Rightarrow> clarification_event option" where
  "last_event sid st =
     (let es = session_events sid (ls_events st) in if es = [] then None else Some (last es))"

text \<open>The state is what the events say.\<close>

definition sessions_ok :: "dumpers \<Rightarrow> ledger_state \<Rightarrow> bool" where
  "sessions_ok dm st \<longleftrightarrow>
     (\<forall>sid. event_chain dm (session_events sid (ls_events st)) \<and> map_of (ls_latest st) sid = last_event sid st \<and>
       map_of (ls_sessions st) sid = map_option ce_session (last_event sid st))"

lemma valid_transition_None:
  "valid_clarification_transition dm None e before = Inr True \<longleftrightarrow> opens e before"
  by (simp add: valid_clarification_transition_def)

lemma sessions_ok_add:
  assumes ok: "sessions_ok dm st" and add: "add_event dm e st = Inr (Some st')"
  shows "sessions_ok dm st'" "valid_clarification_transition dm (map_option ce_session (last_event (cn_id (ce_session e)) st)) e
      (last_event (cn_id (ce_session e)) st) = Inr True"
    "last_event (cn_id (ce_session e)) st' = Some e"
    "sid \<noteq> cn_id (ce_session e) \<Longrightarrow> last_event sid st' = last_event sid st"
proof -
  let ?sid = "cn_id (ce_session e)"
  from add ok have valid: "valid_clarification_transition dm (map_option ce_session (last_event ?sid st)) e (last_event ?sid st) = Inr True"
    and st': "ls_events st' = ls_events st @ [e]" "ls_sessions st' = AList.update ?sid (ce_session e) (ls_sessions st)"
      "ls_latest st' = AList.update ?sid e (ls_latest st)"
    by (auto simp: add_event_def Let_def res_bind_Inr_iff sessions_ok_def split: if_splits)
  show "valid_clarification_transition dm (map_option ce_session (last_event ?sid st)) e (last_event ?sid st) = Inr True"
    by (rule valid)
  show new: "last_event ?sid st' = Some e" by (simp add: last_event_def session_events_def st')
  show old: "last_event sid st' = last_event sid st" if "sid \<noteq> ?sid" for sid
    using that by (simp add: last_event_def session_events_def st')
  have chain: "event_chain dm (session_events ?sid (ls_events st'))"
    using valid ok valid_transition_None
    by (auto simp: st' session_events_def event_chain_snoc last_event_def sessions_ok_def Let_def split: if_splits)
  show "sessions_ok dm st'"
    unfolding sessions_ok_def
  proof (intro allI conjI)
    fix k
    show "event_chain dm (session_events k (ls_events st'))"
      using chain ok by (cases "k = ?sid") (auto simp: st' session_events_def sessions_ok_def)
    show "map_of (ls_latest st') k = last_event k st'" "map_of (ls_sessions st') k = map_option ce_session (last_event k st')"
      using new old [of k] ok by (cases "k = ?sid"; simp add: st' update_conv' sessions_ok_def)+
  qed
qed

text \<open>What a transition can do to a session.\<close>

lemma answered_ok_True: "answered_ok s e = Inr True \<Longrightarrow>
    cn_status s = Open \<and> cn_status (ce_session e) = Open \<and> cn_conflicts (ce_session e) = cn_conflicts s \<and>
    (\<exists>a. cn_answers (ce_session e) = cn_answers s @ [a] \<and> ca_actor a = ce_actor e \<and> ca_answered_at a = ce_at e)"
  unfolding answered_ok_def Let_def res_bind_Inr_iff sum.inject
  by (elim exE conjE) (use append_butlast_last_id [of "cn_answers (ce_session e)"] in metis)

lemma conflicted_ok_True: "conflicted_ok s e = Inr True \<Longrightarrow>
    cn_status s = Open \<and> cn_status (ce_session e) = Open \<and> cn_answers (ce_session e) = cn_answers s \<and>
    (\<exists>f. cn_conflicts (ce_session e) = cn_conflicts s @ [f] \<and> cf_actor f = ce_actor e \<and> cf_observed_at f = ce_at e)"
  unfolding conflicted_ok_def Let_def res_bind_Inr_iff sum.inject
  by (elim exE conjE) (use append_butlast_last_id [of "cn_conflicts (ce_session e)"] in metis)

lemma valid_transition_Some:
  assumes "valid_clarification_transition dm (Some s) e (Some before) = Inr True"
  shows "same_frame dm s (ce_session e)" "ce_predecessor e = cn_latest_event_id s" "ce_at before \<le> ce_at e"
    and "(ce_event_type e = Answered \<and> answered_ok s e = Inr True) \<or> (ce_event_type e = Conflicted \<and> conflicted_ok s e = Inr True) \<or>
      (ce_event_type e = Proposed_Event \<and> proposed_ok s e) \<or> (ce_event_type e = Closed_Event \<and> closed_ok s e)"
proof -
  have *: "same_frame dm s (ce_session e) \<and> ce_predecessor e = cn_latest_event_id s \<and> ce_at before \<le> ce_at e \<and>
     (case ce_event_type e of Opened \<Rightarrow> Inr False | Answered \<Rightarrow> answered_ok s e | Conflicted \<Rightarrow> conflicted_ok s e
      | Proposed_Event \<Rightarrow> Inr (proposed_ok s e) | Closed_Event \<Rightarrow> Inr (closed_ok s e)) = Inr True"
    using assms unfolding valid_clarification_transition_def by (simp split: if_splits)
  then show "same_frame dm s (ce_session e)" "ce_predecessor e = cn_latest_event_id s" "ce_at before \<le> ce_at e" by blast+
  show "(ce_event_type e = Answered \<and> answered_ok s e = Inr True) \<or> (ce_event_type e = Conflicted \<and> conflicted_ok s e = Inr True) \<or>
      (ce_event_type e = Proposed_Event \<and> proposed_ok s e) \<or> (ce_event_type e = Closed_Event \<and> closed_ok s e)"
    using * by (cases "ce_event_type e") simp_all
qed

lemma question_dump_fields: "question_dump dm q = question_dump dm q' \<Longrightarrow> cq_id q = cq_id q' \<and> cq_required q = cq_required q'"
  unfolding question_dump_def json.inject list.inject prod.inject by blast

lemma question_dump_inject:
  "map (question_dump dm) qs = map (question_dump dm) qs' \<Longrightarrow>
     map (\<lambda>q. (cq_id q, cq_required q)) qs = map (\<lambda>q. (cq_id q, cq_required q)) qs'"
proof (induction qs arbitrary: qs')
  case (Cons q qs)
  then obtain q' rest where qs': "qs' = q' # rest" by (cases qs') auto
  have q: "question_dump dm q = question_dump dm q'" and rest: "map (question_dump dm) qs = map (question_dump dm) rest"
    using Cons.prems by (simp_all add: qs')
  show ?case
    using question_dump_fields [OF q] Cons.IH [OF rest] by (simp add: qs')
qed simp

lemma same_frame_fields:
  assumes "same_frame dm s s'"
  shows "cn_id s = cn_id s'" "cn_task_id s = cn_task_id s'" "cn_baseline s = cn_baseline s'" "cn_opened_by s = cn_opened_by s'"
    "cn_conversation_ref s = cn_conversation_ref s'" "cn_request_evidence_ref s = cn_request_evidence_ref s'"
    "map (\<lambda>q. (cq_id q, cq_required q)) (cn_questions s) = map (\<lambda>q. (cq_id q, cq_required q)) (cn_questions s')"
proof -
  have *: "cn_id s = cn_id s' \<and> cn_task_id s = cn_task_id s' \<and> cn_baseline s = cn_baseline s' \<and> cn_opened_by s = cn_opened_by s' \<and>
    cn_conversation_ref s = cn_conversation_ref s' \<and> cn_request_evidence_ref s = cn_request_evidence_ref s' \<and>
    map (question_dump dm) (cn_questions s) = map (question_dump dm) (cn_questions s')"
    using assms unfolding same_frame_def session_frame_def list.inject prod.inject json.inject by (elim conjE) (intro conjI)
  then show "cn_id s = cn_id s'" "cn_task_id s = cn_task_id s'" "cn_baseline s = cn_baseline s'" "cn_opened_by s = cn_opened_by s'"
    "cn_conversation_ref s = cn_conversation_ref s'" "cn_request_evidence_ref s = cn_request_evidence_ref s'" by blast+
  show "map (\<lambda>q. (cq_id q, cq_required q)) (cn_questions s) = map (\<lambda>q. (cq_id q, cq_required q)) (cn_questions s')"
    by (rule question_dump_inject [of dm]) (use * in blast)
qed

text \<open>Every required question is answered and no answer is contested.\<close>

definition settled :: "clarification_session \<Rightarrow> bool" where
  "settled s \<longleftrightarrow> cn_conflicts s = [] \<and> cn_answers s \<noteq> [] \<and>
     (\<forall>q \<in> set (cn_questions s). cq_required q \<longrightarrow> cq_id q \<in> set (map ca_question_id (cn_answers s)))"

lemma settled_cong:
  assumes "map (\<lambda>q. (cq_id q, cq_required q)) (cn_questions s) = map (\<lambda>q. (cq_id q, cq_required q)) (cn_questions s')"
    "cn_answers s = cn_answers s'" "cn_conflicts s = cn_conflicts s'"
  shows "settled s \<longleftrightarrow> settled s'"
proof -
  have all: "(\<forall>q \<in> set qs. cq_required q \<longrightarrow> P (cq_id q)) \<longleftrightarrow> (\<forall>(i, r) \<in> set (map (\<lambda>q. (cq_id q, cq_required q)) qs). r \<longrightarrow> P i)" for qs P
    by auto
  show ?thesis
    unfolding settled_def all [of _ "\<lambda>i. i \<in> set (map ca_question_id (cn_answers s))"]
      all [of _ "\<lambda>i. i \<in> set (map ca_question_id (cn_answers s'))"] by (simp only: assms)
qed

lemma proposed_settled: "proposed_ok s e \<Longrightarrow> settled (ce_session e)"
  by (auto simp: proposed_ok_def settled_def Let_def)

section \<open>What the ledger keeps\<close>

definition bound_proposal :: "ledger_state \<Rightarrow> intent_proposal \<Rightarrow> clarification_binding \<Rightarrow> bool" where
  "bound_proposal st p b \<longleftrightarrow>
     (\<exists>e. last_event (cb_session_id b) st = Some e \<and> cn_status (ce_session e) \<noteq> Open \<and> ce_proposal_id e = Some (ip_id p) \<and>
       cn_task_id (ce_session e) = cb_task_id b \<and> cn_baseline (ce_session e) = ip_baseline p)"

definition decided_ok :: "dumpers \<Rightarrow> ledger_state \<Rightarrow> proposal_decision \<Rightarrow> bool" where
  "decided_ok dm st d \<longleftrightarrow>
     (\<exists>p. map_of (ls_proposals st) (pd_proposal_id d) = Some p \<and> pd_proposal_digest d = proposal_digest dm p \<and>
       pd_baseline d = ip_baseline p \<and> (ip_clarification p \<noteq> None \<longrightarrow> is_governed d))"

definition governed_ok :: "dumpers \<Rightarrow> ledger_state \<Rightarrow> bool" where
  "governed_ok dm st \<longleftrightarrow> sessions_ok dm st \<and>
     (\<forall>k p. map_of (ls_proposals st) k = Some p \<longrightarrow> ip_id p = k \<and> (\<forall>b. ip_clarification p = Some b \<longrightarrow> bound_proposal st p b)) \<and>
     (\<forall>k d. map_of (ls_decisions st) k = Some d \<longrightarrow> pd_proposal_id d = k \<and> decided_ok dm st d) \<and>
     (\<forall>sid e. last_event sid st = Some e \<longrightarrow> cn_status (ce_session e) \<noteq> Open \<longrightarrow> settled (ce_session e)) \<and>
     (\<forall>sid e. last_event sid st = Some e \<longrightarrow> cn_status (ce_session e) = Closed \<longrightarrow> closure_bound st e)"

lemma governed_ok_empty: "governed_ok dm empty_ledger"
  by (simp add: governed_ok_def sessions_ok_def empty_ledger_def last_event_def session_events_def)

lemma last_event_session: "last_event sid st = Some e \<Longrightarrow> cn_id (ce_session e) = sid"
  using last_in_set [of "session_events sid (ls_events st)"]
  by (auto simp: last_event_def session_events_def Let_def split: if_splits)

lemma last_event_cong: "ls_events st' = ls_events st \<Longrightarrow> last_event sid st' = last_event sid st"
  by (simp add: last_event_def)

lemma closure_bound_mono:
  assumes "closure_bound st e"
    and "\<And>k p. map_of (ls_proposals st) k = Some p \<Longrightarrow> map_of (ls_proposals st') k = Some p"
    and "\<And>k d. map_of (ls_decisions st) k = Some d \<Longrightarrow> map_of (ls_decisions st') k = Some d"
  shows "closure_bound st' e"
  using assms(1) by (auto simp: closure_bound_def dest!: assms(2,3) split: option.splits simp del: map_of_eq_Some_iff)

lemma governed_okD:
  assumes "governed_ok dm st"
  shows "sessions_ok dm st" "map_of (ls_proposals st) k = Some p \<Longrightarrow> ip_id p = k"
    "map_of (ls_proposals st) k = Some p \<Longrightarrow> ip_clarification p = Some b \<Longrightarrow> bound_proposal st p b"
    "map_of (ls_decisions st) k = Some d \<Longrightarrow> pd_proposal_id d = k" "map_of (ls_decisions st) k = Some d \<Longrightarrow> decided_ok dm st d"
    "last_event sid st = Some e \<Longrightarrow> cn_status (ce_session e) \<noteq> Open \<Longrightarrow> settled (ce_session e)"
    "last_event sid st = Some e \<Longrightarrow> cn_status (ce_session e) = Closed \<Longrightarrow> closure_bound st e"
  using assms by (simp_all add: governed_ok_def)

lemma governed_okI:
  assumes "sessions_ok dm st" "\<And>k p. map_of (ls_proposals st) k = Some p \<Longrightarrow> ip_id p = k"
    "\<And>k p b. map_of (ls_proposals st) k = Some p \<Longrightarrow> ip_clarification p = Some b \<Longrightarrow> bound_proposal st p b"
    "\<And>k d. map_of (ls_decisions st) k = Some d \<Longrightarrow> pd_proposal_id d = k"
    "\<And>k d. map_of (ls_decisions st) k = Some d \<Longrightarrow> decided_ok dm st d"
    "\<And>sid e. last_event sid st = Some e \<Longrightarrow> cn_status (ce_session e) \<noteq> Open \<Longrightarrow> settled (ce_session e)"
    "\<And>sid e. last_event sid st = Some e \<Longrightarrow> cn_status (ce_session e) = Closed \<Longrightarrow> closure_bound st e"
  shows "governed_ok dm st"
  using assms by (simp add: governed_ok_def)

lemma decided_ok_mono:
  "decided_ok dm st d \<Longrightarrow> (\<And>k p. map_of (ls_proposals st) k = Some p \<Longrightarrow> map_of (ls_proposals st') k = Some p) \<Longrightarrow> decided_ok dm st' d"
  unfolding decided_ok_def by blast

lemma bound_proposal_cong: "ls_events st' = ls_events st \<Longrightarrow> bound_proposal st' p b \<longleftrightarrow> bound_proposal st p b"
  by (simp add: bound_proposal_def last_event_def)

lemma sessions_ok_cong:
  "ls_events st' = ls_events st \<Longrightarrow> ls_sessions st' = ls_sessions st \<Longrightarrow> ls_latest st' = ls_latest st \<Longrightarrow>
     sessions_ok dm st' \<longleftrightarrow> sessions_ok dm st"
  by (simp add: sessions_ok_def last_event_def)

lemma governed_ok_proposal:
  assumes ok: "governed_ok dm st" and add: "add_proposal p st = Some st'"
  shows "governed_ok dm st'"
proof -
  have new: "map_of (ls_proposals st) (ip_id p) = None" "ls_proposals st' = ls_proposals st @ [(ip_id p, p)]"
    and same: "ls_events st' = ls_events st" "ls_decisions st' = ls_decisions st" "ls_sessions st' = ls_sessions st"
      "ls_latest st' = ls_latest st"
    and awaits: "\<And>b. ip_clarification p = Some b \<Longrightarrow> session_awaits st p b"
    using add by (auto simp: add_proposal_def split: option.splits if_splits)
  note last = last_event_cong [OF same(1)]
  have grow: "map_of (ls_proposals st') k = (if k = ip_id p then Some p else map_of (ls_proposals st) k)" for k
    using new(1) by (auto simp: new(2) map_add_def split: option.split)
  have mono: "map_of (ls_proposals st') k = Some q" if "map_of (ls_proposals st) k = Some q" for k q
    using that grow new(1) by auto
  show ?thesis
  proof (rule governed_okI)
    show "sessions_ok dm st'" using governed_okD(1) [OF ok] sessions_ok_cong [OF same(1,3,4)] by simp
    show "ip_id q = k" if "map_of (ls_proposals st') k = Some q" for k q
      using that governed_okD(2) [OF ok] by (cases "k = ip_id p") (simp_all add: grow)
    show "bound_proposal st' q b" if "map_of (ls_proposals st') k = Some q" "ip_clarification q = Some b" for k q b
    proof (cases "k = ip_id p")
      case True
      then have "session_awaits st p b" "q = p" using that awaits by (simp_all add: grow)
      then show ?thesis
        using governed_okD(1) [OF ok] unfolding bound_proposal_cong [OF same(1)]
        by (auto simp: session_awaits_def bound_proposal_def sessions_ok_def split: option.splits)
    next
      case False
      with that governed_okD(3) [OF ok] show ?thesis by (simp add: grow bound_proposal_cong [OF same(1)])
    qed
    show "pd_proposal_id d = k" if "map_of (ls_decisions st') k = Some d" for k d
      using that governed_okD(4) [OF ok] by (simp only: same)
    show "decided_ok dm st' d" if "map_of (ls_decisions st') k = Some d" for k d
      using decided_ok_mono [OF governed_okD(5) [OF ok] mono] that by (simp only: same)
    show "settled (ce_session e)" if "last_event sid st' = Some e" "cn_status (ce_session e) \<noteq> Open" for sid e
      using that governed_okD(6) [OF ok] by (simp only: last)
    show "closure_bound st' e" if "last_event sid st' = Some e" "cn_status (ce_session e) = Closed" for sid e
    proof (rule closure_bound_mono [OF _ mono])
      show "closure_bound st e" using that governed_okD(7) [OF ok] by (simp only: last)
    qed (simp_all only: same)
  qed
qed

lemma governed_ok_decision:
  assumes ok: "governed_ok dm st" and add: "add_decision dm d st = Some st'"
  shows "governed_ok dm st'"
proof -
  have new: "map_of (ls_decisions st) (pd_proposal_id d) = None" "ls_decisions st' = ls_decisions st @ [(pd_proposal_id d, d)]"
    and same: "ls_events st' = ls_events st" "ls_proposals st' = ls_proposals st" "ls_sessions st' = ls_sessions st"
      "ls_latest st' = ls_latest st"
    and decided: "decided_ok dm st d"
    using add by (auto simp: add_decision_def decided_ok_def simp del: map_of_eq_Some_iff split: option.splits if_splits)
  note last = last_event_cong [OF same(1)]
  have grow: "map_of (ls_decisions st') k = (if k = pd_proposal_id d then Some d else map_of (ls_decisions st) k)" for k
    using new(1) by (auto simp: new(2) map_add_def split: option.split)
  have mono: "map_of (ls_decisions st') k = Some c" if "map_of (ls_decisions st) k = Some c" for k c
    using that grow new(1) by auto
  have keep: "decided_ok dm st' c" if "decided_ok dm st c" for c
    using that by (simp add: decided_ok_def same)
  show ?thesis
  proof (rule governed_okI)
    show "sessions_ok dm st'" using governed_okD(1) [OF ok] sessions_ok_cong [OF same(1,3,4)] by simp
    show "ip_id q = k" if "map_of (ls_proposals st') k = Some q" for k q
      using that governed_okD(2) [OF ok] by (simp only: same)
    show "bound_proposal st' q b" if "map_of (ls_proposals st') k = Some q" "ip_clarification q = Some b" for k q b
      using that governed_okD(3) [OF ok] by (simp only: same bound_proposal_cong [OF same(1)])
    show "pd_proposal_id c = k" if "map_of (ls_decisions st') k = Some c" for k c
      using that governed_okD(4) [OF ok] by (cases "k = pd_proposal_id d") (simp_all add: grow)
    show "decided_ok dm st' c" if "map_of (ls_decisions st') k = Some c" for k c
      using that governed_okD(5) [OF ok] keep decided by (cases "k = pd_proposal_id d") (simp_all add: grow)
    show "settled (ce_session e)" if "last_event sid st' = Some e" "cn_status (ce_session e) \<noteq> Open" for sid e
      using that governed_okD(6) [OF ok] by (simp only: last)
    show "closure_bound st' e" if "last_event sid st' = Some e" "cn_status (ce_session e) = Closed" for sid e
    proof (rule closure_bound_mono [OF _ _ mono])
      show "closure_bound st e" using that governed_okD(7) [OF ok] by (simp only: last)
    qed (simp_all only: same)
  qed
qed

lemma closure_bound_proposal:
  assumes "closure_bound st e"
  obtains p d where "ce_proposal_id e = Some (the (ce_proposal_id e))" "map_of (ls_proposals st) (the (ce_proposal_id e)) = Some p"
    "map_of (ls_decisions st) (the (ce_proposal_id e)) = Some d" "map_option cb_session_id (ip_clarification p) = Some (cn_id (ce_session e))"
    "is_governed d" "Some (pd_id d) = ce_decision_id e" "pd_actor d = ce_actor e" "pd_decided_at d = ce_at e" "activation_of d = ce_activation e"
  using assms by (auto simp: closure_bound_def simp del: map_of_eq_Some_iff split: option.splits)

text \<open>An event that leaves its session not open.\<close>

lemma event_not_open:
  assumes ok: "governed_ok dm st" and add: "add_event dm e st = Inr (Some st')" and "cn_status (ce_session e) \<noteq> Open"
  obtains before where "last_event (cn_id (ce_session e)) st = Some before" "same_frame dm (ce_session before) (ce_session e)"
    "ce_event_type e = Proposed_Event \<and> proposed_ok (ce_session before) e \<and> cn_status (ce_session e) = Proposed \<or>
     ce_event_type e = Closed_Event \<and> closed_ok (ce_session before) e \<and> cn_status (ce_session e) = Closed \<and> closure_bound st e"
proof -
  note valid = sessions_ok_add(2) [OF governed_okD(1) [OF ok] add]
  from valid assms(3) obtain before where before: "last_event (cn_id (ce_session e)) st = Some before"
    by (cases "last_event (cn_id (ce_session e)) st") (auto simp: valid_transition_None opens_def Let_def)
  note t = valid_transition_Some [of dm "ce_session before" e before] valid [unfolded before option.map]
  have "ce_event_type e = Closed_Event \<Longrightarrow> closure_bound st e"
    using add by (auto simp: add_event_def Let_def res_bind_Inr_iff split: if_splits)
  moreover have "ce_event_type e = Proposed_Event \<and> proposed_ok (ce_session before) e \<or> ce_event_type e = Closed_Event \<and> closed_ok (ce_session before) e"
    using t(4) [OF t(5)] answered_ok_True conflicted_ok_True assms(3) by blast
  ultimately have "ce_event_type e = Proposed_Event \<and> proposed_ok (ce_session before) e \<and> cn_status (ce_session e) = Proposed \<or>
     ce_event_type e = Closed_Event \<and> closed_ok (ce_session before) e \<and> cn_status (ce_session e) = Closed \<and> closure_bound st e"
    by (auto simp: proposed_ok_def closed_ok_def Let_def)
  with that [OF before t(1) [OF t(5)]] show ?thesis by blast
qed

text \<open>After a session is proposed its open events are over.\<close>

lemma event_after_proposal:
  assumes ok: "governed_ok dm st" and add: "add_event dm e st = Inr (Some st')"
    and before: "last_event (cn_id (ce_session e)) st = Some before" "cn_status (ce_session before) \<noteq> Open"
  shows "closed_ok (ce_session before) e \<and> closure_bound st e \<and> same_frame dm (ce_session before) (ce_session e)"
proof -
  note valid = sessions_ok_add(2) [OF governed_okD(1) [OF ok] add, unfolded before(1) option.map]
  note t = valid_transition_Some [OF valid]
  have "ce_event_type e = Closed_Event \<and> closed_ok (ce_session before) e"
    using t(4) answered_ok_True conflicted_ok_True before(2) by (auto simp: proposed_ok_def Let_def)
  moreover from this have "closure_bound st e"
    using add by (auto simp: add_event_def Let_def res_bind_Inr_iff split: if_splits)
  ultimately show ?thesis using t(1) by blast
qed

lemma governed_ok_event:
  assumes ok: "governed_ok dm st" and add: "add_event dm e st = Inr (Some st')"
  shows "governed_ok dm st'"
proof -
  let ?sid = "cn_id (ce_session e)"
  have same: "ls_proposals st' = ls_proposals st" "ls_decisions st' = ls_decisions st"
    using add by (auto simp: add_event_def Let_def res_bind_Inr_iff split: if_splits)
  note sessions = sessions_ok_add [OF governed_okD(1) [OF ok] add]
  have closure: "closure_bound st' x" if "closure_bound st x" for x
    using that by (rule closure_bound_mono) (simp_all only: same)
  show ?thesis
  proof (rule governed_okI)
    show "sessions_ok dm st'" by (rule sessions)
    show "ip_id q = k" if "map_of (ls_proposals st') k = Some q" for k q
      using that governed_okD(2) [OF ok] by (simp only: same)
    show "bound_proposal st' q b" if q: "map_of (ls_proposals st') k = Some q" and b: "ip_clarification q = Some b" for k q b
    proof (cases "cb_session_id b = ?sid")
      case True
      note props = governed_okD(2,3) [OF ok]
      have q0: "map_of (ls_proposals st) k = Some q" using q by (simp only: same)
      obtain before where bf: "last_event ?sid st = Some before" "cn_status (ce_session before) \<noteq> Open"
        "ce_proposal_id before = Some (ip_id q)" "cn_task_id (ce_session before) = cb_task_id b"
        "cn_baseline (ce_session before) = ip_baseline q"
        using props(2) [OF q0 b] True by (auto simp: bound_proposal_def)
      have after: "closed_ok (ce_session before) e" "closure_bound st e" "same_frame dm (ce_session before) (ce_session e)"
        using event_after_proposal [OF ok add bf(1,2)] by simp_all
      obtain p' d' b' where p': "ce_proposal_id e = Some (the (ce_proposal_id e))" "map_of (ls_proposals st) (the (ce_proposal_id e)) = Some p'"
        "ip_clarification p' = Some b'" "cb_session_id b' = ?sid"
        by (rule closure_bound_proposal [OF after(2)]) auto
      have "ce_proposal_id before = Some (ip_id p')" using props(2) [OF p'(2,3)] bf(1) p'(4) by (auto simp: bound_proposal_def)
      then have "ce_proposal_id e = Some (ip_id q)" using props(1) [OF p'(2)] p'(1) bf(3) by simp
      with bf same_frame_fields(2,3) [OF after(3)] after(1) sessions(3) True show ?thesis
        by (auto simp: bound_proposal_def closed_ok_def Let_def)
    next
      case False
      with governed_okD(3) [OF ok] q b sessions(4) [OF False] show ?thesis by (simp only: same bound_proposal_def)
    qed
    show "pd_proposal_id c = k" if "map_of (ls_decisions st') k = Some c" for k c
      using that governed_okD(4) [OF ok] by (simp only: same)
    show "decided_ok dm st' c" if "map_of (ls_decisions st') k = Some c" for k c
      using that governed_okD(5) [OF ok] by (simp only: same decided_ok_def)
    show "settled (ce_session x)" if x: "last_event sid st' = Some x" "cn_status (ce_session x) \<noteq> Open" for sid x
    proof (cases "sid = ?sid")
      case True
      then have "x = e" using x(1) sessions(3) by simp
      with x(2) obtain before where bf: "last_event ?sid st = Some before" "same_frame dm (ce_session before) (ce_session e)"
        "ce_event_type e = Proposed_Event \<and> proposed_ok (ce_session before) e \<and> cn_status (ce_session e) = Proposed \<or>
         ce_event_type e = Closed_Event \<and> closed_ok (ce_session before) e \<and> cn_status (ce_session e) = Closed \<and> closure_bound st e"
        by (auto elim: event_not_open [OF ok add])
      show ?thesis
      proof (cases "ce_event_type e = Proposed_Event")
        case True
        with bf(3) proposed_settled \<open>x = e\<close> show ?thesis by auto
      next
        case False
        with bf(3) have closed: "closed_ok (ce_session before) e" by blast
        then have "settled (ce_session before)"
          using governed_okD(6) [OF ok bf(1)] by (simp add: closed_ok_def Let_def)
        with settled_cong [OF same_frame_fields(7) [OF bf(2)]] closed \<open>x = e\<close> show ?thesis by (simp add: closed_ok_def Let_def)
      qed
    next
      case False
      with x governed_okD(6) [OF ok] sessions(4) [OF False] show ?thesis by simp
    qed
    show "closure_bound st' x" if x: "last_event sid st' = Some x" "cn_status (ce_session x) = Closed" for sid x
    proof (cases "sid = ?sid")
      case True
      then have "x = e" using x(1) sessions(3) by simp
      with x(2) have "cn_status (ce_session e) \<noteq> Open" "cn_status (ce_session e) = Closed" by simp_all
      then have "closure_bound st e" using event_not_open [OF ok add, of "closure_bound st e"] by auto
      with \<open>x = e\<close> closure show ?thesis by simp
    next
      case False
      with x governed_okD(7) [OF ok] sessions(4) [OF False] closure show ?thesis by simp
    qed
  qed
qed

lemma governed_ok_frame: "add_frame dm n f st = Inr (Some st') \<Longrightarrow> governed_ok dm st \<Longrightarrow> governed_ok dm st'"
  by (auto simp: add_frame_def intro: governed_ok_event governed_ok_proposal governed_ok_decision split: if_splits intent_payload.splits)

lemma governed_ok_frames:
  "decode_frames cd n lines st = Inr (Some st') \<Longrightarrow> governed_ok (ix_dumpers cd) st \<Longrightarrow> governed_ok (ix_dumpers cd) st'"
  by (induction lines arbitrary: n st) (auto split: option.splits sum.splits intro: governed_ok_frame)

lemma governed_ok_ledger:
  "decode_ledger cd content = Inr (Some st) \<Longrightarrow> governed_ok (ix_dumpers cd) st \<and> ledger_complete st"
  using governed_ok_frames [OF _ governed_ok_empty] by (auto simp: decode_ledger_Some)

section \<open>Properties\<close>

text \<open>C29: The ledger is governed. In every readable ledger each decision is about a proposal of the ledger, with its
  digest and baseline; each proposal that came out of a clarification belongs to a session of the same task and
  baseline in which every required question is answered and no answer is contested, and no other proposal came
  out of that session; and it is decided exactly if its session is closed.\<close>

theorem ledger_governance:
  assumes "decode_ledger cd content = Inr (Some st)"
  shows "(\<forall>k d. map_of (ls_decisions st) k = Some d \<longrightarrow>
      (\<exists>p. map_of (ls_proposals st) k = Some p \<and> ip_id p = k \<and> pd_proposal_digest d = proposal_digest (ix_dumpers cd) p \<and>
        pd_baseline d = ip_baseline p \<and> (ip_clarification p \<noteq> None \<longrightarrow> is_governed d))) \<and>
    (\<forall>k p b. map_of (ls_proposals st) k = Some p \<longrightarrow> ip_clarification p = Some b \<longrightarrow>
      (\<exists>s. map_of (ls_sessions st) (cb_session_id b) = Some s \<and> settled s \<and> cn_task_id s = cb_task_id b \<and>
        cn_baseline s = ip_baseline p \<and> cn_status s \<noteq> Open \<and>
        (map_of (ls_decisions st) k \<noteq> None \<longleftrightarrow> cn_status s = Closed)) \<and>
      (\<forall>k' p' b'. map_of (ls_proposals st) k' = Some p' \<longrightarrow> ip_clarification p' = Some b' \<longrightarrow>
        cb_session_id b' = cb_session_id b \<longrightarrow> k' = k))"
proof -
  note ok = governed_ok_ledger [OF assms, THEN conjunct1]
  note decided = governed_okD(4,5) [OF ok] and props = governed_okD(2,3) [OF ok]
  have decisions: "\<exists>p. map_of (ls_proposals st) k = Some p \<and> ip_id p = k \<and> pd_proposal_digest d = proposal_digest (ix_dumpers cd) p \<and>
        pd_baseline d = ip_baseline p \<and> (ip_clarification p \<noteq> None \<longrightarrow> is_governed d)" if "map_of (ls_decisions st) k = Some d" for k d
    using decided [OF that] props(1) unfolding decided_ok_def by blast
  have unique: "k' = k" if "map_of (ls_proposals st) k = Some p" "ip_clarification p = Some b"
    "map_of (ls_proposals st) k' = Some p'" "ip_clarification p' = Some b'" "cb_session_id b' = cb_session_id b" for k p b k' p' b'
    using props(2) [OF that(1,2)] props(2) [OF that(3,4)] props(1) [OF that(1)] props(1) [OF that(3)] that(5)
    unfolding bound_proposal_def by auto
  have session: "\<exists>s. map_of (ls_sessions st) (cb_session_id b) = Some s \<and> settled s \<and> cn_task_id s = cb_task_id b \<and>
        cn_baseline s = ip_baseline p \<and> cn_status s \<noteq> Open \<and> (map_of (ls_decisions st) k \<noteq> None \<longleftrightarrow> cn_status s = Closed)"
    if p: "map_of (ls_proposals st) k = Some p" "ip_clarification p = Some b" for k p b
  proof -
    obtain e where e: "last_event (cb_session_id b) st = Some e" "cn_status (ce_session e) \<noteq> Open" "ce_proposal_id e = Some k"
      "cn_task_id (ce_session e) = cb_task_id b" "cn_baseline (ce_session e) = ip_baseline p"
      using props(2) [OF p] props(1) [OF p(1)] by (auto simp: bound_proposal_def)
    have s: "map_of (ls_sessions st) (cb_session_id b) = Some (ce_session e)" "map_of (ls_latest st) (cb_session_id b) = Some e"
      using governed_okD(1) [OF ok] e(1) by (simp_all add: sessions_ok_def)
    have "p \<in> set (dict_values (ls_proposals st))"
      using map_of_SomeD [OF p(1)] unfolding dict_values_def by (force simp: image_iff)
    then have "decision_closed st p" using governed_ok_ledger [OF assms] by (simp add: ledger_complete_def)
    then have "map_of (ls_decisions st) k \<noteq> None \<Longrightarrow> cn_status (ce_session e) = Closed"
      using p s props(1) [OF p(1)] by (auto simp: decision_closed_def)
    moreover have "map_of (ls_decisions st) k \<noteq> None" if "cn_status (ce_session e) = Closed"
      by (rule closure_bound_proposal [OF governed_okD(7) [OF ok e(1) that]]) (simp add: e(3))
    ultimately show ?thesis using s(1) e governed_okD(6) [OF ok e(1,2)] by auto
  qed
  show ?thesis
    by (intro conjI allI impI) (rule decisions session unique; assumption)+
qed

lemma chain_step:
  assumes "event_chain dm es" "Suc i < length es"
  shows "valid_clarification_transition dm (Some (ce_session (es ! i))) (es ! Suc i) (Some (es ! i)) = Inr True"
  using assms by (auto simp: event_chain_def dest: spec [of _ "Suc i"])

fun status_rank :: "session_status \<Rightarrow> nat" where
  "status_rank Open = 0" | "status_rank Proposed = 1" | "status_rank Closed = 2"

definition extends_session :: "clarification_event \<Rightarrow> clarification_event \<Rightarrow> bool" where
  "extends_session e e' \<longleftrightarrow>
     ce_at e \<le> ce_at e' \<and> status_rank (cn_status (ce_session e)) \<le> status_rank (cn_status (ce_session e')) \<and>
     take (length (cn_answers (ce_session e))) (cn_answers (ce_session e')) = cn_answers (ce_session e) \<and>
     (cn_status (ce_session e') = Open \<longrightarrow>
       take (length (cn_conflicts (ce_session e))) (cn_conflicts (ce_session e')) = cn_conflicts (ce_session e))"

lemma take_prefix_trans: "take (length xs) ys = xs \<Longrightarrow> take (length ys) zs = ys \<Longrightarrow> take (length xs) zs = xs"
  by (metis length_take min.absorb_iff2 min.cobounded1 min_def take_take)

lemma extends_session_trans:
  assumes "extends_session e1 e2" "extends_session e2 e3"
  shows "extends_session e1 e3"
proof -
  have "cn_status (ce_session e3) = Open \<Longrightarrow> cn_status (ce_session e2) = Open"
    using assms(2) by (cases "cn_status (ce_session e2)") (auto simp: extends_session_def)
  with assms show ?thesis unfolding extends_session_def using take_prefix_trans by (meson order_trans)
qed

lemma extends_session_step:
  assumes "valid_clarification_transition dm (Some (ce_session e)) e' (Some e) = Inr True"
  shows "extends_session e e'"
  using valid_transition_Some(4) [OF assms] valid_transition_Some(3) [OF assms]
  by (auto simp: extends_session_def proposed_ok_def closed_ok_def Let_def dest!: answered_ok_True conflicted_ok_True)

text \<open>C30: A session only grows. The events of a session in a readable ledger are in order of time; each keeps the
  session's identity, task, conversation and baseline, extends the answers given before, never goes back from
  proposed to open or from closed to proposed, and keeps the contested answers as long as the session is open;
  each names the event before it.\<close>

theorem session_grows:
  assumes "decode_ledger cd content = Inr (Some st)" "es = session_events sid (ls_events st)" "i < j" "j < length es"
  shows "extends_session (es ! i) (es ! j) \<and> cn_id (ce_session (es ! j)) = sid \<and>
    cn_task_id (ce_session (es ! i)) = cn_task_id (ce_session (es ! j)) \<and>
    cn_conversation_ref (ce_session (es ! i)) = cn_conversation_ref (ce_session (es ! j)) \<and>
    cn_baseline (ce_session (es ! i)) = cn_baseline (ce_session (es ! j)) \<and>
    ce_predecessor (es ! Suc i) = cn_latest_event_id (ce_session (es ! i)) \<and> opens (es ! 0) None"
proof -
  have chain: "event_chain (ix_dumpers cd) es"
    using governed_okD(1) [OF governed_ok_ledger [OF assms(1), THEN conjunct1]] assms(2) by (simp add: sessions_ok_def)
  note step = chain_step [OF chain]
  let ?same = "\<lambda>a b. extends_session (es ! a) (es ! b) \<and> cn_task_id (ce_session (es ! a)) = cn_task_id (ce_session (es ! b)) \<and>
    cn_conversation_ref (ce_session (es ! a)) = cn_conversation_ref (ce_session (es ! b)) \<and>
    cn_baseline (ce_session (es ! a)) = cn_baseline (ce_session (es ! b))"
  have one: "?same k (Suc k)" if "Suc k < length es" for k
    using extends_session_step [OF step [OF that]] same_frame_fields(2,3,5) [OF valid_transition_Some(1) [OF step [OF that]]] by blast
  have "?same i (Suc i + n)" if "Suc i + n < length es" for n
    using that
  proof (induction n)
    case 0
    then show ?case using one by simp
  next
    case (Suc n)
    then have IH: "?same i (Suc i + n)" by simp
    have next_one: "?same (Suc i + n) (Suc (Suc i + n))" using one Suc.prems by simp
    from extends_session_trans [OF IH [THEN conjunct1] next_one [THEN conjunct1]] IH next_one show ?case by simp
  qed
  from this [of "j - Suc i"] have "?same i j" using assms(3,4) by simp
  moreover have "cn_id (ce_session (es ! j)) = sid"
    using nth_mem [OF assms(4)] assms(2) by (simp add: session_events_def)
  moreover have "ce_predecessor (es ! Suc i) = cn_latest_event_id (ce_session (es ! i))"
    using valid_transition_Some(2) [OF step] assms(3,4) by simp
  moreover have "opens (es ! 0) None" using chain assms(3,4) by (auto simp: event_chain_def dest: spec [of _ 0])
  ultimately show ?thesis by blast
qed

section \<open>A decided session\<close>

definition frame_fields :: "dumpers \<Rightarrow> intent_frame \<Rightarrow> json dict" where
  "frame_fields dm f =
     [(''schema_version'', JInt 1), (''sequence'', JInt (if_sequence f))] @
     (case if_payload f of
        Proposal_Frame p \<Rightarrow> [(''proposal'', proposal_dump dm p), (''decision'', JNull)]
      | Decision_Frame d \<Rightarrow> [(''proposal'', JNull), (''decision'', decision_dump dm d)]
      | Event_Frame e \<Rightarrow> [(''proposal'', JNull), (''decision'', JNull), (''clarification'', event_dump dm e)])"

lemma serialize_frame_fields: "serialize_frame cd f = json_line (frame_fields (ix_dumpers cd) f)"
  by (simp add: serialize_frame_def frame_fields_def Let_def split: intent_payload.split)

lemma wf_strs [simp]: "wf_json (strs xs)" "wf_json (opt_str x)"
  by (simp_all add: strs_def opt_str_def list_all_iff split: option.split)

lemma wf_session_items:
  "list_all wf_json (map (question_dump dm) qs)" "list_all wf_json (map (answer_dump dm) ans)"
  "list_all wf_json (map (conflict_dump dm) cfs)" "list_all wf_json (map source_role_dump rs)"
  by (simp_all add: list_all_iff question_dump_def answer_dump_def conflict_dump_def source_role_dump_def)

lemma wf_proposal_dump: "wf_json (JObj (dm_changeset dm (ip_changeset p))) \<Longrightarrow> wf_json (proposal_dump dm p)"
  by (cases "ip_clarification p") (simp_all add: proposal_dump_def proposal_material_def wf_session_items)

lemma wf_decision_dump: "wf_json (decision_dump dm d)"
  by (cases "pd_version d") (simp_all add: decision_dump_def decision_material_def)

lemma wf_event_dump: "wf_json (event_dump dm e)"
  by (simp add: event_dump_def event_material_def session_dump_def session_frame_def wf_session_items)

lemma wf_frame_fields: "(\<And>cs. wf_json (JObj (dm_changeset dm cs))) \<Longrightarrow> wf_json (JObj (frame_fields dm f))"
  by (simp add: frame_fields_def wf_proposal_dump wf_decision_dump wf_event_dump del: wf_json.simps(3) split: intent_payload.split)
    (simp add: wf_proposal_dump wf_decision_dump wf_event_dump)

lemma frame_line:
  assumes "wf_json (JObj (frame_fields (ix_dumpers cd) f))"
    and "ix_read cd (dumps False (JObj (frame_fields (ix_dumpers cd) f))) = Some f"
  shows "storable_frame cd f"
proof -
  let ?d = "frame_fields (ix_dumpers cd) f"
  obtain kvs where kvs: "canon (JObj ?d) = JObj kvs" by simp
  have loads: "loads_strict_object (dumps False (JObj ?d)) = Inr kvs" by (rule loads_object_dumps [OF assms(1) kvs])
  have same: "dumps False (JObj kvs) = dumps False (JObj ?d)" using dumps_canon [of False "JObj ?d"] by (simp only: kvs)
  have "byte_lines (json_line ?d) = [json_line ?d]"
    unfolding json_line_def by (rule byte_lines_line [OF no_newline_dumps [OF assms(1)]])
  moreover have "decode_frame cd (json_line ?d) = Some f"
    using loads same assms(2) json_line_not_blank [of ?d]
    unfolding decode_frame_def serialize_frame_fields json_line_def by (simp del: dumps.simps)
  ultimately show ?thesis by (simp add: storable_frame_def serialize_frame_fields)
qed

text \<open>A sample reader: the sequence number of a frame selects it.\<close>

definition reads_frames :: "intent_frame list \<Rightarrow> string \<Rightarrow> intent_frame option" where
  "reads_frames fs line =
     (case loads_strict_object line of
        Inl _ \<Rightarrow> None
      | Inr kvs \<Rightarrow>
          (case map_of kvs ''sequence'' of
             Some (JInt i) \<Rightarrow> if 0 \<le> i \<and> nat i < length fs then Some (fs ! nat i) else None
           | _ \<Rightarrow> None))"

definition numbered :: "intent_payload list \<Rightarrow> intent_frame list" where
  "numbered ps = map (\<lambda>(i, p). \<lparr>if_sequence = int i, if_payload = p\<rparr>) (enumerate 0 ps)"

lemma reads_frames_nth:
  assumes "wf_json (JObj (frame_fields dm f))" "f = numbered ps ! i" "i < length ps"
  shows "reads_frames (numbered ps) (dumps False (JObj (frame_fields dm f))) = Some f"
proof -
  let ?d = "frame_fields dm f"
  obtain kvs where kvs: "canon (JObj ?d) = JObj kvs" by simp
  have "distinct (map fst (map (\<lambda>(k, v). (k, canon v)) ?d))"
    using assms(1) by (simp add: case_prod_beta comp_def)
  then have "map_of kvs ''sequence'' = map_of (map (\<lambda>(k, v). (k, canon v)) ?d) ''sequence''"
    using kvs by (simp add: map_of_sort_key [symmetric])
  also have "\<dots> = Some (JInt (if_sequence f))" by (simp add: frame_fields_def)
  finally have "map_of kvs ''sequence'' = Some (JInt (int i))" using assms(2,3) by (simp add: numbered_def nth_enumerate_eq)
  then show ?thesis
    using loads_object_dumps [OF assms(1) kvs, of False] assms(2,3)
    by (simp add: reads_frames_def numbered_def del: dumps.simps)
qed

fun add_payloads :: "dumpers \<Rightarrow> intent_payload list \<Rightarrow> ledger_state \<Rightarrow> ledger_state option res" where
  "add_payloads dm [] st = Inr (Some st)"
| "add_payloads dm (Event_Frame e # ps) st =
     (if pending_ok (ls_pending st) (Event_Frame e)
      then (case add_event dm e st of Inr (Some st') \<Rightarrow> add_payloads dm ps st' | r \<Rightarrow> r) else Inr None)"
| "add_payloads dm (Proposal_Frame p # ps) st =
     (if pending_ok (ls_pending st) (Proposal_Frame p)
      then (case add_proposal p st of Some st' \<Rightarrow> add_payloads dm ps st' | None \<Rightarrow> Inr None) else Inr None)"
| "add_payloads dm (Decision_Frame d # ps) st =
     (if pending_ok (ls_pending st) (Decision_Frame d)
      then (case add_decision dm d st of Some st' \<Rightarrow> add_payloads dm ps st' | None \<Rightarrow> Inr None) else Inr None)"

lemma decode_numbered:
  "list_all (storable_frame cd) (map (\<lambda>(i, p). \<lparr>if_sequence = int i, if_payload = p\<rparr>) (enumerate n ps)) \<Longrightarrow>
     decode_frames cd n (map (\<lambda>(i, p). serialize_frame cd \<lparr>if_sequence = int i, if_payload = p\<rparr>) (enumerate n ps)) st =
     add_payloads (ix_dumpers cd) ps st"
proof (induction ps arbitrary: n st)
  case (Cons p ps)
  then have "decode_frame cd (serialize_frame cd \<lparr>if_sequence = int n, if_payload = p\<rparr>) = Some \<lparr>if_sequence = int n, if_payload = p\<rparr>"
    by (simp add: storable_frame_def)
  with Cons show ?case by (cases p) (simp_all add: add_frame_def split: sum.split option.split)
qed simp

lemma byte_lines_concat:
  "list_all (\<lambda>l. byte_lines l = [l] \<and> complete_lines l) ls \<Longrightarrow> byte_lines (concat ls) = ls \<and> complete_lines (concat ls)"
  by (induction ls) (simp_all add: byte_lines_append)

definition ledger_of :: "dumpers \<Rightarrow> intent_payload list \<Rightarrow> intent_codec \<times> string option" where
  "ledger_of dm ps =
     (let cd = \<lparr>ix_dumpers = dm, ix_read = reads_frames (numbered ps)\<rparr> in (cd, Some (concat (map (serialize_frame cd) (numbered ps)))))"

lemma decode_ledger_of:
  assumes "\<And>cs. wf_json (JObj (dm_changeset dm cs))" "ledger_of dm ps = (cd, content)"
    and "add_payloads dm ps empty_ledger = Inr (Some st)" "ledger_complete st"
  shows "decode_ledger cd content = Inr (Some st)"
proof -
  have cd: "ix_dumpers cd = dm" "ix_read cd = reads_frames (numbered ps)"
    "content = Some (concat (map (serialize_frame cd) (numbered ps)))"
    using assms(2) by (auto simp: ledger_of_def Let_def)
  have store: "storable_frame cd (numbered ps ! i)" if "i < length ps" for i
    using reads_frames_nth [OF wf_frame_fields [OF assms(1)] refl that] wf_frame_fields [OF assms(1)]
    by (intro frame_line) (simp_all only: cd)
  then have all: "list_all (storable_frame cd) (numbered ps)"
    by (simp add: list_all_length) (simp add: numbered_def)
  then have "list_all (\<lambda>l. byte_lines l = [l] \<and> complete_lines l) (map (serialize_frame cd) (numbered ps))"
    by (simp add: list_all_iff storable_frame_def serialize_frame_line)
  note lines = byte_lines_concat [OF this]
  have frames: "map (serialize_frame cd) (numbered ps) =
      map (\<lambda>(i, p). serialize_frame cd \<lparr>if_sequence = int i, if_payload = p\<rparr>) (enumerate 0 ps)"
    by (auto simp: numbered_def)
  have "decode_frames cd 0 (map (serialize_frame cd) (numbered ps)) empty_ledger = Inr (Some st)"
    unfolding frames by (subst decode_numbered) (use all assms(3) in \<open>simp_all only: numbered_def cd(1)\<close>)
  with lines assms(4) show ?thesis by (simp add: decode_ledger_Some cd(3))
qed

definition sample_dumpers :: dumpers where
  "sample_dumpers = \<lparr>dm_isoformat = int_str, dm_changeset = (\<lambda>_. [])\<rparr>"

definition sample_question :: clarification_question where
  "sample_question = \<lparr>cq_id = ''q1'', cq_prompt_digest = ''h'', cq_evidence_ref = ''ev-q1'', cq_author = ''agent'', cq_asked_at = 1,
     cq_predecessor = Some ''ev-c'', cq_required = True\<rparr>"

definition sample_answer :: clarification_answer where
  "sample_answer = \<lparr>ca_question_id = ''q1'', ca_actor = ''ana'', ca_answered_at = 2, ca_evidence_ref = ''ev-a1'', ca_answer_digest = ''h'',
     ca_predecessor = Some ''ev-q1''\<rparr>"

definition sample_session :: "session_status \<Rightarrow> clarification_answer list \<Rightarrow> string \<Rightarrow> clarification_session" where
  "sample_session status as latest =
     \<lparr>cn_id = ''s1'', cn_task_id = ''t1'', cn_conversation_ref = ''c1'', cn_request_evidence_ref = ''ev-r'',
      cn_classification_evidence_ref = ''ev-c'', cn_opened_by = ''agent'', cn_opened_at = 1, cn_baseline = 4,
      cn_questions = [sample_question], cn_answers = as, cn_conflicts = [], cn_status = status, cn_latest_event_id = Some latest\<rparr>"

definition sample_event ::
  "event_type \<Rightarrow> clarification_session \<Rightarrow> string \<Rightarrow> datetime \<Rightarrow> string option \<Rightarrow> string option \<Rightarrow> string option \<Rightarrow> clarification_event" where
  "sample_event ty s actor t before p d =
     \<lparr>ce_id = the (cn_latest_event_id s), ce_event_type = ty, ce_session = s, ce_actor = actor, ce_at = t, ce_predecessor = before,
      ce_proposal_id = p, ce_decision_id = d, ce_activation = map_option (\<lambda>_. ''cs2'') d\<rparr>"

definition sample_proposal :: intent_proposal where
  "sample_proposal =
     \<lparr>ip_id = ''p1'', ip_kind = Requirement, ip_proposed_by = ''agent'', ip_proposed_at = 3, ip_baseline = 4, ip_evidence_refs = [],
      ip_source_roles = [], ip_changeset =
       \<lparr>cs_id = ''cs1'', cs_actor = ''agent'', cs_timestamp = 3, cs_baseline_graph_version = 4, cs_evidence_refs = [],
        cs_nodes_added = [], cs_nodes_updated = [], cs_nodes_superseded = [], cs_edges_added = [], cs_edges_updated = [],
        cs_edges_superseded = [], cs_confidence_changes = [], cs_implementation_status_changes = [],
        cs_reconciliation_cases_created = [], cs_reconciliation_cases_resolved = [], cs_validation_status = ''valid''\<rparr>,
      ip_core_node_ids = [], ip_provisional_node_ids = [], ip_assumptions = [], ip_unanswered_questions = [],
      ip_conflicting_authors = [], ip_destructive = False,
      ip_clarification = Some \<lparr>cb_session_id = ''s1'', cb_task_id = ''t1''\<rparr>\<rparr>"

definition sample_proposal_decision :: proposal_decision where
  "sample_proposal_decision =
     \<lparr>pd_id = ''d1'', pd_proposal_id = ''p1'', pd_proposal_digest = proposal_digest sample_dumpers sample_proposal, pd_actor = ''ana'',
      pd_actor_aliases = [''ana''], pd_decided_at = 4, pd_action = Confirm, pd_baseline = 4,
      pd_version = Governed_Decision
        \<lparr>gd_selected_node_ids = [], gd_activation_changeset_id = ''cs2'', gd_activation_graph_effect_digest = ''h'',
         gd_review_case_id = None, gd_review_case_preimage_digest = None, gd_proposal_author_aliases = [''agent''],
         gd_conflicting_author_aliases = []\<rparr>\<rparr>"

definition sample_events :: "clarification_event list" where
  "sample_events =
     [sample_event Opened (sample_session Open [] ''e1'') ''agent'' 1 None None None,
      sample_event Answered (sample_session Open [sample_answer] ''e2'') ''ana'' 2 (Some ''e1'') None None,
      sample_event Proposed_Event (sample_session Proposed [sample_answer] ''e3'') ''ana'' 3 (Some ''e2'') (Some ''p1'') None,
      sample_event Closed_Event (sample_session Closed [sample_answer] ''e4'') ''ana'' 4 (Some ''e3'') (Some ''p1'') (Some ''d1'')]"

definition sample_payloads :: "intent_payload list" where
  "sample_payloads =
     map Event_Frame (take 3 sample_events) @ [Proposal_Frame sample_proposal, Decision_Frame sample_proposal_decision] @
     map Event_Frame (drop 3 sample_events)"

definition sample_ledger :: ledger_state where
  "sample_ledger =
     \<lparr>ls_proposals = [(''p1'', sample_proposal)], ls_decisions = [(''p1'', sample_proposal_decision)], ls_events = sample_events,
      ls_sessions = [(''s1'', sample_session Closed [sample_answer] ''e4'')], ls_latest = [(''s1'', sample_events ! 3)],
      ls_pending = None\<rparr>"

lemma sample_same_frame: "same_frame sample_dumpers (sample_session st as l) (sample_session st' as' l')"
  by (simp add: same_frame_def sample_session_def session_frame_def)

lemma sample_session_simps [simp]:
  "cn_id (sample_session st as l) = ''s1''" "cn_status (sample_session st as l) = st" "cn_answers (sample_session st as l) = as"
  "cn_latest_event_id (sample_session st as l) = Some l" "cn_conflicts (sample_session st as l) = []"
  "cn_questions (sample_session st as l) = [sample_question]" "cn_opened_at (sample_session st as l) = 1"
  "cn_opened_by (sample_session st as l) = ''agent''" "cn_task_id (sample_session st as l) = ''t1''"
  "cn_baseline (sample_session st as l) = 4" "cn_classification_evidence_ref (sample_session st as l) = ''ev-c''"
  by (simp_all add: sample_session_def)

lemma sample_question_simps [simp]:
  "cq_id sample_question = ''q1''" "cq_required sample_question" "cq_author sample_question = ''agent''"
  "cq_predecessor sample_question = Some ''ev-c''" "cq_asked_at sample_question = 1" "cq_evidence_ref sample_question = ''ev-q1''"
  by (simp_all add: sample_question_def)

lemma sample_ledger_built: "add_payloads sample_dumpers sample_payloads empty_ledger = Inr (Some sample_ledger)"
  by (simp add: sample_payloads_def sample_events_def sample_ledger_def empty_ledger_def pending_ok_def add_event_def
      valid_clarification_transition_def opens_def sample_event_def sample_same_frame answered_ok_def
      proposed_ok_def closed_ok_def sample_answer_def Let_def last_item_def add_proposal_def add_decision_def session_awaits_def
      sample_proposal_def sample_proposal_decision_def is_governed_def closure_bound_def activation_of_def del: set_filter)

lemma sample_ledger_decodes:
  "\<exists>cd content. ix_dumpers cd = sample_dumpers \<and> decode_ledger cd content = Inr (Some sample_ledger)"
proof -
  obtain cd content where cd: "ledger_of sample_dumpers sample_payloads = (cd, content)" by fastforce
  have "ledger_complete sample_ledger"
    by (simp add: ledger_complete_def dict_values_def sample_ledger_def decision_closed_def sample_proposal_def sample_events_def
        sample_event_def sample_proposal_decision_def)
  moreover have "wf_json (JObj (dm_changeset sample_dumpers cs))" for cs by (simp add: sample_dumpers_def)
  moreover have "ix_dumpers cd = sample_dumpers" using cd by (auto simp: ledger_of_def Let_def)
  ultimately show ?thesis using decode_ledger_of [OF _ cd sample_ledger_built] by blast
qed

theorem ledger_governance_witness:
  "\<exists>cd content st. decode_ledger cd content = Inr (Some st) \<and> st = sample_ledger \<and>
     (\<exists>s. map_of (ls_sessions st) ''s1'' = Some s \<and> settled s \<and> cn_status s = Closed)"
proof -
  obtain cd content where cd: "decode_ledger cd content = Inr (Some sample_ledger)"
    using sample_ledger_decodes by blast
  have p: "map_of (ls_proposals sample_ledger) ''p1'' = Some sample_proposal" "map_of (ls_decisions sample_ledger) ''p1'' \<noteq> None"
    "ip_clarification sample_proposal = Some \<lparr>cb_session_id = ''s1'', cb_task_id = ''t1''\<rparr>"
    by (simp_all add: sample_ledger_def sample_proposal_def)
  from ledger_governance [OF cd, THEN conjunct2, rule_format, OF p(1,3)] p(2) have
    "\<exists>s. map_of (ls_sessions sample_ledger) ''s1'' = Some s \<and> settled s \<and> cn_status s = Closed" by auto
  with cd show ?thesis by blast
qed

theorem session_grows_witness:
  "\<exists>cd content. decode_ledger cd content = Inr (Some sample_ledger) \<and> extends_session (sample_events ! 1) (sample_events ! 3)"
proof -
  obtain cd content where cd: "decode_ledger cd content = Inr (Some sample_ledger)"
    using sample_ledger_decodes by blast
  have es: "sample_events = session_events ''s1'' (ls_events sample_ledger)"
    by (simp add: session_events_def sample_ledger_def sample_events_def sample_event_def)
  have "length sample_events = 4" by (simp add: sample_events_def)
  with session_grows [OF cd es, of 1 3] cd show ?thesis by auto
qed

section \<open>What appending leaves\<close>

lemma find_rev_last: "find P (rev xs) = (if filter P xs = [] then None else Some (last (filter P xs)))"
  by (induction xs rule: rev_induct) simp_all

lemma find_last_event: "find (\<lambda>x. cn_id (ce_session x) = sid) (rev (ls_events st)) = last_event sid st"
  by (simp add: find_rev_last last_event_def session_events_def Let_def)

lemma append_clarification_cases:
  assumes "append_clarification cd e content = Inr (True, content')"
  obtains st where "decode_ledger cd content = Inr (Some st)" "validate_event (ix_dumpers cd) e = Inr e"
    "valid_clarification_transition (ix_dumpers cd) (map_of (ls_sessions st) (cn_id (ce_session e))) e
      (map_of (ls_latest st) (cn_id (ce_session e))) = Inr True"
    "content' = append_frame cd content (Event_Frame e)" "sessions_ok (ix_dumpers cd) st"
proof -
  from assms have e: "validate_event (ix_dumpers cd) e = Inr e"
    by (auto simp: append_clarification_def Let_def validate_event_def split: option.splits)
  from assms obtain st where st: "decode_ledger cd content = Inr (Some st)"
    by (auto simp: append_clarification_def Let_def e split: sum.splits option.splits)
  then have ok: "sessions_ok (ix_dumpers cd) st" using governed_ok_ledger governed_okD(1) by blast
  show ?thesis
    by (rule that [OF st e _ _ ok])
      (use assms st e ok in \<open>auto simp: append_clarification_def Let_def find_last_event sessions_ok_def
        split: list.splits sum.splits bool.splits if_splits\<close>)
qed

lemma complete_pending: "decode_ledger cd content = Inr (Some st) \<Longrightarrow> ls_pending st = None \<and> ledger_complete st"
  by (simp add: decode_ledger_Some ledger_complete_def)

lemma decode_append_frame:
  assumes "decode_ledger cd content = Inr (Some st)"
    and "storable_frame cd \<lparr>if_sequence = frame_count content, if_payload = payload\<rparr>"
  shows "decode_ledger cd (append_frame cd content payload) =
    res_bind (case payload of Event_Frame e \<Rightarrow> add_event (ix_dumpers cd) e st | Proposal_Frame p \<Rightarrow> Inr (add_proposal p st)
      | Decision_Frame d \<Rightarrow> Inr (add_decision (ix_dumpers cd) d st)) (\<lambda>decoded.
    Inr (case decoded of None \<Rightarrow> None | Some st' \<Rightarrow> if ledger_complete st' then Some st' else None))"
  using decode_append_line [OF assms] complete_pending [OF assms(1)]
  by (simp add: add_frame_def pending_ok_def frame_count_def)

lemma open_before:
  assumes "valid_clarification_transition dm (Some s) e before = Inr True" "ce_event_type e \<notin> {Proposed_Event, Closed_Event}"
  shows "cn_status s = Open"
proof -
  from assms(1) obtain x where x: "before = Some x"
    by (cases before) (auto simp: valid_clarification_transition_def)
  from valid_transition_Some(4) [OF assms(1) [unfolded x]] assms(2) show ?thesis
    by (auto dest!: answered_ok_True conflicted_ok_True)
qed

lemma decision_closedD:
  assumes "decision_closed st p" "ip_clarification p = Some b" "map_of (ls_decisions st) (ip_id p) = Some d"
  shows "\<exists>s. map_of (ls_sessions st) (cb_session_id b) = Some s \<and> cn_status s = Closed"
  using assms by (cases "map_of (ls_sessions st) (cb_session_id b)"; cases "map_of (ls_latest st) (cb_session_id b)")
    (simp_all add: decision_closed_def del: map_of_eq_Some_iff)

lemma decision_closed_cong:
  assumes "ls_decisions st' = ls_decisions st"
    and "\<And>b. ip_clarification p = Some b \<Longrightarrow> map_of (ls_sessions st') (cb_session_id b) = map_of (ls_sessions st) (cb_session_id b) \<and>
      map_of (ls_latest st') (cb_session_id b) = map_of (ls_latest st) (cb_session_id b)"
  shows "decision_closed st' p \<longleftrightarrow> decision_closed st p"
proof (cases "ip_clarification p")
  case (Some b)
  show ?thesis
    using assms(2) [OF Some] by (cases "map_of (ls_decisions st) (ip_id p)") (simp_all add: decision_closed_def Some assms(1))
qed (simp add: decision_closed_def)

lemma ledger_complete_event:
  assumes "ledger_complete st" "ls_proposals st' = ls_proposals st" "ls_decisions st' = ls_decisions st" "ls_pending st' = None"
    and others: "\<And>k. k \<noteq> sid \<Longrightarrow> map_of (ls_sessions st') k = map_of (ls_sessions st) k \<and> map_of (ls_latest st') k = map_of (ls_latest st) k"
    and opened: "\<And>s. map_of (ls_sessions st) sid = Some s \<Longrightarrow> cn_status s = Open"
  shows "ledger_complete st'"
proof -
  have "decision_closed st' p" if p: "p \<in> set (dict_values (ls_proposals st))" for p
  proof (cases "map_option cb_session_id (ip_clarification p) = Some sid")
    case True
    then obtain b where b: "ip_clarification p = Some b" "cb_session_id b = sid" by auto
    have closed: "decision_closed st p" using p assms(1) by (simp add: ledger_complete_def)
    have "map_of (ls_decisions st) (ip_id p) = None"
    proof (cases "map_of (ls_decisions st) (ip_id p)")
      case (Some d)
      from decision_closedD [OF closed b(1) Some] opened b(2) show ?thesis by auto
    qed
    then show ?thesis by (simp add: decision_closed_def assms(3) split: option.split)
  next
    case False
    have "decision_closed st' p \<longleftrightarrow> decision_closed st p"
      by (rule decision_closed_cong [OF assms(3) others]) (use False in auto)
    then show ?thesis using p assms(1) by (simp add: ledger_complete_def)
  qed
  then show ?thesis using assms(2,4) by (simp add: ledger_complete_def)
qed

lemma closing_unbound:
  assumes "ledger_complete st" "governed_ok dm st" "map_of (ls_sessions st) (cn_id (ce_session e)) = Some s" "cn_status s = Proposed"
  shows "\<not> closure_bound st e"
proof
  assume "closure_bound st e"
  then obtain i p d b where i: "map_of (ls_proposals st) i = Some p" "map_of (ls_decisions st) i = Some d"
    "ip_clarification p = Some b" "cb_session_id b = cn_id (ce_session e)"
    by (auto simp: closure_bound_def simp del: map_of_eq_Some_iff split: option.splits)
  from i(1) have "ip_id p = i" by (rule governed_okD(2) [OF assms(2)])
  moreover have "p \<in> set (dict_values (ls_proposals st))"
    using map_of_SomeD [OF i(1)] unfolding dict_values_def by (force simp: image_iff)
  then have "decision_closed st p" using assms(1) by (simp add: ledger_complete_def)
  from decision_closedD [OF this i(3)] have "map_of (ls_decisions st) (ip_id p) = Some d \<Longrightarrow> cn_status s = Closed"
    using assms(3) i(4) by auto
  ultimately show False using i(2) assms(4) by simp
qed

lemma closing_event:
  assumes "valid_clarification_transition dm s e before = Inr True" "ce_event_type e = Closed_Event"
  shows "\<exists>s'. s = Some s' \<and> cn_status s' = Proposed"
proof -
  from assms obtain s' x where x: "s = Some s'" "before = Some x"
    by (cases s; cases before) (auto simp: valid_clarification_transition_def opens_def Let_def)
  from valid_transition_Some(4) [OF assms(1) [unfolded x]] assms(2) x(1) show ?thesis by (simp add: closed_ok_def Let_def)
qed

lemma validate_event_binds: "validate_event dm e = Inr e' \<Longrightarrow> event_binds e"
  by (auto simp: validate_event_def event_error_def first_error_def when_error_def split: if_splits option.splits)

text \<open>C31: Which events may be appended one at a time. An event that opens a session, answers a question or records a
  conflict leaves a readable ledger whose session is the event's. The store also accepts a proposing and a closing
  event on their own, and the ledger cannot be read any more: the first must be followed by its proposal and the
  second needs the decision that the ledger may hold only with it.\<close>

theorem appended_event_readable:
  assumes "append_clarification cd e content = Inr (True, content')"
    and "storable_frame cd \<lparr>if_sequence = frame_count content, if_payload = Event_Frame e\<rparr>"
  shows "(decode_ledger cd content' \<noteq> Inr None \<longleftrightarrow> ce_event_type e \<notin> {Proposed_Event, Closed_Event}) \<and>
    get_session cd (cn_id (ce_session e)) content' =
      (if ce_event_type e \<in> {Proposed_Event, Closed_Event} then Inl IntentProposalStoreError else Inr (ce_session e))"
proof -
  let ?sid = "cn_id (ce_session e)" and ?dm = "ix_dumpers cd"
  obtain st where st: "decode_ledger cd content = Inr (Some st)" and e: "validate_event ?dm e = Inr e"
    and valid: "valid_clarification_transition ?dm (map_of (ls_sessions st) ?sid) e (map_of (ls_latest st) ?sid) = Inr True"
    and content': "content' = append_frame cd content (Event_Frame e)"
    by (rule append_clarification_cases [OF assms(1)])
  have complete: "ls_pending st = None" "ledger_complete st" using complete_pending [OF st] by simp_all
  have ok: "governed_ok ?dm st" using governed_ok_ledger [OF st] by simp
  note decode = decode_append_frame [OF st assms(2), folded content', simplified]
  show ?thesis
  proof (cases "ce_event_type e \<in> {Proposed_Event, Closed_Event}")
    case True
    have "decode_ledger cd content' = Inr None"
    proof (cases "ce_event_type e = Closed_Event")
      case closing: True
      obtain s where "map_of (ls_sessions st) ?sid = Some s" "cn_status s = Proposed"
        using closing_event [OF valid closing] by blast
      from closing_unbound [OF complete(2) ok this] closing valid show ?thesis
        by (simp add: decode add_event_def)
    next
      case False
      with True have proposing: "ce_event_type e = Proposed_Event" by simp
      moreover have "ce_proposal_id e \<noteq> None" using validate_event_binds [OF e] proposing by (simp add: event_binds_def)
      ultimately show ?thesis using valid by (auto simp: decode add_event_def Let_def ledger_complete_def)
    qed
    with True show ?thesis by (simp add: get_session_def)
  next
    case False
    then obtain st' where add: "add_event ?dm e st = Inr (Some st')"
      and st': "ls_proposals st' = ls_proposals st" "ls_decisions st' = ls_decisions st" "ls_pending st' = None"
        "ls_sessions st' = AList.update ?sid (ce_session e) (ls_sessions st)" "ls_latest st' = AList.update ?sid e (ls_latest st)"
      using valid complete(1) by (simp add: add_event_def Let_def)
    have "ledger_complete st'"
      by (rule ledger_complete_event [OF complete(2) st'(1-3), of ?sid])
        (use open_before False valid in \<open>auto simp: st' update_conv'\<close>)
    then have "decode_ledger cd content' = Inr (Some st')" by (simp add: decode add)
    with False show ?thesis by (simp add: get_session_def st' update_conv')
  qed
qed

definition unnamed_session :: clarification_session where
  "unnamed_session = (sample_session Open [] [])\<lparr>cn_questions := [sample_question\<lparr>cq_prompt_digest := canonical_digest []\<rparr>]\<rparr>"

definition opening_session :: clarification_session where
  "opening_session = unnamed_session\<lparr>cn_id := ''clarification:'' @ canonical_digest (session_frame sample_dumpers unnamed_session)\<rparr>"

definition unnamed_event :: clarification_event where
  "unnamed_event = (sample_event Opened opening_session ''agent'' 1 None None None)\<lparr>ce_id := []\<rparr>"

definition opening_event :: clarification_event where
  "opening_event =
     (let i = ''clarification-event:'' @ canonical_digest (event_material sample_dumpers unnamed_event) in
      unnamed_event\<lparr>ce_id := i, ce_session := opening_session\<lparr>cn_latest_event_id := Some i\<rparr>\<rparr>)"

lemma length_canonical_digest [simp]: "length (canonical_digest m) = 71"
  using hex64_hexdigest by (simp add: canonical_digest_def sha256_id_def hex64_def)

lemma opening_event_fields [simp]:
  "ce_event_type opening_event = Opened" "ce_actor opening_event = ''agent''" "ce_at opening_event = 1"
  "ce_predecessor opening_event = None" "ce_proposal_id opening_event = None" "ce_decision_id opening_event = None"
  "ce_activation opening_event = None" "ce_id opening_event = ''clarification-event:'' @ canonical_digest (event_material sample_dumpers unnamed_event)"
  "ce_session opening_event = opening_session\<lparr>cn_latest_event_id := Some (ce_id opening_event)\<rparr>"
  by (simp_all add: opening_event_def unnamed_event_def sample_event_def Let_def)

lemma opening_material: "event_material sample_dumpers opening_event = event_material sample_dumpers unnamed_event"
  by (simp add: opening_event_def Let_def event_material_def session_dump_def session_frame_def unnamed_event_def sample_event_def)

lemma opening_event_valid: "validate_event sample_dumpers opening_event = Inr opening_event"
proof -
  have "session_error sample_dumpers (ce_session opening_event) = None"
    by (simp add: session_error_def opening_session_def session_frame_def first_error_def field_error_def when_error_def
        unnamed_session_def sample_session_def bounded_text_def question_ok_def sample_question_def)
  then show ?thesis
    by (simp add: validate_event_def event_error_def opening_material first_error_def field_error_def when_error_def bounded_text_def
        event_status_def event_binds_def del: opening_event_fields(9))
      (simp add: opening_session_def unnamed_session_def)
qed

lemma opening_event_opens: "opens opening_event None"
  by (simp add: opens_def Let_def opening_session_def unnamed_session_def)

definition opening_codec :: intent_codec where
  "opening_codec = \<lparr>ix_dumpers = sample_dumpers, ix_read = reads_frames (numbered [Event_Frame opening_event])\<rparr>"

lemma storable_numbered:
  assumes "\<And>cs. wf_json (JObj (dm_changeset dm cs))" "i < length ps"
  shows "storable_frame \<lparr>ix_dumpers = dm, ix_read = reads_frames (numbered ps)\<rparr> (numbered ps ! i)"
  using reads_frames_nth [OF wf_frame_fields [OF assms(1)] refl assms(2)] wf_frame_fields [OF assms(1)]
  by (intro frame_line) simp_all

theorem appended_event_readable_witness:
  "\<exists>content'. append_clarification opening_codec opening_event None = Inr (True, content') \<and>
     get_session opening_codec (cn_id opening_session) content' = Inr (ce_session opening_event)"
proof -
  have decode: "decode_ledger opening_codec None = Inr (Some empty_ledger)"
    by (simp add: decode_ledger_Some ledger_complete_def empty_ledger_def dict_values_def)
  have add: "append_clarification opening_codec opening_event None = Inr (True, append_frame opening_codec None (Event_Frame opening_event))"
    using decode opening_event_valid opening_event_opens
    by (simp add: append_clarification_def Let_def opening_codec_def valid_transition_None del: opening_event_fields)
      (simp add: empty_ledger_def valid_clarification_transition_def del: opening_event_fields)
  have "storable_frame opening_codec \<lparr>if_sequence = frame_count None, if_payload = Event_Frame opening_event\<rparr>"
    using storable_numbered [of sample_dumpers 0 "[Event_Frame opening_event]"]
    by (simp add: opening_codec_def numbered_def frame_count_def sample_dumpers_def del: opening_event_fields)
  from appended_event_readable [OF add this] add show ?thesis by simp
qed

lemma validate_proposal_clarification: "validate_proposal dm p = Inr q \<Longrightarrow> ip_clarification q = ip_clarification p \<and> ip_id q = ip_id p"
  by (auto simp: validate_proposal_def Let_def split: option.splits)

lemma put_proposal_cases:
  assumes "put_proposal cd p content = Inr (True, content')"
  obtains q st where "validate_proposal (ix_dumpers cd) p = Inr q" "decode_ledger cd content = Inr (Some st)"
    "map_of (ls_proposals st) (ip_id q) = None" "content' = append_frame cd content (Proposal_Frame q)"
  using assms by (auto simp: put_proposal_def split: sum.splits option.splits if_splits)

text \<open>C32: A proposal without a clarification, once put, is in the ledger: it is read back with its source roles in
  order, it is the last of the list, all others are as before, it has no decision yet, and putting it once more
  changes nothing.\<close>

theorem put_proposal_stored:
  assumes "put_proposal cd p content = Inr (True, content')" "validate_proposal (ix_dumpers cd) p = Inr q" "ip_clarification p = None"
    and "storable_frame cd \<lparr>if_sequence = frame_count content, if_payload = Proposal_Frame q\<rparr>"
  shows "get_proposal cd (ip_id p) content' = Inr q \<and>
    (\<exists>ps. list_proposals cd content = Inr ps \<and> list_proposals cd content' = Inr (ps @ [q])) \<and>
    (\<forall>i. i \<noteq> ip_id p \<longrightarrow> get_proposal cd i content' = get_proposal cd i content) \<and>
    put_proposal cd p content' = Inr (False, content')"
proof -
  obtain st where st: "decode_ledger cd content = Inr (Some st)" and new: "map_of (ls_proposals st) (ip_id q) = None"
    and content': "content' = append_frame cd content (Proposal_Frame q)"
    using put_proposal_cases [OF assms(1)] assms(2) by (metis sum.inject(2))
  have q: "ip_clarification q = None" "ip_id q = ip_id p"
    using validate_proposal_clarification [OF assms(2)] assms(3) by simp_all
  let ?st = "st\<lparr>ls_proposals := ls_proposals st @ [(ip_id q, q)]\<rparr>"
  have "decision_closed ?st r = decision_closed st r" for r by (rule decision_closed_cong) simp_all
  then have "ledger_complete ?st"
    using complete_pending [OF st] q(1) by (auto simp: ledger_complete_def dict_values_def decision_closed_def)
  then have "decode_ledger cd content' = Inr (Some ?st)"
    using decode_append_frame [OF st assms(4)] new q(1) by (simp add: content' add_proposal_def)
  with st new show ?thesis
    by (auto simp: get_proposal_def list_proposals_def put_proposal_def assms(2) q(2) [symmetric] dict_values_def map_add_def
        split: option.split)
qed

definition unnamed_proposal :: intent_proposal where
  "unnamed_proposal = sample_proposal\<lparr>ip_clarification := None\<rparr>"

definition plain_proposal :: intent_proposal where
  "plain_proposal = unnamed_proposal\<lparr>ip_id := ''proposal:'' @ proposal_digest sample_dumpers unnamed_proposal\<rparr>"

definition plain_codec :: intent_codec where
  "plain_codec = \<lparr>ix_dumpers = sample_dumpers, ix_read = reads_frames (numbered [Proposal_Frame plain_proposal])\<rparr>"

lemma plain_proposal_valid: "validate_proposal sample_dumpers plain_proposal = Inr plain_proposal"
proof -
  have digest: "proposal_digest sample_dumpers plain_proposal = proposal_digest sample_dumpers unnamed_proposal"
    by (simp add: proposal_digest_def proposal_material_def plain_proposal_def)
  have "ip_changeset plain_proposal = ip_changeset sample_proposal" by (simp add: plain_proposal_def unnamed_proposal_def)
  moreover have "validate_changeset (ip_changeset sample_proposal) = Inr (ip_changeset sample_proposal)" by code_simp
  ultimately have "validate_changeset (ip_changeset plain_proposal) = Inr (ip_changeset plain_proposal)" by simp
  moreover have same: "plain_proposal\<lparr>ip_source_roles := normalize_source_roles (ip_source_roles plain_proposal)\<rparr> = plain_proposal"
    by (simp add: plain_proposal_def unnamed_proposal_def sample_proposal_def normalize_source_roles_def)
  moreover have "ip_source_roles plain_proposal = []" by (simp add: plain_proposal_def unnamed_proposal_def sample_proposal_def)
  moreover have "ip_id plain_proposal = ''proposal:'' @ proposal_digest sample_dumpers plain_proposal"
    unfolding digest by (simp add: plain_proposal_def)
  moreover have "ip_clarification plain_proposal = None" by (simp add: plain_proposal_def unnamed_proposal_def)
  ultimately show ?thesis
    unfolding validate_proposal_def Let_def same
    by (simp add: proposal_error_def first_error_def field_error_def when_error_def error_of_def)
qed

theorem put_proposal_stored_witness:
  "\<exists>content'. put_proposal plain_codec plain_proposal None = Inr (True, content') \<and>
     list_proposals plain_codec content' = Inr [plain_proposal]"
proof -
  have decode: "decode_ledger plain_codec None = Inr (Some empty_ledger)"
    by (simp add: decode_ledger_Some ledger_complete_def empty_ledger_def dict_values_def)
  have valid: "validate_proposal (ix_dumpers plain_codec) plain_proposal = Inr plain_proposal"
    using plain_proposal_valid by (simp add: plain_codec_def)
  have put: "put_proposal plain_codec plain_proposal None = Inr (True, append_frame plain_codec None (Proposal_Frame plain_proposal))"
    using decode valid by (simp add: put_proposal_def) (simp add: empty_ledger_def)
  have "storable_frame plain_codec \<lparr>if_sequence = frame_count None, if_payload = Proposal_Frame plain_proposal\<rparr>"
    using storable_numbered [of sample_dumpers 0 "[Proposal_Frame plain_proposal]"]
    by (simp add: plain_codec_def numbered_def frame_count_def sample_dumpers_def)
  moreover have "ip_clarification plain_proposal = None" by (simp add: plain_proposal_def unnamed_proposal_def)
  ultimately have "\<exists>ps. list_proposals plain_codec None = Inr ps \<and>
      list_proposals plain_codec (append_frame plain_codec None (Proposal_Frame plain_proposal)) = Inr (ps @ [plain_proposal])"
    using put_proposal_stored [OF put valid] by blast
  moreover have "list_proposals plain_codec None = Inr []"
    by (simp add: list_proposals_def decode) (simp add: empty_ledger_def dict_values_def)
  ultimately show ?thesis using put by auto
qed

end
