(* ===== verification/Preflight.thy ===== *)
theory Preflight
  imports Context_Provider Intent_Authorization Proposal_Store Case_Store Evidence_Store Evidence_Detection
begin

text \<open>
  Validation of an agent's classification of its task (\<open>intent_workflow/preflight.py\<close>). A classification is
  checked against one snapshot of the project: the configuration, the graph, the evidence with its
  conversation turns, the cases and the undecided proposals. Two of the four classifications can authorise the
  task, after the snapshot has been found unchanged under the lock set; a conflict opens a reconciliation case
  or finds the one it opened before. What other processes do before each lock scope is an argument
  (\<open>others\<close>), and so are the parts of Pydantic and the resolver of principals. The cancellation of a running
  evaluation (a \<open>BaseException\<close>) is not modelled. A \<open>frozenset\<close> of principals is a list, read as its set.
\<close>

section \<open>Submissions\<close>

record classification_submission =
  sb_task_id :: string
  sb_task_digest :: string
  sb_graph_version :: int
  sb_classification :: TaskClassification
  sb_basis :: string
  sb_relevant_node_ids :: "string list"
  sb_evidence_refs :: "string list"
  sb_agent_evidence_ref :: string
  sb_semantic_effects :: "string list"
  sb_uncertainties :: "string list"
  sb_questions :: "string list"
  sb_conflict_claims :: "string list"
  sb_requested_scope :: "string list"

text \<open>\<open>_bounded_text\<close> for a text, the same check with another limit for an identifier.\<close>

definition classifier_item :: "bool \<Rightarrow> string \<Rightarrow> bool" where
  "classifier_item prose s \<longleftrightarrow>
     s \<noteq> [] \<and> \<not> list_ex control_char s \<and> length (utf8 s) \<le> (if prose then 4096 else 2048)"

definition canonical_collection :: "nat \<Rightarrow> bool \<Rightarrow> string list \<Rightarrow> string list res" where
  "canonical_collection maximum prose values =
     (if length values > maximum then Inl (ValueError ''invalid classifier collection'')
      else if \<not> list_all (classifier_item prose) values then Inl (ValueError ''invalid classifier identifier'')
      else if \<not> distinct values then Inl (ValueError ''duplicate classifier collection item'')
      else Inr (sort values))"

definition submission_error :: "classification_submission \<Rightarrow> exn option" where
  "submission_error s = first_error
     [field_error (task_id_pattern (sb_task_id s)), field_error (sha256_pattern (sb_task_digest s)),
      field_error (0 \<le> sb_graph_version s), field_error (classifier_item True (sb_basis s)),
      error_of (canonical_collection 1 False [sb_agent_evidence_ref s])]"

definition validate_submission :: "classification_submission \<Rightarrow> classification_submission res" where
  "validate_submission s =
     (case submission_error s of
        Some e \<Rightarrow> Inl e
      | None \<Rightarrow>
          res_bind (canonical_collection 256 False (sb_relevant_node_ids s)) (\<lambda>relevant.
          res_bind (canonical_collection 256 False (sb_evidence_refs s)) (\<lambda>refs.
          res_bind (canonical_collection 64 True (sb_semantic_effects s)) (\<lambda>effects.
          res_bind (canonical_collection 64 True (sb_uncertainties s)) (\<lambda>uncertainties.
          res_bind (canonical_collection 64 True (sb_questions s)) (\<lambda>questions.
          res_bind (canonical_collection 64 True (sb_conflict_claims s)) (\<lambda>claims.
          res_bind (canonical_collection 256 False (sb_requested_scope s)) (\<lambda>scope.
          Inr (s\<lparr>sb_relevant_node_ids := relevant, sb_evidence_refs := refs, sb_semantic_effects := effects,
            sb_uncertainties := uncertainties, sb_questions := questions, sb_conflict_claims := claims,
            sb_requested_scope := scope\<rparr>)))))))))"

definition classification_value :: "TaskClassification \<Rightarrow> string" where
  "classification_value c =
     (case c of No_Semantic_Impact \<Rightarrow> ''no_semantic_impact'' | Aligned \<Rightarrow> ''aligned''
      | New_Or_Ambiguous \<Rightarrow> ''new_or_ambiguous'' | Conflicting \<Rightarrow> ''conflicting'')"

text \<open>What the agent's turn must have said.\<close>

definition classification_evidence_content :: "classification_submission \<Rightarrow> json dict" where
  "classification_evidence_content s =
     [(''basis'', JStr (sb_basis s)), (''classification'', JStr (classification_value (sb_classification s))),
      (''conflict_claims'', strs (sb_conflict_claims s)), (''evidence_refs'', strs (sb_evidence_refs s)),
      (''graph_version'', JInt (sb_graph_version s)), (''questions'', strs (sb_questions s)),
      (''relevant_node_ids'', strs (sb_relevant_node_ids s)), (''requested_scope'', strs (sb_requested_scope s)),
      (''semantic_effects'', strs (sb_semantic_effects s)), (''task_digest'', JStr (sb_task_digest s)),
      (''task_id'', JStr (sb_task_id s)), (''uncertainties'', strs (sb_uncertainties s))]"

section \<open>The service and its snapshot\<close>

text \<open>\<open>pf_config_fields\<close> reads the fields of a configuration, \<open>pf_pack_dump\<close> is \<open>model_dump\<close> of a context pack,
  \<open>pf_float\<close> the value of a float literal.\<close>

record preflight_env =
  pf_codecs :: codecs
  pf_config_fields :: "json dict \<Rightarrow> project_config res"
  pf_evidence :: evidence_codec
  pf_case_dump :: "reconciliation_case \<Rightarrow> json dict"
  pf_case_decode :: "json dict \<Rightarrow> reconciliation_case res"
  pf_proposals :: intent_codec
  pf_pack_dump :: "context_pack \<Rightarrow> json dict"
  pf_float :: "string \<Rightarrow> rat"
  pf_transactions :: coordinator
  pf_agent_principal :: string
  pf_connector_id :: string
  pf_resolver :: "(project_config \<Rightarrow> string option dict \<Rightarrow> string list res) option"
  pf_request_actor :: "string option"
  pf_request_human :: bool
  pf_request_source_mode :: SourceMode

definition new_preflight :: "preflight_env \<Rightarrow> preflight_env res" where
  "new_preflight env =
     (if \<not> {''graph'', ''evidence'', ''cases'', ''intent_proposals''} \<subseteq> set (co_targets (pf_transactions env))
      then Inl (ValueError ''preflight transaction targets are unavailable'')
      else if \<not> classifier_item True (pf_agent_principal env) \<or> \<not> classifier_item True (pf_connector_id env) \<or>
        \<not> (case pf_request_actor env of None \<Rightarrow> True | Some actor \<Rightarrow> classifier_item True actor)
      then Inl (ValueError ''invalid classifier text'')
      else Inr env)"

definition project_principals :: "project_config \<Rightarrow> string option dict \<Rightarrow> string list res" where
  "project_principals config snap = Inr [pj_local_actor config]"

definition checked_principals :: "string list \<Rightarrow> string list res" where
  "checked_principals values =
     (if values = [] \<or> 256 < length (remdups values) \<or> list_ex (\<lambda>v. v = [] \<or> list_ex control_char v) values
      then Inl (ValueError ''invalid authenticated principals'') else Inr values)"

text \<open>\<open>snapshot({"config": ...})\<close>: every target and the configuration, in the order of their names.\<close>

definition held_snapshot :: "preflight_env \<Rightarrow> disk \<Rightarrow> (string option dict \<times> disk) res" where
  "held_snapshot env d =
     (let co = pf_transactions env in
      res_bind (check_extras (co_targets co) [''config''] []) (\<lambda>_.
      res_bind (recover (co_targets co) (co_legacy_sets co) d) (\<lambda>(_, d).
      Inr (take_snapshot (co_targets co @ [''config'']) (dk_files d), d))))"

definition held :: "string option dict \<Rightarrow> string \<Rightarrow> string option" where
  "held snap name = (case map_of snap name of None \<Rightarrow> None | Some content \<Rightarrow> content)"

text \<open>The undecided proposals. Unlike the store, this reader skips the clarification events.\<close>

definition note_frame ::
  "dumpers \<Rightarrow> intent_payload \<Rightarrow> intent_proposal dict \<times> proposal_decision dict \<Rightarrow>
     (intent_proposal dict \<times> proposal_decision dict) option" where
  "note_frame dm payload = (\<lambda>(proposals, decisions).
     case payload of
       Event_Frame _ \<Rightarrow> Some (proposals, decisions)
     | Proposal_Frame p \<Rightarrow>
         if map_of proposals (ip_id p) \<noteq> None then None else Some (proposals @ [(ip_id p, p)], decisions)
     | Decision_Frame d \<Rightarrow>
         (case map_of proposals (pd_proposal_id d) of
            None \<Rightarrow> None
          | Some p \<Rightarrow>
              if pd_proposal_digest d \<noteq> proposal_digest dm p \<or> pd_baseline d \<noteq> ip_baseline p \<or>
                 map_of decisions (pd_proposal_id d) \<noteq> None
              then None
              else Some (proposals, decisions @ [(pd_proposal_id d, d)])))"

fun note_frames ::
  "intent_codec \<Rightarrow> nat \<Rightarrow> string list \<Rightarrow> intent_proposal dict \<times> proposal_decision dict \<Rightarrow>
     (intent_proposal dict \<times> proposal_decision dict) option" where
  "note_frames cd n [] st = Some st"
| "note_frames cd n (line # lines) st =
     (case decode_frame cd line of
        None \<Rightarrow> None
      | Some f \<Rightarrow>
          if if_sequence f \<noteq> int n then None
          else
            (case note_frame (ix_dumpers cd) (if_payload f) st of
               None \<Rightarrow> None | Some st' \<Rightarrow> note_frames cd (Suc n) lines st'))"

definition undecided :: "intent_proposal dict \<Rightarrow> proposal_decision dict \<Rightarrow> intent_proposal list" where
  "undecided proposals decisions = map snd (filter (\<lambda>(i, p). map_of decisions i = None) proposals)"

definition parse_proposals :: "intent_codec \<Rightarrow> string \<Rightarrow> intent_proposal list res" where
  "parse_proposals cd content =
     (if content \<noteq> [] \<and> last content \<noteq> CHR 0x0A then Inl (ValueError ''invalid intent proposal ledger'')
      else
        (case note_frames cd 0 (byte_lines content) ([], []) of
           None \<Rightarrow> Inl (ValueError ''invalid intent proposal ledger'')
         | Some (proposals, decisions) \<Rightarrow> Inr (undecided proposals decisions)))"

record held_state =
  hs_config :: project_config
  hs_graph :: graph
  hs_evidence :: "evidence_record list"
  hs_ingestions :: "evidence_ingestion list"
  hs_cases :: "reconciliation_case list"
  hs_proposals :: "intent_proposal list"

definition parse_config :: "preflight_env \<Rightarrow> string \<Rightarrow> project_config res" where
  "parse_config env content =
     res_bind (yaml_load (pf_codecs env) content) (\<lambda>loaded.
       case loaded of
         JObj kvs \<Rightarrow> res_bind (pf_config_fields env kvs) validate_project_config
       | _ \<Rightarrow> Inl (TypeError ''invalid project config''))"

definition snapshot_state :: "preflight_env \<Rightarrow> string option dict \<Rightarrow> held_state res" where
  "snapshot_state env snap =
     (case (held snap ''config'', held snap ''graph'') of
        (Some config_content, Some graph_content) \<Rightarrow>
          res_bind (parse_config env config_content) (\<lambda>config.
          res_bind (parse_graph (pf_codecs env) graph_content) (\<lambda>g.
          res_bind (parse_evidence_lines (pf_evidence env) (Some (text_of (held snap ''evidence'')))) (\<lambda>es.
          res_bind (parse_case_versions (pf_case_decode env) (Some (text_of (held snap ''cases'')))) (\<lambda>versions.
          res_bind (parse_proposals (pf_proposals env) (text_of (held snap ''intent_proposals''))) (\<lambda>proposals.
          Inr \<lparr>hs_config = config, hs_graph = g, hs_evidence = dict_values (st_records es), hs_ingestions = st_ingestions es,
            hs_cases = sorted_values (dict_of rc_id versions), hs_proposals = proposals\<rparr>)))))
      | _ \<Rightarrow> Inl (ValueError ''missing preflight snapshot''))"

section \<open>Conversation turns\<close>

definition turn_ingestion :: "string \<Rightarrow> evidence_ingestion list \<Rightarrow> string \<Rightarrow> evidence_ingestion res" where
  "turn_ingestion evidence_id ings connector_id =
     (case filter (\<lambda>i. ing_connector_id i = connector_id \<and> er_id (ing_evidence i) = evidence_id) ings of
        [i] \<Rightarrow> Inr i
      | _ \<Rightarrow> Inl (ValueError ''conversation turn is unavailable''))"

text \<open>Python's equality of a JSON number and an integer, and of the content with what was submitted: the order
  of the keys does not matter.\<close>

definition equals_int :: "(string \<Rightarrow> rat) \<Rightarrow> json \<Rightarrow> int \<Rightarrow> bool" where
  "equals_int float_value v n \<longleftrightarrow>
     (case v of JInt i \<Rightarrow> i = n | JBool b \<Rightarrow> n = (if b then 1 else 0) | JFloat l \<Rightarrow> float_value l = of_int n | _ \<Rightarrow> False)"

definition content_equals :: "(string \<Rightarrow> rat) \<Rightarrow> json option \<Rightarrow> classification_submission \<Rightarrow> bool" where
  "content_equals float_value content s \<longleftrightarrow>
     (case content of
        Some (JObj kvs) \<Rightarrow>
          (case map_of kvs ''graph_version'' of
             None \<Rightarrow> False
           | Some v \<Rightarrow>
               equals_int float_value v (sb_graph_version s) \<and>
               canon (JObj (AList.update ''graph_version'' (JInt (sb_graph_version s)) kvs)) =
                 JObj (classification_evidence_content s))
      | _ \<Rightarrow> False)"

definition turn_of :: "string \<Rightarrow> evidence_record \<Rightarrow> bool" where
  "turn_of conversation r \<longleftrightarrow>
     er_connector_type r = ''conversation'' \<and> er_external_object_id r = conversation \<and> er_source_locator r = conversation"

definition turns_agree ::
  "preflight_env \<Rightarrow> task_envelope \<Rightarrow> classification_submission \<Rightarrow> evidence_ingestion \<Rightarrow> evidence_ingestion \<Rightarrow>
     string list \<Rightarrow> bool" where
  "turns_agree env e s request_entry agent_entry ps \<longleftrightarrow>
     (let request = ing_evidence request_entry; agent = ing_evidence agent_entry in
      turn_of (te_conversation_ref e) request \<and> turn_of (te_conversation_ref e) agent \<and>
      er_author request = Some (te_actor e) \<and> er_author agent = Some (pf_agent_principal env) \<and>
      er_observed_at request = te_created_at e \<and> er_observed_at request \<le> er_observed_at agent \<and>
      map_of (er_payload request) ''role'' = Some (JStr (if pf_request_human env then ''human'' else ''agent'')) \<and>
      map_of (er_payload request) ''content'' = Some (JStr (te_request e)) \<and>
      map_of (er_payload agent) ''role'' = Some (JStr ''agent'') \<and>
      content_equals (pf_float env) (map_of (er_payload agent) ''content'') s \<and>
      er_acl request = er_acl agent \<and> ing_predecessor_id agent_entry = Some (er_id request) \<and>
      ing_sequence agent_entry = ing_sequence request_entry + 1 \<and>
      evidence_allowed request (Many ps) \<and> evidence_allowed agent (Many ps) \<and> er_id request \<noteq> er_id agent)"

definition validate_turns ::
  "preflight_env \<Rightarrow> task_envelope \<Rightarrow> classification_submission \<Rightarrow> held_state \<Rightarrow> string list \<Rightarrow>
     (evidence_record \<times> evidence_record) res" where
  "validate_turns env e s st ps =
     res_bind (turn_ingestion (te_request_evidence_ref e) (hs_ingestions st) (pf_connector_id env)) (\<lambda>request_entry.
     res_bind (turn_ingestion (sb_agent_evidence_ref s) (hs_ingestions st) (pf_connector_id env)) (\<lambda>agent_entry.
     let request = ing_evidence request_entry; agent = ing_evidence agent_entry; by_id = dict_of er_id (hs_evidence st) in
     if \<not> turns_agree env e s request_entry agent_entry ps then Inl (ValueError ''invalid conversation evidence'')
     else if map_of by_id (er_id request) \<noteq> Some request \<or> map_of by_id (er_id agent) \<noteq> Some agent
     then Inl (ValueError ''invalid conversation evidence'')
     else Inr (request, agent)))"

section \<open>Undecided proposals\<close>

text \<open>\<open>locator.startswith(f"{scope.rstrip('/')}/")\<close>, and \<open>max\<close>: the first of the longest.\<close>

definition in_scope :: "string \<Rightarrow> string \<Rightarrow> bool" where
  "in_scope scope locator \<longleftrightarrow> starts_with (rstrip_chars ''/'' scope @ ''/'') locator"

fun longest :: "source_role_assignment list \<Rightarrow> source_role_assignment option" where
  "longest [] = None"
| "longest (a # as) =
     (case longest as of
        None \<Rightarrow> Some a
      | Some b \<Rightarrow> if length (sr_scope a) < length (sr_scope b) then Some b else Some a)"

definition configured_role :: "project_config \<Rightarrow> string \<Rightarrow> string \<Rightarrow> source_role_assignment option" where
  "configured_role config connector_id locator =
     (let assignments = filter (\<lambda>a. sr_connector_id a = connector_id) (pj_source_roles config) in
      case filter (\<lambda>a. sr_scope a = locator) assignments of
        exact # _ \<Rightarrow> Some exact
      | [] \<Rightarrow> longest (filter (\<lambda>a. sr_inherited a \<and> in_scope (sr_scope a) locator) assignments))"

definition proposal_shape_ok :: "preflight_env \<Rightarrow> held_state \<Rightarrow> string list \<Rightarrow> intent_proposal \<Rightarrow> bool" where
  "proposal_shape_ok env st ps p \<longleftrightarrow>
     (let g = hs_graph st; cs = ip_changeset p; candidate_ids = map nd_id (cs_nodes_added cs) in
      ip_baseline p = g_version g \<and> ip_proposed_by p = pf_agent_principal env \<and>
      cs_baseline_graph_version cs = g_version g \<and> cs_actor cs = ip_proposed_by p \<and> cs_timestamp cs = ip_proposed_at p \<and>
      distinct candidate_ids \<and> set (ip_core_node_ids p) \<inter> set (ip_provisional_node_ids p) = {} \<and>
      set (ip_core_node_ids p) \<union> set (ip_provisional_node_ids p) = set candidate_ids \<and>
      cs_evidence_refs cs = ip_evidence_refs p \<and> ip_evidence_refs p \<noteq> [] \<and> distinct (ip_evidence_refs p) \<and>
      refs_allowed (ip_evidence_refs p) (hs_evidence st) (Many ps) \<and>
      \<not> (ip_kind p = ProposalKind.Bootstrap \<and> ip_core_node_ids p = []) \<and>
      cs_nodes_updated cs = [] \<and> cs_nodes_superseded cs = [] \<and> cs_edges_updated cs = [] \<and> cs_edges_superseded cs = [] \<and>
      cs_confidence_changes cs = [] \<and> cs_implementation_status_changes cs = [] \<and>
      cs_reconciliation_cases_created cs = [] \<and> cs_reconciliation_cases_resolved cs = [] \<and>
      cs_validation_status cs = ''validated'')"

text \<open>The roles a reference has under some connector that ingested it, among the submitted ones.\<close>

definition matched_roles :: "held_state \<Rightarrow> intent_proposal \<Rightarrow> string \<Rightarrow> source_role_assignment list" where
  "matched_roles st p evidence_id =
     (case map_of (dict_of er_id (hs_evidence st)) evidence_id of
        None \<Rightarrow> []
      | Some r \<Rightarrow>
          filter (\<lambda>a. a \<in> set (ip_source_roles p))
            (concat (map (\<lambda>i.
               if er_id (ing_evidence i) = evidence_id
               then (case configured_role (hs_config st) (ing_connector_id i) (er_source_locator r) of
                       None \<Rightarrow> [] | Some a \<Rightarrow> [a])
               else []) (hs_ingestions st))))"

definition proposal_roles_ok :: "held_state \<Rightarrow> intent_proposal \<Rightarrow> bool" where
  "proposal_roles_ok st p \<longleftrightarrow>
     (let submitted = ip_source_roles p in
      \<not> (ip_kind p = ProposalKind.Bootstrap \<and> submitted = []) \<and> set submitted \<subseteq> set (pj_source_roles (hs_config st)) \<and>
      (submitted \<noteq> [] \<longrightarrow> list_all (\<lambda>i. matched_roles st p i \<noteq> []) (ip_evidence_refs p)) \<and>
      set (concat (map (matched_roles st p) (ip_evidence_refs p))) = set submitted)"

definition candidate_ok :: "held_state \<Rightarrow> string list \<Rightarrow> intent_proposal \<Rightarrow> node \<Rightarrow> bool" where
  "candidate_ok st ps p n \<longleftrightarrow>
     assert_registered (g_extensions (hs_graph st)) (nd_type n) = None \<and> nd_status n = ''proposed'' \<and>
     nd_source_mode n = Some INFERRED \<and> nd_evidence_refs n \<noteq> [] \<and> distinct (nd_evidence_refs n) \<and>
     set (nd_evidence_refs n) \<subseteq> set (ip_evidence_refs p) \<and> refs_allowed (nd_evidence_refs n) (hs_evidence st) (Many ps) \<and>
     nd_created_by n = ip_proposed_by p \<and> nd_last_modified_by n = ip_proposed_by p \<and>
     nd_created_at n = ip_proposed_at p \<and> nd_last_modified_at n = ip_proposed_at p \<and>
     nd_last_reassessed_at n = Some (ip_proposed_at p) \<and> nd_intent_fidelity_confidence n \<noteq> None \<and>
     (case nd_confidence_basis n of None \<Rightarrow> False | Some basis \<Rightarrow> basis \<noteq> []) \<and>
     (ip_kind p = ProposalKind.Requirement \<longrightarrow>
        nd_type n \<in> {Builtin REQUIREMENT, Builtin CAPABILITY, Builtin ACCEPTANCE_CRITERION})"

definition candidate_edge_ok :: "held_state \<Rightarrow> intent_proposal \<Rightarrow> edge \<Rightarrow> bool" where
  "candidate_edge_ok st p e \<longleftrightarrow>
     (let known = nd_id ` (set (g_nodes (hs_graph st)) \<union> set (cs_nodes_added (ip_changeset p))) in
      ed_status e = ''proposed'' \<and> ed_from_id e \<in> known \<and> ed_to_id e \<in> known \<and>
      ed_created_by e = ip_proposed_by p \<and> ed_last_modified_by e = ip_proposed_by p \<and>
      ed_created_at e = ip_proposed_at p \<and> ed_last_modified_at e = ip_proposed_at p)"

definition note_provisional :: "intent_proposal \<Rightarrow> string \<Rightarrow> intent_proposal dict \<Rightarrow> intent_proposal dict res" where
  "note_provisional p node_id found =
     (if map_of found node_id \<noteq> None then Inl (ValueError ''duplicate provisional identity'')
      else Inr (found @ [(node_id, p)]))"

definition index_proposal ::
  "preflight_env \<Rightarrow> held_state \<Rightarrow> string list \<Rightarrow> intent_proposal \<Rightarrow> intent_proposal dict \<Rightarrow> intent_proposal dict res" where
  "index_proposal env st ps p found =
     (if \<not> proposal_shape_ok env st ps p then Inl (ValueError ''invalid provisional association'')
      else if \<not> proposal_roles_ok st p then Inl (ValueError ''invalid provisional source association'')
      else if \<not> list_all (candidate_ok st ps p) (cs_nodes_added (ip_changeset p))
      then Inl (ValueError ''invalid provisional candidate'')
      else if \<not> list_all (candidate_edge_ok st p) (cs_edges_added (ip_changeset p))
      then Inl (ValueError ''invalid provisional edge'')
      else fold_res (note_provisional p) (ip_provisional_node_ids p) found)"

definition proposal_index :: "preflight_env \<Rightarrow> held_state \<Rightarrow> string list \<Rightarrow> intent_proposal dict res" where
  "proposal_index env st ps = fold_res (index_proposal env st ps) (hs_proposals st) []"

section \<open>References\<close>

datatype selected = Selected_Node node | Selected_Proposal intent_proposal

definition is_proposal :: "selected \<Rightarrow> bool" where
  "is_proposal x \<longleftrightarrow> (case x of Selected_Proposal _ \<Rightarrow> True | Selected_Node _ \<Rightarrow> False)"

text \<open>One relevant identifier: an active node first, else an undecided proposal.\<close>

definition select_one ::
  "held_state \<Rightarrow> string list \<Rightarrow> intent_proposal dict \<Rightarrow> string \<Rightarrow> selected list \<times> string list \<Rightarrow>
     (selected list \<times> string list) res" where
  "select_one st ps provisional node_id = (\<lambda>(chosen, permitted).
     case map_of (dict_of nd_id (filter (\<lambda>n. nd_status n = ''active'') (g_nodes (hs_graph st)))) node_id of
       Some n \<Rightarrow>
         if \<not> refs_allowed (nd_evidence_refs n) (hs_evidence st) (Many ps)
         then Inl (ValueError ''unavailable semantic identity'')
         else Inr (chosen @ [Selected_Node n], permitted @ nd_evidence_refs n)
     | None \<Rightarrow>
         (case map_of provisional node_id of
            None \<Rightarrow> Inl (ValueError ''unavailable semantic identity'')
          | Some p \<Rightarrow>
              if \<not> refs_allowed (ip_evidence_refs p) (hs_evidence st) (Many ps)
              then Inl (ValueError ''unavailable provisional identity'')
              else Inr (chosen @ [Selected_Proposal p], permitted @ ip_evidence_refs p)))"

definition validate_references ::
  "preflight_env \<Rightarrow> classification_submission \<Rightarrow> held_state \<Rightarrow> string list \<Rightarrow> (selected list \<times> string list) res" where
  "validate_references env s st ps =
     res_bind (proposal_index env st ps) (\<lambda>provisional.
     res_bind (fold_res (select_one st ps provisional) (sb_relevant_node_ids s) ([], [])) (\<lambda>(chosen, permitted).
     if \<not> refs_allowed (sb_evidence_refs s) (hs_evidence st) (Many ps) then Inl (ValueError ''unavailable cited evidence'')
     else if \<not> set (sb_evidence_refs s) \<subseteq> set permitted then Inl (ValueError ''foreign cited evidence'')
     else Inr (chosen, sorted_set permitted)))"

section \<open>Cases\<close>

definition touches :: "string list \<Rightarrow> reconciliation_case \<Rightarrow> bool" where
  "touches relevant c \<longleftrightarrow> rc_subject_ref c \<in> set relevant \<or> set (rc_affected_refs c) \<inter> set relevant \<noteq> {}"

definition blocking_cases :: "reconciliation_case list \<Rightarrow> string list \<Rightarrow> reconciliation_case list" where
  "blocking_cases cases relevant = filter (\<lambda>c. is_nonterminal_case_status (rc_status c) \<and> touches relevant c) cases"

text \<open>\<open>d[key]\<close> for every key, in order.\<close>

fun lookups :: "'a dict \<Rightarrow> string list \<Rightarrow> 'a list res" where
  "lookups d [] = Inr []"
| "lookups d (k # ks) =
     (case map_of d k of None \<Rightarrow> Inl (KeyError k) | Some x \<Rightarrow> res_bind (lookups d ks) (\<lambda>xs. Inr (x # xs)))"

definition case_material ::
  "preflight_env \<Rightarrow> task_envelope \<Rightarrow> classification_submission \<Rightarrow> graph \<Rightarrow> string list \<Rightarrow> json dict" where
  "case_material env e s g active_refs =
     [(''active_evidence'', strs active_refs), (''claims'', strs (sb_conflict_claims s)), (''graph_id'', JStr (g_id g)),
      (if pf_request_human env then ''human_evidence'' else ''request_evidence'', JStr (te_request_evidence_ref e)),
      (''agent_evidence'', JStr (sb_agent_evidence_ref s)), (''relevant_node_ids'', strs (sb_relevant_node_ids s))]"

definition case_fingerprint :: "json dict \<Rightarrow> string" where
  "case_fingerprint material = hexdigest (dumps False (JObj material))"

definition new_conflict_case ::
  "preflight_env \<Rightarrow> task_envelope \<Rightarrow> classification_submission \<Rightarrow> held_state \<Rightarrow> reconciliation_case res" where
  "new_conflict_case env e s st =
     (let g = hs_graph st; by_id = dict_of er_id (hs_evidence st) in
      res_bind (lookups (dict_of nd_id (g_nodes g)) (sb_relevant_node_ids s)) (\<lambda>nodes.
      let active_refs = sorted_set (concat (map nd_evidence_refs nodes)) in
      res_bind (lookups by_id active_refs) (\<lambda>records.
      let active_authors = sorted_set (List.map_filter er_author records) in
      if active_refs = [] \<or> active_authors = [] then Inl (ValueError ''ungrounded conflict'')
      else
        res_bind (lookups by_id [sb_agent_evidence_ref s]) (\<lambda>agents.
        let fingerprint = case_fingerprint (case_material env e s g active_refs);
            active_side = \<lparr>sd_label = ''active_semantics'', sd_claim = ''Current active semantic position'',
              sd_evidence_refs = active_refs, sd_observed_at = max_list (map er_observed_at records),
              sd_authors = active_authors, sd_confidence = 95 / 100, sd_source_mode = EXPLICIT, sd_current = True\<rparr>;
            request_side = \<lparr>sd_label = ''task_request'', sd_claim = ''Task request classified as conflicting'',
              sd_evidence_refs = [te_request_evidence_ref e, sb_agent_evidence_ref s],
              sd_observed_at = max (te_created_at e) (max_list (map er_observed_at agents)),
              sd_authors = sorted_set [te_actor e, pf_agent_principal env], sd_confidence = 1,
              sd_source_mode = pf_request_source_mode env, sd_current = True\<rparr>
        in validate_case
          \<lparr>rc_id = ''case:preflight:'' @ fingerprint, rc_subject_ref = hd (sb_relevant_node_ids s),
           rc_case_type = (if te_actor e \<notin> set active_authors then CONFLICTING_SOURCES else POSSIBLE_INTENT_CHANGE),
           rc_affected_refs = sb_relevant_node_ids s, rc_evidence_sides = [active_side, request_side],
           rc_detector_id = ''intent_workflow.preflight.v1'', rc_fingerprint = fingerprint, rc_created_at = te_created_at e,
           rc_created_by = pf_agent_principal env, rc_status = OPEN, rc_requires_human = True, rc_alternatives = [],
           rc_impact = [], rc_resolution = None, rc_resolved_by_changeset = None, rc_history = []\<rparr>))))"

definition reusable_case ::
  "reconciliation_case list \<Rightarrow> reconciliation_case \<Rightarrow> evidence_record list \<Rightarrow> string list \<Rightarrow> reconciliation_case option res" where
  "reusable_case cases candidate evidence ps =
     (case filter (\<lambda>c. rc_id c = rc_id candidate \<or> rc_fingerprint c = rc_fingerprint candidate) cases of
        [] \<Rightarrow> Inr None
      | [c] \<Rightarrow>
          if \<not> is_nonterminal_case_status (rc_status c) \<or> immutable_identity c \<noteq> immutable_identity candidate \<or>
             \<not> refs_allowed (all_evidence_refs c) evidence (Many ps)
          then Inl (ValueError ''conflict case unavailable'') else Inr (Some c)
      | _ \<Rightarrow> Inl (ValueError ''conflict case unavailable''))"

text \<open>Comparing the files of a scope with the snapshot, in its order, up to the first difference.\<close>

fun snapshot_differs :: "string option dict \<Rightarrow> bool action" where
  "snapshot_differs [] = act_return False"
| "snapshot_differs ((name, content) # rest) =
     act_bind (txn_read_optional name) (\<lambda>current. if current \<noteq> content then act_return True else snapshot_differs rest)"

text \<open>The marker \<open>_SnapshotChanged\<close> is a \<open>ValueError\<close> that nothing else in the scope raises.\<close>

abbreviation SnapshotChanged :: exn where
  "SnapshotChanged \<equiv> ValueError ''preflight snapshot changed''"

definition append_case :: "string option dict \<Rightarrow> string \<Rightarrow> unit action" where
  "append_case snap line =
     act_bind (snapshot_differs snap) (\<lambda>changed.
     act_bind (act_guard changed SnapshotChanged) (\<lambda>_. txn_append ''cases'' line))"

text \<open>After a lost race: only the cases may differ, and they must hold the same conflict.\<close>

definition reread_winner ::
  "preflight_env \<Rightarrow> string option dict \<Rightarrow> reconciliation_case \<Rightarrow> string list \<Rightarrow> disk \<Rightarrow> disk \<times> reconciliation_case res" where
  "reread_winner env snap candidate ps d =
     (case held_snapshot env d of
        Inl er \<Rightarrow> (d, Inl er)
      | Inr (fresh, d) \<Rightarrow>
          (d, if list_ex (\<lambda>(name, content). name \<noteq> ''cases'' \<and> held fresh name \<noteq> content) snap
              then Inl (ValueError ''preflight snapshot changed'')
              else
                res_bind (snapshot_state env fresh) (\<lambda>st.
                res_bind (reusable_case (hs_cases st) candidate (hs_evidence st) ps) (\<lambda>winner.
                case winner of None \<Rightarrow> Inl (ValueError ''conflict case unavailable'') | Some c \<Rightarrow> Inr c))))"

definition create_or_reuse_case ::
  "preflight_env \<Rightarrow> (nat \<Rightarrow> disk \<Rightarrow> disk) \<Rightarrow> string \<Rightarrow> string option dict \<Rightarrow> held_state \<Rightarrow> reconciliation_case \<Rightarrow>
     string list \<Rightarrow> disk \<Rightarrow> disk \<times> reconciliation_case res" where
  "create_or_reuse_case env others transaction_id snap st candidate ps d =
     (case reusable_case (hs_cases st) candidate (hs_evidence st) ps of
        Inl er \<Rightarrow> (d, Inl er)
      | Inr (Some c) \<Rightarrow> (d, Inr c)
      | Inr None \<Rightarrow>
          (case validate_case_appends (pf_case_dump env) (pf_case_decode env) (Some (text_of (held snap ''cases''))) [candidate] of
             Inl er \<Rightarrow> (d, Inl er)
           | Inr line \<Rightarrow>
               (case run_transaction (pf_transactions env) [''config''] [] transaction_id (append_case snap line) (others 1 d) of
                  (d, Inr _) \<Rightarrow> (d, Inr candidate)
                | (d, Inl er) \<Rightarrow>
                    if er = SnapshotChanged then reread_winner env snap candidate ps (others 2 d) else (d, Inl er))))"

section \<open>Evaluation\<close>

record authenticated_result =
  ap_result :: preflight_result
  ap_graph_digest :: string

definition bindings_agree ::
  "preflight_env \<Rightarrow> task_envelope \<Rightarrow> classification_submission \<Rightarrow> held_state \<Rightarrow> string list \<Rightarrow> string list \<Rightarrow> bool" where
  "bindings_agree env e s st ps authenticated \<longleftrightarrow>
     (let config = hs_config st; version = g_version (hs_graph st) in
      pj_project_id config = te_repository_id e \<and>
      te_actor e = (case pf_request_actor env of None \<Rightarrow> pj_local_actor config | Some actor \<Rightarrow> actor) \<and>
      \<not> (pf_request_actor env = None \<and> te_actor e \<notin> set ps) \<and> pj_local_actor config \<in> set ps \<and>
      set ps = set authenticated \<and> version = te_graph_version e \<and> sb_graph_version s = version \<and>
      sb_task_id s = te_id e \<and>
      sb_task_digest s = canonical_digest (envelope_material (dm_isoformat (ix_dumpers (pf_proposals env))) e) \<and>
      sb_requested_scope s = sort (te_requested_scope e))"

definition fresh_result :: "task_envelope \<Rightarrow> classification_submission \<Rightarrow> held_state \<Rightarrow> string list \<Rightarrow> preflight_result" where
  "fresh_result e s st cited =
     \<lparr>pr_task_id = te_id e, pr_graph_version = g_version (hs_graph st), pr_classification = sb_classification s,
      pr_authorized = False, pr_basis = ''deterministically validated '' @ classification_value (sb_classification s),
      pr_relevant_node_ids = sb_relevant_node_ids s, pr_evidence_refs = cited, pr_questions = [],
      pr_review_case_id = None, pr_permitted_scope = [], pr_context = []\<rparr>"

text \<open>The four classifications: the result, and for a conflict the case it needs.\<close>

definition classify ::
  "preflight_env \<Rightarrow> task_envelope \<Rightarrow> classification_submission \<Rightarrow> held_state \<Rightarrow> string list \<Rightarrow> selected list \<Rightarrow>
     preflight_result \<Rightarrow> (preflight_result \<times> reconciliation_case option) res" where
  "classify env e s st ps chosen r =
     (case sb_classification s of
        No_Semantic_Impact \<Rightarrow>
          if sb_semantic_effects s \<noteq> [] \<or> sb_uncertainties s \<noteq> [] \<or> sb_relevant_node_ids s \<noteq> [] \<or>
             sb_conflict_claims s \<noteq> [] \<or> sb_questions s \<noteq> [] \<or> sb_evidence_refs s \<noteq> []
          then Inl (ValueError ''invalid mechanical classification'')
          else Inr (r\<lparr>pr_authorized := True, pr_permitted_scope := sb_requested_scope s\<rparr>, None)
      | Aligned \<Rightarrow>
          if sb_relevant_node_ids s = [] \<or> list_ex is_proposal chosen \<or> sb_uncertainties s \<noteq> [] \<or> sb_questions s \<noteq> [] \<or>
             sb_conflict_claims s \<noteq> [] \<or> blocking_cases (hs_cases st) (sb_relevant_node_ids s) \<noteq> []
          then Inl (ValueError ''invalid aligned classification'')
          else
            res_bind (for_refs (new_provider (hs_graph st) (hs_cases st) (hs_config st) (hs_evidence st))
              (sb_relevant_node_ids s) (Many ps)) (\<lambda>pack.
            Inr (r\<lparr>pr_authorized := True, pr_permitted_scope := sb_requested_scope s,
              pr_context := pf_pack_dump env pack\<rparr>, None))
      | New_Or_Ambiguous \<Rightarrow>
          if sb_questions s = [] \<or> sb_conflict_claims s \<noteq> [] then Inl (ValueError ''invalid ambiguous classification'')
          else Inr (r\<lparr>pr_questions := sb_questions s\<rparr>, None)
      | Conflicting \<Rightarrow>
          if sb_relevant_node_ids s = [] \<or> sb_conflict_claims s = [] \<or> sb_questions s \<noteq> [] \<or> list_ex is_proposal chosen
          then Inl (ValueError ''invalid conflicting classification'')
          else res_bind (new_conflict_case env e s st) (\<lambda>c. Inr (r, Some c)))"

definition assess ::
  "preflight_env \<Rightarrow> task_envelope \<Rightarrow> classification_submission \<Rightarrow> string list \<Rightarrow> string option dict \<Rightarrow> held_state \<Rightarrow>
     (string \<times> preflight_result \<times> reconciliation_case option) res" where
  "assess env e s ps snap st =
     res_bind (canonical_graph_digest (pf_codecs env) (text_of (held snap ''graph''))) (\<lambda>graph_digest.
     res_bind (case pf_resolver env of None \<Rightarrow> project_principals (hs_config st) snap | Some f \<Rightarrow> f (hs_config st) snap) (\<lambda>found.
     res_bind (checked_principals found) (\<lambda>authenticated.
     if \<not> bindings_agree env e s st ps authenticated then Inl (ValueError ''stale preflight binding'')
     else
       res_bind (validate_turns env e s st ps) (\<lambda>(request, agent).
       res_bind (validate_references env s st ps) (\<lambda>(chosen, relevant_evidence).
       if \<not> set relevant_evidence \<subseteq> set (sb_evidence_refs s) then Inl (ValueError ''incomplete semantic citation'')
       else
         res_bind (classify env e s st ps chosen
           (fresh_result e s st (fromkeys ([er_id request, er_id agent] @ sb_evidence_refs s)))) (\<lambda>(r, candidate).
         Inr (graph_digest, r, candidate)))))))"

text \<open>\<open>_authenticate_snapshot\<close>: the result stands only if the files still are those of the snapshot.\<close>

definition authenticate_snapshot :: "string option dict \<Rightarrow> unit action" where
  "authenticate_snapshot snap =
     act_bind (snapshot_differs snap) (\<lambda>changed. act_guard changed (ValueError ''preflight snapshot changed''))"

definition settle ::
  "preflight_env \<Rightarrow> (nat \<Rightarrow> disk \<Rightarrow> disk) \<Rightarrow> string \<Rightarrow> string option dict \<Rightarrow> held_state \<Rightarrow> string list \<Rightarrow>
     preflight_result \<times> reconciliation_case option \<Rightarrow> disk \<Rightarrow> disk \<times> preflight_result res" where
  "settle env others transaction_id snap st ps outcome d =
     (case outcome of
        (r, Some candidate) \<Rightarrow>
          (case create_or_reuse_case env others transaction_id snap st candidate ps d of
             (d, Inl er) \<Rightarrow> (d, Inl er) | (d, Inr c) \<Rightarrow> (d, Inr (r\<lparr>pr_review_case_id := Some (rc_id c)\<rparr>)))
      | (r, None) \<Rightarrow>
          if pr_authorized r then
            (case read_transaction (pf_transactions env) [''config''] [] (authenticate_snapshot snap) (others 1 d) of
               (d, Inl er) \<Rightarrow> (d, Inl er) | (d, Inr _) \<Rightarrow> (d, Inr r))
          else (d, Inr r))"

definition evaluate_held ::
  "preflight_env \<Rightarrow> (nat \<Rightarrow> disk \<Rightarrow> disk) \<Rightarrow> string \<Rightarrow> task_envelope \<Rightarrow> classification_submission \<Rightarrow> string list \<Rightarrow>
     disk \<Rightarrow> disk \<times> authenticated_result res" where
  "evaluate_held env others transaction_id e s ps d =
     (case held_snapshot env (others 0 d) of
        Inl er \<Rightarrow> (others 0 d, Inl er)
      | Inr (snap, d) \<Rightarrow>
          (case res_bind (snapshot_state env snap) (\<lambda>st. res_bind (assess env e s ps snap st) (\<lambda>x. Inr (st, x))) of
             Inl er \<Rightarrow> (d, Inl er)
           | Inr (st, graph_digest, outcome) \<Rightarrow>
               (case settle env others transaction_id snap st ps outcome d of
                  (d, Inl er) \<Rightarrow> (d, Inl er)
                | (d, Inr r) \<Rightarrow> (d, Inr \<lparr>ap_result = r, ap_graph_digest = graph_digest\<rparr>))))"

definition checked_input ::
  "preflight_env \<Rightarrow> task_envelope \<Rightarrow> classification_submission \<Rightarrow> string list \<Rightarrow>
     (task_envelope \<times> classification_submission) res" where
  "checked_input env e s ps =
     res_bind (validate_envelope (dm_isoformat (ix_dumpers (pf_proposals env))) e) (\<lambda>e.
     res_bind (validate_submission s) (\<lambda>s.
     res_bind (checked_principals ps) (\<lambda>_. Inr (e, s))))"

abbreviation PreflightError :: exn where
  "PreflightError \<equiv> ValueError ''intent preflight unavailable''"

definition evaluate_authenticated ::
  "preflight_env \<Rightarrow> (nat \<Rightarrow> disk \<Rightarrow> disk) \<Rightarrow> string \<Rightarrow> task_envelope \<Rightarrow> classification_submission \<Rightarrow> string list \<Rightarrow>
     disk \<Rightarrow> disk \<times> authenticated_result res" where
  "evaluate_authenticated env others transaction_id e s ps d =
     (case checked_input env e s ps of
        Inl _ \<Rightarrow> (d, Inl PreflightError)
      | Inr (e, s) \<Rightarrow>
          (case evaluate_held env others transaction_id e s ps d of
             (d, Inl _) \<Rightarrow> (d, Inl PreflightError) | (d, Inr a) \<Rightarrow> (d, Inr a)))"

definition evaluate ::
  "preflight_env \<Rightarrow> (nat \<Rightarrow> disk \<Rightarrow> disk) \<Rightarrow> string \<Rightarrow> task_envelope \<Rightarrow> classification_submission \<Rightarrow> string list \<Rightarrow>
     disk \<Rightarrow> disk \<times> preflight_result res" where
  "evaluate env others transaction_id e s ps d =
     (case evaluate_authenticated env others transaction_id e s ps d of
        (d, Inl er) \<Rightarrow> (d, Inl er) | (d, Inr a) \<Rightarrow> (d, Inr (ap_result a)))"

section \<open>The snapshot and the lock scopes\<close>

lemma budget_read_free [simp]: "budget_read [] name file b = Inr (file, b)"
  by (simp add: budget_read_def)

lemma read_optional_free:
  "hd_policies h = [] \<Longrightarrow> txn_read_optional name (h, f) =
     ((h, f), case handle_read_target h name of Inl e \<Rightarrow> Inl e | Inr _ \<Rightarrow> Inr (f name))"
  by (auto simp: txn_read_optional_def split: sum.splits)

lemma snapshot_differs_run:
  assumes "hd_policies h = []"
  shows "\<exists>r. snapshot_differs snap (h, f) = ((h, f), r) \<and>
    (r = Inr False \<longrightarrow> (\<forall>(name, content) \<in> set snap. f name = content)) \<and>
    ((\<forall>(name, content) \<in> set snap. handle_read_target h name = Inr ()) \<longrightarrow>
       r = Inr (list_ex (\<lambda>(name, content). f name \<noteq> content) snap))"
proof (induction snap)
  case (Cons p snap)
  obtain name content where p: "p = (name, content)" by (cases p)
  show ?case
  proof (cases "handle_read_target h name")
    case (Inl e)
    then show ?thesis using assms by (simp add: p act_bind_def read_optional_free)
  next
    case (Inr u)
    with Cons assms show ?thesis by (auto simp: p act_bind_def act_return_def read_optional_free)
  qed
qed (simp add: act_return_def)

lemma no_policies [simp]: "extra_read_policies extras [] = Inr []"
  by (simp add: extra_read_policies_def Let_def)

lemma check_extras_free: "check_extras targets extras [] = Inr policies \<Longrightarrow> policies = []"
  by (auto simp: check_extras_def split: if_splits)

text \<open>An evaluation that reads its snapshot again under the lock finds every file as it was.\<close>

lemma authenticated_files:
  assumes "read_transaction co extras [] (authenticate_snapshot snap) d = (d', Inr u)"
  shows "\<forall>(name, content) \<in> set snap. dk_files d' name = content"
proof -
  from assms obtain d1 b where d1: "recover (co_targets co) (co_legacy_sets co) d = Inr (b, d1)"
    and run: "(case authenticate_snapshot snap (new_handle (co_targets co) extras True [], dk_files d1) of
        ((_, f), r) \<Rightarrow> (d1\<lparr>dk_files := f\<rparr>, r)) = (d', Inr u)"
    by (auto simp: read_transaction_def dest!: check_extras_free split: sum.splits)
  let ?h = "new_handle (co_targets co) extras True []"
  have "hd_policies ?h = []" by (simp add: new_handle_def)
  from snapshot_differs_run [OF this, of snap "dk_files d1"] obtain r where
    r: "snapshot_differs snap (?h, dk_files d1) = ((?h, dk_files d1), r)"
    and same: "r = Inr False \<Longrightarrow> \<forall>(name, content) \<in> set snap. dk_files d1 name = content"
    by blast
  from run r have "r = Inr False \<and> d' = d1\<lparr>dk_files := dk_files d1\<rparr>"
    by (auto simp: authenticate_snapshot_def act_bind_def act_guard_def split: sum.splits if_splits)
  with same show ?thesis by simp
qed

lemma held_snapshot_Inr:
  assumes "held_snapshot env d = Inr (snap, d')"
  shows "snap = take_snapshot (co_targets (pf_transactions env) @ [''config'']) (dk_files d')"
    and "check_extras (co_targets (pf_transactions env)) [''config''] [] = Inr []"
    and "\<exists>b. recover (co_targets (pf_transactions env)) (co_legacy_sets (pf_transactions env)) d = Inr (b, d')"
  using assms check_extras_free by (auto simp: held_snapshot_def Let_def res_bind_Inr_iff)

section \<open>What a result rests on\<close>

text \<open>The request turn and the agent's turn: two consecutive entries of the conversation's connector that the
  reader may see, the first with the text of the request, the second with exactly what was submitted.\<close>

definition turns_recorded ::
  "preflight_env \<Rightarrow> task_envelope \<Rightarrow> classification_submission \<Rightarrow> held_state \<Rightarrow> string list \<Rightarrow> bool" where
  "turns_recorded env e s st ps \<longleftrightarrow>
     (\<exists>request \<in> set (hs_ingestions st). \<exists>agent \<in> set (hs_ingestions st).
        er_id (ing_evidence request) = te_request_evidence_ref e \<and> er_id (ing_evidence agent) = sb_agent_evidence_ref s \<and>
        ing_connector_id request = pf_connector_id env \<and> ing_connector_id agent = pf_connector_id env \<and>
        ing_evidence request \<in> set (hs_evidence st) \<and> ing_evidence agent \<in> set (hs_evidence st) \<and>
        turns_agree env e s request agent ps)"

lemma turn_ingestion_Inr:
  assumes "turn_ingestion i ings c = Inr entry"
  shows "entry \<in> set ings" "ing_connector_id entry = c" "er_id (ing_evidence entry) = i"
proof -
  have "filter (\<lambda>x. ing_connector_id x = c \<and> er_id (ing_evidence x) = i) ings = [entry]"
    using assms by (auto simp: turn_ingestion_def split: list.splits)
  then have "entry \<in> set (filter (\<lambda>x. ing_connector_id x = c \<and> er_id (ing_evidence x) = i) ings)" by simp
  then show "entry \<in> set ings" "ing_connector_id entry = c" "er_id (ing_evidence entry) = i" by simp_all
qed

lemma validate_turns_Inr:
  assumes "validate_turns env e s st ps = Inr (request, agent)"
  shows "turns_recorded env e s st ps" "er_id request = te_request_evidence_ref e" "er_id agent = sb_agent_evidence_ref s"
    "refs_allowed [te_request_evidence_ref e, sb_agent_evidence_ref s] (hs_evidence st) (Many ps)"
proof -
  from assms obtain x y where x: "turn_ingestion (te_request_evidence_ref e) (hs_ingestions st) (pf_connector_id env) = Inr x"
    and y: "turn_ingestion (sb_agent_evidence_ref s) (hs_ingestions st) (pf_connector_id env) = Inr y"
    and agree: "turns_agree env e s x y ps" and xy: "ing_evidence x = request" "ing_evidence y = agent"
    and found: "map_of (dict_of er_id (hs_evidence st)) (er_id request) = Some request"
      "map_of (dict_of er_id (hs_evidence st)) (er_id agent) = Some agent"
    by (auto simp: validate_turns_def Let_def res_bind_Inr_iff simp del: map_of_eq_Some_iff split: if_splits)
  note x = turn_ingestion_Inr [OF x] and y = turn_ingestion_Inr [OF y]
  from found have "agent \<in> set (hs_evidence st)" by (blast dest: dict_of_lookup)
  moreover from found have "request \<in> set (hs_evidence st)" by (blast dest: dict_of_lookup)
  ultimately show "turns_recorded env e s st ps"
    using x y xy agree unfolding turns_recorded_def by blast
  show "er_id request = te_request_evidence_ref e" "er_id agent = sb_agent_evidence_ref s"
    "refs_allowed [te_request_evidence_ref e, sb_agent_evidence_ref s] (hs_evidence st) (Many ps)"
    using x y xy found agree by (auto simp: refs_allowed_def turns_agree_def Let_def simp del: map_of_eq_Some_iff)
qed

text \<open>A relevant identifier that is an active node whose evidence is readable.\<close>

definition grounded :: "held_state \<Rightarrow> string list \<Rightarrow> string list \<Rightarrow> string \<Rightarrow> bool" where
  "grounded st ps cited i \<longleftrightarrow>
     (\<exists>n \<in> set (g_nodes (hs_graph st)). nd_id n = i \<and> nd_status n = ''active'' \<and>
        set (nd_evidence_refs n) \<subseteq> set cited \<and> refs_allowed (nd_evidence_refs n) (hs_evidence st) (Many ps))"

lemma select_one_grows:
  "select_one st ps provisional i t = Inr t' \<Longrightarrow> set (fst t) \<subseteq> set (fst t') \<and> set (snd t) \<subseteq> set (snd t')"
  by (cases t; cases t') (auto simp: select_one_def split: option.splits if_splits)

lemma select_one_nodes:
  assumes "fold_res (select_one st ps provisional) ids (chosen0, permitted0) = Inr (chosen, permitted)"
    and "\<not> list_ex is_proposal chosen" and "i \<in> set ids"
  shows "grounded st ps permitted i"
  using assms
proof (induction ids arbitrary: chosen0 permitted0)
  case (Cons j ids)
  from Cons.prems(1) obtain chosen1 permitted1 where one: "select_one st ps provisional j (chosen0, permitted0) = Inr (chosen1, permitted1)"
    and rest: "fold_res (select_one st ps provisional) ids (chosen1, permitted1) = Inr (chosen, permitted)"
    by (auto split: sum.splits)
  have keeps: "set chosen1 \<subseteq> set chosen \<and> set permitted1 \<subseteq> set permitted"
    using fold_res_invariant [OF rest, of "\<lambda>t. set chosen1 \<subseteq> set (fst t) \<and> set permitted1 \<subseteq> set (snd t)"] select_one_grows
    by fastforce
  show ?case
  proof (cases "i = j")
    case False
    with Cons.IH [OF rest Cons.prems(2)] Cons.prems(3) show ?thesis by simp
  next
    case True
    let ?active = "dict_of nd_id (filter (\<lambda>n. nd_status n = ''active'') (g_nodes (hs_graph st)))"
    show ?thesis
    proof (cases "map_of ?active j")
      case None
      then have "\<exists>p. Selected_Proposal p \<in> set chosen1"
        using one by (auto simp: select_one_def simp del: map_of_eq_None_iff split: option.splits if_splits)
      then have "list_ex is_proposal chosen" using keeps by (force simp: list_ex_iff is_proposal_def)
      with Cons.prems(2) show ?thesis by simp
    next
      case (Some n)
      then have n: "n \<in> set (g_nodes (hs_graph st))" "nd_status n = ''active''" "nd_id n = j"
        using dict_of_lookup [OF Some] by auto
      from one Some have "refs_allowed (nd_evidence_refs n) (hs_evidence st) (Many ps)" "permitted1 = permitted0 @ nd_evidence_refs n"
        by (auto simp: select_one_def simp del: map_of_eq_Some_iff split: if_splits)
      then show ?thesis using n True keeps unfolding grounded_def by auto
    qed
  qed
qed simp

lemma validate_references_nodes:
  assumes "validate_references env s st ps = Inr (chosen, relevant_evidence)" "\<not> list_ex is_proposal chosen"
    "set relevant_evidence \<subseteq> set (sb_evidence_refs s)" "i \<in> set (sb_relevant_node_ids s)"
  shows "grounded st ps (sb_evidence_refs s) i"
proof -
  from assms(1) obtain provisional permitted where
    run: "fold_res (select_one st ps provisional) (sb_relevant_node_ids s) ([], []) = Inr (chosen, permitted)"
    and refs: "relevant_evidence = sorted_set permitted"
    by (auto simp: validate_references_def res_bind_Inr_iff split: if_splits)
  from select_one_nodes [OF run assms(2,4)] refs assms(3) show ?thesis by (auto simp: grounded_def)
qed

lemma evaluated:
  assumes "evaluate_authenticated env others tid e0 s0 ps d = (d', Inr a)"
  obtains e s snap d1 st candidate r where "checked_input env e0 s0 ps = Inr (e, s)"
    "held_snapshot env (others 0 d) = Inr (snap, d1)" "snapshot_state env snap = Inr st"
    "assess env e s ps snap st = Inr (ap_graph_digest a, r, candidate)"
    "settle env others tid snap st ps (r, candidate) d1 = (d', Inr (ap_result a))"
proof -
  from assms obtain e s where input: "checked_input env e0 s0 ps = Inr (e, s)"
    and run: "evaluate_held env others tid e s ps d = (d', Inr a)"
    by (auto simp: evaluate_authenticated_def split: sum.splits prod.splits)
  from run obtain snap d1 st digest r candidate where "held_snapshot env (others 0 d) = Inr (snap, d1)"
    "snapshot_state env snap = Inr st" "assess env e s ps snap st = Inr (digest, r, candidate)"
    "settle env others tid snap st ps (r, candidate) d1 = (d', Inr (ap_result a))" "ap_graph_digest a = digest"
    by (auto simp: evaluate_held_def res_bind_Inr_iff split: sum.splits prod.splits)
  with input that show ?thesis by blast
qed

lemma assessed:
  assumes "assess env e s ps snap st = Inr (digest, r, candidate)"
  obtains found chosen relevant_evidence request agent where
    "canonical_graph_digest (pf_codecs env) (text_of (held snap ''graph'')) = Inr digest"
    "bindings_agree env e s st ps found" "validate_turns env e s st ps = Inr (request, agent)"
    "validate_references env s st ps = Inr (chosen, relevant_evidence)"
    "set relevant_evidence \<subseteq> set (sb_evidence_refs s)"
    "classify env e s st ps chosen (fresh_result e s st (fromkeys ([er_id request, er_id agent] @ sb_evidence_refs s))) =
       Inr (r, candidate)"
  using assms unfolding assess_def
  by (auto simp: res_bind_Inr_iff split: if_splits)

lemma blocking_cases_Nil:
  "blocking_cases cases relevant = [] \<longleftrightarrow> (\<forall>c \<in> set cases. is_nonterminal_case_status (rc_status c) \<longrightarrow> \<not> touches relevant c)"
  by (simp add: blocking_cases_def filter_empty_conv)

lemma touches_Nil [simp]: "\<not> touches [] c"
  by (simp add: touches_def)

text \<open>What the four classifications leave.\<close>

lemma classified:
  assumes "classify env e s st ps chosen (fresh_result e s st cited) = Inr (r, candidate)"
  shows "pr_task_id r = te_id e" "pr_graph_version r = g_version (hs_graph st)" "pr_classification r = sb_classification s"
    "pr_relevant_node_ids r = sb_relevant_node_ids s" "pr_evidence_refs r = cited" "pr_review_case_id r = None"
    "pr_authorized r \<longleftrightarrow> sb_classification s \<in> {No_Semantic_Impact, Aligned}"
    "pr_permitted_scope r = (if pr_authorized r then sb_requested_scope s else [])"
    "pr_authorized r \<Longrightarrow> candidate = None \<and> pr_questions r = [] \<and> \<not> (sb_classification s = Aligned \<and> list_ex is_proposal chosen) \<and>
      (sb_classification s = Aligned \<longleftrightarrow> sb_relevant_node_ids s \<noteq> []) \<and> sb_conflict_claims s = [] \<and>
      (sb_classification s = No_Semantic_Impact \<longrightarrow> sb_semantic_effects s = []) \<and> sb_uncertainties s = [] \<and>
      (\<forall>c \<in> set (hs_cases st). is_nonterminal_case_status (rc_status c) \<longrightarrow> \<not> touches (sb_relevant_node_ids s) c)"
    "sb_classification s = Conflicting \<longleftrightarrow> candidate \<noteq> None"
    "candidate = Some c \<Longrightarrow> new_conflict_case env e s st = Inr c"
  using assms
  by (auto simp: classify_def fresh_result_def res_bind_Inr_iff blocking_cases_Nil split: TaskClassification.splits if_splits)

lemma held_mem: "held snap name = Some content \<Longrightarrow> (name, Some content) \<in> set snap"
  by (auto simp: held_def split: option.splits intro: map_of_SomeD)

lemma snapshot_state_files:
  assumes "snapshot_state env snap = Inr st" "\<forall>(name, content) \<in> set snap. f name = content"
  shows "held snap ''graph'' = f ''graph''"
proof -
  from assms(1) obtain content where "held snap ''graph'' = Some content"
    by (auto simp: snapshot_state_def split: option.splits)
  with held_mem [OF this] assms(2) show ?thesis by auto
qed

section \<open>The two readers of the proposal ledger\<close>

lemma note_frame_added:
  assumes "add_frame dm n f st = Inr (Some st')"
  shows "if_sequence f = int n"
    "note_frame dm (if_payload f) (ls_proposals st, ls_decisions st) = Some (ls_proposals st', ls_decisions st')"
  using assms
  by (auto simp: add_frame_def note_frame_def add_event_def add_proposal_def add_decision_def Let_def res_bind_Inr_iff
      simp del: map_of_eq_None_iff map_of_eq_Some_iff split: if_splits intent_payload.splits option.splits)

lemma note_frames_decoded:
  "decode_frames cd n lines st = Inr (Some st') \<Longrightarrow>
     note_frames cd n lines (ls_proposals st, ls_decisions st) = Some (ls_proposals st', ls_decisions st')"
proof (induction cd n lines st rule: decode_frames.induct)
  case (2 cd n line lines st)
  then obtain f st1 where f: "decode_frame cd line = Some f" and st1: "add_frame (ix_dumpers cd) n f st = Inr (Some st1)"
    and rest: "decode_frames cd (Suc n) lines st1 = Inr (Some st')"
    by (auto split: option.splits sum.splits)
  from "2.IH" [OF f st1 refl rest] note_frame_added [OF st1] f show ?case by simp
qed simp

lemma note_frame_keys:
  "note_frame dm payload st = Some st' \<Longrightarrow> \<forall>x \<in> set (fst st). ip_id (snd x) = fst x \<Longrightarrow>
     \<forall>x \<in> set (fst st'). ip_id (snd x) = fst x"
  by (cases st) (auto simp: note_frame_def split: intent_payload.splits option.splits if_splits)

lemma note_frames_keys:
  "note_frames cd n lines st = Some st' \<Longrightarrow> \<forall>x \<in> set (fst st). ip_id (snd x) = fst x \<Longrightarrow>
     \<forall>x \<in> set (fst st'). ip_id (snd x) = fst x"
proof (induction lines arbitrary: n st)
  case (Cons line lines)
  then obtain f :: intent_frame and st1 where one: "note_frame (ix_dumpers cd) (if_payload f) st = Some st1"
    and rest: "note_frames cd (Suc n) lines st1 = Some st'"
    by (simp split: option.splits if_splits)
  from Cons.IH [OF rest note_frame_keys [OF one Cons.prems(2)]] show ?case .
qed simp

section \<open>Evaluation without interference\<close>

lemma new_preflight_targets:
  "new_preflight env = Inr env' \<Longrightarrow> {''graph'', ''evidence'', ''cases'', ''intent_proposals''} \<subseteq> set (co_targets (pf_transactions env))"
  by (auto simp: new_preflight_def split: if_splits)

lemma held_take_snapshot: "held (take_snapshot names f) name = (if name \<in> set names then f name else None)"
proof -
  have "map_of (map (\<lambda>n. (n, f n)) ns) name = (if name \<in> set ns then Some (f name) else None)" for ns
    by (induction ns) auto
  then show ?thesis by (simp add: held_def take_snapshot_def)
qed

lemma quiet_snapshot:
  assumes "held_snapshot env d = Inr (snap, d')" "dk_journal d = None"
  shows "d' = d" "snap = take_snapshot (co_targets (pf_transactions env) @ [''config'']) (dk_files d)"
    "check_extras (co_targets (pf_transactions env)) [''config''] [] = Inr []"
  using held_snapshot_Inr [OF assms(1)] recover_settled [OF assms(2)] by auto

text \<open>A snapshot of the files a scope sees shows no difference.\<close>

lemma snapshot_agrees:
  assumes "hd_policies h = []" "hd_active h" "set names \<subseteq> set (hd_targets h) \<union> set (hd_extras h)"
  shows "snapshot_differs (take_snapshot names f) (h, f) = ((h, f), Inr False)"
proof -
  have "\<forall>(name, content) \<in> set (take_snapshot names f). handle_read_target h name = Inr () \<and> f name = content"
    using assms by (auto simp: take_snapshot_def handle_read_target_def)
  moreover from this have "\<not> list_ex (\<lambda>(name, content). f name \<noteq> content) (take_snapshot names f)"
    by (auto simp: list_ex_iff)
  ultimately show ?thesis
    using snapshot_differs_run [OF assms(1), of "take_snapshot names f" f] by fastforce
qed

lemma confined_snapshot_differs [confined_intros]: "confined (snapshot_differs snap)"
  by (induction snap rule: snapshot_differs.induct) (auto intro!: confined_intros)

lemma confined_append_case: "confined (append_case snap line)"
  unfolding append_case_def by (intro confined_intros)

lemma quiet_append:
  assumes "new_preflight env = Inr env'" "held_snapshot env d = Inr (snap, d)" "dk_journal d = None"
  shows "run_transaction (pf_transactions env) [''config''] [] tid (append_case snap line) d =
    (\<lparr>dk_files = (dk_files d)(''cases'' := append_text (dk_files d ''cases'') line), dk_journal = None\<rparr>, Inr ())"
proof -
  note q = quiet_snapshot [OF assms(2,3)]
  let ?co = "pf_transactions env"
  let ?h = "new_handle (co_targets ?co) [''config''] False []"
  have "recover (co_targets ?co) (co_legacy_sets ?co) d = Inr (False, \<lparr>dk_files = dk_files d, dk_journal = None\<rparr>)"
    using recover_settled [OF assms(3)] assms(3) by simp
  note run_transaction_outcome [OF confined_append_case q(3) this]
  moreover have "append_case snap line (?h, dk_files d) =
      ((?h, (dk_files d)(''cases'' := append_text (dk_files d ''cases'') line)), Inr ())"
    using snapshot_agrees [of ?h "co_targets ?co @ [''config'']" "dk_files d"] new_preflight_targets [OF assms(1)]
    by (simp add: q(2) append_case_def act_bind_def act_guard_def txn_append_def handle_target_def new_handle_def)
  ultimately show ?thesis by simp
qed

lemma quiet_authenticate:
  assumes "held_snapshot env d = Inr (snap, d)" "dk_journal d = None"
  shows "read_transaction (pf_transactions env) [''config''] [] (authenticate_snapshot snap) d = (d, Inr ())"
proof -
  note q = quiet_snapshot [OF assms]
  let ?co = "pf_transactions env"
  let ?h = "new_handle (co_targets ?co) [''config''] True []"
  have "authenticate_snapshot snap (?h, dk_files d) = ((?h, dk_files d), Inr ())"
    using snapshot_agrees [of ?h "co_targets ?co @ [''config'']" "dk_files d"]
    by (simp add: q(2) authenticate_snapshot_def act_bind_def act_guard_def new_handle_def)
  then show ?thesis using q(3) recover_settled [OF assms(2)] by (simp add: read_transaction_def)
qed

abbreviation nobody :: "nat \<Rightarrow> disk \<Rightarrow> disk" where
  "nobody \<equiv> \<lambda>_ d. d"

definition with_case :: "disk \<Rightarrow> string \<Rightarrow> disk" where
  "with_case d line = \<lparr>dk_files = (dk_files d)(''cases'' := append_text (dk_files d ''cases'') line), dk_journal = None\<rparr>"

lemma quiet_settle:
  assumes "new_preflight env = Inr env'" "held_snapshot env d = Inr (snap, d)" "dk_journal d = None"
  shows "settle env nobody tid snap st ps (r, candidate) d =
    (case candidate of
       None \<Rightarrow> (d, Inr r)
     | Some c \<Rightarrow>
         (case reusable_case (hs_cases st) c (hs_evidence st) ps of
            Inl er \<Rightarrow> (d, Inl er)
          | Inr (Some found) \<Rightarrow> (d, Inr (r\<lparr>pr_review_case_id := Some (rc_id found)\<rparr>))
          | Inr None \<Rightarrow>
              (case validate_case_appends (pf_case_dump env) (pf_case_decode env) (Some (text_of (dk_files d ''cases''))) [c] of
                 Inl er \<Rightarrow> (d, Inl er)
               | Inr line \<Rightarrow> (with_case d line, Inr (r\<lparr>pr_review_case_id := Some (rc_id c)\<rparr>)))))"
proof -
  have "held snap ''cases'' = dk_files d ''cases''"
    using quiet_snapshot(2) [OF assms(2,3)] new_preflight_targets [OF assms(1)] by (simp add: held_take_snapshot)
  then show ?thesis
    using quiet_append [OF assms] quiet_authenticate [OF assms(2,3)]
    by (simp add: settle_def create_or_reuse_case_def with_case_def split: option.split sum.split)
qed

lemma fold_res_single: "fold_res f [x] s = f x s"
  by (simp split: sum.split)

lemma single_append:
  "validate_case_appends dump decode content [c] = Inr line \<Longrightarrow> line = serialize_case dump c \<and> case_ok c"
  unfolding validate_case_appends_def fold_res_single by (auto simp: res_bind_Inr_iff validate_case_Inr_iff)

lemma lookups_Inr: "lookups d ks = Inr xs \<longleftrightarrow> length xs = length ks \<and> (\<forall>i < length ks. map_of d (ks ! i) = Some (xs ! i))"
proof (induction ks arbitrary: xs)
  case (Cons k ks)
  show ?case by (cases xs) (auto simp: Cons.IH All_less_Suc2 res_bind_Inr_iff split: option.splits)
qed auto

lemma lookups_mem: "lookups d ks = Inr xs \<Longrightarrow> x \<in> set xs \<Longrightarrow> \<exists>k \<in> set ks. map_of d k = Some x"
  by (metis in_set_conv_nth lookups_Inr)

lemma new_conflict_case_Inr:
  assumes "new_conflict_case env e s st = Inr c"
  shows "case_ok c" "rc_status c = OPEN" "rc_affected_refs c = sb_relevant_node_ids s" "immutable_identity c = c"
    "\<exists>active_refs. set (all_evidence_refs c) = set active_refs \<union> {te_request_evidence_ref e, sb_agent_evidence_ref s} \<and>
       (\<forall>ref \<in> set active_refs. \<exists>i \<in> set (sb_relevant_node_ids s). \<exists>n.
          map_of (dict_of nd_id (g_nodes (hs_graph st))) i = Some n \<and> ref \<in> set (nd_evidence_refs n))"
proof -
  from assms obtain nodes records agents where nodes: "lookups (dict_of nd_id (g_nodes (hs_graph st))) (sb_relevant_node_ids s) = Inr nodes"
    and c: "validate_case c = Inr c" "rc_status c = OPEN" "rc_affected_refs c = sb_relevant_node_ids s" "immutable_identity c = c"
      "map sd_evidence_refs (rc_evidence_sides c) =
         [sorted_set (concat (map nd_evidence_refs nodes)), [te_request_evidence_ref e, sb_agent_evidence_ref s]]"
    by (auto simp: new_conflict_case_def Let_def res_bind_Inr_iff validate_case_Inr_iff immutable_identity_def simp del: lookups.simps
        split: if_splits)
  show "case_ok c" "rc_status c = OPEN" "rc_affected_refs c = sb_relevant_node_ids s" "immutable_identity c = c"
    using c by (simp_all add: validate_case_Inr_iff)
  have "set (all_evidence_refs c) = set (concat (map nd_evidence_refs nodes)) \<union> {te_request_evidence_ref e, sb_agent_evidence_ref s}"
    by (simp add: all_evidence_refs_def c(5) del: set_concat)
  then show "\<exists>active_refs. set (all_evidence_refs c) = set active_refs \<union> {te_request_evidence_ref e, sb_agent_evidence_ref s} \<and>
       (\<forall>ref \<in> set active_refs. \<exists>i \<in> set (sb_relevant_node_ids s). \<exists>n.
          map_of (dict_of nd_id (g_nodes (hs_graph st))) i = Some n \<and> ref \<in> set (nd_evidence_refs n))"
    using lookups_mem [OF nodes] by (intro exI [of _ "concat (map nd_evidence_refs nodes)"]) fastforce
qed

lemma parsed_graph_distinct:
  assumes "parse_graph cd content = Inr g"
  shows "distinct (map nd_id (g_nodes g))"
proof -
  from assms obtain loaded where "(case loaded of JObj kvs \<Rightarrow> res_bind (graph_fields cd (canonical_graph_payload cd kvs)) validate_graph
      | _ \<Rightarrow> Inl (TypeError ''graph YAML must contain a mapping'')) = Inr g"
    unfolding parse_graph_def res_bind_Inr_iff by blast
  then have "graph_ok g" by (cases loaded) (auto simp: res_bind_Inr_iff validate_graph_Inr_iff)
  then show ?thesis by (simp add: graph_ok_def)
qed

text \<open>The case of a conflict rests on evidence the actor may read.\<close>

lemma conflict_case_readable:
  assumes "snapshot_state env snap = Inr st" "assess env e s ps snap st = Inr (digest, r, Some c)"
  shows "refs_allowed (all_evidence_refs c) (hs_evidence st) (Many ps)"
proof -
  from assms(2) obtain found chosen relevant_evidence request agent where
    turns: "validate_turns env e s st ps = Inr (request, agent)"
    and refs: "validate_references env s st ps = Inr (chosen, relevant_evidence)" "set relevant_evidence \<subseteq> set (sb_evidence_refs s)"
    and cls: "classify env e s st ps chosen (fresh_result e s st (fromkeys ([er_id request, er_id agent] @ sb_evidence_refs s))) =
       Inr (r, Some c)" by (rule assessed)
  from cls have conflict: "new_conflict_case env e s st = Inr c" "\<not> list_ex is_proposal chosen"
    by (auto simp: classify_def res_bind_Inr_iff split: TaskClassification.splits if_splits)
  note new_case = new_conflict_case_Inr(5) [OF conflict(1)] and ground = validate_references_nodes [OF refs(1) conflict(2) refs(2)]
  have "distinct (map nd_id (g_nodes (hs_graph st)))"
    using assms(1) by (auto simp: snapshot_state_def res_bind_Inr_iff split: option.splits dest: parsed_graph_distinct)
  note lookup = dict_of_lookup_iff [OF this]
  have node_refs: "refs_allowed (nd_evidence_refs n) (hs_evidence st) (Many ps)"
    if i: "i \<in> set (sb_relevant_node_ids s)" "map_of (dict_of nd_id (g_nodes (hs_graph st))) i = Some n" for i n
  proof -
    obtain m where m: "m \<in> set (g_nodes (hs_graph st))" "nd_id m = i" "refs_allowed (nd_evidence_refs m) (hs_evidence st) (Many ps)"
      using ground [OF i(1)] unfolding grounded_def by blast
    then have "map_of (dict_of nd_id (g_nodes (hs_graph st))) i = Some m" by (simp add: lookup)
    with i(2) m(3) show ?thesis by simp
  qed
  obtain active_refs where all: "set (all_evidence_refs c) = set (active_refs @ [te_request_evidence_ref e, sb_agent_evidence_ref s])"
    and active: "\<And>ref. ref \<in> set active_refs \<Longrightarrow> \<exists>i \<in> set (sb_relevant_node_ids s). \<exists>n.
      map_of (dict_of nd_id (g_nodes (hs_graph st))) i = Some n \<and> ref \<in> set (nd_evidence_refs n)"
    using new_case by auto
  have "refs_allowed active_refs (hs_evidence st) (Many ps)"
    using active node_refs unfolding refs_allowed_iff by blast
  with validate_turns_Inr(4) [OF turns] have "refs_allowed (active_refs @ [te_request_evidence_ref e, sb_agent_evidence_ref s]) (hs_evidence st) (Many ps)"
    by (simp only: refs_allowed_append)
  then show ?thesis by (rule refs_allowed_mono [rotated]) (simp only: all order_refl)
qed

text \<open>The case an evaluation on a disk needs, if it finds a conflict.\<close>

definition conflict_case_of ::
  "preflight_env \<Rightarrow> task_envelope \<Rightarrow> classification_submission \<Rightarrow> string list \<Rightarrow> disk \<Rightarrow> reconciliation_case res" where
  "conflict_case_of env e s ps d =
     res_bind (checked_input env e s ps) (\<lambda>(e, s).
     res_bind (held_snapshot env d) (\<lambda>(snap, _).
     res_bind (snapshot_state env snap) (\<lambda>st. new_conflict_case env e s st)))"

lemma assessed_result:
  assumes "assess env e s ps snap st = Inr (digest, r, candidate)"
  shows "pr_classification r = sb_classification s" "pr_authorized r \<longleftrightarrow> sb_classification s \<in> {No_Semantic_Impact, Aligned}"
    "pr_permitted_scope r = (if pr_authorized r then sb_requested_scope s else [])" "pr_relevant_node_ids r = sb_relevant_node_ids s"
    "sb_classification s = Conflicting \<longleftrightarrow> candidate \<noteq> None" "candidate = Some c \<Longrightarrow> new_conflict_case env e s st = Inr c"
proof -
  from assms obtain chosen and request agent :: evidence_record where
    cls: "classify env e s st ps chosen (fresh_result e s st (fromkeys ([er_id request, er_id agent] @ sb_evidence_refs s))) =
       Inr (r, candidate)" by (rule assessed)
  show "pr_classification r = sb_classification s" "pr_authorized r \<longleftrightarrow> sb_classification s \<in> {No_Semantic_Impact, Aligned}"
    "pr_permitted_scope r = (if pr_authorized r then sb_requested_scope s else [])" "pr_relevant_node_ids r = sb_relevant_node_ids s"
    "sb_classification s = Conflicting \<longleftrightarrow> candidate \<noteq> None" "candidate = Some c \<Longrightarrow> new_conflict_case env e s st = Inr c"
    using classified(3,7,8,4,10,11) [OF cls] by blast+
qed

text \<open>Without interference the evaluation is a function of the disk: the transaction's name does not matter.\<close>

definition quiet_outcome ::
  "preflight_env \<Rightarrow> task_envelope \<Rightarrow> classification_submission \<Rightarrow> string list \<Rightarrow> disk \<Rightarrow> disk \<times> authenticated_result res" where
  "quiet_outcome env e s ps d =
     (case res_bind (held_snapshot env d) (\<lambda>(snap, _). res_bind (snapshot_state env snap) (\<lambda>st.
        res_bind (assess env e s ps snap st) (\<lambda>x. Inr (st, x)))) of
        Inl er \<Rightarrow> (d, Inl er)
      | Inr (st, digest, r, None) \<Rightarrow> (d, Inr \<lparr>ap_result = r, ap_graph_digest = digest\<rparr>)
      | Inr (st, digest, r, Some c) \<Rightarrow>
          (case reusable_case (hs_cases st) c (hs_evidence st) ps of
             Inl er \<Rightarrow> (d, Inl er)
           | Inr (Some found) \<Rightarrow>
               (d, Inr \<lparr>ap_result = r\<lparr>pr_review_case_id := Some (rc_id found)\<rparr>, ap_graph_digest = digest\<rparr>)
           | Inr None \<Rightarrow>
               (case validate_case_appends (pf_case_dump env) (pf_case_decode env) (Some (text_of (dk_files d ''cases''))) [c] of
                  Inl er \<Rightarrow> (d, Inl er)
                | Inr line \<Rightarrow>
                    (with_case d line, Inr \<lparr>ap_result = r\<lparr>pr_review_case_id := Some (rc_id c)\<rparr>, ap_graph_digest = digest\<rparr>))))"

lemma quiet_evaluation:
  assumes "new_preflight env = Inr env'" "dk_journal d = None"
  shows "evaluate_held env nobody tid e s ps d = quiet_outcome env e s ps d"
proof (cases "held_snapshot env d")
  case (Inr p)
  then obtain snap where snap: "held_snapshot env d = Inr (snap, d)"
    using quiet_snapshot(1) [OF _ assms(2)] by (cases p) auto
  note run = quiet_settle [OF assms(1) snap assms(2)]
  show ?thesis
  proof (cases "res_bind (snapshot_state env snap) (\<lambda>st. res_bind (assess env e s ps snap st) (\<lambda>x. Inr (st, x)))")
    case (Inr q)
    obtain st digest r candidate where q: "q = (st, digest, r, candidate)" by (cases q) auto
    show ?thesis
      by (simp add: evaluate_held_def quiet_outcome_def snap Inr q run split: option.split sum.split)
  qed (simp add: evaluate_held_def quiet_outcome_def snap)
qed (simp add: evaluate_held_def quiet_outcome_def)

lemma quiet_outcome_cases:
  assumes "quiet_outcome env e s ps d = (d', x)"
  shows "d' = d \<or> (\<exists>snap d1 st digest r c. held_snapshot env d = Inr (snap, d1) \<and> snapshot_state env snap = Inr st \<and>
    assess env e s ps snap st = Inr (digest, r, Some c) \<and> reusable_case (hs_cases st) c (hs_evidence st) ps = Inr None \<and>
    validate_case_appends (pf_case_dump env) (pf_case_decode env) (Some (text_of (dk_files d ''cases''))) [c] =
      Inr (serialize_case (pf_case_dump env) c) \<and> case_ok c \<and> d' = with_case d (serialize_case (pf_case_dump env) c) \<and>
    x = Inr \<lparr>ap_result = r\<lparr>pr_review_case_id := Some (rc_id c)\<rparr>, ap_graph_digest = digest\<rparr>)"
  using assms single_append [of "pf_case_dump env" "pf_case_decode env"] unfolding quiet_outcome_def
  by (auto simp: res_bind_Inr_iff split: sum.splits option.splits prod.splits)

section \<open>Replaying a conflict\<close>

text \<open>Only an aligned classification depends on the cases.\<close>

lemma held_fields:
  "hs_config (st\<lparr>hs_cases := cs\<rparr>) = hs_config st" "hs_graph (st\<lparr>hs_cases := cs\<rparr>) = hs_graph st"
  "hs_evidence (st\<lparr>hs_cases := cs\<rparr>) = hs_evidence st" "hs_ingestions (st\<lparr>hs_cases := cs\<rparr>) = hs_ingestions st"
  "hs_proposals (st\<lparr>hs_cases := cs\<rparr>) = hs_proposals st"
  by simp_all

lemma other_cases:
  "validate_turns env e s (st\<lparr>hs_cases := cs\<rparr>) ps = validate_turns env e s st ps"
  "bindings_agree env e s (st\<lparr>hs_cases := cs\<rparr>) ps found = bindings_agree env e s st ps found"
  "new_conflict_case env e s (st\<lparr>hs_cases := cs\<rparr>) = new_conflict_case env e s st"
  "fresh_result e s (st\<lparr>hs_cases := cs\<rparr>) cited = fresh_result e s st cited"
  "proposal_shape_ok env (st\<lparr>hs_cases := cs\<rparr>) ps p = proposal_shape_ok env st ps p"
  "select_one (st\<lparr>hs_cases := cs\<rparr>) ps provisional = select_one st ps provisional"
  "matched_roles (st\<lparr>hs_cases := cs\<rparr>) p = matched_roles st p"
  "candidate_ok (st\<lparr>hs_cases := cs\<rparr>) ps p = candidate_ok st ps p"
  "candidate_edge_ok (st\<lparr>hs_cases := cs\<rparr>) p = candidate_edge_ok st p"
  unfolding validate_turns_def bindings_agree_def new_conflict_case_def fresh_result_def proposal_shape_ok_def
    select_one_def matched_roles_def candidate_ok_def candidate_edge_ok_def held_fields by (rule refl)+

lemma other_cases_references:
  "proposal_roles_ok (st\<lparr>hs_cases := cs\<rparr>) p = proposal_roles_ok st p"
  "index_proposal env (st\<lparr>hs_cases := cs\<rparr>) ps = index_proposal env st ps"
  "validate_references env s (st\<lparr>hs_cases := cs\<rparr>) ps = validate_references env s st ps"
proof -
  show roles: "proposal_roles_ok (st\<lparr>hs_cases := cs\<rparr>) p = proposal_roles_ok st p" for p
    unfolding proposal_roles_ok_def other_cases held_fields by (rule refl)
  have edge: "candidate_edge_ok (st\<lparr>hs_cases := cs\<rparr>) p = candidate_edge_ok st p"
    and node: "candidate_ok (st\<lparr>hs_cases := cs\<rparr>) ps p = candidate_ok st ps p" for p
    by (simp_all add: fun_eq_iff other_cases)
  show indexed: "index_proposal env (st\<lparr>hs_cases := cs\<rparr>) ps = index_proposal env st ps"
    by (rule ext)+ (unfold index_proposal_def roles edge node other_cases, rule refl)
  show "validate_references env s (st\<lparr>hs_cases := cs\<rparr>) ps = validate_references env s st ps"
    unfolding validate_references_def proposal_index_def indexed other_cases held_fields by (rule refl)
qed

lemma assess_other_cases:
  assumes "assess env e s ps snap st = Inr (digest, r, Some c)" "held snap' ''graph'' = held snap ''graph''" "pf_resolver env = None"
  shows "assess env e s ps snap' (st\<lparr>hs_cases := cs\<rparr>) = Inr (digest, r, Some c)"
proof -
  have "sb_classification s = Conflicting" using assessed_result(5) [OF assms(1)] by simp
  then have same: "classify env e s (st\<lparr>hs_cases := cs\<rparr>) ps chosen r0 = classify env e s st ps chosen r0" for chosen r0
    by (simp add: classify_def other_cases)
  have "assess env e s ps snap' (st\<lparr>hs_cases := cs\<rparr>) = assess env e s ps snap st"
    unfolding assess_def assms(2,3) project_principals_def other_cases other_cases_references held_fields option.case same
    by (rule refl)
  with assms(1) show ?thesis by simp
qed

lemma snapshot_state_other_cases:
  assumes "snapshot_state env snap = Inr st" "\<And>name. name \<noteq> ''cases'' \<Longrightarrow> held snap' name = held snap name"
    and "parse_case_versions (pf_case_decode env) (Some (text_of (held snap' ''cases''))) = Inr vs"
  shows "snapshot_state env snap' = Inr (st\<lparr>hs_cases := sorted_values (dict_of rc_id vs)\<rparr>)"
proof -
  have same: "held snap' ''config'' = held snap ''config''" "held snap' ''graph'' = held snap ''graph''"
    "held snap' ''evidence'' = held snap ''evidence''" "held snap' ''intent_proposals'' = held snap ''intent_proposals''"
    by (simp_all add: assms(2))
  show ?thesis
    using assms(1) unfolding snapshot_state_def same assms(3)
    by (auto simp: res_bind_Inr_iff split: option.splits)
qed

lemma filter_one: "distinct ks \<Longrightarrow> k \<in> set ks \<Longrightarrow> filter (\<lambda>x. x = k) ks = [k]"
  by (induction ks) (auto simp: filter_empty_conv)

text \<open>A case that matched nothing is the only match once it is stored.\<close>

lemma reusable_case_stored:
  assumes "reusable_case (sorted_values (dict_of rc_id vs)) c evidence ps = Inr None"
    and "rc_status c = OPEN" "refs_allowed (all_evidence_refs c) evidence (Many ps)"
  shows "reusable_case (sorted_values (dict_of rc_id (vs @ [c]))) c evidence ps = Inr (Some c)"
proof -
  let ?d = "dict_of rc_id vs" and ?d' = "dict_of rc_id (vs @ [c])"
  let ?match = "\<lambda>x. rc_id x = rc_id c \<or> rc_fingerprint x = rc_fingerprint c"
  from assms(1) have "filter ?match (sorted_values ?d) = []"
    by (auto simp: reusable_case_def split: list.splits if_splits)
  then have none: "\<not> ?match x" if "(k, x) \<in> set ?d" for k x
    using that set_sorted_values [OF dict_of_distinct_keys, of rc_id vs] by (force simp: filter_empty_conv)
  have "?match (the (map_of ?d' k)) \<longleftrightarrow> k = rc_id c" if k: "k \<in> fst ` set ?d'" for k
  proof (cases "k = rc_id c")
    case False
    with k obtain x where "map_of ?d k = Some x"
      by (metis dict_of_snoc fst_set_update imageE insertE map_of_eq_None_iff not_None_eq image_eqI)
    with none [OF map_of_SomeD [OF this]] False show ?thesis by simp
  qed simp
  then have "filter ?match (sorted_values ?d') = map (\<lambda>k. the (map_of ?d' k)) (filter (\<lambda>k. k = rc_id c) (sort (map fst ?d')))"
    unfolding sorted_values_def filter_map by (intro arg_cong [where f = "map _"] filter_cong) auto
  moreover have "filter (\<lambda>k. k = rc_id c) (sort (map fst ?d')) = [rc_id c]"
    by (rule filter_one) (simp_all del: dict_of_snoc add: dict_of_keys)
  ultimately have "filter ?match (sorted_values ?d') = [c]" by simp
  then show ?thesis using assms(2,3) by (simp add: reusable_case_def is_nonterminal_case_status_def)
qed

lemma append_text_of [simp]: "append_text (Some (text_of content)) line = append_text content line"
  by (simp add: append_text_def text_of_def)

lemma parse_cases_text: "parse_case_versions decode (Some (text_of content)) = parse_case_versions decode content"
  by (simp add: parse_case_versions_def parse_versions_text)

lemma snapshot_state_cases:
  assumes "snapshot_state env snap = Inr st"
  obtains vs where "parse_case_versions (pf_case_decode env) (held snap ''cases'') = Inr vs"
    "hs_cases st = sorted_values (dict_of rc_id vs)"
  using assms by (auto simp: snapshot_state_def res_bind_Inr_iff parse_cases_text split: option.splits)

lemma reusable_case_Some:
  assumes "reusable_case (sorted_values (dict_of rc_id vs)) c evidence ps = Inr (Some x)" "immutable_identity c = c"
  shows "map_of (dict_of rc_id vs) (rc_id c) = Some x" "is_nonterminal_case_status (rc_status x)" "immutable_identity x = c"
proof -
  let ?match = "\<lambda>y. rc_id y = rc_id c \<or> rc_fingerprint y = rc_fingerprint c"
  have found: "filter ?match (sorted_values (dict_of rc_id vs)) = [x]"
    and x: "is_nonterminal_case_status (rc_status x)" "immutable_identity x = c"
    using assms by (auto simp: reusable_case_def split: list.splits if_splits)
  then show "is_nonterminal_case_status (rc_status x)" "immutable_identity x = c" by simp_all
  have "x \<in> set (filter ?match (sorted_values (dict_of rc_id vs)))" by (simp only: found) simp
  then obtain k where "(k, x) \<in> set (dict_of rc_id vs)"
    by (auto simp: set_sorted_values)
  moreover from this have "k = rc_id x" by (auto dest: dict_of_mem)
  moreover have "rc_id x = rc_id c" using x(2) assms(2) immutable_identity_eq [of x c] by simp
  ultimately show "map_of (dict_of rc_id vs) (rc_id c) = Some x" by simp
qed

text \<open>The disk with the new case holds it, and an evaluation there finds it.\<close>

lemma stored_case:
  assumes "new_preflight env = Inr env" "dk_journal d = None" "pf_resolver env = None"
    and "complete_lines (text_of (dk_files d ''cases''))" "storable (pf_case_dump env) (pf_case_decode env) c"
    and snap: "held_snapshot env d = Inr (snap, d)" and st: "snapshot_state env snap = Inr st"
    and assess: "assess env e s ps snap st = Inr (digest, r, Some c)"
    and fresh: "reusable_case (hs_cases st) c (hs_evidence st) ps = Inr None"
    and line: "validate_case_appends (pf_case_dump env) (pf_case_decode env) (Some (text_of (dk_files d ''cases''))) [c] = Inr line"
  shows "\<exists>vs. parse_case_versions (pf_case_decode env) (dk_files (with_case d line) ''cases'') = Inr (vs @ [c])"
    and "quiet_outcome env e s ps (with_case d line) =
      (with_case d line, Inr \<lparr>ap_result = r\<lparr>pr_review_case_id := Some (rc_id c)\<rparr>, ap_graph_digest = digest\<rparr>)"
proof -
  have snap_eq: "snap = take_snapshot (co_targets (pf_transactions env) @ [''config'']) (dk_files d)"
    by (rule quiet_snapshot(2) [OF snap assms(2)])
  have cases: "held snap ''cases'' = dk_files d ''cases''"
    using new_preflight_targets [OF assms(1)] by (simp add: snap_eq held_take_snapshot)
  obtain vs where vs: "parse_case_versions (pf_case_decode env) (dk_files d ''cases'') = Inr vs"
    "hs_cases st = sorted_values (dict_of rc_id vs)"
    using snapshot_state_cases [OF st] cases by metis
  obtain index where "parse_versions_with_history (pf_case_decode env) (Some (text_of (dk_files d ''cases''))) = Inr (vs, index)"
    using trans [OF parse_cases_text vs(1)] by (auto simp: parse_case_versions_def res_bind_Inr_iff)
  from validate_case_appends_parse [OF line this] assms(4,5)
  have vs': "parse_case_versions (pf_case_decode env) (dk_files (with_case d line) ''cases'') = Inr (vs @ [c])"
    by (simp add: with_case_def parse_case_versions_def)
  then show "\<exists>vs. parse_case_versions (pf_case_decode env) (dk_files (with_case d line) ''cases'') = Inr (vs @ [c])" ..
  let ?snap = "take_snapshot (co_targets (pf_transactions env) @ [''config'']) (dk_files (with_case d line))"
  let ?st = "st\<lparr>hs_cases := sorted_values (dict_of rc_id (vs @ [c]))\<rparr>"
  have idle: "dk_journal (with_case d line) = None" by (simp add: with_case_def)
  have snap': "held_snapshot env (with_case d line) = Inr (?snap, with_case d line)"
    using quiet_snapshot(3) [OF snap assms(2)] recover_settled [OF idle] by (simp add: held_snapshot_def Let_def)
  have same: "held ?snap name = held snap name" if "name \<noteq> ''cases''" for name
    using that by (simp add: snap_eq held_take_snapshot with_case_def)
  have "held ?snap ''cases'' = dk_files (with_case d line) ''cases''"
    using new_preflight_targets [OF assms(1)] by (simp add: held_take_snapshot)
  then have st': "snapshot_state env ?snap = Inr ?st"
    using snapshot_state_other_cases [OF st same] vs' by (simp add: parse_cases_text)
  have assess': "assess env e s ps ?snap ?st = Inr (digest, r, Some c)"
    using assess_other_cases [OF assess same assms(3)] by simp
  have "new_conflict_case env e s st = Inr c" using assessed_result(6) [OF assess] by simp
  then have "reusable_case (hs_cases ?st) c (hs_evidence ?st) ps = Inr (Some c)"
    using reusable_case_stored [OF fresh [unfolded vs(2)] new_conflict_case_Inr(2) conflict_case_readable [OF st assess]] by simp
  then show "quiet_outcome env e s ps (with_case d line) =
      (with_case d line, Inr \<lparr>ap_result = r\<lparr>pr_review_case_id := Some (rc_id c)\<rparr>, ap_graph_digest = digest\<rparr>)"
    by (simp add: quiet_outcome_def snap' st' assess' del: dict_of_snoc)
qed

section \<open>Properties\<close>

text \<open>C20: Authorisation is grounded and current. A task is authorised only if the classification says that it has no
  semantic impact or is aligned, and after the decision every file of the snapshot it was taken on is unchanged:
  there the project, the actor's principals and the graph version are those of the task, the conversation holds
  the request and, right after it, exactly what the agent submitted; every node the result names is an active
  node of the graph whose evidence is readable and cited by the result; no unsettled case touches these nodes.
  The permitted scope is what the task requested, and the digest is that of the graph file.\<close>

theorem preflight_authorizes:
  assumes "evaluate_authenticated env others tid e0 s0 ps d = (d', Inr a)" and "pr_authorized (ap_result a)"
  shows "\<exists>e s snap d1 st. checked_input env e0 s0 ps = Inr (e, s) \<and> held_snapshot env (others 0 d) = Inr (snap, d1) \<and>
    snapshot_state env snap = Inr st \<and> (\<forall>(name, content) \<in> set snap. dk_files d' name = content) \<and>
    canonical_graph_digest (pf_codecs env) (text_of (dk_files d' ''graph'')) = Inr (ap_graph_digest a) \<and>
    g_version (hs_graph st) = te_graph_version e \<and> pj_project_id (hs_config st) = te_repository_id e \<and>
    pj_local_actor (hs_config st) \<in> set ps \<and> turns_recorded env e s st ps \<and>
    pr_classification (ap_result a) \<in> {No_Semantic_Impact, Aligned} \<and> pr_task_id (ap_result a) = te_id e \<and>
    (pr_classification (ap_result a) = Aligned \<longleftrightarrow> pr_relevant_node_ids (ap_result a) \<noteq> []) \<and>
    (\<forall>i \<in> set (pr_relevant_node_ids (ap_result a)). grounded st ps (pr_evidence_refs (ap_result a)) i) \<and>
    (\<forall>c \<in> set (hs_cases st). is_nonterminal_case_status (rc_status c) \<longrightarrow> \<not> touches (pr_relevant_node_ids (ap_result a)) c) \<and>
    pr_permitted_scope (ap_result a) = sort (te_requested_scope e) \<and> pr_questions (ap_result a) = [] \<and>
    pr_review_case_id (ap_result a) = None"
proof -
  from assms(1) obtain e s snap d1 st candidate r where input: "checked_input env e0 s0 ps = Inr (e, s)"
    and snap: "held_snapshot env (others 0 d) = Inr (snap, d1)" and st: "snapshot_state env snap = Inr st"
    and assess: "assess env e s ps snap st = Inr (ap_graph_digest a, r, candidate)"
    and settle: "settle env others tid snap st ps (r, candidate) d1 = (d', Inr (ap_result a))"
    by (rule evaluated)
  from assess obtain found chosen relevant_evidence request agent where
    digest: "canonical_graph_digest (pf_codecs env) (text_of (held snap ''graph'')) = Inr (ap_graph_digest a)"
    and agree: "bindings_agree env e s st ps found" and turns: "validate_turns env e s st ps = Inr (request, agent)"
    and refs: "validate_references env s st ps = Inr (chosen, relevant_evidence)" "set relevant_evidence \<subseteq> set (sb_evidence_refs s)"
    and cls: "classify env e s st ps chosen (fresh_result e s st (fromkeys ([er_id request, er_id agent] @ sb_evidence_refs s))) =
       Inr (r, candidate)" by (rule assessed)
  note c = classified [OF cls]
  have "pr_authorized r"
    using assms(2) settle
    by (auto simp: settle_def dest!: arg_cong [where f = pr_authorized] split: option.splits sum.splits prod.splits if_splits)
  note authorized = this c(9) [OF this]
  with settle have r: "ap_result a = r"
    and run: "\<exists>u. read_transaction (pf_transactions env) [''config''] [] (authenticate_snapshot snap) (others 1 d1) = (d', Inr u)"
    by (auto simp: settle_def split: sum.splits prod.splits)
  from run have files: "\<forall>(name, content) \<in> set snap. dk_files d' name = content"
    by (elim exE) (rule authenticated_files)
  have grounded: "grounded st ps (pr_evidence_refs r) i" if "i \<in> set (pr_relevant_node_ids r)" for i
  proof -
    have i: "i \<in> set (sb_relevant_node_ids s)" using that c(4) by simp
    then have "\<not> list_ex is_proposal chosen" using authorized by auto
    from validate_references_nodes [OF refs(1) this refs(2) i] show ?thesis
      unfolding grounded_def c(5) by auto
  qed
  note b = agree [unfolded bindings_agree_def Let_def]
  show ?thesis
    using input snap st files digest snapshot_state_files [OF st files] b validate_turns_Inr(1) [OF turns] authorized grounded c(1-8)
    unfolding r by (intro exI [of _ e] exI [of _ s] exI [of _ snap] exI [of _ d1] exI [of _ st]) auto
qed

text \<open>C23: On every ledger the proposal store can read, the preflight's own reader returns exactly the proposals that
  have no decision, in the order of the ledger.\<close>

theorem preflight_reads_ledger:
  assumes "list_proposals cd content = Inr all"
  shows "parse_proposals cd (text_of content) = Inr (filter (\<lambda>p. decision_for cd (ip_id p) content = Inr None) all)"
proof -
  from assms obtain st where st: "decode_ledger cd content = Inr (Some st)" and all: "all = dict_values (ls_proposals st)"
    by (auto simp: list_proposals_def split: sum.splits option.splits)
  from st have ends: "\<not> (text_of content \<noteq> [] \<and> last (text_of content) \<noteq> CHR 0x0A)"
    and frames: "decode_frames cd 0 (byte_lines (text_of content)) empty_ledger = Inr (Some st)"
    by (auto simp: decode_ledger_Some complete_lines_def)
  note noted = note_frames_decoded [OF frames]
  have keys: "ip_id p = k" if "(k, p) \<in> set (ls_proposals st)" for k p
    using note_frames_keys [OF noted] that by (force simp: empty_ledger_def)
  have "decision_for cd (ip_id p) content = Inr (map_of (ls_decisions st) k)" if "(k, p) \<in> set (ls_proposals st)" for k p
  proof -
    from that keys [OF that] have "map_of (ls_proposals st) (ip_id p) \<noteq> None"
      by (metis fst_conv image_eqI map_of_eq_None_iff)
    then show ?thesis using st keys [OF that] by (simp add: decision_for_def del: map_of_eq_None_iff)
  qed
  then have "undecided (ls_proposals st) (ls_decisions st) = filter (\<lambda>p. decision_for cd (ip_id p) content = Inr None) all"
    unfolding all undecided_def dict_values_def filter_map comp_def by (intro arg_cong [where f = "map snd"] filter_cong) auto
  then show ?thesis
    using ends noted by (simp add: parse_proposals_def empty_ledger_def)
qed

text \<open>C22: An evaluation that no other process disturbs leaves every file as it was, whether it succeeds or fails, with
  one exception: a new conflict, which is never authorised, appends to the cases exactly the open case that the
  result names.\<close>

theorem preflight_changes_only_cases:
  assumes "new_preflight env = Inr env" "dk_journal d = None" "evaluate env nobody tid e s ps d = (d', x)"
  shows "d' = d \<or> (\<exists>r c. x = Inr r \<and> pr_classification r = Conflicting \<and> \<not> pr_authorized r \<and> pr_permitted_scope r = [] \<and>
    pr_review_case_id r = Some (rc_id c) \<and> conflict_case_of env e s ps d = Inr c \<and> case_ok c \<and> rc_status c = OPEN \<and>
    dk_journal d' = None \<and> dk_files d' = (dk_files d)
      (''cases'' := append_text (dk_files d ''cases'') (serialize_case (pf_case_dump env) c)))"
proof (cases "checked_input env e s ps")
  case (Inr p)
  then obtain e1 s1 where input: "checked_input env e s ps = Inr (e1, s1)" by (cases p) auto
  from assms(3) obtain y where run: "quiet_outcome env e1 s1 ps d = (d', y)"
    and x: "x = (case y of Inl _ \<Rightarrow> Inl PreflightError | Inr a \<Rightarrow> Inr (ap_result a))"
    by (auto simp: evaluate_def evaluate_authenticated_def input quiet_evaluation [OF assms(1,2)] split: prod.splits sum.splits)
  show ?thesis
  proof (cases "d' = d")
    case False
    with quiet_outcome_cases [OF run] obtain snap d1 st digest r c where snap: "held_snapshot env d = Inr (snap, d1)"
      and st: "snapshot_state env snap = Inr st" and assess: "assess env e1 s1 ps snap st = Inr (digest, r, Some c)"
      and c: "case_ok c" and d': "d' = with_case d (serialize_case (pf_case_dump env) c)"
      and y: "y = Inr \<lparr>ap_result = r\<lparr>pr_review_case_id := Some (rc_id c)\<rparr>, ap_graph_digest = digest\<rparr>"
      by blast
    note r = assessed_result [OF assess]
    have new: "new_conflict_case env e1 s1 st = Inr c" using r(6) by simp
    have "conflict_case_of env e s ps d = Inr c" by (simp add: conflict_case_of_def input snap st new)
    moreover have "rc_status c = OPEN" by (rule new_conflict_case_Inr(2) [OF new])
    ultimately show ?thesis using r c by (simp add: x y d' with_case_def)
  qed simp
qed (use assms(3) in \<open>simp add: evaluate_def evaluate_authenticated_def\<close>)

text \<open>C21: A conflict is recorded once. Without interference, an evaluation that finds a conflict authorises nothing and
  names the case of the conflict, which affects the relevant nodes and rests on both turns; the cases then hold
  that case, unsettled. Evaluating the same input again gives the same result and changes nothing. (The cases end
  their last line, Pydantic reads the case's own dump back, and principals come from the configuration.)\<close>

theorem conflict_recorded_once:
  assumes "new_preflight env = Inr env" "dk_journal d = None" "pf_resolver env = None"
    and "complete_lines (text_of (dk_files d ''cases''))" "storable (pf_case_dump env) (pf_case_decode env) c"
    and "conflict_case_of env e0 s0 ps d = Inr c" "pr_classification (ap_result a) = Conflicting"
    and "evaluate_authenticated env nobody tid e0 s0 ps d = (d', Inr a)"
  shows "\<not> pr_authorized (ap_result a) \<and> pr_permitted_scope (ap_result a) = [] \<and>
    pr_review_case_id (ap_result a) = Some (rc_id c) \<and> rc_affected_refs c = pr_relevant_node_ids (ap_result a) \<and>
    {te_request_evidence_ref e0, sb_agent_evidence_ref s0} \<subseteq> set (all_evidence_refs c) \<and>
    (\<exists>vs x. parse_case_versions (pf_case_decode env) (dk_files d' ''cases'') = Inr vs \<and>
       map_of (dict_of rc_id vs) (rc_id c) = Some x \<and> is_nonterminal_case_status (rc_status x) \<and> immutable_identity x = c) \<and>
    evaluate_authenticated env nobody tid' e0 s0 ps d' = (d', Inr a)"
proof -
  obtain e s snap d1 st candidate r where input: "checked_input env e0 s0 ps = Inr (e, s)"
    and snap1: "held_snapshot env d = Inr (snap, d1)" and st: "snapshot_state env snap = Inr st"
    and assess: "assess env e s ps snap st = Inr (ap_graph_digest a, r, candidate)"
    and settle: "settle env nobody tid snap st ps (r, candidate) d1 = (d', Inr (ap_result a))"
    by (rule evaluated [OF assms(8)])
  have d1: "d1 = d" by (rule quiet_snapshot(1) [OF snap1 assms(2)])
  note snap = snap1 [unfolded d1]
  have snap_eq: "snap = take_snapshot (co_targets (pf_transactions env) @ [''config'']) (dk_files d)"
    by (rule quiet_snapshot(2) [OF snap assms(2)])
  have cases: "held snap ''cases'' = dk_files d ''cases''"
    using new_preflight_targets [OF assms(1)] by (simp add: snap_eq held_take_snapshot)
  note run = settle [unfolded d1 quiet_settle [OF assms(1) snap assms(2)]] and r = assessed_result [OF assess]
  have class_r: "pr_classification r = Conflicting"
    using run assms(7) by (auto dest!: arg_cong [where f = pr_classification] split: option.splits sum.splits)
  then obtain c' where "candidate = Some c'" using r(1,5) by auto
  moreover from this have new: "new_conflict_case env e s st = Inr c'" using r(6) by simp
  moreover have "c' = c" using assms(6) new by (simp add: conflict_case_of_def input snap st)
  ultimately have candidate: "candidate = Some c" and new: "new_conflict_case env e s st = Inr c" by simp_all
  note nc = new_conflict_case_Inr [OF new]
  from input have refs: "te_request_evidence_ref e = te_request_evidence_ref e0" "sb_agent_evidence_ref s = sb_agent_evidence_ref s0"
    by (auto simp: checked_input_def res_bind_Inr_iff validate_envelope_Inr validate_submission_def split: option.splits)
  obtain vs where vs: "parse_case_versions (pf_case_decode env) (dk_files d ''cases'') = Inr vs"
    "hs_cases st = sorted_values (dict_of rc_id vs)"
    using snapshot_state_cases [OF st] cases by metis
  have replay: "evaluate_authenticated env nobody tid' e0 s0 ps d2 = (d2, Inr a)"
    if "quiet_outcome env e s ps d2 = (d2, Inr a)" "dk_journal d2 = None" for d2
    using that by (simp add: evaluate_authenticated_def input quiet_evaluation [OF assms(1)])
  have result: "ap_result a = r\<lparr>pr_review_case_id := Some i\<rparr> \<Longrightarrow>
      a = \<lparr>ap_result = r\<lparr>pr_review_case_id := Some i\<rparr>, ap_graph_digest = ap_graph_digest a\<rparr>" for i by simp
  have turns: "{te_request_evidence_ref e0, sb_agent_evidence_ref s0} \<subseteq> set (all_evidence_refs c)" using nc(5) refs by auto
  have finish: ?thesis if a: "ap_result a = r\<lparr>pr_review_case_id := Some (rc_id c)\<rparr>" and d2: "dk_journal d' = None"
    "quiet_outcome env e s ps d' = (d', Inr a)" and stored: "parse_case_versions (pf_case_decode env) (dk_files d' ''cases'') = Inr us"
    "map_of (dict_of rc_id us) (rc_id c) = Some x" "is_nonterminal_case_status (rc_status x)" "immutable_identity x = c" for us x
  proof -
    have "\<not> pr_authorized (ap_result a) \<and> pr_permitted_scope (ap_result a) = [] \<and> pr_review_case_id (ap_result a) = Some (rc_id c) \<and>
        rc_affected_refs c = pr_relevant_node_ids (ap_result a)"
      using r(1-4) class_r nc(3) by (simp add: a)
    with turns stored replay [OF d2(2,1)] show ?thesis by blast
  qed
  show ?thesis
  proof (cases "reusable_case (hs_cases st) c (hs_evidence st) ps")
    case (Inr found)
    show ?thesis
    proof (cases found)
      case (Some x)
      note x = reusable_case_Some [OF Inr [unfolded vs(2) Some] nc(4)]
      have a: "ap_result a = r\<lparr>pr_review_case_id := Some (rc_id x)\<rparr>" "d' = d"
        using run by (simp_all add: candidate Inr Some)
      have "rc_id x = rc_id c" using dict_of_lookup [OF x(1)] by simp
      moreover have "quiet_outcome env e s ps d = (d, Inr a)"
        using result [OF a(1)] by (simp add: quiet_outcome_def snap st assess candidate Inr Some)
      ultimately show ?thesis
        using finish a assms(2) vs(1) x by simp
    next
      case None
      obtain line where line: "validate_case_appends (pf_case_dump env) (pf_case_decode env) (Some (text_of (dk_files d ''cases''))) [c] = Inr line"
        and a: "ap_result a = r\<lparr>pr_review_case_id := Some (rc_id c)\<rparr>" "d' = with_case d line"
        using run by (auto simp: candidate Inr None split: sum.splits)
      note new_case = stored_case [OF assms(1-5) snap st assess [unfolded candidate] Inr [unfolded None] line]
      then obtain us where us: "parse_case_versions (pf_case_decode env) (dk_files d' ''cases'') = Inr (us @ [c])" using a(2) by blast
      have "quiet_outcome env e s ps d' = (d', Inr a)" using new_case(2) result [OF a(1)] a(2) by simp
      moreover have "map_of (dict_of rc_id (us @ [c])) (rc_id c) = Some c" by simp
      moreover have "is_nonterminal_case_status (rc_status c)" by (simp add: nc(2) is_nonterminal_case_status_def)
      moreover have "dk_journal d' = None" by (simp add: a(2) with_case_def)
      ultimately show ?thesis
        by (intro finish [OF a(1) _ _ us _ _ nc(4)])
    qed
  qed (use run in \<open>simp add: candidate\<close>)
qed

section \<open>A sample task\<close>

definition task_node :: node where
  "task_node =
     \<lparr>nd_id = ''n1'', nd_type = Builtin REQUIREMENT, nd_label = ''login'', nd_status = ''active'', nd_created_by = ''bo'',
      nd_created_at = 0, nd_last_modified_by = ''bo'', nd_last_modified_at = 0, nd_source_mode = Some EXPLICIT,
      nd_intent_fidelity_confidence = Some 1, nd_confidence_basis = None, nd_last_reassessed_at = None,
      nd_implementation_status = None, nd_evidence_refs = [''ev-0'']\<rparr>"

definition task_graph :: graph where
  "task_graph =
     \<lparr>g_id = ''g'', g_version = 4, g_schema_version = ''1'', g_name = None, g_purpose = None, g_created_at = None,
      g_source_spec = None, g_nodes = [task_node], g_edges = [], g_extensions = []\<rparr>"

definition task_config :: project_config where
  "task_config =
     \<lparr>pj_project_id = ''repo'', pj_graph_path = ''g'', pj_local_actor = ''ana'', pj_source_exclusions = [],
      pj_auto_apply_metadata = False, pj_auto_apply_semantic = False, pj_source_roles = [], pj_context_limits = REF_LIMITS\<rparr>"

definition task_record :: "string \<Rightarrow> string \<Rightarrow> json dict \<Rightarrow> evidence_record" where
  "task_record i author payload =
     \<lparr>er_id = i, er_connector_type = ''conversation'', er_external_object_id = ''talk'', er_external_version = i,
      er_author = Some author, er_observed_at = 0, er_source_locator = ''talk'', er_content_hash = i, er_payload = payload,
      er_parent_ref = None, er_acl = [''ana'']\<rparr>"

definition task_submission :: "TaskClassification \<Rightarrow> string list \<Rightarrow> classification_submission" where
  "task_submission c claims =
     \<lparr>sb_task_id = sample_task_id, sb_task_digest = canonical_digest (envelope_material int_str sample_task), sb_graph_version = 4,
      sb_classification = c, sb_basis = ''read'', sb_relevant_node_ids = [''n1''], sb_evidence_refs = [''ev-0''],
      sb_agent_evidence_ref = ''ev-2'', sb_semantic_effects = [], sb_uncertainties = [], sb_questions = [],
      sb_conflict_claims = claims, sb_requested_scope = [''src/a.py'', ''src/b.py'']\<rparr>"

definition task_source :: evidence_record where
  "task_source = task_record ''ev-0'' ''bo'' []"

definition task_request :: evidence_ingestion where
  "task_request =
     \<lparr>ing_connector_id = ''conv'', ing_sequence = 1, ing_predecessor_id = None,
      ing_evidence = task_record ''ev-1'' ''ana'' [(''role'', JStr ''human''), (''content'', JStr ''rename'')]\<rparr>"

definition task_answer :: "classification_submission \<Rightarrow> evidence_ingestion" where
  "task_answer s =
     \<lparr>ing_connector_id = ''conv'', ing_sequence = 2, ing_predecessor_id = Some ''ev-1'',
      ing_evidence = task_record ''ev-2'' ''agent''
        [(''role'', JStr ''agent''), (''content'', JObj (classification_evidence_content s))]\<rparr>"

definition task_evidence :: "classification_submission \<Rightarrow> evidence_record list" where
  "task_evidence s = [task_source, ing_evidence task_request, ing_evidence (task_answer s)]"

definition task_lines :: string where
  "task_lines = concat (map (\<lambda>kvs. dumps False (JObj kvs) @ [CHR 0x0A])
     [[(''n'', JInt 0)], [(''n'', JInt 1), (''storage_schema_version'', JInt 1)], [(''n'', JInt 2), (''storage_schema_version'', JInt 1)]])"

lemma task_context: "\<exists>pack. for_refs (new_provider task_graph [] task_config
    [task_source, task_record ''ev-1'' ''ana'' p, task_record ''ev-2'' ''agent'' q]) [''n1''] (Many [''ana'']) = Inr pack"
proof -
  have "isl (for_refs (new_provider task_graph [] task_config
    [task_source, task_record ''ev-1'' ''ana'' p, task_record ''ev-2'' ''agent'' q]) [''n1''] (Many [''ana''])) = False"
    by code_simp
  then show ?thesis by (metis isl_def old.sum.exhaust)
qed

definition task_env :: "classification_submission \<Rightarrow> (json dict \<Rightarrow> reconciliation_case res) \<Rightarrow> preflight_env" where
  "task_env s decode =
     \<lparr>pf_codecs = \<lparr>yaml_load = (\<lambda>_. Inr (JObj [])), yaml_dump = (\<lambda>_. ''g''), graph_fields = (\<lambda>_. Inr task_graph),
        py_repr = (\<lambda>_. []), changeset_dump = (\<lambda>_. []), changeset_decode = (\<lambda>_. Inl (ValueError []))\<rparr>,
      pf_config_fields = (\<lambda>_. Inr task_config),
      pf_evidence = \<lparr>dump_record = (\<lambda>_. []), decode_record = (\<lambda>_. Inr task_source), dump_ingestion = (\<lambda>_. []),
        decode_ingestion = (\<lambda>kvs. Inr (if map_of kvs ''n'' = Some (JInt 1) then task_request else task_answer s))\<rparr>,
      pf_case_dump = (\<lambda>_. [(''created_by'', JStr ''agent'')]), pf_case_decode = decode,
      pf_proposals = \<lparr>ix_dumpers = sample_dumpers, ix_read = (\<lambda>_. None)\<rparr>, pf_pack_dump = (\<lambda>_. []), pf_float = (\<lambda>_. 0),
      pf_transactions = \<lparr>co_targets = [''graph'', ''evidence'', ''cases'', ''intent_proposals''], co_legacy_sets = []\<rparr>,
      pf_agent_principal = ''agent'', pf_connector_id = ''conv'', pf_resolver = None, pf_request_actor = None,
      pf_request_human = True, pf_request_source_mode = EXPLICIT\<rparr>"

definition task_disk :: disk where
  "task_disk = \<lparr>dk_files = [''config'' \<mapsto> ''c'', ''graph'' \<mapsto> ''g'', ''evidence'' \<mapsto> task_lines], dk_journal = None\<rparr>"

definition task_snapshot :: "string option dict" where
  "task_snapshot = [(''cases'', None), (''config'', Some ''c''), (''evidence'', Some task_lines), (''graph'', Some ''g''),
     (''intent_proposals'', None)]"

definition task_state :: "classification_submission \<Rightarrow> held_state" where
  "task_state s =
     \<lparr>hs_config = task_config, hs_graph = task_graph, hs_evidence = task_evidence s,
      hs_ingestions = [task_request, task_answer s], hs_cases = [], hs_proposals = []\<rparr>"

lemma task_env_targets:
  "co_targets (pf_transactions (task_env s decode)) = [''graph'', ''evidence'', ''cases'', ''intent_proposals'']"
  "co_legacy_sets (pf_transactions (task_env s decode)) = []"
  by (simp_all add: task_env_def)

lemma task_held: "held_snapshot (task_env s decode) task_disk = Inr (task_snapshot, task_disk)"
proof -
  have extras: "check_extras [''graph'', ''evidence'', ''cases'', ''intent_proposals''] [''config''] [] = Inr []"
    and names: "sort ([''graph'', ''evidence'', ''cases'', ''intent_proposals''] @ [''config'']) =
      [''cases'', ''config'', ''evidence'', ''graph'', ''intent_proposals'']"
    by code_simp+
  have "recover ts ls task_disk = Inr (False, task_disk)" for ts ls
    by (rule recover_settled) (simp add: task_disk_def)
  moreover have "take_snapshot ([''graph'', ''evidence'', ''cases'', ''intent_proposals''] @ [''config'']) (dk_files task_disk) = task_snapshot"
    unfolding take_snapshot_def names by (simp add: task_disk_def task_snapshot_def)
  ultimately show ?thesis by (simp add: held_snapshot_def task_env_targets extras)
qed

lemma task_rows:
  "splitlines task_lines = map (\<lambda>kvs. dumps False (JObj kvs))
     [[(''n'', JInt 0)], [(''n'', JInt 1), (''storage_schema_version'', JInt 1)], [(''n'', JInt 2), (''storage_schema_version'', JInt 1)]]"
  "loads_strict_object (dumps False (JObj [(''n'', JInt 0)])) = Inr [(''n'', JInt 0)]"
  "loads_strict_object (dumps False (JObj [(''n'', JInt 1), (''storage_schema_version'', JInt 1)])) =
     Inr [(''n'', JInt 1), (''storage_schema_version'', JInt 1)]"
  "loads_strict_object (dumps False (JObj [(''n'', JInt 2), (''storage_schema_version'', JInt 1)])) =
     Inr [(''n'', JInt 2), (''storage_schema_version'', JInt 1)]"
  "\<not> is_blank (dumps False (JObj [(''n'', JInt 0)]))"
  "\<not> is_blank (dumps False (JObj [(''n'', JInt 1), (''storage_schema_version'', JInt 1)]))"
  "\<not> is_blank (dumps False (JObj [(''n'', JInt 2), (''storage_schema_version'', JInt 1)]))"
  by code_simp+

lemma task_ingestions:
  "validate_ingestion task_request = Inr task_request" "validate_ingestion (task_answer s) = Inr (task_answer s)"
  "ingestion_error [] task_request = None" "ingestion_error [task_request] (task_answer s) = None"
proof -
  have "\<not> list_all pattern_space ''conv''" by code_simp
  then show "validate_ingestion task_request = Inr task_request" "validate_ingestion (task_answer s) = Inr (task_answer s)"
    by (simp_all add: validate_ingestion_def task_request_def task_answer_def)
  show "ingestion_error [] task_request = None" "ingestion_error [task_request] (task_answer s) = None"
    by (simp_all add: ingestion_error_def Let_def entries_def associated_def predecessor_def task_request_def task_answer_def task_record_def)
qed

lemma task_parsed:
  "\<exists>ids. parse_evidence_lines (pf_evidence (task_env s decode)) (Some task_lines) =
     Inr \<lparr>st_records = [(''ev-0'', task_source), (''ev-1'', ing_evidence task_request), (''ev-2'', ing_evidence (task_answer s))],
       st_ingestions = [task_request, task_answer s], st_legacy_ids = ids\<rparr>"
proof -
  have ids: "er_id task_source = ''ev-0''" "er_id (ing_evidence task_request) = ''ev-1''" "er_id (ing_evidence (task_answer s)) = ''ev-2''"
    by (simp_all add: task_source_def task_request_def task_answer_def task_record_def)
  show ?thesis
    unfolding parse_evidence_lines_def option.case task_rows(1) list.map
    by (simp del: dumps.simps add: parse_row_def task_rows(2-7) task_env_def task_ingestions add_row_def row_record_def empty_state_def ids)
qed

lemma task_snapshot_state: "snapshot_state (task_env s decode) task_snapshot = Inr (task_state s)"
proof -
  let ?env = "task_env s decode"
  have g: "parse_graph (pf_codecs ?env) ''g'' = Inr task_graph"
  proof -
    have "validate_graph task_graph = Inr task_graph" by code_simp
    then show ?thesis by (simp add: parse_graph_def task_env_def canonical_graph_payload_def)
  qed
  have config: "parse_config ?env ''c'' = Inr task_config"
  proof -
    have "validate_project_config task_config = Inr task_config" by code_simp
    then show ?thesis by (simp add: parse_config_def task_env_def)
  qed
  have "parse_case_versions (pf_case_decode ?env) (Some []) = Inr []"
    by (simp add: parse_case_versions_def parse_versions_with_history_def splitlines_keep.simps)
  moreover have "parse_proposals (pf_proposals ?env) [] = Inr []"
    by (simp add: parse_proposals_def undecided_def)
  ultimately show ?thesis
    using task_parsed [of s decode] g config
    by (auto simp: snapshot_state_def task_snapshot_def held_def task_state_def task_evidence_def dict_values_def
        sorted_values_def dict_of_def)
qed

definition task_result :: "TaskClassification \<Rightarrow> bool \<Rightarrow> preflight_result" where
  "task_result c authorized =
     \<lparr>pr_task_id = sample_task_id, pr_graph_version = 4, pr_classification = c, pr_authorized = authorized,
      pr_basis = ''deterministically validated '' @ classification_value c, pr_relevant_node_ids = [''n1''],
      pr_evidence_refs = [''ev-1'', ''ev-2'', ''ev-0''], pr_questions = [], pr_review_case_id = None,
      pr_permitted_scope = (if authorized then [''src/a.py'', ''src/b.py''] else []), pr_context = []\<rparr>"

lemma canon_content: "canon (JObj (classification_evidence_content s)) = JObj (classification_evidence_content s)"
proof -
  have keys: "sorted (map fst (classification_evidence_content s))"
  proof -
    have "map fst (classification_evidence_content s) = [''basis'', ''classification'', ''conflict_claims'', ''evidence_refs'',
      ''graph_version'', ''questions'', ''relevant_node_ids'', ''requested_scope'', ''semantic_effects'', ''task_digest'', ''task_id'',
      ''uncertainties'']" by (simp add: classification_evidence_content_def)
    moreover have "sorted [''basis'', ''classification'', ''conflict_claims'', ''evidence_refs'',
      ''graph_version'', ''questions'', ''relevant_node_ids'', ''requested_scope'', ''semantic_effects'', ''task_digest'', ''task_id'',
      ''uncertainties'']" by code_simp
    ultimately show ?thesis by simp
  qed
  have "canon (strs xs) = strs xs" for xs by (simp add: strs_def)
  then have "map (\<lambda>(k, v). (k, canon v)) (classification_evidence_content s) = classification_evidence_content s"
    by (simp add: classification_evidence_content_def)
  with sorted_sort_id keys show ?thesis by (simp add: sort_key_sorted)
qed

lemma task_content: "content_equals (\<lambda>_. 0) (Some (JObj (classification_evidence_content (task_submission c claims)))) (task_submission c claims)"
proof -
  let ?s = "task_submission c claims"
  have "map_of (classification_evidence_content ?s) ''graph_version'' = Some (JInt (sb_graph_version ?s))"
    "AList.update ''graph_version'' (JInt (sb_graph_version ?s)) (classification_evidence_content ?s) = classification_evidence_content ?s"
    by (simp_all add: classification_evidence_content_def)
  then show ?thesis by (simp add: content_equals_def equals_int_def canon_content del: canon.simps)
qed

lemma task_fields [simp]:
  "te_id sample_task = []" "te_repository_id sample_task = ''repo''" "te_actor sample_task = ''ana''"
  "te_conversation_ref sample_task = ''talk''" "te_request sample_task = ''rename''"
  "te_request_evidence_ref sample_task = ''ev-1''" "te_graph_version sample_task = 4" "te_created_at sample_task = 0"
  "te_requested_scope sample_task = [''src/b.py'', ''src/a.py'']"
  by (simp_all add: sample_task_def)

lemma task_input:
  "checked_input (task_env t decode) sample_task (task_submission c []) [''ana''] =
     Inr (sample_task\<lparr>te_id := sample_task_id\<rparr>, task_submission c [])"
  "checked_input (task_env t decode) sample_task (task_submission c [''clash'']) [''ana''] =
     Inr (sample_task\<lparr>te_id := sample_task_id\<rparr>, task_submission c [''clash''])"
proof -
  have collections: "canonical_collection 256 False [''n1''] = Inr [''n1'']" "canonical_collection 256 False [''ev-0''] = Inr [''ev-0'']"
    "canonical_collection 1 False [''ev-2''] = Inr [''ev-2'']" "canonical_collection 64 True [] = Inr []"
    "canonical_collection 64 True [''clash''] = Inr [''clash'']" "classifier_item True ''read''"
    "canonical_collection 256 False [''src/a.py'', ''src/b.py''] = Inr [''src/a.py'', ''src/b.py'']"
    "checked_principals [''ana''] = Inr [''ana'']"
    by code_simp+
  have "task_id_pattern sample_task_id"
    by (simp add: task_id_pattern_def sample_task_id_def canonical_digest_def sha256_id_def tagged_hash_def starts_with_def hex64_hexdigest)
  then have "submission_error (task_submission c claims) = None" for claims
    using collections(3,6) by (simp add: submission_error_def task_submission_def error_of_def)
  then have "validate_submission (task_submission c []) = Inr (task_submission c [])"
    "validate_submission (task_submission c [''clash'']) = Inr (task_submission c [''clash''])"
    using collections by (simp_all add: validate_submission_def task_submission_def)
  moreover have "dm_isoformat (ix_dumpers (pf_proposals (task_env t decode))) = int_str" by (simp add: task_env_def sample_dumpers_def)
  ultimately show "checked_input (task_env t decode) sample_task (task_submission c []) [''ana''] =
     Inr (sample_task\<lparr>te_id := sample_task_id\<rparr>, task_submission c [])"
    "checked_input (task_env t decode) sample_task (task_submission c [''clash'']) [''ana''] =
     Inr (sample_task\<lparr>te_id := sample_task_id\<rparr>, task_submission c [''clash''])"
    using collections(8) by (simp_all add: checked_input_def sample_task_checked(2))
qed

lemma task_index: "dict_of er_id (task_evidence s) =
    [(''ev-0'', task_source), (''ev-1'', ing_evidence task_request), (''ev-2'', ing_evidence (task_answer s))]"
  by (simp add: dict_of_def task_evidence_def task_source_def task_request_def task_answer_def task_record_def)

lemma task_assessed:
  fixes c claims decode
  defines "s \<equiv> task_submission c claims"
  assumes cls: "classify (task_env s decode) (sample_task\<lparr>te_id := sample_task_id\<rparr>) s (task_state s) [''ana''] [Selected_Node task_node]
      (task_result c False) = Inr (r, candidate)"
  shows "assess (task_env s decode) (sample_task\<lparr>te_id := sample_task_id\<rparr>) s [''ana''] task_snapshot (task_state s) =
    Inr (sha256_id ''g'', r, candidate)"
proof -
  let ?env = "task_env s decode" and ?e = "sample_task\<lparr>te_id := sample_task_id\<rparr>" and ?st = "task_state s"
  have scope: "sort [''src/b.py'', ''src/a.py''] = [''src/a.py'', ''src/b.py'']" and who: "checked_principals [''ana''] = Inr [''ana'']"
    and cited: "fromkeys [''ev-1'', ''ev-2'', ''ev-0''] = [''ev-1'', ''ev-2'', ''ev-0'']" by code_simp+
  have "parse_graph (pf_codecs ?env) ''g'' = Inr task_graph"
  proof -
    have "validate_graph task_graph = Inr task_graph" by code_simp
    then show ?thesis by (simp add: parse_graph_def task_env_def canonical_graph_payload_def)
  qed
  then have digest: "canonical_graph_digest (pf_codecs ?env) (text_of (held task_snapshot ''graph'')) = Inr (sha256_id ''g'')"
    by (simp add: canonical_graph_digest_def serialize_graph_def task_snapshot_def held_def task_env_def)
  have agree: "bindings_agree ?env ?e s ?st [''ana''] [''ana'']"
    by (simp add: bindings_agree_def s_def task_submission_def task_state_def task_config_def task_graph_def task_env_def
        sample_dumpers_def envelope_material_def scope)
  have "turns_agree ?env ?e s task_request (task_answer s) [''ana'']"
    using task_content [of c claims]
    by (simp add: turns_agree_def Let_def turn_of_def task_request_def task_answer_def task_record_def task_env_def evidence_allowed_def
        principals_def s_def)
  moreover have "turn_ingestion (te_request_evidence_ref ?e) (hs_ingestions ?st) (pf_connector_id ?env) = Inr task_request"
    "turn_ingestion (sb_agent_evidence_ref s) (hs_ingestions ?st) (pf_connector_id ?env) = Inr (task_answer s)"
    by (simp_all add: turn_ingestion_def task_state_def task_request_def task_answer_def task_record_def task_env_def s_def task_submission_def)
  moreover have ids: "er_id (ing_evidence task_request) = ''ev-1''" "er_id (ing_evidence (task_answer s)) = ''ev-2''"
    by (simp_all add: task_request_def task_answer_def task_record_def)
  moreover have evidence: "hs_evidence ?st = task_evidence s" by (simp add: task_state_def)
  ultimately have turns: "validate_turns ?env ?e s ?st [''ana''] = Inr (ing_evidence task_request, ing_evidence (task_answer s))"
    by (simp add: validate_turns_def Let_def task_index)
  have allowed: "refs_allowed [''ev-0''] (task_evidence s) (Many [''ana''])"
    by (simp add: refs_allowed_def Let_def task_index task_source_def task_record_def evidence_allowed_def principals_def)
  have "sb_relevant_node_ids s = [''n1'']" "sb_evidence_refs s = [''ev-0'']" "hs_graph ?st = task_graph" "hs_proposals ?st = []"
    by (simp_all add: s_def task_submission_def task_state_def)
  moreover have "map_of (dict_of nd_id (filter (\<lambda>n. nd_status n = ''active'') (g_nodes task_graph))) ''n1'' = Some task_node"
    "nd_evidence_refs task_node = [''ev-0'']"
    by (simp_all add: dict_of_def task_graph_def task_node_def)
  ultimately have refs: "validate_references ?env s ?st [''ana''] = Inr ([Selected_Node task_node], [''ev-0''])"
    using allowed by (simp add: validate_references_def proposal_index_def select_one_def evidence sorted_set_def del: map_of_eq_Some_iff)
  have "fresh_result ?e s ?st (fromkeys ([''ev-1'', ''ev-2''] @ sb_evidence_refs s)) = task_result c False"
    by (simp add: fresh_result_def task_result_def s_def task_submission_def task_state_def task_graph_def cited)
  then show ?thesis
    using digest agree turns refs ids cls who
    by (simp add: assess_def project_principals_def task_env_def task_state_def task_config_def s_def task_submission_def)
qed

definition task_conflict :: classification_submission where
  "task_conflict = task_submission Conflicting [''clash'']"

definition task_fingerprint :: string where
  "task_fingerprint = case_fingerprint
     [(''active_evidence'', strs [''ev-0'']), (''claims'', strs [''clash'']), (''graph_id'', JStr ''g''),
      (''human_evidence'', JStr ''ev-1''), (''agent_evidence'', JStr ''ev-2''), (''relevant_node_ids'', strs [''n1''])]"

definition task_case :: reconciliation_case where
  "task_case =
     \<lparr>rc_id = ''case:preflight:'' @ task_fingerprint, rc_subject_ref = ''n1'', rc_case_type = CONFLICTING_SOURCES,
      rc_affected_refs = [''n1''],
      rc_evidence_sides =
        [\<lparr>sd_label = ''active_semantics'', sd_claim = ''Current active semantic position'', sd_evidence_refs = [''ev-0''],
           sd_observed_at = 0, sd_authors = [''bo''], sd_confidence = 95 / 100, sd_source_mode = EXPLICIT, sd_current = True\<rparr>,
         \<lparr>sd_label = ''task_request'', sd_claim = ''Task request classified as conflicting'',
           sd_evidence_refs = [''ev-1'', ''ev-2''], sd_observed_at = 0, sd_authors = [''agent'', ''ana''], sd_confidence = 1,
           sd_source_mode = EXPLICIT, sd_current = True\<rparr>],
      rc_detector_id = ''intent_workflow.preflight.v1'', rc_fingerprint = task_fingerprint, rc_created_at = 0,
      rc_created_by = ''agent'', rc_status = OPEN, rc_requires_human = True, rc_alternatives = [], rc_impact = [],
      rc_resolution = None, rc_resolved_by_changeset = None, rc_history = []\<rparr>"

definition conflict_env :: preflight_env where
  "conflict_env = task_env task_conflict (\<lambda>_. Inr task_case)"

lemma task_case_ok: "case_ok task_case"
proof -
  have sides: "list_all (\<lambda>s. side_error s = None) (rc_evidence_sides task_case)"
    and refs: "all_evidence_refs task_case \<noteq> []"
    unfolding task_case_def reconciliation_case.simps all_evidence_refs_def by code_simp+
  have "rc_fingerprint task_case = task_fingerprint" "rc_created_by task_case = ''agent''" "rc_history task_case = []"
    "rc_status task_case = OPEN" "rc_resolution task_case = None" "rc_resolved_by_changeset task_case = None"
    by (simp_all add: task_case_def)
  then show ?thesis
    using sides refs by (simp add: case_ok_def list_all_iff task_fingerprint_def case_fingerprint_def hex64_hexdigest)
qed

lemma task_case_new:
  "new_conflict_case conflict_env (sample_task\<lparr>te_id := sample_task_id\<rparr>) task_conflict (task_state task_conflict) = Inr task_case"
proof -
  have material: "case_material conflict_env (sample_task\<lparr>te_id := sample_task_id\<rparr>) task_conflict task_graph [''ev-0''] =
    [(''active_evidence'', strs [''ev-0'']), (''claims'', strs [''clash'']), (''graph_id'', JStr ''g''),
      (''human_evidence'', JStr ''ev-1''), (''agent_evidence'', JStr ''ev-2''), (''relevant_node_ids'', strs [''n1''])]"
    by (simp add: case_material_def conflict_env_def task_env_def task_conflict_def task_submission_def task_graph_def)
  have fields: "hs_graph (task_state task_conflict) = task_graph" "hs_evidence (task_state task_conflict) = task_evidence task_conflict"
    "sb_relevant_node_ids task_conflict = [''n1'']" "sb_agent_evidence_ref task_conflict = ''ev-2''"
    "pf_agent_principal conflict_env = ''agent''" "pf_request_source_mode conflict_env = EXPLICIT"
    by (simp_all add: task_state_def task_conflict_def task_submission_def conflict_env_def task_env_def)
  have nodes: "map_of (dict_of nd_id (g_nodes task_graph)) ''n1'' = Some task_node" "nd_evidence_refs task_node = [''ev-0'']"
    by (simp_all add: dict_of_def task_graph_def task_node_def)
  have sets: "sorted_set [''ev-0''] = [''ev-0'']" "sorted_set [''bo''] = [''bo'']" "sorted_set [''ana'', ''agent''] = [''agent'', ''ana'']"
    by code_simp+
  have records: "er_author task_source = Some ''bo''" "er_observed_at task_source = 0"
    "er_observed_at (ing_evidence (task_answer task_conflict)) = 0"
    by (simp_all add: task_source_def task_answer_def task_record_def)
  have "new_conflict_case conflict_env (sample_task\<lparr>te_id := sample_task_id\<rparr>) task_conflict (task_state task_conflict) =
      validate_case task_case"
    by (simp add: new_conflict_case_def Let_def fields nodes sets material task_index records map_filter_simps max_list_def
        task_case_def task_fingerprint_def del: map_of_eq_Some_iff)
  then show ?thesis using task_case_ok by (simp add: validate_case_Inr_iff)
qed

lemma task_storable: "storable (pf_case_dump conflict_env) (pf_case_decode conflict_env) task_case"
proof -
  have "wf_json (JObj [(''created_by'', JStr ''agent'')])" "canon (JObj [(''created_by'', JStr ''agent'')]) = JObj [(''created_by'', JStr ''agent'')]"
    "one_line (dumps False (JObj [(''created_by'', JStr ''agent'')]))"
    by code_simp+
  then show ?thesis
    by (simp add: storable_def reads_back_def conflict_env_def task_env_def del: dumps.simps canon.simps wf_json.simps)
qed

lemma task_env_new: "new_preflight (task_env s decode) = Inr (task_env s decode)"
proof -
  have "classifier_item True ''agent''" "classifier_item True ''conv''" by code_simp+
  then show ?thesis by (simp add: new_preflight_def task_env_def)
qed

lemma task_quiet: "dk_journal task_disk = None" "complete_lines (text_of (dk_files task_disk ''cases''))" "dk_files task_disk ''cases'' = None"
  by (simp_all add: task_disk_def)

lemma task_conflict_run:
  "\<exists>a line. evaluate_authenticated conflict_env nobody [] sample_task task_conflict [''ana''] task_disk =
     (with_case task_disk line, Inr a) \<and> pr_classification (ap_result a) = Conflicting"
  "conflict_case_of conflict_env sample_task task_conflict [''ana''] task_disk = Inr task_case"
proof -
  let ?e = "sample_task\<lparr>te_id := sample_task_id\<rparr>" and ?st = "task_state task_conflict"
  note new = task_case_new [unfolded conflict_env_def]
  have "sb_classification task_conflict = Conflicting" "sb_relevant_node_ids task_conflict \<noteq> []" "sb_conflict_claims task_conflict \<noteq> []"
    "sb_questions task_conflict = []" by (simp_all add: task_conflict_def task_submission_def)
  then have cls: "classify conflict_env ?e task_conflict ?st [''ana''] [Selected_Node task_node] (task_result Conflicting False) =
      Inr (task_result Conflicting False, Some task_case)"
    using new by (simp add: classify_def conflict_env_def is_proposal_def)
  note env = task_held [of task_conflict "\<lambda>_. Inr task_case", folded conflict_env_def]
    task_snapshot_state [of task_conflict "\<lambda>_. Inr task_case", folded conflict_env_def]
    task_assessed [where c = Conflicting and claims = "[''clash'']" and decode = "\<lambda>_. Inr task_case", folded task_conflict_def,
      folded conflict_env_def, OF cls]
  have input: "checked_input conflict_env sample_task task_conflict [''ana''] = Inr (?e, task_conflict)"
    unfolding conflict_env_def task_conflict_def by (rule task_input(2))
  show "conflict_case_of conflict_env sample_task task_conflict [''ana''] task_disk = Inr task_case"
    by (simp add: conflict_case_of_def input env task_case_new)
  have append: "validate_case_appends (pf_case_dump conflict_env) (pf_case_decode conflict_env) (Some []) [task_case] =
      Inr (serialize_case (pf_case_dump conflict_env) task_case)"
    using task_case_ok
    by (simp add: validate_case_appends_def parse_versions_with_history_def splitlines_keep.simps validate_case_Inr_iff [THEN iffD2]
        record_version_def Let_def)
  have "quiet_outcome conflict_env ?e task_conflict [''ana''] task_disk =
    (with_case task_disk (serialize_case (pf_case_dump conflict_env) task_case),
     Inr \<lparr>ap_result = (task_result Conflicting False)\<lparr>pr_review_case_id := Some (rc_id task_case)\<rparr>, ap_graph_digest = sha256_id ''g''\<rparr>)"
    using append task_quiet(3)
    by (simp add: quiet_outcome_def env reusable_case_def) (simp add: task_state_def)
  moreover have "new_preflight conflict_env = Inr conflict_env" unfolding conflict_env_def by (rule task_env_new)
  ultimately show "\<exists>a line. evaluate_authenticated conflict_env nobody [] sample_task task_conflict [''ana''] task_disk =
     (with_case task_disk line, Inr a) \<and> pr_classification (ap_result a) = Conflicting"
    by (auto simp: evaluate_authenticated_def input quiet_evaluation task_quiet(1) task_result_def)
qed

theorem conflict_recorded_once_witness:
  "\<exists>a d'. evaluate_authenticated conflict_env nobody [] sample_task task_conflict [''ana''] task_disk = (d', Inr a) \<and>
     pr_review_case_id (ap_result a) = Some (rc_id task_case) \<and>
     evaluate_authenticated conflict_env nobody ''again'' sample_task task_conflict [''ana''] d' = (d', Inr a)"
proof -
  obtain a line where run: "evaluate_authenticated conflict_env nobody [] sample_task task_conflict [''ana''] task_disk =
      (with_case task_disk line, Inr a)" "pr_classification (ap_result a) = Conflicting"
    using task_conflict_run(1) by blast
  have "new_preflight conflict_env = Inr conflict_env" "pf_resolver conflict_env = None"
    unfolding conflict_env_def by (rule task_env_new) (simp add: task_env_def)
  from conflict_recorded_once [OF this(1) task_quiet(1) this(2) task_quiet(2) task_storable task_conflict_run(2) run(2,1)] run(1)
  show ?thesis by blast
qed

theorem preflight_changes_only_cases_witness:
  "\<exists>d' x. evaluate conflict_env nobody [] sample_task task_conflict [''ana''] task_disk = (d', x) \<and>
     dk_files d' ''graph'' = Some ''g''"
proof -
  obtain d' x where run: "evaluate conflict_env nobody [] sample_task task_conflict [''ana''] task_disk = (d', x)"
    by (metis surj_pair)
  have "new_preflight conflict_env = Inr conflict_env" unfolding conflict_env_def by (rule task_env_new)
  from preflight_changes_only_cases [OF this task_quiet(1) run] have "dk_files d' ''graph'' = dk_files task_disk ''graph''" by auto
  with run show ?thesis by (simp add: task_disk_def)
qed

lemma task_aligned_run:
  "\<exists>a. evaluate_authenticated (task_env (task_submission Aligned []) (\<lambda>_. Inr task_case)) nobody [] sample_task
     (task_submission Aligned []) [''ana''] task_disk = (task_disk, Inr a) \<and> pr_authorized (ap_result a) \<and>
     pr_relevant_node_ids (ap_result a) = [''n1'']"
proof -
  let ?s = "task_submission Aligned []"
  let ?env = "task_env ?s (\<lambda>_. Inr task_case)" and ?e = "sample_task\<lparr>te_id := sample_task_id\<rparr>" and ?st = "task_state ?s"
  obtain pack where pack: "for_refs (new_provider task_graph [] task_config (task_evidence ?s)) [''n1''] (Many [''ana'']) = Inr pack"
    using task_context unfolding task_evidence_def task_request_def task_answer_def evidence_ingestion.simps by blast
  let ?r = "(task_result Aligned False)\<lparr>pr_authorized := True, pr_permitted_scope := sb_requested_scope ?s, pr_context := pf_pack_dump ?env pack\<rparr>"
  have "hs_graph ?st = task_graph" "hs_cases ?st = []" "hs_config ?st = task_config" "hs_evidence ?st = task_evidence ?s"
    by (simp_all add: task_state_def)
  then have cls: "classify ?env ?e ?s ?st [''ana''] [Selected_Node task_node] (task_result Aligned False) = Inr (?r, None)"
    using pack by (simp add: classify_def is_proposal_def blocking_cases_def)
      (simp add: task_submission_def is_proposal_def pack)
  have "quiet_outcome ?env ?e ?s [''ana''] task_disk = (task_disk, Inr \<lparr>ap_result = ?r, ap_graph_digest = sha256_id ''g''\<rparr>)"
    by (simp add: quiet_outcome_def task_held task_snapshot_state task_assessed [OF cls])
  then show ?thesis
    by (simp add: evaluate_authenticated_def task_input(1) quiet_evaluation [OF task_env_new task_quiet(1)] task_result_def)
qed

theorem preflight_authorizes_witness:
  "\<exists>env s a snap st. evaluate_authenticated env nobody [] sample_task s [''ana''] task_disk = (task_disk, Inr a) \<and>
     snapshot_state env snap = Inr st \<and> pr_relevant_node_ids (ap_result a) = [''n1''] \<and>
     grounded st [''ana''] (pr_evidence_refs (ap_result a)) ''n1''"
proof -
  obtain a where run: "evaluate_authenticated (task_env (task_submission Aligned []) (\<lambda>_. Inr task_case)) nobody [] sample_task
     (task_submission Aligned []) [''ana''] task_disk = (task_disk, Inr a)" "pr_authorized (ap_result a)"
     "pr_relevant_node_ids (ap_result a) = [''n1'']"
    using task_aligned_run by blast
  from preflight_authorizes [OF run(1,2)] obtain snap st where
    st: "snapshot_state (task_env (task_submission Aligned []) (\<lambda>_. Inr task_case)) snap = Inr st"
    and nodes: "\<forall>i \<in> set (pr_relevant_node_ids (ap_result a)). grounded st [''ana''] (pr_evidence_refs (ap_result a)) i"
    by (elim exE conjE) (rule that)
  from nodes run(3) have "grounded st [''ana''] (pr_evidence_refs (ap_result a)) ''n1''" by simp
  with run(1,3) st show ?thesis by blast
qed

theorem preflight_reads_ledger_witness:
  "\<exists>cd content all. list_proposals cd content = Inr all \<and> all \<noteq> [] \<and>
     parse_proposals cd (text_of content) = Inr (filter (\<lambda>p. decision_for cd (ip_id p) content = Inr None) all)"
proof -
  obtain cd content where decoded: "decode_ledger cd content = Inr (Some sample_ledger)"
    using sample_ledger_decodes by blast
  then have all: "list_proposals cd content = Inr (dict_values (ls_proposals sample_ledger))" by (simp add: list_proposals_def)
  moreover have "dict_values (ls_proposals sample_ledger) \<noteq> []" by (simp add: dict_values_def sample_ledger_def)
  ultimately show ?thesis using preflight_reads_ledger [OF all] by blast
qed

end
