(* ===== verification/Conversation.thy ===== *)
theory Conversation
  imports Preflight
begin

text \<open>
  Conversation turns as evidence (\<open>intent_workflow/conversation.py\<close>): the locator that binds a prompt of the
  Codex host, the record of a turn, whose identity is the digest of everything it holds, its authentication when
  it is read again, and the capture that appends it to a connector's ledger. \<open>utc\<close> renders a UTC time; a time
  of the model is UTC, and a value of the model is a JSON value, so normalisation leaves it as it is. A payload
  is kept with its keys in canonical order: Python compares mappings without regard to order.
\<close>

section \<open>Locators\<close>

definition conversation_identity :: "string \<Rightarrow> string res" where
  "conversation_identity s =
     (if s = [] \<or> list_ex control_char s \<or> 2048 < length (utf8 s) then Inl (ValueError ''invalid conversation identity'')
      else Inr s)"

definition checked_prompt :: "string \<Rightarrow> string res" where
  "checked_prompt s =
     (if s = [] \<or> list_ex prompt_control s \<or> 16384 < length (utf8 s) then Inl (ValueError ''invalid conversation request'')
      else Inr s)"

definition codex_digest :: "string \<Rightarrow> string list \<Rightarrow> string" where
  "codex_digest label values = hexdigest (dumps False (JArr (map JStr (label # values))))"

definition codex_reference :: "string \<Rightarrow> string \<Rightarrow> string \<Rightarrow> string" where
  "codex_reference a b c = ''codex-prompt:v1:'' @ a @ '':'' @ b @ '':'' @ c"

definition codex_conversation_ref :: "string \<Rightarrow> string \<Rightarrow> string \<Rightarrow> string res" where
  "codex_conversation_ref session_id turn_id request =
     res_bind (conversation_identity session_id) (\<lambda>session.
     res_bind (conversation_identity turn_id) (\<lambda>turn.
     res_bind (checked_prompt request) (\<lambda>prompt.
     let ref = codex_reference (codex_digest ''codex-session-v1'' [session]) (codex_digest ''codex-turn-v1'' [session, turn])
       (codex_digest ''codex-request-v1'' [prompt]) in
     if length (utf8 ref) \<noteq> 210 then Inl (ValueError ''invalid Codex conversation reference'') else Inr ref)))"

text \<open>The pattern \<open>\Acodex-prompt:v1:(hex):(hex):(hex)\Z\<close>: the groups have a fixed width.\<close>

definition codex_conversation_binding :: "string \<Rightarrow> (string \<times> string \<times> string) res" where
  "codex_conversation_binding ref =
     (let a = take 64 (drop 16 ref); b = take 64 (drop 81 ref); c = drop 146 ref in
      if ref = codex_reference a b c \<and> hex64 a \<and> hex64 b \<and> hex64 c then Inr (a, b, c)
      else Inl (ValueError ''invalid Codex conversation reference''))"

definition verify_codex_conversation_ref :: "string \<Rightarrow> string \<Rightarrow> (string \<times> string \<times> string) res" where
  "verify_codex_conversation_ref ref request =
     res_bind (codex_conversation_binding ref) (\<lambda>(a, b, c).
     res_bind (checked_prompt request) (\<lambda>prompt.
     if c \<noteq> codex_digest ''codex-request-v1'' [prompt] then Inl (ValueError ''invalid Codex conversation reference'')
     else Inr (a, b, c)))"

section \<open>Turns\<close>

definition checked_acl :: "string list \<Rightarrow> string list res" where
  "checked_acl acl =
     (if acl = [] \<or> 256 < length acl then Inl (ValueError ''invalid conversation ACL'')
      else
        res_bind (map_res conversation_identity acl) (\<lambda>names.
          if \<not> distinct (sort names) then Inl (ValueError ''invalid conversation ACL'') else Inr (sort names)))"

definition version_material ::
  "(datetime \<Rightarrow> string) \<Rightarrow> string \<Rightarrow> string \<Rightarrow> string \<Rightarrow> json \<Rightarrow> datetime \<Rightarrow> string list \<Rightarrow> json dict" where
  "version_material utc conversation_ref role author content captured_at acl =
     [(''acl'', strs acl), (''author'', JStr author), (''captured_at'', JStr (utc captured_at)),
      (''content_hash'', JStr (sha256_id (dumps False content))), (''conversation_ref'', JStr conversation_ref),
      (''role'', JStr role)]"

definition turn_record ::
  "(datetime \<Rightarrow> string) \<Rightarrow> string \<Rightarrow> string \<Rightarrow> string \<Rightarrow> json \<Rightarrow> datetime \<Rightarrow> string list \<Rightarrow> evidence_record res" where
  "turn_record utc conversation_ref role author content captured_at acl =
     (if role \<noteq> ''human'' \<and> role \<noteq> ''agent'' then Inl (ValueError ''invalid conversation role'')
      else
        res_bind (conversation_identity conversation_ref) (\<lambda>locator.
        res_bind (conversation_identity author) (\<lambda>principal.
        res_bind (checked_acl acl) (\<lambda>normalized_acl.
        if 4194304 < length (utf8 (dumps False content)) then Inl (ValueError ''conversation content exceeds maximum size'')
        else
          let version = hexdigest (dumps False (JObj
            (version_material utc locator role principal content captured_at normalized_acl))) in
          Inr \<lparr>er_id = ''evidence:conversation:'' @ version, er_connector_type = ''conversation'',
            er_external_object_id = locator, er_external_version = ''sha256:'' @ version, er_author = Some principal,
            er_observed_at = captured_at, er_source_locator = locator, er_content_hash = sha256_id (dumps False content),
            er_payload = [(''content'', canon content), (''role'', JStr role)], er_parent_ref = None,
            er_acl = normalized_acl\<rparr>))))"

definition validate_conversation_record ::
  "(datetime \<Rightarrow> string) \<Rightarrow> evidence_record \<Rightarrow> string \<Rightarrow> string \<Rightarrow> string \<Rightarrow> string list \<Rightarrow> json res" where
  "validate_conversation_record utc r conversation_ref role author acl =
     (if set (map fst (er_payload r)) \<noteq> {''role'', ''content''} then Inl (ValueError ''invalid conversation evidence'')
      else
        (case map_of (er_payload r) ''content'' of
           None \<Rightarrow> Inl (KeyError ''content'')
         | Some content \<Rightarrow>
             res_bind (turn_record utc conversation_ref role author content (er_observed_at r) acl) (\<lambda>expected.
             if r \<noteq> expected then Inl (ValueError ''invalid conversation evidence'') else Inr content)))"

definition is_text :: "json option \<Rightarrow> bool" where
  "is_text v \<longleftrightarrow> (case v of Some (JStr _) \<Rightarrow> True | _ \<Rightarrow> False)"

text \<open>What the caller of the check below expects of a turn.\<close>

record turn_claim =
  tc_evidence_ref :: string
  tc_conversation_ref :: "string option"
  tc_role :: string
  tc_author :: string
  tc_acl :: "string list"
  tc_connector_id :: string
  tc_later_text_refs :: "string list"

definition validate_conversation_ingestion ::
  "(datetime \<Rightarrow> string) \<Rightarrow> evidence_record list \<Rightarrow> evidence_ingestion list \<Rightarrow> turn_claim \<Rightarrow> (evidence_record \<times> string) res" where
  "validate_conversation_ingestion utc evidence ings tc =
     (let ref = tc_evidence_ref tc; bad = Inl (ValueError ''invalid conversation evidence'') in
      if (tc_role tc \<noteq> ''human'' \<and> tc_role tc \<noteq> ''agent'') \<or> \<not> distinct (tc_later_text_refs tc) \<or> ref \<in> set (tc_later_text_refs tc)
      then bad
      else
        (case filter (\<lambda>i. ing_connector_id i = tc_connector_id tc \<and> er_id (ing_evidence i) = ref) ings of
           [i] \<Rightarrow>
             if filter (\<lambda>i. er_id (ing_evidence i) = ref) ings \<noteq> [i] then bad
             else
               let r = ing_evidence i;
                   locator = (case tc_conversation_ref tc of None \<Rightarrow> er_external_object_id r | Some c \<Rightarrow> c) in
               res_bind (validate_conversation_record utc r locator (tc_role tc) (tc_author tc) (tc_acl tc)) (\<lambda>content.
               let texts = filter (\<lambda>i. ing_connector_id i = tc_connector_id tc \<and> er_connector_type (ing_evidence i) = ''conversation'' \<and>
                     er_external_object_id (ing_evidence i) = locator \<and>
                     map_of (er_payload (ing_evidence i)) ''role'' = Some (JStr (tc_role tc)) \<and>
                     is_text (map_of (er_payload (ing_evidence i)) ''content'')) ings in
               case content of
                 JStr body \<Rightarrow>
                   if filter (\<lambda>x. er_id x = ref) evidence \<noteq> [r] \<or> ing_predecessor_id i \<noteq> None \<or>
                      set (map (\<lambda>i. er_id (ing_evidence i)) texts) \<noteq> set (ref # tc_later_text_refs tc)
                   then bad else Inr (r, body)
               | _ \<Rightarrow> bad)
         | _ \<Rightarrow> bad))"

section \<open>Capture\<close>

abbreviation ConversationCaptureError :: exn where
  "ConversationCaptureError \<equiv> ValueError ''conversation capture unavailable''"

definition new_capture :: "string \<Rightarrow> string res" where
  "new_capture connector_id = conversation_identity connector_id"

text \<open>A turn to record.\<close>

record turn =
  tn_conversation_ref :: string
  tn_role :: string
  tn_author :: string
  tn_content :: json
  tn_captured_at :: datetime
  tn_acl :: "string list"

definition record_of_turn :: "(datetime \<Rightarrow> string) \<Rightarrow> turn \<Rightarrow> evidence_record res" where
  "record_of_turn utc t =
     turn_record utc (tn_conversation_ref t) (tn_role t) (tn_author t) (tn_content t) (tn_captured_at t) (tn_acl t)"

definition record_turn ::
  "evidence_codec \<Rightarrow> (datetime \<Rightarrow> string) \<Rightarrow> string \<Rightarrow> turn \<Rightarrow> string option \<Rightarrow> string option \<times> evidence_record res" where
  "record_turn codec utc connector_id t content =
     (case record_of_turn utc t of
        Inl _ \<Rightarrow> (content, Inl ConversationCaptureError)
      | Inr r \<Rightarrow>
          (case associate codec connector_id r content of
             Inl _ \<Rightarrow> (content, Inl ConversationCaptureError)
           | Inr (_, content') \<Rightarrow> (content', Inr r)))"

section \<open>What the identity of a turn pins down\<close>

lemma conversation_identity_Inr: "conversation_identity s = Inr t \<longleftrightarrow> t = s \<and> s \<noteq> [] \<and> \<not> list_ex control_char s \<and> length (utf8 s) \<le> 2048"
  by (auto simp: conversation_identity_def)

lemma map_res_identity: "map_res conversation_identity xs = Inr ys \<Longrightarrow> ys = xs"
  by (induction xs arbitrary: ys) (auto simp: res_bind_Inr_iff conversation_identity_Inr)

lemma checked_acl_Inr: "checked_acl acl = Inr names \<Longrightarrow> names = sort acl \<and> acl \<noteq> []"
  by (auto simp: checked_acl_def res_bind_Inr_iff dest!: map_res_identity split: if_splits)

lemma turn_record_Inr:
  assumes "turn_record utc c role author content captured_at acl = Inr r"
  shows "er_connector_type r = ''conversation''" "er_external_object_id r = c" "er_source_locator r = c" "er_author r = Some author"
    "er_observed_at r = captured_at" "er_payload r = [(''content'', canon content), (''role'', JStr role)]" "er_acl r = sort acl"
    "er_content_hash r = sha256_id (dumps False content)" "er_parent_ref r = None" "acl \<noteq> []"
    "er_id r = ''evidence:conversation:'' @ hexdigest (dumps False (JObj (version_material utc c role author content captured_at (sort acl))))"
    "er_external_version r = ''sha256:'' @ hexdigest (dumps False (JObj (version_material utc c role author content captured_at (sort acl))))"
  using assms by (auto simp: turn_record_def Let_def res_bind_Inr_iff conversation_identity_Inr dest!: checked_acl_Inr split: if_splits)

lemma canon_canon: "canon (canon v) = canon v"
proof (induction v)
  case (JObj kvs)
  have twice: "map ((\<lambda>(k, v). (k, canon v)) \<circ> (\<lambda>(k, v). (k, canon v))) kvs = map (\<lambda>(k, v). (k, canon v)) kvs"
    using JObj by (auto simp: snds.simps)
  show ?case by (simp add: sort_key_map_snd [symmetric] sort_key_sorted twice)
qed (simp_all add: cong: map_cong)

lemma turn_record_canon:
  "turn_record utc c role author (canon content) captured_at acl = turn_record utc c role author content captured_at acl"
  unfolding turn_record_def version_material_def dumps_canon canon_canon by (rule refl)

text \<open>The text whose digest names the turn, read off its record.\<close>

definition turn_text :: "(datetime \<Rightarrow> string) \<Rightarrow> evidence_record \<Rightarrow> string" where
  "turn_text utc r =
     dumps False (JObj [(''acl'', strs (er_acl r)), (''author'', opt_str (er_author r)), (''captured_at'', JStr (utc (er_observed_at r))),
       (''content_hash'', JStr (er_content_hash r)), (''conversation_ref'', JStr (er_external_object_id r)),
       (''role'', case map_of (er_payload r) ''role'' of Some v \<Rightarrow> v | None \<Rightarrow> JNull)])"

lemma turn_text: 
  assumes "turn_record utc c role author content captured_at acl = Inr r"
  shows "turn_text utc r = dumps False (JObj (version_material utc c role author content captured_at (sort acl)))"
  using turn_record_Inr [OF assms] by (simp add: turn_text_def version_material_def opt_str_def)

lemma validated_turn:
  assumes "validate_conversation_record utc r c role author acl = Inr content"
  shows "turn_record utc c role author content (er_observed_at r) acl = Inr r"
  using assms by (auto simp: validate_conversation_record_def res_bind_Inr_iff split: if_splits option.splits)

lemma canon_material:
  "canon (JObj (version_material utc c role author content captured_at acl)) =
     JObj (version_material utc c role author content captured_at acl)"
proof -
  have "sorted [''acl'', ''author'', ''captured_at'', ''content_hash'', ''conversation_ref'', ''role'']" by code_simp
  then have "sorted (map fst (version_material utc c role author content captured_at acl))" by (simp add: version_material_def)
  moreover have "map (\<lambda>(k, v). (k, canon v)) (version_material utc c role author content captured_at acl) =
      version_material utc c role author content captured_at acl"
    by (simp add: version_material_def strs_def)
  ultimately show ?thesis by (simp add: sort_key_sorted)
qed

text \<open>C24: A turn is authentic. A recorded turn passes its authentication with its content; and any record that passes
  authentication, for whatever conversation, role, author, readers and content, under the same identity is that
  very record, unless two of the texts that were digested collide under SHA-256. (\<open>utc\<close> renders different times
  differently.)\<close>

theorem turn_authentic:
  assumes "turn_record utc c role author content captured_at acl = Inr r"
    and "validate_conversation_record utc r' c' role' author' acl' = Inr content'"
    and "er_id r' = er_id r" "wf_json content" "wf_json content'" "inj utc"
  shows "validate_conversation_record utc r c role author acl = Inr (canon content) \<and>
    (r' = r \<or> collision (turn_text utc r') (turn_text utc r) \<or> collision (dumps False content') (dumps False content))"
proof
  note r = turn_record_Inr [OF assms(1)] and turn' = validated_turn [OF assms(2)]
  note r' = turn_record_Inr [OF turn']
  show "validate_conversation_record utc r c role author acl = Inr (canon content)"
    using assms(1) r(5) by (simp add: validate_conversation_record_def r(6) turn_record_canon insert_commute)
  show "r' = r \<or> collision (turn_text utc r') (turn_text utc r) \<or> collision (dumps False content') (dumps False content)"
  proof (rule ccontr)
    assume no: "\<not> (r' = r \<or> collision (turn_text utc r') (turn_text utc r) \<or> collision (dumps False content') (dumps False content))"
    have "hexdigest (turn_text utc r') = hexdigest (turn_text utc r)"
      using assms(3) r(11) r'(11) by (simp add: turn_text [OF assms(1)] turn_text [OF turn'])
    with no have "turn_text utc r' = turn_text utc r" by (auto simp: collision_def)
    then have same: "canon (JObj (version_material utc c' role' author' content' (er_observed_at r') (sort acl'))) =
        canon (JObj (version_material utc c role author content captured_at (sort acl)))"
      unfolding turn_text [OF assms(1)] turn_text [OF turn'] by (intro dumps_inject) (simp_all add: version_material_def)
    have fields: "sort acl' = sort acl" "author' = author" "er_observed_at r' = captured_at" "c' = c" "role' = role"
      "sha256_id (dumps False content') = sha256_id (dumps False content)"
      using same [unfolded canon_material] assms(6) inj_map_eq_map [OF injI, of JStr] by (simp_all add: version_material_def strs_def inj_eq)
    then have "dumps False content' = dumps False content" using no by (auto simp: sha256_id_inject)
    then have "canon content' = canon content" using assms(4,5) by (blast intro: dumps_inject)
    moreover have "er_external_version r' = er_external_version r"
      unfolding r(12) r'(12) by (simp only: same [unfolded canon_material])
    ultimately have "r' = r"
      using fields r(1-9) r'(1-9) assms(3) by (intro evidence_record.equality) simp_all
    with no show False by simp
  qed
qed

section \<open>From capture to preflight\<close>

lemma record_turn_Inr:
  assumes "record_turn codec utc c t content = (content', Inr r)"
  shows "record_of_turn utc t = Inr r" "\<exists>added. associate codec c r content = Inr (added, content')"
  using assms by (auto simp: record_turn_def split: sum.splits prod.splits)

lemma turn_ingestion_entry:
  assumes "ledger_ok (entries c ings)" "i \<in> set ings" "ing_connector_id i = c"
  shows "turn_ingestion (er_id (ing_evidence i)) ings c = Inr i"
proof -
  have "filter (\<lambda>x. er_id (ing_evidence x) = er_id (ing_evidence i)) (entries c ings) = [i]"
  proof -
    have "distinct (map (\<lambda>x. er_id (ing_evidence x)) (entries c ings))" using assms(1) by (simp add: ledger_ok_def)
    moreover have "i \<in> set (entries c ings)" using assms(2,3) by (simp add: entries_def)
    moreover have "distinct (map f xs) \<Longrightarrow> i \<in> set xs \<Longrightarrow> filter (\<lambda>x. f x = f i) xs = [i]" for f :: "evidence_ingestion \<Rightarrow> string" and xs
      by (induction xs) (auto simp: filter_empty_conv, metis image_eqI)
    ultimately show ?thesis by blast
  qed
  then show ?thesis by (simp add: turn_ingestion_def entries_def conj_commute)
qed

lemma state_record:
  assumes "state_ok st" "i \<in> set (st_ingestions st)"
  shows "map_of (dict_of er_id (dict_values (st_records st))) (er_id (ing_evidence i)) = Some (ing_evidence i)"
proof -
  have keys: "map er_id (dict_values (st_records st)) = map fst (st_records st)"
    using assms(1) by (auto simp: state_ok_def dict_values_def)
  have "(er_id (ing_evidence i), ing_evidence i) \<in> set (st_records st)"
    using assms map_of_SomeD unfolding state_ok_def by fast
  then have "ing_evidence i \<in> set (dict_values (st_records st))" by (force simp: dict_values_def)
  moreover have "distinct (map er_id (dict_values (st_records st)))" using assms(1) unfolding keys by (simp add: state_ok_def)
  ultimately show ?thesis by (rule dict_of_lookup_fresh [rotated])
qed

text \<open>The turns of a request and of its classification, as an agent host records them.\<close>

definition request_turn :: "preflight_env \<Rightarrow> task_envelope \<Rightarrow> string list \<Rightarrow> turn" where
  "request_turn env e acl =
     \<lparr>tn_conversation_ref = te_conversation_ref e, tn_role = (if pf_request_human env then ''human'' else ''agent''),
      tn_author = te_actor e, tn_content = JStr (te_request e), tn_captured_at = te_created_at e, tn_acl = acl\<rparr>"

definition classification_turn ::
  "preflight_env \<Rightarrow> task_envelope \<Rightarrow> classification_submission \<Rightarrow> datetime \<Rightarrow> string list \<Rightarrow> turn" where
  "classification_turn env e s captured_at acl =
     \<lparr>tn_conversation_ref = te_conversation_ref e, tn_role = ''agent'', tn_author = pf_agent_principal env,
      tn_content = JObj (classification_evidence_content s), tn_captured_at = captured_at, tn_acl = acl\<rparr>"

lemma content_equals_own: "content_equals fv (Some (JObj (classification_evidence_content s))) s"
proof -
  have "map_of (classification_evidence_content s) ''graph_version'' = Some (JInt (sb_graph_version s))"
    "AList.update ''graph_version'' (JInt (sb_graph_version s)) (classification_evidence_content s) = classification_evidence_content s"
    by (simp_all add: classification_evidence_content_def)
  then show ?thesis by (simp add: content_equals_def equals_int_def canon_content del: canon.simps)
qed

lemma recorded_turns_agree:
  assumes "record_of_turn utc (request_turn env e acl) = Inr r1" "record_of_turn utc (classification_turn env e s captured_at acl) = Inr r2"
    and "te_created_at e \<le> captured_at" "set acl \<inter> set ps \<noteq> {}" "[] \<notin> set ps" "er_id r1 \<noteq> er_id r2"
    and "ing_evidence i1 = r1" "ing_evidence i2 = r2" "ing_predecessor_id i2 = Some (er_id r1)" "ing_sequence i2 = ing_sequence i1 + 1"
  shows "turns_agree env e s i1 i2 ps"
proof -
  note r1 = turn_record_Inr [OF assms(1) [unfolded record_of_turn_def]] and r2 = turn_record_Inr [OF assms(2) [unfolded record_of_turn_def]]
  have "evidence_allowed r (Many ps)" if "er_acl r = sort acl" for r
    using that assms(4,5) by (auto simp: evidence_allowed_def principals_def list_ex_iff)
  then have "evidence_allowed r1 (Many ps)" "evidence_allowed r2 (Many ps)"
    using r1(7) r2(7) by (simp_all add: request_turn_def classification_turn_def)
  then show ?thesis
    using r1(1-7) r2(1-7) assms(3,6-10) content_equals_own [of "pf_float env" s] canon_content [of s]
    by (simp add: turns_agree_def Let_def turn_of_def request_turn_def classification_turn_def del: canon.simps(2))
qed

lemma recorded_turns_differ:
  assumes "record_of_turn utc (request_turn env e acl) = Inr r1" "record_of_turn utc (classification_turn env e s captured_at acl) = Inr r2"
    and "pf_request_human env"
  shows "er_id r1 \<noteq> er_id r2 \<or> collision (turn_text utc r1) (turn_text utc r2)"
proof (rule ccontr)
  note t = assms(1,2) [unfolded record_of_turn_def]
  note r1 = turn_record_Inr [OF t(1)] and r2 = turn_record_Inr [OF t(2)]
  assume "\<not> (er_id r1 \<noteq> er_id r2 \<or> collision (turn_text utc r1) (turn_text utc r2))"
  moreover from this have "hexdigest (turn_text utc r1) = hexdigest (turn_text utc r2)"
    using r1(11) r2(11) by (simp add: turn_text [OF t(1)] turn_text [OF t(2)])
  ultimately have "turn_text utc r1 = turn_text utc r2" by (auto simp: collision_def)
  then have "canon (JObj (version_material utc (tn_conversation_ref (request_turn env e acl)) (tn_role (request_turn env e acl))
      (tn_author (request_turn env e acl)) (tn_content (request_turn env e acl)) (tn_captured_at (request_turn env e acl))
      (sort (tn_acl (request_turn env e acl))))) =
    canon (JObj (version_material utc (tn_conversation_ref (classification_turn env e s captured_at acl))
      (tn_role (classification_turn env e s captured_at acl)) (tn_author (classification_turn env e s captured_at acl))
      (tn_content (classification_turn env e s captured_at acl)) (tn_captured_at (classification_turn env e s captured_at acl))
      (sort (tn_acl (classification_turn env e s captured_at acl)))))"
    unfolding turn_text [OF t(1)] turn_text [OF t(2)] by (intro dumps_inject) (simp_all add: version_material_def strs_def list_all_iff)
  then show False
    unfolding canon_material using assms(3) by (simp add: version_material_def request_turn_def classification_turn_def)
qed

text \<open>C25: What a host captures is what preflight accepts. After the turn of a request and the turn of its
  classification have been recorded one after the other, both new, the conversation check of preflight succeeds on
  the evidence file for the envelope and the submission that name them, for every reader in the turns' access list,
  unless the two texts that name the turns collide under SHA-256. (The request is a human's, the file ends its last
  line and Pydantic reads the two dumps back.)\<close>

theorem capture_then_preflight:
  assumes "parse_evidence_lines codec content = Inr st0" "complete_lines (text_of content)" "c = pf_connector_id env"
    and "record_turn codec utc c (request_turn env e acl) content = (content1, Inr r1)"
    and "record_turn codec utc c (classification_turn env e s captured_at acl) content1 = (content2, Inr r2)"
    and "\<not> associated (entries c (st_ingestions st0)) (er_id r1)" "\<not> associated (entries c (st_ingestions st0)) (er_id r2)"
    and "pf_request_human env" "i1 = next_ingestion c r1 (entries c (st_ingestions st0))"
    and "ingestion_writable codec i1" "ingestion_writable codec (next_ingestion c r2 (entries c (st_ingestions st0) @ [i1]))"
    and "te_created_at e \<le> captured_at" "set acl \<inter> set ps \<noteq> {}" "[] \<notin> set ps"
    and "te_request_evidence_ref e = er_id r1" "sb_agent_evidence_ref s = er_id r2"
    and "hs_evidence st = dict_values (st_records st2)" "hs_ingestions st = st_ingestions st2"
    and "parse_evidence_lines codec content2 = Inr st2"
  shows "validate_turns env e s st ps = Inr (r1, r2) \<or> collision (turn_text utc r1) (turn_text utc r2)"
proof (cases "er_id r1 = er_id r2")
  case True
  then show ?thesis
    using recorded_turns_differ [OF record_turn_Inr(1) [OF assms(4)] record_turn_Inr(1) [OF assms(5)] assms(8)] by blast
next
  case different: False
  obtain rows0 where rows0: "rows_of codec content = Inr rows0" and st0: "st_ingestions st0 = st_ingestions rows0"
    using assms(1) by (auto simp: parse_evidence_rows res_bind_Inr_iff)
  note t1 = record_turn_Inr [OF assms(4)] and t2 = record_turn_Inr [OF assms(5)]
  let ?i2 = "next_ingestion c r2 (entries c (st_ingestions st0) @ [i1])"
  have c1: "ing_connector_id i1 = c" by (simp add: assms(9) next_ingestion_def)
  obtain added1 where a1: "associate codec c r1 content = Inr (added1, content1)" using t1(2) by blast
  from associate_rows [OF rows0 assms(2) a1 assms(6) [unfolded st0] assms(10) [unfolded assms(9) st0]]
  obtain rows1 where rows1: "rows_of codec content1 = Inr rows1" "complete_lines (text_of content1)"
    "st_ingestions rows1 = st_ingestions st0 @ [i1]"
    by (metis assms(9) st0)
  have es1: "entries c (st_ingestions rows1) = entries c (st_ingestions st0) @ [i1]" by (simp add: rows1(3) c1)
  have fresh: "\<not> associated (entries c (st_ingestions rows1)) (er_id r2)"
    using assms(7) different by (auto simp: es1 associated_def assms(9) next_ingestion_def)
  obtain added2 where a2: "associate codec c r2 content1 = Inr (added2, content2)" using t2(2) by blast
  from associate_rows [OF rows1(1,2) a2 fresh] assms(11) obtain rows2 where rows2: "rows_of codec content2 = Inr rows2"
    "st_ingestions rows2 = st_ingestions st0 @ [i1, ?i2]"
    unfolding es1 by (metis append.assoc append_Cons append_Nil rows1(3))
  have st2: "st_ingestions st2 = st_ingestions st0 @ [i1, ?i2]" and ok: "state_ok st2"
    using assms(19) rows2 parse_evidence_ok [OF assms(19)] by (auto simp: parse_evidence_rows)
  have ev: "ing_evidence i1 = r1" "ing_evidence ?i2 = r2" "ing_connector_id ?i2 = c" "ing_sequence ?i2 = ing_sequence i1 + 1"
    by (simp_all add: assms(9) next_ingestion_def)
  have "er_connector_type r1 = er_connector_type r2" "er_external_object_id r1 = er_external_object_id r2"
    using turn_record_Inr(1,2) [OF t1(1) [unfolded record_of_turn_def]] turn_record_Inr(1,2) [OF t2(1) [unfolded record_of_turn_def]]
    by (simp_all add: request_turn_def classification_turn_def)
  then have "ing_predecessor_id ?i2 = Some (er_id r1)"
    using ev(1) by (simp add: next_ingestion_def predecessor_def Let_def)
  then have agree: "turns_agree env e s i1 ?i2 ps"
    by (intro recorded_turns_agree [OF t1(1) t2(1) assms(12-14) different] ev)
  have "ledger_ok (entries c (st_ingestions st2))" using ok by (simp add: state_ok_def)
  note entry = turn_ingestion_entry [OF this]
  have "turn_ingestion (er_id r1) (st_ingestions st2) c = Inr i1" "turn_ingestion (er_id r2) (st_ingestions st2) c = Inr ?i2"
    using entry [of i1] entry [of ?i2] c1 ev by (simp_all add: st2)
  moreover have "map_of (dict_of er_id (hs_evidence st)) (er_id r1) = Some r1" "map_of (dict_of er_id (hs_evidence st)) (er_id r2) = Some r2"
    using state_record [OF ok, of i1] state_record [OF ok, of ?i2] ev by (simp_all add: st2 assms(17))
  ultimately show ?thesis
    using agree ev by (simp add: validate_turns_def Let_def assms(15,16,18) assms(3) [symmetric] del: map_of_eq_Some_iff)
qed

section \<open>Locators bind their request\<close>

lemma utf8_hex:
  assumes "list_all hex_char s"
  shows "length (utf8 s) = length s"
proof -
  have "list_all (\<lambda>c. length (utf8_char c) = 1) ''0123456789abcdef''" by code_simp
  then have "length (utf8_char c) = 1" if "hex_char c" for c using that by (auto simp: hex_char_def list_all_iff)
  then show ?thesis using assms by (induction s) (simp_all add: utf8_def)
qed

lemma length_codex_digest [simp]: "length (codex_digest label values) = 64"
  by (simp add: codex_digest_def)

lemma hex64_codex_digest [simp]: "hex64 (codex_digest label values)"
  by (simp add: codex_digest_def hex64_hexdigest)

lemma codex_binding_reference:
  assumes "hex64 a" "hex64 b" "hex64 c"
  shows "codex_conversation_binding (codex_reference a b c) = Inr (a, b, c)" "length (utf8 (codex_reference a b c)) = 210"
proof -
  have l: "length a = 64" "length b = 64" "length c = 64" using assms by (simp_all add: hex64_def)
  then have "take 64 (drop 16 (codex_reference a b c)) = a" "take 64 (drop 81 (codex_reference a b c)) = b"
    "drop 146 (codex_reference a b c) = c"
    by (simp_all add: codex_reference_def numeral_eq_Suc)
  then show "codex_conversation_binding (codex_reference a b c) = Inr (a, b, c)"
    using assms by (simp add: codex_conversation_binding_def)
  have "length (utf8 ''codex-prompt:v1:'') = 16" "length (utf8 '':'') = 1" by code_simp+
  then show "length (utf8 (codex_reference a b c)) = 210"
    using utf8_hex [of a] utf8_hex [of b] utf8_hex [of c] assms l
    by (simp add: codex_reference_def utf8_def hex64_def)
qed

text \<open>A locator made for a request verifies against it, and against no other request unless two texts collide.\<close>

theorem codex_ref_binds:
  assumes "codex_conversation_ref session_id turn_id request = Inr ref"
  shows "\<exists>x. verify_codex_conversation_ref ref request = Inr x" "codex_conversation_binding ref = Inr y \<Longrightarrow>
    verify_codex_conversation_ref ref request' = Inr z \<Longrightarrow> request' = request \<or>
      collision (dumps False (JArr (map JStr [''codex-request-v1'', request']))) (dumps False (JArr (map JStr [''codex-request-v1'', request])))"
proof -
  from assms obtain a b where ref: "ref = codex_reference a b (codex_digest ''codex-request-v1'' [request])" "hex64 a" "hex64 b"
    and prompt: "checked_prompt request = Inr request"
    by (auto simp: codex_conversation_ref_def Let_def res_bind_Inr_iff checked_prompt_def split: if_splits)
  have bound: "codex_conversation_binding ref = Inr (a, b, codex_digest ''codex-request-v1'' [request])"
    unfolding ref(1) by (rule codex_binding_reference(1) [OF ref(2,3) hex64_codex_digest])
  then show "\<exists>x. verify_codex_conversation_ref ref request = Inr x"
    using prompt by (simp add: verify_codex_conversation_ref_def)
  assume "verify_codex_conversation_ref ref request' = Inr z"
  then have "codex_digest ''codex-request-v1'' [request'] = codex_digest ''codex-request-v1'' [request]"
    by (auto simp: verify_codex_conversation_ref_def bound res_bind_Inr_iff checked_prompt_def split: if_splits)
  moreover have "request' = request" if "dumps False (JArr (map JStr [''codex-request-v1'', request'])) =
      dumps False (JArr (map JStr [''codex-request-v1'', request]))"
    using dumps_inject [OF _ _ that] by simp
  ultimately show "request' = request \<or>
      collision (dumps False (JArr (map JStr [''codex-request-v1'', request']))) (dumps False (JArr (map JStr [''codex-request-v1'', request])))"
    unfolding codex_digest_def collision_def by auto
qed

section \<open>A sample conversation\<close>

definition talk_env :: preflight_env where
  "talk_env = task_env (task_submission Aligned []) (\<lambda>_. Inr task_case)"

definition talk_submission :: "string \<Rightarrow> classification_submission" where
  "talk_submission ref =
     \<lparr>sb_task_id = ''t'', sb_task_digest = ''d'', sb_graph_version = 4, sb_classification = Aligned, sb_basis = ''read'',
      sb_relevant_node_ids = [''n1''], sb_evidence_refs = [''ev-0''], sb_agent_evidence_ref = ref, sb_semantic_effects = [],
      sb_uncertainties = [], sb_questions = [], sb_conflict_claims = [], sb_requested_scope = []\<rparr>"

definition talk_task :: "string \<Rightarrow> task_envelope" where
  "talk_task ref = sample_task\<lparr>te_request_evidence_ref := ref\<rparr>"

text \<open>A codec that knows two ingestions by their number.\<close>

definition talk_codec :: "evidence_ingestion \<Rightarrow> evidence_ingestion \<Rightarrow> evidence_codec" where
  "talk_codec i1 i2 =
     \<lparr>dump_record = (\<lambda>_. []), decode_record = (\<lambda>_. Inl (ValueError [])),
      dump_ingestion = (\<lambda>i. [(''n'', JInt (ing_sequence i)), (''storage_schema_version'', JInt 1)]),
      decode_ingestion = (\<lambda>kvs. Inr (if map_of kvs ''n'' = Some (JInt 1) then i1 else i2))\<rparr>"

definition unary :: "datetime \<Rightarrow> string" where
  "unary t = (if t < 0 then CHR ''-'' # replicate (nat (- t)) (CHR ''1'') else replicate (nat t) (CHR ''1''))"

lemma inj_unary: "inj unary"
proof (rule injI)
  fix x y assume "unary x = unary y"
  then show "x = y"
    by (cases "nat x"; cases "nat y") (auto simp: unary_def split: if_splits dest!: arg_cong [where f = length])
qed

lemma talk_records:
  "\<exists>r. record_of_turn utc (request_turn talk_env (talk_task ref) [''ana'']) = Inr r"
  "\<exists>r. record_of_turn utc (classification_turn talk_env (talk_task ref) (talk_submission ref') 3 [''ana'']) = Inr r"
proof -
  have names: "conversation_identity ''talk'' = Inr ''talk''" "conversation_identity ''ana'' = Inr ''ana''"
    "conversation_identity ''agent'' = Inr ''agent''" "checked_acl [''ana''] = Inr [''ana'']"
    and size: "length (utf8 (dumps False (JStr ''rename''))) = 8"
      "length (utf8 (dumps False (JObj (classification_evidence_content (talk_submission []))))) \<le> 1000"
    by code_simp+
  have same: "classification_evidence_content (talk_submission ref') = classification_evidence_content (talk_submission [])"
    by (simp add: classification_evidence_content_def talk_submission_def)
  show "\<exists>r. record_of_turn utc (request_turn talk_env (talk_task ref) [''ana'']) = Inr r"
    using names size(1)
    by (simp add: record_of_turn_def turn_record_def Let_def request_turn_def talk_env_def task_env_def talk_task_def del: dumps.simps)
  show "\<exists>r. record_of_turn utc (classification_turn talk_env (talk_task ref) (talk_submission ref') 3 [''ana'']) = Inr r"
    using names size(2)
    by (simp add: record_of_turn_def turn_record_def Let_def classification_turn_def talk_env_def task_env_def talk_task_def same
        del: dumps.simps)
qed

lemma talk_turns:
  "request_turn env (talk_task ref) acl = request_turn env (talk_task []) acl"
  "classification_turn env (talk_task ref) (talk_submission ref') n acl = classification_turn env (talk_task []) (talk_submission []) n acl"
  by (simp_all add: request_turn_def classification_turn_def talk_task_def classification_evidence_content_def talk_submission_def)

theorem turn_authentic_witness:
  "\<exists>r. turn_record unary ''talk'' ''human'' ''ana'' (JStr ''hi'') 7 [''ana''] = Inr r \<and>
     validate_conversation_record unary r ''talk'' ''human'' ''ana'' [''ana''] = Inr (JStr ''hi'')"
proof -
  have names: "conversation_identity ''talk'' = Inr ''talk''" "conversation_identity ''ana'' = Inr ''ana''" "checked_acl [''ana''] = Inr [''ana'']"
    "length (utf8 (dumps False (JStr ''hi''))) = 4"
    by code_simp+
  then obtain r where r: "turn_record unary ''talk'' ''human'' ''ana'' (JStr ''hi'') 7 [''ana''] = Inr r"
    by (simp add: turn_record_def Let_def)
  have "validate_conversation_record unary r ''talk'' ''human'' ''ana'' [''ana''] = Inr (JStr ''hi'')"
    using r turn_record_Inr(5,6) [OF r] by (simp add: validate_conversation_record_def insert_commute)
  from turn_authentic [OF r this refl _ _ inj_unary] r show ?thesis by simp
qed

lemma talk_writable:
  assumes "ing_sequence i = 1 \<and> i = i1 \<or> ing_sequence i = 2 \<and> i = i2"
  shows "ingestion_writable (talk_codec i1 i2) i"
proof -
  have facts: "wf_json (JObj [(''n'', JInt n), (''storage_schema_version'', JInt 1)])" for n by simp
  have lines: "one_line (dumps False (JObj [(''n'', JInt 1), (''storage_schema_version'', JInt 1)]))"
    "one_line (dumps False (JObj [(''n'', JInt 2), (''storage_schema_version'', JInt 1)]))"
    "canon (JObj [(''n'', JInt 1), (''storage_schema_version'', JInt 1)]) = JObj [(''n'', JInt 1), (''storage_schema_version'', JInt 1)]"
    "canon (JObj [(''n'', JInt 2), (''storage_schema_version'', JInt 1)]) = JObj [(''n'', JInt 2), (''storage_schema_version'', JInt 1)]"
    by code_simp+
  then show ?thesis
    using assms by (auto simp: ingestion_writable_def writable_def talk_codec_def simp del: dumps.simps canon.simps)
qed

lemma associate_fresh:
  assumes "rows_of codec content = Inr st" "map_of (st_records st) (er_id r) = None"
    "\<not> associated (entries ''conv'' (st_ingestions st)) (er_id r)"
  shows "\<exists>content'. associate codec ''conv'' r content = Inr (True, content')"
proof -
  have "\<not> list_all pattern_space ''conv''" by code_simp
  then show ?thesis
    using assms by (simp add: associate_def parse_evidence_rows Let_def validate_ingestion_def next_ingestion_def)
qed

theorem capture_then_preflight_witness:
  "\<exists>r1 r2. record_of_turn unary (request_turn talk_env (talk_task (er_id r1)) [''ana'']) = Inr r1 \<and>
     record_of_turn unary (classification_turn talk_env (talk_task (er_id r1)) (talk_submission (er_id r2)) 3 [''ana'']) = Inr r2 \<and>
     (collision (turn_text unary r1) (turn_text unary r2) \<or>
      (\<exists>codec content1 content2 st.
         record_turn codec unary ''conv'' (request_turn talk_env (talk_task (er_id r1)) [''ana'']) None = (content1, Inr r1) \<and>
         record_turn codec unary ''conv'' (classification_turn talk_env (talk_task (er_id r1)) (talk_submission (er_id r2)) 3 [''ana''])
           content1 = (content2, Inr r2) \<and>
         validate_turns talk_env (talk_task (er_id r1)) (talk_submission (er_id r2)) st [''ana''] = Inr (r1, r2)))"
proof -
  obtain r1 where r1: "record_of_turn unary (request_turn talk_env (talk_task []) [''ana'']) = Inr r1" using talk_records(1) by blast
  obtain r2 where r2: "record_of_turn unary (classification_turn talk_env (talk_task []) (talk_submission []) 3 [''ana'']) = Inr r2"
    using talk_records(2) by blast
  let ?e = "talk_task (er_id r1)" and ?s = "talk_submission (er_id r2)" and ?c = "''conv''"
  let ?i1 = "next_ingestion ?c r1 []"
  let ?i2 = "next_ingestion ?c r2 [?i1]"
  let ?codec = "talk_codec ?i1 ?i2"
  note t1 = r1 [folded talk_turns(1) [of talk_env "er_id r1"]]
    and t2 = r2 [folded talk_turns(2) [of talk_env "er_id r1" "er_id r2"]]
  have env: "pf_request_human talk_env" "pf_connector_id talk_env = ?c" by (simp_all add: talk_env_def task_env_def)
  show ?thesis
  proof (cases "er_id r1 = er_id r2")
    case True
    with recorded_turns_differ [OF t1 t2 env(1)] have "collision (turn_text unary r1) (turn_text unary r2)" by blast
    with t1 t2 show ?thesis by blast
  next
    case False
    have w: "ingestion_writable ?codec ?i1" "ingestion_writable ?codec ?i2"
      by (rule talk_writable, simp add: next_ingestion_def)+
    have rows0: "rows_of ?codec None = Inr empty_state" by (simp add: rows_of_def splitlines.simps)
    have empty: "st_records empty_state = []" "st_ingestions empty_state = []" "\<not> associated [] k" "entries c [] = []" for k c
      by (simp_all add: empty_state_def associated_def entries_def)
    obtain content1 where a1: "associate ?codec ?c r1 None = Inr (True, content1)"
      using associate_fresh [OF rows0, of r1] empty by auto
    obtain rows1 where rows1: "rows_of ?codec content1 = Inr rows1" "complete_lines (text_of content1)" "st_ingestions rows1 = [?i1]"
      "map_of (st_records rows1) = [er_id r1 \<mapsto> r1]"
      by (rule associate_rows [OF rows0 _ a1]) (use empty w(1) in simp_all)
    have fresh: "\<not> associated (entries ?c (st_ingestions rows1)) (er_id r2)"
      using False by (simp add: rows1(3) associated_def next_ingestion_def entries_def)
    then obtain content2 where a2: "associate ?codec ?c r2 content1 = Inr (True, content2)"
      using associate_fresh [OF rows1(1), of r2] False by (auto simp: rows1(4))
    have es1: "entries ?c (st_ingestions rows1) = [?i1]" by (simp add: rows1(3) next_ingestion_def entries_def)
    obtain rows2 where rows2: "rows_of ?codec content2 = Inr rows2"
      by (rule associate_rows [OF rows1(1,2) a2 fresh]) (use es1 w(2) in simp_all)
    define st2 where "st2 = rows2\<lparr>st_legacy_ids := fromkeys (st_legacy_ids rows2)\<rparr>"
    have st2: "parse_evidence_lines ?codec content2 = Inr st2" by (simp add: parse_evidence_rows rows2 st2_def)
    let ?st = "(task_state ?s)\<lparr>hs_evidence := dict_values (st_records st2), hs_ingestions := st_ingestions st2\<rparr>"
    have run1: "record_turn ?codec unary ?c (request_turn talk_env ?e [''ana'']) None = (content1, Inr r1)"
      using t1 a1 by (simp add: record_turn_def)
    have run2: "record_turn ?codec unary ?c (classification_turn talk_env ?e ?s 3 [''ana'']) content1 = (content2, Inr r2)"
      using t2 a2 by (simp add: record_turn_def)
    have st0: "parse_evidence_lines ?codec None = Inr empty_state" by (simp add: parse_evidence_lines_def)
    have "validate_turns talk_env ?e ?s ?st [''ana''] = Inr (r1, r2) \<or> collision (turn_text unary r1) (turn_text unary r2)"
    proof (rule capture_then_preflight [OF st0 _ env(2) [symmetric] run1 run2 _ _ env(1) _ _ _ _ _ _ _ _ _ _ st2])
      show "?i1 = next_ingestion ?c r1 (entries ?c (st_ingestions empty_state))" by (simp add: empty)
    qed (use w in \<open>simp_all add: empty talk_task_def talk_submission_def\<close>)
    with run1 run2 t1 t2 show ?thesis by blast
  qed
qed

end
