(* ===== verification/Post_Task.thy ===== *)
theory Post_Task
  imports Executor Evidence_Store Intent_Authorization
begin

text \<open>
  What follows an authorised task (\<open>intent_workflow/post_task.py\<close>). An agent submits, with its capability, what
  it claims to have done; the service checks the claims against one snapshot of the project, consumes the
  capability and commits the links from requirements to code and tests as a ChangeSet bound to that snapshot.
  What other threads and processes do to the registry and the files between the first check of the capability and
  its consumption is an argument (\<open>others\<close>); what they do to the files until the executor holds its locks is part
  of it, since the checks in between read only the snapshot. The executor and the service work on one coordinator.
  The authority resolver is a parameter. Cancellation (a \<open>BaseException\<close>) is not modelled. A value a frozen payload holds as a
  tuple is an array; the fixed failure of the module, which carries a status and a reason, is an outcome of its
  own beside exceptions.
\<close>

section \<open>Submissions\<close>

datatype PostTaskStatus = Recorded | Preflight_Required | Review_Required | Rejected

datatype PostTaskReason =
    Done | Scope_Changed | Authorization_Rejected | Evidence_Rejected | Reference_Rejected | Needs_Review

record post_task_submission =
  ps_repository_id :: string
  ps_task_id :: string
  ps_actor :: string
  ps_request_digest :: string
  ps_graph_version :: int
  ps_base_revision :: string
  ps_final_revision :: string
  ps_changed_paths :: "string list"
  ps_requirement_ids :: "string list"
  ps_code_refs :: "string list"
  ps_test_refs :: "string list"
  ps_git_evidence_refs :: "string list"
  ps_test_evidence_refs :: "string list"
  ps_completed_at :: datetime

text \<open>\<open>_identity\<close> and \<open>_path\<close> make the checks of the capability registry under other messages.\<close>

definition post_identity :: "string \<Rightarrow> string res" where
  "post_identity s =
     (if s = [] \<or> list_ex control_char s \<or> length (utf8 s) > 2048 then Inl (ValueError ''invalid post-task identity'')
      else Inr s)"

definition post_path :: "string \<Rightarrow> string res" where
  "post_path s = (if path_ok s then Inr s else Inl (ValueError ''invalid post-task path''))"

definition canonical_tuple :: "bool \<Rightarrow> string list \<Rightarrow> string list res" where
  "canonical_tuple paths values =
     (if 256 < length values then Inl (ValueError ''invalid post-task collection'')
      else
        res_bind (map_res (if paths then post_path else post_identity) values) (\<lambda>checked.
          if \<not> distinct checked \<or> sort checked \<noteq> checked
          then Inl (ValueError ''post-task collection must be sorted and unique'') else Inr checked))"

definition revision_pattern :: "string \<Rightarrow> bool" where
  "revision_pattern s \<longleftrightarrow> 40 \<le> length s \<and> length s \<le> 64 \<and> list_all hex_char s"

definition submission_error :: "post_task_submission \<Rightarrow> exn option" where
  "submission_error s = first_error
     [error_of (post_identity (ps_repository_id s)), field_error (task_id_pattern (ps_task_id s)),
      error_of (post_identity (ps_actor s)), field_error (sha256_pattern (ps_request_digest s)),
      field_error (0 \<le> ps_graph_version s), field_error (revision_pattern (ps_base_revision s)),
      field_error (revision_pattern (ps_final_revision s)),
      field_error (ps_changed_paths s \<noteq> []), error_of (canonical_tuple True (ps_changed_paths s)),
      field_error (ps_requirement_ids s \<noteq> []), error_of (canonical_tuple False (ps_requirement_ids s)),
      field_error (ps_code_refs s \<noteq> []), error_of (canonical_tuple False (ps_code_refs s)),
      error_of (canonical_tuple False (ps_test_refs s)),
      field_error (ps_git_evidence_refs s \<noteq> []), error_of (canonical_tuple False (ps_git_evidence_refs s)),
      error_of (canonical_tuple False (ps_test_evidence_refs s)),
      when_error (ps_base_revision s = ps_final_revision s) ''post-task revisions must describe a change'']"

definition validate_submission :: "post_task_submission \<Rightarrow> post_task_submission res" where
  "validate_submission s = (case submission_error s of Some e \<Rightarrow> Inl e | None \<Rightarrow> Inr s)"

section \<open>Results\<close>

record post_task_result =
  rs_status :: PostTaskStatus
  rs_reason :: PostTaskReason
  rs_task_id :: string
  rs_graph_version :: int
  rs_claim :: "implementation_claim option"
  rs_changeset_id :: "string option"

definition result_error :: "post_task_result \<Rightarrow> exn option" where
  "result_error r = first_error
     [field_error (task_id_pattern (rs_task_id r)), field_error (0 \<le> rs_graph_version r),
      (case rs_claim r of None \<Rightarrow> None | Some c \<Rightarrow> error_of (require_baseline_evidence c)),
      (case rs_changeset_id r of None \<Rightarrow> None | Some i \<Rightarrow> error_of (post_identity i)),
      (if rs_status r = Recorded
       then when_error (rs_reason r \<noteq> Done \<or> rs_claim r = None) ''invalid recorded post-task result''
       else when_error (rs_claim r \<noteq> None \<or> rs_changeset_id r \<noteq> None \<or> rs_reason r = Done)
         ''invalid rejected post-task result'')]"

definition validate_result :: "post_task_result \<Rightarrow> post_task_result res" where
  "validate_result r = (case result_error r of Some e \<Rightarrow> Inl e | None \<Rightarrow> Inr r)"

definition failure_result :: "post_task_submission \<Rightarrow> PostTaskStatus \<times> PostTaskReason \<Rightarrow> post_task_result" where
  "failure_result s f =
     \<lparr>rs_status = fst f, rs_reason = snd f, rs_task_id = ps_task_id s, rs_graph_version = ps_graph_version s,
      rs_claim = None, rs_changeset_id = None\<rparr>"

text \<open>A stage raises an exception, fails with a status and a reason, or passes on a value.\<close>

type_synonym 'a checked = "((PostTaskStatus \<times> PostTaskReason) + 'a) res"

abbreviation failed :: "PostTaskStatus \<Rightarrow> PostTaskReason \<Rightarrow> 'a checked" where
  "failed status reason \<equiv> Inr (Inl (status, reason))"

abbreviation passed :: "'a \<Rightarrow> 'a checked" where
  "passed x \<equiv> Inr (Inr x)"

definition checked_bind :: "'a checked \<Rightarrow> ('a \<Rightarrow> 'b checked) \<Rightarrow> 'b checked" where
  "checked_bind x f = (case x of Inl e \<Rightarrow> Inl e | Inr (Inl failure) \<Rightarrow> Inr (Inl failure) | Inr (Inr y) \<Rightarrow> f y)"

section \<open>Evidence\<close>

definition current :: "evidence_record \<Rightarrow> evidence_ingestion list \<Rightarrow> bool" where
  "current r ings \<longleftrightarrow>
     (case filter (\<lambda>i. er_id (ing_evidence i) = er_id r) ings of
        [a] \<Rightarrow>
          \<not> list_ex (\<lambda>i. ing_connector_id i = ing_connector_id a \<and>
            er_connector_type (ing_evidence i) = er_connector_type r \<and>
            er_external_object_id (ing_evidence i) = er_external_object_id r \<and> ing_sequence a < ing_sequence i) ings
      | _ \<Rightarrow> False)"

definition text_of_json :: "json \<Rightarrow> string option" where
  "text_of_json v = (case v of JStr s \<Rightarrow> Some s | _ \<Rightarrow> None)"

text \<open>A payload's tuple of texts, checked; the wrong type is refused by the check of its items.\<close>

definition payload_tuple :: "bool \<Rightarrow> evidence_record \<Rightarrow> string \<Rightarrow> string list option" where
  "payload_tuple paths r key =
     (case map_of (er_payload r) key of
        Some (JArr vs) \<Rightarrow>
          (case those (map text_of_json vs) of
             None \<Rightarrow> None
           | Some ss \<Rightarrow> (case canonical_tuple paths ss of Inl _ \<Rightarrow> None | Inr xs \<Rightarrow> Some xs))
      | _ \<Rightarrow> None)"

definition payload_text :: "evidence_record \<Rightarrow> string \<Rightarrow> string option" where
  "payload_text r key = (case map_of (er_payload r) key of Some (JStr s) \<Rightarrow> Some s | _ \<Rightarrow> None)"

definition git_record_ok ::
  "post_task_submission \<Rightarrow> string list \<Rightarrow> evidence_ingestion list \<Rightarrow> evidence_record \<Rightarrow> bool" where
  "git_record_ok s ps ings r \<longleftrightarrow>
     er_connector_type r = ''git'' \<and> (\<exists>author \<in> set ps. er_author r = Some author) \<and>
     er_external_object_id r = ''commit:'' @ ps_final_revision s \<and> er_external_version r = ps_final_revision s \<and>
     er_source_locator r = ''git:commit:'' @ ps_final_revision s \<and> payload_text r ''sha'' = Some (ps_final_revision s) \<and>
     payload_text r ''author'' = er_author r \<and> payload_text r ''repository_id'' = Some (ps_repository_id s) \<and>
     (case map_of (er_payload r) ''parents'' of Some (JArr vs) \<Rightarrow> JStr (ps_base_revision s) \<in> set vs | _ \<Rightarrow> False) \<and>
     (case payload_text r ''subject'' of None \<Rightarrow> False | Some subject \<Rightarrow> strip subject \<noteq> []) \<and>
     er_observed_at r \<le> ps_completed_at s \<and> current r ings \<and> payload_tuple True r ''changed_paths'' \<noteq> None"

definition test_record_ok :: "post_task_submission \<Rightarrow> evidence_ingestion list \<Rightarrow> evidence_record \<Rightarrow> bool" where
  "test_record_ok s ings r \<longleftrightarrow>
     er_connector_type r = ''test_result'' \<and> er_external_object_id r = ''test-run:'' @ ps_final_revision s \<and>
     er_source_locator r = ''test:run:'' @ ps_final_revision s \<and>
     payload_text r ''commit_sha'' = Some (ps_final_revision s) \<and> payload_text r ''outcome'' = Some ''passed'' \<and>
     er_observed_at r \<le> ps_completed_at s \<and> current r ings \<and> payload_tuple False r ''test_refs'' \<noteq> None"

text \<open>\<open>tuple(by_id[reference] for reference in references)\<close>, \<open>None\<close> for a \<open>KeyError\<close>.\<close>

definition resolve_refs :: "'a dict \<Rightarrow> string list \<Rightarrow> 'a list option" where
  "resolve_refs by_id refs = those (map (map_of by_id) refs)"

definition evidence_index :: "evidence_state \<Rightarrow> evidence_record dict" where
  "evidence_index es = dict_of er_id (dict_values (st_records es))"

definition covered :: "bool \<Rightarrow> string \<Rightarrow> evidence_record list \<Rightarrow> string list" where
  "covered paths key rs = concat (map (\<lambda>r. case payload_tuple paths r key of None \<Rightarrow> [] | Some xs \<Rightarrow> xs) rs)"

definition subjects :: "evidence_record list \<Rightarrow> string list" where
  "subjects rs = remdups (map (\<lambda>r. case payload_text r ''subject'' of None \<Rightarrow> [] | Some x \<Rightarrow> strip x) rs)"

definition git_evidence ::
  "post_task_submission \<Rightarrow> string list \<Rightarrow> evidence_state \<Rightarrow> evidence_record list checked" where
  "git_evidence s ps es =
     (case resolve_refs (evidence_index es) (ps_git_evidence_refs s) of
        None \<Rightarrow> failed Rejected Evidence_Rejected
      | Some rs \<Rightarrow>
          if \<not> refs_allowed (ps_git_evidence_refs s) rs (Many ps) \<or> \<not> list_all (git_record_ok s ps (st_ingestions es)) rs \<or>
             set (covered True ''changed_paths'' rs) \<noteq> set (ps_changed_paths s) \<or> length (subjects rs) \<noteq> 1
          then failed Rejected Evidence_Rejected else passed rs)"

definition test_evidence ::
  "post_task_submission \<Rightarrow> string list \<Rightarrow> evidence_state \<Rightarrow> evidence_record list checked" where
  "test_evidence s ps es =
     (if ps_test_refs s = [] \<or> ps_test_evidence_refs s = [] then failed Review_Required Needs_Review
      else
        (case resolve_refs (evidence_index es) (ps_test_evidence_refs s) of
           None \<Rightarrow> failed Rejected Evidence_Rejected
         | Some rs \<Rightarrow>
             if \<not> refs_allowed (ps_test_evidence_refs s) rs (Many ps) \<or>
                \<not> list_all (test_record_ok s (st_ingestions es)) rs \<or>
                set (covered False ''test_refs'' rs) \<noteq> set (ps_test_refs s)
             then failed Rejected Evidence_Rejected else passed rs))"

section \<open>Referenced nodes\<close>

definition has_builtin_type :: "NodeType list \<Rightarrow> node \<Rightarrow> bool" where
  "has_builtin_type types n \<longleftrightarrow> (case nd_type n of Builtin t \<Rightarrow> t \<in> set types | Extension _ \<Rightarrow> False)"

definition code_types :: "NodeType list" where
  "code_types = [MODULE, FILE, SYMBOL, ENDPOINT, SCHEMA, BUILD_ARTIFACT, DEPLOYMENT]"

definition requirement_ok :: "string list \<Rightarrow> evidence_state \<Rightarrow> node \<Rightarrow> bool" where
  "requirement_ok ps es n \<longleftrightarrow>
     (case resolve_refs (evidence_index es) (nd_evidence_refs n) of
        None \<Rightarrow> False
      | Some rs \<Rightarrow>
          nd_evidence_refs n \<noteq> [] \<and> refs_allowed (nd_evidence_refs n) rs (Many ps) \<and>
          list_all (\<lambda>r. current r (st_ingestions es)) rs)"

definition referenced_nodes ::
  "post_task_submission \<Rightarrow> string list \<Rightarrow> evidence_state \<Rightarrow> graph \<Rightarrow> (node list \<times> node list \<times> node list) checked" where
  "referenced_nodes s ps es g =
     (let nodes = dict_of nd_id (g_nodes g) in
      case (resolve_refs nodes (ps_requirement_ids s), resolve_refs nodes (ps_code_refs s), resolve_refs nodes (ps_test_refs s)) of
        (Some requirements, Some code, Some tests) \<Rightarrow>
          if \<not> list_all (\<lambda>n. has_builtin_type [REQUIREMENT] n \<and> nd_status n = ''active'') requirements \<or>
             \<not> list_all (has_builtin_type code_types) code \<or> \<not> list_all (has_builtin_type [TEST]) tests \<or>
             set (map nd_label (code @ tests)) \<noteq> set (ps_changed_paths s) \<or>
             \<not> list_all (requirement_ok ps es) requirements
          then failed Rejected Reference_Rejected else passed (requirements, code, tests)
      | _ \<Rightarrow> failed Rejected Reference_Rejected)"

section \<open>The claim and the ChangeSet\<close>

definition nul_text :: "string list \<Rightarrow> string" where
  "nul_text = join [CHR 0x00]"

definition cited_evidence :: "post_task_submission \<Rightarrow> string list" where
  "cited_evidence s = sort (sort (ps_git_evidence_refs s) @ sort (ps_test_evidence_refs s))"

definition verified_at :: "evidence_record list \<Rightarrow> datetime" where
  "verified_at rs = Max (set (map er_observed_at rs))"

definition claim_of :: "post_task_submission \<Rightarrow> evidence_record list \<Rightarrow> datetime \<Rightarrow> implementation_claim" where
  "claim_of s git_records at_time =
     \<lparr>ic_id = ''implementation-claim:'' @ sha256_id (nul_text
        (ps_task_id s # ps_final_revision s # ps_requirement_ids s @ ps_code_refs s @ ps_test_refs s @ cited_evidence s)),
      ic_status = IMPLEMENTED_BASELINE, ic_requirement_refs = ps_requirement_ids s,
      ic_current_behavior = hd (subjects git_records), ic_code_evidence = sort (ps_git_evidence_refs s),
      ic_test_evidence = sort (ps_test_evidence_refs s), ic_verified_commit = Some (ps_final_revision s),
      ic_verified_at = Some at_time, ic_test_evidence_required = (ps_test_refs s \<noteq> [])\<rparr>"

definition link_targets :: "node list \<Rightarrow> node list \<Rightarrow> (node \<times> RelationType) list" where
  "link_targets code tests = map (\<lambda>n. (n, IMPLEMENTED_BY)) code @ map (\<lambda>n. (n, VERIFIED_BY)) tests"

definition existing_links :: "graph \<Rightarrow> (string \<times> RelationType \<times> string) list" where
  "existing_links g =
     map (\<lambda>e. (ed_from_id e, ed_relation e, ed_to_id e)) (filter (\<lambda>e. ed_status e = ''active'') (g_edges g))"

definition link_edge :: "string list \<Rightarrow> string \<Rightarrow> datetime \<Rightarrow> node \<Rightarrow> node \<times> RelationType \<Rightarrow> edge" where
  "link_edge refs author at_time requirement = (\<lambda>(target, relation).
     \<lparr>ed_id = ''edge:post-task:'' @ sha256_id (nul_text
        (nd_id requirement # relation_value relation # nd_id target # refs)),
      ed_from_id = nd_id requirement, ed_relation = relation, ed_to_id = nd_id target, ed_status = ''active'',
      ed_created_by = author, ed_created_at = at_time, ed_last_modified_by = author, ed_last_modified_at = at_time,
      ed_external = False\<rparr>)"

definition new_links ::
  "graph \<Rightarrow> string list \<Rightarrow> string \<Rightarrow> datetime \<Rightarrow> node list \<Rightarrow> (node \<times> RelationType) list \<Rightarrow> edge list" where
  "new_links g refs author at_time requirements targets =
     concat (map (\<lambda>r. map (link_edge refs author at_time r)
       (filter (\<lambda>(t, relation). (nd_id r, relation, nd_id t) \<notin> set (existing_links g)) targets)) requirements)"

fun status_changes :: "string list \<Rightarrow> node list \<Rightarrow> implementation_status_change list checked" where
  "status_changes refs [] = passed []"
| "status_changes refs (n # ns) =
     (let prior = (case nd_implementation_status n of None \<Rightarrow> UNKNOWN | Some status \<Rightarrow> status) in
      if prior = IMPLEMENTED_BASELINE
      then (if \<not> set refs \<subseteq> set (nd_evidence_refs n) then failed Review_Required Needs_Review else status_changes refs ns)
      else
        checked_bind (status_changes refs ns) (\<lambda>changes. passed
          (\<lparr>sc_claim_id = nd_id n, sc_prior = prior, sc_new = IMPLEMENTED_BASELINE, sc_evidence_refs = refs\<rparr> # changes)))"

definition link_changeset ::
  "post_task_submission \<Rightarrow> graph \<Rightarrow> datetime \<Rightarrow> edge list \<Rightarrow> implementation_status_change list \<Rightarrow> changeset" where
  "link_changeset s g at_time edges changes =
     (let es = sort_key ed_id edges; cs = sort_key sc_claim_id changes in
      \<lparr>cs_id = ''changeset:post-task:'' @ sha256_id (nul_text
         (int_str (g_version g) # ps_task_id s # ps_final_revision s # map ed_id es @ map sc_claim_id cs @ cited_evidence s)),
       cs_actor = ps_actor s, cs_timestamp = at_time, cs_baseline_graph_version = g_version g,
       cs_evidence_refs = cited_evidence s, cs_nodes_added = [], cs_nodes_updated = [], cs_nodes_superseded = [],
       cs_edges_added = es, cs_edges_updated = [], cs_edges_superseded = [], cs_confidence_changes = [],
       cs_implementation_status_changes = cs, cs_reconciliation_cases_created = [],
       cs_reconciliation_cases_resolved = [], cs_validation_status = ''validated''\<rparr>)"

text \<open>What the checks of one evaluation establish, before anything is written.\<close>

record assessment =
  as_claim :: implementation_claim
  as_edges :: "edge list"
  as_changes :: "implementation_status_change list"
  as_verified_at :: datetime

section \<open>The service\<close>

text \<open>\<open>pt_resolver\<close> is the authority resolver, from the actor and the snapshot to the repository and the principals.\<close>

record post_task_env =
  pt_codecs :: exec_codecs
  pt_evidence :: evidence_codec
  pt_transactions :: coordinator
  pt_transaction_id :: string
  pt_resolver :: "string \<Rightarrow> string option dict \<Rightarrow> (string \<times> string list) res"

definition authority_files :: "string list" where
  "authority_files = [''binding'', ''config'', ''policy'', ''repository'']"

definition new_post_task :: "string list \<Rightarrow> post_task_env \<Rightarrow> post_task_env res" where
  "new_post_task files env =
     (if set files \<noteq> set authority_files then Inl (ValueError ''post-task authority files are incomplete'')
      else if \<not> {''graph'', ''evidence''} \<subseteq> set (co_targets (pt_transactions env))
      then Inl (ValueError ''post-task transaction targets do not match'')
      else Inr env)"

definition graph_codecs :: "post_task_env \<Rightarrow> codecs" where
  "graph_codecs env = codecs.truncate (pt_codecs env)"

text \<open>\<open>snapshot(authority_files)\<close>: every target and every authority file.\<close>

definition post_snapshot :: "post_task_env \<Rightarrow> disk \<Rightarrow> (string option dict \<times> disk) res" where
  "post_snapshot env d =
     (let co = pt_transactions env in
      res_bind (check_extras (co_targets co) authority_files []) (\<lambda>_.
      res_bind (recover (co_targets co) (co_legacy_sets co) d) (\<lambda>(_, d).
      Inr (take_snapshot (co_targets co @ authority_files) (dk_files d), d))))"

definition captured :: "string option dict \<Rightarrow> string \<Rightarrow> string option" where
  "captured snap name = (case map_of snap name of None \<Rightarrow> None | Some content \<Rightarrow> content)"

definition authorised_principals ::
  "post_task_env \<Rightarrow> post_task_submission \<Rightarrow> authorization_verification \<Rightarrow> graph \<Rightarrow> string option dict \<Rightarrow> string list checked" where
  "authorised_principals env s v g snap =
     (if g_version g \<noteq> ps_graph_version s \<or> \<not> av_authorized v \<or>
         \<not> set (ps_requirement_ids s) \<subseteq> set (av_relevant_node_ids v)
      then failed Rejected Authorization_Rejected
      else
        res_bind (pt_resolver env (ps_actor s) snap) (\<lambda>(repository_id, ps).
          if repository_id \<noteq> ps_repository_id s \<or> ps = [] \<or> ps_actor s \<notin> set ps \<or> [] \<in> set ps
          then failed Rejected Authorization_Rejected else passed ps))"

definition assess ::
  "post_task_env \<Rightarrow> post_task_submission \<Rightarrow> authorization_verification \<Rightarrow> graph \<Rightarrow> string \<Rightarrow> string option dict \<Rightarrow>
     assessment checked" where
  "assess env s v g evidence_content snap =
     checked_bind (authorised_principals env s v g snap) (\<lambda>ps.
     res_bind (parse_evidence_lines (pt_evidence env) (Some evidence_content)) (\<lambda>es.
     if st_legacy_ids es \<noteq> [] then failed Rejected Evidence_Rejected
     else
       checked_bind (git_evidence s ps es) (\<lambda>git_records.
       checked_bind (referenced_nodes s ps es g) (\<lambda>(requirements, code, tests).
       checked_bind (test_evidence s ps es) (\<lambda>test_records.
       let at_time = verified_at (git_records @ test_records);
           author = (case er_author (hd git_records) of None \<Rightarrow> [] | Some a \<Rightarrow> a) in
       res_bind (require_baseline_evidence (claim_of s git_records at_time)) (\<lambda>claim.
       checked_bind (status_changes (cited_evidence s) code) (\<lambda>changes. passed
         \<lparr>as_claim = claim,
          as_edges = new_links g (cited_evidence s) author at_time requirements (link_targets code tests),
          as_changes = changes, as_verified_at = at_time\<rparr>)))))))"

definition commit_request :: "string \<Rightarrow> string \<Rightarrow> string option dict \<Rightarrow> apply_request" where
  "commit_request graph_content evidence_content snap =
     \<lparr>ar_created_cases = [], ar_resolved_cases = [], ar_intent_proposal_preimage = None, ar_intent_proposal_append = None,
      ar_graph_preimage = Some graph_content, ar_evidence_preimage = Some evidence_content, ar_case_preimage = None,
      ar_bind_case_preimage = False, ar_read_only_extras = Some authority_files,
      ar_extra_preimages = Some (map (\<lambda>name. (name, captured snap name)) authority_files),
      ar_extra_read_policies = None\<rparr>"

definition recorded_result :: "post_task_submission \<Rightarrow> assessment \<Rightarrow> int \<Rightarrow> string option \<Rightarrow> post_task_result" where
  "recorded_result s a version changeset_id =
     \<lparr>rs_status = Recorded, rs_reason = Done, rs_task_id = ps_task_id s, rs_graph_version = version,
      rs_claim = Some (as_claim a), rs_changeset_id = changeset_id\<rparr>"

definition commit_links ::
  "post_task_env \<Rightarrow> post_task_submission \<Rightarrow> graph \<Rightarrow> string \<Rightarrow> string \<Rightarrow> string option dict \<Rightarrow> authorization_verification \<Rightarrow>
     issuer \<times> disk \<Rightarrow> (issuer \<times> disk) \<times> post_task_result checked" where
  "commit_links env s g graph_content evidence_content snap v = (\<lambda>(i, d).
     (case assess env s v g evidence_content snap of
        Inl e \<Rightarrow> ((i, d), Inl e)
      | Inr (Inl failure) \<Rightarrow> ((i, d), Inr (Inl failure))
      | Inr (Inr a) \<Rightarrow>
          if as_edges a = [] \<and> as_changes a = []
          then ((i, d), map_sum id Inr (validate_result (recorded_result s a (g_version g) None)))
          else
            let cs = link_changeset s g (as_verified_at a) (as_edges a) (as_changes a) in
            (case execute (pt_codecs env) (pt_transactions env) (pt_transaction_id env) cs
                (commit_request graph_content evidence_content snap) d of
               (d', Inl e) \<Rightarrow> ((i, d'), Inl e)
             | (d', Inr g') \<Rightarrow>
                 ((i, d'), map_sum id Inr (validate_result (recorded_result s a (g_version g') (Some (cs_id cs))))))))"

definition use_of :: "post_task_submission \<Rightarrow> string \<Rightarrow> datetime \<Rightarrow> capability_use" where
  "use_of s graph_content now =
     \<lparr>cu_actor = ps_actor s, cu_repository_id = ps_repository_id s, cu_task_id = ps_task_id s,
      cu_graph_version = ps_graph_version s, cu_graph_content = graph_content, cu_requested_paths = ps_changed_paths s,
      cu_now = now, cu_request_digest = Some (ps_request_digest s)\<rparr>"

text \<open>\<open>clock\<close> tells the time of the first check, and of the consumption.\<close>

definition attempt ::
  "post_task_env \<Rightarrow> datetime \<times> datetime \<Rightarrow> (issuer \<times> disk \<Rightarrow> issuer \<times> disk) \<Rightarrow> post_task_submission \<Rightarrow> string \<Rightarrow>
     issuer \<times> disk \<Rightarrow> (issuer \<times> disk) \<times> post_task_result checked" where
  "attempt env clock others s token = (\<lambda>(i, d).
     if fst clock < ps_completed_at s then ((i, d), failed Rejected Evidence_Rejected)
     else
       (case post_snapshot env d of
          Inl e \<Rightarrow> ((i, d), Inl e)
        | Inr (snap, d) \<Rightarrow>
            (case (captured snap ''graph'', captured snap ''evidence'') of
               (Some graph_content, Some evidence_content) \<Rightarrow>
                 (case parse_graph (graph_codecs env) graph_content of
                    Inl e \<Rightarrow> ((i, d), Inl e)
                  | Inr g \<Rightarrow>
                      (case verify (graph_codecs env) token (use_of s graph_content (fst clock)) i of
                         (i, v) \<Rightarrow>
                           if \<not> av_authorized v
                           then ((i, d), if av_reason v = Scope_Mismatch then failed Preflight_Required Scope_Changed
                                   else failed Rejected Authorization_Rejected)
                           else
                             (case consume (graph_codecs env) token (use_of s graph_content (snd clock))
                                 (commit_links env s g graph_content evidence_content snap) (others (i, d)) of
                                (w, Inl e) \<Rightarrow> (w, Inl e)
                              | (w, Inr None) \<Rightarrow> (w, failed Rejected Authorization_Rejected)
                              | (w, Inr (Some r)) \<Rightarrow> (w, Inr r))))
             | _ \<Rightarrow> ((i, d), failed Rejected Evidence_Rejected))))"

text \<open>Every exception is the fixed rejection; the token is revoked whatever happened.\<close>

definition evaluate ::
  "post_task_env \<Rightarrow> datetime \<times> datetime \<Rightarrow> (issuer \<times> disk \<Rightarrow> issuer \<times> disk) \<Rightarrow> post_task_submission \<Rightarrow> string \<Rightarrow>
     issuer \<times> disk \<Rightarrow> (issuer \<times> disk) \<times> post_task_result res" where
  "evaluate env clock others s token = (\<lambda>(i, d).
     (case validate_submission s of
        Inl _ \<Rightarrow> ((revoke token i, d), Inl (ValueError ''invalid post-task submission''))
      | Inr s \<Rightarrow>
          (case attempt env clock others s token (i, d) of
             ((i, d), out) \<Rightarrow>
               ((revoke token i, d),
                Inr (case out of
                       Inl _ \<Rightarrow> failure_result s (Rejected, Evidence_Rejected)
                     | Inr (Inl failure) \<Rightarrow> failure_result s failure
                     | Inr (Inr r) \<Rightarrow> r)))))"


section \<open>What an evaluation can do\<close>

lemma checked_bind_Inr:
  "checked_bind x f = Inr (Inr z) \<longleftrightarrow> (\<exists>y. x = Inr (Inr y) \<and> f y = Inr (Inr z))"
  by (auto simp: checked_bind_def split: sum.splits)

lemma checked_bind_Inr_pair:
  "checked_bind x (\<lambda>(a, b, c). f a b c) = Inr (Inr z) \<longleftrightarrow> (\<exists>a b c. x = Inr (Inr (a, b, c)) \<and> f a b c = Inr (Inr z))"
  by (auto simp: checked_bind_def split: sum.splits)

lemma validate_submission_Inr:
  assumes "validate_submission s = Inr s'"
  shows "s' = s" "task_id_pattern (ps_task_id s)" "ps_changed_paths s \<noteq> []" "ps_requirement_ids s \<noteq> []" "ps_code_refs s \<noteq> []"
    "ps_git_evidence_refs s \<noteq> []"
    "\<And>xs. xs \<in> {ps_requirement_ids s, ps_code_refs s, ps_test_refs s} \<Longrightarrow> \<exists>ys. canonical_tuple False xs = Inr ys"
  using assms
  by (auto simp: validate_submission_def submission_error_def error_of_def split: option.splits sum.splits if_splits)

lemma map_res_post: "map_res (if paths then post_path else post_identity) xs = Inr ys \<Longrightarrow> ys = xs"
  by (induction xs arbitrary: ys) (auto simp: res_bind_Inr_iff post_path_def post_identity_def split: if_splits)

lemma canonical_tuple_Inr: "canonical_tuple paths xs = Inr ys \<Longrightarrow> ys = xs \<and> distinct xs \<and> sort xs = xs"
  using map_res_post [of True xs ys] map_res_post [of False xs ys]
  by (auto simp: canonical_tuple_def res_bind_Inr_iff split: if_splits)

lemma post_identity_sha256:
  assumes "\<not> list_ex control_char tag" "length tag \<le> 64"
  shows "post_identity (tag @ sha256_id x) = Inr (tag @ sha256_id x)"
proof -
  have "checked_identity False (tag @ sha256_id x) = Inr (tag @ sha256_id x)"
  proof (rule tagged_identity [where tag = "tag @ ''sha256:''"])
    show "tagged_hash (tag @ ''sha256:'') (tag @ sha256_id x)"
      by (simp add: tagged_hash_def sha256_id_def starts_with_def hex64_hexdigest)
    have "\<not> list_ex control_char ''sha256:''" by code_simp
    with assms(1) show "\<not> list_ex control_char (tag @ ''sha256:'')" by simp
  qed (use assms(2) in simp_all)
  then show ?thesis by (simp add: checked_identity_def post_identity_def split: if_splits)
qed

lemma parse_graph_ok:
  assumes "parse_graph c content = Inr g"
  shows "graph_ok g"
proof -
  obtain loaded where "(case loaded of JObj kvs \<Rightarrow> res_bind (graph_fields c (canonical_graph_payload c kvs)) validate_graph
      | _ \<Rightarrow> Inl (TypeError ''graph YAML must contain a mapping'')) = Inr g"
    using assms by (auto simp only: parse_graph_def res_bind_Inr_iff)
  then show ?thesis by (cases loaded) (auto simp: res_bind_Inr_iff validate_graph_Inr_iff)
qed

lemma post_snapshot_Inr:
  assumes "post_snapshot env d = Inr (snap, d')"
  shows "\<exists>r. recover (co_targets (pt_transactions env)) (co_legacy_sets (pt_transactions env)) d = Inr (r, d')"
    and "snap = take_snapshot (co_targets (pt_transactions env) @ authority_files) (dk_files d')"
  using assms by (auto simp: post_snapshot_def Let_def res_bind_Inr_iff)

text \<open>A disk that was recovered, or not even that.\<close>

definition untouched :: "post_task_env \<Rightarrow> disk \<Rightarrow> disk \<Rightarrow> bool" where
  "untouched env d d' \<longleftrightarrow>
     d' = d \<or> (\<exists>r. recover (co_targets (pt_transactions env)) (co_legacy_sets (pt_transactions env)) d = Inr (r, d'))"

lemma attempt_cases:
  assumes "attempt env clock others s token (i, d) = ((i', d'), out)"
  obtains (refused) "\<nexists>r. out = Inr (Inr r)" "untouched env d d'"
  | (unverified) snap d1 where "\<nexists>r. out = Inr (Inr r)" "post_snapshot env d = Inr (snap, d1)" "d' = snd (others (i, d1))"
  | (taken) snap d1 gc ec g i2 d2 grant digest paths where "ps_completed_at s \<le> fst clock" "post_snapshot env d = Inr (snap, d1)"
      "captured snap ''graph'' = Some gc" "captured snap ''evidence'' = Some ec" "parse_graph (graph_codecs env) gc = Inr g"
      "others (i, d1) = (i2, d2)" "map_of (is_grants i2) (token_digest token) = Some grant"
      "checked_use (graph_codecs env) (use_of s gc (snd clock)) = Inr (digest, paths)" "snd clock < ag_expires_at grant"
      "refusal grant (use_of s gc (snd clock)) digest paths = None"
      "commit_links env s g gc ec snap (granted grant)
         (i2\<lparr>is_grants := AList.delete (token_digest token) (is_grants i2)\<rparr>, d2) = ((i', d'), out)"
proof (cases "fst clock < ps_completed_at s")
  case True
  then show thesis using assms refused by (auto simp: attempt_def untouched_def)
next
  case in_time: False
  show thesis
  proof (cases "post_snapshot env d")
    case (Inl e)
    then show thesis using assms in_time refused by (auto simp: attempt_def untouched_def)
  next
    case (Inr p)
    obtain snap d1 where "p = (snap, d1)" by (cases p)
    note snap = Inr [unfolded this]
    have untouched: "untouched env d d1" using post_snapshot_Inr(1) [OF snap] by (simp add: untouched_def)
    show thesis
    proof (cases "\<exists>gc ec g. captured snap ''graph'' = Some gc \<and> captured snap ''evidence'' = Some ec \<and>
        parse_graph (graph_codecs env) gc = Inr g")
      case False
      then have "d' = d1 \<and> (\<nexists>r. out = Inr (Inr r))"
        using assms in_time snap by (auto simp: attempt_def split: option.splits sum.splits)
      then show thesis using refused untouched by blast
    next
      case True
      then obtain gc ec g where g: "captured snap ''graph'' = Some gc" "captured snap ''evidence'' = Some ec"
        "parse_graph (graph_codecs env) gc = Inr g" by blast
      obtain i1 v where v: "verify (graph_codecs env) token (use_of s gc (fst clock)) i = (i1, v)" by (metis surj_pair)
      show thesis
      proof (cases "av_authorized v")
        case False
        then have "d' = d1 \<and> (\<nexists>r. out = Inr (Inr r))" using assms in_time snap g v by (auto simp: attempt_def split: if_splits)
        then show thesis using refused untouched by blast
      next
        case True
        with v have i1: "i1 = i" by (cases rule: verify_cases) (auto simp: denied_def)
        obtain i2 d2 where o: "others (i, d1) = (i2, d2)" by (metis surj_pair)
        obtain i3 t where t: "take_capability (graph_codecs env) token (use_of s gc (snd clock)) i2 = (i3, t)" by (metis surj_pair)
        note found = taken and run = assms [unfolded attempt_def] and known = in_time snap g v i1 o t True
        from t show thesis
        proof (cases rule: take_capability_cases)
          case (refused v')
          then have "d' = d2 \<and> (\<nexists>r. out = Inr (Inr r))" using run known by (auto simp: consume_def)
          then show thesis using unverified snap o by simp
        next
          case (taken grant digest paths)
          obtain w c where c: "commit_links env s g gc ec snap (granted grant) (i3, d2) = (w, c)" by (metis surj_pair)
          then have "w = (i', d')" "c = out"
            using run known taken(2) by (cases c; auto simp: consume_def)+
          then show thesis
            using found [of snap d1 gc ec g i2 d2 grant digest paths] in_time snap g o taken c by (simp add: use_of_def)
        qed
      qed
    qed
  qed
qed


text \<open>The result of a committed or an empty ChangeSet is always valid, so nothing is raised after the commit.\<close>

lemma recorded_result_valid:
  assumes "validate_submission s = Inr s" "0 \<le> version" "require_baseline_evidence (as_claim a) = Inr (as_claim a)"
    and "\<And>x. changeset_id = Some x \<Longrightarrow> post_identity x = Inr x"
  shows "validate_result (recorded_result s a version changeset_id) = Inr (recorded_result s a version changeset_id)"
proof -
  have "result_error (recorded_result s a version changeset_id) = None"
    using assms validate_submission_Inr(2) [OF assms(1)]
    by (cases changeset_id) (simp_all add: result_error_def recorded_result_def error_of_def)
  then show ?thesis by (simp add: validate_result_def)
qed

lemma failure_result_valid:
  assumes "validate_submission s = Inr s" "fst f \<noteq> Recorded" "snd f \<noteq> Done"
  shows "validate_result (failure_result s f) = Inr (failure_result s f)"
  using assms validate_submission_Inr(2) [OF assms(1)]
  by (auto simp: validate_result_def result_error_def failure_result_def error_of_def validate_submission_def
      submission_error_def split: option.splits if_splits)

lemma assess_Inr:
  assumes "assess env s v g ec snap = Inr (Inr a)"
  obtains ps es gits requirements code tests trs where
    "authorised_principals env s v g snap = Inr (Inr ps)" "parse_evidence_lines (pt_evidence env) (Some ec) = Inr es"
    "st_legacy_ids es = []" "git_evidence s ps es = Inr (Inr gits)" "referenced_nodes s ps es g = Inr (Inr (requirements, code, tests))"
    "test_evidence s ps es = Inr (Inr trs)"
    "require_baseline_evidence (claim_of s gits (verified_at (gits @ trs))) = Inr (as_claim a)"
    "as_edges a = new_links g (cited_evidence s) (case er_author (hd gits) of None \<Rightarrow> [] | Some x \<Rightarrow> x) (verified_at (gits @ trs))
       requirements (link_targets code tests)"
    "status_changes (cited_evidence s) code = Inr (Inr (as_changes a))" "as_verified_at a = verified_at (gits @ trs)"
  using assms
  by (auto simp: assess_def checked_bind_Inr checked_bind_Inr_pair Let_def res_bind_Inr_iff split: if_splits)

lemma assess_claim: "assess env s v g ec snap = Inr (Inr a) \<Longrightarrow> require_baseline_evidence (as_claim a) = Inr (as_claim a)"
  by (erule assess_Inr) (auto simp: require_baseline_evidence_Inr_iff)

lemma link_changeset_id: "post_identity (cs_id (link_changeset s g at_time es cs)) = Inr (cs_id (link_changeset s g at_time es cs))"
proof -
  have "\<not> list_ex control_char ''changeset:post-task:''" by code_simp
  from post_identity_sha256 [OF this] show ?thesis by (simp add: link_changeset_def Let_def)
qed

lemma execute_untouched:
  assumes "execute (pt_codecs env) (pt_transactions env) t cs rq d = (d', Inl e)"
  shows "untouched env d d'"
proof (cases "request_error (pt_transactions env) rq")
  case None
  show ?thesis
  proof (cases "res_bind (validate_changeset cs) (\<lambda>validated.
      res_bind (ordered_effects validated (ar_created_cases rq) (ar_resolved_cases rq)) (\<lambda>effects. Inr (validated, effects)))")
    case (Inl x)
    then show ?thesis using assms None by (simp add: execute_def untouched_def)
  next
    case (Inr p)
    obtain validated effects where "p = (validated, effects)" by (cases p)
    then show ?thesis
      using assms None Inr run_transaction_error [OF confined_execute]
      by (fastforce simp: execute_def untouched_def)
  qed
qed (use assms in \<open>simp add: execute_def untouched_def\<close>)

lemma commit_cases:
  assumes "commit_links env s g gc ec snap v (i, d) = ((i', d'), out)" "validate_submission s = Inr s" "graph_ok g"
    and "executor_names \<subseteq> set (co_targets (pt_transactions env))"
  obtains (refused) "\<nexists>r. out = Inr (Inr r)" "untouched env d d'" "i' = i"
  | (unchanged) a where "assess env s v g ec snap = Inr (Inr a)" "as_edges a = []" "as_changes a = []" "d' = d" "i' = i"
      "out = Inr (Inr (recorded_result s a (g_version g) None))"
  | (linked) a cs g' where "assess env s v g ec snap = Inr (Inr a)" "\<not> (as_edges a = [] \<and> as_changes a = [])"
      "cs = link_changeset s g (as_verified_at a) (as_edges a) (as_changes a)"
      "execute (pt_codecs env) (pt_transactions env) (pt_transaction_id env) cs (commit_request gc ec snap) d = (d', Inr g')"
      "i' = i" "out = Inr (Inr (recorded_result s a (g_version g') (Some (cs_id cs))))"
proof (cases "\<exists>a. assess env s v g ec snap = Inr (Inr a)")
  case False
  then have "d' = d \<and> i' = i \<and> (\<nexists>r. out = Inr (Inr r))"
    using assms(1) by (auto simp: commit_links_def split: sum.splits)
  then show thesis using refused by (simp add: untouched_def)
next
  case True
  then obtain a where a: "assess env s v g ec snap = Inr (Inr a)" by blast
  note claim = assess_claim [OF a]
  show thesis
  proof (cases "as_edges a = [] \<and> as_changes a = []")
    case True
    have "0 \<le> g_version g" using assms(3) by (simp add: graph_ok_def)
    from recorded_result_valid [OF assms(2) this claim, of None]
    have "i' = i \<and> d' = d \<and> out = Inr (Inr (recorded_result s a (g_version g) None))"
      using assms(1) a True by (auto simp: commit_links_def)
    with unchanged [OF a] True show thesis by blast
  next
    case False
    define cs where "cs = link_changeset s g (as_verified_at a) (as_edges a) (as_changes a)"
    obtain d1 res where run: "execute (pt_codecs env) (pt_transactions env) (pt_transaction_id env) cs (commit_request gc ec snap) d =
        (d1, res)" by (metis surj_pair)
    show thesis
    proof (cases res)
      case (Inl e)
      then have "d' = d1 \<and> i' = i \<and> out = Inl e"
        using assms(1) a False run by (auto simp: commit_links_def Let_def cs_def [symmetric])
      then show thesis using refused execute_untouched [OF run [unfolded Inl]] by simp
    next
      case (Inr g')
      obtain g0 where "apply_changeset_with_case_effects g0 cs = Inr g'"
        by (rule execute_Inr [OF run [unfolded Inr] assms(4)])
      then have "0 \<le> g_version g'" unfolding apply_unfold by (auto simp: graph_ok_def)
      from recorded_result_valid [OF assms(2) this claim, of "Some (cs_id cs)"]
      have "validate_result (recorded_result s a (g_version g') (Some (cs_id cs))) =
          Inr (recorded_result s a (g_version g') (Some (cs_id cs)))"
        by (simp add: cs_def link_changeset_id)
      then have "d' = d1 \<and> i' = i \<and> out = Inr (Inr (recorded_result s a (g_version g') (Some (cs_id cs))))"
        using assms(1) a False run Inr by (auto simp: commit_links_def Let_def cs_def [symmetric])
      then show thesis using linked [OF a False cs_def] run Inr by simp
    qed
  qed
qed

lemma evaluate_cases:
  assumes "evaluate env clock others s token (i, d) = ((i', d'), Inr r)"
  obtains i1 out where "validate_submission s = Inr s" "attempt env clock others s token (i, d) = ((i1, d'), out)"
    "i' = revoke token i1" "r = (case out of Inl _ \<Rightarrow> failure_result s (Rejected, Evidence_Rejected)
       | Inr (Inl f) \<Rightarrow> failure_result s f | Inr (Inr r) \<Rightarrow> r)"
proof -
  obtain s' where s': "validate_submission s = Inr s'" using assms by (cases "validate_submission s") (auto simp: evaluate_def)
  have same: "s' = s" by (rule validate_submission_Inr(1) [OF s'])
  obtain i1 d1 out where run: "attempt env clock others s token (i, d) = ((i1, d1), out)" by (metis surj_pair)
  then show thesis using assms s' same that [of i1 out] by (auto simp: evaluate_def)
qed


text \<open>A failure is never a success in disguise.\<close>

definition refusing :: "PostTaskStatus \<times> PostTaskReason \<Rightarrow> bool" where
  "refusing f \<longleftrightarrow> fst f \<noteq> Recorded \<and> snd f \<noteq> Done"

lemma checked_bind_Inl:
  "checked_bind x f = Inr (Inl p) \<longleftrightarrow> x = Inr (Inl p) \<or> (\<exists>y. x = Inr (Inr y) \<and> f y = Inr (Inl p))"
  by (auto simp: checked_bind_def split: sum.splits)

lemma status_changes_refusing: "status_changes refs ns = Inr (Inl f) \<Longrightarrow> refusing f"
  by (induction refs ns rule: status_changes.induct) (auto simp: checked_bind_Inl Let_def refusing_def split: if_splits)

lemma stages_refusing:
  "authorised_principals env s v g snap = Inr (Inl f) \<Longrightarrow> refusing f"
  "git_evidence s ps es = Inr (Inl f) \<Longrightarrow> refusing f"
  "referenced_nodes s ps es g = Inr (Inl f) \<Longrightarrow> refusing f"
  "test_evidence s ps es = Inr (Inl f) \<Longrightarrow> refusing f"
  by (auto simp: authorised_principals_def git_evidence_def referenced_nodes_def test_evidence_def refusing_def Let_def
      res_bind_Inr_iff split: if_splits option.splits)

lemma assess_refusing: "assess env s v g ec snap = Inr (Inl f) \<Longrightarrow> refusing f"
  by (auto simp: assess_def checked_bind_Inl res_bind_Inr_iff Let_def dest: stages_refusing status_changes_refusing
      split: if_splits) (auto simp: refusing_def)

lemma commit_refusing: "commit_links env s g gc ec snap v w = (w', Inr (Inl f)) \<Longrightarrow> refusing f"
  by (cases w) (auto simp: commit_links_def Let_def map_sum_def split: sum.splits if_splits prod.splits dest: assess_refusing)

lemma attempt_refusing:
  assumes "attempt env clock others s token w = (w', Inr (Inl f))"
  shows "refusing f"
proof (rule ccontr)
  assume "\<not> refusing f"
  moreover obtain i d where w: "w = (i, d)" by (cases w)
  ultimately show False
    using assms
    by (auto simp: attempt_def consume_def refusing_def w split: if_splits sum.splits option.splits prod.splits dest: commit_refusing)
qed


section \<open>The links a ChangeSet leaves\<close>

definition linked :: "graph \<Rightarrow> string \<Rightarrow> RelationType \<Rightarrow> string \<Rightarrow> bool" where
  "linked g source relation target \<longleftrightarrow>
     (\<exists>e \<in> set (g_edges g). ed_status e = ''active'' \<and> ed_from_id e = source \<and> ed_relation e = relation \<and> ed_to_id e = target)"

definition implemented :: "graph \<Rightarrow> string list \<Rightarrow> string \<Rightarrow> bool" where
  "implemented g refs i \<longleftrightarrow>
     (\<exists>n. lookup_node g i = Some n \<and> nd_implementation_status n = Some IMPLEMENTED_BASELINE \<and>
        set refs \<subseteq> set (nd_evidence_refs n))"

lemma those_Some: "those xs = Some ys \<longleftrightarrow> xs = map Some ys"
  by (induction xs arbitrary: ys) (auto split: option.splits)

lemma resolve_refs_Some:
  assumes "resolve_refs d refs = Some xs"
  shows "k \<in> set refs \<Longrightarrow> \<exists>x \<in> set xs. map_of d k = Some x" and "x \<in> set xs \<Longrightarrow> \<exists>k \<in> set refs. map_of d k = Some x"
proof -
  have "map (map_of d) refs = map Some xs" using assms by (simp add: resolve_refs_def those_Some)
  then have "map_of d ` set refs = Some ` set xs" by (metis set_map)
  then show "k \<in> set refs \<Longrightarrow> \<exists>x \<in> set xs. map_of d k = Some x" and "x \<in> set xs \<Longrightarrow> \<exists>k \<in> set refs. map_of d k = Some x"
    by (metis (no_types, lifting) image_iff)+
qed

lemma resolved_nodes:
  assumes "resolve_refs (dict_of nd_id (g_nodes g)) ids = Some ns"
  shows "i \<in> set ids \<Longrightarrow> \<exists>n \<in> set ns. lookup_node g i = Some n \<and> nd_id n = i"
    and "n \<in> set ns \<Longrightarrow> nd_id n \<in> set ids \<and> lookup_node g (nd_id n) = Some n"
  using resolve_refs_Some [OF assms] keyed_lookup(1) [of g] unfolding lookup_node_def keyed_by_def by fastforce+

lemma resolved_ids:
  assumes "resolve_refs (dict_of nd_id (g_nodes g)) ids = Some ns"
  shows "map nd_id ns = ids"
proof -
  have "map (map_of (dict_of nd_id (g_nodes g))) ids = map Some ns" using assms by (simp add: resolve_refs_def those_Some)
  then show ?thesis
  proof (induction ids arbitrary: ns)
    case (Cons i ids)
    then obtain n rest where "ns = n # rest" "map_of (dict_of nd_id (g_nodes g)) i = Some n" by (cases ns) auto
    with Cons dict_of_lookup [of nd_id "g_nodes g" i n] show ?case by simp
  qed simp
qed

lemma existing_linked: "(a, relation, b) \<in> set (existing_links g) \<Longrightarrow> linked g a relation b"
  by (auto simp: existing_links_def linked_def)

lemma new_links_cover:
  assumes "q \<in> set requirements" "(t, relation) \<in> set targets" "(nd_id q, relation, nd_id t) \<notin> set (existing_links g)"
  shows "\<exists>e \<in> set (new_links g refs author at_time requirements targets). ed_status e = ''active'' \<and> ed_from_id e = nd_id q \<and>
    ed_relation e = relation \<and> ed_to_id e = nd_id t"
proof -
  have "link_edge refs author at_time q (t, relation) \<in> set (new_links g refs author at_time requirements targets)"
    using assms by (force simp: new_links_def)
  then show ?thesis by (rule rev_bexI) (simp add: link_edge_def)
qed

lemma status_changes_cover:
  assumes "status_changes refs ns = Inr (Inr changes)"
  shows "c \<in> set changes \<Longrightarrow> sc_new c = IMPLEMENTED_BASELINE \<and> sc_evidence_refs c = refs"
    and "n \<in> set ns \<Longrightarrow> nd_implementation_status n = Some IMPLEMENTED_BASELINE \<and> set refs \<subseteq> set (nd_evidence_refs n) \<or>
      nd_id n \<in> sc_claim_id ` set changes"
proof -
  have "(\<forall>c \<in> set changes. sc_new c = IMPLEMENTED_BASELINE \<and> sc_evidence_refs c = refs) \<and>
      (\<forall>n \<in> set ns. nd_implementation_status n = Some IMPLEMENTED_BASELINE \<and> set refs \<subseteq> set (nd_evidence_refs n) \<or>
        nd_id n \<in> sc_claim_id ` set changes)"
    using assms
    by (induction ns arbitrary: changes) (fastforce simp: checked_bind_Inr Let_def split: if_splits option.splits)+
  then show "c \<in> set changes \<Longrightarrow> sc_new c = IMPLEMENTED_BASELINE \<and> sc_evidence_refs c = refs"
    and "n \<in> set ns \<Longrightarrow> nd_implementation_status n = Some IMPLEMENTED_BASELINE \<and> set refs \<subseteq> set (nd_evidence_refs n) \<or>
      nd_id n \<in> sc_claim_id ` set changes"
    by blast+
qed

lemma linked_after:
  assumes cs: "cs = link_changeset s g at_time es changes" and ok: "changeset_ok cs" and g: "graph_ok g" "graph_nodes_valid g"
    and run: "apply_changeset_with_case_effects g cs = Inr g'"
  shows "linked g a relation b \<Longrightarrow> linked g' a relation b"
    and "e \<in> set es \<Longrightarrow> e \<in> set (g_edges g')"
    and "lookup_node g' i = (case find (\<lambda>c. sc_claim_id c = i) (sort_key sc_claim_id changes) of
      None \<Rightarrow> lookup_node g i | Some c \<Rightarrow> map_option (with_status cs c) (lookup_node g i))"
    and "g_version g' = g_version g + 1"
proof -
  from run have pre: "applicable g cs" and g': "g' = apply_spec g cs" using apply_refines [OF ok g(2)] by blast+
  have fields: "cs_edges_added cs = sort_key ed_id es" "cs_edges_updated cs = []" "cs_edges_superseded cs = []"
    "cs_nodes_added cs = []" "cs_nodes_updated cs = []" "cs_nodes_superseded cs = []" "cs_confidence_changes cs = []"
    "cs_implementation_status_changes cs = sort_key sc_claim_id changes"
    by (simp_all add: cs link_changeset_def Let_def)
  let ?added = "map (\<lambda>x. (ed_id x, x)) (sort_key ed_id es)"
  have edges: "lookup_edge g' = lookup_edge g ++ map_of ?added"
    by (simp add: g' apply_spec_lookup(2) [OF ok] edges_spec_def records_spec_def fields)
  have distinct: "distinct (map fst ?added)" using changeset_okD(4) [OF ok] by (simp add: fields comp_def)
  have apart: "ed_id ` set es \<inter> dom (lookup_edge g) = {}" using pre by (auto simp: applicable_def groups_ok_def fields)
  have member: "e \<in> set (g_edges g')" if "lookup_edge g' k = Some e" for k e
    using that unfolding lookup_edge_def by (rule dict_of_mem [OF map_of_SomeD, THEN conjunct1])
  show "e \<in> set (g_edges g')" if "e \<in> set es" for e
  proof (rule member)
    have "map_of ?added (ed_id e) = Some e" using distinct that by (intro map_of_is_SomeI) auto
    then show "lookup_edge g' (ed_id e) = Some e" by (simp add: edges del: map_of_eq_Some_iff)
  qed
  show "linked g a relation b \<Longrightarrow> linked g' a relation b"
  proof -
    assume "linked g a relation b"
    then obtain e where e: "e \<in> set (g_edges g)" "ed_status e = ''active''" "ed_from_id e = a" "ed_relation e = relation" "ed_to_id e = b"
      by (auto simp: linked_def)
    then have found: "lookup_edge g (ed_id e) = Some e" using lookup_edge_Some [of g "ed_id e" e] g(1) by (simp add: graph_ok_def)
    then have "ed_id e \<notin> dom (map_of ?added)" using apart by (auto simp: dom_map_of_conv_image_fst image_image)
    then have "lookup_edge g' (ed_id e) = Some e" using found by (simp add: edges map_add_dom_app_simps(3))
    from member [OF this] e show ?thesis by (auto simp: linked_def)
  qed
  show "lookup_node g' i = (case find (\<lambda>c. sc_claim_id c = i) (sort_key sc_claim_id changes) of
      None \<Rightarrow> lookup_node g i | Some c \<Rightarrow> map_option (with_status cs c) (lookup_node g i))"
    by (simp add: g' apply_spec_lookup(1) [OF ok] nodes_spec_def records_spec_def fields) (simp add: rewrite_spec_def fields)
  show "g_version g' = g_version g + 1" by (simp add: g' apply_spec_def)
qed

lemma implemented_after:
  assumes "lookup_node g' i = (case find (\<lambda>c. sc_claim_id c = i) (sort_key sc_claim_id changes) of
      None \<Rightarrow> lookup_node g i | Some c \<Rightarrow> map_option (with_status cs c) (lookup_node g i))"
    and "status_changes refs ns = Inr (Inr changes)" "n \<in> set ns" "lookup_node g i = Some n" "nd_id n = i"
  shows "implemented g' refs i"
proof (cases "find (\<lambda>c. sc_claim_id c = i) (sort_key sc_claim_id changes)")
  case None
  then have "nd_id n \<notin> sc_claim_id ` set changes" using assms(5) by (auto simp: find_None_iff)
  then show ?thesis using status_changes_cover(2) [OF assms(2,3)] assms(1,4) None by (simp add: implemented_def)
next
  case (Some c)
  then have "c \<in> set changes" by (metis find_Some_iff nth_mem set_sort)
  from status_changes_cover(1) [OF assms(2) this] show ?thesis
    using assms(1,4) Some by (simp add: implemented_def with_status_def set_fromkeys)
qed


lemma recorded_cases:
  assumes "evaluate env clock others s token (i, d) = ((i', d'), Inr r)" "rs_status r = Recorded"
    and "executor_names \<subseteq> set (co_targets (pt_transactions env))"
  obtains snap d1 gc ec g i2 d2 grant digest paths a where
    "validate_submission s = Inr s" "ps_completed_at s \<le> fst clock" "post_snapshot env d = Inr (snap, d1)"
    "captured snap ''graph'' = Some gc" "captured snap ''evidence'' = Some ec" "parse_graph (graph_codecs env) gc = Inr g"
    "others (i, d1) = (i2, d2)" "map_of (is_grants i2) (token_digest token) = Some grant"
    "checked_use (graph_codecs env) (use_of s gc (snd clock)) = Inr (digest, paths)" "snd clock < ag_expires_at grant"
    "refusal grant (use_of s gc (snd clock)) digest paths = None" "assess env s (granted grant) g ec snap = Inr (Inr a)"
    "rs_claim r = Some (as_claim a)"
    "as_edges a = [] \<and> as_changes a = [] \<and> d' = d2 \<and> rs_changeset_id r = None \<and> rs_graph_version r = g_version g \<or>
     (\<exists>cs g'. cs = link_changeset s g (as_verified_at a) (as_edges a) (as_changes a) \<and>
       execute (pt_codecs env) (pt_transactions env) (pt_transaction_id env) cs (commit_request gc ec snap) d2 = (d', Inr g') \<and>
       rs_changeset_id r = Some (cs_id cs) \<and> rs_graph_version r = g_version g')"
proof -
  obtain i1 out where valid: "validate_submission s = Inr s"
    and run: "attempt env clock others s token (i, d) = ((i1, d'), out)"
    and r: "r = (case out of Inl _ \<Rightarrow> failure_result s (Rejected, Evidence_Rejected)
       | Inr (Inl f) \<Rightarrow> failure_result s f | Inr (Inr r) \<Rightarrow> r)"
    by (rule evaluate_cases [OF assms(1)])
  have final: "\<exists>r'. out = Inr (Inr r')"
  proof (rule ccontr)
    assume "\<nexists>r'. out = Inr (Inr r')"
    then have "rs_status r \<noteq> Recorded"
      using r attempt_refusing [of env clock others s token "(i, d)"] run
      by (auto simp: failure_result_def refusing_def split: sum.splits)
    then show False using assms(2) by simp
  qed
  from run show thesis
  proof (cases rule: attempt_cases)
    case (taken snap d1 gc ec g i2 d2 grant digest paths)
    from taken(11) valid parse_graph_ok [OF taken(5)] assms(3) show thesis
    proof (cases rule: commit_cases)
      case refused
      then show thesis using final by simp
    next
      case (unchanged a)
      show thesis
        by (rule that [OF valid taken(1-10) unchanged(1)]) (use unchanged r in \<open>simp_all add: recorded_result_def\<close>)
    next
      case (linked a cs g')
      show thesis
        by (rule that [OF valid taken(1-10) linked(1)]) (use linked r in \<open>auto simp: recorded_result_def\<close>)
    qed
  qed (use final in simp_all)
qed

lemma revoked: "token_pattern token \<Longrightarrow> map_of (is_grants (revoke token i)) (token_digest token) = None"
  by (auto simp: revoke_def AList.delete_eq map_of_eq_None_iff)

lemma resolved_evidence:
  assumes "resolve_refs (evidence_index es) refs = Some rs" "refs_allowed refs rs a"
  shows "ref \<in> set refs \<Longrightarrow> \<exists>e \<in> set rs. map_of (evidence_index es) ref = Some e \<and> evidence_allowed e a"
    and "e \<in> set rs \<Longrightarrow> er_id e \<in> set refs \<and> map_of (evidence_index es) (er_id e) = Some e \<and> evidence_allowed e a"
proof -
  have named: "er_id e = k" if "map_of (evidence_index es) k = Some e" for k e
    using dict_of_lookup [OF that [unfolded evidence_index_def]] by simp
  have one: "\<exists>e \<in> set rs. map_of (evidence_index es) ref = Some e \<and> evidence_allowed e a" if ref: "ref \<in> set refs" for ref
  proof -
    obtain e where e: "find (\<lambda>x. er_id x = ref) (rev rs) = Some e" "evidence_allowed e a"
      using assms(2) ref by (auto simp: refs_allowed_iff)
    then have mem: "e \<in> set rs" "er_id e = ref" by (auto simp: find_Some_iff) (metis in_set_conv_nth length_rev set_rev)
    obtain k where "map_of (evidence_index es) k = Some e" using resolve_refs_Some(2) [OF assms(1) mem(1)] by blast
    with named mem e(2) show ?thesis by metis
  qed
  then show "ref \<in> set refs \<Longrightarrow> \<exists>e \<in> set rs. map_of (evidence_index es) ref = Some e \<and> evidence_allowed e a" .
  show "er_id e \<in> set refs \<and> map_of (evidence_index es) (er_id e) = Some e \<and> evidence_allowed e a" if mem: "e \<in> set rs"
  proof -
    obtain k where k: "k \<in> set refs" "map_of (evidence_index es) k = Some e" using resolve_refs_Some(2) [OF assms(1) mem] by blast
    with one [OF k(1)] named [OF k(2)] show ?thesis by auto
  qed
qed

lemma covered_member:
  "x \<in> set (covered paths key rs) \<longleftrightarrow> (\<exists>e \<in> set rs. \<exists>xs. payload_tuple paths e key = Some xs \<and> x \<in> set xs)"
  unfolding covered_def set_concat by (auto split: option.splits simp: eq_commute [of "Some _" "payload_tuple _ _ _"])

lemma git_evidence_Inr:
  assumes "git_evidence s ps es = Inr (Inr rs)"
  shows "resolve_refs (evidence_index es) (ps_git_evidence_refs s) = Some rs"
    "refs_allowed (ps_git_evidence_refs s) rs (Many ps)" "\<And>e. e \<in> set rs \<Longrightarrow> git_record_ok s ps (st_ingestions es) e"
    "set (covered True ''changed_paths'' rs) = set (ps_changed_paths s)"
  using assms by (auto simp: git_evidence_def list_all_iff split: option.splits if_splits)

lemma test_evidence_Inr:
  assumes "test_evidence s ps es = Inr (Inr rs)"
  shows "ps_test_refs s \<noteq> []" "resolve_refs (evidence_index es) (ps_test_evidence_refs s) = Some rs"
    "refs_allowed (ps_test_evidence_refs s) rs (Many ps)" "\<And>e. e \<in> set rs \<Longrightarrow> test_record_ok s (st_ingestions es) e"
    "set (covered False ''test_refs'' rs) = set (ps_test_refs s)"
  using assms by (auto simp: test_evidence_def list_all_iff split: option.splits if_splits)

lemma builtin_type_one: "has_builtin_type [t] n \<longleftrightarrow> nd_type n = Builtin t"
  by (cases "nd_type n") (auto simp: has_builtin_type_def)

lemma referenced_nodes_Inr:
  assumes "referenced_nodes s ps es g = Inr (Inr (requirements, code, tests))"
  shows "resolve_refs (dict_of nd_id (g_nodes g)) (ps_requirement_ids s) = Some requirements"
    "resolve_refs (dict_of nd_id (g_nodes g)) (ps_code_refs s) = Some code"
    "resolve_refs (dict_of nd_id (g_nodes g)) (ps_test_refs s) = Some tests"
    "\<And>n. n \<in> set requirements \<Longrightarrow> nd_type n = Builtin REQUIREMENT \<and> nd_status n = ''active'' \<and> requirement_ok ps es n"
    "\<And>n. n \<in> set code \<Longrightarrow> has_builtin_type code_types n" "\<And>n. n \<in> set tests \<Longrightarrow> nd_type n = Builtin TEST"
    "nd_label ` set (code @ tests) = set (ps_changed_paths s)"
proof -
  have facts: "list_all (\<lambda>n. has_builtin_type [REQUIREMENT] n \<and> nd_status n = ''active'') requirements \<and>
      list_all (has_builtin_type code_types) code \<and> list_all (has_builtin_type [TEST]) tests \<and>
      set (map nd_label (code @ tests)) = set (ps_changed_paths s) \<and> list_all (requirement_ok ps es) requirements"
    and "resolve_refs (dict_of nd_id (g_nodes g)) (ps_requirement_ids s) = Some requirements"
    "resolve_refs (dict_of nd_id (g_nodes g)) (ps_code_refs s) = Some code"
    "resolve_refs (dict_of nd_id (g_nodes g)) (ps_test_refs s) = Some tests"
    using assms unfolding referenced_nodes_def Let_def by (auto split: option.splits if_splits)
  then show "resolve_refs (dict_of nd_id (g_nodes g)) (ps_requirement_ids s) = Some requirements"
    "resolve_refs (dict_of nd_id (g_nodes g)) (ps_code_refs s) = Some code"
    "resolve_refs (dict_of nd_id (g_nodes g)) (ps_test_refs s) = Some tests"
    "\<And>n. n \<in> set requirements \<Longrightarrow> nd_type n = Builtin REQUIREMENT \<and> nd_status n = ''active'' \<and> requirement_ok ps es n"
    "\<And>n. n \<in> set code \<Longrightarrow> has_builtin_type code_types n" "\<And>n. n \<in> set tests \<Longrightarrow> nd_type n = Builtin TEST"
    "nd_label ` set (code @ tests) = set (ps_changed_paths s)"
    unfolding list_all_iff builtin_type_one by auto
qed

lemma checked_paths_set: "checked_paths xs = Inr ys \<Longrightarrow> set ys = set xs"
proof -
  have same: "map_res checked_path xs = Inr zs \<Longrightarrow> zs = xs" for zs
    by (induction xs arbitrary: zs) (auto simp: res_bind_Inr_iff checked_path_def split: if_splits)
  show "checked_paths xs = Inr ys \<Longrightarrow> set ys = set xs"
    by (auto simp: checked_paths_def checked_set_def res_bind_Inr_iff split: if_splits dest!: same)
qed

section \<open>Properties\<close>

text \<open>A refused evaluation leaves no trace, and no evaluation leaves its capability. Whatever other threads and
  processes do meanwhile, after an evaluation the token names no grant of the registry; every result is a valid
  one for the submitted task; and unless the result is \<open>recorded\<close>, the disk is as it was found, or as the others
  left it, up to the recovery of a transaction that had been interrupted.\<close>

theorem post_task_spent:
  assumes "evaluate env clock others s token (i, d) = ((i', d'), out)"
    and "executor_names \<subseteq> set (co_targets (pt_transactions env))"
  shows "(token_pattern token \<longrightarrow> map_of (is_grants i') (token_digest token) = None) \<and>
    (\<forall>r. out = Inr r \<longrightarrow> validate_result r = Inr r \<and> rs_task_id r = ps_task_id s) \<and>
    ((\<forall>r. out = Inr r \<longrightarrow> rs_status r \<noteq> Recorded) \<longrightarrow>
      untouched env d d' \<or> (\<exists>snap d1. post_snapshot env d = Inr (snap, d1) \<and> untouched env (snd (others (i, d1))) d'))"
proof (cases "validate_submission s")
  case (Inl e)
  then show ?thesis using assms(1) revoked by (auto simp: evaluate_def untouched_def)
next
  case (Inr s')
  then have out: "\<exists>r. out = Inr r" using assms(1) by (auto simp: evaluate_def split: prod.splits)
  then obtain r where r0: "out = Inr r" by blast
  obtain i1 out' where valid: "validate_submission s = Inr s"
    and run: "attempt env clock others s token (i, d) = ((i1, d'), out')" and i': "i' = revoke token i1"
    and r: "r = (case out' of Inl _ \<Rightarrow> failure_result s (Rejected, Evidence_Rejected)
       | Inr (Inl f) \<Rightarrow> failure_result s f | Inr (Inr r) \<Rightarrow> r)"
    by (rule evaluate_cases [OF assms(1) [unfolded r0]])
  have spent: "token_pattern token \<longrightarrow> map_of (is_grants i') (token_digest token) = None" by (simp add: i' revoked)
  have failing: "validate_result r = Inr r \<and> rs_task_id r = ps_task_id s \<and> rs_status r \<noteq> Recorded"
    if no: "\<nexists>x. out' = Inr (Inr x)"
  proof -
    obtain f where f: "r = failure_result s f" "refusing f"
      using no r attempt_refusing [of env clock others s token "(i, d)"] run by (auto simp: refusing_def split: sum.splits)
    with failure_result_valid [OF valid, of f] show ?thesis by (simp add: refusing_def failure_result_def)
  qed
  from run have "validate_result r = Inr r \<and> rs_task_id r = ps_task_id s \<and> (rs_status r \<noteq> Recorded \<longrightarrow>
      untouched env d d' \<or> (\<exists>snap d1. post_snapshot env d = Inr (snap, d1) \<and> untouched env (snd (others (i, d1))) d'))"
  proof (cases rule: attempt_cases)
    case refused
    then show ?thesis using failing by blast
  next
    case (unverified snap d1)
    then show ?thesis using failing by (auto simp: untouched_def)
  next
    case (taken snap d1 gc ec g i2 d2 grant digest paths)
    from taken(11) valid parse_graph_ok [OF taken(5)] assms(2) show ?thesis
    proof (cases rule: commit_cases)
      case refused
      then show ?thesis using failing taken(2,6) by auto
    next
      case (unchanged a)
      have "0 \<le> g_version g" using parse_graph_ok [OF taken(5)] by (simp add: graph_ok_def)
      from recorded_result_valid [OF valid this assess_claim [OF unchanged(1)], of None] show ?thesis
        using unchanged(6) r by (simp add: recorded_result_def)
    next
      case (linked a cs g')
      obtain g0 where "apply_changeset_with_case_effects g0 cs = Inr g'" by (rule execute_Inr [OF linked(4) assms(2)])
      then have "0 \<le> g_version g'" unfolding apply_unfold by (auto simp: graph_ok_def)
      from recorded_result_valid [OF valid this assess_claim [OF linked(1)], of "Some (cs_id cs)"] show ?thesis
        using linked(3,6) r link_changeset_id by (simp add: recorded_result_def)
    qed
  qed
  then show ?thesis using spent r0 by blast
qed


text \<open>What a recorded task leaves in the graph. When an evaluation is recorded, the graph of the reported version links
  every submitted requirement by an active edge to every submitted code node (\<open>IMPLEMENTED_BY\<close>) and test
  (\<open>VERIFIED_BY\<close>), and every code node is an implemented baseline that cites all the submitted evidence. With a
  ChangeSet, that graph is one version later and is in the graph file, the history has gained the ChangeSet, no other
  file has changed, and when the files were locked the graph, the evidence and the authority files still were those
  that had been checked; without one it is the graph that was checked, and nothing was written. (Pydantic
  reads valid nodes.)\<close>

theorem post_task_links:
  assumes "evaluate env clock others s token (i, d) = ((i', d'), Inr r)" "rs_status r = Recorded"
    and "executor_names \<subseteq> set (co_targets (pt_transactions env))"
    and "\<forall>content g. parse_graph (graph_codecs env) content = Inr g \<longrightarrow> graph_nodes_valid g"
  shows "\<exists>snap d1 gc ec g g'. post_snapshot env d = Inr (snap, d1) \<and> captured snap ''graph'' = Some gc \<and>
    captured snap ''evidence'' = Some ec \<and> parse_graph (graph_codecs env) gc = Inr g \<and> rs_graph_version r = g_version g' \<and>
    (case rs_changeset_id r of
       None \<Rightarrow> g' = g \<and> d' = snd (others (i, d1))
     | Some x \<Rightarrow> g_version g' = g_version g + 1 \<and>
         (\<exists>b f0 cs. recover (co_targets (pt_transactions env)) (co_legacy_sets (pt_transactions env)) (snd (others (i, d1))) =
            Inr (b, \<lparr>dk_files = f0, dk_journal = None\<rparr>) \<and>
          f0 ''graph'' = Some gc \<and> f0 ''evidence'' = Some ec \<and> (\<forall>name \<in> set authority_files. f0 name = captured snap name) \<and>
          cs_id cs = x \<and> dk_journal d' = None \<and>
          dk_files d' = f0(''graph'' \<mapsto> serialize_graph (graph_codecs env) g',
            ''history'' := append_text (f0 ''history'') (serialize_changeset (changeset_dump (pt_codecs env)) cs)))) \<and>
    (\<forall>q \<in> set (ps_requirement_ids s). (\<forall>c \<in> set (ps_code_refs s). linked g' q IMPLEMENTED_BY c) \<and>
      (\<forall>t \<in> set (ps_test_refs s). linked g' q VERIFIED_BY t)) \<and>
    (\<forall>c \<in> set (ps_code_refs s). implemented g' (ps_git_evidence_refs s @ ps_test_evidence_refs s) c)"
proof -
  obtain snap d1 gc ec g i2 d2 grant digest paths a where snap: "post_snapshot env d = Inr (snap, d1)"
    and content: "captured snap ''graph'' = Some gc" "captured snap ''evidence'' = Some ec"
    and g: "parse_graph (graph_codecs env) gc = Inr g" and o: "others (i, d1) = (i2, d2)"
    and a: "assess env s (granted grant) g ec snap = Inr (Inr a)"
    and result: "as_edges a = [] \<and> as_changes a = [] \<and> d' = d2 \<and> rs_changeset_id r = None \<and> rs_graph_version r = g_version g \<or>
     (\<exists>cs g'. cs = link_changeset s g (as_verified_at a) (as_edges a) (as_changes a) \<and>
       execute (pt_codecs env) (pt_transactions env) (pt_transaction_id env) cs (commit_request gc ec snap) d2 = (d', Inr g') \<and>
       rs_changeset_id r = Some (cs_id cs) \<and> rs_graph_version r = g_version g')"
    by (rule recorded_cases [OF assms(1-3)])
  obtain ps es gits requirements code tests trs where nodes: "referenced_nodes s ps es g = Inr (Inr (requirements, code, tests))"
    and edges: "as_edges a = new_links g (cited_evidence s) (case er_author (hd gits) of None \<Rightarrow> [] | Some x \<Rightarrow> x)
       (verified_at (gits @ trs)) requirements (link_targets code tests)"
    and changes: "status_changes (cited_evidence s) code = Inr (Inr (as_changes a))"
    by (rule assess_Inr [OF a])
  have resolved: "resolve_refs (dict_of nd_id (g_nodes g)) (ps_requirement_ids s) = Some requirements"
    "resolve_refs (dict_of nd_id (g_nodes g)) (ps_code_refs s) = Some code"
    "resolve_refs (dict_of nd_id (g_nodes g)) (ps_test_refs s) = Some tests"
    using nodes by (auto simp: referenced_nodes_def Let_def split: option.splits if_splits)
  have gok: "graph_ok g" "graph_nodes_valid g" using parse_graph_ok [OF g] assms(4) g by auto
  have all_links: "(\<forall>q \<in> set (ps_requirement_ids s). (\<forall>c \<in> set (ps_code_refs s). linked h q IMPLEMENTED_BY c) \<and>
      (\<forall>t \<in> set (ps_test_refs s). linked h q VERIFIED_BY t))"
    if kept: "\<And>x relation y. linked g x relation y \<Longrightarrow> linked h x relation y"
      and new: "\<And>e. e \<in> set (as_edges a) \<Longrightarrow> e \<in> set (g_edges h)" for h
  proof -
    have "linked h (nd_id q) relation (nd_id t)" if mem: "q \<in> set requirements" "(t, relation) \<in> set (link_targets code tests)" for q t relation
    proof (cases "(nd_id q, relation, nd_id t) \<in> set (existing_links g)")
      case True
      then show ?thesis by (rule kept [OF existing_linked])
    next
      case False
      then show ?thesis using new_links_cover [OF mem False] new unfolding edges linked_def by blast
    qed
    then show ?thesis
      using resolved_nodes(1) [OF resolved(1)] resolved_nodes(1) [OF resolved(2)] resolved_nodes(1) [OF resolved(3)]
      unfolding link_targets_def by fastforce
  qed
  have cited: "set (cited_evidence s) = set (ps_git_evidence_refs s @ ps_test_evidence_refs s)" by (simp add: cited_evidence_def)
  from result show ?thesis
  proof
    assume r: "as_edges a = [] \<and> as_changes a = [] \<and> d' = d2 \<and> rs_changeset_id r = None \<and> rs_graph_version r = g_version g"
    have "implemented g (ps_git_evidence_refs s @ ps_test_evidence_refs s) c" if "c \<in> set (ps_code_refs s)" for c
    proof -
      obtain n where "n \<in> set code" "lookup_node g c = Some n" using resolved_nodes(1) [OF resolved(2) \<open>c \<in> _\<close>] by blast
      with status_changes_cover(2) [OF changes this(1)] r show ?thesis unfolding implemented_def cited [symmetric] by auto
    qed
    with snap content g o r all_links [of g] show ?thesis by fastforce
  next
    assume "\<exists>cs g'. cs = link_changeset s g (as_verified_at a) (as_edges a) (as_changes a) \<and>
       execute (pt_codecs env) (pt_transactions env) (pt_transaction_id env) cs (commit_request gc ec snap) d2 = (d', Inr g') \<and>
       rs_changeset_id r = Some (cs_id cs) \<and> rs_graph_version r = g_version g'"
    then obtain cs g' where cs: "cs = link_changeset s g (as_verified_at a) (as_edges a) (as_changes a)"
      and run: "execute (pt_codecs env) (pt_transactions env) (pt_transaction_id env) cs (commit_request gc ec snap) d2 = (d', Inr g')"
      and r: "rs_changeset_id r = Some (cs_id cs)" "rs_graph_version r = g_version g'" by blast
    obtain b f0 effects g0 case_bytes where
      rec: "recover (co_targets (pt_transactions env)) (co_legacy_sets (pt_transactions env)) d2 =
        Inr (b, \<lparr>dk_files = f0, dk_journal = None\<rparr>)"
      and ok: "changeset_ok cs" and eff: "ordered_effects cs [] [] = Inr effects"
      and load: "load_graph (codecs.truncate (pt_codecs env)) f0 = Inr g0"
      and applied: "apply_changeset_with_case_effects g0 cs = Inr g'"
      and cases: "validate_case_appends (case_dump (pt_codecs env)) (case_decode (pt_codecs env)) (f0 ''cases'') effects = Inr case_bytes"
      and d': "d' = \<lparr>dk_files = written_files (pt_codecs env) cs g' case_bytes (commit_request gc ec snap) f0, dk_journal = None\<rparr>"
      and bound: "bindings_hold (commit_request gc ec snap) f0"
      by (rule execute_Inr [OF run assms(3)]) (simp add: commit_request_def)
    have held: "f0 ''graph'' = Some gc" "f0 ''evidence'' = Some ec" "\<forall>name \<in> set authority_files. f0 name = captured snap name"
      using bound by (auto simp: bindings_hold_def commit_request_def)
    have g0: "g0 = g" using load held(1) g by (simp add: load_graph_def graph_codecs_def)
    have "effects = []" using ordered_effects_Inr(1) [OF eff] by simp
    then have "case_bytes = []" using cases by (auto simp: validate_case_appends_def res_bind_Inr_iff)
    then have files: "dk_files d' = f0(''graph'' \<mapsto> serialize_graph (graph_codecs env) g',
        ''history'' := append_text (f0 ''history'') (serialize_changeset (changeset_dump (pt_codecs env)) cs))" "dk_journal d' = None"
      by (auto simp: d' written_files_def commit_request_def graph_codecs_def)
    note after = linked_after [OF cs ok gok applied [unfolded g0]]
    have "implemented g' (ps_git_evidence_refs s @ ps_test_evidence_refs s) c" if "c \<in> set (ps_code_refs s)" for c
    proof -
      obtain n where n: "n \<in> set code" "lookup_node g c = Some n" "nd_id n = c" using resolved_nodes(1) [OF resolved(2) \<open>c \<in> _\<close>] by blast
      from implemented_after [OF after(3) changes n] show ?thesis unfolding implemented_def cited .
    qed
    moreover have "\<exists>b f0 cs'. recover (co_targets (pt_transactions env)) (co_legacy_sets (pt_transactions env)) (snd (others (i, d1))) =
            Inr (b, \<lparr>dk_files = f0, dk_journal = None\<rparr>) \<and>
          f0 ''graph'' = Some gc \<and> f0 ''evidence'' = Some ec \<and> (\<forall>name \<in> set authority_files. f0 name = captured snap name) \<and>
          cs_id cs' = cs_id cs \<and> dk_journal d' = None \<and>
          dk_files d' = f0(''graph'' \<mapsto> serialize_graph (graph_codecs env) g',
            ''history'' := append_text (f0 ''history'') (serialize_changeset (changeset_dump (pt_codecs env)) cs'))"
      by (intro exI [of _ b] exI [of _ f0] exI [of _ cs] conjI) (use rec held files o in simp_all)
    moreover note all_links [of g', OF after(1,2)]
    ultimately show ?thesis
      by (intro exI [of _ snap] exI [of _ d1] exI [of _ gc] exI [of _ ec] exI [of _ g] exI [of _ g'] conjI)
        (use snap content g r after(4) in simp_all)
  qed
qed


text \<open>C26: A recorded task is authorised and grounded. When an evaluation is recorded, its token named, when it was
  consumed, an unexpired grant for exactly this actor, repository, task, request and graph content, whose paths
  include every changed path and whose relevant nodes include every requirement. And in the snapshot: the
  resolver vouches for the actor; every changed path is listed by readable, current evidence of the final commit,
  which the evidence names as a child of the base revision by one of the actor's principals, and that evidence lists
  no other path; every submitted test is listed by readable, current evidence of a passed run on that commit;
  every requirement is active and rests on readable, current evidence; and the nodes submitted are code and tests,
  labelled with exactly the changed paths.\<close>

theorem post_task_grounded:
  assumes "evaluate env clock others s token (i, d) = ((i', d'), Inr r)" "rs_status r = Recorded"
    and "executor_names \<subseteq> set (co_targets (pt_transactions env))"
  shows "\<exists>snap d1 gc ec g grant ps es. post_snapshot env d = Inr (snap, d1) \<and> captured snap ''graph'' = Some gc \<and>
    captured snap ''evidence'' = Some ec \<and> parse_graph (graph_codecs env) gc = Inr g \<and>
    map_of (is_grants (fst (others (i, d1)))) (token_digest token) = Some grant \<and>
    ag_actor grant = ps_actor s \<and> ag_repository_id grant = ps_repository_id s \<and> ag_task_id grant = ps_task_id s \<and>
    ag_request_digest grant = ps_request_digest s \<and> ag_graph_version grant = g_version g \<and>
    canonical_graph_digest (graph_codecs env) gc = Inr (ag_graph_digest grant) \<and>
    set (ps_changed_paths s) \<subseteq> set (ag_permitted_paths grant) \<and> set (ps_requirement_ids s) \<subseteq> set (ag_relevant_node_ids grant) \<and>
    snd clock < ag_expires_at grant \<and> ps_completed_at s \<le> fst clock \<and>
    pt_resolver env (ps_actor s) snap = Inr (ps_repository_id s, ps) \<and> ps_actor s \<in> set ps \<and>
    parse_evidence_lines (pt_evidence env) (Some ec) = Inr es \<and>
    (\<forall>path \<in> set (ps_changed_paths s). \<exists>ref \<in> set (ps_git_evidence_refs s). \<exists>e paths. map_of (evidence_index es) ref = Some e \<and>
       payload_tuple True e ''changed_paths'' = Some paths \<and> path \<in> set paths) \<and>
    (\<forall>ref \<in> set (ps_git_evidence_refs s). \<exists>e author paths vs. map_of (evidence_index es) ref = Some e \<and>
       evidence_allowed e (Many ps) \<and> current e (st_ingestions es) \<and> er_connector_type e = ''git'' \<and>
       er_external_version e = ps_final_revision s \<and> er_author e = Some author \<and> author \<in> set ps \<and>
       map_of (er_payload e) ''parents'' = Some (JArr vs) \<and> JStr (ps_base_revision s) \<in> set vs \<and>
       er_observed_at e \<le> ps_completed_at s \<and>
       payload_tuple True e ''changed_paths'' = Some paths \<and> set paths \<subseteq> set (ps_changed_paths s)) \<and>
    ps_test_refs s \<noteq> [] \<and>
    (\<forall>t \<in> set (ps_test_refs s). \<exists>ref \<in> set (ps_test_evidence_refs s). \<exists>e tests. map_of (evidence_index es) ref = Some e \<and>
       evidence_allowed e (Many ps) \<and> current e (st_ingestions es) \<and> er_connector_type e = ''test_result'' \<and>
       er_external_object_id e = ''test-run:'' @ ps_final_revision s \<and>
       payload_text e ''outcome'' = Some ''passed'' \<and> payload_tuple False e ''test_refs'' = Some tests \<and> t \<in> set tests) \<and>
    (\<forall>q \<in> set (ps_requirement_ids s). \<exists>n. lookup_node g q = Some n \<and> nd_type n = Builtin REQUIREMENT \<and>
       nd_status n = ''active'' \<and> nd_evidence_refs n \<noteq> [] \<and>
       (\<forall>ref \<in> set (nd_evidence_refs n). \<exists>e. map_of (evidence_index es) ref = Some e \<and> evidence_allowed e (Many ps) \<and>
          current e (st_ingestions es))) \<and>
    (\<exists>code tests. map nd_id code = ps_code_refs s \<and> map nd_id tests = ps_test_refs s \<and>
       (\<forall>n \<in> set (code @ tests). lookup_node g (nd_id n) = Some n) \<and> (\<forall>n \<in> set code. has_builtin_type code_types n) \<and>
       (\<forall>n \<in> set tests. nd_type n = Builtin TEST) \<and> nd_label ` set (code @ tests) = set (ps_changed_paths s))"
proof -
  obtain snap d1 gc ec g i2 d2 grant digest paths a where snap: "post_snapshot env d = Inr (snap, d1)"
    and content: "captured snap ''graph'' = Some gc" "captured snap ''evidence'' = Some ec"
    and g: "parse_graph (graph_codecs env) gc = Inr g" and o: "others (i, d1) = (i2, d2)"
    and found: "map_of (is_grants i2) (token_digest token) = Some grant" "snd clock < ag_expires_at grant" "ps_completed_at s \<le> fst clock"
    and use: "checked_use (graph_codecs env) (use_of s gc (snd clock)) = Inr (digest, paths)"
      "refusal grant (use_of s gc (snd clock)) digest paths = None"
    and a: "assess env s (granted grant) g ec snap = Inr (Inr a)"
    by (rule recorded_cases [OF assms])
  obtain ps es gits requirements code tests trs where who: "authorised_principals env s (granted grant) g snap = Inr (Inr ps)"
    and es: "parse_evidence_lines (pt_evidence env) (Some ec) = Inr es" and gits: "git_evidence s ps es = Inr (Inr gits)"
    and nodes: "referenced_nodes s ps es g = Inr (Inr (requirements, code, tests))" and trs: "test_evidence s ps es = Inr (Inr trs)"
    by (rule assess_Inr [OF a])
  have binding: "ag_actor grant = ps_actor s \<and> ag_repository_id grant = ps_repository_id s \<and> ag_task_id grant = ps_task_id s \<and>
    ag_request_digest grant = ps_request_digest s \<and> canonical_graph_digest (graph_codecs env) gc = Inr (ag_graph_digest grant) \<and>
    set (ps_changed_paths s) \<subseteq> set (ag_permitted_paths grant) \<and> ag_graph_version grant = ps_graph_version s"
    using use by (auto simp: refusal_def checked_use_def use_of_def res_bind_Inr_iff split: if_splits dest!: checked_paths_set)
  have principal: "pt_resolver env (ps_actor s) snap = Inr (ps_repository_id s, ps) \<and> ps_actor s \<in> set ps \<and>
      g_version g = ps_graph_version s \<and> set (ps_requirement_ids s) \<subseteq> set (ag_relevant_node_ids grant)"
    using who by (auto simp: authorised_principals_def res_bind_Inr_iff granted_def split: if_splits)
  note git = git_evidence_Inr [OF gits] and test = test_evidence_Inr [OF trs] and ref = referenced_nodes_Inr [OF nodes]
  note git_read = resolved_evidence [OF git(1,2)] and test_read = resolved_evidence [OF test(2,3)]
  have listed: "\<exists>ref \<in> set (ps_git_evidence_refs s). \<exists>e paths. map_of (evidence_index es) ref = Some e \<and>
       payload_tuple True e ''changed_paths'' = Some paths \<and> path \<in> set paths" if mem: "path \<in> set (ps_changed_paths s)" for path
  proof -
    obtain e xs where "e \<in> set gits" "payload_tuple True e ''changed_paths'' = Some xs" "path \<in> set xs"
      using mem unfolding git(4) [symmetric] covered_member by blast
    with git_read(2) show ?thesis by blast
  qed
  have commits: "\<exists>e author paths vs. map_of (evidence_index es) ref = Some e \<and>
       evidence_allowed e (Many ps) \<and> current e (st_ingestions es) \<and> er_connector_type e = ''git'' \<and>
       er_external_version e = ps_final_revision s \<and> er_author e = Some author \<and> author \<in> set ps \<and>
       map_of (er_payload e) ''parents'' = Some (JArr vs) \<and> JStr (ps_base_revision s) \<in> set vs \<and>
       er_observed_at e \<le> ps_completed_at s \<and>
       payload_tuple True e ''changed_paths'' = Some paths \<and> set paths \<subseteq> set (ps_changed_paths s)"
    if mem: "ref \<in> set (ps_git_evidence_refs s)" for ref
  proof -
    obtain e where e: "e \<in> set gits" "map_of (evidence_index es) ref = Some e" "evidence_allowed e (Many ps)"
      using git_read(1) [OF mem] by blast
    note checked = git(3) [OF e(1), unfolded git_record_ok_def]
    obtain author where author: "author \<in> set ps" "er_author e = Some author" using checked by blast
    obtain vs where vs: "map_of (er_payload e) ''parents'' = Some (JArr vs)" "JStr (ps_base_revision s) \<in> set vs"
      using checked by (auto split: option.splits json.splits)
    obtain xs where xs: "payload_tuple True e ''changed_paths'' = Some xs" using checked by blast
    then have "set xs \<subseteq> set (ps_changed_paths s)" using e(1) unfolding git(4) [symmetric] by (intro subsetI) (use covered_member in blast)
    then show ?thesis using e(2,3) author vs xs checked by (intro exI [of _ e] exI [of _ author] exI [of _ xs] exI [of _ vs] conjI) simp_all
  qed
  have runs: "\<exists>ref \<in> set (ps_test_evidence_refs s). \<exists>e tests. map_of (evidence_index es) ref = Some e \<and>
       evidence_allowed e (Many ps) \<and> current e (st_ingestions es) \<and> er_connector_type e = ''test_result'' \<and>
       er_external_object_id e = ''test-run:'' @ ps_final_revision s \<and>
       payload_text e ''outcome'' = Some ''passed'' \<and> payload_tuple False e ''test_refs'' = Some tests \<and> t \<in> set tests"
    if mem: "t \<in> set (ps_test_refs s)" for t
  proof -
    obtain e xs where e: "e \<in> set trs" "payload_tuple False e ''test_refs'' = Some xs" "t \<in> set xs"
      using mem unfolding test(5) [symmetric] covered_member by blast
    then show ?thesis
      using test_read(2) [OF e(1)] test(4) [OF e(1), unfolded test_record_ok_def]
      by (intro bexI [of _ "er_id e"] exI [of _ e] exI [of _ xs] conjI) simp_all
  qed
  have wanted: "\<exists>n. lookup_node g q = Some n \<and> nd_type n = Builtin REQUIREMENT \<and>
       nd_status n = ''active'' \<and> nd_evidence_refs n \<noteq> [] \<and>
       (\<forall>ref \<in> set (nd_evidence_refs n). \<exists>e. map_of (evidence_index es) ref = Some e \<and> evidence_allowed e (Many ps) \<and>
          current e (st_ingestions es))" if mem: "q \<in> set (ps_requirement_ids s)" for q
  proof -
    obtain n where n: "n \<in> set requirements" "lookup_node g q = Some n" using resolved_nodes(1) [OF ref(1) mem] by blast
    note checked = ref(4) [OF n(1)]
    then obtain rs where rs: "resolve_refs (evidence_index es) (nd_evidence_refs n) = Some rs" "nd_evidence_refs n \<noteq> []"
      "refs_allowed (nd_evidence_refs n) rs (Many ps)" "list_all (\<lambda>r. current r (st_ingestions es)) rs"
      by (auto simp: requirement_ok_def split: option.splits)
    have "\<exists>e. map_of (evidence_index es) r = Some e \<and> evidence_allowed e (Many ps) \<and> current e (st_ingestions es)"
      if "r \<in> set (nd_evidence_refs n)" for r
      using resolved_evidence(1) [OF rs(1,3) that] rs(4) by (auto simp: list_all_iff)
    with n checked rs(2) show ?thesis by blast
  qed
  have labels: "map nd_id code = ps_code_refs s \<and> map nd_id tests = ps_test_refs s \<and>
       (\<forall>n \<in> set (code @ tests). lookup_node g (nd_id n) = Some n) \<and> (\<forall>n \<in> set code. has_builtin_type code_types n) \<and>
       (\<forall>n \<in> set tests. nd_type n = Builtin TEST) \<and> nd_label ` set (code @ tests) = set (ps_changed_paths s)"
    using resolved_ids [OF ref(2)] resolved_ids [OF ref(3)] resolved_nodes(2) [OF ref(2)] resolved_nodes(2) [OF ref(3)] ref(5-7)
    by auto
  show ?thesis
    by (intro exI [of _ snap] exI [of _ d1] exI [of _ gc] exI [of _ ec] exI [of _ g] exI [of _ grant] exI [of _ ps] exI [of _ es] conjI
        ballI exI [of _ code] exI [of _ tests] listed commits runs wanted)
      (use snap content g o found binding principal es test(1) labels in simp_all)
qed

section \<open>A sample task\<close>

text \<open>A requirement that a file implements, and a test that covers it but is not linked yet. One commit and one run
  of the test are in the evidence, and the file's status is still unknown.\<close>

definition work_token :: string where
  "work_token = replicate 43 (CHR ''a'')"

definition work_submission :: post_task_submission where
  "work_submission =
     \<lparr>ps_repository_id = ''repo'', ps_task_id = ''task:sha256:'' @ replicate 64 (CHR ''0''), ps_actor = ''ana'',
      ps_request_digest = ''sha256:'' @ replicate 64 (CHR ''1''), ps_graph_version = 4, ps_base_revision = replicate 40 (CHR ''2''),
      ps_final_revision = replicate 40 (CHR ''3''), ps_changed_paths = [''src/a.py'', ''test/a.py''], ps_requirement_ids = [''n1''],
      ps_code_refs = [''n2''], ps_test_refs = [''n3''], ps_git_evidence_refs = [''ev-1''], ps_test_evidence_refs = [''ev-2''],
      ps_completed_at = 6\<rparr>"

definition work_node :: "string \<Rightarrow> NodeType \<Rightarrow> string \<Rightarrow> ImplementationStatus option \<Rightarrow> node" where
  "work_node i t label status =
     (sample_node i None)\<lparr>nd_type := Builtin t, nd_label := label, nd_implementation_status := status, nd_evidence_refs := [''ev-1'']\<rparr>"

definition work_graph :: graph where
  "work_graph =
     sample_graph\<lparr>g_nodes := [work_node ''n1'' REQUIREMENT ''Rename'' None, work_node ''n2'' FILE ''src/a.py'' None,
         work_node ''n3'' TEST ''test/a.py'' None],
       g_edges := [(sample_edge ''e1'' ''n1'' ''n2'')\<lparr>ed_relation := IMPLEMENTED_BY\<rparr>]\<rparr>"

definition work_commit :: evidence_record where
  "work_commit =
     (let sha = ps_final_revision work_submission in
      \<lparr>er_id = ''ev-1'', er_connector_type = ''git'', er_external_object_id = ''commit:'' @ sha, er_external_version = sha,
       er_author = Some ''ana'', er_observed_at = 4, er_source_locator = ''git:commit:'' @ sha, er_content_hash = ''h'',
       er_payload = [(''sha'', JStr sha), (''author'', JStr ''ana''), (''repository_id'', JStr ''repo''),
         (''parents'', JArr [JStr (ps_base_revision work_submission)]), (''subject'', JStr '' Rename ''),
         (''changed_paths'', JArr [JStr ''src/a.py'', JStr ''test/a.py''])],
       er_parent_ref = None, er_acl = [''ana'']\<rparr>)"

definition work_run :: evidence_record where
  "work_run =
     (let sha = ps_final_revision work_submission in
      \<lparr>er_id = ''ev-2'', er_connector_type = ''test_result'', er_external_object_id = ''test-run:'' @ sha, er_external_version = ''1'',
       er_author = None, er_observed_at = 5, er_source_locator = ''test:run:'' @ sha, er_content_hash = ''h'',
       er_payload = [(''commit_sha'', JStr sha), (''outcome'', JStr ''passed''), (''test_refs'', JArr [JStr ''n3''])],
       er_parent_ref = None, er_acl = []\<rparr>)"

definition work_ingestion :: "int \<Rightarrow> evidence_record \<Rightarrow> evidence_ingestion" where
  "work_ingestion n r = \<lparr>ing_connector_id = ''ci'', ing_sequence = n, ing_predecessor_id = None, ing_evidence = r\<rparr>"

definition work_evidence :: evidence_state where
  "work_evidence =
     \<lparr>st_records = [(''ev-1'', work_commit), (''ev-2'', work_run)],
      st_ingestions = [work_ingestion 1 work_commit, work_ingestion 2 work_run], st_legacy_ids = []\<rparr>"

definition work_lines :: string where
  "work_lines = concat (map (\<lambda>kvs. dumps False (JObj kvs) @ [CHR 0x0A])
     [[(''n'', JInt 1), (''storage_schema_version'', JInt 1)], [(''n'', JInt 2), (''storage_schema_version'', JInt 1)]])"

definition work_codecs :: exec_codecs where
  "work_codecs =
     \<lparr>yaml_load = (\<lambda>s. Inr (JObj [(''name'', JStr s)])), yaml_dump = (\<lambda>g. if g_version g = 4 then ''before'' else ''after''),
      graph_fields = (\<lambda>kvs. if kvs = [(''name'', JStr ''before'')] then Inr work_graph else Inl (ValidationError ''graph'')),
      py_repr = (\<lambda>_. []), changeset_dump = (\<lambda>_. []), changeset_decode = (\<lambda>_. Inl (ValueError [])),
      case_dump = (\<lambda>_. []), case_decode = (\<lambda>_. Inl (ValueError []))\<rparr>"

definition work_env :: post_task_env where
  "work_env =
     \<lparr>pt_codecs = work_codecs,
      pt_evidence = \<lparr>dump_record = (\<lambda>_. []), decode_record = (\<lambda>_. Inl (ValidationError ''id'')), dump_ingestion = (\<lambda>_. []),
        decode_ingestion = (\<lambda>kvs. Inr (if map_of kvs ''n'' = Some (JInt 1) then work_ingestion 1 work_commit
          else work_ingestion 2 work_run))\<rparr>,
      pt_transactions = full_coordinator, pt_transaction_id = [],
      pt_resolver = (\<lambda>actor snap. if map_of snap ''config'' = Some (Some ''c'') then Inr (''repo'', [actor])
        else Inl (ValueError ''config''))\<rparr>"

definition work_disk :: disk where
  "work_disk = \<lparr>dk_files = [''graph'' \<mapsto> ''before'', ''evidence'' \<mapsto> work_lines, ''config'' \<mapsto> ''c''], dk_journal = None\<rparr>"

definition work_snapshot :: "string option dict" where
  "work_snapshot =
     [(''binding'', None), (''cases'', None), (''config'', Some ''c''), (''evidence'', Some work_lines), (''graph'', Some ''before''),
      (''history'', None), (''intent_proposals'', None), (''policy'', None), (''repository'', None)]"

definition work_grant :: authorization_grant where
  "work_grant =
     \<lparr>ag_digest = token_digest work_token, ag_actor = ''ana'', ag_repository_id = ''repo'', ag_task_id = ps_task_id work_submission,
      ag_request_digest = ps_request_digest work_submission, ag_classification = Aligned, ag_graph_version = 4,
      ag_graph_digest = sha256_id ''before'', ag_permitted_paths = [''src/a.py'', ''test/a.py''], ag_relevant_node_ids = [''n1''],
      ag_issued_at = 1, ag_expires_at = 100\<rparr>"

definition work_issuer :: issuer where
  "work_issuer = \<lparr>is_max = 2, is_grants = [(token_digest work_token, work_grant)]\<rparr>"

lemma work_valid: "validate_submission work_submission = Inr work_submission"
  by code_simp

lemma work_held: "post_snapshot work_env work_disk = Inr (work_snapshot, work_disk)"
proof -
  have extras: "check_extras (co_targets full_coordinator) authority_files [] = Inr []"
    and names: "sort (co_targets full_coordinator @ authority_files) =
      [''binding'', ''cases'', ''config'', ''evidence'', ''graph'', ''history'', ''intent_proposals'', ''policy'', ''repository'']"
    by code_simp+
  have "recover ts ls work_disk = Inr (False, work_disk)" for ts ls
    by (rule recover_settled) (simp add: work_disk_def)
  moreover have "take_snapshot (co_targets full_coordinator @ authority_files) (dk_files work_disk) = work_snapshot"
    unfolding take_snapshot_def names by (simp add: work_disk_def work_snapshot_def)
  ultimately show ?thesis by (simp add: post_snapshot_def work_env_def extras)
qed

lemma work_rows:
  "splitlines work_lines = map (\<lambda>kvs. dumps False (JObj kvs))
     [[(''n'', JInt 1), (''storage_schema_version'', JInt 1)], [(''n'', JInt 2), (''storage_schema_version'', JInt 1)]]"
  "loads_strict_object (dumps False (JObj [(''n'', JInt 1), (''storage_schema_version'', JInt 1)])) =
     Inr [(''n'', JInt 1), (''storage_schema_version'', JInt 1)]"
  "loads_strict_object (dumps False (JObj [(''n'', JInt 2), (''storage_schema_version'', JInt 1)])) =
     Inr [(''n'', JInt 2), (''storage_schema_version'', JInt 1)]"
  "\<not> is_blank (dumps False (JObj [(''n'', JInt 1), (''storage_schema_version'', JInt 1)]))"
  "\<not> is_blank (dumps False (JObj [(''n'', JInt 2), (''storage_schema_version'', JInt 1)]))"
  by code_simp+

lemma work_ingestions:
  "validate_ingestion (work_ingestion 1 work_commit) = Inr (work_ingestion 1 work_commit)"
  "validate_ingestion (work_ingestion 2 work_run) = Inr (work_ingestion 2 work_run)"
  "ingestion_error [] (work_ingestion 1 work_commit) = None"
  "ingestion_error [work_ingestion 1 work_commit] (work_ingestion 2 work_run) = None"
  "er_id work_commit = ''ev-1''" "er_id work_run = ''ev-2''"
  by code_simp+

lemma work_ingestion_evidence [simp]: "ing_evidence (work_ingestion n r) = r"
  by (simp add: work_ingestion_def)

lemma work_parsed: "parse_evidence_lines (pt_evidence work_env) (Some work_lines) = Inr work_evidence"
  unfolding parse_evidence_lines_def option.case work_rows(1) list.map
  by (simp del: dumps.simps add: parse_row_def work_rows(2-) work_env_def work_ingestions add_row_def row_record_def empty_state_def
      work_evidence_def)

lemma work_checks:
  "git_evidence work_submission [''ana''] work_evidence = Inr (Inr [work_commit])"
  "test_evidence work_submission [''ana''] work_evidence = Inr (Inr [work_run])"
  "referenced_nodes work_submission [''ana''] work_evidence work_graph =
     Inr (Inr ([work_node ''n1'' REQUIREMENT ''Rename'' None], [work_node ''n2'' FILE ''src/a.py'' None], [work_node ''n3'' TEST ''test/a.py'' None]))"
  by code_simp+

text \<open>The link to the test, and the ChangeSet; their identities are hashes.\<close>

definition work_edge :: "string \<Rightarrow> edge" where
  "work_edge x =
     \<lparr>ed_id = ''edge:post-task:'' @ x, ed_from_id = ''n1'', ed_relation = VERIFIED_BY, ed_to_id = ''n3'', ed_status = ''active'',
      ed_created_by = ''ana'', ed_created_at = 5, ed_last_modified_by = ''ana'', ed_last_modified_at = 5, ed_external = False\<rparr>"

definition work_change :: implementation_status_change where
  "work_change = \<lparr>sc_claim_id = ''n2'', sc_prior = UNKNOWN, sc_new = IMPLEMENTED_BASELINE, sc_evidence_refs = [''ev-1'', ''ev-2'']\<rparr>"

definition work_changeset :: "string \<Rightarrow> string \<Rightarrow> changeset" where
  "work_changeset x y =
     \<lparr>cs_id = y, cs_actor = ''ana'', cs_timestamp = 5, cs_baseline_graph_version = 4, cs_evidence_refs = [''ev-1'', ''ev-2''],
      cs_nodes_added = [], cs_nodes_updated = [], cs_nodes_superseded = [], cs_edges_added = [work_edge x], cs_edges_updated = [],
      cs_edges_superseded = [], cs_confidence_changes = [], cs_implementation_status_changes = [work_change],
      cs_reconciliation_cases_created = [], cs_reconciliation_cases_resolved = [], cs_validation_status = ''validated''\<rparr>"

lemma work_changeset_built: "\<exists>y. link_changeset work_submission work_graph 5 [work_edge x] [work_change] = work_changeset x y"
proof -
  have "cited_evidence work_submission = [''ev-1'', ''ev-2'']" "g_version work_graph = 4" "ps_actor work_submission = ''ana''"
    by code_simp+
  then show ?thesis by (simp add: link_changeset_def work_changeset_def)
qed

lemma work_executed:
  "\<exists>d' g'. execute (pt_codecs work_env) (pt_transactions work_env) (pt_transaction_id work_env) (work_changeset x y)
     (commit_request ''before'' work_lines work_snapshot) work_disk = (d', Inr g')"
proof -
  have "isl (snd (execute (pt_codecs work_env) (pt_transactions work_env) (pt_transaction_id work_env) (work_changeset x y)
     (commit_request ''before'' work_lines work_snapshot) work_disk)) = False"
    by code_simp
  then show ?thesis by (metis isl_def old.sum.exhaust prod.collapse)
qed

lemma work_targets: "executor_names \<subseteq> set (co_targets (pt_transactions work_env))"
  by (simp add: work_env_def executor_names_def full_coordinator_def)

lemma work_graph_read:
  "parse_graph (graph_codecs work_env) ''before'' = Inr work_graph" "graph_nodes_valid work_graph" "g_version work_graph = 4"
  "canonical_graph_digest (graph_codecs work_env) ''before'' = Inr (sha256_id ''before'')"
proof -
  have "isl (parse_graph (graph_codecs work_env) ''before'') = False \<and> projr (parse_graph (graph_codecs work_env) ''before'') = work_graph"
    by code_simp
  then show g: "parse_graph (graph_codecs work_env) ''before'' = Inr work_graph" by (metis sum.collapse(2))
  show version: "graph_nodes_valid work_graph" "g_version work_graph = 4" by code_simp+
  have "serialize_graph (graph_codecs work_env) work_graph = ''before''"
    by (simp add: serialize_graph_def graph_codecs_def codecs.truncate_def work_env_def work_codecs_def version)
  with g show "canonical_graph_digest (graph_codecs work_env) ''before'' = Inr (sha256_id ''before'')"
    by (simp add: canonical_graph_digest_def)
qed

lemma work_nodes_valid: "parse_graph (graph_codecs work_env) content = Inr g \<Longrightarrow> graph_nodes_valid g"
  using work_graph_read(2)
  by (auto simp: parse_graph_def res_bind_Inr_iff graph_codecs_def codecs.truncate_def work_env_def work_codecs_def
      canonical_graph_payload_def validate_graph_Inr_iff split: if_splits)

lemma work_use:
  "checked_use (graph_codecs work_env) (use_of work_submission ''before'' now) = Inr (sha256_id ''before'', [''src/a.py'', ''test/a.py''])"
  "refusal work_grant (use_of work_submission ''before'' now) (sha256_id ''before'') [''src/a.py'', ''test/a.py''] = None"
proof -
  have texts: "checked_identity False (ps_actor work_submission) = Inr ''ana''"
    "checked_identity False (ps_repository_id work_submission) = Inr ''repo''"
    "checked_identity True (ps_task_id work_submission) = Inr (ps_task_id work_submission)"
    "checked_identity False (ps_request_digest work_submission) = Inr (ps_request_digest work_submission)"
    "checked_paths (ps_changed_paths work_submission) = Inr [''src/a.py'', ''test/a.py'']" "ps_graph_version work_submission = 4"
    "ps_actor work_submission = ''ana''" "ps_repository_id work_submission = ''repo''" "sha256_pattern (ps_request_digest work_submission)"
    by code_simp+
  then show "checked_use (graph_codecs work_env) (use_of work_submission ''before'' now) =
      Inr (sha256_id ''before'', [''src/a.py'', ''test/a.py''])"
    by (simp add: checked_use_def use_of_def work_graph_read)
  show "refusal work_grant (use_of work_submission ''before'' now) (sha256_id ''before'') [''src/a.py'', ''test/a.py''] = None"
    using texts by (simp add: refusal_def use_of_def work_grant_def)
qed

lemma work_verified: "now < 100 \<Longrightarrow> verify (graph_codecs work_env) work_token (use_of work_submission ''before'' now) work_issuer =
    (work_issuer, granted work_grant)"
proof -
  assume "now < 100"
  moreover have "token_pattern work_token" by code_simp
  moreover have "verification_error (granted work_grant) = None"
  proof -
    have "checked_identity False ''n1'' = Inr ''n1''" "sort [''n1''] = [''n1'']" by code_simp+
    then show ?thesis by (simp add: verification_error_def granted_def work_grant_def checked_identities_def checked_set_def error_of_def)
  qed
  moreover have "cu_now (use_of work_submission ''before'' now) = now" "ag_expires_at work_grant = 100"
    by (simp_all add: use_of_def work_grant_def)
  ultimately show ?thesis by (simp add: verify_def work_use work_issuer_def)
qed

lemma work_assessed:
  "\<exists>a x. assess work_env work_submission (granted work_grant) work_graph work_lines work_snapshot = Inr (Inr a) \<and>
    as_edges a = [work_edge x] \<and> as_changes a = [work_change] \<and> as_verified_at a = 5"
proof -
  have who: "authorised_principals work_env work_submission (granted work_grant) work_graph work_snapshot = Inr (Inr [''ana''])"
  proof -
    have "ps_graph_version work_submission = 4" "ps_requirement_ids work_submission = [''n1'']" "ps_actor work_submission = ''ana''"
      "ps_repository_id work_submission = ''repo''" by code_simp+
    then show ?thesis
      by (simp add: authorised_principals_def granted_def work_grant_def work_graph_read work_env_def work_snapshot_def)
  qed
  let ?c = "claim_of work_submission [work_commit] 5"
  have "ps_requirement_ids work_submission \<noteq> []" "sort (ps_git_evidence_refs work_submission) \<noteq> []" "ps_test_refs work_submission \<noteq> []"
    "sort (ps_test_evidence_refs work_submission) \<noteq> []" by code_simp+
  then have claim: "require_baseline_evidence ?c = Inr ?c"
    by (simp add: require_baseline_evidence_Inr_iff claim_of_def)
  have moment: "verified_at ([work_commit] @ [work_run]) = 5" and author: "er_author work_commit = Some ''ana''"
    and legacy: "st_legacy_ids work_evidence = []" and cited: "cited_evidence work_submission = [''ev-1'', ''ev-2'']"
    and changes: "status_changes [''ev-1'', ''ev-2''] [work_node ''n2'' FILE ''src/a.py'' None] = Inr (Inr [work_change])"
    by code_simp+
  have edges: "new_links work_graph [''ev-1'', ''ev-2''] ''ana'' 5 [work_node ''n1'' REQUIREMENT ''Rename'' None]
      (link_targets [work_node ''n2'' FILE ''src/a.py'' None] [work_node ''n3'' TEST ''test/a.py'' None]) =
    [work_edge (sha256_id (nul_text [''n1'', ''VERIFIED_BY'', ''n3'', ''ev-1'', ''ev-2'']))]"
  proof -
    have "existing_links work_graph = [(''n1'', IMPLEMENTED_BY, ''n2'')]" by code_simp
    then show ?thesis
      by (simp add: new_links_def link_targets_def link_edge_def work_edge_def work_node_def sample_node_def)
  qed
  show ?thesis
    using who work_parsed work_checks claim moment author legacy cited changes edges
    by (simp add: assess_def checked_bind_def) blast
qed

lemma work_recorded:
  "\<exists>d' i' r x. evaluate work_env (7, 8) (\<lambda>w. w) work_submission work_token (work_issuer, work_disk) = ((i', d'), Inr r) \<and>
    rs_status r = Recorded \<and> rs_changeset_id r = Some x"
proof -
  obtain a x where a: "assess work_env work_submission (granted work_grant) work_graph work_lines work_snapshot = Inr (Inr a)"
    and parts: "as_edges a = [work_edge x]" "as_changes a = [work_change]" "as_verified_at a = 5"
    using work_assessed by blast
  obtain y where cs: "link_changeset work_submission work_graph 5 [work_edge x] [work_change] = work_changeset x y"
    using work_changeset_built by blast
  obtain d' g' where run: "execute (pt_codecs work_env) (pt_transactions work_env) (pt_transaction_id work_env) (work_changeset x y)
     (commit_request ''before'' work_lines work_snapshot) work_disk = (d', Inr g')" using work_executed by blast
  obtain g0 where "apply_changeset_with_case_effects g0 (work_changeset x y) = Inr g'" by (rule execute_Inr [OF run work_targets])
  then have "0 \<le> g_version g'" unfolding apply_unfold by (auto simp: graph_ok_def)
  from recorded_result_valid [OF work_valid this assess_claim [OF a], of "Some y"]
  have valid: "validate_result (recorded_result work_submission a (g_version g') (Some y)) =
      Inr (recorded_result work_submission a (g_version g') (Some y))"
    using link_changeset_id [of work_submission work_graph 5 "[work_edge x]" "[work_change]"] by (simp add: cs) (simp add: work_changeset_def)
  have "commit_links work_env work_submission work_graph ''before'' work_lines work_snapshot (granted work_grant) (i, work_disk) =
      ((i, d'), Inr (Inr (recorded_result work_submission a (g_version g') (Some y))))" for i
    using a parts run valid by (simp add: commit_links_def cs) (simp add: work_changeset_def)
  moreover have "captured work_snapshot ''graph'' = Some ''before''" "captured work_snapshot ''evidence'' = Some work_lines"
    by (simp_all add: captured_def work_snapshot_def)
  moreover have "ps_completed_at work_submission = 6" "av_authorized (granted work_grant)"
    by (simp_all add: work_submission_def granted_def)
  ultimately have "\<exists>i'. attempt work_env (7, 8) (\<lambda>w. w) work_submission work_token (work_issuer, work_disk) =
      ((i', d'), Inr (Inr (recorded_result work_submission a (g_version g') (Some y))))"
    by (simp add: attempt_def work_held work_graph_read work_verified consume_def take_capability_def)
      (simp add: work_issuer_def)
  then show ?thesis by (auto simp: evaluate_def work_valid recorded_result_def)
qed

theorem post_task_spent_witness:
  "\<exists>i' d' r. evaluate work_env (5, 8) (\<lambda>w. w) work_submission work_token (work_issuer, work_disk) = ((i', d'), Inr r) \<and>
    rs_status r = Rejected \<and> validate_result r = Inr r \<and> map_of (is_grants i') (token_digest work_token) = None \<and>
    untouched work_env work_disk d'"
proof -
  have "ps_completed_at work_submission = 6" by (simp add: work_submission_def)
  then have run: "evaluate work_env (5, 8) (\<lambda>w. w) work_submission work_token (work_issuer, work_disk) =
      ((revoke work_token work_issuer, work_disk), Inr (failure_result work_submission (Rejected, Evidence_Rejected)))"
    by (simp add: evaluate_def work_valid attempt_def)
  have "token_pattern work_token" by code_simp
  with post_task_spent [OF run work_targets] run work_held show ?thesis
    by (auto simp: failure_result_def)
qed

theorem post_task_links_witness:
  "\<exists>i' d' r x g'. evaluate work_env (7, 8) (\<lambda>w. w) work_submission work_token (work_issuer, work_disk) = ((i', d'), Inr r) \<and>
    rs_changeset_id r = Some x \<and> g_version g' = 5 \<and> dk_files d' ''graph'' = Some (serialize_graph (graph_codecs work_env) g') \<and>
    linked g' ''n1'' IMPLEMENTED_BY ''n2'' \<and> linked g' ''n1'' VERIFIED_BY ''n3'' \<and> implemented g' [''ev-1'', ''ev-2''] ''n2''"
proof -
  obtain d' i' r x where run: "evaluate work_env (7, 8) (\<lambda>w. w) work_submission work_token (work_issuer, work_disk) = ((i', d'), Inr r)"
    and r: "rs_status r = Recorded" "rs_changeset_id r = Some x" using work_recorded by blast
  have refs: "ps_requirement_ids work_submission = [''n1'']" "ps_code_refs work_submission = [''n2'']"
    "ps_test_refs work_submission = [''n3'']" "ps_git_evidence_refs work_submission = [''ev-1'']"
    "ps_test_evidence_refs work_submission = [''ev-2'']" by (simp_all add: work_submission_def)
  have "captured work_snapshot ''graph'' = Some ''before''" by (simp add: captured_def work_snapshot_def)
  with post_task_links [OF run r(1) work_targets] work_nodes_valid r(2) run work_graph_read(1,3) work_held refs show ?thesis
    by fastforce
qed

theorem post_task_grounded_witness:
  "\<exists>i' d' r e. evaluate work_env (7, 8) (\<lambda>w. w) work_submission work_token (work_issuer, work_disk) = ((i', d'), Inr r) \<and>
    map_of (evidence_index work_evidence) ''ev-1'' = Some e \<and> er_author e = Some ''ana''"
proof -
  obtain d' i' r x where run: "evaluate work_env (7, 8) (\<lambda>w. w) work_submission work_token (work_issuer, work_disk) = ((i', d'), Inr r)"
    and r: "rs_status r = Recorded" using work_recorded by blast
  have refs: "ps_git_evidence_refs work_submission = [''ev-1'']" "ps_actor work_submission = ''ana''"
    by (simp_all add: work_submission_def)
  have "captured work_snapshot ''evidence'' = Some work_lines"
    and "pt_resolver work_env ''ana'' work_snapshot = Inr (''repo'', [''ana''])"
    by (simp_all add: captured_def work_snapshot_def work_env_def)
  with post_task_grounded [OF run r work_targets] run work_held work_parsed refs show ?thesis
    by fastforce
qed

end
