(* ===== verification/Assurance.thy ===== *)
theory Assurance
  imports Evidence_Detection
begin

text \<open>
  Scheduled assurance over one snapshot of the graph, the evidence and the cases
  (\<open>intent_workflow/assurance.py\<close>): eight gaps between nodes whose evidence the actor may read, and the
  comparisons an optional reasoner adds. The reasoner is an argument. Building an evidence side may raise: an
  author or a reference that is blank is not refused before.
\<close>

section \<open>The snapshot\<close>

record assurance_snapshot =
  as_graph :: graph
  as_records :: "evidence_record list"
  as_ingestions :: "evidence_ingestion list"
  as_cases :: "reconciliation_case list"

definition INTENT_TYPES :: "NodeType list" where
  "INTENT_TYPES = [CONTEXT, NEED, PRODUCT_INTENT, DESIRED_OUTCOME, ASSUMPTION, PRINCIPLE, CONSTRAINT]"

definition IMPLEMENTATION_TYPES :: "NodeType list" where
  "IMPLEMENTATION_TYPES = [MODULE, FILE, SYMBOL, ENDPOINT, SCHEMA, BUILD_ARTIFACT, DEPLOYMENT]"

definition node_type :: "node \<Rightarrow> NodeType option" where
  "node_type n = (case nd_type n of Builtin t \<Rightarrow> Some t | Extension _ \<Rightarrow> None)"

definition has_type :: "NodeType list \<Rightarrow> node \<Rightarrow> bool" where
  "has_type ts n \<longleftrightarrow> (case node_type n of Some t \<Rightarrow> t \<in> set ts | None \<Rightarrow> False)"

definition current_record :: "evidence_record \<Rightarrow> evidence_ingestion list \<Rightarrow> bool" where
  "current_record r ings \<longleftrightarrow>
     (let associations = filter (\<lambda>i. er_id (ing_evidence i) = er_id r) ings in
      associations \<noteq> [] \<and> list_all (\<lambda>a. \<not> superseded_in r a ings) associations)"

definition assurance_fingerprint :: "string \<Rightarrow> string \<Rightarrow> string list \<Rightarrow> evidence_side list \<Rightarrow> string" where
  "assurance_fingerprint detector_id subject_ref affected_refs sides =
     hexdigest (dumps True (JObj
       [(''detector_id'', JStr detector_id), (''subject_ref'', JStr subject_ref),
        (''affected_refs'', JArr (map JStr (sorted_set affected_refs))),
        (''evidence_refs'', JArr (map JStr (sorted_set (concat (map sd_evidence_refs sides)))))]))"

text \<open>\<open>_observation\<close>. Its validators never refuse sides that were built (\<open>found_valid\<close>).\<close>

definition found :: "node \<Rightarrow> ReconciliationCaseType \<Rightarrow> string \<Rightarrow> node list \<Rightarrow> evidence_side list \<Rightarrow> drift_observation" where
  "found subject case_type detector_id affected sides =
     (let affected_refs = sorted_set (map nd_id affected) in
      \<lparr>do_subject_ref = nd_id subject, do_case_type = case_type, do_affected_refs = affected_refs, do_evidence_sides = sides,
       do_detector_id = detector_id, do_fingerprint = assurance_fingerprint detector_id (nd_id subject) affected_refs sides,
       do_requires_human = True\<rparr>)"

section \<open>Readable sides\<close>

text \<open>\<open>tuple(by_id[ref] for ref in refs)\<close>, None for a missing key.\<close>

fun lookup_all :: "'a dict \<Rightarrow> string list \<Rightarrow> 'a list option" where
  "lookup_all d [] = Some []"
| "lookup_all d (k # ks) =
     (case map_of d k of None \<Rightarrow> None | Some x \<Rightarrow> map_option ((#) x) (lookup_all d ks))"

definition same_chain :: "evidence_record \<Rightarrow> evidence_record \<Rightarrow> bool" where
  "same_chain r s \<longleftrightarrow> er_connector_type r = er_connector_type s \<and> er_external_object_id r = er_external_object_id s"

text \<open>Every version of an external object must be readable, not only the one cited.\<close>

definition chain_readable :: "string \<Rightarrow> evidence_record list \<Rightarrow> evidence_record \<Rightarrow> bool" where
  "chain_readable actor records r \<longleftrightarrow>
     (let chain = filter (same_chain r) records in chain \<noteq> [] \<and> list_all (\<lambda>x. evidence_allowed x (One actor)) chain)"

definition node_side ::
  "string \<Rightarrow> evidence_record dict \<Rightarrow> evidence_record list \<Rightarrow> evidence_ingestion list \<Rightarrow> node \<Rightarrow> evidence_side option res" where
  "node_side actor by_id records ings n =
     (case (nd_source_mode n, nd_intent_fidelity_confidence n) of
        (Some mode, Some confidence) \<Rightarrow>
          if nd_evidence_refs n = [] then Inr None
          else
            (case lookup_all by_id (nd_evidence_refs n) of
               None \<Rightarrow> Inr None
             | Some resolved \<Rightarrow>
                 if \<not> list_all (chain_readable actor records) resolved \<or>
                    \<not> list_all (\<lambda>r. evidence_allowed r (One actor)) resolved \<or> truthy_authors resolved = []
                 then Inr None
                 else
                   let side = \<lparr>sd_label = kind_value (nd_type n), sd_claim = nd_label n, sd_evidence_refs = sort (nd_evidence_refs n),
                     sd_observed_at = max_list (map er_observed_at resolved), sd_authors = truthy_authors resolved,
                     sd_confidence = confidence, sd_source_mode = mode,
                     sd_current = list_all (\<lambda>r. current_record r ings) resolved\<rparr>
                   in (case side_error side of Some e \<Rightarrow> Inl e | None \<Rightarrow> Inr (Some side)))
      | _ \<Rightarrow> Inr None)"

section \<open>What the actor sees\<close>

text \<open>The visible nodes with their sides, the active edges between them, and the visible nodes with an active
  edge to a node that is not visible.\<close>

record assurance_view =
  vw_nodes :: "(node \<times> evidence_side) list"
  vw_edges :: "edge list"
  vw_obscured :: "string list"

fun visible_nodes ::
  "string \<Rightarrow> evidence_record dict \<Rightarrow> evidence_record list \<Rightarrow> evidence_ingestion list \<Rightarrow> node list \<Rightarrow> (node \<times> evidence_side) list res" where
  "visible_nodes actor by_id records ings [] = Inr []"
| "visible_nodes actor by_id records ings (n # ns) =
     res_bind (node_side actor by_id records ings n) (\<lambda>side.
     res_bind (visible_nodes actor by_id records ings ns) (\<lambda>rest.
     Inr (case side of None \<Rightarrow> rest | Some s \<Rightarrow> (n, s) # rest)))"

definition live_nodes :: "graph \<Rightarrow> node list" where
  "live_nodes g = filter (\<lambda>n. nd_status n = ''active'' \<or> nd_status n = ''provisional'') (g_nodes g)"

definition view_ids :: "(node \<times> evidence_side) list \<Rightarrow> string list" where
  "view_ids ns = map (\<lambda>(n, s). nd_id n) ns"

definition assurance_view_of :: "string \<Rightarrow> assurance_snapshot \<Rightarrow> assurance_view res" where
  "assurance_view_of actor sn =
     (let g = as_graph sn; live = live_nodes g; live_ids = map nd_id live in
      res_bind (visible_nodes actor (dict_of er_id (as_records sn)) (as_records sn) (as_ingestions sn) live) (\<lambda>ns.
      let ids = view_ids ns;
          live_edges = filter (\<lambda>e. ed_status e = ''active'' \<and> ed_from_id e \<in> set live_ids \<and> ed_to_id e \<in> set live_ids) (g_edges g);
          pairs = concat (map (\<lambda>e. [(ed_from_id e, ed_to_id e), (ed_to_id e, ed_from_id e)]) live_edges)
      in Inr \<lparr>vw_nodes = ns, vw_edges = filter (\<lambda>e. ed_from_id e \<in> set ids \<and> ed_to_id e \<in> set ids) live_edges,
          vw_obscured = map fst (filter (\<lambda>(a, b). a \<in> set ids \<and> b \<notin> set ids) pairs)\<rparr>))"

definition viewed :: "assurance_view \<Rightarrow> string \<Rightarrow> (node \<times> evidence_side) option" where
  "viewed v i = find (\<lambda>(n, s). nd_id n = i) (vw_nodes v)"

definition linked :: "assurance_view \<Rightarrow> string \<Rightarrow> string list" where
  "linked v i =
     concat (map (\<lambda>e. (if ed_from_id e = i then [ed_to_id e] else []) @ (if ed_to_id e = i then [ed_from_id e] else [])) (vw_edges v))"

definition linked_type :: "assurance_view \<Rightarrow> NodeType list \<Rightarrow> string \<Rightarrow> bool" where
  "linked_type v ts i \<longleftrightarrow> list_ex (\<lambda>j. case viewed v j of Some (n, s) \<Rightarrow> has_type ts n | None \<Rightarrow> False) (linked v i)"

section \<open>Gaps\<close>

definition obscured :: "assurance_view \<Rightarrow> string \<Rightarrow> bool" where
  "obscured v i \<longleftrightarrow> i \<in> set (vw_obscured v)"

text \<open>Two rounds of neighbours, without what was seen before.\<close>

fun reaches :: "nat \<Rightarrow> assurance_view \<Rightarrow> string list \<Rightarrow> string list \<Rightarrow> bool" where
  "reaches 0 v frontier seen \<longleftrightarrow> False"
| "reaches (Suc d) v frontier seen \<longleftrightarrow>
     (let next_frontier = filter (\<lambda>i. i \<notin> set seen) (concat (map (linked v) frontier)) in
      list_ex (\<lambda>i. case viewed v i of Some (n, s) \<Rightarrow> has_type IMPLEMENTATION_TYPES n | None \<Rightarrow> False) next_frontier \<or>
      reaches d v next_frontier (seen @ next_frontier))"

definition reaches_implementation :: "assurance_view \<Rightarrow> string \<Rightarrow> bool" where
  "reaches_implementation v i \<longleftrightarrow> reaches 2 v [i] [i]"

definition mapping_gaps :: "assurance_view \<Rightarrow> node \<times> evidence_side \<Rightarrow> drift_observation list" where
  "mapping_gaps v = (\<lambda>(n, s).
     if obscured v (nd_id n) then []
     else
       (if has_type INTENT_TYPES n \<and> sd_current s \<and> \<not> linked_type v [REQUIREMENT] (nd_id n)
        then [found n INTENT_LAG ''intent_without_requirement'' [n] [s]] else []) @
       (if has_type [REQUIREMENT] n \<and> sd_current s \<and> \<not> linked_type v INTENT_TYPES (nd_id n)
        then [found n ORPHAN_REQUIREMENT ''requirement_without_intent'' [n] [s]] else []) @
       (if has_type IMPLEMENTATION_TYPES n \<and> sd_current s \<and> \<not> linked_type v (INTENT_TYPES @ [REQUIREMENT, DECISION]) (nd_id n)
        then [found n UNDOCUMENTED_CODE ''undocumented_code'' [n] [s]] else []))"

definition edge_gaps :: "assurance_view \<Rightarrow> edge \<Rightarrow> drift_observation list" where
  "edge_gaps v e =
     (case (viewed v (ed_from_id e), viewed v (ed_to_id e)) of
        (Some (l, ls), Some (r, rs)) \<Rightarrow>
          if obscured v (nd_id l) \<or> obscured v (nd_id r) then []
          else
            (if ed_relation e = IMPLEMENTED_BY \<and> has_type [REQUIREMENT] l \<and> has_type IMPLEMENTATION_TYPES r \<and>
               nd_last_modified_at r < nd_last_modified_at l \<and> sd_current ls \<and> sd_current rs
             then [found l CODE_LAG ''code_lag'' [l, r] [ls, rs]] else []) @
            (if ed_relation e = CONTRADICTS \<and> nd_source_mode l = Some EXPLICIT \<and> nd_source_mode r = Some EXPLICIT \<and>
               sd_current ls \<and> sd_current rs \<and> set (sd_authors ls) \<noteq> set (sd_authors rs)
             then [found l CONFLICTING_SOURCES ''conflicting_sources'' [l, r] [ls, rs]] else [])
      | _ \<Rightarrow> [])"

text \<open>The visible targets of a requirement's edges of one relation, of the given types.\<close>

definition targets :: "assurance_view \<Rightarrow> RelationType \<Rightarrow> NodeType list \<Rightarrow> string \<Rightarrow> (node \<times> evidence_side) list" where
  "targets v rel ts i =
     concat (map (\<lambda>e.
       if ed_from_id e = i \<and> ed_relation e = rel
       then (case viewed v (ed_to_id e) of Some (n, s) \<Rightarrow> if has_type ts n then [(n, s)] else [] | None \<Rightarrow> []) else [])
       (vw_edges v))"

definition test_gaps :: "assurance_view \<Rightarrow> node \<times> evidence_side \<Rightarrow> drift_observation list" where
  "test_gaps v = (\<lambda>(n, s).
     if \<not> has_type [REQUIREMENT] n \<or> obscured v (nd_id n) then []
     else
       let implementations = targets v IMPLEMENTED_BY IMPLEMENTATION_TYPES (nd_id n);
           tests = targets v VERIFIED_BY [TEST] (nd_id n);
           affected = (n, s) # implementations @ tests
       in if implementations \<noteq> [] \<and> tests \<noteq> [] \<and> list_all (sd_current \<circ> snd) affected \<and>
            max_list (map (nd_last_modified_at \<circ> fst) tests) < max_list (map (nd_last_modified_at \<circ> fst) implementations)
          then [found n TEST_LAG ''test_lag'' (map fst affected) (map snd affected)] else [])"

definition provenance_gaps :: "assurance_view \<Rightarrow> node \<times> evidence_side \<Rightarrow> drift_observation list" where
  "provenance_gaps v = (\<lambda>(n, s).
     if obscured v (nd_id n) then []
     else
       (if has_type INTENT_TYPES n \<and> (nd_status n = ''provisional'' \<or> nd_source_mode n = Some INFERRED) \<and> sd_current s \<and>
          reaches_implementation v (nd_id n)
        then [found n POSSIBLE_INTENT_CHANGE ''relevant_provisional_intent'' [n] [s]] else []) @
       (if \<not> sd_current s then [found n AMBIGUOUS_DIVERGENCE ''stale_source_evidence'' [n] [s]] else []))"

definition all_gaps :: "assurance_view \<Rightarrow> drift_observation list" where
  "all_gaps v =
     (let ns = sort_key (nd_id \<circ> fst) (vw_nodes v) in
      concat (map (mapping_gaps v) ns) @ concat (map (edge_gaps v) (sort_key ed_id (vw_edges v))) @
      concat (map (test_gaps v) ns) @ concat (map (provenance_gaps v) ns))"

section \<open>The reasoner\<close>

definition reasoner_snapshot :: "string \<Rightarrow> assurance_snapshot \<Rightarrow> assurance_view \<Rightarrow> assurance_snapshot" where
  "reasoner_snapshot actor sn v =
     (let ids = view_ids (vw_nodes v);
          visible = filter (\<lambda>r. evidence_allowed r (One actor)) (as_records sn);
          by_id = dict_of er_id visible
      in \<lparr>as_graph = (as_graph sn)\<lparr>g_nodes := sort_key nd_id (map fst (vw_nodes v)),
            g_edges := sort_key ed_id (filter (\<lambda>e. ed_from_id e \<in> set ids \<and> ed_to_id e \<in> set ids) (g_edges (as_graph sn)))\<rparr>,
          as_records = map snd (sort_key fst by_id),
          as_ingestions = sort_key (\<lambda>i. (ing_connector_id i, ing_sequence i))
            (filter (\<lambda>i. map_of by_id (er_id (ing_evidence i)) = Some (ing_evidence i)) (as_ingestions sn)),
          as_cases = sort_key rc_id
            (filter (\<lambda>c. rc_subject_ref c \<in> set ids \<and> set (rc_affected_refs c) \<subseteq> set ids \<and> rc_evidence_sides c \<noteq> [] \<and>
               list_all (\<lambda>s. sd_evidence_refs s \<noteq> [] \<and> set (sd_evidence_refs s) \<subseteq> set (map fst by_id)) (rc_evidence_sides c))
            (as_cases sn))\<rparr>)"

definition grounded_nodes :: "assurance_view \<Rightarrow> (node \<times> evidence_side) list" where
  "grounded_nodes v = filter (\<lambda>(n, s). \<not> obscured v (nd_id n)) (vw_nodes v)"

definition role_types :: "detection_input \<Rightarrow> (evidence_side option \<times> NodeType list) list" where
  "role_types inp = [(di_requirement inp, [REQUIREMENT]), (di_implementation inp, IMPLEMENTATION_TYPES),
     (di_test inp, [TEST]), (di_decision inp, [DECISION])]"

fun match_roles ::
  "(node \<times> evidence_side) list \<Rightarrow> string list \<Rightarrow> (evidence_side option \<times> NodeType list) list \<Rightarrow>
     (evidence_side \<times> string list) list option" where
  "match_roles ns referenced [] = Some []"
| "match_roles ns referenced ((None, ts) # roles) = match_roles ns referenced roles"
| "match_roles ns referenced ((Some side, ts) # roles) =
     (let ids = view_ids (filter (\<lambda>(n, s). s = side \<and> has_type ts n \<and> nd_id n \<in> set referenced) ns) in
      if ids = [] then None else map_option ((#) (side, ids)) (match_roles ns referenced roles))"

text \<open>The nodes of the implementation are those of the first role with an equal side.\<close>

definition mapped_semantics :: "assurance_view \<Rightarrow> (evidence_side \<times> string list) list \<Rightarrow> evidence_side \<Rightarrow> bool" where
  "mapped_semantics v matched implementation =
     (case find (\<lambda>(side, ids). side = implementation) matched of
        None \<Rightarrow> False
      | Some (side, ids) \<Rightarrow>
          list_ex (\<lambda>i. list_ex (\<lambda>j. list_ex (\<lambda>(n, s). nd_id n = j \<and> has_type (INTENT_TYPES @ [REQUIREMENT, DECISION]) n)
            (grounded_nodes v)) (linked v i)) ids)"

definition grounded_reasoning :: "assurance_view \<Rightarrow> detection_input \<Rightarrow> bool" where
  "grounded_reasoning v inp \<longleftrightarrow>
     (let ns = grounded_nodes v; ids = view_ids ns; referenced = di_subject_ref inp # di_affected_refs inp in
      set referenced \<subseteq> set ids \<and>
      (case match_roles ns referenced (role_types inp) of
         None \<Rightarrow> False
       | Some matched \<Rightarrow>
           (case di_implementation inp of None \<Rightarrow> True
            | Some side \<Rightarrow> di_has_mapped_semantics inp = mapped_semantics v matched side) \<and>
           list_all (\<lambda>side. case side of None \<Rightarrow> True | Some s \<Rightarrow> s \<in> set (map snd ns) \<and> sd_current s)
             [di_requirement inp, di_implementation inp, di_test inp, di_decision inp]))"

type_synonym assurance_reasoner = "assurance_snapshot \<Rightarrow> detection_input list res"

definition reasoned_gaps :: "string \<Rightarrow> assurance_reasoner option \<Rightarrow> assurance_snapshot \<Rightarrow> assurance_view \<Rightarrow> drift_observation list res" where
  "reasoned_gaps actor reasoner sn v =
     (case reasoner of
        None \<Rightarrow> Inr []
      | Some detect \<Rightarrow>
          res_bind (detect (reasoner_snapshot actor sn v)) (\<lambda>reasoned.
          if 256 < length reasoned then Inl (ValueError ''invalid assurance reasoner output'')
          else
            fold_res (\<lambda>inp found.
              if \<not> grounded_reasoning v inp then Inl (ValueError ''ungrounded assurance reasoner output'')
              else Inr (found @ detect_drift inp)) reasoned []))"

section \<open>Detection\<close>

definition assurance_actor :: "string \<Rightarrow> string res" where
  "assurance_actor actor = (if actor = [] then Inl (ValueError ''invalid assurance actor'') else Inr actor)"

definition consistent_snapshot :: "assurance_snapshot \<Rightarrow> bool" where
  "consistent_snapshot sn \<longleftrightarrow>
     distinct (map er_id (as_records sn)) \<and> distinct (map (\<lambda>i. (ing_connector_id i, ing_sequence i)) (as_ingestions sn))"

definition not_in_cases :: "reconciliation_case list \<Rightarrow> drift_observation \<Rightarrow> bool" where
  "not_in_cases cases obs \<longleftrightarrow>
     do_fingerprint obs \<notin> set (map rc_fingerprint cases) \<and> do_subject_ref obs \<notin> set (map rc_subject_ref cases)"

definition assurance_detect :: "string \<Rightarrow> assurance_reasoner option \<Rightarrow> assurance_snapshot \<Rightarrow> drift_observation list res" where
  "assurance_detect actor reasoner sn =
     (if \<not> consistent_snapshot sn then Inr []
      else
        res_bind (assurance_view_of actor sn) (\<lambda>v.
        res_bind (reasoned_gaps actor reasoner sn v) (\<lambda>reasoned.
        Inr (filter (not_in_cases (as_cases sn)) (select_drift_observations (all_gaps v @ reasoned))))))"

section \<open>What is visible\<close>

lemma lookup_all_Some:
  "lookup_all d ks = Some xs \<longleftrightarrow> length xs = length ks \<and> (\<forall>i < length ks. map_of d (ks ! i) = Some (xs ! i))"
proof (induction ks arbitrary: xs)
  case (Cons k ks)
  show ?case by (cases xs) (auto simp: Cons.IH All_less_Suc2 split: option.splits)
qed auto

text \<open>A reference the actor may follow: it resolves, and every version of what it cites is readable.\<close>

definition reference_readable :: "string \<Rightarrow> evidence_record list \<Rightarrow> string \<Rightarrow> bool" where
  "reference_readable actor records ref \<longleftrightarrow>
     (\<exists>r \<in> set records. er_id r = ref \<and> (\<forall>x \<in> set records. same_chain r x \<longrightarrow> evidence_allowed x (One actor)))"

definition node_readable :: "string \<Rightarrow> evidence_record list \<Rightarrow> node \<Rightarrow> bool" where
  "node_readable actor records n \<longleftrightarrow>
     nd_evidence_refs n \<noteq> [] \<and> (\<forall>ref \<in> set (nd_evidence_refs n). reference_readable actor records ref)"

lemma node_side_Some:
  assumes "node_side actor (dict_of er_id records) records ings n = Inr (Some s)"
  shows "node_readable actor records n" "set (sd_evidence_refs s) = set (nd_evidence_refs n)" "side_error s = None"
    "nd_source_mode n = Some (sd_source_mode s)"
proof -
  from assms obtain resolved where found: "lookup_all (dict_of er_id records) (nd_evidence_refs n) = Some resolved"
    and chain: "list_all (chain_readable actor records) resolved" and refs: "nd_evidence_refs n \<noteq> []"
    and s: "sd_evidence_refs s = sort (nd_evidence_refs n)" "side_error s = None" "nd_source_mode n = Some (sd_source_mode s)"
    by (auto simp: node_side_def Let_def split: option.splits if_splits)
  have "reference_readable actor records ref" if ref: "ref \<in> set (nd_evidence_refs n)" for ref
  proof -
    obtain i where "i < length (nd_evidence_refs n)" "ref = nd_evidence_refs n ! i"
      using ref by (auto simp: in_set_conv_nth)
    then have "map_of (dict_of er_id records) ref = Some (resolved ! i)" "resolved ! i \<in> set resolved"
      using found by (auto simp: lookup_all_Some)
    then show ?thesis
      using chain dict_of_lookup [of er_id records ref "resolved ! i"]
      by (auto simp: reference_readable_def list_all_iff chain_readable_def Let_def)
  qed
  then show "node_readable actor records n" using refs by (simp add: node_readable_def)
  show "set (sd_evidence_refs s) = set (nd_evidence_refs n)" "side_error s = None" "nd_source_mode n = Some (sd_source_mode s)"
    using s by simp_all
qed

lemma visible_nodes_Inr:
  "visible_nodes actor by_id records ings ns = Inr vs \<Longrightarrow>
     set vs = {(n, s). n \<in> set ns \<and> node_side actor by_id records ings n = Inr (Some s)}"
proof (induction ns arbitrary: vs)
  case (Cons n ns)
  then obtain side rest where "node_side actor by_id records ings n = Inr side"
    "visible_nodes actor by_id records ings ns = Inr rest" "vs = (case side of None \<Rightarrow> rest | Some s \<Rightarrow> (n, s) # rest)"
    by (auto simp: res_bind_Inr_iff)
  with Cons.IH [of rest] show ?case by (cases side) auto
qed simp

lemma visible_nodes_distinct:
  "visible_nodes actor by_id records ings ns = Inr vs \<Longrightarrow> distinct (map nd_id ns) \<Longrightarrow> distinct (view_ids vs)"
proof (induction ns arbitrary: vs)
  case (Cons n ns)
  then obtain side rest where side: "node_side actor by_id records ings n = Inr side"
    and rest: "visible_nodes actor by_id records ings ns = Inr rest" "vs = (case side of None \<Rightarrow> rest | Some s \<Rightarrow> (n, s) # rest)"
    by (auto simp: res_bind_Inr_iff)
  have "set (view_ids rest) \<subseteq> nd_id ` set ns"
    using visible_nodes_Inr [OF rest(1)] by (auto simp: view_ids_def)
  with Cons.IH [OF rest(1)] Cons.prems(2) rest(2) show ?case by (cases side) (auto simp: view_ids_def)
qed (simp add: view_ids_def)

definition view_ok :: "assurance_view \<Rightarrow> bool" where
  "view_ok v \<longleftrightarrow> distinct (view_ids (vw_nodes v)) \<and>
     (\<forall>e \<in> set (vw_edges v). ed_from_id e \<in> set (view_ids (vw_nodes v)) \<and> ed_to_id e \<in> set (view_ids (vw_nodes v))) \<and>
     (\<forall>(n, s) \<in> set (vw_nodes v). side_error s = None \<and> nd_source_mode n = Some (sd_source_mode s))"

text \<open>What the view of a snapshot consists of.\<close>

lemma view_sound:
  assumes "assurance_view_of actor sn = Inr v" "distinct (map nd_id (g_nodes (as_graph sn)))"
  shows "view_ok v"
    and "(n, s) \<in> set (vw_nodes v) \<Longrightarrow> n \<in> set (live_nodes (as_graph sn)) \<and> node_readable actor (as_records sn) n \<and>
      set (sd_evidence_refs s) = set (nd_evidence_refs n)"
proof -
  from assms(1) obtain ns where ns: "visible_nodes actor (dict_of er_id (as_records sn)) (as_records sn) (as_ingestions sn)
      (live_nodes (as_graph sn)) = Inr ns" "vw_nodes v = ns"
    and edges: "\<And>e. e \<in> set (vw_edges v) \<Longrightarrow> ed_from_id e \<in> set (view_ids ns) \<and> ed_to_id e \<in> set (view_ids ns)"
    by (auto simp: assurance_view_of_def Let_def res_bind_Inr_iff)
  note mem = visible_nodes_Inr [OF ns(1)]
  have "distinct (map nd_id (live_nodes (as_graph sn)))"
    using assms(2) by (simp add: live_nodes_def distinct_map_filter)
  from visible_nodes_distinct [OF ns(1) this] edges mem node_side_Some(3,4) show "view_ok v"
    unfolding view_ok_def ns(2) by blast
  show "n \<in> set (live_nodes (as_graph sn)) \<and> node_readable actor (as_records sn) n \<and>
      set (sd_evidence_refs s) = set (nd_evidence_refs n)" if "(n, s) \<in> set (vw_nodes v)"
    using that mem node_side_Some(1,2) unfolding ns(2) by blast
qed

lemma viewed_iff: "view_ok v \<Longrightarrow> viewed v i = Some (n, s) \<longleftrightarrow> (n, s) \<in> set (vw_nodes v) \<and> nd_id n = i"
proof -
  assume "view_ok v"
  then have "distinct (map (nd_id \<circ> fst) (vw_nodes v))" by (simp add: view_ok_def view_ids_def case_prod_unfold comp_def)
  then have same: "p = q" if "p \<in> set (vw_nodes v)" "q \<in> set (vw_nodes v)" "nd_id (fst p) = nd_id (fst q)" for p q
    using that by (auto simp: distinct_map inj_on_def)
  have unique: "viewed v i = Some p \<longleftrightarrow> p \<in> set (vw_nodes v) \<and> nd_id (fst p) = i" for p
  proof
    assume "viewed v i = Some p"
    then show "p \<in> set (vw_nodes v) \<and> nd_id (fst p) = i" by (auto simp: viewed_def find_Some_iff case_prod_unfold)
  next
    assume p: "p \<in> set (vw_nodes v) \<and> nd_id (fst p) = i"
    then have "viewed v i \<noteq> None" unfolding viewed_def find_None_iff by (cases p) auto
    then obtain q where q: "viewed v i = Some q" by blast
    then have "q \<in> set (vw_nodes v)" "nd_id (fst q) = i" by (auto simp: viewed_def find_Some_iff case_prod_unfold)
    with p q same show "viewed v i = Some p" by metis
  qed
  show ?thesis using unique [of "(n, s)"] by simp
qed

section \<open>The gaps, declaratively\<close>

definition joined :: "assurance_view \<Rightarrow> string \<Rightarrow> string \<Rightarrow> bool" where
  "joined v i j \<longleftrightarrow> (\<exists>e \<in> set (vw_edges v). (ed_from_id e, ed_to_id e) \<in> {(i, j), (j, i)})"

definition visible_type :: "assurance_view \<Rightarrow> NodeType list \<Rightarrow> string \<Rightarrow> bool" where
  "visible_type v ts i \<longleftrightarrow> (\<exists>(n, s) \<in> set (vw_nodes v). nd_id n = i \<and> has_type ts n)"

definition reaches_target :: "assurance_view \<Rightarrow> RelationType \<Rightarrow> NodeType list \<Rightarrow> string \<Rightarrow> node \<times> evidence_side \<Rightarrow> bool" where
  "reaches_target v rel ts i p \<longleftrightarrow> p \<in> set (vw_nodes v) \<and> has_type ts (fst p) \<and>
     (\<exists>e \<in> set (vw_edges v). ed_from_id e = i \<and> ed_relation e = rel \<and> ed_to_id e = nd_id (fst p))"

text \<open>\<open>gap v d i\<close>: the visible node \<open>i\<close>, with no edge into what is not visible, has the gap that the detector \<open>d\<close>
  is named after.\<close>

definition lagging_code :: "assurance_view \<Rightarrow> node \<Rightarrow> bool" where
  "lagging_code v n \<longleftrightarrow> has_type [REQUIREMENT] n \<and>
     (\<exists>(m, t) \<in> set (vw_nodes v). reaches_target v IMPLEMENTED_BY IMPLEMENTATION_TYPES (nd_id n) (m, t) \<and> \<not> obscured v (nd_id m) \<and>
        sd_current t \<and> nd_last_modified_at m < nd_last_modified_at n)"

definition conflicting :: "assurance_view \<Rightarrow> node \<Rightarrow> evidence_side \<Rightarrow> bool" where
  "conflicting v n s \<longleftrightarrow> sd_source_mode s = EXPLICIT \<and>
     (\<exists>(m, t) \<in> set (vw_nodes v). sd_source_mode t = EXPLICIT \<and> sd_current t \<and> \<not> obscured v (nd_id m) \<and>
        set (sd_authors s) \<noteq> set (sd_authors t) \<and>
        (\<exists>e \<in> set (vw_edges v). ed_from_id e = nd_id n \<and> ed_relation e = CONTRADICTS \<and> ed_to_id e = nd_id m))"

definition lagging_test :: "assurance_view \<Rightarrow> node \<Rightarrow> bool" where
  "lagging_test v n \<longleftrightarrow> has_type [REQUIREMENT] n \<and>
     (\<forall>p. reaches_target v IMPLEMENTED_BY IMPLEMENTATION_TYPES (nd_id n) p \<or> reaches_target v VERIFIED_BY [TEST] (nd_id n) p \<longrightarrow>
        sd_current (snd p)) \<and>
     (\<exists>p. reaches_target v VERIFIED_BY [TEST] (nd_id n) p) \<and>
     (\<exists>p. reaches_target v IMPLEMENTED_BY IMPLEMENTATION_TYPES (nd_id n) p \<and>
        (\<forall>q. reaches_target v VERIFIED_BY [TEST] (nd_id n) q \<longrightarrow> nd_last_modified_at (fst q) < nd_last_modified_at (fst p)))"

definition gap_of :: "assurance_view \<Rightarrow> node \<Rightarrow> evidence_side \<Rightarrow> string \<Rightarrow> bool" where
  "gap_of v n s d \<longleftrightarrow>
     (if d = ''stale_source_evidence'' then \<not> sd_current s
      else sd_current s \<and>
        (if d = ''intent_without_requirement'' then
           has_type INTENT_TYPES n \<and> \<not> (\<exists>j. joined v (nd_id n) j \<and> visible_type v [REQUIREMENT] j)
         else if d = ''requirement_without_intent'' then
           has_type [REQUIREMENT] n \<and> \<not> (\<exists>j. joined v (nd_id n) j \<and> visible_type v INTENT_TYPES j)
         else if d = ''undocumented_code'' then
           has_type IMPLEMENTATION_TYPES n \<and>
           \<not> (\<exists>j. joined v (nd_id n) j \<and> visible_type v (INTENT_TYPES @ [REQUIREMENT, DECISION]) j)
         else if d = ''code_lag'' then lagging_code v n
         else if d = ''conflicting_sources'' then conflicting v n s
         else if d = ''test_lag'' then lagging_test v n
         else if d = ''relevant_provisional_intent'' then
           has_type INTENT_TYPES n \<and> (nd_status n = ''provisional'' \<or> sd_source_mode s = INFERRED) \<and>
           (\<exists>j. visible_type v IMPLEMENTATION_TYPES j \<and>
             (joined v (nd_id n) j \<or> (\<exists>k. joined v (nd_id n) k \<and> joined v k j)))
         else False))"

definition gap :: "assurance_view \<Rightarrow> string \<Rightarrow> string \<Rightarrow> bool" where
  "gap v d i \<longleftrightarrow> (\<exists>(n, s) \<in> set (vw_nodes v). nd_id n = i \<and> \<not> obscured v i \<and> gap_of v n s d)"

lemma set_linked: "set (linked v i) = {j. joined v i j}"
  by (auto simp: linked_def joined_def)

lemma viewed_type: "view_ok v \<Longrightarrow> (case viewed v j of Some (n, s) \<Rightarrow> has_type ts n | None \<Rightarrow> False) \<longleftrightarrow> visible_type v ts j"
proof -
  assume ok: "view_ok v"
  have "visible_type v ts j \<longleftrightarrow> (\<exists>n s. viewed v j = Some (n, s) \<and> has_type ts n)"
    unfolding visible_type_def viewed_iff [OF ok] by blast
  then show ?thesis by (auto split: option.split)
qed

lemma linked_type_iff: "view_ok v \<Longrightarrow> linked_type v ts i \<longleftrightarrow> (\<exists>j. joined v i j \<and> visible_type v ts j)"
  by (auto simp: linked_type_def list_ex_iff set_linked viewed_type)

lemma reaches_iff:
  assumes "view_ok v"
  shows "reaches (Suc d) v frontier seen \<longleftrightarrow>
    (\<exists>j. j \<notin> set seen \<and> (\<exists>i \<in> set frontier. joined v i j) \<and> visible_type v IMPLEMENTATION_TYPES j) \<or>
    reaches d v (filter (\<lambda>i. i \<notin> set seen) (concat (map (linked v) frontier)))
      (seen @ filter (\<lambda>i. i \<notin> set seen) (concat (map (linked v) frontier)))"
  unfolding reaches.simps Let_def viewed_type [OF assms] by (auto simp: list_ex_iff set_linked)

lemma reaches_implementation_iff:
  assumes "view_ok v" "\<not> visible_type v IMPLEMENTATION_TYPES i"
  shows "reaches_implementation v i \<longleftrightarrow>
    (\<exists>j. visible_type v IMPLEMENTATION_TYPES j \<and> (joined v i j \<or> (\<exists>k. joined v i k \<and> joined v k j)))"
proof -
  let ?F = "filter (\<lambda>j. j \<notin> set [i]) (concat (map (linked v) [i]))" and ?impl = "visible_type v IMPLEMENTATION_TYPES"
  have F: "set ?F = {j. joined v i j \<and> j \<noteq> i}" by (auto simp: set_linked)
  have "reaches_implementation v i \<longleftrightarrow> (\<exists>j. j \<notin> set [i] \<and> (\<exists>k \<in> set [i]. joined v k j) \<and> ?impl j) \<or>
      (\<exists>j. j \<notin> set ([i] @ ?F) \<and> (\<exists>k \<in> set ?F. joined v k j) \<and> ?impl j)"
    unfolding reaches_implementation_def numeral_2_eq_2 reaches_iff [OF assms(1), of "Suc 0"]
    by (simp only: reaches_iff [OF assms(1), of 0] reaches.simps(1) simp_thms)
  also have "\<dots> \<longleftrightarrow> (\<exists>j. j \<noteq> i \<and> joined v i j \<and> ?impl j) \<or>
      (\<exists>j. j \<noteq> i \<and> \<not> joined v i j \<and> (\<exists>k. joined v i k \<and> k \<noteq> i \<and> joined v k j) \<and> ?impl j)"
    unfolding set_append F by auto
  also have "\<dots> \<longleftrightarrow> (\<exists>j. ?impl j \<and> (joined v i j \<or> (\<exists>k. joined v i k \<and> joined v k j)))"
    using assms(2) by metis
  finally show ?thesis .
qed

lemma set_targets: "view_ok v \<Longrightarrow> set (targets v rel ts i) = {p. reaches_target v rel ts i p}"
proof -
  assume ok: "view_ok v"
  have "(n, s) \<in> set (targets v rel ts i) \<longleftrightarrow>
      (\<exists>e \<in> set (vw_edges v). ed_from_id e = i \<and> ed_relation e = rel \<and> viewed v (ed_to_id e) = Some (n, s)) \<and> has_type ts n" for n s
    by (auto simp: targets_def split: option.splits if_splits) force
  then have "(n, s) \<in> set (targets v rel ts i) \<longleftrightarrow> reaches_target v rel ts i (n, s)" for n s
    unfolding reaches_target_def viewed_iff [OF ok] by auto
  then show ?thesis by auto
qed

lemma max_list_less:
  assumes "xs \<noteq> []" "ys \<noteq> []"
  shows "max_list ys < max_list xs \<longleftrightarrow> (\<exists>x \<in> set xs. \<forall>y \<in> set ys. y < x)"
proof -
  have max: "max_list zs = Max (set zs)" if "zs \<noteq> []" for zs
  proof -
    have "foldr max ys x = Max (insert x (set ys))" for ys and x :: int
      by (induction ys) (simp_all add: insert_commute [of x])
    then show ?thesis using that by (cases zs) (simp_all add: max_list_def)
  qed
  show ?thesis using assms by (simp add: max Max_gr_iff Max_less_iff)
qed

lemma found_simps [simp]:
  "do_subject_ref (found n t d affected sides) = nd_id n" "do_detector_id (found n t d affected sides) = d"
  "do_evidence_sides (found n t d affected sides) = sides" "set (do_affected_refs (found n t d affected sides)) = nd_id ` set affected"
  by (simp_all add: found_def Let_def)

lemma visible_type_node: "view_ok v \<Longrightarrow> (n, s) \<in> set (vw_nodes v) \<Longrightarrow> visible_type v ts (nd_id n) \<longleftrightarrow> has_type ts n"
proof -
  assume ok: "view_ok v" and mem: "(n, s) \<in> set (vw_nodes v)"
  then have "viewed v (nd_id n) = Some (n, s)" using viewed_iff by blast
  with viewed_type [OF ok, where ts = ts and j = "nd_id n"] show ?thesis by simp
qed

lemma intent_not_implementation: "has_type INTENT_TYPES n \<Longrightarrow> \<not> has_type IMPLEMENTATION_TYPES n"
  by (auto simp: has_type_def INTENT_TYPES_def IMPLEMENTATION_TYPES_def split: option.splits)

lemma gap_of_simps:
  "gap_of v n s ''stale_source_evidence'' \<longleftrightarrow> \<not> sd_current s"
  "gap_of v n s ''intent_without_requirement'' \<longleftrightarrow> sd_current s \<and>
     has_type INTENT_TYPES n \<and> \<not> (\<exists>j. joined v (nd_id n) j \<and> visible_type v [REQUIREMENT] j)"
  "gap_of v n s ''requirement_without_intent'' \<longleftrightarrow> sd_current s \<and>
     has_type [REQUIREMENT] n \<and> \<not> (\<exists>j. joined v (nd_id n) j \<and> visible_type v INTENT_TYPES j)"
  "gap_of v n s ''undocumented_code'' \<longleftrightarrow> sd_current s \<and> has_type IMPLEMENTATION_TYPES n \<and>
     \<not> (\<exists>j. joined v (nd_id n) j \<and> visible_type v (INTENT_TYPES @ [REQUIREMENT, DECISION]) j)"
  "gap_of v n s ''code_lag'' \<longleftrightarrow> sd_current s \<and> lagging_code v n"
  "gap_of v n s ''conflicting_sources'' \<longleftrightarrow> sd_current s \<and> conflicting v n s"
  "gap_of v n s ''test_lag'' \<longleftrightarrow> sd_current s \<and> lagging_test v n"
  "gap_of v n s ''relevant_provisional_intent'' \<longleftrightarrow> sd_current s \<and>
     has_type INTENT_TYPES n \<and> (nd_status n = ''provisional'' \<or> sd_source_mode s = INFERRED) \<and>
     (\<exists>j. visible_type v IMPLEMENTATION_TYPES j \<and> (joined v (nd_id n) j \<or> (\<exists>k. joined v (nd_id n) k \<and> joined v k j)))"
  by (simp_all add: gap_of_def)

lemma gap_of_names:
  "gap_of v n s d \<Longrightarrow> d \<in> {''intent_without_requirement'', ''requirement_without_intent'', ''undocumented_code''} \<union>
     {''code_lag'', ''conflicting_sources''} \<union> {''test_lag''} \<union> {''relevant_provisional_intent'', ''stale_source_evidence''}"
  unfolding gap_of_def by (simp split: if_splits)

lemma bex_if_list: "(\<exists>x \<in> set (if c then [a] else []). P x) \<longleftrightarrow> c \<and> P a"
  by simp

lemma pick_name:
  "(A a \<and> d = a \<or> A b \<and> d = b) \<longleftrightarrow> A d \<and> d \<in> {a, b}"
  "(A a \<and> d = a \<or> A b \<and> d = b \<or> A c \<and> d = c) \<longleftrightarrow> A d \<and> d \<in> {a, b, c}"
  by auto

lemma edge_pick:
  "(\<exists>e \<in> E. \<exists>n s m t. ((n, s) \<in> V \<and> f n = src e) \<and> ((m, t) \<in> V \<and> f m = dst e) \<and> Q e n s m t) \<longleftrightarrow>
   (\<exists>n s. (n, s) \<in> V \<and> (\<exists>m t. (m, t) \<in> V \<and> (\<exists>e \<in> E. src e = f n \<and> dst e = f m \<and> Q e n s m t)))"
  by (intro iffI; elim exE conjE bexE; intro exI conjI bexI) (assumption | rule sym, assumption)+

lemma bex_pair_cong: "(\<And>x y. (x, y) \<in> A \<Longrightarrow> P (x, y) \<longleftrightarrow> Q x y) \<Longrightarrow> (\<exists>p \<in> A. P p) \<longleftrightarrow> (\<exists>(x, y) \<in> A. Q x y)"
  by auto

lemma bex_pair_union:
  "(\<And>x y. G x y \<Longrightarrow> d \<in> D1 \<union> D2 \<union> D3 \<union> D4) \<Longrightarrow>
   (\<exists>(x, y) \<in> A. F x \<and> R \<and> G x y \<and> d \<in> D1) \<or> (\<exists>(x, y) \<in> A. F x \<and> R \<and> G x y \<and> d \<in> D2) \<or>
   (\<exists>(x, y) \<in> A. F x \<and> R \<and> G x y \<and> d \<in> D3) \<or> (\<exists>(x, y) \<in> A. F x \<and> R \<and> G x y \<and> d \<in> D4) \<longleftrightarrow>
   (\<exists>(x, y) \<in> A. F x \<and> R \<and> G x y)"
  by blast

lemma bex_concat: "(\<exists>x \<in> set (concat (map f xs)). P x) \<longleftrightarrow> (\<exists>y \<in> set xs. \<exists>x \<in> set (f y). P x)"
  by auto

lemma bex_pair: "(\<exists>(x, y) \<in> A. P x y) \<longleftrightarrow> (\<exists>x y. (x, y) \<in> A \<and> P x y)"
  by auto

lemma mapping_gaps_iff:
  assumes "view_ok v"
  shows "(\<exists>obs \<in> set (mapping_gaps v (n, s)). do_detector_id obs = d \<and> do_subject_ref obs = i) \<longleftrightarrow>
    nd_id n = i \<and> \<not> obscured v i \<and> gap_of v n s d \<and>
    d \<in> {''intent_without_requirement'', ''requirement_without_intent'', ''undocumented_code''}"
proof -
  have "(\<exists>obs \<in> set (mapping_gaps v (n, s)). do_detector_id obs = d \<and> do_subject_ref obs = i) \<longleftrightarrow>
     nd_id n = i \<and> \<not> obscured v i \<and>
     (gap_of v n s ''intent_without_requirement'' \<and> d = ''intent_without_requirement'' \<or>
      gap_of v n s ''requirement_without_intent'' \<and> d = ''requirement_without_intent'' \<or>
      gap_of v n s ''undocumented_code'' \<and> d = ''undocumented_code'')"
    unfolding mapping_gaps_def prod.case linked_type_iff [OF assms] gap_of_simps
    by (cases "obscured v (nd_id n)"; simp only: if_True if_False set_append bex_Un bex_if_list found_simps) auto
  then show ?thesis unfolding pick_name(2) .
qed

lemma edge_gaps_iff:
  assumes "view_ok v"
  shows "(\<exists>e \<in> set (vw_edges v). \<exists>obs \<in> set (edge_gaps v e). do_detector_id obs = d \<and> do_subject_ref obs = i) \<longleftrightarrow>
    (\<exists>(n, s) \<in> set (vw_nodes v). nd_id n = i \<and> \<not> obscured v i \<and> gap_of v n s d \<and> d \<in> {''code_lag'', ''conflicting_sources''})"
proof -
  have mode: "nd_source_mode n = Some (sd_source_mode s)" if "(n, s) \<in> set (vw_nodes v)" for n s
    using assms that by (auto simp: view_ok_def)
  let ?lag = "\<lambda>e n s m t. ed_relation e = IMPLEMENTED_BY \<and> has_type [REQUIREMENT] n \<and> has_type IMPLEMENTATION_TYPES m \<and>
           nd_last_modified_at m < nd_last_modified_at n \<and> sd_current s \<and> sd_current t"
  let ?conflict = "\<lambda>e n s m t. ed_relation e = CONTRADICTS \<and> nd_source_mode n = Some EXPLICIT \<and> nd_source_mode m = Some EXPLICIT \<and>
           sd_current s \<and> sd_current t \<and> set (sd_authors s) \<noteq> set (sd_authors t)"
  have one: "(\<exists>obs \<in> set (edge_gaps v e). do_detector_id obs = d \<and> do_subject_ref obs = i) \<longleftrightarrow>
     (\<exists>n s m t. viewed v (ed_from_id e) = Some (n, s) \<and> viewed v (ed_to_id e) = Some (m, t) \<and>
        nd_id n = i \<and> \<not> obscured v i \<and> \<not> obscured v (nd_id m) \<and>
        (?lag e n s m t \<and> d = ''code_lag'' \<or> ?conflict e n s m t \<and> d = ''conflicting_sources''))" for e
  proof (cases "viewed v (ed_from_id e)"; cases "viewed v (ed_to_id e)")
    fix p q assume pq: "viewed v (ed_from_id e) = Some p" "viewed v (ed_to_id e) = Some q"
    obtain n s m t where "p = (n, s)" "q = (m, t)" by (metis surj_pair)
    then show ?thesis
      unfolding edge_gaps_def pq
      by (cases "obscured v (nd_id n) \<or> obscured v (nd_id m)";
          simp only: prod.case option.case if_True if_False set_append bex_Un bex_if_list found_simps) auto
  qed (simp_all add: edge_gaps_def)
  have lag: "(\<exists>e \<in> set (vw_edges v). \<exists>n s m t. viewed v (ed_from_id e) = Some (n, s) \<and> viewed v (ed_to_id e) = Some (m, t) \<and>
        nd_id n = i \<and> \<not> obscured v i \<and> \<not> obscured v (nd_id m) \<and> ?lag e n s m t) \<longleftrightarrow>
     (\<exists>(n, s) \<in> set (vw_nodes v). nd_id n = i \<and> \<not> obscured v i \<and> gap_of v n s ''code_lag'')"
    unfolding viewed_iff [OF assms] edge_pick gap_of_simps lagging_code_def reaches_target_def bex_pair fst_conv by blast
  have conflict: "(\<exists>e \<in> set (vw_edges v). \<exists>n s m t. viewed v (ed_from_id e) = Some (n, s) \<and> viewed v (ed_to_id e) = Some (m, t) \<and>
        nd_id n = i \<and> \<not> obscured v i \<and> \<not> obscured v (nd_id m) \<and> ?conflict e n s m t) \<longleftrightarrow>
     (\<exists>(n, s) \<in> set (vw_nodes v). nd_id n = i \<and> \<not> obscured v i \<and> gap_of v n s ''conflicting_sources'')"
    unfolding viewed_iff [OF assms] edge_pick gap_of_simps conflicting_def bex_pair using mode by fastforce
  have "(\<exists>e \<in> set (vw_edges v). \<exists>obs \<in> set (edge_gaps v e). do_detector_id obs = d \<and> do_subject_ref obs = i) \<longleftrightarrow>
      (\<exists>(n, s) \<in> set (vw_nodes v). nd_id n = i \<and> \<not> obscured v i \<and> gap_of v n s ''code_lag'') \<and> d = ''code_lag'' \<or>
      (\<exists>(n, s) \<in> set (vw_nodes v). nd_id n = i \<and> \<not> obscured v i \<and> gap_of v n s ''conflicting_sources'') \<and> d = ''conflicting_sources''"
    unfolding one lag [symmetric] conflict [symmetric] by blast
  then show ?thesis
    unfolding pick_name(1) [of "\<lambda>d. \<exists>(n, s) \<in> set (vw_nodes v). nd_id n = i \<and> \<not> obscured v i \<and> gap_of v n s d"] by auto
qed

lemma test_gaps_iff:
  assumes "view_ok v"
  shows "(\<exists>obs \<in> set (test_gaps v (n, s)). do_detector_id obs = d \<and> do_subject_ref obs = i) \<longleftrightarrow>
    nd_id n = i \<and> \<not> obscured v i \<and> gap_of v n s d \<and> d \<in> {''test_lag''}"
proof -
  let ?impl = "targets v IMPLEMENTED_BY IMPLEMENTATION_TYPES (nd_id n)" and ?test = "targets v VERIFIED_BY [TEST] (nd_id n)"
  have mem: "reaches_target v IMPLEMENTED_BY IMPLEMENTATION_TYPES (nd_id n) p \<longleftrightarrow> p \<in> set ?impl"
    "reaches_target v VERIFIED_BY [TEST] (nd_id n) p \<longleftrightarrow> p \<in> set ?test" for p
    by (simp_all add: set_targets [OF assms])
  have less: "max_list (map (nd_last_modified_at \<circ> fst) ts) < max_list (map (nd_last_modified_at \<circ> fst) ms) \<longleftrightarrow>
        (\<exists>p \<in> set ms. \<forall>q \<in> set ts. nd_last_modified_at (fst q) < nd_last_modified_at (fst p))"
    if "ms \<noteq> []" "ts \<noteq> []" for ms ts :: "(node \<times> evidence_side) list"
    using that by (subst max_list_less) auto
  have "gap_of v n s ''test_lag'' \<longleftrightarrow> has_type [REQUIREMENT] n \<and> ?impl \<noteq> [] \<and> ?test \<noteq> [] \<and>
      list_all (sd_current \<circ> snd) ((n, s) # ?impl @ ?test) \<and>
      max_list (map (nd_last_modified_at \<circ> fst) ?test) < max_list (map (nd_last_modified_at \<circ> fst) ?impl)"
  proof (cases "?impl = [] \<or> ?test = []")
    case True
    then show ?thesis unfolding gap_of_simps lagging_test_def mem by auto
  next
    case False
    then have "\<exists>p. p \<in> set ?test" using hd_in_set by blast
    with False show ?thesis
      unfolding gap_of_simps lagging_test_def mem by (subst less) (auto simp: list_all_iff ball_Un simp del: split_paired_Ex split_paired_All)
  qed
  then show ?thesis unfolding test_gaps_def by (auto simp: Let_def)
qed

lemma provenance_gaps_iff:
  assumes "view_ok v" "(n, s) \<in> set (vw_nodes v)"
  shows "(\<exists>obs \<in> set (provenance_gaps v (n, s)). do_detector_id obs = d \<and> do_subject_ref obs = i) \<longleftrightarrow>
    nd_id n = i \<and> \<not> obscured v i \<and> gap_of v n s d \<and> d \<in> {''relevant_provisional_intent'', ''stale_source_evidence''}"
proof -
  have mode: "nd_source_mode n = Some (sd_source_mode s)" using assms by (auto simp: view_ok_def)
  have reach: "reaches_implementation v (nd_id n) \<longleftrightarrow>
      (\<exists>j. visible_type v IMPLEMENTATION_TYPES j \<and> (joined v (nd_id n) j \<or> (\<exists>k. joined v (nd_id n) k \<and> joined v k j)))"
    if "has_type INTENT_TYPES n"
    using that intent_not_implementation visible_type_node [OF assms] by (intro reaches_implementation_iff [OF assms(1)]) blast
  have names: "has_type INTENT_TYPES n \<and> (nd_status n = ''provisional'' \<or> sd_source_mode s = INFERRED) \<and> sd_current s \<and>
      reaches_implementation v (nd_id n) \<longleftrightarrow> gap_of v n s ''relevant_provisional_intent''"
    "\<not> sd_current s \<longleftrightarrow> gap_of v n s ''stale_source_evidence''"
    unfolding gap_of_simps using reach by blast+
  have "(\<exists>obs \<in> set (provenance_gaps v (n, s)). do_detector_id obs = d \<and> do_subject_ref obs = i) \<longleftrightarrow>
     nd_id n = i \<and> \<not> obscured v i \<and>
     (gap_of v n s ''relevant_provisional_intent'' \<and> d = ''relevant_provisional_intent'' \<or>
      gap_of v n s ''stale_source_evidence'' \<and> d = ''stale_source_evidence'')"
    unfolding provenance_gaps_def prod.case mode option.inject names
    by (cases "obscured v (nd_id n)"; simp only: if_True if_False set_append bex_Un bex_if_list found_simps) auto
  then show ?thesis unfolding pick_name(1) .
qed

lemma all_gaps_iff:
  assumes "view_ok v"
  shows "(\<exists>obs \<in> set (all_gaps v). do_detector_id obs = d \<and> do_subject_ref obs = i) \<longleftrightarrow> gap v d i"
proof -
  let ?P = "\<lambda>obs. do_detector_id obs = d \<and> do_subject_ref obs = i" and ?ns = "set (vw_nodes v)"
  have parts: "(\<exists>obs \<in> set (all_gaps v). ?P obs) \<longleftrightarrow>
     (\<exists>p \<in> ?ns. \<exists>obs \<in> set (mapping_gaps v p). ?P obs) \<or> (\<exists>e \<in> set (vw_edges v). \<exists>obs \<in> set (edge_gaps v e). ?P obs) \<or>
     (\<exists>p \<in> ?ns. \<exists>obs \<in> set (test_gaps v p). ?P obs) \<or> (\<exists>p \<in> ?ns. \<exists>obs \<in> set (provenance_gaps v p). ?P obs)"
    by (simp only: all_gaps_def Let_def set_append bex_Un bex_concat set_sort)
  have mapping: "(\<exists>p \<in> ?ns. \<exists>obs \<in> set (mapping_gaps v p). ?P obs) \<longleftrightarrow> (\<exists>(n, s) \<in> ?ns. nd_id n = i \<and> \<not> obscured v i \<and> gap_of v n s d \<and>
        d \<in> {''intent_without_requirement'', ''requirement_without_intent'', ''undocumented_code''})"
    by (rule bex_pair_cong) (rule mapping_gaps_iff [OF assms])
  have test: "(\<exists>p \<in> ?ns. \<exists>obs \<in> set (test_gaps v p). ?P obs) \<longleftrightarrow>
        (\<exists>(n, s) \<in> ?ns. nd_id n = i \<and> \<not> obscured v i \<and> gap_of v n s d \<and> d \<in> {''test_lag''})"
    by (rule bex_pair_cong) (rule test_gaps_iff [OF assms])
  have provenance: "(\<exists>p \<in> ?ns. \<exists>obs \<in> set (provenance_gaps v p). ?P obs) \<longleftrightarrow>
        (\<exists>(n, s) \<in> ?ns. nd_id n = i \<and> \<not> obscured v i \<and> gap_of v n s d \<and> d \<in> {''relevant_provisional_intent'', ''stale_source_evidence''})"
    by (rule bex_pair_cong) (rule provenance_gaps_iff [OF assms])
  show ?thesis
    unfolding parts mapping edge_gaps_iff [OF assms] test provenance gap_def
    by (rule bex_pair_union [OF gap_of_names])
qed

section \<open>What is reported\<close>

lemma select_subjects:
  "do_subject_ref ` set (select_drift_observations xs) = do_subject_ref ` set xs"
  "distinct (map do_subject_ref (select_drift_observations xs))"
proof -
  let ?kept = "keep_first (sort_key selection_key xs)"
  have keys: "fst ` set ?kept = do_subject_ref ` set xs"
  proof -
    have "k \<in> fst ` set ?kept \<longleftrightarrow> (\<exists>obs \<in> set xs. do_subject_ref obs = k)" for k
      unfolding map_of_eq_None_iff [of ?kept k, THEN arg_cong [of _ _ Not], unfolded not_not, symmetric]
        keep_first_lookup find_None_iff by auto
    then have "fst ` set ?kept = {k. \<exists>obs \<in> set xs. do_subject_ref obs = k}"
      by (intro set_eqI) (simp only: mem_Collect_eq)
    then show ?thesis by auto
  qed
  have "set (map do_subject_ref (dict_values ?kept)) = fst ` set ?kept" by (simp add: keep_first_subjects)
  with keys show "do_subject_ref ` set (select_drift_observations xs) = do_subject_ref ` set xs"
    by (simp add: select_drift_observations_def)
  have "distinct (map do_subject_ref (dict_values ?kept))" by (simp add: keep_first_subjects keep_first_distinct)
  moreover have "mset (map do_subject_ref (select_drift_observations xs)) = mset (map do_subject_ref (dict_values ?kept))"
    by (simp add: select_drift_observations_def)
  ultimately show "distinct (map do_subject_ref (select_drift_observations xs))" by (metis mset_eq_imp_distinct_iff)
qed

lemma select_least:
  assumes "obs \<in> set (select_drift_observations xs)" "x \<in> set xs" "do_subject_ref x = do_subject_ref obs"
  shows "selection_key obs \<le> selection_key x"
proof -
  from assms(1) obtain k where "(k, obs) \<in> set (keep_first (sort_key selection_key xs))"
    by (auto simp: select_drift_observations_def dict_values_def)
  then have find: "find (\<lambda>obs. do_subject_ref obs = k) (sort_key selection_key xs) = Some obs" by (simp add: keep_first_mem)
  then have "do_subject_ref obs = k" by (auto simp: find_Some_iff)
  with find_sort_key_least [OF find assms(2)] assms(3) show ?thesis by simp
qed

definition rank_of :: "string \<Rightarrow> nat" where
  "rank_of d = (case map_of DETECTOR_ORDER d of None \<Rightarrow> 100 | Some n \<Rightarrow> n)"

lemma select_rank:
  assumes "obs \<in> set (select_drift_observations xs)" "x \<in> set xs" "do_subject_ref x = do_subject_ref obs"
  shows "rank_of (do_detector_id obs) \<le> rank_of (do_detector_id x)"
  using select_least [OF assms] by (auto simp: selection_key_def detector_rank_def rank_of_def)

lemma assurance_detect_Inr:
  assumes "assurance_detect actor reasoner sn = Inr out" "out \<noteq> [] \<or> consistent_snapshot sn"
  obtains v reasoned where "consistent_snapshot sn" "assurance_view_of actor sn = Inr v"
    "reasoned_gaps actor reasoner sn v = Inr reasoned"
    "out = filter (not_in_cases (as_cases sn)) (select_drift_observations (all_gaps v @ reasoned))"
  using assms by (auto simp: assurance_detect_def res_bind_Inr_iff split: if_splits)

text \<open>C27: Assurance reports exactly the gaps. On a consistent snapshot without a reasoner the subjects reported are
  those visible, unobscured nodes with a gap that no case is about already: each once, with the gap that comes
  first in the order of precedence among those it has. Fingerprints of cases are assumed to be of their own
  subjects.\<close>

theorem assurance_reports_gaps:
  assumes "assurance_detect actor None sn = Inr out" "consistent_snapshot sn" "distinct (map nd_id (g_nodes (as_graph sn)))"
    and "assurance_view_of actor sn = Inr v"
    and "\<forall>c \<in> set (as_cases sn). \<forall>obs \<in> set (all_gaps v). rc_fingerprint c = do_fingerprint obs \<longrightarrow> rc_subject_ref c = do_subject_ref obs"
  shows "do_subject_ref ` set out = {i. (\<exists>d. gap v d i) \<and> i \<notin> rc_subject_ref ` set (as_cases sn)} \<and>
    distinct (map do_subject_ref out) \<and>
    (\<forall>obs \<in> set out. gap v (do_detector_id obs) (do_subject_ref obs) \<and>
      (\<forall>d. gap v d (do_subject_ref obs) \<longrightarrow> rank_of (do_detector_id obs) \<le> rank_of d))"
proof -
  let ?sel = "select_drift_observations (all_gaps v)"
  have out: "out = filter (not_in_cases (as_cases sn)) ?sel"
    using assurance_detect_Inr [OF assms(1)] assms(2,4) by (fastforce simp: reasoned_gaps_def)
  note gaps = all_gaps_iff [OF view_sound(1) [OF assms(4,3)]]
  have sel: "obs \<in> set (all_gaps v)" if "obs \<in> set ?sel" for obs using select_subset that by blast
  have fresh: "not_in_cases (as_cases sn) obs \<longleftrightarrow> do_subject_ref obs \<notin> rc_subject_ref ` set (as_cases sn)" if "obs \<in> set ?sel" for obs
  proof -
    have "rc_subject_ref c = do_subject_ref obs" if "c \<in> set (as_cases sn)" "rc_fingerprint c = do_fingerprint obs" for c
      using assms(5) sel [OF \<open>obs \<in> set ?sel\<close>] that by blast
    then show ?thesis unfolding not_in_cases_def set_map by (metis (no_types, lifting) imageE imageI)
  qed
  have subjects: "do_subject_ref ` set ?sel = {i. \<exists>d. gap v d i}"
    unfolding select_subjects(1) by (auto simp: gaps [symmetric])
  have "do_subject_ref ` set out = {i. (\<exists>d. gap v d i) \<and> i \<notin> rc_subject_ref ` set (as_cases sn)}"
  proof -
    have "set out = {obs \<in> set ?sel. do_subject_ref obs \<notin> rc_subject_ref ` set (as_cases sn)}"
      unfolding out set_filter using fresh by (intro Collect_cong) blast
    then have "do_subject_ref ` set out = do_subject_ref ` set ?sel - rc_subject_ref ` set (as_cases sn)" by auto
    with subjects show ?thesis by auto
  qed
  moreover have "distinct (map do_subject_ref out)"
    unfolding out using select_subjects(2) by (simp add: distinct_map_filter)
  moreover have "gap v (do_detector_id obs) (do_subject_ref obs)" if "obs \<in> set out" for obs
    using that sel gaps by (auto simp: out)
  moreover have "rank_of (do_detector_id obs) \<le> rank_of d" if "obs \<in> set out" "gap v d (do_subject_ref obs)" for obs d
    using that gaps [of d "do_subject_ref obs"] select_rank [of obs "all_gaps v"] by (auto simp: out)
  ultimately show ?thesis by blast
qed

section \<open>What it rests on\<close>

definition seen_only :: "assurance_view \<Rightarrow> drift_observation \<Rightarrow> bool" where
  "seen_only v obs \<longleftrightarrow> set (do_evidence_sides obs) \<subseteq> snd ` set (vw_nodes v) \<and>
     insert (do_subject_ref obs) (set (do_affected_refs obs)) \<subseteq> set (view_ids (vw_nodes v)) \<and> \<not> obscured v (do_subject_ref obs)"

lemma seen_found:
  assumes "set affected \<subseteq> set (vw_nodes v)" "(n, s) \<in> set (vw_nodes v)" "\<not> obscured v (nd_id n)"
  shows "seen_only v (found n t d (map fst affected) (map snd affected))"
  using assms by (force simp: seen_only_def view_ids_def)

lemma all_gaps_seen:
  assumes "view_ok v" "obs \<in> set (all_gaps v)"
  shows "seen_only v obs"
proof -
  have single: "seen_only v (found n t d [n] [s])" if "(n, s) \<in> set (vw_nodes v)" "\<not> obscured v (nd_id n)" for n s t d
    using seen_found [of "[(n, s)]" v n s t d] that by simp
  have double: "seen_only v (found n t d [n, m] [s, u])"
    if "(n, s) \<in> set (vw_nodes v)" "(m, u) \<in> set (vw_nodes v)" "\<not> obscured v (nd_id n)" for n s m u t d
    using seen_found [of "[(n, s), (m, u)]" v n s t d] that by simp
  have targets: "set (targets v rel ts i) \<subseteq> set (vw_nodes v)" for rel ts i
    unfolding set_targets [OF assms(1)] by (auto simp: reaches_target_def)
  consider p where "p \<in> set (vw_nodes v)" "obs \<in> set (mapping_gaps v p)" | e where "obs \<in> set (edge_gaps v e)"
    | p where "p \<in> set (vw_nodes v)" "obs \<in> set (test_gaps v p)" | p where "p \<in> set (vw_nodes v)" "obs \<in> set (provenance_gaps v p)"
    using assms(2) by (auto simp: all_gaps_def Let_def)
  then show ?thesis
  proof cases
    case (1 p)
    then show ?thesis by (cases p) (auto simp: mapping_gaps_def intro: single split: if_splits)
  next
    case (2 e)
    then obtain p q where pq: "viewed v (ed_from_id e) = Some p" "viewed v (ed_to_id e) = Some q"
      by (cases "viewed v (ed_from_id e)"; cases "viewed v (ed_to_id e)") (auto simp: edge_gaps_def)
    obtain n s m u where eqs: "p = (n, s)" "q = (m, u)" by (metis surj_pair)
    have "(n, s) \<in> set (vw_nodes v)" "(m, u) \<in> set (vw_nodes v)"
      using pq viewed_iff [OF assms(1)] unfolding eqs by blast+
    with 2 show ?thesis unfolding edge_gaps_def pq eqs by (auto intro: double split: if_splits)
  next
    case (3 p)
    obtain n s where p: "p = (n, s)" by (cases p)
    let ?affected = "(n, s) # targets v IMPLEMENTED_BY IMPLEMENTATION_TYPES (nd_id n) @ targets v VERIFIED_BY [TEST] (nd_id n)"
    have "\<not> obscured v (nd_id n)" "obs = found n TEST_LAG ''test_lag'' (map fst ?affected) (map snd ?affected)"
      using 3(2) by (simp_all add: p test_gaps_def Let_def split: if_splits)
    moreover have "set ?affected \<subseteq> set (vw_nodes v)" using 3(1) targets by (auto simp: p)
    moreover have "(n, s) \<in> set (vw_nodes v)" using 3(1) by (simp add: p)
    ultimately show ?thesis using seen_found by blast
  next
    case (4 p)
    then show ?thesis by (cases p) (auto simp: provenance_gaps_def intro: single split: if_splits)
  qed
qed

lemma grounded_seen:
  assumes "grounded_reasoning v inp" "obs \<in> set (detect_drift inp)"
  shows "seen_only v obs"
proof -
  have grounded: "set (di_subject_ref inp # di_affected_refs inp) \<subseteq> set (view_ids (grounded_nodes v))"
    "list_all (\<lambda>side. case side of None \<Rightarrow> True | Some s \<Rightarrow> s \<in> set (map snd (grounded_nodes v)) \<and> sd_current s)
       [di_requirement inp, di_implementation inp, di_test inp, di_decision inp]"
    using assms(1) by (auto simp: grounded_reasoning_def Let_def split: option.splits)
  have "set (input_sides inp) \<subseteq> snd ` set (vw_nodes v)"
    using grounded(2) by (auto simp: input_sides_def grounded_nodes_def split: option.splits)
  moreover have "set (view_ids (grounded_nodes v)) = {i \<in> set (view_ids (vw_nodes v)). \<not> obscured v i}"
    by (force simp: view_ids_def grounded_nodes_def)
  ultimately show ?thesis
    using detect_drift_sides [OF assms(2)] grounded(1) by (auto simp: seen_only_def)
qed

lemma reasoned_gaps_seen:
  assumes "reasoned_gaps actor reasoner sn v = Inr reasoned" "obs \<in> set reasoned"
  shows "seen_only v obs"
proof (cases reasoner)
  case None
  with assms show ?thesis by (simp add: reasoned_gaps_def)
next
  case (Some detect)
  let ?step = "\<lambda>inp found. if \<not> grounded_reasoning v inp then Inl (ValueError ''ungrounded assurance reasoner output'')
      else Inr (found @ detect_drift inp)"
  from assms(1) Some obtain inputs where run: "fold_res ?step inputs [] = Inr reasoned"
    by (auto simp: reasoned_gaps_def res_bind_Inr_iff split: if_splits)
  have "\<forall>obs \<in> set reasoned. seen_only v obs"
    by (rule fold_res_invariant [OF run]) (use grounded_seen in \<open>auto split: if_splits\<close>)
  with assms(2) show ?thesis by blast
qed

text \<open>C28: Assurance fails closed. Whatever a reasoner answers, every observation is about visible nodes without
  edges into the invisible, and every reference it cites resolves to evidence all versions of which the actor may
  read. The reasoner itself is given only such nodes, edges between them, readable evidence, and cases that
  mention nothing else. No observation is about a subject of a case, and none about the subject of another.\<close>

theorem assurance_fails_closed:
  assumes "assurance_view_of actor sn = Inr v" "distinct (map nd_id (g_nodes (as_graph sn)))"
  shows "(\<forall>reasoner out. assurance_detect actor reasoner sn = Inr out \<longrightarrow>
      distinct (map do_subject_ref out) \<and> do_subject_ref ` set out \<inter> rc_subject_ref ` set (as_cases sn) = {} \<and>
      (\<forall>obs \<in> set out. seen_only v obs \<and>
        (\<forall>s \<in> set (do_evidence_sides obs). \<forall>ref \<in> set (sd_evidence_refs s). reference_readable actor (as_records sn) ref))) \<and>
    (let view = reasoner_snapshot actor sn v; ids = nd_id ` set (g_nodes (as_graph view)) in
      (\<forall>n \<in> set (g_nodes (as_graph view)). node_readable actor (as_records sn) n) \<and>
      (\<forall>e \<in> set (g_edges (as_graph view)). ed_from_id e \<in> ids \<and> ed_to_id e \<in> ids) \<and>
      (\<forall>r \<in> set (as_records view) \<union> ing_evidence ` set (as_ingestions view). evidence_allowed r (One actor)) \<and>
      (\<forall>c \<in> set (as_cases view). insert (rc_subject_ref c) (set (rc_affected_refs c)) \<subseteq> ids \<and>
        (\<forall>s \<in> set (rc_evidence_sides c). set (sd_evidence_refs s) \<subseteq> er_id ` set (as_records view))))"
proof -
  note ok = view_sound(1) [OF assms] and nodes = view_sound(2) [OF assms]
  let ?visible = "filter (\<lambda>r. evidence_allowed r (One actor)) (as_records sn)"
  have result: "distinct (map do_subject_ref out)" "do_subject_ref ` set out \<inter> rc_subject_ref ` set (as_cases sn) = {}"
    "obs \<in> set out \<Longrightarrow> seen_only v obs" if run: "assurance_detect actor reasoner sn = Inr out" for reasoner out obs
  proof (atomize (full), cases "out = []")
    case False
    obtain reasoned where "reasoned_gaps actor reasoner sn v = Inr reasoned"
      "out = filter (not_in_cases (as_cases sn)) (select_drift_observations (all_gaps v @ reasoned))"
      by (rule assurance_detect_Inr [OF run]) (use False assms(1) in auto)
    moreover have "seen_only v obs" if "obs \<in> set (all_gaps v @ reasoned)" for obs
      using that all_gaps_seen [OF ok] reasoned_gaps_seen calculation(1) by auto
    ultimately show "distinct (map do_subject_ref out) \<and> do_subject_ref ` set out \<inter> rc_subject_ref ` set (as_cases sn) = {} \<and>
        (obs \<in> set out \<longrightarrow> seen_only v obs)"
      using select_subjects(2) [of "all_gaps v @ reasoned"] select_subset [of "all_gaps v @ reasoned"]
      by (auto simp: not_in_cases_def distinct_map_filter)
  qed simp
  have readable: "reference_readable actor (as_records sn) ref"
    if seen: "seen_only v obs" "s \<in> set (do_evidence_sides obs)" and ref: "ref \<in> set (sd_evidence_refs s)" for obs s ref
  proof -
    obtain n where "(n, s) \<in> set (vw_nodes v)" using seen by (force simp: seen_only_def)
    from nodes [OF this] ref show ?thesis by (simp add: node_readable_def)
  qed
  let ?view = "reasoner_snapshot actor sn v" and ?ids = "nd_id ` set (g_nodes (as_graph (reasoner_snapshot actor sn v)))"
  have ids: "?ids = set (view_ids (vw_nodes v))"
    by (auto simp: reasoner_snapshot_def Let_def view_ids_def case_prod_unfold image_image)
  have records: "set (as_records ?view) = snd ` set (dict_of er_id ?visible)"
    by (simp add: reasoner_snapshot_def Let_def)
  have allowed: "evidence_allowed r (One actor)" if "(k, r) \<in> set (dict_of er_id ?visible)" for k r
    using dict_of_mem [OF that] by simp
  have keys: "set (map fst (dict_of er_id ?visible)) = er_id ` set (as_records ?view)"
    unfolding records set_map image_image by (rule image_cong [OF refl]) (use dict_of_mem in fastforce)
  have A: "\<forall>n \<in> set (g_nodes (as_graph ?view)). node_readable actor (as_records sn) n"
    using nodes by (auto simp: reasoner_snapshot_def Let_def)
  have B: "\<forall>e \<in> set (g_edges (as_graph ?view)). ed_from_id e \<in> ?ids \<and> ed_to_id e \<in> ?ids"
    unfolding ids by (simp add: reasoner_snapshot_def Let_def)
  have C: "\<forall>r \<in> set (as_records ?view) \<union> ing_evidence ` set (as_ingestions ?view). evidence_allowed r (One actor)"
  proof -
    have kept: "map_of (dict_of er_id ?visible) (er_id (ing_evidence i)) = Some (ing_evidence i)" if "i \<in> set (as_ingestions ?view)" for i
      using that by (simp add: reasoner_snapshot_def Let_def del: map_of_eq_Some_iff)
    have "evidence_allowed (ing_evidence i) (One actor)" if "i \<in> set (as_ingestions ?view)" for i
      by (rule allowed [OF map_of_SomeD [OF kept [OF that]]])
    moreover have "evidence_allowed r (One actor)" if r: "r \<in> set (as_records ?view)" for r
    proof -
      obtain k where "(k, r) \<in> set (dict_of er_id ?visible)" using r unfolding records by (metis imageE prod.collapse)
      then show ?thesis by (rule allowed)
    qed
    ultimately show ?thesis by blast
  qed
  have D: "\<forall>c \<in> set (as_cases ?view). insert (rc_subject_ref c) (set (rc_affected_refs c)) \<subseteq> ?ids \<and>
        (\<forall>s \<in> set (rc_evidence_sides c). set (sd_evidence_refs s) \<subseteq> er_id ` set (as_records ?view))"
    unfolding ids keys [symmetric] by (auto simp: reasoner_snapshot_def Let_def list_all_iff)
  have R: "distinct (map do_subject_ref out) \<and> do_subject_ref ` set out \<inter> rc_subject_ref ` set (as_cases sn) = {} \<and>
      (\<forall>obs \<in> set out. seen_only v obs \<and>
        (\<forall>s \<in> set (do_evidence_sides obs). \<forall>ref \<in> set (sd_evidence_refs s). reference_readable actor (as_records sn) ref))"
    if run: "assurance_detect actor reasoner sn = Inr out" for reasoner out
    using result(1,2) [OF run] result(3) [OF run] readable by blast
  show ?thesis
    unfolding Let_def by (rule conjI [OF _ conjI [OF A conjI [OF B conjI [OF C D]]]]) (intro allI impI, rule R)
qed

section \<open>A need nobody specified\<close>

definition assured_record :: evidence_record where
  "assured_record = (sample_evidence ''e1'' [''ana''])\<lparr>er_author := Some ''bo''\<rparr>"

definition assured_node :: node where
  "assured_node =
     \<lparr>nd_id = ''n1'', nd_type = Builtin NEED, nd_label = ''fast'', nd_status = ''active'', nd_created_by = ''bo'', nd_created_at = 1,
      nd_last_modified_by = ''bo'', nd_last_modified_at = 1, nd_source_mode = Some EXPLICIT,
      nd_intent_fidelity_confidence = Some (1/2), nd_confidence_basis = None, nd_last_reassessed_at = None,
      nd_implementation_status = None, nd_evidence_refs = [''e1'']\<rparr>"

definition assured_snapshot :: assurance_snapshot where
  "assured_snapshot =
     \<lparr>as_graph = \<lparr>g_id = ''g'', g_version = 1, g_schema_version = ''1'', g_name = None, g_purpose = None, g_created_at = None,
        g_source_spec = None, g_nodes = [assured_node], g_edges = [], g_extensions = []\<rparr>,
      as_records = [assured_record],
      as_ingestions = [\<lparr>ing_connector_id = ''git'', ing_sequence = 1, ing_predecessor_id = None, ing_evidence = assured_record\<rparr>],
      as_cases = []\<rparr>"

definition assured_side :: evidence_side where
  "assured_side =
     \<lparr>sd_label = ''NEED'', sd_claim = ''fast'', sd_evidence_refs = [''e1''], sd_observed_at = 3, sd_authors = [''bo''],
      sd_confidence = 1/2, sd_source_mode = EXPLICIT, sd_current = True\<rparr>"

definition assured_view :: assurance_view where
  "assured_view = \<lparr>vw_nodes = [(assured_node, assured_side)], vw_edges = [], vw_obscured = []\<rparr>"

lemma assured_view: "assurance_view_of ''ana'' assured_snapshot = Inr assured_view"
  by code_simp

lemma assured_facts:
  "consistent_snapshot assured_snapshot" "distinct (map nd_id (g_nodes (as_graph assured_snapshot)))" "as_cases assured_snapshot = []"
  "assurance_detect ''ana'' None assured_snapshot = Inr (select_drift_observations (all_gaps assured_view))"
proof -
  show consistent: "consistent_snapshot assured_snapshot" "distinct (map nd_id (g_nodes (as_graph assured_snapshot)))"
    "as_cases assured_snapshot = []"
    by (simp_all add: consistent_snapshot_def assured_snapshot_def)
  have "filter (not_in_cases []) xs = xs" for xs by (simp add: not_in_cases_def)
  with consistent show "assurance_detect ''ana'' None assured_snapshot = Inr (select_drift_observations (all_gaps assured_view))"
    by (simp add: assurance_detect_def assured_view reasoned_gaps_def)
qed

theorem assurance_reports_gaps_witness:
  "\<exists>out. assurance_detect ''ana'' None assured_snapshot = Inr out \<and> ''n1'' \<in> do_subject_ref ` set out"
proof -
  have "gap assured_view ''intent_without_requirement'' ''n1''"
    by (simp add: gap_def gap_of_simps assured_view_def assured_node_def assured_side_def obscured_def joined_def has_type_def
        node_type_def INTENT_TYPES_def)
  then show ?thesis
    using assurance_reports_gaps [OF assured_facts(4,1,2) assured_view] assured_facts(3,4) by auto
qed

theorem assurance_fails_closed_witness:
  "\<exists>out. assurance_detect ''ana'' None assured_snapshot = Inr out \<and> (\<forall>obs \<in> set out. seen_only assured_view obs)"
proof (intro exI conjI ballI)
  note * = assurance_fails_closed [OF assured_view assured_facts(2), THEN conjunct1, THEN spec, THEN spec, THEN mp, OF assured_facts(4)]
  show "assurance_detect ''ana'' None assured_snapshot = Inr (select_drift_observations (all_gaps assured_view))"
    by (rule assured_facts(4))
  show "seen_only assured_view obs" if "obs \<in> set (select_drift_observations (all_gaps assured_view))" for obs
    by (rule conjunct1 [OF bspec [OF conjunct2 [OF conjunct2 [OF *]] that]])
qed

end
