(* ===== verification/Spec2Isabelle.thy ===== *)
theory Spec2Isabelle
  imports Evidence_Detection Sync Context_Provider Reasoner Write_Commit Intent_Authorization Proposal_Store Preflight Conversation Post_Task Assurance
begin

text \<open>
  A verification development for the intent-engineering program (\<open>src/src/intent_engineering\<close>).

  \<^bold>\<open>The program.\<close> It keeps, beside the code of a project, a versioned graph of the intent behind it, the
  evidence that intent rests on, and the cases in which evidence and intent have drifted apart.
  Connectors (\<open>capture\<close>) discover versions of external objects and normalise them into immutable evidence
  records; a synchronisation run (\<open>sync\<close>) makes them durable in per-connector ledgers, lets a reasoner
  propose a ChangeSet, compares evidence with evidence (\<open>reconcile\<close>), opens reconciliation cases and
  advances checkpoints; a ChangeSet is the only way the graph changes (\<open>core/graph\<close>); a human resolves a
  case by approving the hash of exactly what was reviewed. All of it is stored in local files changed
  through a crash-safe transaction (\<open>storage\<close>).

  \<^bold>\<open>Theories, and the code each of them models.\<close>
  \<^item> \<open>Prelude\<close>: exceptions as values, the Python library functions the code uses (dictionaries as
    association lists, sorting, \<open>splitlines\<close>, \<open>strip\<close>, \<open>join\<close>), and the lemmas the components share.
  \<^item> \<open>Json\<close>: JSON values, the printer \<open>json.dumps\<close> and the strict decoder (\<open>storage/jsonl/strict.py\<close>) with
    their round trip.
  \<^item> \<open>Digest\<close>, \<open>Base64\<close>: SHA-256 and base 64 of the Python library, on 32-bit words and octets.
  \<^item> \<open>Enums\<close>, \<open>Graph_Model\<close>, \<open>Changeset\<close>, \<open>Applier\<close>: the vocabulary, the graph, the ChangeSet with every
    validator (\<open>core/models\<close>) and their application (\<open>core/graph/applier.py\<close>).
  \<^item> \<open>Reconciliation\<close>: observations and cases with their lifecycle (\<open>core/models/reconciliation.py\<close>,
    \<open>reconcile/service.py\<close>).
  \<^item> \<open>Ledger\<close>: the append-only text files all stores share, as the locale \<open>append_ledger\<close>.
  \<^item> \<open>Case_Store\<close>, \<open>History_Store\<close>, \<open>Evidence\<close>, \<open>Evidence_Store\<close>: the three ledgers
    (\<open>storage/jsonl\<close>), evidence records and the access policy (\<open>core/policy/access.py\<close>).
  \<^item> \<open>Detectors\<close>, \<open>Evidence_Detection\<close>: drift detectors, and what is compared (\<open>reconcile\<close>).
  \<^item> \<open>Transaction\<close>, \<open>Txn_Handle\<close>: the journalled transaction (\<open>storage/transaction.py\<close>), once as a function
    and once as steps between disk operations, and the handle a transaction's body works with.
  \<^item> \<open>Graph_Store\<close>, \<open>Executor\<close>: the graph file (\<open>storage/yaml/graph_store.py\<close>) and the executor that
    commits graph, history, cases and proposals together (\<open>storage/executor.py\<close>).
  \<^item> \<open>Local_Resolution\<close>: review, approval and resolution of a case (\<open>reconcile/local_resolution.py\<close>).
  \<^item> \<open>Checkpoint_Store\<close>, \<open>Capture\<close>, \<open>Sync_Result\<close>, \<open>Sync\<close>: checkpoints, the connector port, run results and
    the orchestrator (\<open>storage/yaml/checkpoint_store.py\<close>, \<open>capture/base.py\<close>, \<open>capture/checkpoints.py\<close>,
    \<open>sync\<close>).
  \<^item> \<open>Context_Provider\<close>: bounded context for a task, a symbol or exact references (\<open>context/provider.py\<close>,
    \<open>core/models/context.py\<close>); \<open>Reasoner\<close>: the deterministic reasoner (\<open>extract/deterministic.py\<close>).
  \<^item> \<open>Provider_Profile\<close>, \<open>Mutation_Models\<close>, \<open>Write_Approval\<close>: external writes. Profiles, bindings, selectors
    and argument bindings (\<open>capture/mcp/profile_models.py\<close>, \<open>capture/mcp/selectors.py\<close>); plans, approvals and
    receipts with their hashes (\<open>mutations/models.py\<close>); planning, authentication of the approver and approval
    (\<open>mutations/planner.py\<close>, \<open>mutations/authorization.py\<close>, \<open>mutations/approval.py\<close>).
  \<^item> \<open>Plan_Store\<close>, \<open>Receipt_Store\<close>: the immutable ledgers of plans and approvals, and the file of claims and
    receipts (\<open>storage/jsonl/approval_store.py\<close>, \<open>storage/jsonl/receipt_store.py\<close>). \<open>Write_Executor\<close>: one
    execution of an approved write as phases between its store operations and provider calls, and any
    number of executors interleaved on one store and interrupted anywhere (\<open>mutations/executor.py\<close>); what it
    needs of the store is the locale \<open>claim_store\<close>. \<open>Write_Commit\<close>: the transaction that commits a verified
    success (\<open>mutations/committer.py\<close>), and the interpretation of \<open>claim_store\<close> on the files.
  \<^item> \<open>Intent_Models\<close>, \<open>Intent_Authorization\<close>, \<open>Proposal_Store\<close>: the workflow of agents. Tasks, proposals,
    decisions and clarification sessions with their events (\<open>intent_workflow/models.py\<close>); the registry of
    short-lived capabilities (\<open>intent_workflow/authorization.py\<close>), whose random tokens are arguments and whose
    paths are checked as Python 3.12 does; the ledger of proposals, decisions and clarification events
    (\<open>intent_workflow/proposal_store.py\<close>). \<open>Preflight\<close>: the evaluation of an agent's classification of its
    task, with other processes writing between its lock scopes (\<open>intent_workflow/preflight.py\<close>).
    \<open>Conversation\<close>: the turns of a conversation as authenticated evidence, their locators and their capture
    (\<open>intent_workflow/conversation.py\<close>).
    \<open>Post_Task\<close>: the check of what an agent claims to have done with its capability, and the ChangeSet that links
    requirements to code and tests (\<open>intent_workflow/post_task.py\<close>).
    \<open>Assurance\<close>: the gaps a scheduled run finds in a snapshot, with an
    optional reasoner (\<open>intent_workflow/assurance.py\<close>).

  \<^bold>\<open>Conventions.\<close> A class is a record or datatype with a prefix per record; Pydantic validators are
  functions \<open>validate_...\<close> that return the exception or the value. A method that may raise returns
  \<open>exn + 'a\<close>. A method that works on files either maps the content of the file to its new content, or is an
  action that passes the state on and returns the new state also when it raises, since files keep what was
  written before an exception. Python integers are \<^typ>\<open>int\<close>, times are integers, strings are character
  lists whose characters stand for the text's code points below 256.

  \<^bold>\<open>Parameters.\<close> PyYAML and the field-by-field reading of Pydantic models are records of functions (the
  codecs). What is relied on of them is that they read back what they have written; it is stated for the
  values at hand in the theorems that need it and holds for the sample codecs of the witnesses.
  The reasoner, connectors, assurance service and case detector of the orchestrator are the values it is
  constructed with; nothing is assumed of them. The JSON Schema library and the rendering of times are
  parameters of the external-write theories; nothing is assumed of them either.

  \<^bold>\<open>What is proved.\<close> Application of a ChangeSet refines a map specification, keeps the graph well-formed
  and never loses an identity. Wherever the process stops, recovery leaves all files old or all new, unless an
  exception is raised after the commit mark. The executor and the resolution service inherit that atomicity; a case is resolved only under the hash of
  what was reviewed. The ledgers read back what is appended and keep their invariants (contiguous
  sequences, histories that extend one another, immutable evidence). Detectors obey their precedence and
  cite only readable evidence. A run consumes every ledger entry exactly once, and a failing connector
  leaves its checkpoint alone. However executors of external writes are interleaved and interrupted, the
  provider is called at most once for a plan and approval, only as an independent approval allows, and on
  a target in the planned state; a success is committed to all five files or none. A capability is
  consumed once, for what it was issued for; the registry stays bounded and holds valid grants only. In a
  readable proposal ledger sessions only grow, and a clarification proposal belongs to one settled session
  that is closed exactly when the proposal is decided. A task is authorised only on a
  snapshot that is still current, on readable and cited nodes without unsettled cases; a conflict is recorded
  once. A captured turn authenticates itself, and the turns a host captures are those preflight accepts. A task is
  recorded only under a live capability and on readable, current evidence of its commit and tests; then the graph
  links every requirement to the code and tests, and whatever the outcome the capability is gone. Assurance
  reports exactly the gaps of a declarative specification and rests on nothing the actor may not read. Some theorems show defects: a line separator in a
  case makes the ledger unreadable, a blank author aborts all detection, an exception after the commit mark
  can break atomicity, and the proposal ledger accepts events after which it cannot be read.

  \<^bold>\<open>Bounds and fuel.\<close> The JSON scanner takes fuel for the nesting of its recursion, two units for every
  character of the input and two more; \<open>parse_value_fuel\<close> proves that any larger amount gives the same
  result. An external write has no loop; the phases it is modelled in are left after seven steps, the fuel
  \<open>execute_write\<close> is given. The remaining loops are structural or have a termination proof.

  \<^bold>\<open>Not modelled.\<close> File locks, descriptors and POSIX calls (\<open>storage/secure.py\<close>, \<open>storage/_atomic.py\<close>):
  a transaction is assumed to hold its lock. Concrete connectors, the command line, the HTTP control plane,
  the MCP server and the agent host are input/output. The
  services that compose the modelled parts of the intent workflow (clarification, bootstrap,
  onboarding) are left out for want of room; nothing modelled depends on them; the validation service runs subprocesses.
\<close>

end
